(* ===== verification/Prelude.thy ===== *)
theory Prelude
  imports Main "HOL-Library.AList" "HOL-Library.Multiset" "HOL-Library.Char_ord"
begin

text \<open>
  The prelude of the library: what the TypeScript sources use of the language, and the
  lemmas the component theories share.

  \<^item> A string is a list of 8-bit characters, the UTF-8 bytes of the JavaScript string.  All
    separators, escapes and keywords the sources look for are ASCII, so no operation of the
    sources cuts a multi-byte character.  Letter case is converted for ASCII letters.
  \<^item> A JavaScript \<open>Map\<close> is the association list of its entries in insertion order:
    \<open>set\<close> is \<open>AList.update\<close> (in place for a known key, at the end for a new one),
    \<open>delete\<close> is \<open>AList.delete\<close>, \<open>get\<close> is \<open>map_of\<close>.
  \<^item> A JavaScript \<open>Set\<close> is the list of its elements in insertion order.
  \<^item> An object whose identity the code compares (\<open>===\<close>) is an \<open>obj\<close>: its address
    and its value.
  \<^item> \<open>Array.prototype.sort\<close> is the stable insertion sort \<open>js_sort\<close>; for a consistent
    comparator the language fixes the result uniquely.
\<close>

named_theorems map_simps \<open>reading an insertion-ordered map after an update\<close>
named_theorems step_defs \<open>the handlers of a component, unfolded in invariant proofs\<close>

section \<open>Maps, sets and objects\<close>

type_synonym ('k, 'v) omap = "('k \<times> 'v) list"

abbreviation om_get :: "('k, 'v) omap \<Rightarrow> 'k \<Rightarrow> 'v option" where
  "om_get m k \<equiv> map_of m k"

abbreviation om_set :: "'k \<Rightarrow> 'v \<Rightarrow> ('k, 'v) omap \<Rightarrow> ('k, 'v) omap" where
  "om_set k v m \<equiv> AList.update k v m"

abbreviation om_del :: "'k \<Rightarrow> ('k, 'v) omap \<Rightarrow> ('k, 'v) omap" where
  "om_del k m \<equiv> AList.delete k m"

definition om_has :: "('k, 'v) omap \<Rightarrow> 'k \<Rightarrow> bool" where
  "om_has m k \<longleftrightarrow> map_of m k \<noteq> None"

definition om_keys :: "('k, 'v) omap \<Rightarrow> 'k list" where
  "om_keys m = map fst m"

definition om_values :: "('k, 'v) omap \<Rightarrow> 'v list" where
  "om_values m = map snd m"

definition om_wf :: "('k, 'v) omap \<Rightarrow> bool" where
  "om_wf m \<longleftrightarrow> distinct (map fst m)"

lemma om_wf_Nil [simp]: "om_wf []"
  by (simp add: om_wf_def)

lemma om_wf_set [simp]: "om_wf m \<Longrightarrow> om_wf (om_set k v m)"
  by (simp add: om_wf_def distinct_update)

lemma om_wf_del [simp]: "om_wf m \<Longrightarrow> om_wf (om_del k m)"
  by (simp add: om_wf_def distinct_delete)

lemma om_get_set [simp, map_simps]: "om_get (om_set k v m) k' = (if k' = k then Some v else om_get m k')"
  by (simp add: update_conv)

lemma om_get_del [simp, map_simps]: "om_get (om_del k m) k' = (if k' = k then None else om_get m k')"
  by (simp add: delete_conv)

lemma om_has_set [simp]: "om_has (om_set k v m) k' \<longleftrightarrow> k' = k \<or> om_has m k'"
  by (simp add: om_has_def)

lemma om_has_del [simp]: "om_has (om_del k m) k' \<longleftrightarrow> k' \<noteq> k \<and> om_has m k'"
  by (simp add: om_has_def)

lemma om_get_eq_Some_iff: "om_wf m \<Longrightarrow> om_get m k = Some v \<longleftrightarrow> (k, v) \<in> set m"
  by (simp add: om_wf_def)

lemma om_values_iff: "om_wf m \<Longrightarrow> v \<in> set (om_values m) \<longleftrightarrow> (\<exists>k. om_get m k = Some v)"
  by (auto simp: om_values_def om_get_eq_Some_iff image_iff intro: bexI [rotated])

lemma om_set_fresh: "om_get m k = None \<Longrightarrow> om_set k v m = m @ [(k, v)]"
  by (induction m) (auto split: if_splits)

lemma om_del_fresh: "om_get m k = None \<Longrightarrow> om_del k m = m"
  by (induction m) (auto split: if_splits)

lemma om_del_snoc: "om_get m k = None \<Longrightarrow> om_del k (m @ [(k, v)]) = m"
  by (induction m) (auto split: if_splits)

lemma om_set_keys: "fst ` set (om_set k v m) = insert k (fst ` set m)"
  by (induction m) auto

lemma om_del_keys: "fst ` set (om_del k m) = fst ` set m - {k}"
  by (induction m) auto

lemma set_om_del: "set (om_del k m) \<subseteq> set m"
  by (induction m) auto

lemma set_om_set: "set (om_set k v m) \<subseteq> insert (k, v) (set m)"
  by (induction m) auto

text \<open>A \<open>Set\<close>: \<open>add\<close> keeps an element where it stands, \<open>delete\<close> removes it.\<close>

definition os_add :: "'a \<Rightarrow> 'a list \<Rightarrow> 'a list" where
  "os_add x xs = (if x \<in> set xs then xs else xs @ [x])"

definition os_del :: "'a \<Rightarrow> 'a list \<Rightarrow> 'a list" where
  "os_del x xs = filter (\<lambda>y. y \<noteq> x) xs"

lemma set_os_add [simp]: "set (os_add x xs) = insert x (set xs)"
  by (auto simp: os_add_def)

lemma set_os_del [simp]: "set (os_del x xs) = set xs - {x}"
  by (auto simp: os_del_def)

lemma distinct_os_add [simp]: "distinct xs \<Longrightarrow> distinct (os_add x xs)"
  by (simp add: os_add_def)

lemma distinct_os_del [simp]: "distinct xs \<Longrightarrow> distinct (os_del x xs)"
  by (simp add: os_del_def)

datatype 'a obj = Obj (oid: nat) (val: 'a)

section \<open>Lists\<close>

text \<open>\<open>findIndex\<close>: \<open>None\<close> where JavaScript returns \<open>-1\<close>.\<close>

fun find_index :: "('a \<Rightarrow> bool) \<Rightarrow> 'a list \<Rightarrow> nat option" where
  "find_index P [] = None"
| "find_index P (x # xs) = (if P x then Some 0 else map_option Suc (find_index P xs))"

lemma find_index_None: "find_index P xs = None \<longleftrightarrow> (\<forall>x \<in> set xs. \<not> P x)"
  by (induction xs) auto

lemma find_index_Some:
  "find_index P xs = Some i \<Longrightarrow> i < length xs \<and> P (xs ! i) \<and> (\<forall>j < i. \<not> P (xs ! j))"
proof (induction xs arbitrary: i)
  case Nil
  then show ?case by simp
next
  case (Cons x xs)
  show ?case
  proof (cases "P x")
    case True
    with Cons.prems show ?thesis by simp
  next
    case False
    with Cons.prems obtain k where k: "find_index P xs = Some k" "i = Suc k" by auto
    with Cons.IH [OF k(1)] False show ?thesis
      by (auto simp: less_Suc_eq_0_disj)
  qed
qed

lemma find_SomeD: "find P xs = Some x \<Longrightarrow> x \<in> set xs \<and> P x"
  by (induction xs) (auto split: if_splits)

lemma find_NoneD: "find P xs = None \<Longrightarrow> y \<in> set xs \<Longrightarrow> \<not> P y"
  by (simp add: find_None_iff)

lemma find_exists: "\<exists>x \<in> set xs. P x \<Longrightarrow> \<exists>y. find P xs = Some y"
  by (induction xs) auto

text \<open>\<open>xs.slice(-n)\<close>.\<close>

definition last_n :: "nat \<Rightarrow> 'a list \<Rightarrow> 'a list" where
  "last_n n xs = drop (length xs - n) xs"

lemma length_last_n [simp]: "length (last_n n xs) = min n (length xs)"
  by (simp add: last_n_def)

lemma set_last_n: "set (last_n n xs) \<subseteq> set xs"
  by (simp add: last_n_def set_drop_subset)

text \<open>\<open>xs.at(-1)\<close> and \<open>xs[0]\<close>: undefined on an empty array.\<close>

definition at_last :: "'a list \<Rightarrow> 'a option" where
  "at_last xs = (if xs = [] then None else Some (last xs))"

definition at_first :: "'a list \<Rightarrow> 'a option" where
  "at_first xs = (case xs of [] \<Rightarrow> None | x # _ \<Rightarrow> Some x)"

definition at_index :: "'a list \<Rightarrow> nat \<Rightarrow> 'a option" where
  "at_index xs i = (if i < length xs then Some (xs ! i) else None)"

section \<open>The stable sort of \<open>Array.prototype.sort\<close>\<close>

text \<open>
  \<open>cmp a b\<close> is the comparator's number.  An element moves before the ones it is strictly
  less than, and equal elements keep their order.
\<close>

fun js_insert :: "('a \<Rightarrow> 'a \<Rightarrow> int) \<Rightarrow> 'a \<Rightarrow> 'a list \<Rightarrow> 'a list" where
  "js_insert cmp x [] = [x]"
| "js_insert cmp x (y # ys) = (if cmp y x < 0 then y # js_insert cmp x ys else x # y # ys)"

definition js_sort :: "('a \<Rightarrow> 'a \<Rightarrow> int) \<Rightarrow> 'a list \<Rightarrow> 'a list" where
  "js_sort cmp xs = foldr (js_insert cmp) xs []"

text \<open>A consistent comparator, what the language asks of the argument of \<open>sort\<close>.\<close>

definition consistent_cmp :: "('a \<Rightarrow> 'a \<Rightarrow> int) \<Rightarrow> bool" where
  "consistent_cmp cmp \<longleftrightarrow>
     (\<forall>x. cmp x x = 0) \<and>
     (\<forall>x y. cmp x y < 0 \<longleftrightarrow> 0 < cmp y x) \<and>
     (\<forall>x y z. cmp x y \<le> 0 \<longrightarrow> cmp y z \<le> 0 \<longrightarrow> cmp x z \<le> 0)"

lemma set_js_insert [simp]: "set (js_insert cmp x xs) = insert x (set xs)"
  by (induction xs) auto

lemma length_js_insert [simp]: "length (js_insert cmp x xs) = Suc (length xs)"
  by (induction xs) auto

lemma mset_js_insert: "mset (js_insert cmp x xs) = add_mset x (mset xs)"
  by (induction xs) auto

lemma mset_js_sort [simp]: "mset (js_sort cmp xs) = mset xs"
  by (induction xs) (auto simp: js_sort_def mset_js_insert)

lemma set_js_sort [simp]: "set (js_sort cmp xs) = set xs"
  by (rule mset_eq_setD) simp

lemma length_js_sort [simp]: "length (js_sort cmp xs) = length xs"
  by (rule mset_eq_length) simp

lemma consistent_cmp_le_trans:
  "consistent_cmp cmp \<Longrightarrow> cmp x y \<le> 0 \<Longrightarrow> cmp y z \<le> 0 \<Longrightarrow> cmp x z \<le> 0"
  unfolding consistent_cmp_def by blast

lemma consistent_cmp_not_less: "consistent_cmp cmp \<Longrightarrow> \<not> cmp y x < 0 \<Longrightarrow> cmp x y \<le> 0"
  unfolding consistent_cmp_def by (metis not_less)

lemma consistent_cmp_not_greater: "consistent_cmp cmp \<Longrightarrow> cmp x y \<le> 0 \<Longrightarrow> \<not> cmp y x < 0"
  unfolding consistent_cmp_def by (metis not_less)

lemma sorted_js_insert:
  assumes "consistent_cmp cmp"
  shows "sorted_wrt (\<lambda>a b. cmp a b \<le> 0) xs \<Longrightarrow> sorted_wrt (\<lambda>a b. cmp a b \<le> 0) (js_insert cmp x xs)"
proof (induction xs)
  case Nil
  show ?case by simp
next
  case (Cons y ys)
  show ?case
  proof (cases "cmp y x < 0")
    case True
    with Cons show ?thesis by auto
  next
    case False
    then have le: "cmp x y \<le> 0" by (rule consistent_cmp_not_less [OF assms])
    moreover have "cmp x z \<le> 0" if "z \<in> set ys" for z
      using le Cons.prems that consistent_cmp_le_trans [OF assms] by auto
    ultimately show ?thesis using Cons.prems False by auto
  qed
qed

lemma sorted_js_sort:
  "consistent_cmp cmp \<Longrightarrow> sorted_wrt (\<lambda>a b. cmp a b \<le> 0) (js_sort cmp xs)"
  by (induction xs) (auto simp: js_sort_def sorted_js_insert)

text \<open>Stability: the elements equal to one another keep their order.\<close>

lemma filter_js_insert_other:
  "\<not> P x \<Longrightarrow> filter P (js_insert cmp x xs) = filter P xs"
  by (induction xs) auto

lemma filter_js_insert_class:
  assumes "P x" and "\<forall>y. P y \<longrightarrow> \<not> cmp y x < 0"
  shows "filter P (js_insert cmp x xs) = x # filter P xs"
  using assms by (induction xs) auto

lemma js_sort_stable:
  assumes "\<And>x y. P x \<Longrightarrow> P y \<Longrightarrow> \<not> cmp x y < 0"
  shows "filter P (js_sort cmp xs) = filter P xs"
proof (induction xs)
  case Nil
  show ?case by (simp add: js_sort_def)
next
  case (Cons x xs)
  have step: "js_sort cmp (x # xs) = js_insert cmp x (js_sort cmp xs)"
    by (simp add: js_sort_def)
  show ?case
  proof (cases "P x")
    case True
    then have "filter P (js_insert cmp x (js_sort cmp xs)) = x # filter P (js_sort cmp xs)"
      using assms by (intro filter_js_insert_class) auto
    with True Cons step show ?thesis by simp
  next
    case False
    with Cons step show ?thesis by (simp add: filter_js_insert_other)
  qed
qed

text \<open>
  The comparators of the sources have the form \<open>a || b\<close> (the first that is not zero).
\<close>

definition cmp_then :: "('a \<Rightarrow> 'a \<Rightarrow> int) \<Rightarrow> ('a \<Rightarrow> 'a \<Rightarrow> int) \<Rightarrow> 'a \<Rightarrow> 'a \<Rightarrow> int" where
  "cmp_then f g x y = (if f x y \<noteq> 0 then f x y else g x y)"

lemma consistent_cmp_key: "consistent_cmp (\<lambda>x y. k x - k y)" for k :: "'a \<Rightarrow> int"
  by (auto simp: consistent_cmp_def)

lemma consistent_cmp_inv: "consistent_cmp lc \<Longrightarrow> consistent_cmp (\<lambda>x y. lc (k x) (k y))"
  unfolding consistent_cmp_def by blast

lemma consistent_cmp_then:
  assumes f: "consistent_cmp f" and g: "consistent_cmp g"
  shows "consistent_cmp (cmp_then f g)"
proof -
  have refl: "cmp_then f g x x = 0" for x
    using f g by (auto simp: cmp_then_def consistent_cmp_def)
  have anti: "cmp_then f g x y < 0 \<longleftrightarrow> 0 < cmp_then f g y x" for x y
  proof -
    have "f x y < 0 \<longleftrightarrow> 0 < f y x" "f y x < 0 \<longleftrightarrow> 0 < f x y" "g x y < 0 \<longleftrightarrow> 0 < g y x"
      using f g unfolding consistent_cmp_def by blast+
    then show ?thesis by (auto simp: cmp_then_def)
  qed
  have trans: "cmp_then f g x z \<le> 0"
    if xy: "cmp_then f g x y \<le> 0" and yz: "cmp_then f g y z \<le> 0" for x y z
  proof -
    have fxy: "f x y \<le> 0" and fyz: "f y z \<le> 0"
      using xy yz by (auto simp: cmp_then_def split: if_splits)
    then have fxz: "f x z \<le> 0" by (rule consistent_cmp_le_trans [OF f])
    show ?thesis
    proof (cases "f x z = 0")
      case True
      have fzx: "f z x = 0"
        using True f unfolding consistent_cmp_def by (metis linorder_neqE less_irrefl)
      have "f y x \<le> 0" using fyz fzx consistent_cmp_le_trans [OF f, of y z x] by simp
      then have "f x y = 0"
        using fxy f unfolding consistent_cmp_def by (metis order_le_less not_less)
      moreover have "f z y \<le> 0" using fzx \<open>f x y \<le> 0\<close> consistent_cmp_le_trans [OF f, of z x y] by simp
      then have "f y z = 0"
        using fyz f unfolding consistent_cmp_def by (metis order_le_less not_less)
      ultimately have "g x y \<le> 0" "g y z \<le> 0"
        using xy yz by (simp_all add: cmp_then_def)
      then have "g x z \<le> 0" by (rule consistent_cmp_le_trans [OF g])
      with True show ?thesis by (simp add: cmp_then_def)
    next
      case False
      with fxz show ?thesis by (simp add: cmp_then_def)
    qed
  qed
  show ?thesis unfolding consistent_cmp_def using refl anti trans by blast
qed

text \<open>A concrete collation, code unit order, to apply the results at concrete inputs.\<close>

fun code_unit_compare :: "string \<Rightarrow> string \<Rightarrow> int" where
  "code_unit_compare [] [] = 0"
| "code_unit_compare [] (y # ys) = -1"
| "code_unit_compare (x # xs) [] = 1"
| "code_unit_compare (x # xs) (y # ys) =
     (if x = y then code_unit_compare xs ys
      else if (of_char x :: nat) < of_char y then -1 else 1)"

lemma code_unit_compare_refl: "code_unit_compare xs xs = 0"
  by (induction xs) auto

lemma code_unit_compare_antisym: "code_unit_compare xs ys = - code_unit_compare ys xs"
proof (induction xs ys rule: code_unit_compare.induct)
  case (4 x xs y ys)
  have "(of_char x :: nat) = of_char y \<longleftrightarrow> x = y" by simp
  with 4 show ?case by auto
qed auto

lemma code_unit_compare_trans:
  "code_unit_compare xs ys \<le> 0 \<Longrightarrow> code_unit_compare ys zs \<le> 0 \<Longrightarrow> code_unit_compare xs zs \<le> 0"
proof (induction xs ys arbitrary: zs rule: code_unit_compare.induct)
  case (2 y ys)
  then show ?case by (cases zs) auto
next
  case (4 x xs y ys)
  show ?case
  proof (cases zs)
    case Nil
    with 4 show ?thesis by simp
  next
    case (Cons z zs')
    with 4 show ?thesis by (auto split: if_splits)
  qed
next
  case 1
  then show ?case by simp
next
  case 3
  then show ?case by simp
qed

lemma consistent_code_unit_compare: "consistent_cmp code_unit_compare"
  unfolding consistent_cmp_def
  using code_unit_compare_refl code_unit_compare_antisym code_unit_compare_trans
  by (metis neg_less_0_iff_less)

section \<open>Folds\<close>

text \<open>One step of a fold establishes what every step keeps.\<close>

lemma those_None: "those xs = None \<longleftrightarrow> None \<in> set xs"
  by (induction xs) (auto split: option.split)

lemma fold_keeps: "(\<And>y w. y \<in> set xs \<Longrightarrow> P w \<Longrightarrow> P (f y w)) \<Longrightarrow> P w \<Longrightarrow> P (fold f xs w)"
  by (induction xs arbitrary: w) auto

lemma fold_establishes:
  assumes "x \<in> set xs"
    and "\<And>y w. y \<in> set xs \<Longrightarrow> I w \<Longrightarrow> I (f y w)"
    and "\<And>w. I w \<Longrightarrow> P (f x w)"
    and "\<And>y w. y \<in> set xs \<Longrightarrow> I w \<Longrightarrow> P w \<Longrightarrow> P (f y w)"
    and "I w"
  shows "P (fold f xs w)"
  using assms
proof (induction xs arbitrary: w)
  case (Cons a xs)
  show ?case
  proof (cases "x \<in> set xs")
    case True
    have "I (f a w)" using Cons.prems by simp
    then show ?thesis using Cons.IH [OF True] Cons.prems by simp
  next
    case False
    then have "a = x" using Cons.prems(1) by auto
    then have "P (f a w)" "I (f a w)" using Cons.prems by auto
    then have "P (fold f xs (f a w)) \<and> I (fold f xs (f a w))"
      using Cons.prems by (intro fold_keeps [where P = "\<lambda>w. P w \<and> I w"]) auto
    then show ?thesis by simp
  qed
qed simp

end
