(* ===== verification/Interfaces.thy ===== *)
theory Interfaces
  imports Prelude
begin

text \<open>
  The contracts several components share, as locales.

  \<^item> \<open>registry\<close>: a service that hands out a disposer for every registration, refuses a
    second registration under a key, and whose disposer removes its own registration only.
  \<^item> \<open>ordered_registry\<close>: a registry that also enumerates its entries in the order of a
    comparator.
  \<^item> \<open>latest_wins\<close>: an asynchronous operation split at its \<open>await\<close> into a start, which
    draws a ticket, and a completion, which is ignored unless its ticket is still the newest.

  Each is interpreted on the model of every component that provides it, in the theory of the
  component.
\<close>

text \<open>
  The map of a registry: one entry per key, under the key of its descriptor.
\<close>

definition keyed :: "('d \<Rightarrow> 'k) \<Rightarrow> ('k, 'd) omap \<Rightarrow> bool" where
  "keyed key m \<longleftrightarrow> om_wf m \<and> (\<forall>k d. om_get m k = Some d \<longrightarrow> key d = k)"

lemma keyed_Nil [simp]: "keyed key []"
  by (simp add: keyed_def)

lemma keyed_set [simp]: "keyed key m \<Longrightarrow> keyed key (om_set (key d) d m)"
  by (auto simp: keyed_def)

lemma keyed_del [simp]: "keyed key m \<Longrightarrow> keyed key (om_del k m)"
  by (auto simp: keyed_def)

lemma keyed_values: "keyed key m \<Longrightarrow> d \<in> set (om_values m) \<longleftrightarrow> om_get m (key d) = Some d"
  by (auto simp: keyed_def om_values_iff)

lemma keyed_distinct: "keyed key m \<Longrightarrow> distinct (om_values m)"
  unfolding om_values_def
proof (induction m)
  case (Cons e m)
  obtain k d where e: "e = (k, d)" by fastforce
  have wf: "om_wf m" and k: "k \<notin> fst ` set m" and d: "key d = k"
    using Cons.prems by (auto simp: keyed_def om_wf_def e)
  have rest: "key d' = k'" if "om_get m k' = Some d'" for k' d'
  proof -
    have "k' \<noteq> k" using that k by (force dest: map_of_SomeD)
    then show ?thesis using Cons.prems that by (simp add: keyed_def e)
  qed
  then have "keyed key m" using wf by (simp add: keyed_def)
  moreover have "d \<notin> set (map snd m)"
  proof
    assume "d \<in> set (map snd m)"
    then obtain k' where "(k', d) \<in> set m" by auto
    then have "om_get m k' = Some d" using wf by (simp add: om_wf_def)
    then show False using rest d k \<open>(k', d) \<in> set m\<close> by force
  qed
  ultimately show ?case using Cons.IH by (simp add: e)
qed simp

lemma distinct_js_sort: "distinct xs \<Longrightarrow> distinct (js_sort cmp xs)"
  using mset_eq_imp_distinct_iff [OF mset_js_sort] by blast

locale registry =
  fixes look :: "'s \<Rightarrow> 'k \<Rightarrow> 'd option"
    and enter :: "'d \<Rightarrow> 's \<Rightarrow> 'e + 's"
    and leave :: "'d \<Rightarrow> 's \<Rightarrow> 's"
    and key_of :: "'d \<Rightarrow> 'k"
    and inv :: "'s \<Rightarrow> bool"
  assumes enter_taken: "inv s \<Longrightarrow> look s (key_of d) \<noteq> None \<Longrightarrow> \<exists>e. enter d s = Inl e"
    and enter_ok: "inv s \<Longrightarrow> enter d s = Inr s' \<Longrightarrow> look s' = (look s)(key_of d \<mapsto> d) \<and> inv s'"
    and leave_look: "inv s \<Longrightarrow>
      look (leave d s) = (if look s (key_of d) = Some d then (look s)(key_of d := None) else look s)"
    and leave_inv: "inv s \<Longrightarrow> inv (leave d s)"
begin

lemma enter_fresh: "inv s \<Longrightarrow> enter d s = Inr s' \<Longrightarrow> look s (key_of d) = None"
  using enter_taken by (metis Inl_Inr_False option.exhaust_sel)

lemma leave_undoes_enter: "inv s \<Longrightarrow> enter d s = Inr s' \<Longrightarrow> look (leave d s') = look s"
  using enter_ok [of s d s'] enter_fresh [of s d s'] leave_look [of s' d]
  by (auto simp: fun_upd_idem_iff)

lemma stale_leave: "inv s \<Longrightarrow> look s (key_of d) \<noteq> Some d \<Longrightarrow> look (leave d s) = look s"
  by (simp add: leave_look)

lemma leave_twice: "inv s \<Longrightarrow> look (leave d (leave d s)) = look (leave d s)"
  by (simp add: leave_look leave_inv)

lemma leave_other: "inv s \<Longrightarrow> k \<noteq> key_of d \<Longrightarrow> look (leave d s) k = look s k"
  by (simp add: leave_look)

lemma reregistration_survives:
  assumes "inv s" and "enter d s = Inr s1" and "enter d' (leave d s1) = Inr s2"
    and "key_of d' = key_of d" and "d' \<noteq> d"
  shows "look (leave d s2) (key_of d) = Some d'"
proof -
  have i1: "inv s1" using enter_ok assms(1,2) by blast
  then have i2: "inv (leave d s1)" by (rule leave_inv)
  then have "look s2 (key_of d) = Some d'" "inv s2"
    using enter_ok [OF i2 assms(3)] assms(4) by auto
  then show ?thesis using assms(5) by (simp add: stale_leave)
qed

end

locale ordered_registry = registry look enter leave key_of inv
  for look :: "'s \<Rightarrow> 'k \<Rightarrow> 'd option"
    and enter :: "'d \<Rightarrow> 's \<Rightarrow> 'e + 's"
    and leave :: "'d \<Rightarrow> 's \<Rightarrow> 's"
    and key_of :: "'d \<Rightarrow> 'k"
    and inv :: "'s \<Rightarrow> bool" +
  fixes enum :: "('d \<Rightarrow> 'd \<Rightarrow> int) \<Rightarrow> 's \<Rightarrow> 'd list"
  assumes enum_set: "inv s \<Longrightarrow> d \<in> set (enum cmp s) \<longleftrightarrow> look s (key_of d) = Some d"
    and enum_distinct: "inv s \<Longrightarrow> distinct (enum cmp s)"
    and enum_sorted: "consistent_cmp cmp \<Longrightarrow> sorted_wrt (\<lambda>a b. cmp a b \<le> 0) (enum cmp s)"
begin

lemma enum_enter:
  assumes i: "inv s" and e: "enter d s = Inr s'"
  shows "set (enum cmp s') = insert d (set (enum cmp s))"
proof -
  have l: "look s' = (look s)(key_of d \<mapsto> d)" and i': "inv s'" using enter_ok [OF i e] by auto
  have n: "look s (key_of d) = None" using enter_fresh [OF i e] .
  have "x \<in> set (enum cmp s') \<longleftrightarrow> x \<in> insert d (set (enum cmp s))" for x
    using enum_set [OF i, of x cmp] enum_set [OF i', of x cmp] l n
    by (cases "key_of x = key_of d") auto
  then show ?thesis by blast
qed

lemma enum_leave:
  assumes i: "inv s"
  shows "set (enum cmp (leave d s)) = set (enum cmp s) - {d}"
proof -
  have "x \<in> set (enum cmp (leave d s)) \<longleftrightarrow> x \<in> set (enum cmp s) \<and> x \<noteq> d" for x
    using enum_set [OF i, of x cmp] enum_set [OF leave_inv [OF i], of x cmp d] leave_look [OF i, of d]
    by (cases "key_of x = key_of d") (auto split: if_splits)
  then show ?thesis by blast
qed

text \<open>The first entry that satisfies a test is minimal among all that do.\<close>

lemma first_match_minimal:
  assumes i: "inv s" and c: "consistent_cmp cmp" and f: "find P (enum cmp s) = Some d"
    and "look s (key_of d') = Some d'" and "P d'"
  shows "cmp d d' \<le> 0"
proof -
  obtain k where k: "k < length (enum cmp s)" "d = enum cmp s ! k" "\<forall>j < k. \<not> P (enum cmp s ! j)"
    using f by (auto simp: find_Some_iff)
  have "d' \<in> set (enum cmp s)" using assms(4) enum_set [OF i, of d' cmp] by simp
  then obtain j where j: "j < length (enum cmp s)" "d' = enum cmp s ! j" by (auto simp: in_set_conv_nth)
  with k assms(5) have "k \<le> j" by (meson not_less)
  then show ?thesis
    using enum_sorted [OF c, of s] c k j
    by (cases "k = j") (auto simp: sorted_wrt_iff_nth_less consistent_cmp_def)
qed

end

locale latest_wins =
  fixes ticket :: "'s \<Rightarrow> nat"
    and start :: "'s \<Rightarrow> 's \<times> nat"
    and finish :: "nat \<Rightarrow> 'r \<Rightarrow> 's \<Rightarrow> 's"
    and other :: "'e \<Rightarrow> 's \<Rightarrow> 's"
    and seen :: "'s \<Rightarrow> 'v"
    and inv :: "'s \<Rightarrow> bool"
  assumes start_ticket: "inv s \<Longrightarrow> start s = (s', t) \<Longrightarrow> ticket s' = t \<and> ticket s < t"
    and finish_stale: "t \<noteq> ticket s \<Longrightarrow> seen (finish t r s) = seen s"
    and other_ticket: "inv s \<Longrightarrow> ticket s \<le> ticket (other e s)"
    and start_inv: "inv s \<Longrightarrow> start s = (s', t) \<Longrightarrow> inv s'"
    and other_inv: "inv s \<Longrightarrow> inv (other e s)"
begin

text \<open>
  A history is a list of the component's operations, starts and completions among them.
\<close>

lemma history_inv: "inv s \<Longrightarrow> inv (fold other es s)"
  by (induction es arbitrary: s) (simp_all add: other_inv)

lemma history_ticket: "inv s \<Longrightarrow> ticket s \<le> ticket (fold other es s)"
proof (induction es arbitrary: s)
  case (Cons e es)
  then show ?case using other_ticket [of s e] other_inv [of s e] by (force intro: order_trans)
qed simp

text \<open>Once a second start has superseded a first, the first never shows.\<close>

lemma superseded_ticket:
  assumes i: "inv s" and "start s = (s1, t)" and "start (fold other es s1) = (s2, u)"
  shows "t \<noteq> ticket (fold other fs s2)"
proof -
  have i1: "inv s1" using i assms(2) by (rule start_inv)
  then have i1': "inv (fold other es s1)" by (rule history_inv)
  then have i2: "inv s2" using assms(3) by (rule start_inv)
  have "t \<le> ticket (fold other es s1)"
    using start_ticket [OF i assms(2)] history_ticket [OF i1] by simp
  also have "\<dots> < u" using start_ticket [OF i1' assms(3)] by simp
  also have "u \<le> ticket (fold other fs s2)"
    using start_ticket [OF i1' assms(3)] history_ticket [OF i2] by simp
  finally show ?thesis by simp
qed

lemma superseded_never_shows:
  "inv s \<Longrightarrow> start s = (s1, t) \<Longrightarrow> start (fold other es s1) = (s2, u) \<Longrightarrow>
   seen (finish t r (fold other fs s2)) = seen (fold other fs s2)"
  by (rule finish_stale) (rule superseded_ticket)

end

end
