(* ===== verification/Events.thy ===== *)
theory Events
  imports Prelude
begin

text \<open>
  \<open>packages/ui/src/widgets/event.ts\<close>: \<open>DisposableStore\<close> and \<open>Emitter\<close>.

  A disposable is a value; disposing it acts on a world and may throw
  (\<open>disp d w = (w', Some e)\<close>).  A listener's callback may call the emitter it hangs on, so
  it acts on the pair of emitter and world and may throw.  Each subscription is an entry with
  an identity of its own (a fresh number), which is what \<open>indexOf\<close> and \<open>includes\<close>
  compare.  \<open>deliver\<close> also returns the entries it called, in order.
\<close>

section \<open>DisposableStore\<close>

record 'd store =
  st_items :: "'d list"
  st_disposed :: bool

definition new_store :: "'d store" where
  "new_store = \<lparr>st_items = [], st_disposed = False\<rparr>"

definition store_add ::
  "('d \<Rightarrow> 'w \<Rightarrow> 'w \<times> 'x option) \<Rightarrow> 'd \<Rightarrow> 'd store \<times> 'w \<Rightarrow> ('d store \<times> 'w) \<times> 'x option" where
  "store_add disp d sw =
     (case sw of (st, w) \<Rightarrow>
        if st_disposed st then (case disp d w of (w', x) \<Rightarrow> ((st, w'), x))
        else ((st\<lparr>st_items := st_items st @ [d]\<rparr>, w), None))"

text \<open>The loop pops from the end; \<open>rs\<close> is the reverse of what is left.\<close>

fun pop_all ::
  "('d \<Rightarrow> 'w \<Rightarrow> 'w \<times> 'x option) \<Rightarrow> 'd list \<Rightarrow> 'w \<Rightarrow> ('d list \<times> 'w) \<times> 'x option" where
  "pop_all disp [] w = (([], w), None)"
| "pop_all disp (d # rs) w =
     (case disp d w of
        (w', Some x) \<Rightarrow> ((rs, w'), Some x)
      | (w', None) \<Rightarrow> pop_all disp rs w')"

definition store_dispose ::
  "('d \<Rightarrow> 'w \<Rightarrow> 'w \<times> 'x option) \<Rightarrow> 'd store \<times> 'w \<Rightarrow> ('d store \<times> 'w) \<times> 'x option" where
  "store_dispose disp sw =
     (case sw of (st, w) \<Rightarrow>
        if st_disposed st then (sw, None)
        else (case pop_all disp (rev (st_items st)) w of
          ((rs, w'), x) \<Rightarrow> ((\<lparr>st_items = rev rs, st_disposed = True\<rparr>, w'), x)))"

lemma pop_all_quiet:
  assumes "\<And>d w. snd (disp d w) = None"
  shows "pop_all disp rs w = (([], fold (\<lambda>d w. fst (disp d w)) rs w), None)"
proof (induction rs arbitrary: w)
  case (Cons d rs)
  obtain w' x where d: "disp d w = (w', x)" by fastforce
  moreover have "x = None" using assms [of d w] d by simp
  ultimately show ?case using Cons by simp
qed simp

text \<open>
  Disposing a store disposes what was added, each thing once, last in first out; the
  store is then spent (a second \<open>dispose\<close> does nothing, a later \<open>add\<close> disposes its
  argument at once and keeps nothing).
\<close>

theorem store_dispose_lifo:
  assumes quiet: "\<And>d w. snd (disp d w) = None" and open_store: "\<not> st_disposed st"
    and ran: "store_dispose disp (st, w) = ((st', w'), x)"
  shows "x = None \<and> w' = fold (\<lambda>d w. fst (disp d w)) (rev (st_items st)) w
    \<and> store_dispose disp (st', w') = ((st', w'), None)
    \<and> store_add disp d (st', w') = ((st', fst (disp d w')), None)"
proof -
  have st': "st' = \<lparr>st_items = [], st_disposed = True\<rparr>" and x: "x = None"
    and w': "w' = fold (\<lambda>d w. fst (disp d w)) (rev (st_items st)) w"
    using ran open_store by (auto simp: store_dispose_def pop_all_quiet [OF quiet])
  obtain v y where v: "disp d w' = (v, y)" by fastforce
  then have "y = None" using quiet [of d w'] by simp
  with v have "store_add disp d (st', w') = ((st', fst (disp d w')), None)"
    by (simp add: st' store_add_def)
  then show ?thesis using x w' by (simp add: st' store_dispose_def)
qed

theorem store_dispose_lifo_witness:
  "store_dispose (\<lambda>d w. (w @ [d], None :: unit option)) (\<lparr>st_items = [1, 2, 3], st_disposed = False\<rparr>, [0 :: nat])
     = ((\<lparr>st_items = [], st_disposed = True\<rparr>, [0, 3, 2, 1]), None)
   \<and> store_add (\<lambda>d w. (w @ [d], None :: unit option)) 9 (\<lparr>st_items = [], st_disposed = True\<rparr>, [0 :: nat, 3, 2, 1])
     = ((\<lparr>st_items = [], st_disposed = True\<rparr>, [0, 3, 2, 1, 9]), None)"
proof -
  let ?disp = "\<lambda>d w. (w @ [d :: nat], None :: unit option)"
  let ?st = "\<lparr>st_items = [1, 2, 3 :: nat], st_disposed = False\<rparr>"
  have r: "store_dispose ?disp (?st, [0]) = ((\<lparr>st_items = [], st_disposed = True\<rparr>, [0, 3, 2, 1]), None)"
    by (simp add: store_dispose_def)
  show ?thesis using r store_dispose_lifo [OF _ _ r, of 9] by simp
qed

section \<open>Emitter\<close>

record 'c emitter =
  em_listeners :: "(nat \<times> 'c) list"
  em_queue :: "(nat \<times> 'c) list option"
  em_next :: nat

definition new_emitter :: "'c emitter" where
  "new_emitter = \<lparr>em_listeners = [], em_queue = None, em_next = 0\<rparr>"

definition em_ids :: "'c emitter \<Rightarrow> nat list" where
  "em_ids em = map fst (em_listeners em)"

definition subscribe :: "'c \<Rightarrow> 'c emitter \<Rightarrow> 'c emitter \<times> nat" where
  "subscribe c em =
     (em\<lparr>em_listeners := em_listeners em @ [(em_next em, c)], em_next := Suc (em_next em)\<rparr>, em_next em)"

text \<open>The \<open>dispose\<close> of a subscription: \<open>splice\<close> the entry out, if it is still there.\<close>

definition unsubscribe :: "nat \<Rightarrow> 'c emitter \<Rightarrow> 'c emitter" where
  "unsubscribe h em = em\<lparr>em_listeners := filter (\<lambda>l. fst l \<noteq> h) (em_listeners em)\<rparr>"

text \<open>The optional third argument of \<open>event\<close>: an array or a store that keeps the handle.\<close>

datatype sink = NoSink | ArraySink "nat list" | StoreSink "nat store"

definition emitter_event :: "'c \<Rightarrow> sink \<Rightarrow> 'c emitter \<Rightarrow> 'c emitter \<times> nat \<times> sink" where
  "emitter_event c sk em =
     (case subscribe c em of (em1, h) \<Rightarrow>
        (case sk of
           NoSink \<Rightarrow> (em1, h, NoSink)
         | ArraySink hs \<Rightarrow> (em1, h, ArraySink (hs @ [h]))
         | StoreSink st \<Rightarrow>
             (case store_add (\<lambda>d e. (unsubscribe d e, None :: unit option)) h (st, em1) of
                ((st', em2), _) \<Rightarrow> (em2, h, StoreSink st'))))"

text \<open>The loop of \<open>fire\<close> over the snapshot; the first throw ends it.\<close>

fun deliver ::
  "('c \<Rightarrow> 'ev \<Rightarrow> 'c emitter \<times> 'w \<Rightarrow> ('c emitter \<times> 'w) \<times> 'x option) \<Rightarrow> 'ev \<Rightarrow>
   (nat \<times> 'c) list \<Rightarrow> 'c emitter \<times> 'w \<Rightarrow> (('c emitter \<times> 'w) \<times> 'x option) \<times> nat list" where
  "deliver call ev [] ew = ((ew, None), [])"
| "deliver call ev (l # ls) ew =
     (if fst l \<in> set (em_ids (fst ew)) then
        (case call (snd l) ev ew of
           (ew', Some x) \<Rightarrow> ((ew', Some x), [fst l])
         | (ew', None) \<Rightarrow>
             (case deliver call ev ls ew' of (r, called) \<Rightarrow> (r, fst l # called)))
      else deliver call ev ls ew)"

definition fire ::
  "('c \<Rightarrow> 'ev \<Rightarrow> 'c emitter \<times> 'w \<Rightarrow> ('c emitter \<times> 'w) \<times> 'x option) \<Rightarrow> 'ev \<Rightarrow>
   'c emitter \<times> 'w \<Rightarrow> (('c emitter \<times> 'w) \<times> 'x option) \<times> nat list" where
  "fire call ev ew =
     (case ew of (em, w) \<Rightarrow>
        if em_listeners em = [] then ((ew, None), [])
        else (case deliver call ev (em_listeners em) (em\<lparr>em_queue := Some (em_listeners em)\<rparr>, w) of
          (((em', w'), x), called) \<Rightarrow> (((em'\<lparr>em_queue := None\<rparr>, w'), x), called)))"

definition emitter_dispose :: "'c emitter \<Rightarrow> 'c emitter" where
  "emitter_dispose em = em\<lparr>em_listeners := [], em_queue := None\<rparr>"

subsection \<open>Entries are distinct and fresh\<close>

definition em_wf :: "'c emitter \<Rightarrow> bool" where
  "em_wf em \<longleftrightarrow> distinct (em_ids em) \<and> (\<forall>i \<in> set (em_ids em). i < em_next em)"

lemma em_ids_simps [simp]:
  "em_ids (em\<lparr>em_queue := q\<rparr>) = em_ids em"
  "em_ids (fst (subscribe c em)) = em_ids em @ [em_next em]"
  "em_ids (unsubscribe h em) = filter (\<lambda>i. i \<noteq> h) (em_ids em)"
  "em_ids (emitter_dispose em) = []"
  by (simp_all add: em_ids_def subscribe_def unsubscribe_def emitter_dispose_def filter_map o_def)

lemma em_next_simps [simp]:
  "em_next (fst (subscribe c em)) = Suc (em_next em)"
  "em_next (unsubscribe h em) = em_next em"
  "em_next (emitter_dispose em) = em_next em"
  by (simp_all add: subscribe_def unsubscribe_def emitter_dispose_def)

lemma em_wf_new: "em_wf new_emitter"
  by (simp add: em_wf_def em_ids_def new_emitter_def)

lemma em_wf_ops [simp]:
  "em_wf em \<Longrightarrow> em_wf (fst (subscribe c em))"
  "em_wf em \<Longrightarrow> em_wf (unsubscribe h em)"
  "em_wf em \<Longrightarrow> em_wf (emitter_dispose em)"
  by (auto simp: em_wf_def less_Suc_eq)

subsection \<open>What one fire calls\<close>

text \<open>
  A callback that works on the emitter through its operations only: it never brings back an
  entry that is gone, since subscribing always takes a fresh number.
\<close>

definition uses_ops :: "('c \<Rightarrow> 'ev \<Rightarrow> 'c emitter \<times> 'w \<Rightarrow> ('c emitter \<times> 'w) \<times> 'x option) \<Rightarrow> bool" where
  "uses_ops call \<longleftrightarrow>
     (\<forall>c ev em w em' w' x j.
        call c ev (em, w) = ((em', w'), x) \<longrightarrow> j < em_next em \<longrightarrow> j \<notin> set (em_ids em) \<longrightarrow>
        j < em_next em' \<and> j \<notin> set (em_ids em'))"

lemma deliver_Cons:
  assumes "deliver call ev (l # q) ew = (r, called)"
  obtains (skipped) "fst l \<notin> set (em_ids (fst ew))" "deliver call ev q ew = (r, called)"
    | (threw) ew' x where "fst l \<in> set (em_ids (fst ew))" "call (snd l) ev ew = (ew', Some x)"
        "r = (ew', Some x)" "called = [fst l]"
    | (ran) ew' rest where "fst l \<in> set (em_ids (fst ew))" "call (snd l) ev ew = (ew', None)"
        "deliver call ev q ew' = (r, rest)" "called = fst l # rest"
proof -
  obtain ew' x where c: "call (snd l) ev ew = (ew', x)" by fastforce
  obtain r2 rest where d: "deliver call ev q ew' = (r2, rest)" by fastforce
  show thesis
    using assms c d that by (cases x) (auto split: if_splits)
qed

lemma deliver_subset: "deliver call ev q ew = (r, called) \<Longrightarrow> set called \<subseteq> fst ` set q"
proof (induction q arbitrary: ew r called)
  case (Cons l q)
  from Cons.prems show ?case
    by (rule deliver_Cons) (use Cons.IH in fastforce)+
qed simp

lemma deliver_distinct:
  "deliver call ev q ew = (r, called) \<Longrightarrow> distinct (map fst q) \<Longrightarrow> distinct called"
proof (induction q arbitrary: ew r called)
  case (Cons l q)
  from Cons.prems(1) show ?case
  proof (rule deliver_Cons)
    fix ew' rest
    assume d: "deliver call ev q ew' = (r, rest)" and c: "called = fst l # rest"
    have "fst l \<notin> set rest" using deliver_subset [OF d] Cons.prems(2) by auto
    then show ?thesis using Cons.IH [OF d] Cons.prems(2) c by simp
  qed (use Cons in simp_all)
qed simp

lemma deliver_absent:
  assumes "uses_ops call"
  shows "deliver call ev q (em, w) = (r, called) \<Longrightarrow> j < em_next em \<Longrightarrow> j \<notin> set (em_ids em)
    \<Longrightarrow> j \<notin> set called"
proof (induction q arbitrary: em w r called)
  case (Cons l q)
  obtain em' w' x where c: "call (snd l) ev (em, w) = ((em', w'), x)"
    by (metis surj_pair)
  then have keep: "j < em_next em' \<and> j \<notin> set (em_ids em')"
    using assms Cons.prems(2,3) unfolding uses_ops_def by blast
  obtain r2 called2 where d: "deliver call ev q (em', w') = (r2, called2)" by fastforce
  then have "j \<notin> set called2" using Cons.IH keep by blast
  with Cons c d show ?case
    by (cases x) (auto split: if_splits)
qed simp

lemma deliver_append_ran:
  "deliver call ev (xs @ l # ys) ew = (r, called) \<Longrightarrow> h \<in> set called \<Longrightarrow> h \<notin> fst ` set (xs @ [l])
    \<Longrightarrow> \<exists>ew1 pre post. deliver call ev (xs @ [l]) ew = ((ew1, None), pre) \<and>
          deliver call ev ys ew1 = (r, post) \<and> called = pre @ post"
proof (induction xs arbitrary: ew called)
  case Nil
  from Nil.prems(1) have "deliver call ev (l # ys) ew = (r, called)" by simp
  then show ?case by (rule deliver_Cons) (use Nil.prems in auto)
next
  case (Cons a xs)
  from Cons.prems(1) have "deliver call ev (a # xs @ l # ys) ew = (r, called)" by simp
  then show ?case
  proof (rule deliver_Cons)
    fix ew' x assume "called = [fst a]"
    then show ?thesis using Cons.prems by auto
  next
    assume s: "fst a \<notin> set (em_ids (fst ew))" "deliver call ev (xs @ l # ys) ew = (r, called)"
    show ?thesis using Cons.IH [OF s(2)] Cons.prems s(1) by auto
  next
    fix ew' rest
    assume s: "fst a \<in> set (em_ids (fst ew))" "call (snd a) ev ew = (ew', None)"
      "deliver call ev (xs @ l # ys) ew' = (r, rest)" "called = fst a # rest"
    then have "h \<in> set rest" "h \<notin> fst ` set (xs @ [l])" using Cons.prems by auto
    from Cons.IH [OF s(3) this] s(1,2,4) show ?thesis by auto
  qed
qed

lemma deliver_quiet:
  assumes "\<And>c em w. call c ev (em, w) = ((em, act c w), None)"
  shows "fst ` set q \<subseteq> set (em_ids em) \<Longrightarrow>
    deliver call ev q (em, w) = (((em, fold (\<lambda>l w. act (snd l) w) q w), None), map fst q)"
  by (induction q arbitrary: w) (auto simp: assms)

text \<open>
  When the callbacks leave the emitter alone, one \<open>fire\<close> calls every listener exactly
  once, in the order of subscription, with the effects of the callbacks in that order, and the
  emitter is as before.
\<close>

theorem fire_calls_all_in_order:
  assumes quiet: "\<And>c em w. call c ev (em, w) = ((em, act c w), None)"
    and idle: "em_queue em = None"
  shows "fire call ev (em, w) =
    (((em, fold (\<lambda>l w. act (snd l) w) (em_listeners em) w), None), em_ids em)"
proof -
  let ?em = "em\<lparr>em_queue := Some (em_listeners em)\<rparr>"
  have "fst ` set (em_listeners em) \<subseteq> set (em_ids ?em)" by (simp add: em_ids_def)
  note d = deliver_quiet [of call ev act, OF quiet this, of w]
  show ?thesis using idle d by (simp add: fire_def em_ids_def)
qed

theorem fire_calls_all_in_order_witness:
  "fire (\<lambda>c ev (em, w). ((em, w @ [(c, ev)]), None :: unit option)) True
      (\<lparr>em_listeners = [(0, 10), (2, 30 :: nat)], em_queue = None, em_next = 3\<rparr>, [])
    = (((\<lparr>em_listeners = [(0, 10), (2, 30)], em_queue = None, em_next = 3\<rparr>,
         [(10, True), (30, True)]), None), [0, 2])"
proof -
  have "(\<lambda>c ev (em, w). ((em, w @ [(c, ev)]), None)) c True (em, w) = ((em, w @ [(c, True)]), None)"
    for c :: nat and em :: "nat emitter" and w by simp
  from fire_calls_all_in_order
    [where call = "\<lambda>c ev (em, w). ((em, w @ [(c, ev)]), None :: unit option)" and ev = True and
       act = "\<lambda>c w. w @ [(c, True)]" and w = "[]" and
       em = "\<lparr>em_listeners = [(0, 10), (2, 30 :: nat)], em_queue = None, em_next = 3\<rparr>"]
  show ?thesis by (simp add: em_ids_def)
qed

text \<open>
  Whatever the callbacks do to the emitter, one \<open>fire\<close> calls only entries that were
  listening when it began, none of them twice; and an entry that is no longer subscribed at
  the moment the calls before it are over is not called.
\<close>

theorem fire_calls_only_live_listeners:
  assumes ops: "uses_ops call" and wf: "em_wf em"
    and split: "em_listeners em = xs @ l # ys"
    and upto: "deliver call ev (xs @ [l]) (em\<lparr>em_queue := Some (em_listeners em)\<rparr>, w)
      = (((em1, w1), y), pre)"
    and gone: "h \<notin> set (em_ids em1)" and known: "h < em_next em1"
    and later: "h \<notin> fst ` set (xs @ [l])"
  shows "set (snd (fire call ev (em, w))) \<subseteq> set (em_ids em)
    \<and> distinct (snd (fire call ev (em, w))) \<and> h \<notin> set (snd (fire call ev (em, w)))"
proof -
  let ?em = "em\<lparr>em_queue := Some (em_listeners em)\<rparr>"
  obtain r called where d: "deliver call ev (em_listeners em) (?em, w) = (r, called)" by fastforce
  obtain e2 w2 x2 where r: "r = ((e2, w2), x2)" by (metis surj_pair)
  have f: "snd (fire call ev (em, w)) = called" using d r split by (simp add: fire_def)
  have "h \<notin> set called"
  proof
    assume h: "h \<in> set called"
    from d split have d': "deliver call ev (xs @ l # ys) (?em, w) = (r, called)" by simp
    from deliver_append_ran [OF d' h later] obtain ew1 pre1 post where s:
      "deliver call ev (xs @ [l]) (?em, w) = ((ew1, None), pre1)"
      "deliver call ev ys ew1 = (r, post)" "called = pre1 @ post" by blast
    with upto have e: "ew1 = (em1, w1)" "pre1 = pre" by auto
    have "h \<notin> set post" using deliver_absent [OF ops s(2) [unfolded e(1)] known gone] .
    moreover have "h \<notin> set pre" using deliver_subset [OF upto] later by auto
    ultimately show False using h s(3) e by auto
  qed
  then show ?thesis
    using deliver_subset [OF d] deliver_distinct [OF d] wf f
    by (auto simp: em_wf_def em_ids_def)
qed

text \<open>A callback that removes an entry, for the witness.\<close>

definition removing_call ::
  "nat option \<Rightarrow> bool \<Rightarrow> nat option emitter \<times> nat option list \<Rightarrow>
   (nat option emitter \<times> nat option list) \<times> unit option" where
  "removing_call c ev ew =
     (case ew of (em, w) \<Rightarrow> ((case c of None \<Rightarrow> em | Some h \<Rightarrow> unsubscribe h em, w @ [c]), None))"

lemma uses_ops_removing: "uses_ops removing_call"
  by (auto simp: uses_ops_def removing_call_def split: option.splits)

theorem fire_calls_only_live_listeners_witness:
  "let em = \<lparr>em_listeners = [(0, None), (1, Some 2), (2, None)], em_queue = None, em_next = 3\<rparr>
   in 2 \<notin> set (snd (fire removing_call True (em, []))) \<and> snd (fire removing_call True (em, [])) = [0, 1]"
proof -
  let ?em = "\<lparr>em_listeners = [(0, None), (1, Some (2 :: nat)), (2, None)], em_queue = None, em_next = 3\<rparr>"
  have wf: "em_wf ?em" by (auto simp: em_wf_def em_ids_def)
  have u: "deliver removing_call True ([(0, None)] @ [(1, Some 2)])
      (?em\<lparr>em_queue := Some (em_listeners ?em)\<rparr>, [])
    = (((\<lparr>em_listeners = [(0, None), (1, Some 2)], em_queue = Some (em_listeners ?em), em_next = 3\<rparr>,
         [None, Some 2]), None), [0, 1])"
    by (simp add: removing_call_def em_ids_def unsubscribe_def)
  have "2 \<notin> set (snd (fire removing_call True (?em, [])))"
    using fire_calls_only_live_listeners [OF uses_ops_removing wf _ u, of "[(2, None)]" 2]
    by (simp add: em_ids_def)
  moreover have "snd (fire removing_call True (?em, [])) = [0, 1]"
    by (simp add: fire_def removing_call_def em_ids_def unsubscribe_def)
  ultimately show ?thesis by (simp add: Let_def)
qed

end
