(* ===== verification/ContextKeys.thy ===== *)
theory ContextKeys
  imports Events
begin

text \<open>
  \<open>packages/workbench/src/platform/context-key/context-key.ts\<close> and
  \<open>context-key-service.ts\<close>: the expressions, the context key service and its scopes.

  A world holds every service (a service is its position, a scope comes after its parent),
  every tracked key (a cell: default and value) and every expression watcher.  The callback of
  a watcher records its call.  \<open>onDidChangeContext\<close> is the service's emitter; its listeners
  are watchers and the forwarding to a scope.
\<close>

section \<open>Values and expressions\<close>

text \<open>
  The values of context keys with \<open>===\<close> as equality: numbers other than NaN, and objects by
  their address.
\<close>

datatype js_value = CUndef | CNull | CBool bool | CNum int | CStr string | CRef nat

datatype context_expr =
    ExHas string
  | ExEquals string js_value
  | ExNot context_expr
  | ExAnd "context_expr list"
  | ExOr "context_expr list"
  | ExTrue
  | ExFalse

section \<open>State\<close>

record tracked_key =
  tk_default :: js_value
  tk_value :: js_value

datatype ctx_listener = Watching nat | Forwarding nat

datatype ctx_disposable = OwnEmitter nat | ParentListener nat nat

record ctx_service =
  cs_keys :: "(string, nat) omap"
  cs_emitter :: "ctx_listener emitter"
  cs_parent :: "nat option"
  cs_store :: "ctx_disposable store"

record ctx_watcher =
  cw_service :: nat
  cw_expr :: context_expr
  cw_last :: bool

record ctx_world =
  wd_cells :: "tracked_key list"
  wd_services :: "ctx_service list"
  wd_watchers :: "ctx_watcher list"
  wd_calls :: "(nat \<times> bool) list"

abbreviation svc :: "ctx_world \<Rightarrow> nat \<Rightarrow> ctx_service" where
  "svc w i \<equiv> wd_services w ! i"

definition set_svc :: "nat \<Rightarrow> ctx_service \<Rightarrow> ctx_world \<Rightarrow> ctx_world" where
  "set_svc i s w = w\<lparr>wd_services := (wd_services w)[i := s]\<rparr>"

text \<open>\<open>new ContextKeyService()\<close>: the field initialiser registers the emitter in the store.\<close>

definition new_service :: "ctx_world \<Rightarrow> ctx_world \<times> nat" where
  "new_service w =
     (let i = length (wd_services w) in
      (w\<lparr>wd_services := wd_services w @
          [\<lparr>cs_keys = [], cs_emitter = new_emitter, cs_parent = None,
            cs_store = \<lparr>st_items = [OwnEmitter i], st_disposed = False\<rparr>\<rparr>]\<rparr>, i))"

definition empty_world :: ctx_world where
  "empty_world = \<lparr>wd_cells = [], wd_services = [], wd_watchers = [], wd_calls = []\<rparr>"

section \<open>Reading\<close>

function get_value :: "ctx_world \<Rightarrow> nat \<Rightarrow> string \<Rightarrow> js_value" where
  "get_value w i key =
     (case om_get (cs_keys (svc w i)) key of
        Some a \<Rightarrow> tk_value (wd_cells w ! a)
      | None \<Rightarrow>
          (case cs_parent (svc w i) of
             None \<Rightarrow> CUndef
           | Some p \<Rightarrow> if p < i then get_value w p key else CUndef))"
  by pat_completeness auto
termination by (relation "measure (\<lambda>(w, i, key). i)") auto

declare get_value.simps [simp del]

fun evaluate :: "ctx_world \<Rightarrow> nat \<Rightarrow> context_expr \<Rightarrow> bool" where
  "evaluate w i ExTrue = True"
| "evaluate w i ExFalse = False"
| "evaluate w i (ExHas key) =
     (let v = get_value w i key in v \<noteq> CUndef \<and> v \<noteq> CBool False \<and> v \<noteq> CNull)"
| "evaluate w i (ExEquals key value) = (get_value w i key = value)"
| "evaluate w i (ExNot e) = (\<not> evaluate w i e)"
| "evaluate w i (ExAnd es) = list_all (evaluate w i) es"
| "evaluate w i (ExOr es) = list_ex (evaluate w i) es"

section \<open>Firing\<close>

text \<open>The listener \<open>onDidChangeExpression\<close> installs.\<close>

definition check_watcher :: "nat \<Rightarrow> ctx_world \<Rightarrow> ctx_world" where
  "check_watcher k w =
     (let wt = wd_watchers w ! k; new = evaluate w (cw_service wt) (cw_expr wt) in
      if new \<noteq> cw_last wt
      then w\<lparr>wd_watchers := (wd_watchers w)[k := wt\<lparr>cw_last := new\<rparr>],
             wd_calls := wd_calls w @ [(k, new)]\<rparr>
      else w)"

text \<open>
  \<open>changeEmitter.fire()\<close> of a service, which fires the services scoped under it.  Scopes
  are nested at most as deep as there are services, the fuel.
\<close>

primrec notify :: "nat \<Rightarrow> nat \<Rightarrow> ctx_world \<Rightarrow> ctx_world" where
  "notify 0 = (\<lambda>i w. w)"
| "notify (Suc n) = (\<lambda>i w.
     snd (fst (fst (fire
       (\<lambda>l ev (em, w). ((em, case l of Watching k \<Rightarrow> check_watcher k w | Forwarding c \<Rightarrow> notify n c w),
                       None :: unit option))
       () (cs_emitter (svc w i), w)))))"

definition fire_context :: "nat \<Rightarrow> ctx_world \<Rightarrow> ctx_world" where
  "fire_context i w = notify (length (wd_services w)) i w"

section \<open>Operations\<close>

datatype context_error = KeyAlreadyRegistered string

record ctx_key =
  ck_service :: nat
  ck_name :: string
  ck_cell :: nat

definition create_key ::
  "nat \<Rightarrow> string \<Rightarrow> js_value \<Rightarrow> ctx_world \<Rightarrow> context_error + ctx_world \<times> ctx_key" where
  "create_key i key d w =
     (if om_has (cs_keys (svc w i)) key then Inl (KeyAlreadyRegistered key)
      else let a = length (wd_cells w);
               w1 = w\<lparr>wd_cells := wd_cells w @ [\<lparr>tk_default = d, tk_value = d\<rparr>]\<rparr>
           in Inr (set_svc i ((svc w1 i)\<lparr>cs_keys := om_set key a (cs_keys (svc w1 i))\<rparr>) w1,
                   \<lparr>ck_service = i, ck_name = key, ck_cell = a\<rparr>))"

definition bind_to :: "nat \<Rightarrow> string \<times> js_value \<Rightarrow> ctx_world \<Rightarrow> context_error + ctx_world \<times> ctx_key" where
  "bind_to i raw w = create_key i (fst raw) (snd raw) w"

definition key_get :: "ctx_key \<Rightarrow> ctx_world \<Rightarrow> js_value" where
  "key_get h w = tk_value (wd_cells w ! ck_cell h)"

definition key_set :: "ctx_key \<Rightarrow> js_value \<Rightarrow> ctx_world \<Rightarrow> ctx_world" where
  "key_set h v w =
     (if key_get h w = v then w
      else fire_context (ck_service h)
        (w\<lparr>wd_cells := (wd_cells w)[ck_cell h := (wd_cells w ! ck_cell h)\<lparr>tk_value := v\<rparr>]\<rparr>))"

definition key_reset :: "ctx_key \<Rightarrow> ctx_world \<Rightarrow> ctx_world" where
  "key_reset h w = key_set h (tk_default (wd_cells w ! ck_cell h)) w"

definition key_dispose :: "ctx_key \<Rightarrow> ctx_world \<Rightarrow> ctx_world" where
  "key_dispose h w =
     (let s = svc w (ck_service h) in
      if om_get (cs_keys s) (ck_name h) = Some (ck_cell h)
      then set_svc (ck_service h) (s\<lparr>cs_keys := om_del (ck_name h) (cs_keys s)\<rparr>) w
      else w)"

definition on_emitter :: "nat \<Rightarrow> (ctx_listener emitter \<Rightarrow> ctx_listener emitter) \<Rightarrow> ctx_world \<Rightarrow> ctx_world" where
  "on_emitter i f w = set_svc i ((svc w i)\<lparr>cs_emitter := f (cs_emitter (svc w i))\<rparr>) w"

definition on_did_change_expression ::
  "nat \<Rightarrow> context_expr \<Rightarrow> ctx_world \<Rightarrow> ctx_world \<times> nat \<times> nat" where
  "on_did_change_expression i e w =
     (let k = length (wd_watchers w);
          w1 = w\<lparr>wd_watchers := wd_watchers w @
                  [\<lparr>cw_service = i, cw_expr = e, cw_last = evaluate w i e\<rparr>]\<rparr>;
          h = em_next (cs_emitter (svc w1 i))
      in (on_emitter i (\<lambda>em. fst (subscribe (Watching k) em)) w1, k, h))"

definition unlisten :: "nat \<Rightarrow> nat \<Rightarrow> ctx_world \<Rightarrow> ctx_world" where
  "unlisten i h w = on_emitter i (unsubscribe h) w"

definition create_scoped :: "nat \<Rightarrow> ctx_world \<Rightarrow> ctx_world \<times> nat" where
  "create_scoped i w =
     (case new_service w of (w1, c) \<Rightarrow>
        let w2 = set_svc c ((svc w1 c)\<lparr>cs_parent := Some i\<rparr>) w1;
            h = em_next (cs_emitter (svc w2 i));
            w3 = on_emitter i (\<lambda>em. fst (subscribe (Forwarding c) em)) w2;
            s = svc w3 c
        in (set_svc c (s\<lparr>cs_store := (cs_store s)\<lparr>st_items := st_items (cs_store s) @ [ParentListener i h]\<rparr>\<rparr>) w3, c))"

definition dispose_ctx :: "ctx_disposable \<Rightarrow> ctx_world \<Rightarrow> ctx_world" where
  "dispose_ctx d w =
     (case d of
        OwnEmitter i \<Rightarrow> on_emitter i emitter_dispose w
      | ParentListener p h \<Rightarrow> unlisten p h w)"

definition dispose_service :: "nat \<Rightarrow> ctx_world \<Rightarrow> ctx_world" where
  "dispose_service i w =
     (case store_dispose (\<lambda>d w. (dispose_ctx d w, None :: unit option)) (cs_store (svc w i), w) of
        ((st, w1), _) \<Rightarrow> set_svc i ((svc w1 i)\<lparr>cs_store := st\<rparr>) w1)"

section \<open>Well-formed worlds\<close>

definition cell_of :: "ctx_world \<Rightarrow> nat \<Rightarrow> nat set" where
  "cell_of w i = snd ` set (cs_keys (svc w i))"

definition listeners :: "ctx_world \<Rightarrow> nat \<Rightarrow> ctx_listener set" where
  "listeners w i = snd ` set (em_listeners (cs_emitter (svc w i)))"

definition svc_ok :: "ctx_world \<Rightarrow> nat \<Rightarrow> bool" where
  "svc_ok w i \<longleftrightarrow>
     cell_of w i \<subseteq> {..< length (wd_cells w)} \<and>
     (\<forall>p. cs_parent (svc w i) = Some p \<longrightarrow> p < i) \<and>
     (\<forall>c. Forwarding c \<in> listeners w i \<longrightarrow>
        i < c \<and> c < length (wd_services w) \<and> cs_parent (svc w c) = Some i) \<and>
     (\<forall>k. Watching k \<in> listeners w i \<longrightarrow>
        k < length (wd_watchers w) \<and> cw_service (wd_watchers w ! k) = i)"

definition ctx_wf :: "ctx_world \<Rightarrow> bool" where
  "ctx_wf w \<longleftrightarrow> (\<forall>i < length (wd_services w). svc_ok w i)"

text \<open>The handle of a key: its cell belongs to the keys of no other service.\<close>

definition handle_ok :: "ctx_world \<Rightarrow> ctx_key \<Rightarrow> bool" where
  "handle_ok w h \<longleftrightarrow> ck_service h < length (wd_services w) \<and> ck_cell h < length (wd_cells w) \<and>
     (\<forall>j < length (wd_services w). ck_cell h \<in> cell_of w j \<longrightarrow> j = ck_service h)"

text \<open>A scope is attached while each service above it still forwards to it.\<close>

inductive attached :: "ctx_world \<Rightarrow> nat \<Rightarrow> bool" for w where
  root: "i < length (wd_services w) \<Longrightarrow> cs_parent (svc w i) = None \<Longrightarrow> attached w i"
| scope: "i < length (wd_services w) \<Longrightarrow> cs_parent (svc w i) = Some p \<Longrightarrow> attached w p \<Longrightarrow>
    Forwarding i \<in> listeners w p \<Longrightarrow> attached w i"

inductive_cases attachedE: "attached w i"

definition current :: "ctx_world \<Rightarrow> nat \<Rightarrow> bool" where
  "current w k \<longleftrightarrow>
     cw_last (wd_watchers w ! k) = evaluate w (cw_service (wd_watchers w ! k)) (cw_expr (wd_watchers w ! k))"

text \<open>Every subscribed watcher of an attached service knows the value its expression has.\<close>

definition watchers_current :: "ctx_world \<Rightarrow> bool" where
  "watchers_current w \<longleftrightarrow>
     (\<forall>i k. attached w i \<longrightarrow> Watching k \<in> listeners w i \<longrightarrow> current w k)"

section \<open>What a fire changes\<close>

definition refreshed :: "ctx_world \<Rightarrow> ctx_world \<Rightarrow> bool" where
  "refreshed w w' \<longleftrightarrow>
     wd_cells w' = wd_cells w \<and> wd_services w' = wd_services w \<and>
     length (wd_watchers w') = length (wd_watchers w) \<and>
     (\<forall>k. cw_service (wd_watchers w' ! k) = cw_service (wd_watchers w ! k) \<and>
          cw_expr (wd_watchers w' ! k) = cw_expr (wd_watchers w ! k) \<and>
          (cw_last (wd_watchers w' ! k) = cw_last (wd_watchers w ! k) \<or> current w' k))"

lemma get_value_data:
  assumes "wd_cells w' = wd_cells w" and "wd_services w' = wd_services w"
  shows "get_value w' i key = get_value w i key"
proof (induction i rule: less_induct)
  case (less i)
  show ?case
    by (subst (1 2) get_value.simps) (auto simp: assms less split: option.splits)
qed

lemma evaluate_values:
  "(\<And>key. get_value w' i key = get_value w i key) \<Longrightarrow> evaluate w' i e = evaluate w i e"
  by (induction w' i e rule: evaluate.induct) (auto simp: Let_def list_all_iff list_ex_iff)

lemma evaluate_data:
  "wd_cells w' = wd_cells w \<Longrightarrow> wd_services w' = wd_services w \<Longrightarrow> evaluate w' i e = evaluate w i e"
  by (intro evaluate_values get_value_data)

lemma current_data:
  "wd_cells w' = wd_cells w \<Longrightarrow> wd_services w' = wd_services w \<Longrightarrow>
   wd_watchers w' ! k = wd_watchers w ! k \<Longrightarrow> current w' k = current w k"
  by (simp add: current_def evaluate_data [of w' w])

lemma refreshed_refl: "refreshed w w"
  by (simp add: refreshed_def)

lemma refreshed_current: "refreshed w w' \<Longrightarrow> current w k \<Longrightarrow> current w' k"
proof -
  assume r: "refreshed w w'" and c: "current w k"
  have d: "wd_cells w' = wd_cells w" "wd_services w' = wd_services w"
    using r by (auto simp: refreshed_def)
  have "current w' k \<longleftrightarrow> cw_last (wd_watchers w' ! k) = evaluate w (cw_service (wd_watchers w ! k)) (cw_expr (wd_watchers w ! k))"
    using r by (simp add: current_def evaluate_data [OF d] refreshed_def)
  moreover have "cw_last (wd_watchers w' ! k) = cw_last (wd_watchers w ! k) \<or> current w' k"
    using r unfolding refreshed_def by blast
  ultimately show ?thesis using c unfolding current_def [of w] by argo
qed

lemma refreshed_trans:
  assumes "refreshed w1 w2" and "refreshed w2 w3"
  shows "refreshed w1 w3"
proof -
  have "cw_last (wd_watchers w3 ! k) = cw_last (wd_watchers w1 ! k) \<or> current w3 k" for k
    using assms refreshed_current [OF assms(2), of k] by (auto simp: refreshed_def)
  then show ?thesis using assms by (auto simp: refreshed_def)
qed

lemma check_watcher_refreshed: "refreshed w (check_watcher k w)"
proof (cases "evaluate w (cw_service (wd_watchers w ! k)) (cw_expr (wd_watchers w ! k)) = cw_last (wd_watchers w ! k)")
  case True
  then show ?thesis by (simp add: check_watcher_def Let_def refreshed_refl)
next
  case False
  define wt where "wt = wd_watchers w ! k"
  define new where "new = evaluate w (cw_service wt) (cw_expr wt)"
  define w' where "w' = w\<lparr>wd_watchers := (wd_watchers w)[k := wt\<lparr>cw_last := new\<rparr>],
    wd_calls := wd_calls w @ [(k, new)]\<rparr>"
  have c: "check_watcher k w = w'"
    using False by (simp add: check_watcher_def Let_def w'_def wt_def new_def)
  have d: "wd_cells w' = wd_cells w" "wd_services w' = wd_services w" by (simp_all add: w'_def)
  have same: "wd_watchers w' ! j = wd_watchers w ! j" if "j \<noteq> k \<or> \<not> k < length (wd_watchers w)" for j
    using that by (cases "j = k") (auto simp: w'_def list_update_beyond)
  have at: "wd_watchers w' ! k = wt\<lparr>cw_last := new\<rparr>" if "k < length (wd_watchers w)"
    using that by (simp add: w'_def)
  have "current w' k" if "k < length (wd_watchers w)"
    unfolding current_def evaluate_data [OF d] at [OF that] by (simp add: new_def)
  then have "cw_service (wd_watchers w' ! j) = cw_service (wd_watchers w ! j) \<and>
      cw_expr (wd_watchers w' ! j) = cw_expr (wd_watchers w ! j) \<and>
      (cw_last (wd_watchers w' ! j) = cw_last (wd_watchers w ! j) \<or> current w' j)" for j
    using same [of j] at by (cases "k < length (wd_watchers w) \<and> j = k") (auto simp: wt_def)
  then show ?thesis using d unfolding c refreshed_def by (simp add: w'_def)
qed

lemma check_watcher_current: "k < length (wd_watchers w) \<Longrightarrow> current (check_watcher k w) k"
proof -
  assume k: "k < length (wd_watchers w)"
  have d: "wd_cells (check_watcher k w) = wd_cells w" "wd_services (check_watcher k w) = wd_services w"
    by (simp_all add: check_watcher_def Let_def)
  show ?thesis using k
    unfolding current_def evaluate_data [OF d] by (auto simp: check_watcher_def Let_def)
qed

definition ctx_act :: "nat \<Rightarrow> ctx_listener \<Rightarrow> ctx_world \<Rightarrow> ctx_world" where
  "ctx_act n l w = (case l of Watching k \<Rightarrow> check_watcher k w | Forwarding c \<Rightarrow> notify n c w)"

lemma notify_fold:
  "notify (Suc n) i w = fold (\<lambda>l. ctx_act n (snd l)) (em_listeners (cs_emitter (svc w i))) w"
proof -
  let ?call = "\<lambda>l ev (em, w). ((em, case l of Watching k \<Rightarrow> check_watcher k w | Forwarding c \<Rightarrow> notify n c w),
                       None :: unit option)"
  let ?em = "cs_emitter (svc w i)"
  have q: "?call c () (em, w) = ((em, ctx_act n c w), None)" for c and em :: "ctx_listener emitter" and w
    by (simp add: ctx_act_def)
  have s: "fst ` set (em_listeners ?em) \<subseteq> set (em_ids (?em\<lparr>em_queue := Some (em_listeners ?em)\<rparr>))"
    by (simp add: em_ids_def)
  from deliver_quiet [where call = ?call and ev = "()" and w = w, OF q s] show ?thesis
    by (simp add: fire_def)
qed

lemma notify_refreshed: "refreshed w (notify n i w)"
proof (induction n arbitrary: i w)
  case (Suc n)
  have "refreshed w (fold (\<lambda>l. ctx_act n (snd l)) ls w)" for ls
    by (rule fold_keeps [where P = "refreshed w"])
      (auto simp: ctx_act_def refreshed_refl split: ctx_listener.split
         intro: refreshed_trans check_watcher_refreshed Suc.IH)
  then show ?case unfolding notify_fold .
qed (simp add: refreshed_refl)

lemma notify_data [simp]:
  "wd_cells (notify n i w) = wd_cells w" "wd_services (notify n i w) = wd_services w"
  "length (wd_watchers (notify n i w)) = length (wd_watchers w)"
  "cw_service (wd_watchers (notify n i w) ! k) = cw_service (wd_watchers w ! k)"
  using notify_refreshed [of w n i] by (auto simp: refreshed_def)

lemma ctx_act_refreshed: "refreshed w (ctx_act n l w)"
  by (simp add: ctx_act_def check_watcher_refreshed notify_refreshed split: ctx_listener.split)

lemma ctx_act_data [simp]:
  "wd_cells (ctx_act n l w) = wd_cells w" "wd_services (ctx_act n l w) = wd_services w"
  "length (wd_watchers (ctx_act n l w)) = length (wd_watchers w)"
  using ctx_act_refreshed [of w n l] by (auto simp: refreshed_def)

lemma notify_reaches:
  "((\<lambda>a b. Forwarding b \<in> listeners w a) ^^ m) i j \<Longrightarrow> m < n \<Longrightarrow> Watching k \<in> listeners w j \<Longrightarrow>
   k < length (wd_watchers w) \<Longrightarrow> current (notify n i w) k"
proof (induction n arbitrary: m i w)
  case (Suc n)
  let ?I = "\<lambda>v. wd_services v = wd_services w \<and> length (wd_watchers v) = length (wd_watchers w)"
  have I: "?I v \<Longrightarrow> ?I (ctx_act n l v)" for l v by simp
  have P: "current v k \<Longrightarrow> current (ctx_act n l v) k" for l v
    using ctx_act_refreshed refreshed_current by blast
  have "\<exists>l \<in> set (em_listeners (cs_emitter (svc w i))). \<forall>v. ?I v \<longrightarrow> current (ctx_act n (snd l) v) k"
  proof (cases m)
    case 0
    then have "Watching k \<in> listeners w i" using Suc.prems by simp
    then obtain h where "(h, Watching k) \<in> set (em_listeners (cs_emitter (svc w i)))"
      by (auto simp: listeners_def)
    then show ?thesis
      using Suc.prems(4) by (intro bexI) (auto simp: ctx_act_def check_watcher_current)
  next
    case (Suc m')
    then obtain c where c: "Forwarding c \<in> listeners w i"
      and path: "((\<lambda>a b. Forwarding b \<in> listeners w a) ^^ m') c j"
      using Suc.prems(1) by (metis relpowp_Suc_D2)
    obtain h where h: "(h, Forwarding c) \<in> set (em_listeners (cs_emitter (svc w i)))"
      using c by (auto simp: listeners_def)
    have "current (notify n c v) k" if v: "?I v" for v
    proof -
      have "listeners v = listeners w" using v by (auto simp: listeners_def)
      then show ?thesis using Suc.IH [of m' v c] path Suc.prems \<open>m = Suc m'\<close> v by simp
    qed
    with h show ?thesis by (intro bexI) (auto simp: ctx_act_def)
  qed
  then obtain l where l: "l \<in> set (em_listeners (cs_emitter (svc w i)))"
    "\<And>v. ?I v \<Longrightarrow> current (ctx_act n (snd l) v) k" by blast
  show ?case unfolding notify_fold
    by (rule fold_establishes [where I = ?I, OF l(1)]) (use I P l(2) in auto)
qed simp

section \<open>Setting a key\<close>

lemma cell_ofI: "om_get (cs_keys (svc w i)) key = Some a \<Longrightarrow> a \<in> cell_of w i"
  by (force simp: cell_of_def dest: map_of_SomeD)

lemma listeners_services: "wd_services w' = wd_services w \<Longrightarrow> listeners w' = listeners w"
  by (simp add: listeners_def fun_eq_iff)

lemma attached_services: "wd_services w' = wd_services w \<Longrightarrow> attached w' = attached w"
proof -
  have "attached v' i" if e: "wd_services v' = wd_services v" and a: "attached v i" for v v' i
    using a
  proof (induction rule: attached.induct)
    case (root i)
    then show ?case by (intro attached.root) (simp_all add: e)
  next
    case (scope i p)
    show ?case
      by (rule attached.scope [of _ _ p]) (use scope e listeners_services [OF e] in simp_all)
  qed
  note one = this
  show "wd_services w' = wd_services w \<Longrightarrow> attached w' = attached w"
  proof (intro ext iffI)
    fix x assume e: "wd_services w' = wd_services w"
    show "attached w' x \<Longrightarrow> attached w x" by (rule one [OF e [symmetric]])
    show "attached w x \<Longrightarrow> attached w' x" by (rule one [OF e])
  qed
qed

abbreviation forwards :: "ctx_world \<Rightarrow> nat \<Rightarrow> nat \<Rightarrow> bool" where
  "forwards w a b \<equiv> Forwarding b \<in> listeners w a"

text \<open>A cell of another service is out of sight of the services that do not hang below it.\<close>

lemma get_value_out_of_sight:
  assumes h: "handle_ok w h"
    and w1: "w1 = w\<lparr>wd_cells := (wd_cells w)[ck_cell h := t]\<rparr>"
  shows "attached w j \<Longrightarrow> \<not> (forwards w)\<^sup>*\<^sup>* (ck_service h) j \<Longrightarrow> get_value w1 j key = get_value w j key"
proof (induction rule: attached.induct)
  case (root i)
  have "ck_cell h \<notin> cell_of w i" using h root by (auto simp: handle_ok_def)
  then have "om_get (cs_keys (svc w i)) key = Some a \<Longrightarrow> ck_cell h \<noteq> a" for a
    using cell_ofI by blast
  then show ?case
    by (subst (1 2) get_value.simps) (auto simp: w1 root split: option.split)
next
  case (scope i p)
  have "ck_cell h \<notin> cell_of w i" using h scope by (auto simp: handle_ok_def)
  then have "om_get (cs_keys (svc w i)) key = Some a \<Longrightarrow> ck_cell h \<noteq> a" for a
    using cell_ofI by blast
  moreover have "get_value w1 p key = get_value w p key"
    using scope by (meson rtranclp.rtrancl_into_rtrancl)
  ultimately show ?case
    by (subst (1 2) get_value.simps) (auto simp: w1 scope split: option.split)
qed

lemma forwards_path_short:
  assumes wf: "ctx_wf w" and i: "i < length (wd_services w)"
  shows "(forwards w)\<^sup>*\<^sup>* i j \<Longrightarrow> \<exists>m. (forwards w ^^ m) i j \<and> i + m \<le> j \<and> j < length (wd_services w)"
proof (induction rule: rtranclp_induct)
  case base
  show ?case using i by (intro exI [of _ 0]) simp
next
  case (step j c)
  then obtain m where m: "(forwards w ^^ m) i j" "i + m \<le> j" "j < length (wd_services w)" by blast
  have "j < c" "c < length (wd_services w)"
    using wf m(3) step(2) unfolding ctx_wf_def svc_ok_def by blast+
  then show ?case using m step(2) by (intro exI [of _ "Suc m"]) auto
qed

text \<open>
  C10: setting a context key keeps every expression watcher current: after the call, each
  subscribed watcher of each attached scope has last reported (or first seen) exactly the value
  its expression now has, in the service of the key and in all scopes below it.
\<close>

theorem key_set_keeps_watchers_current:
  assumes wf: "ctx_wf w" and h: "handle_ok w h" and cur: "watchers_current w"
  shows "watchers_current (key_set h v w)"
proof (cases "key_get h w = v")
  case True
  then show ?thesis using cur by (simp add: key_set_def)
next
  case False
  define t where "t = (wd_cells w ! ck_cell h)\<lparr>tk_value := v\<rparr>"
  define w1 where "w1 = w\<lparr>wd_cells := (wd_cells w)[ck_cell h := t]\<rparr>"
  define w2 where "w2 = fire_context (ck_service h) w1"
  have set: "key_set h v w = w2" using False by (simp add: key_set_def w2_def w1_def t_def)
  have s1: "wd_services w1 = wd_services w" and t1: "wd_watchers w1 = wd_watchers w" by (simp_all add: w1_def)
  have s2: "wd_services w2 = wd_services w" by (simp add: w2_def fire_context_def s1)
  have "current w2 k" if a: "attached w2 i" and l: "Watching k \<in> listeners w2 i" for i k
  proof -
    have ai: "attached w i" and li: "Watching k \<in> listeners w i"
      using a l attached_services [OF s2] listeners_services [OF s2] by simp_all
    have i: "i < length (wd_services w)" using ai by (auto elim: attachedE)
    have k: "k < length (wd_watchers w)" "cw_service (wd_watchers w ! k) = i"
      using wf li i unfolding ctx_wf_def svc_ok_def by blast+
    show ?thesis
    proof (cases "(forwards w)\<^sup>*\<^sup>* (ck_service h) i")
      case True
      have hs: "ck_service h < length (wd_services w)" using h by (simp add: handle_ok_def)
      from forwards_path_short [OF wf hs True] obtain m
        where m: "(forwards w1 ^^ m) (ck_service h) i" "m < length (wd_services w1)"
        by (auto simp: listeners_services [OF s1] s1)
      show ?thesis unfolding w2_def fire_context_def
        using notify_reaches [OF m] li k by (simp add: listeners_services [OF s1] t1)
    next
      case False
      have "current w1 k"
        using cur ai li evaluate_values [of w1 i w, OF get_value_out_of_sight [OF h w1_def ai False]]
        by (simp add: watchers_current_def current_def t1 k)
      then show ?thesis unfolding w2_def fire_context_def
        using notify_refreshed refreshed_current by blast
    qed
  qed
  then show ?thesis by (simp add: watchers_current_def set)
qed

section \<open>Every operation keeps the world well formed\<close>

datatype ctx_op =
    CtxNew
  | CtxCreateKey nat string js_value
  | CtxSet ctx_key js_value
  | CtxReset ctx_key
  | CtxDisposeKey ctx_key
  | CtxWatch nat context_expr
  | CtxUnlisten nat nat
  | CtxScope nat
  | CtxDispose nat

text \<open>The services an operation is called on exist.\<close>

fun op_applies :: "ctx_op \<Rightarrow> ctx_world \<Rightarrow> bool" where
  "op_applies (CtxCreateKey i key d) w = (i < length (wd_services w))"
| "op_applies (CtxWatch i e) w = (i < length (wd_services w))"
| "op_applies (CtxScope i) w = (i < length (wd_services w))"
| "op_applies (CtxDispose i) w = (i < length (wd_services w))"
| "op_applies op w = True"

fun apply_ctx :: "ctx_op \<Rightarrow> ctx_world \<Rightarrow> ctx_world" where
  "apply_ctx CtxNew w = fst (new_service w)"
| "apply_ctx (CtxCreateKey i key d) w = (case create_key i key d w of Inl e \<Rightarrow> w | Inr r \<Rightarrow> fst r)"
| "apply_ctx (CtxSet h v) w = key_set h v w"
| "apply_ctx (CtxReset h) w = key_reset h w"
| "apply_ctx (CtxDisposeKey h) w = key_dispose h w"
| "apply_ctx (CtxWatch i e) w = fst (on_did_change_expression i e w)"
| "apply_ctx (CtxUnlisten i h) w = unlisten i h w"
| "apply_ctx (CtxScope i) w = fst (create_scoped i w)"
| "apply_ctx (CtxDispose i) w = dispose_service i w"

definition shrinks :: "ctx_world \<Rightarrow> ctx_world \<Rightarrow> bool" where
  "shrinks w w' \<longleftrightarrow>
     length (wd_cells w') = length (wd_cells w) \<and> length (wd_services w') = length (wd_services w) \<and>
     length (wd_watchers w') = length (wd_watchers w) \<and>
     (\<forall>k. cw_service (wd_watchers w' ! k) = cw_service (wd_watchers w ! k)) \<and>
     (\<forall>i. cs_parent (svc w' i) = cs_parent (svc w i) \<and> cell_of w' i \<subseteq> cell_of w i \<and>
          listeners w' i \<subseteq> listeners w i)"

lemma shrinks_wf: "shrinks w w' \<Longrightarrow> ctx_wf w \<Longrightarrow> ctx_wf w'"
proof -
  assume s: "shrinks w w'" and wf: "ctx_wf w"
  have "svc_ok w' i" if i: "i < length (wd_services w')" for i
  proof -
    have ok: "svc_ok w i" using wf i s by (simp add: ctx_wf_def shrinks_def)
    have sub: "cell_of w' i \<subseteq> cell_of w i" "listeners w' i \<subseteq> listeners w i"
      and par: "\<And>j. cs_parent (svc w' j) = cs_parent (svc w j)"
      and len: "length (wd_cells w') = length (wd_cells w)" "length (wd_services w') = length (wd_services w)"
        "length (wd_watchers w') = length (wd_watchers w)"
        "\<And>k. cw_service (wd_watchers w' ! k) = cw_service (wd_watchers w ! k)"
      using s by (auto simp: shrinks_def)
    show ?thesis unfolding svc_ok_def par len
      using ok sub unfolding svc_ok_def by blast
  qed
  then show ?thesis by (simp add: ctx_wf_def)
qed

lemma shrinks_refl: "shrinks w w"
  by (simp add: shrinks_def)

lemma shrinks_trans: "shrinks w1 w2 \<Longrightarrow> shrinks w2 w3 \<Longrightarrow> shrinks w1 w3"
  unfolding shrinks_def by (simp add: subset_eq)

lemma shrinks_notify: "shrinks w (notify n i w)"
  by (simp add: shrinks_def cell_of_def listeners_def)

lemma shrinks_set_svc:
  assumes "cs_parent s = cs_parent (svc w i)" and "snd ` set (cs_keys s) \<subseteq> cell_of w i"
    and "snd ` set (em_listeners (cs_emitter s)) \<subseteq> listeners w i"
  shows "shrinks w (set_svc i s w)"
proof -
  have "cs_parent (svc (set_svc i s w) j) = cs_parent (svc w j) \<and>
      cell_of (set_svc i s w) j \<subseteq> cell_of w j \<and> listeners (set_svc i s w) j \<subseteq> listeners w j" for j
    using assms
    by (cases "i < length (wd_services w)"; cases "j = i")
      (auto simp: set_svc_def cell_of_def listeners_def list_update_beyond)
  then show ?thesis by (auto simp: shrinks_def set_svc_def)
qed

lemma shrinks_unlisten: "shrinks w (unlisten i h w)"
  unfolding unlisten_def on_emitter_def
  by (rule shrinks_set_svc) (auto simp: unsubscribe_def cell_of_def listeners_def)

lemma shrinks_on_emitter_dispose: "shrinks w (on_emitter i emitter_dispose w)"
  unfolding on_emitter_def
  by (rule shrinks_set_svc) (auto simp: emitter_dispose_def cell_of_def)

lemma shrinks_dispose_ctx: "shrinks w (dispose_ctx d w)"
  by (cases d) (simp_all add: dispose_ctx_def shrinks_unlisten shrinks_on_emitter_dispose)

lemma shrinks_key_dispose: "shrinks w (key_dispose h w)"
proof -
  let ?s = "svc w (ck_service h)"
  have "snd ` set (om_del (ck_name h) (cs_keys ?s)) \<subseteq> cell_of w (ck_service h)"
    unfolding cell_of_def by (rule image_mono [OF set_om_del])
  then have "shrinks w (set_svc (ck_service h) (?s\<lparr>cs_keys := om_del (ck_name h) (cs_keys ?s)\<rparr>) w)"
    by (intro shrinks_set_svc) (simp_all add: listeners_def)
  then show ?thesis by (simp add: key_dispose_def Let_def shrinks_refl)
qed

lemma shrinks_key_set: "shrinks w (key_set h v w)"
proof -
  have "shrinks w (w\<lparr>wd_cells := (wd_cells w)[ck_cell h := t]\<rparr>)" for t
    by (simp add: shrinks_def cell_of_def listeners_def)
  then show ?thesis
    unfolding key_set_def fire_context_def
    by (auto simp: shrinks_refl intro: shrinks_trans shrinks_notify)
qed

lemma shrinks_dispose_service: "shrinks w (dispose_service i w)"
proof -
  have p: "pop_all (\<lambda>d w. (dispose_ctx d w, None :: unit option)) ds w
      = (([], fold (\<lambda>d w. fst (dispose_ctx d w, None :: unit option)) ds w), None)" for ds w
    by (rule pop_all_quiet) simp
  have "shrinks w (fold (\<lambda>d. dispose_ctx d) ds w)" for ds
    by (rule fold_keeps [where P = "shrinks w"])
      (auto intro: shrinks_refl shrinks_trans shrinks_dispose_ctx)
  moreover have "shrinks v (set_svc i ((svc v i)\<lparr>cs_store := st\<rparr>) v)" for v st
    by (rule shrinks_set_svc) (auto simp: cell_of_def listeners_def)
  moreover have "shrinks w (set_svc i (svc w i) w)"
    by (rule shrinks_set_svc) (auto simp: cell_of_def listeners_def)
  ultimately show ?thesis
    unfolding dispose_service_def store_dispose_def
    by (auto simp: p intro: shrinks_trans split: if_splits)
qed

text \<open>The operations that add to a world: a new service, key, watcher or listener.\<close>

lemma wf_new_service: "ctx_wf w \<Longrightarrow> ctx_wf (fst (new_service w))"
proof -
  assume wf: "ctx_wf w"
  have "svc_ok (fst (new_service w)) i" if "i < Suc (length (wd_services w))" for i
  proof (cases "i = length (wd_services w)")
    case True
    then show ?thesis
      by (simp add: svc_ok_def new_service_def Let_def cell_of_def listeners_def new_emitter_def)
  next
    case False
    with that have i: "i < length (wd_services w)" by simp
    then have "svc_ok w i" using wf by (simp add: ctx_wf_def)
    with i show ?thesis
      by (auto simp: svc_ok_def new_service_def Let_def cell_of_def listeners_def nth_append)
  qed
  then show ?thesis by (simp add: ctx_wf_def new_service_def Let_def)
qed

lemma wf_add_listener:
  assumes wf: "ctx_wf w" and i: "i < length (wd_services w)"
    and l: "case l of Watching k \<Rightarrow> k < length (wd_watchers w) \<and> cw_service (wd_watchers w ! k) = i
       | Forwarding c \<Rightarrow> i < c \<and> c < length (wd_services w) \<and> cs_parent (svc w c) = Some i"
  shows "ctx_wf (on_emitter i (\<lambda>em. fst (subscribe l em)) w)"
proof -
  let ?w = "on_emitter i (\<lambda>em. fst (subscribe l em)) w"
  have par: "cs_parent (svc ?w j) = cs_parent (svc w j)" for j
    using i by (cases "j = i") (auto simp: on_emitter_def set_svc_def)
  have cel: "cell_of ?w j = cell_of w j" for j
    using i by (cases "j = i") (auto simp: on_emitter_def set_svc_def cell_of_def)
  have lis: "listeners ?w j = (if j = i then insert l (listeners w i) else listeners w j)" for j
    using i by (auto simp: on_emitter_def set_svc_def listeners_def subscribe_def)
  have len: "length (wd_services ?w) = length (wd_services w)" "wd_cells ?w = wd_cells w"
    "wd_watchers ?w = wd_watchers w" by (simp_all add: on_emitter_def set_svc_def)
  have "svc_ok ?w j" if j: "j < length (wd_services w)" for j
  proof -
    have "svc_ok w j" using wf j by (simp add: ctx_wf_def)
    then show ?thesis unfolding svc_ok_def par cel len lis
      using l by (auto split: ctx_listener.splits if_splits)
  qed
  then show ?thesis by (simp add: ctx_wf_def len)
qed

lemma wf_watch: "ctx_wf w \<Longrightarrow> i < length (wd_services w) \<Longrightarrow> ctx_wf (fst (on_did_change_expression i e w))"
proof -
  assume wf: "ctx_wf w" and i: "i < length (wd_services w)"
  let ?w = "w\<lparr>wd_watchers := wd_watchers w @ [\<lparr>cw_service = i, cw_expr = e, cw_last = evaluate w i e\<rparr>]\<rparr>"
  have c: "cell_of ?w = cell_of w" "listeners ?w = listeners w"
    by (simp_all add: cell_of_def listeners_def fun_eq_iff)
  have "svc_ok ?w j" if j: "j < length (wd_services w)" for j
  proof -
    have "svc_ok w j" using wf j by (simp add: ctx_wf_def)
    then show ?thesis unfolding svc_ok_def c by (simp add: nth_append less_Suc_eq)
  qed
  then have "ctx_wf ?w" by (simp add: ctx_wf_def)
  then show ?thesis
    unfolding on_did_change_expression_def Let_def
    by (simp add: i wf_add_listener)
qed

lemma wf_create_key:
  "ctx_wf w \<Longrightarrow> i < length (wd_services w) \<Longrightarrow> create_key i key d w = Inr (w', h) \<Longrightarrow>
   ctx_wf w' \<and> handle_ok w' h"
proof -
  assume wf: "ctx_wf w" and i: "i < length (wd_services w)" and c: "create_key i key d w = Inr (w', h)"
  let ?a = "length (wd_cells w)"
  define m where "m = om_set key ?a (cs_keys (svc w i))"
  define s where "s = (svc w i)\<lparr>cs_keys := m\<rparr>"
  have w': "w' = set_svc i s (w\<lparr>wd_cells := wd_cells w @ [\<lparr>tk_default = d, tk_value = d\<rparr>]\<rparr>)"
    using c by (auto simp: create_key_def Let_def s_def m_def split: if_splits)
  have len: "length (wd_cells w') = Suc ?a" "length (wd_services w') = length (wd_services w)"
    "wd_watchers w' = wd_watchers w" and h: "h = \<lparr>ck_service = i, ck_name = key, ck_cell = ?a\<rparr>"
    using c by (auto simp: create_key_def Let_def set_svc_def split: if_splits)
  have par: "cs_parent (svc w' j) = cs_parent (svc w j)" "listeners w' j = listeners w j" for j
    using i by (cases "j = i"; simp add: w' s_def set_svc_def listeners_def)+
  have cel: "cell_of w' j \<subseteq> (if j = i then insert ?a (cell_of w j) else cell_of w j)" for j
  proof (cases "j = i")
    case True
    have "snd ` set m \<subseteq> insert ?a (cell_of w i)"
      using image_mono [OF set_om_set [of key ?a "cs_keys (svc w i)"], of snd]
      by (simp add: m_def cell_of_def)
    then show ?thesis using True i by (simp add: w' s_def set_svc_def cell_of_def)
  next
    case False
    then show ?thesis by (simp add: w' set_svc_def cell_of_def)
  qed
  have old: "cell_of w j \<subseteq> {..< ?a}" if "j < length (wd_services w)" for j
    using wf that unfolding ctx_wf_def svc_ok_def by blast
  have "svc_ok w' j" if j: "j < length (wd_services w)" for j
  proof -
    have "svc_ok w j" using wf j by (simp add: ctx_wf_def)
    moreover have "cell_of w' j \<subseteq> {..< length (wd_cells w')}"
      using old [OF j] cel [of j] by (auto simp: len split: if_splits)
    ultimately show ?thesis unfolding svc_ok_def par len by blast
  qed
  moreover have "?a \<in> cell_of w' j \<Longrightarrow> j < length (wd_services w) \<Longrightarrow> j = i" for j
    using old [of j] cel [of j] by (auto split: if_splits)
  ultimately show ?thesis using i by (simp add: ctx_wf_def handle_ok_def len h)
qed

lemma wf_create_scoped: "ctx_wf w \<Longrightarrow> i < length (wd_services w) \<Longrightarrow> ctx_wf (fst (create_scoped i w))"
proof -
  assume wf: "ctx_wf w" and i: "i < length (wd_services w)"
  define c where "c = length (wd_services w)"
  define w1 where "w1 = fst (new_service w)"
  define w2 where "w2 = set_svc c ((svc w1 c)\<lparr>cs_parent := Some i\<rparr>) w1"
  define w3 where "w3 = on_emitter i (\<lambda>em. fst (subscribe (Forwarding c) em)) w2"
  have n: "new_service w = (w1, c)" by (simp add: w1_def new_service_def Let_def c_def)
  have wf1: "ctx_wf w1" unfolding w1_def by (rule wf_new_service [OF wf])
  have l1: "length (wd_services w1) = Suc c" by (simp add: w1_def new_service_def Let_def c_def)
  have lis: "listeners w1 c = {}"
    by (simp add: w1_def new_service_def Let_def c_def listeners_def new_emitter_def)
  have ok1: "Forwarding c \<notin> listeners w1 j" if "j < Suc c" for j
  proof
    assume f: "Forwarding c \<in> listeners w1 j"
    then have "j \<noteq> c" using lis by auto
    then have j: "j < c" using that by simp
    then have "listeners w1 j = listeners w j"
      by (simp add: w1_def new_service_def Let_def c_def listeners_def nth_append)
    with f have "Forwarding c \<in> listeners w j" by simp
    moreover have "svc_ok w j" using wf j by (simp add: ctx_wf_def c_def)
    ultimately show False unfolding svc_ok_def c_def by blast
  qed
  have "svc_ok w2 j" if j: "j < Suc c" for j
  proof -
    have "svc_ok w1 j" using wf1 j l1 by (simp add: ctx_wf_def)
    moreover have "cell_of w2 j = cell_of w1 j" "listeners w2 j = listeners w1 j"
      by (cases "j = c"; simp add: w2_def set_svc_def cell_of_def listeners_def l1)+
    moreover have "cs_parent (svc w2 k) = (if k = c then Some i else cs_parent (svc w1 k))" for k
      by (cases "k = c") (simp_all add: w2_def set_svc_def l1)
    moreover have "wd_cells w2 = wd_cells w1" "wd_watchers w2 = wd_watchers w1"
      "length (wd_services w2) = length (wd_services w1)" by (simp_all add: w2_def set_svc_def)
    ultimately show ?thesis
      using ok1 [OF j] i unfolding svc_ok_def c_def by auto
  qed
  then have wf2: "ctx_wf w2" by (simp add: ctx_wf_def w2_def set_svc_def l1)
  have wf3: "ctx_wf w3" unfolding w3_def
    by (rule wf_add_listener [OF wf2]) (use i in \<open>simp_all add: w2_def set_svc_def l1 c_def\<close>)
  have "shrinks w3 (set_svc c ((svc w3 c)\<lparr>cs_store := st\<rparr>) w3)" for st
    by (rule shrinks_set_svc) (simp_all add: cell_of_def listeners_def)
  then have "ctx_wf (set_svc c ((svc w3 c)\<lparr>cs_store := st\<rparr>) w3)" for st
    using wf3 shrinks_wf by blast
  then show ?thesis
    by (simp add: create_scoped_def n Let_def w2_def [symmetric] w3_def [symmetric])
qed

lemma apply_ctx_wf: "ctx_wf w \<Longrightarrow> op_applies op w \<Longrightarrow> ctx_wf (apply_ctx op w)"
proof (cases op)
  case (CtxCreateKey i key d)
  assume wf: "ctx_wf w" and a: "op_applies op w"
  then show ?thesis
    using wf_create_key CtxCreateKey by (fastforce split: sum.split)
qed (auto simp: wf_new_service wf_watch wf_create_scoped key_reset_def
  intro: shrinks_wf shrinks_key_set shrinks_key_dispose shrinks_unlisten shrinks_dispose_service)

text \<open>
  Every operation of every service, in any order, keeps the world of context keys well
  formed: each key is backed by a tracked cell, each forwarding goes to a scope made from that
  very service, each installed watcher belongs to the service it listens on.
\<close>

theorem context_ops_keep_wf: "ctx_wf w \<Longrightarrow> op_applies op w \<Longrightarrow> ctx_wf (apply_ctx op w)"
  by (rule apply_ctx_wf)

text \<open>A world with a service, a key, a scope below and a watcher in the scope.\<close>

definition sample_world :: ctx_world where
  "sample_world =
     apply_ctx (CtxWatch 1 (ExHas ''open'')) (apply_ctx (CtxScope 0)
       (apply_ctx (CtxCreateKey 0 ''open'' (CBool False)) (apply_ctx CtxNew empty_world)))"

lemma sample_world_wf: "ctx_wf sample_world"
proof -
  have "ctx_wf empty_world" by (simp add: ctx_wf_def empty_world_def)
  then show ?thesis unfolding sample_world_def
    by (intro apply_ctx_wf)
      (simp_all add: empty_world_def new_service_def create_key_def create_scoped_def Let_def
        set_svc_def on_emitter_def om_has_def)
qed

lemma sample_world_eq:
  "sample_world =
    \<lparr>wd_cells = [\<lparr>tk_default = CBool False, tk_value = CBool False\<rparr>],
     wd_services =
       [\<lparr>cs_keys = [(''open'', 0)],
         cs_emitter = \<lparr>em_listeners = [(0, Forwarding 1)], em_queue = None, em_next = 1\<rparr>,
         cs_parent = None, cs_store = \<lparr>st_items = [OwnEmitter 0], st_disposed = False\<rparr>\<rparr>,
        \<lparr>cs_keys = [],
         cs_emitter = \<lparr>em_listeners = [(0, Watching 0)], em_queue = None, em_next = 1\<rparr>,
         cs_parent = Some 0,
         cs_store = \<lparr>st_items = [OwnEmitter 1, ParentListener 0 0], st_disposed = False\<rparr>\<rparr>],
     wd_watchers = [\<lparr>cw_service = 1, cw_expr = ExHas ''open'', cw_last = False\<rparr>],
     wd_calls = []\<rparr>"
  by (simp add: sample_world_def empty_world_def new_service_def create_key_def create_scoped_def
      on_did_change_expression_def Let_def set_svc_def on_emitter_def om_has_def new_emitter_def
      subscribe_def get_value.simps)

abbreviation sample_handle :: ctx_key where
  "sample_handle \<equiv> \<lparr>ck_service = 0, ck_name = ''open'', ck_cell = 0\<rparr>"

lemma sample_world_current: "watchers_current sample_world"
proof -
  have "i < 2" if "attached sample_world i" for i
    using that by (rule attachedE) (simp_all add: sample_world_eq)
  then have "i = 0 \<or> i = 1" if "attached sample_world i" for i
    using that by fastforce
  moreover have "listeners sample_world 0 = {Forwarding 1}" "listeners sample_world 1 = {Watching 0}"
    by (simp_all add: listeners_def sample_world_eq)
  moreover have "current sample_world 0"
    by (simp add: current_def sample_world_eq get_value.simps)
  ultimately show ?thesis by (fastforce simp: watchers_current_def)
qed

theorem key_set_keeps_watchers_current_witness:
  "watchers_current (key_set sample_handle (CBool True) sample_world)
   \<and> wd_calls (key_set sample_handle (CBool True) sample_world) = [(0, True)]"
proof -
  have "handle_ok sample_world sample_handle"
    by (auto simp: handle_ok_def sample_world_eq cell_of_def less_Suc_eq)
  then have "watchers_current (key_set sample_handle (CBool True) sample_world)"
    using key_set_keeps_watchers_current sample_world_wf sample_world_current by blast
  then show ?thesis
    by (simp add: sample_world_eq key_set_def key_get_def fire_context_def numeral_2_eq_2 fire_def
        em_ids_def check_watcher_def get_value.simps)
qed

theorem context_ops_keep_wf_witness: "ctx_wf (apply_ctx (CtxDispose 1) sample_world)"
  using context_ops_keep_wf [OF sample_world_wf, of "CtxDispose 1"] by (simp add: sample_world_eq)

section \<open>Registering a key is silent\<close>

text \<open>
  Registering a key whose default is neither undefined, null nor false makes the expression
  \<open>has key\<close> true at once, but no watcher learns of it: nothing is fired, so every
  watcher keeps the value it last reported.
\<close>

theorem create_key_is_silent:
  assumes "i < length (wd_services w)" and "d \<notin> {CUndef, CNull, CBool False}"
    and "create_key i key d w = Inr (w', h)"
  shows "evaluate w' i (ExHas key) \<and> wd_watchers w' = wd_watchers w \<and> wd_calls w' = wd_calls w
    \<and> \<not> om_has (cs_keys (svc w i)) key"
  using assms
  by (auto simp: create_key_def Let_def set_svc_def get_value.simps split: if_splits)

theorem create_key_is_silent_witness:
  "\<exists>w' h. create_key 1 ''open'' (CBool True) sample_world = Inr (w', h)
    \<and> evaluate w' 1 (ExHas ''open'') \<and> cw_last (wd_watchers w' ! 0) = False
    \<and> cw_expr (wd_watchers w' ! 0) = ExHas ''open'' \<and> wd_calls w' = []"
proof -
  obtain w' h where c: "create_key 1 ''open'' (CBool True) sample_world = Inr (w', h)"
    by (simp add: create_key_def sample_world_eq om_has_def Let_def)
  from create_key_is_silent [OF _ _ c] c show ?thesis by (simp add: sample_world_eq)
qed

end
