(* ===== verification/Strings.thy ===== *)
theory Strings
  imports Prelude
begin

text \<open>
  The string operations of the language the sources use: \<open>trim\<close>, \<open>split\<close>,
  \<open>join\<close>, \<open>startsWith\<close>, \<open>endsWith\<close>, \<open>includes\<close>, truthiness and
  \<open>||\<close> on strings, decimal numerals, and \<open>encodeURIComponent\<close> with its inverse.
\<close>

section \<open>Truthiness and \<open>||\<close>\<close>

definition or_str :: "string \<Rightarrow> string \<Rightarrow> string" where
  "or_str a b = (if a \<noteq> [] then a else b)"

lemma or_str_simps [simp]: "or_str [] b = b" "or_str (c # cs) b = c # cs" "or_str a [] = a"
  by (simp_all add: or_str_def)

lemma or_str_eq_Nil [simp]: "or_str a b = [] \<longleftrightarrow> a = [] \<and> b = []"
  by (simp add: or_str_def)

section \<open>Prefixes, suffixes and substrings\<close>

fun starts_with :: "string \<Rightarrow> string \<Rightarrow> bool" where
  "starts_with [] s = True"
| "starts_with (p # ps) [] = False"
| "starts_with (p # ps) (c # cs) = (p = c \<and> starts_with ps cs)"

definition ends_with :: "string \<Rightarrow> string \<Rightarrow> bool" where
  "ends_with suf s = starts_with (rev suf) (rev s)"

fun includes_str :: "string \<Rightarrow> string \<Rightarrow> bool" where
  "includes_str pat [] = (pat = [])"
| "includes_str pat (c # cs) = (starts_with pat (c # cs) \<or> includes_str pat cs)"

lemma starts_with_append [simp]: "starts_with p (p @ s)"
  by (induction p) auto

lemma starts_with_iff: "starts_with p s \<longleftrightarrow> (\<exists>t. s = p @ t)"
  by (induction p s rule: starts_with.induct) auto

lemma ends_with_iff: "ends_with p s \<longleftrightarrow> (\<exists>t. s = t @ p)"
  unfolding ends_with_def starts_with_iff by (metis rev_append rev_rev_ident)

lemma includes_str_iff: "includes_str p s \<longleftrightarrow> (\<exists>a b. s = a @ p @ b)"
proof (induction s)
  case Nil
  then show ?case by auto
next
  case (Cons c cs)
  have "(\<exists>a b. c # cs = a @ p @ b) \<longleftrightarrow> (\<exists>b. c # cs = p @ b) \<or> (\<exists>a b. cs = a @ p @ b)"
    by (auto simp: Cons_eq_append_conv)
  with Cons show ?case by (simp add: starts_with_iff)
qed

section \<open>\<open>trim\<close>\<close>

text \<open>
  The white space of the language: the ASCII characters and the UTF-8 encodings of the
  no-break space, the byte order mark, the line and paragraph separators and the category
  \<open>Zs\<close>.
\<close>

definition bytes :: "nat list \<Rightarrow> string" where
  "bytes ns = map char_of ns"

definition white_space :: "string list" where
  "white_space = map bytes
     ([[9], [10], [11], [12], [13], [32], [194, 160], [239, 187, 191], [225, 154, 128],
       [226, 128, 168], [226, 128, 169], [226, 128, 175], [226, 129, 159], [227, 128, 128]]
      @ map (\<lambda>k. [226, 128, k]) [128..<139])"

function strip_start :: "string list \<Rightarrow> string \<Rightarrow> string" where
  "strip_start ws s =
     (case find (\<lambda>w. w \<noteq> [] \<and> starts_with w s) ws of
        None \<Rightarrow> s
      | Some w \<Rightarrow> strip_start ws (drop (length w) s))"
  by pat_completeness auto
termination
proof (relation "measure (\<lambda>(ws, s). length s)")
  show "wf (measure (\<lambda>(ws :: string list, s :: string). length s))" by simp
next
  fix ws :: "string list" and s w
  assume "find (\<lambda>w. w \<noteq> [] \<and> starts_with w s) ws = Some w"
  then have "w \<noteq> []" "starts_with w s" by (auto dest: find_SomeD)
  then show "((ws, drop (length w) s), (ws, s)) \<in> measure (\<lambda>(ws, s). length s)"
    by (auto simp: starts_with_iff)
qed

declare strip_start.simps [simp del]

definition js_trim :: "string \<Rightarrow> string" where
  "js_trim s = rev (strip_start (map rev white_space) (rev (strip_start white_space s)))"

lemma strip_start_Nil [simp]: "strip_start ws [] = []"
proof -
  have "find (\<lambda>w. w \<noteq> [] \<and> starts_with w []) ws = None"
    by (auto simp: find_None_iff starts_with_iff)
  then show ?thesis by (simp add: strip_start.simps)
qed

lemma strip_start_suffix: "\<exists>p. s = p @ strip_start ws s"
proof (induction ws s rule: strip_start.induct)
  case (1 ws s)
  show ?case
  proof (cases "find (\<lambda>w. w \<noteq> [] \<and> starts_with w s) ws")
    case None
    then show ?thesis by (simp add: strip_start.simps [of ws s])
  next
    case (Some w)
    with 1 obtain p where "drop (length w) s = p @ strip_start ws (drop (length w) s)" by blast
    then have "s = (take (length w) s @ p) @ strip_start ws (drop (length w) s)"
      by (metis append.assoc append_take_drop_id)
    moreover have "strip_start ws s = strip_start ws (drop (length w) s)"
      using Some by (simp add: strip_start.simps [of ws s])
    ultimately show ?thesis by metis
  qed
qed

lemma strip_start_idem: "strip_start ws (strip_start ws s) = strip_start ws s"
proof (induction ws s rule: strip_start.induct)
  case (1 ws s)
  then show ?case
    by (cases "find (\<lambda>w. w \<noteq> [] \<and> starts_with w s) ws")
       (simp_all add: strip_start.simps [of ws s])
qed

lemma js_trim_Nil [simp]: "js_trim [] = []"
  by (simp add: js_trim_def)

lemma js_trim_infix: "\<exists>a b. s = a @ js_trim s @ b"
proof -
  obtain a where a: "s = a @ strip_start white_space s" using strip_start_suffix by blast
  obtain b where "rev (strip_start white_space s) = b @ rev (js_trim s)"
    using strip_start_suffix [of "rev (strip_start white_space s)" "map rev white_space"]
    by (auto simp: js_trim_def)
  then have "strip_start white_space s = js_trim s @ rev b"
    by (metis rev_append rev_rev_ident)
  with a show ?thesis by metis
qed

lemma js_trim_nonempty: "js_trim s \<noteq> [] \<Longrightarrow> s \<noteq> []"
  by auto

text \<open>A text that begins and ends with visible ASCII characters is not trimmed.\<close>

definition visible_char :: "char \<Rightarrow> bool" where
  "visible_char c \<longleftrightarrow> 32 < (of_char c :: nat) \<and> (of_char c :: nat) < 127"

lemma strip_start_keep: "list_all (\<lambda>w. w = [] \<or> hd w \<noteq> c) ws \<Longrightarrow> strip_start ws (c # cs) = c # cs"
proof -
  assume a: "list_all (\<lambda>w. w = [] \<or> hd w \<noteq> c) ws"
  have "\<not> (w \<noteq> [] \<and> starts_with w (c # cs))" if "w \<in> set ws" for w
  proof -
    have "w = [] \<or> hd w \<noteq> c" using that a by (simp add: list_all_iff)
    then show ?thesis by (cases w) simp_all
  qed
  then have "find (\<lambda>w. w \<noteq> [] \<and> starts_with w (c # cs)) ws = None" by (auto simp: find_None_iff)
  then show ?thesis by (simp add: strip_start.simps [of ws "c # cs"])
qed

lemma white_space_ends:
  assumes "visible_char c"
  shows "list_all (\<lambda>w. w = [] \<or> hd w \<noteq> c) white_space" "list_all (\<lambda>w. w = [] \<or> hd w \<noteq> c) (map rev white_space)"
proof -
  let ?Q = "\<lambda>w. w = [] \<or> (of_char (hd w) :: nat) \<le> 32 \<or> 127 \<le> (of_char (hd w) :: nat)"
  have q: "list_all ?Q white_space" "list_all ?Q (map rev white_space)"
    by (simp_all add: white_space_def bytes_def upt_rec)
  have r: "w = [] \<or> hd w \<noteq> c" if "?Q w" for w using that assms by (auto simp: visible_char_def)
  show "list_all (\<lambda>w. w = [] \<or> hd w \<noteq> c) white_space"
    by (rule list.pred_mono_strong [OF q(1)]) (rule r)
  show "list_all (\<lambda>w. w = [] \<or> hd w \<noteq> c) (map rev white_space)"
    by (rule list.pred_mono_strong [OF q(2)]) (rule r)
qed

lemma strip_start_visible: "visible_char c \<Longrightarrow> strip_start white_space (c # cs) = c # cs"
  by (rule strip_start_keep [OF white_space_ends(1)])

lemma js_trim_keep: "visible_char c \<Longrightarrow> visible_char d \<Longrightarrow> js_trim (c # cs @ [d]) = c # cs @ [d]"
  using strip_start_keep [OF white_space_ends(1), of c "cs @ [d]"]
    strip_start_keep [OF white_space_ends(2), of d "rev (c # cs)"]
  by (simp add: js_trim_def)

section \<open>\<open>split\<close> and \<open>join\<close>\<close>

text \<open>\<open>s.split(sep)\<close> for separators that are single characters; always at least one piece.\<close>

fun split_by :: "(char \<Rightarrow> bool) \<Rightarrow> string \<Rightarrow> string list" where
  "split_by P [] = [[]]"
| "split_by P (c # cs) =
     (if P c then [] # split_by P cs
      else (case split_by P cs of [] \<Rightarrow> [[c]] | w # ws \<Rightarrow> (c # w) # ws))"

fun join_str :: "string \<Rightarrow> string list \<Rightarrow> string" where
  "join_str sep [] = []"
| "join_str sep [w] = w"
| "join_str sep (w # ws) = w @ sep @ join_str sep ws"

lemma split_by_nonempty [simp]: "split_by P s \<noteq> []"
  by (induction s) (auto split: list.splits)

lemma join_split: "join_str [c] (split_by (\<lambda>x. x = c) s) = s"
proof (induction s)
  case Nil
  show ?case by simp
next
  case (Cons x xs)
  obtain w ws where w: "split_by (\<lambda>x. x = c) xs = w # ws"
    by (cases "split_by (\<lambda>x. x = c) xs") auto
  with Cons show ?case by (cases ws) auto
qed

lemma split_by_pieces: "w \<in> set (split_by P s) \<Longrightarrow> \<forall>c \<in> set w. \<not> P c"
proof (induction s arbitrary: w)
  case Nil
  then show ?case by simp
next
  case (Cons a s)
  obtain v vs where v: "split_by P s = v # vs" by (cases "split_by P s") auto
  then have "\<forall>u \<in> set (v # vs). \<forall>c \<in> set u. \<not> P c" using Cons.IH by simp
  with Cons.prems v show ?case by (auto split: if_splits)
qed

lemma length_split_by: "length (split_by P s) = Suc (length (filter P s))"
proof (induction s)
  case Nil
  show ?case by simp
next
  case (Cons c cs)
  then show ?case by (cases "split_by P cs") auto
qed

lemma split_by_no_sep: "\<forall>c \<in> set s. \<not> P c \<Longrightarrow> split_by P s = [s]"
  by (induction s) auto

lemma split_by_append_sep: "P c \<Longrightarrow> split_by P (a @ c # b) = split_by P a @ split_by P b"
proof (induction a)
  case (Cons x xs)
  then show ?case by (cases "split_by P xs") auto
qed simp

section \<open>Case and decimal numerals\<close>

definition is_digit :: "char \<Rightarrow> bool" where
  "is_digit c \<longleftrightarrow> 48 \<le> (of_char c :: nat) \<and> (of_char c :: nat) \<le> 57"

definition is_lower :: "char \<Rightarrow> bool" where
  "is_lower c \<longleftrightarrow> 97 \<le> (of_char c :: nat) \<and> (of_char c :: nat) \<le> 122"

definition is_upper :: "char \<Rightarrow> bool" where
  "is_upper c \<longleftrightarrow> 65 \<le> (of_char c :: nat) \<and> (of_char c :: nat) \<le> 90"

definition to_lower :: "string \<Rightarrow> string" where
  "to_lower s = map (\<lambda>c. if is_upper c then char_of ((of_char c :: nat) + 32) else c) s"

definition to_upper :: "string \<Rightarrow> string" where
  "to_upper s = map (\<lambda>c. if is_lower c then char_of ((of_char c :: nat) - 32) else c) s"

definition digit_char :: "nat \<Rightarrow> char" where
  "digit_char d = char_of (48 + d)"

definition digit_val :: "char \<Rightarrow> nat" where
  "digit_val c = of_char c - 48"

fun show_nat :: "nat \<Rightarrow> string" where
  "show_nat n = (if n < 10 then [digit_char n] else show_nat (n div 10) @ [digit_char (n mod 10)])"

declare show_nat.simps [simp del]

definition show_int :: "int \<Rightarrow> string" where
  "show_int i = (if i < 0 then ''-'' @ show_nat (nat (- i)) else show_nat (nat i))"

lemma digit_val_char [simp]: "d < 10 \<Longrightarrow> digit_val (digit_char d) = d"
  by (simp add: digit_val_def digit_char_def)

lemma is_digit_char [simp]: "d < 10 \<Longrightarrow> is_digit (digit_char d)"
  by (simp add: is_digit_def digit_char_def)

lemma show_nat_digits: "c \<in> set (show_nat n) \<Longrightarrow> is_digit c"
proof (induction n arbitrary: c rule: show_nat.induct)
  case (1 n)
  show ?case
  proof (cases "n < 10")
    case True
    with 1 show ?thesis by (simp add: show_nat.simps [of n])
  next
    case False
    with 1 show ?thesis by (auto simp: show_nat.simps [of n])
  qed
qed

lemma show_nat_nonempty [simp]: "show_nat n \<noteq> []"
  by (subst show_nat.simps) simp

definition read_nat :: "string \<Rightarrow> nat" where
  "read_nat s = foldl (\<lambda>n c. 10 * n + digit_val c) 0 s"

lemma read_show_nat [simp]: "read_nat (show_nat n) = n"
proof (induction n rule: show_nat.induct)
  case (1 n)
  show ?case
  proof (cases "n < 10")
    case True
    then show ?thesis by (simp add: show_nat.simps [of n] read_nat_def)
  next
    case False
    with 1 show ?thesis by (simp add: show_nat.simps [of n] read_nat_def)
  qed
qed

lemma show_nat_inj: "show_nat m = show_nat n \<Longrightarrow> m = n"
  by (metis read_show_nat)

end
