(* ===== verification/Registries.thy ===== *)
theory Registries
  imports Interfaces ContextKeys Strings
begin

text \<open>
  The registries of \<open>packages/workbench/src/\<close>: \<open>services/contribution-registry.ts\<close>,
  \<open>services/session-status.ts\<close>, \<open>services/agent-host-provider-registry.ts\<close>,
  \<open>platform/actions/actions.ts\<close>, \<open>platform/keybinding/keybindings.ts\<close> with its
  dispatcher \<open>contrib/core/keybindings.contribution.ts\<close>.

  A registered descriptor is an object (\<open>obj\<close>), compared by \<open>===\<close>; an address
  determines its object, so \<open>=\<close> on \<open>obj\<close> is that comparison.  Every registry keeps
  a count or log of the events it fires.  \<open>order\<close> is an integer, an absent one is
  \<open>None\<close>.  \<open>localeCompare\<close> is the parameter \<open>lc\<close>.
\<close>

definition order_of :: "int option \<Rightarrow> int" where
  "order_of ord = (case ord of None \<Rightarrow> 0 | Some n \<Rightarrow> n)"

definition by_order_id ::
  "(string \<Rightarrow> string \<Rightarrow> int) \<Rightarrow> ('d \<Rightarrow> int option) \<Rightarrow> ('d \<Rightarrow> string) \<Rightarrow> 'd \<Rightarrow> 'd \<Rightarrow> int" where
  "by_order_id lc ord key =
     cmp_then (\<lambda>l r. order_of (ord l) - order_of (ord r)) (\<lambda>l r. lc (key l) (key r))"

lemma consistent_by_order_id: "consistent_cmp lc \<Longrightarrow> consistent_cmp (by_order_id lc ord key)"
  unfolding by_order_id_def
  by (intro consistent_cmp_then consistent_cmp_inv [where k = key] consistent_cmp_key)

section \<open>\<open>ContributionRegistry\<close>\<close>

record 'p contribution =
  cd_id :: string
  cd_order :: "int option"
  cd_payload :: 'p

record 'p contribution_registry =
  cr_descriptors :: "(string, 'p contribution obj) omap"
  cr_fired :: "'p contribution obj list"

datatype registry_error = AlreadyRegistered string | UnknownCommand string string

definition cr_all :: "'p contribution_registry \<Rightarrow> 'p contribution obj list" where
  "cr_all s = js_sort (\<lambda>l r. order_of (cd_order (val l)) - order_of (cd_order (val r)))
     (om_values (cr_descriptors s))"

definition cr_get :: "'p contribution_registry \<Rightarrow> string \<Rightarrow> 'p contribution obj option" where
  "cr_get s k = om_get (cr_descriptors s) k"

definition cr_register ::
  "'p contribution obj \<Rightarrow> 'p contribution_registry \<Rightarrow> registry_error + 'p contribution_registry" where
  "cr_register d s =
     (if om_has (cr_descriptors s) (cd_id (val d)) then Inl (AlreadyRegistered (cd_id (val d)))
      else Inr (s\<lparr>cr_descriptors := om_set (cd_id (val d)) d (cr_descriptors s),
                  cr_fired := cr_fired s @ [d]\<rparr>))"

definition cr_dispose :: "'p contribution obj \<Rightarrow> 'p contribution_registry \<Rightarrow> 'p contribution_registry" where
  "cr_dispose d s =
     (if om_get (cr_descriptors s) (cd_id (val d)) = Some d
      then s\<lparr>cr_descriptors := om_del (cd_id (val d)) (cr_descriptors s)\<rparr> else s)"

definition cr_inv :: "'p contribution_registry \<Rightarrow> bool" where
  "cr_inv s \<longleftrightarrow> keyed (cd_id \<circ> val) (cr_descriptors s)"

interpretation contributions: ordered_registry cr_get cr_register cr_dispose "cd_id \<circ> val" cr_inv
  "\<lambda>cmp s. js_sort cmp (om_values (cr_descriptors s))"
proof unfold_locales
  show "cr_inv s \<Longrightarrow> cr_register d s = Inr s' \<Longrightarrow>
      cr_get s' = (cr_get s)((cd_id \<circ> val) d \<mapsto> d) \<and> cr_inv s'" for s d s'
    using keyed_set [of "cd_id \<circ> val" "cr_descriptors s" d]
    by (auto simp: cr_register_def cr_get_def cr_inv_def split: if_splits)
qed (auto simp: cr_register_def cr_get_def cr_dispose_def cr_inv_def om_has_def keyed_values
  distinct_js_sort keyed_distinct sorted_js_sort split: if_splits)

section \<open>\<open>SessionStatusRegistry\<close>\<close>

record presentation =
  pr_icon :: string
  pr_label :: string
  pr_state :: string

record 'i status_descriptor =
  sd_id :: string
  sd_presentation :: presentation
  sd_matches :: "'i option \<Rightarrow> bool"
  sd_order :: "int option"

record 'i status_registry =
  sr_descriptors :: "(string, 'i status_descriptor obj) omap"
  sr_fires :: nat

definition sr_register ::
  "'i status_descriptor obj \<Rightarrow> 'i status_registry \<Rightarrow> registry_error + 'i status_registry" where
  "sr_register d s =
     (if om_has (sr_descriptors s) (sd_id (val d)) then Inl (AlreadyRegistered (sd_id (val d)))
      else Inr (s\<lparr>sr_descriptors := om_set (sd_id (val d)) d (sr_descriptors s),
                  sr_fires := Suc (sr_fires s)\<rparr>))"

definition sr_dispose :: "'i status_descriptor obj \<Rightarrow> 'i status_registry \<Rightarrow> 'i status_registry" where
  "sr_dispose d s =
     (if om_get (sr_descriptors s) (sd_id (val d)) \<noteq> Some d then s
      else s\<lparr>sr_descriptors := om_del (sd_id (val d)) (sr_descriptors s), sr_fires := Suc (sr_fires s)\<rparr>)"

definition sr_cmp ::
  "(string \<Rightarrow> string \<Rightarrow> int) \<Rightarrow> 'i status_descriptor obj \<Rightarrow> 'i status_descriptor obj \<Rightarrow> int" where
  "sr_cmp lc = by_order_id lc (sd_order \<circ> val) (sd_id \<circ> val)"

definition idle_status :: presentation where
  "idle_status = \<lparr>pr_icon = ''circle-outline'', pr_label = ''Idle'', pr_state = ''idle''\<rparr>"

definition sr_resolve :: "(string \<Rightarrow> string \<Rightarrow> int) \<Rightarrow> 'i option \<Rightarrow> 'i status_registry \<Rightarrow> presentation" where
  "sr_resolve lc item s =
     (case find (\<lambda>d. sd_matches (val d) item) (js_sort (sr_cmp lc) (om_values (sr_descriptors s))) of
        None \<Rightarrow> idle_status
      | Some d \<Rightarrow> sd_presentation (val d))"

definition sr_get :: "'i status_registry \<Rightarrow> string \<Rightarrow> 'i status_descriptor obj option" where
  "sr_get s k = om_get (sr_descriptors s) k"

definition sr_inv :: "'i status_registry \<Rightarrow> bool" where
  "sr_inv s \<longleftrightarrow> keyed (sd_id \<circ> val) (sr_descriptors s)"

interpretation statuses: ordered_registry sr_get sr_register sr_dispose "sd_id \<circ> val" sr_inv
  "\<lambda>cmp s. js_sort cmp (om_values (sr_descriptors s))"
proof unfold_locales
  show "sr_inv s \<Longrightarrow> sr_register d s = Inr s' \<Longrightarrow>
      sr_get s' = (sr_get s)((sd_id \<circ> val) d \<mapsto> d) \<and> sr_inv s'" for s d s'
    using keyed_set [of "sd_id \<circ> val" "sr_descriptors s" d]
    by (auto simp: sr_register_def sr_get_def sr_inv_def split: if_splits)
qed (auto simp: sr_register_def sr_get_def sr_dispose_def sr_inv_def om_has_def keyed_values
  distinct_js_sort keyed_distinct sorted_js_sort split: if_splits)

text \<open>
  The status shown for a session is the presentation of a registered descriptor that
  matches it and precedes, by order and then by id, every other registered descriptor that
  matches; it is the idle one exactly when nothing registered matches.
\<close>

theorem status_resolve_least_match:
  assumes i: "sr_inv s" and lc: "consistent_cmp lc"
  shows "(\<exists>k d. sr_get s k = Some d \<and> sd_matches (val d) item
            \<and> sr_resolve lc item s = sd_presentation (val d)
            \<and> (\<nexists>k' d'. sr_get s k' = Some d' \<and> sd_matches (val d') item \<and> sr_cmp lc d' d < 0))
       \<or> (sr_resolve lc item s = idle_status \<and> (\<nexists>k d. sr_get s k = Some d \<and> sd_matches (val d) item))"
proof -
  let ?ds = "js_sort (sr_cmp lc) (om_values (sr_descriptors s))"
  have c: "consistent_cmp (sr_cmp lc)" unfolding sr_cmp_def by (rule consistent_by_order_id [OF lc])
  have key: "k = sd_id (val d)" if "sr_get s k = Some d" for k d
    using that i by (auto simp: sr_get_def sr_inv_def keyed_def)
  have mem: "d \<in> set ?ds \<longleftrightarrow> sr_get s (sd_id (val d)) = Some d" for d
    using statuses.enum_set [OF i, of d "sr_cmp lc"] by simp
  show ?thesis
  proof (cases "find (\<lambda>d. sd_matches (val d) item) ?ds")
    case None
    then have "\<not> sd_matches (val d) item" if "sr_get s k = Some d" for k d
      using that key [OF that] mem [of d] by (auto simp: find_None_iff)
    then show ?thesis using None by (auto simp: sr_resolve_def)
  next
    case (Some d)
    have d: "sr_get s (sd_id (val d)) = Some d" "sd_matches (val d) item"
      using find_SomeD [OF Some] mem [of d] by auto
    have "\<not> sr_cmp lc d' d < 0" if "sr_get s k' = Some d'" "sd_matches (val d') item" for k' d'
      using statuses.first_match_minimal [OF i c Some, of d'] that key [OF that(1)]
        consistent_cmp_not_greater [OF c] by auto
    moreover have "sr_resolve lc item s = sd_presentation (val d)" using Some by (simp add: sr_resolve_def)
    ultimately show ?thesis using d by blast
  qed
qed

text \<open>Two statuses that match everything, for the witnesses.\<close>

abbreviation sample_status :: "nat \<Rightarrow> string \<Rightarrow> int option \<Rightarrow> nat status_descriptor obj" where
  "sample_status a n ord \<equiv> Obj a \<lparr>sd_id = n,
     sd_presentation = \<lparr>pr_icon = n, pr_label = n, pr_state = n\<rparr>, sd_matches = (\<lambda>i. i \<noteq> None), sd_order = ord\<rparr>"

theorem status_resolve_least_match_witness:
  "let s = \<lparr>sr_descriptors = [(''b'', sample_status 0 ''b'' None), (''a'', sample_status 1 ''a'' (Some 0))],
            sr_fires = 2\<rparr>
   in sr_resolve code_unit_compare (Some 7) s = \<lparr>pr_icon = ''a'', pr_label = ''a'', pr_state = ''a''\<rparr>
    \<and> sr_resolve code_unit_compare None s = idle_status"
proof -
  let ?s = "\<lparr>sr_descriptors = [(''b'', sample_status 0 ''b'' None), (''a'', sample_status 1 ''a'' (Some 0))],
            sr_fires = 2\<rparr>"
  have "sr_inv ?s" by (auto simp: sr_inv_def keyed_def om_wf_def)
  note r = status_resolve_least_match [OF this consistent_code_unit_compare]
  have "sr_resolve code_unit_compare None ?s = idle_status"
    using r [of None] by (auto simp: sr_get_def split: if_splits)
  moreover have "sr_resolve code_unit_compare (Some 7) ?s = \<lparr>pr_icon = ''a'', pr_label = ''a'', pr_state = ''a''\<rparr>"
    by (simp add: sr_resolve_def js_sort_def om_values_def sr_cmp_def by_order_id_def cmp_then_def order_of_def)
  ultimately show ?thesis by (simp add: Let_def)
qed

text \<open>
  A registry that a status was registered in, removed from and registered in again keeps
  the second registration when the disposer of the first is called again.
\<close>

theorem status_stale_dispose_harmless:
  assumes "sr_inv s" and "sr_register d s = Inr s1" and "sr_register d' (sr_dispose d s1) = Inr s2"
    and "sd_id (val d') = sd_id (val d)" and "oid d' \<noteq> oid d"
  shows "sr_get (sr_dispose d s2) (sd_id (val d)) = Some d'"
proof -
  have "d' \<noteq> d" using assms(5) by auto
  then show ?thesis using statuses.reregistration_survives [OF assms(1-3)] assms(4) by simp
qed

theorem status_stale_dispose_harmless_witness:
  "sr_get (sr_dispose (sample_status 0 ''a'' None)
      \<lparr>sr_descriptors = [(''a'', sample_status 1 ''a'' None)], sr_fires = 3\<rparr>) ''a''
    = Some (sample_status 1 ''a'' None)"
proof -
  let ?a = "sample_status 0 ''a'' None" and ?b = "sample_status 1 ''a'' None"
  have i: "sr_inv \<lparr>sr_descriptors = [], sr_fires = 0\<rparr>" by (simp add: sr_inv_def)
  have r1: "sr_register ?a \<lparr>sr_descriptors = [], sr_fires = 0\<rparr>
      = Inr \<lparr>sr_descriptors = [(''a'', ?a)], sr_fires = 1\<rparr>"
    by (simp add: sr_register_def om_has_def)
  have r2: "sr_register ?b (sr_dispose ?a \<lparr>sr_descriptors = [(''a'', ?a)], sr_fires = 1\<rparr>)
      = Inr \<lparr>sr_descriptors = [(''a'', ?b)], sr_fires = 3\<rparr>"
    by (simp add: sr_register_def sr_dispose_def om_has_def)
  show ?thesis using status_stale_dispose_harmless [OF i r1 r2] by simp
qed

text \<open>The double quote of the messages.\<close>

abbreviation quotation :: char where
  "quotation \<equiv> CHR 0x22"

section \<open>\<open>AgentHostProviderRegistry\<close>\<close>

record 'c host_descriptor =
  hd_id :: string
  hd_order :: "int option"
  hd_can_handle :: "(string \<Rightarrow> bool) option"
  hd_connect :: "string \<Rightarrow> 'c"

record 'c host_registry =
  hr_providers :: "(string, 'c host_descriptor obj) omap"
  hr_fires :: nat

definition hr_cmp ::
  "(string \<Rightarrow> string \<Rightarrow> int) \<Rightarrow> 'c host_descriptor obj \<Rightarrow> 'c host_descriptor obj \<Rightarrow> int" where
  "hr_cmp lc = by_order_id lc (hd_order \<circ> val) (hd_id \<circ> val)"

definition hr_all :: "(string \<Rightarrow> string \<Rightarrow> int) \<Rightarrow> 'c host_registry \<Rightarrow> 'c host_descriptor obj list" where
  "hr_all lc s = js_sort (hr_cmp lc) (om_values (hr_providers s))"

definition hr_register ::
  "'c host_descriptor obj \<Rightarrow> 'c host_registry \<Rightarrow> registry_error + 'c host_registry" where
  "hr_register d s =
     (if om_has (hr_providers s) (hd_id (val d)) then Inl (AlreadyRegistered (hd_id (val d)))
      else Inr (s\<lparr>hr_providers := om_set (hd_id (val d)) d (hr_providers s),
                  hr_fires := Suc (hr_fires s)\<rparr>))"

definition hr_dispose :: "'c host_descriptor obj \<Rightarrow> 'c host_registry \<Rightarrow> 'c host_registry" where
  "hr_dispose d s =
     (if om_get (hr_providers s) (hd_id (val d)) \<noteq> Some d then s
      else s\<lparr>hr_providers := om_del (hd_id (val d)) (hr_providers s), hr_fires := Suc (hr_fires s)\<rparr>)"

definition can_handle :: "string \<Rightarrow> 'c host_descriptor obj \<Rightarrow> bool" where
  "can_handle ws d = (case hd_can_handle (val d) of None \<Rightarrow> True | Some f \<Rightarrow> f ws)"

text \<open>\<open>Inl\<close> is the rejection: no provider can attach the workspace.\<close>

definition hr_connect :: "(string \<Rightarrow> string \<Rightarrow> int) \<Rightarrow> string \<Rightarrow> 'c host_registry \<Rightarrow> string + 'c" where
  "hr_connect lc ws s =
     (case find (can_handle ws) (hr_all lc s) of
        None \<Rightarrow> Inl (''No Agent Host provider can attach '' @ [quotation] @ ws @ [quotation])
      | Some d \<Rightarrow> Inr (hd_connect (val d) ws))"

definition hr_get :: "'c host_registry \<Rightarrow> string \<Rightarrow> 'c host_descriptor obj option" where
  "hr_get s k = om_get (hr_providers s) k"

definition hr_inv :: "'c host_registry \<Rightarrow> bool" where
  "hr_inv s \<longleftrightarrow> keyed (hd_id \<circ> val) (hr_providers s)"

interpretation hosts: ordered_registry hr_get hr_register hr_dispose "hd_id \<circ> val" hr_inv
  "\<lambda>cmp s. js_sort cmp (om_values (hr_providers s))"
proof unfold_locales
  show "hr_inv s \<Longrightarrow> hr_register d s = Inr s' \<Longrightarrow>
      hr_get s' = (hr_get s)((hd_id \<circ> val) d \<mapsto> d) \<and> hr_inv s'" for s d s'
    using keyed_set [of "hd_id \<circ> val" "hr_providers s" d]
    by (auto simp: hr_register_def hr_get_def hr_inv_def split: if_splits)
qed (auto simp: hr_register_def hr_get_def hr_dispose_def hr_inv_def om_has_def keyed_values
  distinct_js_sort keyed_distinct sorted_js_sort split: if_splits)

section \<open>\<open>ActionRegistry\<close>\<close>

datatype menu = MenuChatInput | MenuContext | MenuTitlebar | MenuViewTitle

record action_descriptor =
  ad_id :: string
  ad_menu :: menu
  ad_command :: string
  ad_order :: "int option"
  ad_group :: "string option"
  ad_icon :: "string option"
  ad_title :: string
  ad_precondition :: "context_expr option"
  ad_checked_when :: "context_expr option"

record action_registry =
  ar_entries :: "(string, action_descriptor obj) omap"
  ar_fires :: nat

definition ar_cmp ::
  "(string \<Rightarrow> string \<Rightarrow> int) \<Rightarrow> action_descriptor obj \<Rightarrow> action_descriptor obj \<Rightarrow> int" where
  "ar_cmp lc = by_order_id lc (ad_order \<circ> val) (ad_id \<circ> val)"

definition ar_actions ::
  "(string \<Rightarrow> string \<Rightarrow> int) \<Rightarrow> menu \<Rightarrow> action_registry \<Rightarrow> action_descriptor obj list" where
  "ar_actions lc m s = js_sort (ar_cmp lc) (filter (\<lambda>a. ad_menu (val a) = m) (om_values (ar_entries s)))"

definition ar_register ::
  "(string \<Rightarrow> bool) \<Rightarrow> action_descriptor obj \<Rightarrow> action_registry \<Rightarrow> registry_error + action_registry" where
  "ar_register has d s =
     (if om_has (ar_entries s) (ad_id (val d)) then Inl (AlreadyRegistered (ad_id (val d)))
      else if \<not> has (ad_command (val d)) then Inl (UnknownCommand (ad_id (val d)) (ad_command (val d)))
      else Inr (s\<lparr>ar_entries := om_set (ad_id (val d)) d (ar_entries s), ar_fires := Suc (ar_fires s)\<rparr>))"

definition ar_dispose :: "action_descriptor obj \<Rightarrow> action_registry \<Rightarrow> action_registry" where
  "ar_dispose d s =
     (if om_get (ar_entries s) (ad_id (val d)) \<noteq> Some d then s
      else s\<lparr>ar_entries := om_del (ad_id (val d)) (ar_entries s), ar_fires := Suc (ar_fires s)\<rparr>)"

definition ar_get :: "action_registry \<Rightarrow> string \<Rightarrow> action_descriptor obj option" where
  "ar_get s k = om_get (ar_entries s) k"

definition ar_inv :: "action_registry \<Rightarrow> bool" where
  "ar_inv s \<longleftrightarrow> keyed (ad_id \<circ> val) (ar_entries s)"

interpretation actions: ordered_registry ar_get "ar_register has" ar_dispose "ad_id \<circ> val" ar_inv
  "\<lambda>cmp s. js_sort cmp (om_values (ar_entries s))" for has
proof unfold_locales
  show "ar_inv s \<Longrightarrow> ar_register has d s = Inr s' \<Longrightarrow>
      ar_get s' = (ar_get s)((ad_id \<circ> val) d \<mapsto> d) \<and> ar_inv s'" for s d s'
    using keyed_set [of "ad_id \<circ> val" "ar_entries s" d]
    by (auto simp: ar_register_def ar_get_def ar_inv_def split: if_splits)
qed (auto simp: ar_register_def ar_get_def ar_dispose_def ar_inv_def om_has_def keyed_values
  distinct_js_sort keyed_distinct sorted_js_sort split: if_splits)

text \<open>
  A menu shows exactly the registered actions of that menu, each once, in the order of
  their \<open>order\<close> and then of their id; and an action is only ever registered for a command
  that exists at that moment.
\<close>

theorem actions_of_menu:
  assumes "ar_inv s" and "consistent_cmp lc" and "ar_register has d s = Inr s'"
  shows "has (ad_command (val d)) \<and> distinct (ar_actions lc m s')
    \<and> (\<forall>a. a \<in> set (ar_actions lc m s') \<longleftrightarrow>
          ad_menu (val a) = m \<and> (a = d \<or> ar_get s (ad_id (val a)) = Some a))
    \<and> sorted_wrt (\<lambda>a b. ar_cmp lc a b \<le> 0) (ar_actions lc m s')"
proof -
  have i: "ar_inv s'" and l: "ar_get s' = (ar_get s)(ad_id (val d) \<mapsto> d)"
    using actions.enter_ok [OF assms(1,3)] by auto
  have n: "ar_get s (ad_id (val d)) = None" using actions.enter_fresh [OF assms(1,3)] by simp
  have k: "keyed (ad_id \<circ> val) (ar_entries s')" using i by (simp add: ar_inv_def)
  have "a \<in> set (ar_actions lc m s') \<longleftrightarrow> ad_menu (val a) = m \<and> ar_get s' (ad_id (val a)) = Some a" for a
    using keyed_values [OF k] by (auto simp: ar_actions_def ar_get_def)
  moreover have "ar_get s' (ad_id (val a)) = Some a \<longleftrightarrow> a = d \<or> ar_get s (ad_id (val a)) = Some a" for a
    using l n by auto
  moreover have "has (ad_command (val d))" using assms(3) by (auto simp: ar_register_def split: if_splits)
  ultimately show ?thesis
    using keyed_distinct [OF k] sorted_js_sort [OF consistent_by_order_id [OF assms(2)]]
    by (auto simp: ar_actions_def ar_cmp_def distinct_js_sort)
qed

abbreviation sample_action :: "nat \<Rightarrow> string \<Rightarrow> action_descriptor obj" where
  "sample_action a n \<equiv> Obj a \<lparr>ad_id = n, ad_menu = MenuTitlebar, ad_command = ''c'', ad_order = None,
     ad_group = None, ad_icon = None, ad_title = n, ad_precondition = None, ad_checked_when = None\<rparr>"

theorem actions_of_menu_witness:
  "ar_actions code_unit_compare MenuTitlebar
     \<lparr>ar_entries = [(''b'', sample_action 0 ''b''), (''a'', sample_action 1 ''a'')], ar_fires = 2\<rparr>
    = [sample_action 1 ''a'', sample_action 0 ''b'']
   \<and> distinct (ar_actions code_unit_compare MenuTitlebar
     \<lparr>ar_entries = [(''b'', sample_action 0 ''b''), (''a'', sample_action 1 ''a'')], ar_fires = 2\<rparr>)"
proof -
  let ?s = "\<lparr>ar_entries = [(''b'', sample_action 0 ''b'')], ar_fires = 1\<rparr>"
  have "ar_inv ?s" by (auto simp: ar_inv_def keyed_def om_wf_def)
  moreover have "ar_register (\<lambda>c. c = ''c'') (sample_action 1 ''a'') ?s
      = Inr \<lparr>ar_entries = [(''b'', sample_action 0 ''b''), (''a'', sample_action 1 ''a'')], ar_fires = 2\<rparr>"
    by (simp add: ar_register_def om_has_def)
  ultimately show ?thesis
    using actions_of_menu [OF _ consistent_code_unit_compare, of ?s "\<lambda>c. c = ''c''" "sample_action 1 ''a''" _ MenuTitlebar]
    by (simp add: ar_actions_def js_sort_def om_values_def ar_cmp_def by_order_id_def cmp_then_def order_of_def)
qed

section \<open>\<open>KeybindingRegistry\<close> and the dispatch of a key\<close>

record keybinding =
  kb_key :: string
  kb_command :: string
  kb_precondition :: "context_expr option"

record keybinding_registry =
  kr_entries :: "(string, keybinding obj) omap"
  kr_fires :: nat

definition kb_id :: "keybinding obj \<Rightarrow> string" where
  "kb_id d = kb_key (val d) @ '':'' @ kb_command (val d)"

definition kr_all :: "keybinding_registry \<Rightarrow> keybinding obj list" where
  "kr_all s = om_values (kr_entries s)"

definition kr_register ::
  "(string \<Rightarrow> bool) \<Rightarrow> keybinding obj \<Rightarrow> keybinding_registry \<Rightarrow> registry_error + keybinding_registry" where
  "kr_register has d s =
     (if om_has (kr_entries s) (kb_id d) then Inl (AlreadyRegistered (kb_id d))
      else if \<not> has (kb_command (val d)) then Inl (UnknownCommand (kb_id d) (kb_command (val d)))
      else Inr (s\<lparr>kr_entries := om_set (kb_id d) d (kr_entries s), kr_fires := Suc (kr_fires s)\<rparr>))"

definition kr_dispose :: "keybinding obj \<Rightarrow> keybinding_registry \<Rightarrow> keybinding_registry" where
  "kr_dispose d s =
     (if om_get (kr_entries s) (kb_id d) \<noteq> Some d then s
      else s\<lparr>kr_entries := om_del (kb_id d) (kr_entries s), kr_fires := Suc (kr_fires s)\<rparr>)"

definition kr_get :: "keybinding_registry \<Rightarrow> string \<Rightarrow> keybinding obj option" where
  "kr_get s k = om_get (kr_entries s) k"

definition kr_inv :: "keybinding_registry \<Rightarrow> bool" where
  "kr_inv s \<longleftrightarrow> keyed kb_id (kr_entries s)"

interpretation keybindings: registry kr_get "kr_register has" kr_dispose kb_id kr_inv for has
proof unfold_locales
  show "kr_inv s \<Longrightarrow> kr_register has d s = Inr s' \<Longrightarrow>
      kr_get s' = (kr_get s)(kb_id d \<mapsto> d) \<and> kr_inv s'" for s d s'
    by (auto simp: kr_register_def kr_get_def kr_inv_def split: if_splits)
qed (auto simp: kr_register_def kr_get_def kr_dispose_def kr_inv_def om_has_def split: if_splits)

record key_event =
  ke_ctrl :: bool
  ke_meta :: bool
  ke_alt :: bool
  ke_shift :: bool
  ke_key :: string

definition key_for :: "key_event \<Rightarrow> string" where
  "key_for e = join_str ''+'' (filter (\<lambda>p. p \<noteq> [])
     [if ke_ctrl e then ''Ctrl'' else [], if ke_meta e then ''Meta'' else [],
      if ke_alt e then ''Alt'' else [], if ke_shift e then ''Shift'' else [],
      if length (ke_key e) = 1 then to_upper (ke_key e) else ke_key e])"

text \<open>The binding a \<open>keydown\<close> runs, if any: the command passed to \<open>executeCommand\<close>.\<close>

definition keydown :: "ctx_world \<Rightarrow> nat \<Rightarrow> keybinding_registry \<Rightarrow> key_event \<Rightarrow> string option" where
  "keydown w i s e =
     map_option (kb_command \<circ> val)
       (find (\<lambda>b. kb_key (val b) = key_for e \<and>
               (case kb_precondition (val b) of None \<Rightarrow> True | Some p \<Rightarrow> evaluate w i p)) (kr_all s))"

lemma keydown_sound:
  assumes "kr_inv s" and "keydown w i s e = Some c"
  shows "\<exists>b. kr_get s (kb_id b) = Some b \<and> kb_command (val b) = c \<and> kb_key (val b) = key_for e \<and>
     (\<forall>p. kb_precondition (val b) = Some p \<longrightarrow> evaluate w i p)"
proof -
  obtain b where "find (\<lambda>b. kb_key (val b) = key_for e \<and>
      (case kb_precondition (val b) of None \<Rightarrow> True | Some p \<Rightarrow> evaluate w i p)) (kr_all s) = Some b"
    and c: "kb_command (val b) = c"
    using assms(2) by (auto simp: keydown_def)
  from find_SomeD [OF this(1)] have "b \<in> set (kr_all s)" "kb_key (val b) = key_for e"
    "\<forall>p. kb_precondition (val b) = Some p \<longrightarrow> evaluate w i p"
    by (auto split: option.splits)
  then show ?thesis using c assms(1) keyed_values [of kb_id "kr_entries s" b]
    by (auto simp: kr_all_def kr_inv_def kr_get_def)
qed

end
