(* ===== verification/Commands.thy ===== *)
theory Commands
  imports Registries
begin

text \<open>
  \<open>packages/workbench/src/platform/commands/commands.ts\<close> and \<open>command-service.ts\<close>:
  the command registry and \<open>executeCommand\<close>.

  A handler acts on a world \<open>'w\<close> and either throws or returns; the services accessor gives
  the context key service, or throws before it is configured.
\<close>

record 'a command_descriptor =
  cm_id :: string
  cm_category :: "string option"
  cm_precondition :: "context_expr option"
  cm_validate :: "('a list \<Rightarrow> bool) option"

type_synonym ('a, 'w) handler = "'a list \<Rightarrow> 'w \<Rightarrow> 'w \<times> string option"

record ('a, 'w) registered_command =
  rc_descriptor :: "'a command_descriptor"
  rc_handler :: "('a, 'w) handler"

datatype command_event = CommandRegistered string | CommandUnregistered string

record ('a, 'w) command_registry =
  cmds :: "(string, ('a, 'w) registered_command) omap"
  cmd_events :: "command_event list"
  cmd_accessor :: "('w \<Rightarrow> ctx_world \<times> nat) option"

datatype command_error =
    NotRegistered string
  | ValidationFailed string
  | PreconditionFailed string
  | AccessorNotConfigured
  | HandlerThrew string

definition new_command_registry :: "('a, 'w) command_registry" where
  "new_command_registry = \<lparr>cmds = [], cmd_events = [], cmd_accessor = None\<rparr>"

definition register_command ::
  "string \<Rightarrow> ('a, 'w) handler \<Rightarrow> 'a command_descriptor \<Rightarrow> ('a, 'w) command_registry \<Rightarrow>
   registry_error + ('a, 'w) command_registry" where
  "register_command k hdl d s =
     (if om_has (cmds s) k then Inl (AlreadyRegistered k)
      else Inr (s\<lparr>cmds := om_set k \<lparr>rc_descriptor = d\<lparr>cm_id := k\<rparr>, rc_handler = hdl\<rparr> (cmds s),
                  cmd_events := cmd_events s @ [CommandRegistered k]\<rparr>))"

text \<open>The disposer that \<open>registerCommand\<close> returns for the id.\<close>

definition dispose_command :: "string \<Rightarrow> ('a, 'w) command_registry \<Rightarrow> ('a, 'w) command_registry" where
  "dispose_command k s =
     (if map_option (cm_id \<circ> rc_descriptor) (om_get (cmds s) k) = Some k
      then s\<lparr>cmds := om_del k (cmds s), cmd_events := cmd_events s @ [CommandUnregistered k]\<rparr>
      else s)"

definition has_command :: "('a, 'w) command_registry \<Rightarrow> string \<Rightarrow> bool" where
  "has_command s k = om_has (cmds s) k"

definition get_command :: "('a, 'w) command_registry \<Rightarrow> string \<Rightarrow> 'a command_descriptor option" where
  "get_command s k = map_option rc_descriptor (om_get (cmds s) k)"

definition set_services_accessor ::
  "('w \<Rightarrow> ctx_world \<times> nat) \<Rightarrow> ('a, 'w) command_registry \<Rightarrow> ('a, 'w) command_registry" where
  "set_services_accessor acc s = s\<lparr>cmd_accessor := Some acc\<rparr>"

definition execute_command ::
  "string \<Rightarrow> 'a list \<Rightarrow> ('a, 'w) command_registry \<Rightarrow> 'w \<Rightarrow> 'w \<times> command_error option" where
  "execute_command k args s w =
     (case om_get (cmds s) k of
        None \<Rightarrow> (w, Some (NotRegistered k))
      | Some rc \<Rightarrow>
          let d = rc_descriptor rc;
              run = (case rc_handler rc args w of
                       (w', None) \<Rightarrow> (w', None)
                     | (w', Some e) \<Rightarrow> (w', Some (HandlerThrew e)))
          in
          if (case cm_validate d of None \<Rightarrow> False | Some v \<Rightarrow> \<not> v args)
          then (w, Some (ValidationFailed k))
          else (case cm_precondition d of
                  None \<Rightarrow> run
                | Some p \<Rightarrow>
                    (case cmd_accessor s of
                       None \<Rightarrow> (w, Some AccessorNotConfigured)
                     | Some acc \<Rightarrow>
                         (case acc w of (cw, i) \<Rightarrow>
                            if \<not> evaluate cw i p then (w, Some (PreconditionFailed k)) else run))))"

definition cmd_inv :: "('a, 'w) command_registry \<Rightarrow> bool" where
  "cmd_inv s \<longleftrightarrow> keyed (cm_id \<circ> rc_descriptor) (cmds s)"

lemma cmd_inv_ops:
  "cmd_inv new_command_registry"
  "cmd_inv s \<Longrightarrow> register_command k hdl d s = Inr s' \<Longrightarrow> cmd_inv s'"
  "cmd_inv s \<Longrightarrow> cmd_inv (dispose_command k s)"
  "cmd_inv s \<Longrightarrow> cmd_inv (set_services_accessor acc s)"
  by (auto simp: cmd_inv_def new_command_registry_def register_command_def dispose_command_def
      set_services_accessor_def keyed_def split: if_splits)

text \<open>
  C27: a command changes the world only by running its handler once, on the arguments given,
  and only when it is registered, its validator (if any) accepts the arguments and its
  precondition (if any) holds in the context key service; otherwise the world is untouched and
  the call rejects.
\<close>

theorem execute_command_guards:
  "if (\<exists>rc. om_get (cmds s) k = Some rc
        \<and> (case cm_validate (rc_descriptor rc) of None \<Rightarrow> True | Some v \<Rightarrow> v args)
        \<and> (case cm_precondition (rc_descriptor rc) of None \<Rightarrow> True
           | Some p \<Rightarrow> (case cmd_accessor s of None \<Rightarrow> False
               | Some acc \<Rightarrow> evaluate (fst (acc w)) (snd (acc w)) p)))
   then execute_command k args s w =
     apsnd (map_option HandlerThrew) (rc_handler (the (om_get (cmds s) k)) args w)
   else (\<exists>e. execute_command k args s w = (w, Some e) \<and> (\<nexists>m. e = HandlerThrew m))"
proof (cases "om_get (cmds s) k")
  case None
  then show ?thesis by (simp add: execute_command_def)
next
  case (Some rc)
  have run: "(case rc_handler rc args w of (w', None) \<Rightarrow> (w', None) | (w', Some e) \<Rightarrow> (w', Some (HandlerThrew e)))
      = apsnd (map_option HandlerThrew) (rc_handler rc args w)"
    by (cases "rc_handler rc args w"; cases "snd (rc_handler rc args w)") auto
  show ?thesis
    unfolding execute_command_def
    by (cases "cm_validate (rc_descriptor rc)"; cases "cm_precondition (rc_descriptor rc)";
        cases "cmd_accessor s") (auto simp: Some Let_def run split: prod.split)
qed

text \<open>
  The disposer of a command compares ids, not registrations: called a second time, after
  the id was registered again with another handler, it takes the new command away.
\<close>

theorem stale_command_dispose_unregisters:
  assumes "register_command k h1 d1 s = Inr s1"
    and "register_command k h2 d2 (dispose_command k s1) = Inr s2"
  shows "rc_handler (the (om_get (cmds s2) k)) = h2 \<and> \<not> has_command (dispose_command k s2) k
    \<and> execute_command k args (dispose_command k s2) w = (w, Some (NotRegistered k))"
  using assms
  by (auto simp: register_command_def dispose_command_def has_command_def om_has_def
      execute_command_def split: if_splits)

theorem stale_command_dispose_unregisters_witness:
  "let d = \<lparr>cm_id = [], cm_category = None, cm_precondition = None, cm_validate = None\<rparr>;
       s2 = \<lparr>cmds = [(''go'', \<lparr>rc_descriptor = d\<lparr>cm_id := ''go''\<rparr>, rc_handler = (\<lambda>a n. (n + 2 :: nat, None))\<rparr>)],
             cmd_events = [CommandRegistered ''go'', CommandUnregistered ''go'', CommandRegistered ''go''],
             cmd_accessor = None\<rparr>
   in \<not> has_command (dispose_command ''go'' s2) ''go'' \<and> has_command s2 ''go''
     \<and> execute_command ''go'' [] (s2 :: (nat, nat) command_registry) 5 = (7, None)
     \<and> execute_command ''go'' [] (dispose_command ''go'' s2) 5 = (5, Some (NotRegistered ''go''))"
  using stale_command_dispose_unregisters
    [where k = "''go''" and s = "new_command_registry :: (nat, nat) command_registry" and
       ?h1.0 = "\<lambda>a n. (n + 1, None)" and ?h2.0 = "\<lambda>a n. (n + 2, None)" and args = "[]" and w = 5 and
       ?d1.0 = "\<lparr>cm_id = [], cm_category = None, cm_precondition = None, cm_validate = None\<rparr>" and
       ?d2.0 = "\<lparr>cm_id = [], cm_category = None, cm_precondition = None, cm_validate = None\<rparr>"]
  by (simp add: Let_def new_command_registry_def register_command_def dispose_command_def om_has_def
      execute_command_def has_command_def)

end
