(* ===== verification/Identity.thy ===== *)
theory Identity
  imports Strings Interfaces
begin

text \<open>
  \<open>packages/workbench/src/services/active-session.ts\<close>: the identity of a session, its key,
  and the service that holds the active session.

  \<open>encodeURIComponent\<close> and \<open>decodeURIComponent\<close> work on the UTF-8 bytes of a string:
  every byte outside the unreserved set becomes \<open>%XX\<close>; decoding rejects a malformed escape
  and escaped bytes that are not well-formed UTF-8.
\<close>

section \<open>Percent encoding\<close>

definition unreserved :: "char \<Rightarrow> bool" where
  "unreserved c \<longleftrightarrow> is_digit c \<or> is_lower c \<or> is_upper c \<or> c \<in> set ''-_.!~*'' \<union> {CHR 0x27, CHR ''('', CHR '')''}"

definition uri_hex :: "nat \<Rightarrow> char" where
  "uri_hex n = ''0123456789ABCDEF'' ! n"

definition uri_hex_val :: "char \<Rightarrow> nat option" where
  "uri_hex_val c = find_index (\<lambda>d. d = c) ''0123456789ABCDEF''"

definition uri_hex_value :: "char \<Rightarrow> nat option" where
  "uri_hex_value c = (case uri_hex_val c of Some n \<Rightarrow> Some n
     | None \<Rightarrow> map_option (\<lambda>n. n + 10) (find_index (\<lambda>d. d = c) ''abcdef''))"

abbreviation byte :: "char \<Rightarrow> nat" where
  "byte c \<equiv> of_char c"

definition encode_char :: "char \<Rightarrow> string" where
  "encode_char c = (if unreserved c then [c]
     else [CHR 0x25, uri_hex (byte c div 16), uri_hex (byte c mod 16)])"

definition encode_uri_component :: "string \<Rightarrow> string" where
  "encode_uri_component s = concat (map encode_char s)"

text \<open>The units of an encoded string: an escaped byte (\<open>True\<close>) or a plain one.\<close>

fun uri_units :: "string \<Rightarrow> (bool \<times> char) list option" where
  "uri_units [] = Some []"
| "uri_units (c # s) =
     (if c = CHR 0x25 then
        (case s of
           h # l # s' \<Rightarrow>
             (case (uri_hex_value h, uri_hex_value l) of
                (Some m, Some n) \<Rightarrow> map_option (Cons (True, char_of (16 * m + n))) (uri_units s')
              | _ \<Rightarrow> None)
         | _ \<Rightarrow> None)
      else map_option (Cons (False, c)) (uri_units s))"

text \<open>The well-formed multi-byte sequences of UTF-8.\<close>

definition between :: "nat \<Rightarrow> char \<Rightarrow> nat \<Rightarrow> bool" where
  "between lo c hi \<longleftrightarrow> lo \<le> byte c \<and> byte c \<le> hi"

definition seq2 :: "char \<Rightarrow> char \<Rightarrow> bool" where
  "seq2 a b \<longleftrightarrow> between 0xC2 a 0xDF \<and> between 0x80 b 0xBF"

definition seq3 :: "char \<Rightarrow> char \<Rightarrow> char \<Rightarrow> bool" where
  "seq3 a b c \<longleftrightarrow> between 0xE0 a 0xEF \<and> between 0x80 c 0xBF \<and>
     (if byte a = 0xE0 then between 0xA0 b 0xBF
      else if byte a = 0xED then between 0x80 b 0x9F else between 0x80 b 0xBF)"

definition seq4 :: "char \<Rightarrow> char \<Rightarrow> char \<Rightarrow> char \<Rightarrow> bool" where
  "seq4 a b c d \<longleftrightarrow> between 0xF0 a 0xF4 \<and> between 0x80 c 0xBF \<and> between 0x80 d 0xBF \<and>
     (if byte a = 0xF0 then between 0x90 b 0xBF
      else if byte a = 0xF4 then between 0x80 b 0x8F else between 0x80 b 0xBF)"

fun utf8_ok :: "string \<Rightarrow> bool" where
  "utf8_ok [] = True"
| "utf8_ok (a # s) =
     (if byte a < 0x80 then utf8_ok s
      else (case s of [] \<Rightarrow> False | b # s1 \<Rightarrow>
        if seq2 a b then utf8_ok s1
        else (case s1 of [] \<Rightarrow> False | c # s2 \<Rightarrow>
          if seq3 a b c then utf8_ok s2
          else (case s2 of [] \<Rightarrow> False | d # s3 \<Rightarrow> seq4 a b c d \<and> utf8_ok s3))))"

fun decode_units :: "(bool \<times> char) list \<Rightarrow> string option" where
  "decode_units [] = Some []"
| "decode_units ((esc, a) # s) =
     (if \<not> esc \<or> byte a < 0x80 then map_option (Cons a) (decode_units s)
      else (case s of [] \<Rightarrow> None | (e1, b) # s1 \<Rightarrow>
        if e1 \<and> seq2 a b then map_option (\<lambda>r. a # b # r) (decode_units s1)
        else (case s1 of [] \<Rightarrow> None | (e2, c) # s2 \<Rightarrow>
          if e1 \<and> e2 \<and> seq3 a b c then map_option (\<lambda>r. a # b # c # r) (decode_units s2)
          else (case s2 of [] \<Rightarrow> None | (e3, d) # s3 \<Rightarrow>
            if e1 \<and> e2 \<and> e3 \<and> seq4 a b c d then map_option (\<lambda>r. a # b # c # d # r) (decode_units s3)
            else None))))"

text \<open>\<open>None\<close>: a \<open>URIError\<close>.\<close>

definition decode_uri_component :: "string \<Rightarrow> string option" where
  "decode_uri_component s = (case uri_units s of None \<Rightarrow> None | Some us \<Rightarrow> decode_units us)"

lemma hex_round: "n < 16 \<Longrightarrow> uri_hex_value (uri_hex n) = Some n"
proof -
  have "\<forall>n \<in> set [0..<16]. uri_hex_value (uri_hex n) = Some n"
    by (simp add: upt_rec uri_hex_value_def uri_hex_val_def uri_hex_def)
  then show "n < 16 \<Longrightarrow> ?thesis" by simp
qed

lemma byte_less: "byte c < (256 :: nat)"
proof -
  have "byte c \<in> {0..<256}" unfolding range_nat_of_char [symmetric] by (rule rangeI)
  then show ?thesis by simp
qed

lemma byte_div: "byte c div 16 < (16 :: nat)"
  using byte_less [of c] by (intro less_mult_imp_div_less) simp

lemma uri_units_encode:
  "uri_units (encode_uri_component s @ rest) =
     map_option ((@) (map (\<lambda>c. (\<not> unreserved c, c)) s)) (uri_units rest)"
proof (induction s)
  case Nil
  show ?case by (simp add: encode_uri_component_def option.map_ident)
next
  case (Cons c s)
  have e: "encode_uri_component (c # s) = encode_char c @ encode_uri_component s"
    by (simp add: encode_uri_component_def)
  have "16 * (byte c div 16) + byte c mod 16 = byte c" by simp
  then have b: "char_of (16 * (byte c div 16) + byte c mod (16 :: nat)) = c" by (simp only: char_of_char)
  have h: "uri_hex_value (uri_hex (byte c div 16)) = Some (byte c div 16)"
    "uri_hex_value (uri_hex (byte c mod 16)) = Some (byte c mod 16)"
    by (auto intro!: hex_round byte_div)
  show ?case
  proof (cases "unreserved c")
    case True
    then have "c \<noteq> CHR 0x25" by (auto simp: unreserved_def is_digit_def is_lower_def is_upper_def)
    with True show ?thesis
      by (simp add: e encode_char_def Cons option.map_comp o_def)
  next
    case False
    then show ?thesis
      by (simp add: e encode_char_def Cons option.map_comp o_def h b)
  qed
qed

lemma encode_inj: "encode_uri_component s = encode_uri_component t \<Longrightarrow> s = t"
proof -
  assume "encode_uri_component s = encode_uri_component t"
  then have "map (\<lambda>c. (\<not> unreserved c, c)) s = map (\<lambda>c. (\<not> unreserved c, c)) t"
    using uri_units_encode [of s "[]"] uri_units_encode [of t "[]"] by simp
  moreover have "inj (\<lambda>c. (\<not> unreserved c, c))" by (rule injI) simp
  ultimately show "s = t" by (simp only: inj_map_eq_map)
qed

lemma high_escaped: "\<not> byte a < 0x80 \<Longrightarrow> \<not> unreserved a"
  by (auto simp: unreserved_def is_digit_def is_lower_def is_upper_def)

lemma seq_high:
  "seq2 a b \<Longrightarrow> \<not> byte b < 0x80"
  "seq3 a b c \<Longrightarrow> \<not> byte b < 0x80 \<and> \<not> byte c < 0x80"
  "seq4 a b c d \<Longrightarrow> \<not> byte b < 0x80 \<and> \<not> byte c < 0x80 \<and> \<not> byte d < 0x80"
  by (auto simp: seq2_def seq3_def seq4_def between_def split: if_splits)

lemma decode_units_utf8: "utf8_ok s \<Longrightarrow> decode_units (map (\<lambda>c. (\<not> unreserved c, c)) s) = Some s"
proof (induction s rule: utf8_ok.induct)
  case (2 a s)
  show ?case
  proof (cases "byte a < 0x80")
    case True
    then show ?thesis using 2 by simp
  next
    case False
    then obtain b s1 where s: "s = b # s1" using 2(5) by (cases s) auto
    note a = high_escaped [OF False]
    show ?thesis
    proof (cases "seq2 a b")
      case True
      then show ?thesis using 2(2) [OF False s True] 2(5) False a s seq_high(1) [OF True]
        by (simp add: high_escaped)
    next
      case n2: False
      then obtain c s2 where s1: "s1 = c # s2" using 2(5) False s by (cases s1) auto
      show ?thesis
      proof (cases "seq3 a b c")
        case True
        then show ?thesis using 2(3) [OF False s n2 s1 True] 2(5) False a s s1 n2 seq_high(2) [OF True]
          by (simp add: high_escaped)
      next
        case n3: False
        then obtain d s3 where s2: "s2 = d # s3" "seq4 a b c d" "utf8_ok s3"
          using 2(5) False s s1 n2 by (cases s2) auto
        then show ?thesis using 2(4) [OF False s n2 s1 n3 s2(1)] False a s s1 n2 n3 seq_high(3) [OF s2(2)]
          by (simp add: high_escaped)
      qed
    qed
  qed
qed simp

lemma decode_encode: "utf8_ok s \<Longrightarrow> decode_uri_component (encode_uri_component s) = Some s"
  using uri_units_encode [of s "[]"] by (simp add: decode_uri_component_def decode_units_utf8)

section \<open>Session identities\<close>

record session_identity =
  si_workspace :: string
  si_resource :: string

definition session_identity_key :: "session_identity \<Rightarrow> string" where
  "session_identity_key i =
     encode_uri_component (si_workspace i) @ ''|'' @ encode_uri_component (si_resource i)"

definition parse_session_identity_key :: "string \<Rightarrow> session_identity option" where
  "parse_session_identity_key v =
     (case find_index (\<lambda>c. c = CHR ''|'') v of
        None \<Rightarrow> None
      | Some sep \<Rightarrow>
          if sep < 1 \<or> sep = length v - 1 then None
          else (case (decode_uri_component (take sep v), decode_uri_component (drop (Suc sep) v)) of
                  (Some ws, Some r) \<Rightarrow> Some \<lparr>si_workspace = ws, si_resource = r\<rparr>
                | _ \<Rightarrow> None))"

lemma bar_not_encoded: "CHR ''|'' \<notin> set (encode_uri_component s)"
proof -
  have h: "CHR ''|'' \<noteq> uri_hex n" if "n < 16" for n
  proof -
    have "\<forall>n \<in> set [0..<16]. CHR ''|'' \<noteq> uri_hex n" by (simp add: upt_rec uri_hex_def)
    then show ?thesis using that by simp
  qed
  have u: "\<not> unreserved (CHR ''|'')"
    by (simp add: unreserved_def is_digit_def is_lower_def is_upper_def)
  have "CHR ''|'' \<notin> set (encode_char c)" for c
  proof (cases "unreserved c")
    case True
    then show ?thesis using u by (auto simp: encode_char_def)
  next
    case False
    then show ?thesis using h [OF byte_div [of c]] h [of "byte c mod 16"] by (simp add: encode_char_def)
  qed
  then show ?thesis by (simp add: encode_uri_component_def)
qed

lemma find_index_append_notin:
  "x \<notin> set xs \<Longrightarrow> find_index (\<lambda>c. c = x) (xs @ x # ys) = Some (length xs)"
  by (induction xs) auto

lemma encode_nonempty [simp]: "encode_uri_component s = [] \<longleftrightarrow> s = []"
  by (cases s) (simp_all add: encode_uri_component_def encode_char_def)

text \<open>
  C34: a session key parses back to the identity it was made from, for all identities whose two
  parts are not empty.
\<close>

theorem parse_session_identity_key_round_trip:
  assumes "si_workspace i \<noteq> []" and "si_resource i \<noteq> []" and "utf8_ok (si_workspace i)" and "utf8_ok (si_resource i)"
  shows "parse_session_identity_key (session_identity_key i) = Some i"
proof -
  let ?a = "encode_uri_component (si_workspace i)" and ?b = "encode_uri_component (si_resource i)"
  have "find_index (\<lambda>c. c = CHR ''|'') (session_identity_key i) = Some (length ?a)"
    using find_index_append_notin [OF bar_not_encoded, of "si_workspace i" ?b]
    by (simp add: session_identity_key_def)
  moreover have "\<not> length ?a < 1" "length ?a \<noteq> length (session_identity_key i) - 1"
    using assms(1,2) by (auto simp: session_identity_key_def Suc_le_eq)
  ultimately show ?thesis
    using assms(3,4) by (simp add: parse_session_identity_key_def session_identity_key_def decode_encode)
qed

theorem parse_session_identity_key_round_trip_witness:
  "parse_session_identity_key (session_identity_key \<lparr>si_workspace = ''a|b'', si_resource = ''ahp:/x y''\<rparr>)
    = Some \<lparr>si_workspace = ''a|b'', si_resource = ''ahp:/x y''\<rparr>"
  by (rule parse_session_identity_key_round_trip) simp_all

lemma key_eq [simp]: "session_identity_key i = session_identity_key j \<longleftrightarrow> i = j"
proof
  assume "session_identity_key i = session_identity_key j"
  then have e: "encode_uri_component (si_workspace i) @ CHR ''|'' # encode_uri_component (si_resource i)
      = encode_uri_component (si_workspace j) @ CHR ''|'' # encode_uri_component (si_resource j)"
    by (simp add: session_identity_key_def)
  then have "find_index (\<lambda>c. c = CHR ''|'') (encode_uri_component (si_workspace i) @ CHR ''|'' # encode_uri_component (si_resource i))
      = Some (length (encode_uri_component (si_workspace j)))"
    by (simp add: find_index_append_notin bar_not_encoded)
  then have "length (encode_uri_component (si_workspace i)) = length (encode_uri_component (si_workspace j))"
    by (simp add: find_index_append_notin bar_not_encoded)
  with e have "encode_uri_component (si_workspace i) = encode_uri_component (si_workspace j)"
    "encode_uri_component (si_resource i) = encode_uri_component (si_resource j)" by auto
  then show "i = j" using encode_inj by (auto intro: session_identity.equality)
qed simp

text \<open>
  Session keys identify sessions: two identities have the same key only if they are equal,
  whatever separators, percent signs or non-ASCII bytes their parts contain.
\<close>

theorem session_identity_key_injective: "session_identity_key i = session_identity_key j \<longleftrightarrow> i = j"
  by (rule key_eq)

end
