(* ===== verification/Navigation.thy ===== *)
theory Navigation
  imports Identity
begin

text \<open>
  \<open>ActiveSessionService\<close> of \<open>packages/workbench/src/services/active-session.ts\<close> and
  \<open>WorkbenchNavigationService\<close> of \<open>services/navigation.ts\<close>, wired as the workbench
  wires them: a change of the active session is recorded in the history.

  \<open>go\<close> is split at its \<open>await\<close>: \<open>nav_go\<close> runs up to the call of
  \<open>zaw.session.open\<close> and returns what the continuation needs; \<open>nav_settle\<close> and
  \<open>nav_reject\<close> are the continuation.  Context keys are the flags they hold.
\<close>

section \<open>\<open>ActiveSessionService\<close>\<close>

record active_session =
  as_selected :: "session_identity option"
  as_context :: "bool option"
  as_fired :: "session_identity option list"

definition new_active :: "bool \<Rightarrow> active_session" where
  "new_active has_context = \<lparr>as_selected = None,
     as_context = (if has_context then Some False else None), as_fired = []\<rparr>"

definition is_active :: "session_identity \<Rightarrow> active_session \<Rightarrow> bool" where
  "is_active i s \<longleftrightarrow> (case as_selected s of None \<Rightarrow> False
     | Some c \<Rightarrow> si_workspace c = si_workspace i \<and> si_resource c = si_resource i)"

text \<open>The event an operation fires is returned with the state.\<close>

definition active_clear :: "active_session \<Rightarrow> active_session \<times> session_identity option option" where
  "active_clear s =
     (if as_selected s = None then (s, None)
      else (s\<lparr>as_selected := None, as_context := map_option (\<lambda>_. False) (as_context s),
              as_fired := as_fired s @ [None]\<rparr>, Some None))"

definition active_select ::
  "session_identity \<Rightarrow> active_session \<Rightarrow> active_session \<times> session_identity option option" where
  "active_select i s =
     (if is_active i s then (s, None)
      else (s\<lparr>as_selected := Some i, as_context := map_option (\<lambda>_. True) (as_context s),
              as_fired := as_fired s @ [Some i]\<rparr>, Some (Some i)))"

lemma is_active_iff [simp]: "is_active i s \<longleftrightarrow> as_selected s = Some i"
  by (auto simp: is_active_def split: option.split intro: session_identity.equality)

section \<open>\<open>WorkbenchNavigationService\<close>\<close>

record navigation =
  nv_entries :: "session_identity option list"
  nv_index :: nat
  nv_expected :: "string option option"
  nv_can_back :: bool
  nv_can_forward :: bool

record nav_world =
  nw_active :: active_session
  nw_nav :: navigation
  nw_opened :: "session_identity list"

definition nav_key :: "session_identity option \<Rightarrow> string option" where
  "nav_key i = map_option session_identity_key i"

definition can_go_back :: "navigation \<Rightarrow> bool" where
  "can_go_back n \<longleftrightarrow> 0 < nv_index n"

definition can_go_forward :: "navigation \<Rightarrow> bool" where
  "can_go_forward n \<longleftrightarrow> Suc (nv_index n) < length (nv_entries n)"

definition sync_nav :: "navigation \<Rightarrow> navigation" where
  "sync_nav n = n\<lparr>nv_can_back := can_go_back n, nv_can_forward := can_go_forward n\<rparr>"

definition new_navigation :: "active_session \<Rightarrow> navigation" where
  "new_navigation a = sync_nav \<lparr>nv_entries = [as_selected a], nv_index = 0, nv_expected = None,
     nv_can_back = False, nv_can_forward = False\<rparr>"

definition nav_record :: "session_identity option \<Rightarrow> navigation \<Rightarrow> navigation" where
  "nav_record i n =
     (let key = nav_key i in
      if nv_expected n = Some key then sync_nav (n\<lparr>nv_expected := None\<rparr>)
      else if (case at_index (nv_entries n) (nv_index n) of None \<Rightarrow> None | Some e \<Rightarrow> nav_key e) = key then n
      else let es = take (Suc (nv_index n)) (nv_entries n) @ [i];
               es' = (if length es > 50 then tl es else es)
           in sync_nav (n\<lparr>nv_entries := es', nv_index := length es' - 1, nv_expected := None\<rparr>))"

text \<open>The navigation service listens to the active session.\<close>

definition hear :: "active_session \<times> session_identity option option \<Rightarrow> nav_world \<Rightarrow> nav_world" where
  "hear r w =
     (case r of (a, ev) \<Rightarrow>
        w\<lparr>nw_active := a, nw_nav := (case ev of None \<Rightarrow> nw_nav w | Some i \<Rightarrow> nav_record i (nw_nav w))\<rparr>)"

definition nw_select :: "session_identity \<Rightarrow> nav_world \<Rightarrow> nav_world" where
  "nw_select i w = hear (active_select i (nw_active w)) w"

definition nw_clear :: "nav_world \<Rightarrow> nav_world" where
  "nw_clear w = hear (active_clear (nw_active w)) w"

datatype direction = Back | Forward

text \<open>The next index, or nothing outside the history.\<close>

definition next_index :: "direction \<Rightarrow> navigation \<Rightarrow> nat option" where
  "next_index off n =
     (case off of
        Back \<Rightarrow> (if nv_index n = 0 \<or> length (nv_entries n) \<le> nv_index n - 1 then None else Some (nv_index n - 1))
      | Forward \<Rightarrow> (if length (nv_entries n) \<le> Suc (nv_index n) then None else Some (Suc (nv_index n))))"

definition nav_settle :: "nav_world \<Rightarrow> nav_world" where
  "nav_settle w =
     (if nv_expected (nw_nav w) \<noteq> None then w\<lparr>nw_nav := (nw_nav w)\<lparr>nv_expected := None\<rparr>\<rparr> else w)"

definition nav_reject :: "nat \<Rightarrow> nav_world \<Rightarrow> nav_world" where
  "nav_reject prev w =
     w\<lparr>nw_nav := sync_nav ((nw_nav w)\<lparr>nv_index := prev, nv_expected := None\<rparr>)\<rparr>"

text \<open>
  The second component is a pending \<open>executeCommand\<close>: the previous index, for the
  \<open>catch\<close>, and the session being opened.
\<close>

definition nav_go :: "direction \<Rightarrow> nav_world \<Rightarrow> nav_world \<times> (nat \<times> session_identity) option" where
  "nav_go off w =
     (case next_index off (nw_nav w) of
        None \<Rightarrow> (w, None)
      | Some k \<Rightarrow>
          let n = nw_nav w; target = nv_entries n ! k;
              w1 = w\<lparr>nw_nav := sync_nav (n\<lparr>nv_index := k, nv_expected := Some (nav_key target)\<rparr>)\<rparr>
          in (case target of
                Some i \<Rightarrow> (w1\<lparr>nw_opened := nw_opened w1 @ [i]\<rparr>, Some (nv_index n, i))
              | None \<Rightarrow> (nav_settle (nw_clear w1), None)))"

subsection \<open>Runs with one navigation at a time\<close>

datatype nav_op = NvSelect session_identity | NvClear | NvGo direction | NvSettle | NvReject

text \<open>A pending navigation settles before the next one starts.\<close>

fun nav_step :: "nav_op \<Rightarrow> nav_world \<times> nat option \<Rightarrow> nav_world \<times> nat option" where
  "nav_step (NvSelect i) (w, p) = (nw_select i w, p)"
| "nav_step NvClear (w, p) = (nw_clear w, p)"
| "nav_step (NvGo off) (w, None) = (case nav_go off w of (w', q) \<Rightarrow> (w', map_option fst q))"
| "nav_step (NvGo off) (w, Some p) = (w, Some p)"
| "nav_step NvSettle (w, Some p) = (nav_settle w, None)"
| "nav_step NvSettle (w, None) = (w, None)"
| "nav_step NvReject (w, Some p) = (nav_reject p w, None)"
| "nav_step NvReject (w, None) = (w, None)"

definition nav_ok :: "navigation \<Rightarrow> bool" where
  "nav_ok n \<longleftrightarrow> nv_index n < length (nv_entries n) \<and> length (nv_entries n) \<le> 50 \<and>
     nv_can_back n = can_go_back n \<and> nv_can_forward n = can_go_forward n"

definition nav_inv :: "nav_world \<times> nat option \<Rightarrow> bool" where
  "nav_inv wp \<longleftrightarrow> nav_ok (nw_nav (fst wp)) \<and>
     (\<forall>p. snd wp = Some p \<longrightarrow> p < length (nv_entries (nw_nav (fst wp))) \<and> p \<le> Suc (nv_index (nw_nav (fst wp))))"

lemma sync_nav_ok:
  "nv_index n < length (nv_entries n) \<Longrightarrow> length (nv_entries n) \<le> 50 \<Longrightarrow> nav_ok (sync_nav n)"
  by (simp add: nav_ok_def sync_nav_def can_go_back_def can_go_forward_def)

lemma sync_nav_sel [simp]:
  "nv_entries (sync_nav n) = nv_entries n" "nv_index (sync_nav n) = nv_index n"
  "nv_expected (sync_nav n) = nv_expected n"
  by (simp_all add: sync_nav_def)

text \<open>The three outcomes of \<open>record\<close>.\<close>

lemma nav_record_cases:
  obtains (expected) "nv_expected n = Some (nav_key i)" "nav_record i n = sync_nav (n\<lparr>nv_expected := None\<rparr>)"
    | (same) "nv_expected n \<noteq> Some (nav_key i)" "nav_record i n = n"
    | (fresh) es es' where "nv_expected n \<noteq> Some (nav_key i)"
        "es = take (Suc (nv_index n)) (nv_entries n) @ [i]" "es' = (if length es > 50 then tl es else es)"
        "nav_record i n = sync_nav (n\<lparr>nv_entries := es', nv_index := length es' - 1, nv_expected := None\<rparr>)"
proof (cases "nv_expected n = Some (nav_key i)")
  case True
  then show thesis using expected by (simp add: nav_record_def Let_def)
next
  case no: False
  show thesis
  proof (cases "(case at_index (nv_entries n) (nv_index n) of None \<Rightarrow> None | Some e \<Rightarrow> nav_key e) = nav_key i")
    case True
    then show thesis using no same by (simp add: nav_record_def Let_def)
  next
    case False
    show thesis
      by (rule fresh [OF no refl refl]) (simp only: nav_record_def Let_def no False if_False)
  qed
qed

lemma nav_record_ok:
  assumes ok: "nav_ok n" and p: "p < length (nv_entries n)" "p \<le> Suc (nv_index n)"
  shows "nav_ok (nav_record i n) \<and> p < length (nv_entries (nav_record i n)) \<and> p \<le> Suc (nv_index (nav_record i n))"
proof (cases rule: nav_record_cases [of n i])
  case expected
  have "nav_ok (sync_nav (n\<lparr>nv_expected := None\<rparr>))"
    by (rule sync_nav_ok) (use ok in \<open>simp_all add: nav_ok_def\<close>)
  then show ?thesis using expected p by simp
next
  case same
  then show ?thesis using ok p by simp
next
  case (fresh es es')
  have len: "length es = Suc (Suc (nv_index n))" using fresh(2) ok by (simp add: nav_ok_def)
  have i: "nv_index n < 50" using ok by (simp add: nav_ok_def)
  then have len': "length es' = min 50 (Suc (Suc (nv_index n)))" using fresh(3) len by auto
  have "nav_ok (nav_record i n)" unfolding fresh(4)
    by (rule sync_nav_ok) (simp_all add: len' min_def)
  moreover have "p < min 50 (Suc (Suc (nv_index n)))" using p ok unfolding nav_ok_def min_def by auto
  ultimately show ?thesis using p i by (simp add: fresh(4) len')
qed

lemma nav_record_ok' [simp]: "nav_ok n \<Longrightarrow> nav_ok (nav_record i n)"
proof -
  assume ok: "nav_ok n"
  then have "0 < length (nv_entries n)" by (auto simp: nav_ok_def)
  then show ?thesis using nav_record_ok [OF ok, of 0 i] by simp
qed

lemma hear_inv: "nav_inv (w, p) \<Longrightarrow> nav_inv (hear r w, p)"
proof -
  assume i: "nav_inv (w, p)"
  obtain a ev where r: "r = (a, ev)" by fastforce
  show ?thesis
  proof (cases ev)
    case None
    then show ?thesis using i by (simp add: r hear_def nav_inv_def)
  next
    case (Some e)
    then show ?thesis using i nav_record_ok [of "nw_nav w" _ e]
      by (auto simp: r hear_def nav_inv_def)
  qed
qed

lemma nav_settle_inv: "nav_inv (w, p) \<Longrightarrow> nav_inv (nav_settle w, p)"
  by (simp add: nav_settle_def nav_inv_def nav_ok_def can_go_back_def can_go_forward_def)

lemma nav_reject_inv: "nav_inv (w, Some p) \<Longrightarrow> nav_inv (nav_reject p w, None)"
proof -
  assume i: "nav_inv (w, Some p)"
  have "nav_ok (sync_nav ((nw_nav w)\<lparr>nv_index := p, nv_expected := None\<rparr>))"
    by (rule sync_nav_ok) (use i in \<open>simp_all add: nav_inv_def nav_ok_def\<close>)
  then show ?thesis by (simp add: nav_inv_def nav_reject_def)
qed

lemma next_index_bounds:
  "next_index off n = Some k \<Longrightarrow>
   k < length (nv_entries n) \<and> k \<noteq> nv_index n \<and> k \<le> Suc (nv_index n) \<and> nv_index n \<le> Suc k"
  by (auto simp: next_index_def split: direction.splits if_splits)

lemma nav_go_inv: "nav_inv (w, None) \<Longrightarrow> nav_go off w = (w', q) \<Longrightarrow> nav_inv (w', map_option fst q)"
proof (cases "next_index off (nw_nav w)")
  case None
  then show "nav_inv (w, None) \<Longrightarrow> nav_go off w = (w', q) \<Longrightarrow> ?thesis" by (auto simp: nav_go_def)
next
  case (Some k)
  assume i: "nav_inv (w, None)" and g: "nav_go off w = (w', q)"
  let ?n = "nw_nav w"
  let ?w1 = "w\<lparr>nw_nav := sync_nav (?n\<lparr>nv_index := k, nv_expected := Some (nav_key (nv_entries ?n ! k))\<rparr>)\<rparr>"
  have b: "k < length (nv_entries ?n)" "nv_index ?n \<le> Suc k" using next_index_bounds [OF Some] by auto
  have "nav_ok (sync_nav (?n\<lparr>nv_index := k, nv_expected := Some (nav_key (nv_entries ?n ! k))\<rparr>))"
    by (rule sync_nav_ok) (use i b in \<open>simp_all add: nav_inv_def nav_ok_def\<close>)
  then have ok: "nav_ok (nw_nav ?w1)" by simp
  show ?thesis
  proof (cases "nv_entries ?n ! k")
    case None
    have "nav_inv (nav_settle (nw_clear ?w1), None)"
      unfolding nw_clear_def by (intro nav_settle_inv hear_inv) (use ok in \<open>simp add: nav_inv_def\<close>)
    then show ?thesis using g Some None by (auto simp: nav_go_def Let_def)
  next
    case (Some i')
    then have "w' = ?w1\<lparr>nw_opened := nw_opened ?w1 @ [i']\<rparr>" "q = Some (nv_index ?n, i')"
      using g \<open>next_index off (nw_nav w) = Some k\<close> by (auto simp: nav_go_def Let_def)
    then show ?thesis using ok i b by (simp add: nav_inv_def nav_ok_def)
  qed
qed

lemma nav_step_inv: "nav_inv wp \<Longrightarrow> nav_inv (nav_step op wp)"
  by (induction op wp rule: nav_step.induct)
    (auto simp: nw_select_def nw_clear_def hear_inv nav_go_inv nav_reject_inv
       dest: nav_settle_inv split: prod.split, auto simp: nav_inv_def nav_settle_def nav_ok_def
       can_go_back_def can_go_forward_def)

lemma nav_inv_new:
  "nav_inv (\<lparr>nw_active = a, nw_nav = new_navigation a, nw_opened = []\<rparr>, None)"
  by (auto simp: nav_inv_def new_navigation_def intro!: sync_nav_ok)

text \<open>
  C16: as long as one navigation settles before the next begins, whatever sessions are selected
  or cleared in between and whether the opened commands succeed or fail, the history keeps
  between 1 and 50 entries, its index points at one of them, and the two context keys tell
  exactly whether there is an entry before and after it.
\<close>

theorem navigation_history_bounded:
  "let n = nw_nav (fst (fold nav_step ops (\<lparr>nw_active = a, nw_nav = new_navigation a, nw_opened = []\<rparr>, None))) in
   nv_index n < length (nv_entries n) \<and> length (nv_entries n) \<le> 50 \<and>
   nv_can_back n = (nv_index n \<noteq> 0) \<and> nv_can_forward n = (nv_index n \<noteq> length (nv_entries n) - 1)"
proof -
  let ?s = "fold nav_step ops (\<lparr>nw_active = a, nw_nav = new_navigation a, nw_opened = []\<rparr>, None)"
  have "nav_inv ?s" by (rule fold_keeps [where P = nav_inv]) (simp_all add: nav_step_inv nav_inv_new)
  then have "nav_ok (nw_nav (fst ?s))" by (simp add: nav_inv_def)
  then show ?thesis by (auto simp: nav_ok_def can_go_back_def can_go_forward_def Let_def)
qed

text \<open>
  Two overlapping navigations break this: with the history null, a, b and the index at b,
  going back twice, selecting another session and then letting the first navigation fail leaves
  the index past the end of the history.
\<close>

theorem overlapping_navigation_overruns:
  fixes a b c :: session_identity
  assumes "distinct [a, b, c]"
  shows "let w0 = nw_select b (nw_select a \<lparr>nw_active = new_active True,
             nw_nav = new_navigation (new_active True), nw_opened = []\<rparr>);
           (w1, first) = nav_go Back w0;
           (w2, _) = nav_go Back w1;
           w3 = nav_reject (fst (the first)) (nw_select c w2)
       in nv_entries (nw_nav w3) = [None, Some c] \<and> nv_index (nw_nav w3) = 2"
  using assms
  by (simp add: Let_def nw_select_def hear_def active_select_def new_active_def new_navigation_def
      nav_record_def sync_nav_def nav_go_def next_index_def nav_key_def at_index_def nw_clear_def
      active_clear_def nav_settle_def nav_reject_def can_go_back_def can_go_forward_def)

theorem overlapping_navigation_overruns_witness:
  "let i = (\<lambda>r. \<lparr>si_workspace = ''w'', si_resource = r\<rparr>);
       w0 = nw_select (i ''b'') (nw_select (i ''a'') \<lparr>nw_active = new_active True,
             nw_nav = new_navigation (new_active True), nw_opened = []\<rparr>);
       (w1, first) = nav_go Back w0;
       (w2, _) = nav_go Back w1;
       w3 = nav_reject (fst (the first)) (nw_select (i ''c'') w2)
   in nv_entries (nw_nav w3) = [None, Some (i ''c'')] \<and> nv_index (nw_nav w3) = 2"
  using overlapping_navigation_overruns [of "\<lparr>si_workspace = ''w'', si_resource = ''a''\<rparr>"
      "\<lparr>si_workspace = ''w'', si_resource = ''b''\<rparr>" "\<lparr>si_workspace = ''w'', si_resource = ''c''\<rparr>"]
  by (simp add: Let_def)

subsection \<open>Going back and forward again\<close>

text \<open>A navigation whose command opens the session it was asked to open.\<close>

definition nav_visit :: "direction \<Rightarrow> nav_world \<Rightarrow> nav_world" where
  "nav_visit off w = (case nav_go off w of (w', None) \<Rightarrow> w' | (w', Some (p, i)) \<Rightarrow> nav_settle (nw_select i w'))"

lemma nav_visit_moves:
  assumes k: "next_index off (nw_nav w) = Some k"
  shows "nv_entries (nw_nav (nav_visit off w)) = nv_entries (nw_nav w) \<and>
     nv_index (nw_nav (nav_visit off w)) = k \<and>
     as_selected (nw_active (nav_visit off w)) = nv_entries (nw_nav w) ! k"
proof -
  have "k < length (nv_entries (nw_nav w))" using next_index_bounds [OF k] by simp
  then show ?thesis
    by (auto simp: nav_visit_def nav_go_def k Let_def nw_select_def nw_clear_def hear_def active_select_def
        active_clear_def nav_record_def nav_settle_def nav_key_def split: option.split)
qed

text \<open>
  Going back and then forward again (the opened commands select what they are asked to)
  returns to the entry one started from: same history, same index, and that entry is active.
\<close>

theorem back_then_forward_returns:
  assumes "nav_ok (nw_nav w)" and "0 < nv_index (nw_nav w)"
    and "w2 = nav_visit Forward (nav_visit Back w)"
  shows "nv_entries (nw_nav w2) = nv_entries (nw_nav w) \<and> nv_index (nw_nav w2) = nv_index (nw_nav w)
    \<and> as_selected (nw_active w2) = nv_entries (nw_nav w) ! nv_index (nw_nav w)"
proof -
  have "next_index Back (nw_nav w) = Some (nv_index (nw_nav w) - 1)"
    using assms(1,2) by (auto simp: next_index_def nav_ok_def)
  note b = nav_visit_moves [OF this]
  have "next_index Forward (nw_nav (nav_visit Back w)) = Some (nv_index (nw_nav w))"
    using b assms(1,2) by (auto simp: next_index_def nav_ok_def)
  from nav_visit_moves [OF this] b show ?thesis by (simp add: assms(3))
qed

theorem back_then_forward_returns_witness:
  "let i = \<lparr>si_workspace = ''w'', si_resource = ''r''\<rparr>;
       w = nw_select i \<lparr>nw_active = new_active True, nw_nav = new_navigation (new_active True), nw_opened = []\<rparr>
   in as_selected (nw_active (nav_visit Back w)) = None
    \<and> as_selected (nw_active (nav_visit Forward (nav_visit Back w))) = Some i"
proof -
  let ?i = "\<lparr>si_workspace = ''w'', si_resource = ''r''\<rparr>"
  let ?w = "nw_select ?i \<lparr>nw_active = new_active True, nw_nav = new_navigation (new_active True), nw_opened = []\<rparr>"
  have e: "nv_entries (nw_nav ?w) = [None, Some ?i]" "nv_index (nw_nav ?w) = 1" "nav_ok (nw_nav ?w)"
    by (simp_all add: nw_select_def hear_def active_select_def new_active_def new_navigation_def
        nav_record_def sync_nav_def nav_key_def at_index_def nav_ok_def can_go_back_def can_go_forward_def Let_def)
  have "as_selected (nw_active (nav_visit Back ?w)) = None"
    using nav_visit_moves [of Back ?w 0] e by (simp add: next_index_def)
  then show ?thesis using back_then_forward_returns [OF e(3), of "nav_visit Forward (nav_visit Back ?w)"] e
    by (simp add: Let_def)
qed

end
