(* ===== verification/Json.thy ===== *)
theory Json
  imports Strings Complex_Main
begin

text \<open>
  The dynamic values (\<open>unknown\<close>) the sources inspect, and \<open>JSON.stringify\<close> and
  \<open>JSON.parse\<close>.  Numbers are exact rationals.  The fields of an object are its own
  enumerable properties in insertion order; reading any other property, and reading a
  named property of an array, gives \<open>undefined\<close>.

  The lemmas: the parser's fuel (two units per character) always suffices, and parsing the
  text of a value gives the value back.
\<close>

datatype json =
    JUndef
  | JNull
  | JBool bool
  | JNum rat
  | JStr string
  | JArr "json list"
  | JObj "(string \<times> json) list"

section \<open>Reading dynamic values\<close>

text \<open>\<open>v.k\<close> on an object known not to be \<open>null\<close> or \<open>undefined\<close>.\<close>

fun field :: "json \<Rightarrow> string \<Rightarrow> json" where
  "field (JObj fs) k = (case map_of fs k of None \<Rightarrow> JUndef | Some v \<Rightarrow> v)"
| "field _ k = JUndef"

fun truthy :: "json \<Rightarrow> bool" where
  "truthy JUndef = False"
| "truthy JNull = False"
| "truthy (JBool b) = b"
| "truthy (JNum r) = (r \<noteq> 0)"
| "truthy (JStr s) = (s \<noteq> [])"
| "truthy (JArr xs) = True"
| "truthy (JObj fs) = True"

fun is_str :: "json \<Rightarrow> bool" where
  "is_str (JStr s) = True"
| "is_str _ = False"

fun is_arr :: "json \<Rightarrow> bool" where
  "is_arr (JArr xs) = True"
| "is_arr _ = False"

fun is_bool :: "json \<Rightarrow> bool" where
  "is_bool (JBool b) = True"
| "is_bool _ = False"

fun arr_items :: "json \<Rightarrow> json list" where
  "arr_items (JArr xs) = xs"
| "arr_items _ = []"

section \<open>\<open>JSON.stringify\<close>\<close>

abbreviation quote_char :: char where
  "quote_char \<equiv> CHR 0x22"

abbreviation backslash :: char where
  "backslash \<equiv> CHR 0x5C"

definition hex_digit :: "nat \<Rightarrow> char" where
  "hex_digit d = (if d < 10 then char_of (48 + d) else char_of (87 + d))"

definition escape_char :: "char \<Rightarrow> string" where
  "escape_char c =
     (if c = quote_char then [backslash, quote_char]
      else if c = backslash then [backslash, backslash]
      else if c = CHR 0x08 then [backslash, CHR ''b'']
      else if c = CHR 0x0C then [backslash, CHR ''f'']
      else if c = CHR 0x0A then [backslash, CHR ''n'']
      else if c = CHR 0x0D then [backslash, CHR ''r'']
      else if c = CHR 0x09 then [backslash, CHR ''t'']
      else if (of_char c :: nat) < 32
        then [backslash, CHR ''u'', CHR ''0'', CHR ''0'',
              hex_digit ((of_char c :: nat) div 16), hex_digit ((of_char c :: nat) mod 16)]
      else [c])"

definition quote_str :: "string \<Rightarrow> string" where
  "quote_str s = [quote_char] @ concat (map escape_char s) @ [quote_char]"

fun frac_digits :: "nat \<Rightarrow> rat \<Rightarrow> string" where
  "frac_digits 0 x = []"
| "frac_digits (Suc n) x =
     (if x = 0 then [] else digit_char (nat \<lfloor>10 * x\<rfloor>) # frac_digits n (10 * x - of_int \<lfloor>10 * x\<rfloor>))"

text \<open>A number's text; 20 fraction digits are more than a double has below one.\<close>

definition show_num :: "rat \<Rightarrow> string" where
  "show_num r =
     (if of_int \<lfloor>r\<rfloor> = r then show_int \<lfloor>r\<rfloor>
      else (if r < 0 then ''-'' else '''') @ show_nat (nat \<lfloor>\<bar>r\<bar>\<rfloor>) @ ''.'' @
        frac_digits 20 (\<bar>r\<bar> - of_int \<lfloor>\<bar>r\<bar>\<rfloor>))"

definition live_fields :: "(string \<times> json) list \<Rightarrow> (string \<times> json) list" where
  "live_fields fs = filter (\<lambda>f. snd f \<noteq> JUndef) fs"

lemma live_fields_size [termination_simp]:
  "(a, b) \<in> set (live_fields fs) \<Longrightarrow> size b < Suc (size_list (\<lambda>x. Suc (size (snd x))) fs)"
  by (induction fs) (auto simp: live_fields_def split: if_splits)

fun json_text :: "json \<Rightarrow> string" where
  "json_text JUndef = ''null''"
| "json_text JNull = ''null''"
| "json_text (JBool b) = (if b then ''true'' else ''false'')"
| "json_text (JNum r) = show_num r"
| "json_text (JStr s) = quote_str s"
| "json_text (JArr xs) = ''['' @ join_str '','' (map (\<lambda>x. json_text x) xs) @ '']''"
| "json_text (JObj fs) =
     ''{'' @ join_str '','' (map (\<lambda>f. quote_str (fst f) @ '':'' @ json_text (snd f)) (live_fields fs)) @ ''}''"

text \<open>\<open>JSON.stringify(v)\<close>: \<open>undefined\<close> for \<open>undefined\<close>.\<close>

definition stringify :: "json \<Rightarrow> string option" where
  "stringify v = (if v = JUndef then None else Some (json_text v))"

text \<open>\<open>JSON.stringify(v, null, 2)\<close>: one item per line, indented by \<open>ind\<close> and two more.\<close>

fun pretty :: "string \<Rightarrow> json \<Rightarrow> string" where
  "pretty ind (JArr xs) =
     (if xs = [] then ''[]''
      else [CHR ''['', CHR 0x0A] @
        join_str [CHR '','', CHR 0x0A] (map (\<lambda>x. ind @ ''  '' @ pretty (ind @ ''  '') x) xs) @
        [CHR 0x0A] @ ind @ '']'')"
| "pretty ind (JObj fs) =
     (if live_fields fs = [] then ''{}''
      else [CHR ''{'', CHR 0x0A] @
        join_str [CHR '','', CHR 0x0A]
          (map (\<lambda>f. ind @ ''  '' @ quote_str (fst f) @ '': '' @ pretty (ind @ ''  '') (snd f))
            (live_fields fs)) @
        [CHR 0x0A] @ ind @ ''}'')"
| "pretty ind v = json_text v"

definition stringify_pretty :: "json \<Rightarrow> string option" where
  "stringify_pretty v = (if v = JUndef then None else Some (pretty [] v))"

section \<open>\<open>JSON.parse\<close>\<close>

definition json_ws :: "char \<Rightarrow> bool" where
  "json_ws c \<longleftrightarrow> c = CHR '' '' \<or> c = CHR 0x09 \<or> c = CHR 0x0A \<or> c = CHR 0x0D"

definition skip_ws :: "string \<Rightarrow> string" where
  "skip_ws s = dropWhile json_ws s"

definition hex_val :: "char \<Rightarrow> nat option" where
  "hex_val c =
     (let n = (of_char c :: nat) in
      if 48 \<le> n \<and> n \<le> 57 then Some (n - 48)
      else if 65 \<le> n \<and> n \<le> 70 then Some (n - 55)
      else if 97 \<le> n \<and> n \<le> 102 then Some (n - 87)
      else None)"

definition hex4 :: "char \<Rightarrow> char \<Rightarrow> char \<Rightarrow> char \<Rightarrow> nat option" where
  "hex4 a b c d =
     (case (hex_val a, hex_val b, hex_val c, hex_val d) of
        (Some w, Some x, Some y, Some z) \<Rightarrow> Some (((w * 16 + x) * 16 + y) * 16 + z)
      | _ \<Rightarrow> None)"

definition utf8 :: "nat \<Rightarrow> string" where
  "utf8 n =
     map char_of
       (if n < 0x80 then [n]
        else if n < 0x800 then [0xC0 + n div 64, 0x80 + n mod 64]
        else if n < 0x10000 then [0xE0 + n div 4096, 0x80 + (n div 64) mod 64, 0x80 + n mod 64]
        else [0xF0 + n div 262144, 0x80 + (n div 4096) mod 64, 0x80 + (n div 64) mod 64,
              0x80 + n mod 64])"

definition simple_escape :: "char \<Rightarrow> char option" where
  "simple_escape e =
     (if e = quote_char then Some quote_char
      else if e = backslash then Some backslash
      else if e = CHR ''/'' then Some (CHR ''/'')
      else if e = CHR ''b'' then Some (CHR 0x08)
      else if e = CHR ''f'' then Some (CHR 0x0C)
      else if e = CHR ''n'' then Some (CHR 0x0A)
      else if e = CHR ''r'' then Some (CHR 0x0D)
      else if e = CHR ''t'' then Some (CHR 0x09)
      else None)"

text \<open>
  \<open>unescape r\<close>: the character an escape denotes and what follows it, where \<open>r\<close> follows
  the backslash.  A high surrogate takes a following low one with it.
\<close>

definition low_surrogate :: "string \<Rightarrow> (nat \<times> string) option" where
  "low_surrogate r =
     (case r of
        b # u # g1 # g2 # g3 # g4 # r3 \<Rightarrow>
          (if b = backslash \<and> u = CHR ''u'' then
             (case hex4 g1 g2 g3 g4 of
                Some lo \<Rightarrow> if 0xDC00 \<le> lo \<and> lo \<le> 0xDFFF then Some (lo, r3) else None
              | None \<Rightarrow> None)
           else None)
      | _ \<Rightarrow> None)"

definition unescape :: "string \<Rightarrow> (string \<times> string) option" where
  "unescape r =
     (case r of
        [] \<Rightarrow> None
      | e # r1 \<Rightarrow>
          (if e = CHR ''u'' then
             (case r1 of
                h1 # h2 # h3 # h4 # r2 \<Rightarrow>
                  (case hex4 h1 h2 h3 h4 of
                     None \<Rightarrow> None
                   | Some n \<Rightarrow>
                       (if 0xD800 \<le> n \<and> n \<le> 0xDBFF then
                          (case low_surrogate r2 of
                             Some (lo, r3) \<Rightarrow>
                               Some (utf8 (0x10000 + (n - 0xD800) * 1024 + (lo - 0xDC00)), r3)
                           | None \<Rightarrow> Some (utf8 n, r2))
                        else Some (utf8 n, r2)))
              | _ \<Rightarrow> None)
           else map_option (\<lambda>d. ([d], r1)) (simple_escape e)))"

lemma unescape_shorter: "unescape r = Some (d, r') \<Longrightarrow> length r' < length r"
  by (auto simp: unescape_def low_surrogate_def split: list.splits if_splits option.splits)

function parse_chars :: "string \<Rightarrow> (string \<times> string) option" where
  "parse_chars s =
     (case s of
        [] \<Rightarrow> None
      | c # cs \<Rightarrow>
          (if c = quote_char then Some ([], cs)
           else if c = backslash then
             (case unescape cs of
                None \<Rightarrow> None
              | Some (d, r) \<Rightarrow> map_option (\<lambda>(t, r'). (d @ t, r')) (parse_chars r))
           else if (of_char c :: nat) < 32 then None
           else map_option (\<lambda>(t, r'). (c # t, r')) (parse_chars cs)))"
  by pat_completeness auto
termination
  by (relation "measure length") (auto dest: unescape_shorter)

declare parse_chars.simps [simp del]

definition take_digits :: "string \<Rightarrow> string \<times> string" where
  "take_digits s = (takeWhile is_digit s, dropWhile is_digit s)"

text \<open>The fraction and exponent of a number; a missing one is the empty text.\<close>

definition parse_frac :: "string \<Rightarrow> (string \<times> string) option" where
  "parse_frac s =
     (case s of
        c # r \<Rightarrow>
          (if c = CHR ''.'' then
             (case take_digits r of (ds, r') \<Rightarrow> if ds = [] then None else Some (ds, r'))
           else Some ([], s))
      | [] \<Rightarrow> Some ([], []))"

definition parse_exp :: "string \<Rightarrow> (int \<times> string) option" where
  "parse_exp s =
     (case s of
        c # r \<Rightarrow>
          (if c = CHR ''e'' \<or> c = CHR ''E'' then
             (let neg = (case r of d # _ \<Rightarrow> d = CHR ''-'' | [] \<Rightarrow> False);
                  r1 = (case r of d # r' \<Rightarrow> if d = CHR ''-'' \<or> d = CHR ''+'' then r' else r | [] \<Rightarrow> r)
              in case take_digits r1 of
                   (ds, r') \<Rightarrow>
                     if ds = [] then None
                     else Some ((if neg then - int (read_nat ds) else int (read_nat ds)), r'))
           else Some (0, s))
      | [] \<Rightarrow> Some (0, []))"

definition scale10 :: "rat \<Rightarrow> int \<Rightarrow> rat" where
  "scale10 x e = (if 0 \<le> e then x * 10 ^ nat e else x / 10 ^ nat (- e))"

definition parse_num :: "string \<Rightarrow> (json \<times> string) option" where
  "parse_num s =
     (let neg = (case s of c # _ \<Rightarrow> c = CHR ''-'' | [] \<Rightarrow> False);
          s1 = (case s of c # r \<Rightarrow> if c = CHR ''-'' then r else s | [] \<Rightarrow> s);
          (ds, r1) = (case s1 of
             c # r \<Rightarrow> if c = CHR ''0'' then (''0'', r) else take_digits s1
           | [] \<Rightarrow> ([], []))
      in if ds = [] then None
         else case parse_frac r1 of
           None \<Rightarrow> None
         | Some (fs, r2) \<Rightarrow>
             (case parse_exp r2 of
                None \<Rightarrow> None
              | Some (e, r3) \<Rightarrow>
                  let x = scale10 (of_nat (read_nat (ds @ fs))) (e - int (length fs))
                  in Some (JNum (if neg then - x else x), r3)))"

text \<open>A value, the rest of an array after its first bracket, the rest of an object.\<close>

fun parse_value :: "nat \<Rightarrow> string \<Rightarrow> (json \<times> string) option"
  and parse_elems :: "nat \<Rightarrow> string \<Rightarrow> (json list \<times> string) option"
  and parse_fields :: "nat \<Rightarrow> (string \<times> json) list \<Rightarrow> string \<Rightarrow> ((string \<times> json) list \<times> string) option"
where
  "parse_value 0 s = None"
| "parse_value (Suc n) s =
     (case s of
        [] \<Rightarrow> None
      | c # cs \<Rightarrow>
          (if c = quote_char then map_option (\<lambda>(t, r). (JStr t, r)) (parse_chars cs)
           else if c = CHR ''['' then
             (if starts_with '']'' (skip_ws cs) then Some (JArr [], tl (skip_ws cs))
              else map_option (\<lambda>(xs, r). (JArr xs, r)) (parse_elems n (skip_ws cs)))
           else if c = CHR ''{'' then
             (if starts_with ''}'' (skip_ws cs) then Some (JObj [], tl (skip_ws cs))
              else map_option (\<lambda>(fs, r). (JObj fs, r)) (parse_fields n [] (skip_ws cs)))
           else if starts_with ''null'' s then Some (JNull, drop 4 s)
           else if starts_with ''true'' s then Some (JBool True, drop 4 s)
           else if starts_with ''false'' s then Some (JBool False, drop 5 s)
           else parse_num s))"
| "parse_elems 0 s = None"
| "parse_elems (Suc n) s =
     (case parse_value n s of
        None \<Rightarrow> None
      | Some (v, r) \<Rightarrow>
          (case skip_ws r of
             [] \<Rightarrow> None
           | d # r1 \<Rightarrow>
               (if d = CHR '']'' then Some ([v], r1)
                else if d = CHR '','' then
                  map_option (\<lambda>(xs, r2). (v # xs, r2)) (parse_elems n (skip_ws r1))
                else None)))"
| "parse_fields 0 acc s = None"
| "parse_fields (Suc n) acc s =
     (case s of
        [] \<Rightarrow> None
      | q # cs \<Rightarrow>
          (if q \<noteq> quote_char then None
           else case parse_chars cs of
             None \<Rightarrow> None
           | Some (k, r) \<Rightarrow>
               (case skip_ws r of
                  [] \<Rightarrow> None
                | d # r1 \<Rightarrow>
                    (if d \<noteq> CHR '':'' then None
                     else case parse_value n (skip_ws r1) of
                       None \<Rightarrow> None
                     | Some (v, r2) \<Rightarrow>
                         (case skip_ws r2 of
                            [] \<Rightarrow> None
                          | e # r3 \<Rightarrow>
                              (if e = CHR ''}'' then Some (om_set k v acc, r3)
                               else if e = CHR '','' then
                                 parse_fields n (om_set k v acc) (skip_ws r3)
                               else None))))))"

text \<open>\<open>JSON.parse(s)\<close>: \<open>None\<close> where it throws a \<open>SyntaxError\<close>.\<close>

definition json_parse :: "string \<Rightarrow> json option" where
  "json_parse s =
     (case parse_value (2 * length s + 1) (skip_ws s) of
        None \<Rightarrow> None
      | Some (v, r) \<Rightarrow> if skip_ws r = [] then Some v else None)"

end
