(* ===== verification/Json_Laws.thy ===== *)
theory Json_Laws
  imports Json
begin

text \<open>
  The laws of \<open>JSON.stringify\<close> and \<open>JSON.parse\<close>: the parser consumes input at every
  step, its fuel always suffices, and \<open>parse (stringify v) = v\<close> for every storable value
  (no \<open>undefined\<close> inside, integral numbers, distinct keys).
\<close>

section \<open>The parser consumes input\<close>

lemma length_skip_ws: "length (skip_ws s) \<le> length s"
  by (simp add: skip_ws_def length_dropWhile_le)

lemma skip_ws_Cons_length: "skip_ws s = d # r \<Longrightarrow> length r < length s"
  using length_skip_ws [of s] by (metis Suc_le_lessD length_Cons)

lemma parse_chars_Nil [simp]: "parse_chars [] = None"
  by (subst parse_chars.simps) simp

lemma parse_chars_Cons:
  "parse_chars (c # cs) =
     (if c = quote_char then Some ([], cs)
      else if c = backslash then
        (case unescape cs of
           None \<Rightarrow> None
         | Some (d, r) \<Rightarrow> map_option (\<lambda>(t, r'). (d @ t, r')) (parse_chars r))
      else if (of_char c :: nat) < 32 then None
      else map_option (\<lambda>(t, r'). (c # t, r')) (parse_chars cs))"
  by (subst parse_chars.simps) simp

lemma parse_chars_shorter: "parse_chars s = Some (t, r) \<Longrightarrow> length r < length s"
proof (induction s arbitrary: t r rule: parse_chars.induct)
  case (1 s)
  show ?case
  proof (cases s)
    case Nil
    with "1.prems" show ?thesis by simp
  next
    case (Cons c cs)
    with 1 show ?thesis
      by (fastforce simp: parse_chars_Cons split: if_splits option.splits
          dest: unescape_shorter)
  qed
qed

lemma parse_frac_le: "parse_frac s = Some (ds, r) \<Longrightarrow> length r \<le> length s"
  by (auto simp: parse_frac_def take_digits_def length_dropWhile_le le_SucI
      split: list.splits if_splits)

lemma parse_exp_le: "parse_exp s = Some (e, r) \<Longrightarrow> length r \<le> length s"
  by (auto simp: parse_exp_def take_digits_def Let_def
      intro: order_trans [OF length_dropWhile_le] split: list.splits if_splits)

lemma take_digits_shorter: "take_digits s = (ds, r) \<Longrightarrow> ds \<noteq> [] \<Longrightarrow> length r < length s"
proof -
  assume "take_digits s = (ds, r)" "ds \<noteq> []"
  then have "s = ds @ r" "ds \<noteq> []" by (auto simp: take_digits_def)
  then show ?thesis by simp
qed

lemma parse_num_shorter: "parse_num s = Some (v, r) \<Longrightarrow> length r < length s"
proof -
  assume p: "parse_num s = Some (v, r)"
  define s1 where "s1 = (case s of c # r \<Rightarrow> if c = CHR ''-'' then r else s | [] \<Rightarrow> s)"
  obtain ds r1 where d: "(case s1 of c # r \<Rightarrow> if c = CHR ''0'' then (''0'', r) else take_digits s1
      | [] \<Rightarrow> ([], [])) = (ds, r1)" by fastforce
  have s1: "length s1 \<le> length s" by (simp add: s1_def split: list.splits)
  from p d have ds: "ds \<noteq> []"
    unfolding parse_num_def s1_def [symmetric] by (auto simp: Let_def)
  with d have "length r1 < length s1"
    by (auto split: list.splits if_splits dest: take_digits_shorter)
  moreover from p d ds obtain fs r2 e where "parse_frac r1 = Some (fs, r2)" "parse_exp r2 = Some (e, r)"
    unfolding parse_num_def s1_def [symmetric] by (auto simp: Let_def split: option.splits)
  ultimately show ?thesis using s1 by (auto dest!: parse_frac_le parse_exp_le)
qed

lemma length_tl_skip_ws: "starts_with [c] (skip_ws s) \<Longrightarrow> length (tl (skip_ws s)) < length s"
  using length_skip_ws [of s] by (cases "skip_ws s") auto

lemma starts_with_length: "starts_with p s \<Longrightarrow> length p \<le> length s"
  by (auto simp: starts_with_iff)

lemma parse_shorter:
  "parse_value n s = Some (v, r) \<Longrightarrow> length r < length s"
  "parse_elems n s = Some (xs, r) \<Longrightarrow> length r < length s"
  "parse_fields n acc s = Some (fs, r) \<Longrightarrow> length r < length s"
proof (induction n s and n s and n acc s arbitrary: v r and xs r and fs r
    rule: parse_value_parse_elems_parse_fields.induct)
  case (2 n s)
  show ?case
  proof (cases s)
    case Nil
    with "2.prems" show ?thesis by simp
  next
    case (Cons c cs)
    have le: "length (skip_ws cs) \<le> length cs" by (rule length_skip_ws)
    have "length (tl (skip_ws cs)) \<le> length (skip_ws cs)" by simp
    with le have "length (tl (skip_ws cs)) \<le> length cs" by (meson order_trans)
    with Cons have tl: "length (tl (skip_ws cs)) < length s" by (simp add: less_Suc_eq_le)
    consider "c = quote_char" | "c = CHR ''[''" | "c = CHR ''{''"
      | "c \<noteq> quote_char" "c \<noteq> CHR ''[''" "c \<noteq> CHR ''{''" by blast
    then show ?thesis
    proof cases
      case 1
      with "2.prems" Cons show ?thesis by (auto dest: parse_chars_shorter)
    next
      case 2
      show ?thesis
      proof (cases "starts_with '']'' (skip_ws cs)")
        case True
        with 2 "2.prems" Cons tl show ?thesis by simp
      next
        case False
        with 2 "2.prems" Cons obtain xs where "parse_elems n (skip_ws cs) = Some (xs, r)" by auto
        with "2.IH"(1) 2 False Cons have "length r < length (skip_ws cs)" by simp
        with le Cons show ?thesis by simp
      qed
    next
      case 3
      show ?thesis
      proof (cases "starts_with ''}'' (skip_ws cs)")
        case True
        with 3 "2.prems" Cons tl show ?thesis by simp
      next
        case False
        with 3 "2.prems" Cons obtain fs where "parse_fields n [] (skip_ws cs) = Some (fs, r)" by auto
        with "2.IH"(2) 3 False Cons have "length r < length (skip_ws cs)" by simp
        with le Cons show ?thesis by simp
      qed
    next
      case 4
      with "2.prems" Cons have "r = drop 4 s \<or> r = drop 5 s \<or> parse_num s = Some (v, r)"
        by (simp split: if_split_asm del: starts_with.simps)
      with Cons show ?thesis by (auto dest: parse_num_shorter)
    qed
  qed
next
  case (4 n s)
  from "4.prems" obtain v r0 where v: "parse_value n s = Some (v, r0)"
    by (auto split: option.splits)
  then have r0: "length r0 < length s" using "4.IH"(1) by simp
  from "4.prems" v obtain d r1 where d: "skip_ws r0 = d # r1" by (auto split: list.splits)
  then have r1: "length r1 < length r0" by (rule skip_ws_Cons_length)
  show ?case
  proof (cases "d = CHR '']''")
    case True
    with "4.prems" v d r0 r1 show ?thesis by simp
  next
    case False
    with "4.prems" v d obtain ys where ys: "d = CHR '',''" "parse_elems n (skip_ws r1) = Some (ys, r)"
      by (auto split: if_splits)
    with "4.IH"(2) v d have "length r < length (skip_ws r1)" by simp
    with r0 r1 length_skip_ws [of r1] show ?thesis by linarith
  qed
next
  case (6 n acc s)
  from "6.prems" obtain cs where s: "s = quote_char # cs" by (auto split: list.splits if_splits)
  from "6.prems" s obtain k r0 where k: "parse_chars cs = Some (k, r0)" by (auto split: option.splits)
  then have r0: "length r0 < length cs" by (rule parse_chars_shorter)
  from "6.prems" s k obtain r1 where d: "skip_ws r0 = CHR '':'' # r1" by (auto split: list.splits if_splits)
  then have r1: "length r1 < length r0" by (rule skip_ws_Cons_length)
  from "6.prems" s k d obtain v r2 where v: "parse_value n (skip_ws r1) = Some (v, r2)"
    by (auto split: option.splits)
  with "6.IH"(1) s k d have "length r2 < length (skip_ws r1)" by simp
  then have r2: "length r2 < length r1" using length_skip_ws [of r1] by linarith
  from "6.prems" s k d v obtain e r3 where e: "skip_ws r2 = e # r3" by (auto split: list.splits)
  then have r3: "length r3 < length r2" by (rule skip_ws_Cons_length)
  show ?case
  proof (cases "e = CHR ''}''")
    case True
    with "6.prems" s k d v e r0 r1 r2 r3 show ?thesis by simp
  next
    case False
    with "6.prems" s k d v e have f: "e = CHR '',''"
        "parse_fields n (om_set k v acc) (skip_ws r3) = Some (fs, r)" by (auto split: if_splits)
    with "6.IH"(2) s k d v e have "length r < length (skip_ws r3)" by simp
    with s r0 r1 r2 r3 length_skip_ws [of r3] show ?thesis by simp
  qed
qed auto

section \<open>Enough fuel\<close>

lemma fuel_step:
  "2 * length s + 1 \<le> n \<Longrightarrow> parse_value (Suc n) s = parse_value n s"
  "2 * length s + 2 \<le> n \<Longrightarrow> parse_elems (Suc n) s = parse_elems n s"
  "2 * length s + 2 \<le> n \<Longrightarrow> parse_fields (Suc n) acc s = parse_fields n acc s"
proof (induction n s and n s and n acc s rule: parse_value_parse_elems_parse_fields.induct)
  case (2 n s)
  show ?case
  proof (cases s)
    case (Cons c cs)
    have "length (skip_ws cs) \<le> length cs" by (rule length_skip_ws)
    with "2.prems" Cons have le: "2 * length (skip_ws cs) + 2 \<le> n" by simp
    show ?thesis
      using "2.IH" Cons le by (simp del: parse_elems.simps parse_fields.simps add: parse_value.simps(2))
  qed simp
next
  case (4 n s)
  then have v: "parse_value (Suc n) s = parse_value n s" by simp
  show ?case
  proof (cases "parse_value n s")
    case (Some p)
    obtain x r where p: "p = (x, r)" by fastforce
    with Some have r: "length r < length s" by (simp add: parse_shorter)
    show ?thesis
    proof (cases "skip_ws r")
      case (Cons d r1)
      then have "length r1 < length r" by (rule skip_ws_Cons_length)
      moreover have "length (skip_ws r1) \<le> length r1" by (rule length_skip_ws)
      ultimately have "2 * length (skip_ws r1) + 2 \<le> n" using r "4.prems" by simp
      with "4.IH"(2) Some p Cons have
        "d \<noteq> CHR '']'' \<Longrightarrow> d = CHR '','' \<Longrightarrow> parse_elems (Suc n) (skip_ws r1) = parse_elems n (skip_ws r1)"
        by simp
      then show ?thesis using Some p Cons v by (simp add: parse_elems.simps(2))
    qed (use Some p v in \<open>simp add: parse_elems.simps(2)\<close>)
  qed (use v in \<open>simp add: parse_elems.simps(2)\<close>)
next
  case (6 n acc s)
  show ?case
  proof (cases s)
    case (Cons q cs)
    show ?thesis
    proof (cases "q = quote_char \<and> parse_chars cs \<noteq> None")
      case True
      then obtain k r where k: "parse_chars cs = Some (k, r)" "q = quote_char" by auto
      then have r: "length r < length cs" by (simp add: parse_chars_shorter)
      show ?thesis
      proof (cases "skip_ws r")
        case (Cons d r1)
        then have r1: "length r1 < length r" by (rule skip_ws_Cons_length)
        have w1: "length (skip_ws r1) \<le> length r1" by (rule length_skip_ws)
        with r r1 "6.prems" \<open>s = q # cs\<close> have "2 * length (skip_ws r1) + 1 \<le> n" by simp
        with "6.IH"(1) k Cons \<open>s = q # cs\<close>
        have v: "d = CHR '':'' \<Longrightarrow> parse_value (Suc n) (skip_ws r1) = parse_value n (skip_ws r1)" by simp
        have f: "parse_fields (Suc n) (om_set k x acc) (skip_ws r3) = parse_fields n (om_set k x acc) (skip_ws r3)"
          if "d = CHR '':''" "parse_value n (skip_ws r1) = Some (x, r2)" "skip_ws r2 = CHR '','' # r3" for x r2 r3
        proof -
          have "length r2 < length (skip_ws r1)" using that(2) by (rule parse_shorter)
          moreover have "length r3 < length r2" using that(3) by (rule skip_ws_Cons_length)
          moreover have "length (skip_ws r3) \<le> length r3" by (rule length_skip_ws)
          ultimately have "2 * length (skip_ws r3) + 2 \<le> n" using w1 r1 r "6.prems" \<open>s = q # cs\<close> by simp
          with "6.IH"(2) k Cons \<open>s = q # cs\<close> that show ?thesis by simp
        qed
        show ?thesis
          using k Cons \<open>s = q # cs\<close> v f
          by (auto simp: parse_fields.simps(2) split: option.splits list.splits)
      qed (use k \<open>s = q # cs\<close> in \<open>simp add: parse_fields.simps(2)\<close>)
    qed (use \<open>s = q # cs\<close> in \<open>auto simp: parse_fields.simps(2) split: option.splits\<close>)
  qed (simp add: parse_fields.simps(2))
qed simp_all

lemma fuel_enough: "2 * length s + 1 \<le> n \<Longrightarrow> parse_value n s = parse_value (2 * length s + 1) s"
  by (induction n rule: dec_induct) (simp_all add: fuel_step(1) del: parse_value.simps)

section \<open>Strings and numbers come back\<close>

lemma less_32_cases: "(k::nat) < 32 \<Longrightarrow> k div 16 < 2"
  by simp

lemma hex_val_digit: "d < 16 \<Longrightarrow> hex_val (hex_digit d) = Some d"
  by (auto simp: hex_val_def hex_digit_def Let_def)

lemma hex_val_0: "hex_val (CHR ''0'') = Some 0"
  by (simp add: hex_val_def)

lemma hex4_control:
  assumes "k < 32"
  shows "hex4 (CHR ''0'') (CHR ''0'') (hex_digit (k div 16)) (hex_digit (k mod 16)) = Some k"
proof -
  have "k div 16 < 16" "k mod 16 < 16" using less_32_cases [OF assms] by simp_all
  then show ?thesis by (simp add: hex4_def hex_val_digit hex_val_0)
qed

lemma unescape_control:
  assumes "(of_char c :: nat) < 32"
  shows "unescape (CHR ''u'' # CHR ''0'' # CHR ''0'' # hex_digit ((of_char c :: nat) div 16) #
    hex_digit ((of_char c :: nat) mod 16) # s) = Some ([c], s)"
  using assms by (simp add: unescape_def hex4_control utf8_def)

lemma unescape_simple: "e \<noteq> CHR ''u'' \<Longrightarrow> simple_escape e = Some c \<Longrightarrow> unescape (e # s) = Some ([c], s)"
  by (simp add: unescape_def)

lemma simple_escape_simps:
  "simple_escape quote_char = Some quote_char" "simple_escape backslash = Some backslash"
  "simple_escape (CHR ''b'') = Some (CHR 0x08)" "simple_escape (CHR ''f'') = Some (CHR 0x0C)"
  "simple_escape (CHR ''n'') = Some (CHR 0x0A)" "simple_escape (CHR ''r'') = Some (CHR 0x0D)"
  "simple_escape (CHR ''t'') = Some (CHR 0x09)"
  by (simp_all add: simple_escape_def)

lemma escape_char_shape:
  obtains (plain) "escape_char c = [c]" "c \<noteq> quote_char" "c \<noteq> backslash" "\<not> (of_char c :: nat) < 32"
  | (simple) e where "escape_char c = [backslash, e]" "e \<noteq> CHR ''u''" "simple_escape e = Some c"
  | (control) "(of_char c :: nat) < 32"
      "escape_char c = [backslash, CHR ''u'', CHR ''0'', CHR ''0'',
         hex_digit ((of_char c :: nat) div 16), hex_digit ((of_char c :: nat) mod 16)]"
proof -
  consider "c = quote_char" | "c = backslash" | "c = CHR 0x08" | "c = CHR 0x0C" | "c = CHR 0x0A"
    | "c = CHR 0x0D" | "c = CHR 0x09" | "c \<noteq> quote_char" "c \<noteq> backslash" "c \<noteq> CHR 0x08"
      "c \<noteq> CHR 0x0C" "c \<noteq> CHR 0x0A" "c \<noteq> CHR 0x0D" "c \<noteq> CHR 0x09" by blast
  then show thesis
  proof cases
    case 8
    show thesis
    proof (cases "(of_char c :: nat) < 32")
      case True
      with 8 show thesis by (intro control) (simp_all add: escape_char_def)
    next
      case False
      with 8 show thesis by (intro plain) (simp_all add: escape_char_def)
    qed
  qed (rule simple, simp add: escape_char_def, simp, simp add: simple_escape_simps)+
qed

lemma parse_chars_escape:
  "parse_chars (escape_char c @ s) = map_option (\<lambda>(t, r). (c # t, r)) (parse_chars s)"
proof (cases c rule: escape_char_shape)
  case plain
  then show ?thesis by (simp add: parse_chars_Cons)
next
  case (simple e)
  then show ?thesis by (simp add: parse_chars_Cons unescape_simple)
next
  case control
  then show ?thesis by (simp add: parse_chars_Cons unescape_control)
qed

lemma parse_chars_quoted:
  "parse_chars (concat (map escape_char t) @ quote_char # r) = Some (t, r)"
  by (induction t) (simp_all add: parse_chars_escape parse_chars_Cons)

definition delimited :: "string \<Rightarrow> bool" where
  "delimited r \<longleftrightarrow> r = [] \<or> hd r \<in> {CHR '','', CHR '']'', CHR ''}''}"

lemma hd_show_nat_pos: "0 < n \<Longrightarrow> hd (show_nat n) \<noteq> CHR ''0''"
proof (induction n rule: show_nat.induct)
  case (1 n)
  show ?case
  proof (cases "n < 10")
    case True
    have "digit_char n \<noteq> CHR ''0''"
    proof
      assume "digit_char n = CHR ''0''"
      then have "n = digit_val (CHR ''0'')" using digit_val_char [OF True] by simp
      with "1.prems" show False by (simp add: digit_val_def)
    qed
    with True show ?thesis by (simp add: show_nat.simps [of n])
  next
    case False
    with 1 show ?thesis by (simp add: show_nat.simps [of n])
  qed
qed

lemma take_digits_all:
  assumes "\<forall>c \<in> set ds. is_digit c" and "delimited r"
  shows "take_digits (ds @ r) = (ds, r)"
proof -
  have "\<not> is_digit (hd r)" if "r \<noteq> []"
    using assms(2) that by (auto simp: delimited_def is_digit_def)
  then have "takeWhile is_digit r = [] \<and> dropWhile is_digit r = r"
    by (cases r) auto
  with assms(1) show ?thesis by (simp add: take_digits_def)
qed

lemma parse_frac_delimited: "delimited r \<Longrightarrow> parse_frac r = Some ([], r)"
  by (auto simp: delimited_def parse_frac_def split: list.splits)

lemma parse_exp_delimited: "delimited r \<Longrightarrow> parse_exp r = Some (0, r)"
  by (auto simp: delimited_def parse_exp_def split: list.splits)

lemma is_digit_not_minus: "is_digit c \<Longrightarrow> c \<noteq> CHR ''-''"
  by (auto simp: is_digit_def)

definition digits_part :: "string \<Rightarrow> string \<times> string" where
  "digits_part s1 = (case s1 of c # r \<Rightarrow> if c = CHR ''0'' then (''0'', r) else take_digits s1
     | [] \<Rightarrow> ([], []))"

lemma digits_part_show_nat:
  assumes "delimited r"
  shows "digits_part (show_nat n @ r) = (show_nat n, r)"
proof (cases "n = 0")
  case True
  have "show_nat 0 = ''0''" by code_simp
  with True show ?thesis by (simp add: digits_part_def)
next
  case False
  then have "hd (show_nat n) \<noteq> CHR ''0''" by (simp add: hd_show_nat_pos)
  moreover have "take_digits (show_nat n @ r) = (show_nat n, r)"
    using assms show_nat_digits by (intro take_digits_all) auto
  ultimately show ?thesis by (cases "show_nat n") (auto simp: digits_part_def)
qed

lemma parse_num_show_nat:
  assumes "delimited r"
  shows "parse_num (show_nat n @ r) = Some (JNum (of_nat n), r)"
proof -
  obtain c cs where c: "show_nat n = c # cs" by (cases "show_nat n") auto
  then have "c \<noteq> CHR ''-''" using show_nat_digits [of c n] is_digit_not_minus by auto
  then show ?thesis
    using c assms digits_part_show_nat [OF assms, of n]
    by (simp add: parse_num_def digits_part_def [symmetric] parse_frac_delimited
        parse_exp_delimited scale10_def read_show_nat [of n, unfolded c])
qed

lemma parse_num_minus:
  assumes "delimited r"
  shows "parse_num (CHR ''-'' # show_nat n @ r) = Some (JNum (- of_nat n), r)"
  using assms digits_part_show_nat [OF assms, of n]
  by (simp add: parse_num_def digits_part_def [symmetric] parse_frac_delimited
      parse_exp_delimited scale10_def)

lemma parse_num_show_int:
  assumes "delimited r"
  shows "parse_num (show_int i @ r) = Some (JNum (of_int i), r)"
  using assms by (simp add: show_int_def parse_num_show_nat parse_num_minus)

section \<open>Values come back\<close>

text \<open>The values \<open>JSON.stringify\<close> keeps: what the services store.\<close>

fun storable :: "json \<Rightarrow> bool" where
  "storable JUndef = False"
| "storable (JNum r) = (of_int \<lfloor>r\<rfloor> = r)"
| "storable (JArr xs) = (\<forall>x \<in> set xs. storable x)"
| "storable (JObj fs) = (distinct (map fst fs) \<and> (\<forall>f \<in> set fs. storable (snd f)))"
| "storable _ = True"

lemma live_fields_storable: "storable (JObj fs) \<Longrightarrow> live_fields fs = fs"
  by (induction fs) (auto simp: live_fields_def)

definition value_start :: "char \<Rightarrow> bool" where
  "value_start c \<longleftrightarrow> \<not> json_ws c \<and> c \<notin> {CHR '','', CHR '']'', CHR ''}''}"

lemma json_text_start: "\<exists>c cs. json_text v = c # cs \<and> value_start c"
proof (cases v)
  case (JNum r)
  have nat: "\<exists>c cs. show_nat n @ s = c # cs \<and> value_start c" for n s
  proof -
    obtain c cs where c: "show_nat n = c # cs" by (cases "show_nat n") auto
    then have "is_digit c" using show_nat_digits [of c n] by simp
    with c show ?thesis by (auto simp: value_start_def json_ws_def is_digit_def)
  qed
  have minus: "value_start (CHR ''-'')" by (simp add: value_start_def json_ws_def)
  show ?thesis
    using JNum nat [of _ "[]"] nat minus by (auto simp: show_num_def show_int_def)
qed (auto simp: value_start_def json_ws_def quote_str_def)

lemma skip_ws_start: "value_start c \<Longrightarrow> skip_ws (c # cs) = c # cs"
  by (simp add: skip_ws_def value_start_def)

lemma skip_ws_json_text [simp]: "skip_ws (json_text v @ r) = json_text v @ r"
proof -
  obtain c cs where "json_text v = c # cs" "value_start c" using json_text_start [of v] by blast
  then show ?thesis by (simp add: skip_ws_start)
qed

lemma skip_ws_quote [simp]: "skip_ws (quote_str k @ r) = quote_str k @ r"
  by (simp add: skip_ws_def quote_str_def json_ws_def)

lemma skip_ws_sep [simp]:
  "skip_ws (CHR '','' # r) = CHR '','' # r" "skip_ws (CHR '']'' # r) = CHR '']'' # r"
  "skip_ws (CHR ''}'' # r) = CHR ''}'' # r" "skip_ws (CHR '':'' # r) = CHR '':'' # r" "skip_ws [] = []"
  by (simp_all add: skip_ws_def json_ws_def)

text \<open>What \<open>parse_value\<close> does on a number: no literal starts like one.\<close>

lemma parse_value_number:
  assumes "is_digit c \<or> c = CHR ''-''"
  shows "parse_value (Suc n) (c # cs) = parse_num (c # cs)"
proof -
  have "c \<noteq> quote_char" "c \<noteq> CHR ''[''" "c \<noteq> CHR ''{''" "c \<noteq> CHR ''n''" "c \<noteq> CHR ''t''" "c \<noteq> CHR ''f''"
    using assms by (auto simp: is_digit_def)
  then show ?thesis by simp
qed

definition parses_back :: "json \<Rightarrow> bool" where
  "parses_back v \<longleftrightarrow> (\<forall>r n. delimited r \<longrightarrow> 2 * length (json_text v) + 1 \<le> n \<longrightarrow>
     parse_value n (json_text v @ r) = Some (v, r))"

lemma parses_backD:
  "parses_back v \<Longrightarrow> delimited r \<Longrightarrow> 2 * length (json_text v) + 1 \<le> n \<Longrightarrow>
     parse_value n (json_text v @ r) = Some (v, r)"
  by (simp add: parses_back_def)

lemma delimited_simps [simp]:
  "delimited []" "delimited (CHR '','' # r)" "delimited (CHR '']'' # r)" "delimited (CHR ''}'' # r)"
  by (simp_all add: delimited_def)

lemma parses_back_num: "of_int \<lfloor>q\<rfloor> = q \<Longrightarrow> parses_back (JNum q)"
  unfolding parses_back_def
proof (intro allI impI)
  fix r n assume q: "of_int \<lfloor>q\<rfloor> = q" and r: "delimited r" and "2 * length (json_text (JNum q)) + 1 \<le> n"
  then obtain m where n: "n = Suc m" by (cases n) auto
  have "show_int i \<noteq> []" for i by (simp add: show_int_def)
  then obtain c cs where c: "show_int \<lfloor>q\<rfloor> = c # cs" by (meson neq_Nil_conv)
  then have "is_digit c \<or> c = CHR ''-''"
    using show_nat_digits [of c "nat \<lfloor>q\<rfloor>"] by (auto simp: show_int_def split: if_splits)
  then have "parse_value n (show_int \<lfloor>q\<rfloor> @ r) = parse_num (show_int \<lfloor>q\<rfloor> @ r)"
    using c n parse_value_number by simp
  with q r show "parse_value n (json_text (JNum q) @ r) = Some (JNum q, r)"
    by (simp add: show_num_def parse_num_show_int)
qed

lemma parses_back_literal: "v \<in> {JNull, JBool b} \<Longrightarrow> parses_back v"
  unfolding parses_back_def
proof (intro allI impI)
  fix r n assume "v \<in> {JNull, JBool b}" "delimited r" "2 * length (json_text v) + 1 \<le> n"
  moreover from this(3) obtain m where "n = Suc m" by (cases n) auto
  ultimately show "parse_value n (json_text v @ r) = Some (v, r)" by (cases b) auto
qed

lemma parses_back_str: "parses_back (JStr s)"
  unfolding parses_back_def
proof (intro allI impI)
  fix r n assume "2 * length (json_text (JStr s)) + 1 \<le> n"
  then obtain m where "n = Suc m" by (cases n) auto
  then show "parse_value n (json_text (JStr s) @ r) = Some (JStr s, r)"
    by (simp add: quote_str_def parse_chars_quoted)
qed

lemma parse_elems_back:
  "xs \<noteq> [] \<Longrightarrow> \<forall>x \<in> set xs. parses_back x \<Longrightarrow>
   2 * length (join_str '','' (map json_text xs)) + 2 \<le> n \<Longrightarrow>
   parse_elems n (join_str '','' (map json_text xs) @ CHR '']'' # r) = Some (xs, r)"
proof (induction xs arbitrary: n)
  case Nil
  then show ?case by simp
next
  case (Cons x xs)
  then obtain m where n: "n = Suc m" by (cases n) auto
  show ?case
  proof (cases xs)
    case Nil
    with Cons.prems n have "parse_value m (json_text x @ CHR '']'' # r) = Some (x, CHR '']'' # r)"
      by (intro parses_backD) auto
    with Nil n show ?thesis by (simp del: parse_value.simps)
  next
    case (Cons y ys)
    let ?rest = "join_str '','' (map json_text xs) @ CHR '']'' # r"
    have v: "parse_value m (json_text x @ CHR '','' # ?rest) = Some (x, CHR '','' # ?rest)"
      using Cons Cons.prems n by (intro parses_backD) auto
    have "parse_elems m ?rest = Some (xs, r)"
      using Cons Cons.prems n by (intro Cons.IH) auto
    moreover have "skip_ws ?rest = ?rest"
      using Cons by (cases ys) auto
    ultimately show ?thesis
      using v Cons n by (simp del: parse_value.simps)
  qed
qed

definition show_field :: "string \<times> json \<Rightarrow> string" where
  "show_field f = quote_str (fst f) @ '':'' @ json_text (snd f)"

lemma parse_fields_back:
  "fs \<noteq> [] \<Longrightarrow> \<forall>f \<in> set fs. parses_back (snd f) \<Longrightarrow> distinct (map fst (acc @ fs)) \<Longrightarrow>
   2 * length (join_str '','' (map show_field fs)) + 2 \<le> n \<Longrightarrow>
   parse_fields n acc (join_str '','' (map show_field fs) @ CHR ''}'' # r) = Some (acc @ fs, r)"
proof (induction fs arbitrary: n acc)
  case Nil
  then show ?case by simp
next
  case (Cons f fs)
  then obtain m where n: "n = Suc m" by (cases n) auto
  obtain k v where f: "f = (k, v)" by fastforce
  have acc: "om_set k v acc = acc @ [(k, v)]"
    using Cons.prems(3) f by (intro om_set_fresh) (auto simp: map_of_eq_None_iff)
  have key: "parse_fields (Suc m) acc (quote_str k @ CHR '':'' # json_text v @ t) =
      (case skip_ws t of [] \<Rightarrow> None
       | e # r3 \<Rightarrow> if e = CHR ''}'' then Some (acc @ [(k, v)], r3)
           else if e = CHR '','' then parse_fields m (acc @ [(k, v)]) (skip_ws r3) else None)"
    if "delimited t" "2 * length (json_text v) + 1 \<le> m" for t
  proof -
    have "parse_value m (json_text v @ t) = Some (v, t)"
      using Cons.prems(2) f that by (intro parses_backD) auto
    then show ?thesis
      unfolding acc [symmetric]
      by (simp add: quote_str_def parse_chars_quoted del: parse_value.simps)
  qed
  show ?case
  proof (cases fs)
    case Nil
    with Cons.prems(4) f n have "2 * length (json_text v) + 1 \<le> m" by (simp add: show_field_def)
    with key [of "CHR ''}'' # r"] Nil f n show ?thesis by (simp add: show_field_def)
  next
    case (Cons g gs)
    let ?rest = "join_str '','' (map show_field fs) @ CHR ''}'' # r"
    have len: "2 * length (json_text v) + 1 \<le> m" "2 * length (join_str '','' (map show_field fs)) + 2 \<le> m"
      using Cons Cons.prems(4) f n show_field_def [of f] by auto
    have "parse_fields m (acc @ [(k, v)]) ?rest = Some ((acc @ [(k, v)]) @ fs, r)"
      using Cons Cons.prems f len(2) by (intro Cons.IH) auto
    moreover have "skip_ws ?rest = ?rest"
      using Cons by (cases gs) (simp_all add: show_field_def)
    ultimately show ?thesis
      using key [of "CHR '','' # ?rest"] Cons f n len(1) show_field_def [of f]
      by (simp del: parse_fields.simps)
  qed
qed

theorem parses_back: "storable v \<Longrightarrow> parses_back v"
proof (induction v)
  case (JArr xs)
  show ?case unfolding parses_back_def
  proof (intro allI impI)
    fix r n assume n: "2 * length (json_text (JArr xs)) + 1 \<le> n"
    then obtain m where m: "n = Suc m" by (cases n) auto
    show "parse_value n (json_text (JArr xs) @ r) = Some (JArr xs, r)"
    proof (cases xs)
      case Nil
      with m show ?thesis by simp
    next
      case (Cons y ys)
      have "parse_elems m (join_str '','' (map json_text xs) @ CHR '']'' # r) = Some (xs, r)"
        using JArr Cons n m by (intro parse_elems_back) auto
      moreover have "skip_ws (join_str '','' (map json_text xs) @ CHR '']'' # r) =
          join_str '','' (map json_text xs) @ CHR '']'' # r"
        using Cons by (cases ys) simp_all
      moreover obtain c cs where "json_text y = c # cs" "value_start c"
        using json_text_start by blast
      then have "\<not> starts_with '']'' (join_str '','' (map json_text xs) @ CHR '']'' # r)"
        using Cons by (cases ys) (auto simp: value_start_def)
      ultimately show ?thesis using m by simp
    qed
  qed
next
  case (JObj fs)
  have live: "live_fields fs = fs" using JObj.prems by (rule live_fields_storable)
  have sf: "show_field = (\<lambda>f. quote_str (fst f) @ CHR '':'' # json_text (snd f))"
    by (simp add: show_field_def fun_eq_iff)
  show ?case unfolding parses_back_def
  proof (intro allI impI)
    fix r n assume n: "2 * length (json_text (JObj fs)) + 1 \<le> n"
    then obtain m where m: "n = Suc m" by (cases n) auto
    let ?t = "join_str '','' (map show_field fs) @ CHR ''}'' # r"
    have jt: "json_text (JObj fs) @ r = CHR ''{'' # ?t"
      by (simp add: live sf)
    show "parse_value n (json_text (JObj fs) @ r) = Some (JObj fs, r)"
    proof (cases fs)
      case Nil
      with m jt show ?thesis by simp
    next
      case (Cons g gs)
      have "2 * length (join_str '','' (map show_field fs)) + 2 \<le> m"
        using n m live by (simp add: sf)
      moreover have "\<forall>f \<in> set fs. parses_back (snd f)"
        using JObj by (metis snds.intros storable.simps(4) surjective_pairing)
      ultimately have "parse_fields m [] ?t = Some ([] @ fs, r)"
        using JObj.prems Cons by (intro parse_fields_back) auto
      moreover have "skip_ws ?t = ?t" "\<not> starts_with ''}'' ?t"
        using Cons by (cases gs; simp add: show_field_def; simp add: quote_str_def)+
      ultimately show ?thesis unfolding jt using m by simp
    qed
  qed
qed (simp_all add: parses_back_num parses_back_str parses_back_literal)

lemma json_parse_text: "storable v \<Longrightarrow> json_parse (json_text v) = Some v"
proof -
  assume "storable v"
  then have "parse_value (2 * length (json_text v) + 1) (json_text v @ []) = Some (v, [])"
    by (intro parses_backD parses_back) auto
  moreover have "skip_ws (json_text v) = json_text v"
    using skip_ws_json_text [of v "[]"] by simp
  ultimately show ?thesis by (simp add: json_parse_def del: parse_value.simps)
qed

end
