(* ===== verification/ChatSession.thy ===== *)
theory ChatSession
  imports Navigation Json_Laws
begin

text \<open>
  \<open>packages/workbench/src/services/chat-events.ts\<close> and \<open>services/chat-session.ts\<close>: the
  events of a conversation, and the service that keeps for each session the composition (with
  its persisted copy), the events and the active turn.

  Attachments are kept as the dynamic values they are; text that the code may leave
  \<open>undefined\<close> is an option.  The storage is a map of strings and does not throw.
\<close>

section \<open>Events of a conversation\<close>

datatype chat_role = AgentRole | UserRole

datatype approval_state = Approved | Denied | Pending

datatype notice_level = NoticeError | NoticeInfo | NoticeWarning

datatype chat_event =
    MessageEv (ev_id: "string option") (ev_role: chat_role) (ev_text: string)
  | ToolEv (ev_call: string) (ev_title: string) (ev_summary: "string option")
      (ev_detail: "string option") (ev_state: string)
  | ApprovalEv (ev_action: string) (ev_call: string) (ev_title: string) (ev_summary: "string option")
      (ev_detail: "string option") (ev_approval: approval_state)
  | NoticeEv notice_level string
  | ErrorEv "string option"

section \<open>Compositions\<close>

datatype approval_mode = AllowMode | AskMode | AutopilotMode

datatype chat_mode = AgentChat | AskChat | PlanChat

record composition =
  cc_agent :: string
  cc_mode :: "chat_mode option"
  cc_approval :: approval_mode
  cc_attachments :: "json list"
  cc_draft :: string
  cc_model :: string
  cc_effort :: string

text \<open>\<open>Partial<ChatComposition>\<close>: the properties present; \<open>mode\<close> may be present and undefined.\<close>

record composition_changes =
  ch_agent :: "string option"
  ch_mode :: "chat_mode option option"
  ch_approval :: "approval_mode option"
  ch_attachments :: "json list option"
  ch_draft :: "string option"
  ch_model :: "string option"
  ch_effort :: "string option"

definition no_changes :: composition_changes where
  "no_changes = \<lparr>ch_agent = None, ch_mode = None, ch_approval = None, ch_attachments = None,
     ch_draft = None, ch_model = None, ch_effort = None\<rparr>"

definition empty_composition :: composition where
  "empty_composition = \<lparr>cc_agent = [], cc_mode = Some AgentChat, cc_approval = AskMode, cc_attachments = [],
     cc_draft = [], cc_model = [], cc_effort = []\<rparr>"

definition or_else :: "'a option \<Rightarrow> 'a \<Rightarrow> 'a" where
  "or_else x d = (case x of Some v \<Rightarrow> v | None \<Rightarrow> d)"

definition spread :: "composition \<Rightarrow> composition_changes \<Rightarrow> composition" where
  "spread c ch =
     \<lparr>cc_agent = or_else (ch_agent ch) (cc_agent c), cc_mode = or_else (ch_mode ch) (cc_mode c),
      cc_approval = or_else (ch_approval ch) (cc_approval c),
      cc_attachments = or_else (ch_attachments ch) (cc_attachments c),
      cc_draft = or_else (ch_draft ch) (cc_draft c), cc_model = or_else (ch_model ch) (cc_model c),
      cc_effort = or_else (ch_effort ch) (cc_effort c)\<rparr>"

definition is_chat_attachment :: "json \<Rightarrow> bool" where
  "is_chat_attachment v \<longleftrightarrow>
     (case v of JArr _ \<Rightarrow> True | JObj _ \<Rightarrow> True | _ \<Rightarrow> False) \<and>
     field v ''type'' = JStr ''embeddedResource'' \<and>
     is_str (field v ''label'') \<and> is_str (field v ''data'') \<and> is_str (field v ''contentType'') \<and>
     (field v ''displayKind'' = JStr ''document'' \<or> field v ''displayKind'' = JStr ''image'')"

definition str_or_empty :: "json \<Rightarrow> string" where
  "str_or_empty v = (case v of JStr s \<Rightarrow> s | _ \<Rightarrow> [])"

fun approval_text :: "approval_mode \<Rightarrow> string" where
  "approval_text AllowMode = ''allow''"
| "approval_text AskMode = ''ask''"
| "approval_text AutopilotMode = ''autopilot''"

fun mode_text :: "chat_mode \<Rightarrow> string" where
  "mode_text AgentChat = ''agent''"
| "mode_text AskChat = ''ask''"
| "mode_text PlanChat = ''plan''"

definition restored_approval :: "json \<Rightarrow> approval_mode" where
  "restored_approval v =
     (if v = JStr ''allow'' then AllowMode else if v = JStr ''autopilot'' then AutopilotMode else AskMode)"

definition restored_mode :: "json \<Rightarrow> chat_mode" where
  "restored_mode v = (if v = JStr ''ask'' then AskChat else if v = JStr ''plan'' then PlanChat else AgentChat)"

text \<open>
  \<open>restore\<close> on the stored text: nothing stored, text that does not parse and \<open>null\<close>
  (whose properties cannot be read) all give the empty composition.
\<close>

definition restore_text :: "string option \<Rightarrow> composition" where
  "restore_text stored =
     (case stored of
        None \<Rightarrow> empty_composition
      | Some t \<Rightarrow>
          if t = [] then empty_composition
          else (case json_parse t of
            None \<Rightarrow> empty_composition
          | Some JNull \<Rightarrow> empty_composition
          | Some v \<Rightarrow>
              \<lparr>cc_agent = str_or_empty (field v ''agent''),
               cc_mode = Some (restored_mode (field v ''mode'')),
               cc_approval = restored_approval (field v ''approvalMode''),
               cc_attachments = filter is_chat_attachment (arr_items (field v ''attachments'')),
               cc_draft = str_or_empty (field v ''draft''),
               cc_model = str_or_empty (field v ''model''),
               cc_effort = str_or_empty (field v ''reasoningEffort'')\<rparr>))"

definition persisted_json :: "composition \<Rightarrow> json" where
  "persisted_json c = JObj
     [(''agent'', JStr (cc_agent c)), (''approvalMode'', JStr (approval_text (cc_approval c))),
      (''attachments'', JArr (cc_attachments c)), (''draft'', JStr (cc_draft c)),
      (''model'', JStr (cc_model c)),
      (''mode'', JStr (mode_text (case cc_mode c of None \<Rightarrow> AgentChat | Some m \<Rightarrow> m)))]"

section \<open>The service\<close>

record chat_sessions =
  cs_compositions :: "(string, composition) omap"
  cs_turns :: "(string, string) omap"
  cs_messages :: "(string, chat_event list) omap"
  cs_persistence :: "(string, string) omap option"
  cs_active :: "session_identity option"
  cs_turn_context :: bool
  cs_approval_context :: bool
  cs_fired :: "session_identity list"

definition new_chat_sessions :: "(string, string) omap option \<Rightarrow> chat_sessions" where
  "new_chat_sessions st = \<lparr>cs_compositions = [], cs_turns = [], cs_messages = [], cs_persistence = st,
     cs_active = None, cs_turn_context = False, cs_approval_context = False, cs_fired = []\<rparr>"

definition storage_key :: "string \<Rightarrow> string" where
  "storage_key key = ''zaw.chat.'' @ key"

definition cs_restore :: "string \<Rightarrow> chat_sessions \<Rightarrow> composition" where
  "cs_restore key s =
     restore_text (case cs_persistence s of None \<Rightarrow> None | Some m \<Rightarrow> om_get m (storage_key key))"

definition cs_persist :: "string \<Rightarrow> composition \<Rightarrow> chat_sessions \<Rightarrow> chat_sessions" where
  "cs_persist key c s =
     s\<lparr>cs_persistence := map_option (om_set (storage_key key) (json_text (persisted_json c))) (cs_persistence s)\<rparr>"

definition cs_composition :: "session_identity \<Rightarrow> chat_sessions \<Rightarrow> chat_sessions \<times> composition" where
  "cs_composition i s =
     (let key = session_identity_key i in
      case om_get (cs_compositions s) key of
        Some c \<Rightarrow> (s, c)
      | None \<Rightarrow> let c = cs_restore key s in (s\<lparr>cs_compositions := om_set key c (cs_compositions s)\<rparr>, c))"

definition cs_events :: "session_identity \<Rightarrow> chat_sessions \<Rightarrow> chat_event list" where
  "cs_events i s = (case om_get (cs_messages s) (session_identity_key i) of None \<Rightarrow> [] | Some es \<Rightarrow> es)"

definition cs_active_turn :: "session_identity \<Rightarrow> chat_sessions \<Rightarrow> string option" where
  "cs_active_turn i s = om_get (cs_turns s) (session_identity_key i)"

definition is_pending :: "chat_event \<Rightarrow> bool" where
  "is_pending e \<longleftrightarrow> (case e of ApprovalEv _ _ _ _ _ st \<Rightarrow> st = Pending | _ \<Rightarrow> False)"

definition sync_context :: "session_identity option \<Rightarrow> chat_sessions \<Rightarrow> chat_sessions" where
  "sync_context changed s =
     (case cs_active s of
        None \<Rightarrow> s
      | Some cur \<Rightarrow>
          if (case changed of None \<Rightarrow> False | Some i \<Rightarrow> session_identity_key i \<noteq> session_identity_key cur) then s
          else s\<lparr>cs_turn_context := (case cs_active_turn cur s of None \<Rightarrow> False | Some t \<Rightarrow> t \<noteq> []),
                 cs_approval_context := (\<exists>e \<in> set (cs_events cur s). is_pending e)\<rparr>)"

definition cs_fire :: "session_identity \<Rightarrow> chat_sessions \<Rightarrow> chat_sessions" where
  "cs_fire i s = sync_context (Some i) (s\<lparr>cs_fired := cs_fired s @ [i]\<rparr>)"

definition cs_update ::
  "session_identity \<Rightarrow> composition_changes \<Rightarrow> chat_sessions \<Rightarrow> chat_sessions \<times> composition" where
  "cs_update i ch s =
     (let key = session_identity_key i in
      case cs_composition i s of (s1, c) \<Rightarrow>
        let n = spread c ch in
        (cs_fire i (cs_persist key n (s1\<lparr>cs_compositions := om_set key n (cs_compositions s1)\<rparr>)), n))"

definition cs_clear_after_send :: "session_identity \<Rightarrow> chat_sessions \<Rightarrow> chat_sessions" where
  "cs_clear_after_send i s = fst (cs_update i (no_changes\<lparr>ch_attachments := Some [], ch_draft := Some []\<rparr>) s)"

definition cs_set_active_turn :: "session_identity \<Rightarrow> string option \<Rightarrow> chat_sessions \<Rightarrow> chat_sessions" where
  "cs_set_active_turn i turn s =
     (let key = session_identity_key i in
      cs_fire i (s\<lparr>cs_turns := (case turn of
          Some t \<Rightarrow> if t \<noteq> [] then om_set key t (cs_turns s) else om_del key (cs_turns s)
        | None \<Rightarrow> om_del key (cs_turns s))\<rparr>))"

definition set_events :: "session_identity \<Rightarrow> chat_event list \<Rightarrow> chat_sessions \<Rightarrow> chat_sessions" where
  "set_events i es s = cs_fire i (s\<lparr>cs_messages := om_set (session_identity_key i) es (cs_messages s)\<rparr>)"

definition replace_first :: "('a \<Rightarrow> bool) \<Rightarrow> 'a \<Rightarrow> 'a list \<Rightarrow> 'a list" where
  "replace_first P x xs = (case find_index P xs of None \<Rightarrow> xs @ [x] | Some k \<Rightarrow> xs[k := x])"

definition message_with_id :: "string \<Rightarrow> chat_event \<Rightarrow> bool" where
  "message_with_id n e \<longleftrightarrow> (case e of MessageEv m _ _ \<Rightarrow> m = Some n | _ \<Rightarrow> False)"

definition cs_append_event :: "session_identity \<Rightarrow> chat_event \<Rightarrow> chat_sessions \<Rightarrow> chat_sessions" where
  "cs_append_event i e s =
     set_events i
       (case (case e of MessageEv n _ _ \<Rightarrow> n | _ \<Rightarrow> None) of
          Some n \<Rightarrow> if n \<noteq> [] then replace_first (message_with_id n) e (cs_events i s) else cs_events i s @ [e]
        | None \<Rightarrow> cs_events i s @ [e]) s"

definition agent_message :: "string \<Rightarrow> chat_event \<Rightarrow> bool" where
  "agent_message n e \<longleftrightarrow> (case e of MessageEv m r _ \<Rightarrow> r = AgentRole \<and> m = Some n | _ \<Rightarrow> False)"

definition cs_append_message_delta :: "session_identity \<Rightarrow> string \<Rightarrow> string \<Rightarrow> chat_sessions \<Rightarrow> chat_sessions" where
  "cs_append_message_delta i part content s =
     (let es = cs_events i s in
      set_events i
        (case find_index (agent_message part) es of
           None \<Rightarrow> es @ [MessageEv (Some part) AgentRole content]
         | Some k \<Rightarrow> es[k := (case es ! k of MessageEv n r t \<Rightarrow> MessageEv n r (t @ content) | e \<Rightarrow> e)]) s)"

definition cs_replace_events :: "session_identity \<Rightarrow> chat_event list \<Rightarrow> chat_sessions \<Rightarrow> chat_sessions" where
  "cs_replace_events i es s = set_events i es s"

text \<open>The listener on the active session.\<close>

definition cs_active_changed :: "session_identity option \<Rightarrow> chat_sessions \<Rightarrow> chat_sessions" where
  "cs_active_changed cur s = sync_context None (s\<lparr>cs_active := cur\<rparr>)"

section \<open>Frame facts\<close>

lemma sync_context_frame [simp]:
  "cs_compositions (sync_context ch s) = cs_compositions s" "cs_turns (sync_context ch s) = cs_turns s"
  "cs_messages (sync_context ch s) = cs_messages s" "cs_persistence (sync_context ch s) = cs_persistence s"
  "cs_active (sync_context ch s) = cs_active s" "cs_fired (sync_context ch s) = cs_fired s"
  by (simp_all add: sync_context_def split: option.split)

lemma cs_fire_frame [simp]:
  "cs_compositions (cs_fire i s) = cs_compositions s" "cs_turns (cs_fire i s) = cs_turns s"
  "cs_messages (cs_fire i s) = cs_messages s" "cs_persistence (cs_fire i s) = cs_persistence s"
  "cs_active (cs_fire i s) = cs_active s" "cs_fired (cs_fire i s) = cs_fired s @ [i]"
  by (simp_all add: cs_fire_def)

lemma cs_events_messages: "cs_messages s' = cs_messages s \<Longrightarrow> cs_events i s' = cs_events i s"
  by (simp add: cs_events_def)

lemma cs_events_fire [simp]: "cs_events i (cs_fire j s) = cs_events i s"
  by (simp add: cs_events_def)

lemma cs_events_set_events [simp]: "cs_events j (set_events i es s) = (if j = i then es else cs_events j s)"
  by (simp add: set_events_def cs_events_def)

lemma cs_active_turn_set_events [simp]: "cs_active_turn j (set_events i es s) = cs_active_turn j s"
  by (simp add: set_events_def cs_active_turn_def)

lemma set_events_frame [simp]:
  "cs_active (set_events i es s) = cs_active s" "cs_compositions (set_events i es s) = cs_compositions s"
  "cs_persistence (set_events i es s) = cs_persistence s" "cs_turns (set_events i es s) = cs_turns s"
  by (simp_all add: set_events_def)

section \<open>The context keys follow the active session\<close>

definition context_ok :: "chat_sessions \<Rightarrow> bool" where
  "context_ok s \<longleftrightarrow> (\<forall>cur. cs_active s = Some cur \<longrightarrow>
     cs_turn_context s = (case cs_active_turn cur s of None \<Rightarrow> False | Some t \<Rightarrow> t \<noteq> []) \<and>
     cs_approval_context s = (\<exists>e \<in> set (cs_events cur s). is_pending e))"

text \<open>What a change of one session leaves alone: the turns and events of every other.\<close>

definition only_touches :: "session_identity \<Rightarrow> chat_sessions \<Rightarrow> chat_sessions \<Rightarrow> bool" where
  "only_touches i s s' \<longleftrightarrow> cs_active s' = cs_active s \<and> cs_turn_context s' = cs_turn_context s \<and>
     cs_approval_context s' = cs_approval_context s \<and>
     (\<forall>j. j \<noteq> i \<longrightarrow> cs_active_turn j s' = cs_active_turn j s \<and> cs_events j s' = cs_events j s)"

lemma context_ok_fire: "context_ok s \<Longrightarrow> only_touches i s s' \<Longrightarrow> context_ok (cs_fire i s')"
proof -
  assume c: "context_ok s" and o: "only_touches i s s'"
  show ?thesis
  proof (cases "cs_active s' = Some i")
    case True
    then show ?thesis
      by (auto simp: context_ok_def cs_fire_def sync_context_def cs_active_turn_def cs_events_def)
  next
    case False
    then have "context_ok s'" using c o by (auto simp: context_ok_def only_touches_def)
    then show ?thesis using False
      by (auto simp: context_ok_def cs_fire_def sync_context_def cs_active_turn_def cs_events_def
          split: option.split)
  qed
qed

datatype chat_op =
    ChComposition session_identity
  | ChUpdate session_identity composition_changes
  | ChClearAfterSend session_identity
  | ChSetTurn session_identity "string option"
  | ChAppend session_identity chat_event
  | ChDelta session_identity string string
  | ChReplace session_identity "chat_event list"
  | ChActive "session_identity option"

fun apply_chat :: "chat_op \<Rightarrow> chat_sessions \<Rightarrow> chat_sessions" where
  "apply_chat (ChComposition i) s = fst (cs_composition i s)"
| "apply_chat (ChUpdate i ch) s = fst (cs_update i ch s)"
| "apply_chat (ChClearAfterSend i) s = cs_clear_after_send i s"
| "apply_chat (ChSetTurn i t) s = cs_set_active_turn i t s"
| "apply_chat (ChAppend i e) s = cs_append_event i e s"
| "apply_chat (ChDelta i p c) s = cs_append_message_delta i p c s"
| "apply_chat (ChReplace i es) s = cs_replace_events i es s"
| "apply_chat (ChActive cur) s = cs_active_changed cur s"

lemma context_ok_set_events: "context_ok s \<Longrightarrow> context_ok (set_events i es s)"
  unfolding set_events_def
  by (erule context_ok_fire) (simp add: only_touches_def cs_active_turn_def cs_events_def)

lemma composition_frame [simp]:
  "cs_active (fst (cs_composition i s)) = cs_active s" "cs_turns (fst (cs_composition i s)) = cs_turns s"
  "cs_messages (fst (cs_composition i s)) = cs_messages s"
  "cs_turn_context (fst (cs_composition i s)) = cs_turn_context s"
  "cs_approval_context (fst (cs_composition i s)) = cs_approval_context s"
  "cs_persistence (fst (cs_composition i s)) = cs_persistence s"
  by (simp_all add: cs_composition_def Let_def split: option.split)

lemma context_ok_update: "context_ok s \<Longrightarrow> context_ok (fst (cs_update i ch s))"
  unfolding cs_update_def Let_def
  by (simp add: case_prod_unfold, erule context_ok_fire)
    (simp add: only_touches_def cs_active_turn_def cs_events_def cs_persist_def)

lemma context_ok_op: "context_ok s \<Longrightarrow> context_ok (apply_chat op s)"
proof (cases op)
  case (ChSetTurn i t)
  assume "context_ok s"
  then show ?thesis unfolding ChSetTurn apply_chat.simps cs_set_active_turn_def Let_def
    by (rule context_ok_fire) (auto simp: only_touches_def cs_active_turn_def cs_events_def split: option.split)
next
  case (ChComposition i)
  assume "context_ok s"
  then show ?thesis by (simp add: ChComposition context_ok_def cs_active_turn_def cs_events_def)
next
  case (ChActive cur)
  show ?thesis
    by (simp add: ChActive cs_active_changed_def context_ok_def sync_context_def cs_active_turn_def
        cs_events_def split: option.split)
qed (simp_all add: context_ok_update cs_clear_after_send_def cs_append_event_def
  cs_append_message_delta_def cs_replace_events_def context_ok_set_events Let_def)

text \<open>
  C23: whatever happens to the conversations and to the active session, the two context keys
  always describe the active session: a turn is running exactly when it has one, an approval is
  pending exactly when one of its events waits for it.
\<close>

theorem chat_context_keys_accurate:
  "let s = fold apply_chat ops (new_chat_sessions st) in
   case cs_active s of None \<Rightarrow> True | Some cur \<Rightarrow>
     cs_turn_context s = (case cs_active_turn cur s of None \<Rightarrow> False | Some t \<Rightarrow> t \<noteq> []) \<and>
     cs_approval_context s = (\<exists>e \<in> set (cs_events cur s). is_pending e)"
proof -
  have "context_ok (new_chat_sessions st)" by (simp add: context_ok_def new_chat_sessions_def)
  then have "context_ok (fold apply_chat ops (new_chat_sessions st))"
    by (intro fold_keeps [where P = context_ok]) (simp_all add: context_ok_op)
  then show ?thesis by (auto simp: context_ok_def Let_def split: option.split)
qed

section \<open>Streaming a message\<close>

lemma find_index_snoc_new: "find_index P xs = None \<Longrightarrow> P x \<Longrightarrow> find_index P (xs @ [x]) = Some (length xs)"
  by (induction xs) (auto split: if_splits)

lemma find_index_update_same:
  "find_index P xs = Some k \<Longrightarrow> P x \<Longrightarrow> find_index P (xs[k := x]) = Some k"
  by (induction xs arbitrary: k) (auto split: if_splits nat.splits)

lemma append_delta_twice:
  "cs_events i (cs_append_message_delta i p d2 (cs_append_message_delta i p d1 s))
     = cs_events i (cs_append_message_delta i p (d1 @ d2) s)"
proof (cases "find_index (agent_message p) (cs_events i s)")
  case None
  then have "find_index (agent_message p) (cs_events i s @ [MessageEv (Some p) AgentRole d1])
      = Some (length (cs_events i s))"
    by (intro find_index_snoc_new) (simp_all add: agent_message_def)
  with None show ?thesis
    by (simp add: cs_append_message_delta_def Let_def)
next
  case (Some k)
  note k = find_index_Some [OF Some]
  then obtain t where e: "cs_events i s ! k = MessageEv (Some p) AgentRole t"
    by (auto simp: agent_message_def split: chat_event.splits)
  have "find_index (agent_message p) ((cs_events i s)[k := MessageEv (Some p) AgentRole (t @ d1)]) = Some k"
    by (rule find_index_update_same [OF Some]) (simp add: agent_message_def)
  with Some e k show ?thesis
    by (simp add: cs_append_message_delta_def Let_def)
qed

lemma delta_cong:
  "cs_events i s1 = cs_events i s2 \<Longrightarrow>
   cs_events i (cs_append_message_delta i p x s1) = cs_events i (cs_append_message_delta i p x s2)"
  by (simp add: cs_append_message_delta_def Let_def)

lemma deltas_concat:
  "cs_events i (fold (cs_append_message_delta i p) ds (cs_append_message_delta i p d s)) =
   cs_events i (cs_append_message_delta i p (d @ concat ds) s)"
proof (induction ds rule: rev_induct)
  case (snoc x ds)
  have "cs_events i (cs_append_message_delta i p x (fold (cs_append_message_delta i p) ds (cs_append_message_delta i p d s)))
      = cs_events i (cs_append_message_delta i p x (cs_append_message_delta i p (d @ concat ds) s))"
    by (rule delta_cong [OF snoc])
  then show ?case by (simp add: append_delta_twice)
qed simp

lemma deltas_other: "j \<noteq> i \<Longrightarrow> cs_events j (fold (cs_append_message_delta i p) ds s) = cs_events j s"
  by (induction ds arbitrary: s) (simp_all add: cs_append_message_delta_def Let_def)

text \<open>
  The pieces of a streamed message, delivered one by one, leave the conversation exactly as
  if their concatenation had arrived in one piece: one message, in the place of the first piece,
  every other event untouched; and the other conversations are not affected.
\<close>

theorem streamed_message_is_concatenation:
  "cs_events j (fold (cs_append_message_delta i p) ds (cs_append_message_delta i p d s)) =
     (if j = i then cs_events i (cs_append_message_delta i p (d @ concat ds) s) else cs_events j s)"
proof (cases "j = i")
  case False
  have "cs_events j (cs_append_message_delta i p d s) = cs_events j s"
    using deltas_other [OF False, of p "[d]" s] by simp
  with False show ?thesis by (simp add: deltas_other)
qed (simp add: deltas_concat)

section \<open>Persistence\<close>

lemma restore_persisted:
  assumes "\<forall>a \<in> set (cc_attachments c). storable a \<and> is_chat_attachment a"
  shows "restore_text (Some (json_text (persisted_json c))) =
    c\<lparr>cc_mode := Some (case cc_mode c of None \<Rightarrow> AgentChat | Some m \<Rightarrow> m), cc_effort := []\<rparr>"
proof -
  have "storable (persisted_json c)" using assms by (simp add: persisted_json_def)
  then have p: "json_parse (json_text (persisted_json c)) = Some (persisted_json c)" by (rule json_parse_text)
  have n: "json_text (persisted_json c) \<noteq> []" by (simp add: persisted_json_def)
  have f: "filter is_chat_attachment (cc_attachments c) = cc_attachments c" using assms by (simp add: filter_id_conv)
  have m: "restored_mode (JStr (mode_text m)) = m" for m by (cases m) (simp_all add: restored_mode_def)
  have a: "restored_approval (JStr (approval_text a)) = a" for a by (cases a) (simp_all add: restored_approval_def)
  show ?thesis
    using p n f m a by (simp add: restore_text_def persisted_json_def str_or_empty_def)
qed

text \<open>
  What a session's composition is after an update is what a new service on the same storage
  restores, property by property, with one exception: the reasoning effort is not stored and
  comes back empty.
\<close>

theorem composition_survives_restart_without_effort:
  assumes u: "cs_update i ch s = (s', c)" and st: "cs_persistence s \<noteq> None"
    and att: "\<forall>a \<in> set (cc_attachments c). storable a \<and> is_chat_attachment a"
  shows "snd (cs_composition i (new_chat_sessions (cs_persistence s'))) =
    c\<lparr>cc_mode := Some (case cc_mode c of None \<Rightarrow> AgentChat | Some m \<Rightarrow> m), cc_effort := []\<rparr>"
proof -
  obtain m where m: "cs_persistence s = Some m" using st by blast
  have "om_get (the (cs_persistence s')) (storage_key (session_identity_key i)) = Some (json_text (persisted_json c))
      \<and> cs_persistence s' \<noteq> None"
    using u m by (auto simp: cs_update_def Let_def case_prod_unfold cs_persist_def)
  then obtain m' where "cs_persistence s' = Some m'"
    "om_get m' (storage_key (session_identity_key i)) = Some (json_text (persisted_json c))" by auto
  then show ?thesis
    using restore_persisted [OF att]
    by (simp add: cs_composition_def Let_def new_chat_sessions_def cs_restore_def)
qed

theorem composition_survives_restart_without_effort_witness:
  "let i = \<lparr>si_workspace = ''w'', si_resource = ''r''\<rparr>;
       ch = no_changes\<lparr>ch_draft := Some ''say hi'', ch_effort := Some ''high'', ch_mode := Some (Some PlanChat)\<rparr>;
       r = cs_update i ch (new_chat_sessions (Some []))
   in cc_effort (snd r) = ''high''
    \<and> snd (cs_composition i (new_chat_sessions (cs_persistence (fst r)))) = (snd r)\<lparr>cc_effort := []\<rparr>"
proof -
  let ?i = "\<lparr>si_workspace = ''w'', si_resource = ''r''\<rparr>"
  let ?ch = "no_changes\<lparr>ch_draft := Some ''say hi'', ch_effort := Some ''high'', ch_mode := Some (Some PlanChat)\<rparr>"
  obtain s' c where u: "cs_update ?i ?ch (new_chat_sessions (Some [])) = (s', c)" by fastforce
  have c: "c = empty_composition\<lparr>cc_draft := ''say hi'', cc_effort := ''high'', cc_mode := Some PlanChat\<rparr>"
    using u by (simp add: cs_update_def cs_composition_def cs_restore_def new_chat_sessions_def restore_text_def
        Let_def spread_def no_changes_def or_else_def empty_composition_def)
  have "snd (cs_composition ?i (new_chat_sessions (cs_persistence s'))) = c\<lparr>cc_effort := []\<rparr>"
    using composition_survives_restart_without_effort [OF u]
    by (simp add: c empty_composition_def new_chat_sessions_def)
  then show ?thesis using u c by (simp add: Let_def)
qed

end
