(* ===== verification/Attachment.thy ===== *)
theory Attachment
  imports Interfaces Strings
begin

text \<open>
  \<open>packages/workbench/src/services/workspace-attachment.ts\<close>: the attachment of the
  workbench to one workspace's agent host.

  A host is its address; \<open>wa_closed\<close> collects the hosts \<open>close()\<close> was called on or that
  closed by themselves, \<open>wa_connected\<close> those \<open>connect\<close> produced.  \<open>attach\<close> is split
  at its \<open>await\<close>: a start draws a generation, the completion carries what \<open>connect\<close>
  settled with.  The callbacks a completed attachment installs on its host are subscriptions.
\<close>

section \<open>State and operations\<close>

record attachment_sub =
  sb_host :: nat
  sb_generation :: nat
  sb_workspace :: string

record 'a attachment =
  wa_current :: "(string \<times> nat) option"
  wa_generation :: nat
  wa_pending :: "nat list"
  wa_connected :: "nat list"
  wa_closed :: "nat list"
  wa_subs :: "attachment_sub list"
  wa_action_listeners :: "nat list"
  wa_close_listeners :: "nat list"
  wa_delivered :: "(nat \<times> string \<times> 'a) list"
  wa_close_delivered :: "(nat \<times> string) list"

definition new_attachment :: "'a attachment" where
  "new_attachment = \<lparr>wa_current = None, wa_generation = 0, wa_pending = [], wa_connected = [], wa_closed = [],
     wa_subs = [], wa_action_listeners = [], wa_close_listeners = [], wa_delivered = [], wa_close_delivered = []\<rparr>"

definition is_closed :: "nat \<Rightarrow> 'a attachment \<Rightarrow> bool" where
  "is_closed h s \<longleftrightarrow> h \<in> set (wa_closed s)"

definition close_host :: "nat \<Rightarrow> 'a attachment \<Rightarrow> 'a attachment" where
  "close_host h s = s\<lparr>wa_closed := wa_closed s @ [h]\<rparr>"

definition close_current :: "'a attachment \<Rightarrow> 'a attachment" where
  "close_current s =
     (case wa_current s of
        None \<Rightarrow> s
      | Some (ws, h) \<Rightarrow> close_host h (s\<lparr>wa_current := None\<rparr>))"

text \<open>The part of \<open>attach\<close> that draws a generation.\<close>

definition begin_attach :: "'a attachment \<Rightarrow> 'a attachment \<times> nat" where
  "begin_attach s =
     (let g = Suc (wa_generation s) in
      (close_current (s\<lparr>wa_generation := g, wa_pending := wa_pending s @ [g]\<rparr>), g))"

datatype attach_outcome = AlreadyAttached nat | Connecting nat

definition attach :: "string \<Rightarrow> 'a attachment \<Rightarrow> 'a attachment \<times> attach_outcome" where
  "attach ws s =
     (case (case wa_current s of
              Some (cur, h) \<Rightarrow> if cur = ws \<and> \<not> is_closed h s then Some h else None
            | None \<Rightarrow> None) of
        Some h \<Rightarrow> (s, AlreadyAttached h)
      | None \<Rightarrow> (case begin_attach s of (s', g) \<Rightarrow> (s', Connecting g)))"

datatype attach_result = AttachedHost nat | StaleAttachment | ConnectFailed string

text \<open>What follows the \<open>await\<close>, with the host or the rejection of \<open>connect\<close>.\<close>

definition connected ::
  "nat \<Rightarrow> string \<times> (string + nat) \<Rightarrow> 'a attachment \<Rightarrow> 'a attachment \<times> attach_result" where
  "connected g r s =
     (let s1 = s\<lparr>wa_pending := filter (\<lambda>p. p \<noteq> g) (wa_pending s)\<rparr> in
      case snd r of
        Inl e \<Rightarrow> (s1, ConnectFailed e)
      | Inr h \<Rightarrow>
          let s2 = s1\<lparr>wa_connected := wa_connected s1 @ [h]\<rparr> in
          if g \<noteq> wa_generation s2 then (close_host h s2, StaleAttachment)
          else (s2\<lparr>wa_current := Some (fst r, h),
                   wa_subs := wa_subs s2 @ [\<lparr>sb_host = h, sb_generation = g, sb_workspace = fst r\<rparr>]\<rparr>,
                AttachedHost h))"

definition is_current :: "nat \<Rightarrow> nat \<Rightarrow> 'a attachment \<Rightarrow> bool" where
  "is_current g h s \<longleftrightarrow> g = wa_generation s \<and> map_option snd (wa_current s) = Some h"

definition deliver_action :: "'a \<Rightarrow> attachment_sub \<Rightarrow> 'a attachment \<Rightarrow> 'a attachment" where
  "deliver_action a b s =
     (if is_current (sb_generation b) (sb_host b) s
      then s\<lparr>wa_delivered := wa_delivered s @ map (\<lambda>l. (l, sb_workspace b, a)) (wa_action_listeners s)\<rparr>
      else s)"

text \<open>A host emits an action: its subscriptions run.\<close>

definition host_action :: "nat \<Rightarrow> 'a \<Rightarrow> 'a attachment \<Rightarrow> 'a attachment" where
  "host_action h a s = fold (deliver_action a) (filter (\<lambda>b. sb_host b = h) (wa_subs s)) s"

definition deliver_close :: "attachment_sub \<Rightarrow> 'a attachment \<Rightarrow> 'a attachment" where
  "deliver_close b s =
     (if \<not> is_current (sb_generation b) (sb_host b) s then s
      else s\<lparr>wa_current := None,
             wa_close_delivered := wa_close_delivered s @ map (\<lambda>l. (l, sb_workspace b)) (wa_close_listeners s)\<rparr>)"

definition host_closed :: "nat \<Rightarrow> 'a attachment \<Rightarrow> 'a attachment" where
  "host_closed h s = fold deliver_close (filter (\<lambda>b. sb_host b = h) (wa_subs s)) (close_host h s)"

definition attached :: "string option \<Rightarrow> 'a attachment \<Rightarrow> nat option" where
  "attached ws s =
     (case wa_current s of
        None \<Rightarrow> None
      | Some (cur, h) \<Rightarrow>
          if is_closed h s then None
          else if (case ws of None \<Rightarrow> False | Some w \<Rightarrow> w \<noteq> [] \<and> cur \<noteq> w) then None else Some h)"

definition attached_workspace :: "'a attachment \<Rightarrow> string option" where
  "attached_workspace s = map_option fst (wa_current s)"

text \<open>
  What the clients of the service begin with: the attached workspace, if its id is not empty, and
  its host, if it is open.
\<close>

definition attached_pair :: "'a attachment \<Rightarrow> (string \<times> nat) option" where
  "attached_pair s =
     (case attached_workspace s of
        None \<Rightarrow> None
      | Some w \<Rightarrow> if w = [] then None else map_option (\<lambda>h. (w, h)) (attached (Some w) s))"

definition detach :: "'a attachment \<Rightarrow> 'a attachment" where
  "detach s = close_current (s\<lparr>wa_generation := Suc (wa_generation s)\<rparr>)"

definition on_action :: "nat \<Rightarrow> 'a attachment \<Rightarrow> 'a attachment" where
  "on_action l s = s\<lparr>wa_action_listeners := os_add l (wa_action_listeners s)\<rparr>"

definition off_action :: "nat \<Rightarrow> 'a attachment \<Rightarrow> 'a attachment" where
  "off_action l s = s\<lparr>wa_action_listeners := os_del l (wa_action_listeners s)\<rparr>"

definition on_close :: "nat \<Rightarrow> 'a attachment \<Rightarrow> 'a attachment" where
  "on_close l s = s\<lparr>wa_close_listeners := os_add l (wa_close_listeners s)\<rparr>"

definition off_close :: "nat \<Rightarrow> 'a attachment \<Rightarrow> 'a attachment" where
  "off_close l s = s\<lparr>wa_close_listeners := os_del l (wa_close_listeners s)\<rparr>"

datatype 'a attachment_op =
    AtAttach string
  | AtConnected nat string "string + nat"
  | AtAction nat 'a
  | AtHostClosed nat
  | AtDetach
  | AtOnAction nat
  | AtOffAction nat
  | AtOnClose nat
  | AtOffClose nat

fun apply_attachment :: "'a attachment_op \<Rightarrow> 'a attachment \<Rightarrow> 'a attachment" where
  "apply_attachment (AtAttach ws) s = fst (attach ws s)"
| "apply_attachment (AtConnected g ws r) s = fst (connected g (ws, r) s)"
| "apply_attachment (AtAction h a) s = host_action h a s"
| "apply_attachment (AtHostClosed h) s = host_closed h s"
| "apply_attachment AtDetach s = detach s"
| "apply_attachment (AtOnAction l) s = on_action l s"
| "apply_attachment (AtOffAction l) s = off_action l s"
| "apply_attachment (AtOnClose l) s = on_close l s"
| "apply_attachment (AtOffClose l) s = off_close l s"

section \<open>A superseded attachment never takes over\<close>

lemma close_current_frame [simp]:
  "wa_generation (close_current s) = wa_generation s" "wa_current (close_current s) = None"
  "wa_pending (close_current s) = wa_pending s" "wa_connected (close_current s) = wa_connected s"
  "wa_subs (close_current s) = wa_subs s"
  by (auto simp: close_current_def close_host_def split: option.split prod.split)

lemma deliver_frame [simp]:
  "wa_generation (deliver_action a b s) = wa_generation s" "wa_current (deliver_action a b s) = wa_current s"
  "wa_generation (deliver_close b s) = wa_generation s"
  by (simp_all add: deliver_action_def deliver_close_def)

lemma fold_deliver_frame [simp]:
  "wa_generation (fold (deliver_action a) bs s) = wa_generation s"
  "wa_generation (fold deliver_close bs s) = wa_generation s"
  by (induction bs arbitrary: s) simp_all

lemma generation_mono: "wa_generation s \<le> wa_generation (apply_attachment op s)"
  by (cases op) (auto simp: attach_def begin_attach_def connected_def close_host_def host_action_def
      host_closed_def detach_def on_action_def off_action_def on_close_def off_close_def Let_def
      split: option.split prod.split sum.split)

interpretation attaching: latest_wins wa_generation begin_attach "\<lambda>g r s. fst (connected g r s)"
  apply_attachment wa_current "\<lambda>s. True"
  by unfold_locales
    (auto simp: begin_attach_def connected_def close_host_def Let_def generation_mono split: sum.split)

text \<open>
  C1: once a later attachment has begun, an earlier one that is still connecting never becomes
  the current one, however the two and anything else are interleaved; it is told that it is
  stale, and the host it obtained is closed.
\<close>

theorem superseded_attachment_is_stale:
  assumes first: "begin_attach s = (s1, g)"
    and second: "begin_attach (fold apply_attachment before s1) = (s2, g')"
    and now: "now = fold apply_attachment after s2"
  shows "wa_current (fst (connected g (ws, Inr h) now)) = wa_current now
    \<and> snd (connected g (ws, Inr h) now) = StaleAttachment
    \<and> is_closed h (fst (connected g (ws, Inr h) now))"
  using attaching.superseded_never_shows [OF TrueI first second, of "(ws, Inr h)" after]
    attaching.superseded_ticket [OF TrueI first second, of after] now
  by (simp add: connected_def Let_def close_host_def is_closed_def)

theorem superseded_attachment_is_stale_witness:
  "let s2 = fst (begin_attach (fst (begin_attach (new_attachment :: nat attachment))));
       s3 = fst (connected 2 (''b'', Inr 7) s2)
   in wa_current (fst (connected 1 (''a'', Inr 8) s3)) = Some (''b'', 7)
    \<and> snd (connected 1 (''a'', Inr 8) s3) = StaleAttachment"
proof -
  let ?s1 = "fst (begin_attach (new_attachment :: nat attachment))"
  let ?s2 = "fst (begin_attach ?s1)"
  let ?s3 = "fst (connected 2 (''b'', Inr 7) ?s2)"
  have b1: "begin_attach (new_attachment :: nat attachment) = (?s1, 1)"
    by (simp add: begin_attach_def new_attachment_def Let_def)
  have b2: "begin_attach (fold apply_attachment [] ?s1) = (?s2, 2)"
    by (simp add: begin_attach_def new_attachment_def Let_def)
  have s3: "?s3 = fold apply_attachment [AtConnected 2 ''b'' (Inr 7)] ?s2" by simp
  have "wa_current ?s3 = Some (''b'', 7)"
    by (simp add: connected_def begin_attach_def new_attachment_def Let_def)
  with superseded_attachment_is_stale [OF b1 b2 s3, of "''a''" 8] show ?thesis
    by (simp add: Let_def)
qed

section \<open>No host is leaked\<close>

text \<open>
  The invariant: what \<open>connect\<close> produced is closed or current; a generation is drawn once,
  and while the newest is connecting nothing is attached; the current host is the one that the
  subscription of the newest generation listens to.
\<close>

definition no_leak :: "'a attachment \<Rightarrow> bool" where
  "no_leak s \<longleftrightarrow>
     (\<forall>h \<in> set (wa_connected s). is_closed h s \<or> map_option snd (wa_current s) = Some h) \<and>
     (\<forall>p \<in> set (wa_pending s). p \<le> wa_generation s) \<and> distinct (wa_pending s) \<and>
     (wa_generation s \<in> set (wa_pending s) \<longrightarrow> wa_current s = None)"

definition subs_ok :: "'a attachment \<Rightarrow> bool" where
  "subs_ok s \<longleftrightarrow>
     distinct (map sb_generation (wa_subs s)) \<and>
     (\<forall>b \<in> set (wa_subs s). sb_generation b \<le> wa_generation s \<and> sb_generation b \<notin> set (wa_pending s) \<and>
        (sb_generation b = wa_generation s \<longrightarrow>
           wa_current s = None \<or> wa_current s = Some (sb_workspace b, sb_host b))) \<and>
     (\<forall>w h. wa_current s = Some (w, h) \<longrightarrow> (\<exists>b \<in> set (wa_subs s). sb_generation b = wa_generation s))"

text \<open>A completion belongs to an attachment that is connecting.\<close>

fun attachment_step_ok :: "'a attachment_op \<Rightarrow> 'a attachment \<Rightarrow> bool" where
  "attachment_step_ok (AtConnected g ws r) s = (g \<in> set (wa_pending s))"
| "attachment_step_ok op s = True"

fun run_attachment :: "'a attachment_op list \<Rightarrow> 'a attachment \<Rightarrow> 'a attachment" where
  "run_attachment [] s = s"
| "run_attachment (op # ops) s =
     run_attachment ops (if attachment_step_ok op s then apply_attachment op s else s)"

lemma close_current_no_leak:
  "\<forall>h \<in> set (wa_connected s). is_closed h s \<or> map_option snd (wa_current s) = Some h \<Longrightarrow>
   h \<in> set (wa_connected s) \<Longrightarrow> is_closed h (close_current s)"
  by (auto simp: close_current_def close_host_def is_closed_def split: option.split prod.split)

lemma no_leak_begin: "no_leak s \<Longrightarrow> no_leak (fst (begin_attach s))"
  using close_current_no_leak [of "s\<lparr>wa_generation := Suc (wa_generation s), wa_pending := wa_pending s @ [Suc (wa_generation s)]\<rparr>"]
  by (fastforce simp: no_leak_def begin_attach_def Let_def is_closed_def)

lemma no_leak_detach: "no_leak s \<Longrightarrow> no_leak (detach s)"
  using close_current_no_leak [of "s\<lparr>wa_generation := Suc (wa_generation s)\<rparr>"]
  by (fastforce simp: no_leak_def detach_def is_closed_def)

lemma no_leak_connected:
  assumes "no_leak s" and "g \<in> set (wa_pending s)"
  shows "no_leak (fst (connected g r s))"
  using assms
  by (cases "snd r")
    (auto simp: no_leak_def connected_def Let_def close_host_def is_closed_def)

lemma fold_deliver_action_frame:
  "wa_connected (fold (deliver_action a) bs s) = wa_connected s"
  "wa_closed (fold (deliver_action a) bs s) = wa_closed s"
  "wa_current (fold (deliver_action a) bs s) = wa_current s"
  "wa_pending (fold (deliver_action a) bs s) = wa_pending s"
  by (induction bs arbitrary: s) (simp_all add: deliver_action_def)

lemma fold_deliver_close_frame:
  "wa_connected (fold deliver_close bs s) = wa_connected s"
  "wa_closed (fold deliver_close bs s) = wa_closed s"
  "wa_pending (fold deliver_close bs s) = wa_pending s"
  "wa_current (fold deliver_close bs s) = wa_current s \<or>
     (wa_current (fold deliver_close bs s) = None \<and> (\<exists>b \<in> set bs. map_option snd (wa_current s) = Some (sb_host b)))"
proof (induction bs arbitrary: s)
  case (Cons b bs)
  {
    case 1 then show ?case using Cons(1) by (simp add: deliver_close_def)
  next
    case 2 then show ?case using Cons(2) by (simp add: deliver_close_def)
  next
    case 3 then show ?case using Cons(3) by (simp add: deliver_close_def)
  next
    case 4 show ?case using Cons(4) [of "deliver_close b s"]
      by (auto simp: deliver_close_def is_current_def split: if_splits)
  }
qed simp_all

lemma no_leak_host_closed: "no_leak s \<Longrightarrow> no_leak (host_closed h s)"
  using fold_deliver_close_frame [of "filter (\<lambda>b. sb_host b = h) (wa_subs s)" "close_host h s"]
  by (auto simp: no_leak_def host_closed_def is_closed_def close_host_def)

lemma no_leak_step: "no_leak s \<Longrightarrow> attachment_step_ok op s \<Longrightarrow> no_leak (apply_attachment op s)"
proof (cases op)
  case (AtAttach ws)
  assume "no_leak s"
  then show ?thesis using no_leak_begin [of s] AtAttach
    by (auto simp: attach_def split: option.split prod.split)
next
  case (AtAction h a)
  assume "no_leak s"
  then show ?thesis unfolding AtAction
    by (simp add: no_leak_def host_action_def is_closed_def fold_deliver_action_frame)
qed (simp_all add: no_leak_connected no_leak_detach no_leak_host_closed,
  simp_all add: no_leak_def is_closed_def on_action_def off_action_def on_close_def off_close_def)

lemma subs_ok_begin: "no_leak s \<Longrightarrow> subs_ok s \<Longrightarrow> subs_ok (fst (begin_attach s))"
  by (fastforce simp: subs_ok_def begin_attach_def Let_def)

lemma subs_ok_detach: "subs_ok s \<Longrightarrow> subs_ok (detach s)"
  by (fastforce simp: subs_ok_def detach_def)

lemma subs_ok_connected:
  assumes "no_leak s" and "subs_ok s" and "g \<in> set (wa_pending s)"
  shows "subs_ok (fst (connected g r s))"
proof (cases "snd r")
  case (Inl e)
  then show ?thesis using assms(2) by (auto simp: subs_ok_def connected_def Let_def)
next
  case (Inr h)
  have new: "g \<notin> sb_generation ` set (wa_subs s)" using assms(2,3) by (auto simp: subs_ok_def)
  show ?thesis
  proof (cases "g = wa_generation s")
    case True
    have "\<forall>b \<in> set (wa_subs s). sb_generation b \<noteq> wa_generation s" using new True by (metis image_eqI)
    then show ?thesis using True Inr assms(2) new
      by (auto simp: subs_ok_def connected_def Let_def)
  next
    case False
    then show ?thesis using Inr assms(2)
      by (auto simp: subs_ok_def connected_def Let_def close_host_def)
  qed
qed

lemma fold_deliver_subs [simp]:
  "wa_subs (fold (deliver_action a) bs s) = wa_subs s" "wa_subs (fold deliver_close bs s) = wa_subs s"
  by (induction bs arbitrary: s) (simp_all add: deliver_action_def deliver_close_def)

lemma subs_ok_step:
  "no_leak s \<Longrightarrow> subs_ok s \<Longrightarrow> attachment_step_ok op s \<Longrightarrow> subs_ok (apply_attachment op s)"
proof (cases op)
  case (AtAttach ws)
  assume "no_leak s" "subs_ok s"
  then show ?thesis using subs_ok_begin [of s] AtAttach
    by (auto simp: attach_def split: option.split prod.split)
next
  case (AtAction h a)
  assume "subs_ok s"
  then show ?thesis unfolding AtAction
    by (simp add: subs_ok_def host_action_def fold_deliver_action_frame)
next
  case (AtHostClosed h)
  assume o: "subs_ok s"
  have e: "wa_subs (host_closed h s) = wa_subs s" "wa_pending (host_closed h s) = wa_pending s"
    "wa_generation (host_closed h s) = wa_generation s"
    by (simp_all add: host_closed_def fold_deliver_close_frame close_host_def)
  have c: "wa_current (host_closed h s) = wa_current s \<or> wa_current (host_closed h s) = None"
    using fold_deliver_close_frame(4) [of "filter (\<lambda>b. sb_host b = h) (wa_subs s)" "close_host h s"]
    by (auto simp: host_closed_def close_host_def)
  have "subs_ok (host_closed h s)" using c
  proof
    assume "wa_current (host_closed h s) = wa_current s"
    then show ?thesis using o unfolding subs_ok_def e by simp
  next
    assume "wa_current (host_closed h s) = None"
    then show ?thesis using o unfolding subs_ok_def e by simp
  qed
  then show ?thesis by (simp add: AtHostClosed)
qed (simp_all add: subs_ok_connected subs_ok_detach,
  simp_all add: subs_ok_def on_action_def off_action_def on_close_def off_close_def)

lemma run_attachment_inv:
  "no_leak (run_attachment ops new_attachment) \<and> subs_ok (run_attachment ops new_attachment)"
proof -
  have "no_leak s \<and> subs_ok s \<Longrightarrow> no_leak (run_attachment ops s) \<and> subs_ok (run_attachment ops s)" for s
    by (induction ops arbitrary: s) (simp_all add: no_leak_step subs_ok_step)
  moreover have "no_leak new_attachment \<and> subs_ok new_attachment"
    by (simp add: no_leak_def subs_ok_def new_attachment_def)
  ultimately show ?thesis by blast
qed

text \<open>
  C8: no host connection is leaked: in every run, each host that \<open>connect\<close> has produced is
  either the current one or closed, and a host is reported as attached only while it is open.
\<close>

theorem attachment_leaks_no_host:
  "let s = run_attachment ops new_attachment in
   list_all (\<lambda>h. is_closed h s \<or> map_option snd (wa_current s) = Some h) (wa_connected s) \<and>
   (case attached ws s of None \<Rightarrow> True | Some h \<Rightarrow> \<not> is_closed h s)"
proof -
  have "no_leak (run_attachment ops new_attachment)" using run_attachment_inv by blast
  moreover have "case attached ws s of None \<Rightarrow> True | Some h \<Rightarrow> \<not> is_closed h s" for s :: "'a attachment"
    by (auto simp: attached_def split: option.split prod.split if_splits)
  ultimately show ?thesis by (simp add: Let_def no_leak_def list_all_iff)
qed

lemma fold_delivered:
  "wa_delivered (fold (deliver_action a) bs s) = wa_delivered s @
     concat (map (\<lambda>b. map (\<lambda>l. (l, sb_workspace b, a)) (wa_action_listeners s))
       (filter (\<lambda>b. is_current (sb_generation b) (sb_host b) s) bs))"
proof (induction bs arbitrary: s)
  case (Cons b bs)
  have "is_current g h (deliver_action a b s) = is_current g h s" for g h
    by (simp add: is_current_def)
  moreover have "wa_action_listeners (deliver_action a b s) = wa_action_listeners s"
    by (simp add: deliver_action_def)
  ultimately show ?case by (simp add: Cons.IH) (simp add: deliver_action_def)
qed simp

lemma filter_unique:
  "distinct (map f xs) \<Longrightarrow> x \<in> set xs \<Longrightarrow> P x \<Longrightarrow> (\<And>y. y \<in> set xs \<Longrightarrow> P y \<Longrightarrow> f y = f x) \<Longrightarrow> filter P xs = [x]"
proof (induction xs)
  case (Cons a xs)
  have fa: "f a \<notin> f ` set xs" using Cons.prems(1) by simp
  show ?case
  proof (cases "a = x")
    case True
    have "\<not> P y" if "y \<in> set xs" for y
      using Cons.prems(4) [of y] that fa True by (metis image_eqI list.set_intros(2))
    then show ?thesis using True Cons.prems(3) by simp
  next
    case False
    then have x: "x \<in> set xs" using Cons.prems(2) by simp
    have "\<not> P a"
    proof
      assume "P a"
      then have "f a = f x" using Cons.prems(4) [of a] by simp
      then show False using fa imageI [OF x, of f] by simp
    qed
    moreover have "filter P xs = [x]"
    proof (rule Cons.IH)
      show "distinct (map f xs)" using Cons.prems(1) by simp
      show "f y = f x" if "y \<in> set xs" "P y" for y
        by (rule Cons.prems(4)) (use that in simp_all)
    qed (rule x, rule Cons.prems(3))
    ultimately show ?thesis by simp
  qed
qed simp

text \<open>
  An action is delivered only when it comes from the current host, once to each listener and
  under the workspace attached; after a detach or a switch the actions of the previous host are
  dropped.
\<close>

theorem actions_only_from_current_host:
  "let s = run_attachment ops new_attachment in
   wa_delivered (host_action h a s) = wa_delivered s @
     (case wa_current s of
        None \<Rightarrow> []
      | Some (w, h') \<Rightarrow> if h' = h then map (\<lambda>l. (l, w, a)) (wa_action_listeners s) else [])"
proof -
  define s where "s = run_attachment ops (new_attachment :: 'a attachment)"
  have ok: "subs_ok s" unfolding s_def using run_attachment_inv by blast
  let ?bs = "filter (\<lambda>b. sb_host b = h) (wa_subs s)"
  let ?cur = "filter (\<lambda>b. is_current (sb_generation b) (sb_host b) s) ?bs"
  have d: "wa_delivered (host_action h a s) = wa_delivered s @
      concat (map (\<lambda>b. map (\<lambda>l. (l, sb_workspace b, a)) (wa_action_listeners s)) ?cur)"
    by (simp add: host_action_def fold_delivered)
  show ?thesis
  proof (cases "wa_current s")
    case None
    then have "?cur = []" by (auto simp: filter_empty_conv is_current_def)
    then show ?thesis using d None by (simp add: s_def Let_def)
  next
    case (Some wh)
    obtain w h' where wh: "wh = (w, h')" by fastforce
    show ?thesis
    proof (cases "h' = h")
      case False
      then have "?cur = []" using Some wh by (auto simp: filter_empty_conv is_current_def)
      then show ?thesis using d Some wh False by (simp add: s_def Let_def)
    next
      case True
      obtain b where b: "b \<in> set (wa_subs s)" "sb_generation b = wa_generation s"
        using ok Some wh unfolding subs_ok_def by blast
      then have e: "sb_workspace b = w" "sb_host b = h" using ok Some wh True by (auto simp: subs_ok_def)
      have "?cur = [b]"
        by (rule filter_unique [where f = sb_generation])
          (use ok b e Some wh True in \<open>auto simp: subs_ok_def is_current_def distinct_map_filter\<close>)
      then show ?thesis using d Some wh True e by (simp add: s_def Let_def)
    qed
  qed
qed

end
