(* ===== verification/LocalState.thy ===== *)
theory LocalState
  imports Json_Laws
begin

text \<open>
  What the workbench keeps in the browser's storage:
  \<open>packages/workbench/src/services/workspace-ui-state.ts\<close> and
  \<open>services/floating-window.ts\<close>.

  The storage is a map of strings; a storage that throws on writing is not \<open>writable\<close>.  A
  workspace's state is the dynamic value it is; \<open>structuredClone\<close> of such a value is the
  value.
\<close>

section \<open>\<open>WorkspaceUIStateService\<close>\<close>

record browser_storage =
  bs_items :: "(string, string) omap"
  bs_writable :: bool

record ui_state =
  us_memory :: "(string, json) omap"
  us_storage :: "browser_storage option"

definition state_key :: "string \<Rightarrow> string" where
  "state_key ws = ''zaw.workspace-state.'' @ ws"

definition stored_item :: "string \<Rightarrow> browser_storage option \<Rightarrow> string option" where
  "stored_item k st = (case st of None \<Rightarrow> None | Some b \<Rightarrow> om_get (bs_items b) k)"

definition ui_load :: "string \<Rightarrow> ui_state \<Rightarrow> json" where
  "ui_load ws s =
     (case om_get (us_memory s) ws of
        Some v \<Rightarrow> v
      | None \<Rightarrow>
          (case stored_item (state_key ws) (us_storage s) of
             None \<Rightarrow> JObj []
           | Some t \<Rightarrow> if t = [] then JObj [] else (case json_parse t of None \<Rightarrow> JObj [] | Some v \<Rightarrow> v)))"

definition store_item :: "string \<Rightarrow> string \<Rightarrow> browser_storage option \<Rightarrow> browser_storage option" where
  "store_item k t st =
     map_option (\<lambda>b. if bs_writable b then b\<lparr>bs_items := om_set k t (bs_items b)\<rparr> else b) st"

definition ui_save :: "string \<Rightarrow> json \<Rightarrow> ui_state \<Rightarrow> ui_state" where
  "ui_save ws v s =
     s\<lparr>us_memory := om_set ws v (us_memory s),
       us_storage := store_item (state_key ws) (json_text v) (us_storage s)\<rparr>"

text \<open>
  \<open>?? {}\<close> and the spread of an object.  A field of \<open>null\<close> or \<open>undefined\<close> cannot be
  read: \<open>None\<close>.
\<close>

definition nullish :: "json \<Rightarrow> bool" where
  "nullish v \<longleftrightarrow> v = JUndef \<or> v = JNull"

fun spread_fields :: "json \<Rightarrow> (string \<times> json) list" where
  "spread_fields (JObj fs) = fs"
| "spread_fields (JArr xs) = zip (map show_nat [0..<length xs]) xs"
| "spread_fields (JStr s) = zip (map show_nat [0..<length s]) (map (\<lambda>c. JStr [c]) s)"
| "spread_fields _ = []"

definition load_session_details :: "string \<Rightarrow> string \<Rightarrow> ui_state \<Rightarrow> json option" where
  "load_session_details ws res s =
     (let v = ui_load ws s in
      if nullish v then None
      else let d = field v ''sessionDetails'';
               r = (if nullish d then JUndef else field d res)
           in Some (if nullish r then JObj [] else r))"

definition save_session_details :: "string \<Rightarrow> string \<Rightarrow> json \<Rightarrow> ui_state \<Rightarrow> ui_state option" where
  "save_session_details ws res st s =
     (let v = ui_load ws s in
      if nullish v then None
      else Some (ui_save ws (JObj (om_set ''sessionDetails''
             (JObj (om_set res st (spread_fields (field v ''sessionDetails''))))
             (spread_fields v))) s))"

lemma load_after_save: "ui_load ws' (ui_save ws v s) = (if ws' = ws then v else ui_load ws' s)"
proof (cases "ws' = ws")
  case True
  then show ?thesis by (simp add: ui_load_def ui_save_def)
next
  case False
  then have "state_key ws' \<noteq> state_key ws" by (simp add: state_key_def)
  then have st: "stored_item (state_key ws') (us_storage (ui_save ws v s)) = stored_item (state_key ws') (us_storage s)"
    by (auto simp: ui_save_def stored_item_def store_item_def split: option.split)
  have m: "om_get (us_memory (ui_save ws v s)) ws' = om_get (us_memory s) ws'"
    using False by (simp add: ui_save_def)
  show ?thesis using False unfolding ui_load_def st m by simp
qed

text \<open>
  The details saved for one session of a workspace are what is loaded for it afterwards;
  the details of the workspace's other sessions, its other state and every other workspace are
  as before.
\<close>

theorem session_details_round_trip:
  assumes save: "save_session_details ws res st s = Some s'" and st: "\<not> nullish st"
    and shape: "ui_load ws s = JObj fs" and details: "\<forall>d. map_of fs ''sessionDetails'' = Some d \<longrightarrow> (\<exists>ds. d = JObj ds)"
  shows "load_session_details ws res s' = Some st
    \<and> (\<forall>r. r \<noteq> res \<longrightarrow> load_session_details ws r s' = load_session_details ws r s)
    \<and> (\<forall>k. k \<noteq> ''sessionDetails'' \<longrightarrow> field (ui_load ws s') k = field (ui_load ws s) k)
    \<and> (\<forall>w. w \<noteq> ws \<longrightarrow> ui_load w s' = ui_load w s)"
proof -
  let ?d = "field (JObj fs) ''sessionDetails''"
  have s': "s' = ui_save ws (JObj (om_set ''sessionDetails'' (JObj (om_set res st (spread_fields ?d))) fs)) s"
    using save by (simp add: save_session_details_def shape nullish_def)
  have d: "?d = JUndef \<or> (\<exists>ds. ?d = JObj ds)" using details by (auto split: option.split)
  have l: "ui_load ws s' = JObj (om_set ''sessionDetails'' (JObj (om_set res st (spread_fields ?d))) fs)"
    by (simp add: s' load_after_save)
  have r: "load_session_details ws r s' = Some (if nullish (field (JObj (om_set res st (spread_fields ?d))) r)
      then JObj [] else field (JObj (om_set res st (spread_fields ?d))) r)" for r
    by (simp add: load_session_details_def l nullish_def)
  have old: "load_session_details ws r s = Some (if nullish ?d \<or> nullish (field ?d r) then JObj [] else field ?d r)" for r
    by (auto simp: load_session_details_def shape nullish_def Let_def)
  have "load_session_details ws r s' = load_session_details ws r s" if "r \<noteq> res" for r
    using d that unfolding r old by (auto simp: nullish_def split: option.split)
  moreover have "load_session_details ws res s' = Some st" using st unfolding r by simp
  ultimately show ?thesis by (simp add: l shape) (simp add: s' load_after_save)
qed

theorem session_details_round_trip_witness:
  "let s = \<lparr>us_memory = [(''w'', JObj [(''terminalOpen'', JBool True)])], us_storage = None\<rparr>;
       s' = the (save_session_details ''w'' ''r'' (JObj [(''auxiliaryVisible'', JBool False)]) s)
   in load_session_details ''w'' ''r'' s' = Some (JObj [(''auxiliaryVisible'', JBool False)])
    \<and> field (ui_load ''w'' s') ''terminalOpen'' = JBool True"
proof -
  let ?s = "\<lparr>us_memory = [(''w'', JObj [(''terminalOpen'', JBool True)])], us_storage = None\<rparr>"
  let ?st = "JObj [(''auxiliaryVisible'', JBool False)]"
  have l: "ui_load ''w'' ?s = JObj [(''terminalOpen'', JBool True)]" by (simp add: ui_load_def)
  obtain s' where s': "save_session_details ''w'' ''r'' ?st ?s = Some s'"
    by (simp add: save_session_details_def l nullish_def)
  show ?thesis
    using session_details_round_trip [OF s' _ l] s' l by (simp add: nullish_def Let_def)
qed

section \<open>\<open>FloatingWindowService\<close>\<close>

record window_bounds =
  wb_height :: rat
  wb_left :: rat
  wb_top :: rat
  wb_width :: rat

record floating_window =
  fw_id :: string
  fw_title :: string
  fw_bounds :: window_bounds
  fw_maximized :: bool
  fw_restore :: "window_bounds option"

record floating_windows =
  fs_state :: "floating_window option"
  fs_storage :: "(string, string) omap option"

definition window_key :: "string \<Rightarrow> string" where
  "window_key n = ''zaw.floating-window.'' @ n"

definition finite_num :: "json \<Rightarrow> rat option" where
  "finite_num v = (case v of JNum r \<Rightarrow> Some r | _ \<Rightarrow> None)"

definition bounds_json :: "window_bounds \<Rightarrow> json" where
  "bounds_json b = JObj [(''height'', JNum (wb_height b)), (''left'', JNum (wb_left b)),
     (''top'', JNum (wb_top b)), (''width'', JNum (wb_width b))]"

definition read_bounds :: "json \<Rightarrow> window_bounds option" where
  "read_bounds v =
     (case (finite_num (field v ''height''), finite_num (field v ''left''),
            finite_num (field v ''top''), finite_num (field v ''width'')) of
        (Some h, Some l, Some t, Some w) \<Rightarrow> Some \<lparr>wb_height = h, wb_left = l, wb_top = t, wb_width = w\<rparr>
      | _ \<Rightarrow> None)"

definition fw_load :: "string \<Rightarrow> floating_windows \<Rightarrow> window_bounds option" where
  "fw_load n s =
     (case (case fs_storage s of None \<Rightarrow> None | Some m \<Rightarrow> om_get m (window_key n)) of
        None \<Rightarrow> None
      | Some t \<Rightarrow>
          if t = [] then None
          else (case json_parse t of None \<Rightarrow> None | Some v \<Rightarrow> if nullish v then None else read_bounds v))"

definition fw_save :: "floating_windows \<Rightarrow> floating_windows" where
  "fw_save s =
     (case fs_state s of
        None \<Rightarrow> s
      | Some w \<Rightarrow> s\<lparr>fs_storage := map_option (om_set (window_key (fw_id w)) (json_text (bounds_json (fw_bounds w))))
                    (fs_storage s)\<rparr>)"

definition fw_close :: "floating_windows \<Rightarrow> floating_windows" where
  "fw_close s = s\<lparr>fs_state := None\<rparr>"

definition fw_open :: "string \<Rightarrow> string \<Rightarrow> window_bounds \<Rightarrow> floating_windows \<Rightarrow> floating_windows" where
  "fw_open n title b s =
     s\<lparr>fs_state := Some \<lparr>fw_id = n, fw_title = title,
         fw_bounds = (case fw_load n s of Some r \<Rightarrow> r | None \<Rightarrow> b), fw_maximized = False, fw_restore = None\<rparr>\<rparr>"

definition fw_maximize :: "rat \<Rightarrow> rat \<Rightarrow> floating_windows \<Rightarrow> floating_windows" where
  "fw_maximize vw vh s =
     (case fs_state s of
        None \<Rightarrow> s
      | Some w \<Rightarrow>
          if fw_maximized w then s
          else s\<lparr>fs_state := Some (w\<lparr>fw_restore := Some (fw_bounds w),
                 fw_bounds := \<lparr>wb_height = vh, wb_left = 0, wb_top = 0, wb_width = vw\<rparr>,
                 fw_maximized := True\<rparr>)\<rparr>)"

definition fw_restore_window :: "floating_windows \<Rightarrow> floating_windows" where
  "fw_restore_window s =
     (case fs_state s of
        None \<Rightarrow> s
      | Some w \<Rightarrow>
          (case fw_restore w of
             None \<Rightarrow> s
           | Some b \<Rightarrow> fw_save (s\<lparr>fs_state := Some (w\<lparr>fw_bounds := b, fw_restore := None, fw_maximized := False\<rparr>)\<rparr>)))"

definition fw_update_bounds :: "window_bounds \<Rightarrow> floating_windows \<Rightarrow> floating_windows" where
  "fw_update_bounds b s =
     (case fs_state s of
        None \<Rightarrow> s
      | Some w \<Rightarrow> if fw_maximized w then s else fw_save (s\<lparr>fs_state := Some (w\<lparr>fw_bounds := b\<rparr>)\<rparr>))"

definition whole_bounds :: "window_bounds \<Rightarrow> bool" where
  "whole_bounds b \<longleftrightarrow> (\<forall>r \<in> {wb_height b, wb_left b, wb_top b, wb_width b}. of_int \<lfloor>r\<rfloor> = r)"

lemma bounds_parse_back: "whole_bounds b \<Longrightarrow> json_parse (json_text (bounds_json b)) = Some (bounds_json b)"
  by (rule json_parse_text) (simp add: bounds_json_def whole_bounds_def)

lemma read_bounds_json [simp]: "read_bounds (bounds_json b) = Some b"
  by (simp add: read_bounds_def bounds_json_def finite_num_def)

text \<open>
  A window moved to whole-pixel bounds, maximised, restored and closed opens again where it
  was moved, whatever default bounds it is opened with; maximising alone stores nothing.
\<close>

theorem floating_window_reopens_where_left:
  assumes open_window: "fs_state s = Some w" "\<not> fw_maximized w" and st: "fs_storage s \<noteq> None" and b: "whole_bounds b"
    and s1: "s1 = fw_maximize vw vh (fw_update_bounds b s)"
  shows "fs_storage s1 = fs_storage (fw_update_bounds b s)
    \<and> map_option fw_bounds (fs_state (fw_restore_window s1)) = Some b
    \<and> map_option fw_bounds (fs_state (fw_open (fw_id w) title b' (fw_close (fw_restore_window s1)))) = Some b"
proof -
  obtain m where m: "fs_storage s = Some m" using st by blast
  have u: "fw_update_bounds b s = s\<lparr>fs_state := Some (w\<lparr>fw_bounds := b\<rparr>),
      fs_storage := Some (om_set (window_key (fw_id w)) (json_text (bounds_json b)) m)\<rparr>"
    using open_window m by (simp add: fw_update_bounds_def fw_save_def)
  have n: "json_text (bounds_json b) \<noteq> []" by (simp add: bounds_json_def)
  have nn: "\<not> nullish (bounds_json b)" by (simp add: bounds_json_def nullish_def)
  show ?thesis
    using open_window n nn bounds_parse_back [OF b]
    by (simp add: s1 u fw_maximize_def fw_restore_window_def fw_save_def fw_open_def fw_close_def fw_load_def)
qed

theorem floating_window_reopens_where_left_witness:
  "let b = \<lparr>wb_height = 300, wb_left = 10, wb_top = 20, wb_width = 400\<rparr>;
       s = fw_open ''terminal'' ''Terminal'' \<lparr>wb_height = 1, wb_left = 1, wb_top = 1, wb_width = 1\<rparr>
             \<lparr>fs_state = None, fs_storage = Some []\<rparr>;
       s1 = fw_maximize 1920 1080 (fw_update_bounds b s)
   in map_option fw_bounds (fs_state (fw_open ''terminal'' ''T'' \<lparr>wb_height = 0, wb_left = 0, wb_top = 0, wb_width = 0\<rparr>
        (fw_close (fw_restore_window s1)))) = Some b"
proof -
  let ?s = "fw_open ''terminal'' ''Terminal'' \<lparr>wb_height = 1, wb_left = 1, wb_top = 1, wb_width = 1\<rparr>
             \<lparr>fs_state = None, fs_storage = Some []\<rparr>"
  let ?w = "\<lparr>fw_id = ''terminal'', fw_title = ''Terminal'',
      fw_bounds = \<lparr>wb_height = 1, wb_left = 1, wb_top = 1, wb_width = 1\<rparr>, fw_maximized = False, fw_restore = None\<rparr>"
  have s: "fs_state ?s = Some ?w" "fs_storage ?s \<noteq> None" by (simp_all add: fw_open_def fw_load_def)
  have b: "whole_bounds \<lparr>wb_height = 300, wb_left = 10, wb_top = 20, wb_width = 400\<rparr>" by (simp add: whole_bounds_def)
  show ?thesis
    using floating_window_reopens_where_left [OF s(1) _ s(2) b refl, of 1920 1080 "''T''"
        "\<lparr>wb_height = 0, wb_left = 0, wb_top = 0, wb_width = 0\<rparr>"]
    by (simp add: Let_def)
qed

end
