(* ===== verification/Layout.thy ===== *)
theory Layout
  imports LocalState
begin

text \<open>
  \<open>packages/workbench/src/workbench/layout\<close> (\<open>layout.ts\<close>, \<open>layout-service.ts\<close>,
  \<open>layout-sash.ts\<close>) and \<open>contrib/core/responsive-sidebar.contribution.ts\<close>: which parts of
  the window are shown and how large they are, and the sidebar that gives way on small windows.

  Of a part's root element the model has whether it is displayed.  Sizes are finite numbers.  The
  emitters are a log; the listeners of the responsive sidebar are run on it.

  The environment is assumed to accept writes: \<open>ly_storage\<close> is the browser's storage, or \<open>None\<close> where
  there is none.  \<open>persist\<close> does not catch what \<open>setItem\<close> throws where the storage is full or writing is
  forbidden; a setter then throws after it has changed the service and before it fires, and nothing
  here speaks of that case.
\<close>

section \<open>The layout service\<close>

datatype part = Titlebar | Sidebar | Primary | AuxiliaryBar | Panel | Overlay

fun part_text :: "part \<Rightarrow> string" where
  "part_text Titlebar = ''titlebar''"
| "part_text Sidebar = ''sidebar''"
| "part_text Primary = ''primary''"
| "part_text AuxiliaryBar = ''auxiliarybar''"
| "part_text Panel = ''panel''"
| "part_text Overlay = ''overlay''"

definition all_parts :: "part list" where
  "all_parts = [Titlebar, Sidebar, Primary, AuxiliaryBar, Panel, Overlay]"

datatype layout_event = PartToggled part bool | SizeChanged part | EditorToggled bool

record layout =
  ly_roots :: "(part, bool) omap"
  ly_visibility :: "(part, bool) omap"
  ly_auto_hidden :: "(part, string list) omap"
  ly_sidebar :: rat
  ly_auxiliary :: rat
  ly_panel :: rat
  ly_editor :: bool
  ly_storage :: "(string, string) omap option"
  ly_events :: "layout_event list"

definition layout_key :: string where
  "layout_key = ''zaw.workbench.layout''"

definition default_layout :: "(string, string) omap option \<Rightarrow> layout" where
  "default_layout st = \<lparr>ly_roots = [],
     ly_visibility = [(Titlebar, True), (Sidebar, True), (Primary, True), (AuxiliaryBar, True), (Panel, False), (Overlay, True)],
     ly_auto_hidden = [], ly_sidebar = 300, ly_auxiliary = 340, ly_panel = 300, ly_editor = False,
     ly_storage = st, ly_events = []\<rparr>"

text \<open>A stored size counts if it is a finite number, a stored visibility if it is a boolean.\<close>

definition restored_size :: "rat \<Rightarrow> rat \<Rightarrow> json \<Rightarrow> rat" where
  "restored_size least old v = (case finite_num v of Some r \<Rightarrow> max least r | None \<Rightarrow> old)"

definition restored_visibility :: "json \<Rightarrow> (part, bool) omap \<Rightarrow> (part, bool) omap" where
  "restored_visibility v m =
     fold (\<lambda>p m. case (if nullish v then JUndef else field v (part_text p)) of JBool b \<Rightarrow> om_set p b m | _ \<Rightarrow> m) all_parts m"

definition layout_restore :: "layout \<Rightarrow> layout" where
  "layout_restore s =
     (case (case ly_storage s of None \<Rightarrow> None | Some m \<Rightarrow> om_get m layout_key) of
        None \<Rightarrow> s
      | Some t \<Rightarrow>
          if t = [] then s
          else (case json_parse t of
              None \<Rightarrow> s
            | Some v \<Rightarrow>
                if nullish v then s
                else s\<lparr>ly_sidebar := restored_size 270 (ly_sidebar s) (field v ''sidebarWidth''),
                       ly_auxiliary := restored_size 270 (ly_auxiliary s) (field v ''auxiliaryBarWidth''),
                       ly_panel := restored_size 77 (ly_panel s) (field v ''panelHeight''),
                       ly_visibility := restored_visibility (field v ''visibility'') (ly_visibility s)\<rparr>))"

definition new_layout :: "(string, string) omap option \<Rightarrow> layout" where
  "new_layout st = layout_restore (default_layout st)"

definition layout_json :: "layout \<Rightarrow> json" where
  "layout_json s = JObj
     [(''visibility'', JObj (map (\<lambda>(p, b). (part_text p, JBool b)) (ly_visibility s))),
      (''sidebarWidth'', JNum (ly_sidebar s)), (''auxiliaryBarWidth'', JNum (ly_auxiliary s)),
      (''panelHeight'', JNum (ly_panel s))]"

text \<open>\<open>setItem\<close> of a storage that accepts the write.\<close>

definition layout_persist :: "layout \<Rightarrow> layout" where
  "layout_persist s = s\<lparr>ly_storage := map_option (om_set layout_key (json_text (layout_json s))) (ly_storage s)\<rparr>"

definition ly_fire :: "layout_event \<Rightarrow> layout \<Rightarrow> layout" where
  "ly_fire e s = s\<lparr>ly_events := ly_events s @ [e]\<rparr>"

definition set_sidebar_width :: "rat \<Rightarrow> layout \<Rightarrow> layout" where
  "set_sidebar_width w s =
     (let next = max 270 w in
      if next = ly_sidebar s then s else ly_fire (SizeChanged Sidebar) (layout_persist (s\<lparr>ly_sidebar := next\<rparr>)))"

definition set_auxiliary_width :: "rat \<Rightarrow> layout \<Rightarrow> layout" where
  "set_auxiliary_width w s =
     (let next = max 270 w in
      if next = ly_auxiliary s then s else ly_fire (SizeChanged AuxiliaryBar) (layout_persist (s\<lparr>ly_auxiliary := next\<rparr>)))"

definition set_panel_height :: "rat \<Rightarrow> layout \<Rightarrow> layout" where
  "set_panel_height h s =
     (let next = max 77 h in
      if next = ly_panel s then s else ly_fire (SizeChanged Panel) (layout_persist (s\<lparr>ly_panel := next\<rparr>)))"

definition set_editor_visible :: "bool \<Rightarrow> layout \<Rightarrow> layout" where
  "set_editor_visible v s = (if v = ly_editor s then s else ly_fire (EditorToggled v) (s\<lparr>ly_editor := v\<rparr>))"

definition hidden_by :: "part \<Rightarrow> layout \<Rightarrow> string list" where
  "hidden_by p s = (case om_get (ly_auto_hidden s) p of None \<Rightarrow> [] | Some xs \<Rightarrow> xs)"

definition is_visible :: "part \<Rightarrow> layout \<Rightarrow> bool" where
  "is_visible p s \<longleftrightarrow>
     (case om_get (ly_visibility s) p of None \<Rightarrow> False | Some b \<Rightarrow> b) \<and> length (hidden_by p s) = 0"

definition get_part_root :: "part \<Rightarrow> layout \<Rightarrow> layout" where
  "get_part_root p s =
     (if om_has (ly_roots s) p then s else s\<lparr>ly_roots := om_set p (is_visible p s) (ly_roots s)\<rparr>)"

definition update_part_visibility :: "part \<Rightarrow> bool \<Rightarrow> layout \<Rightarrow> layout" where
  "update_part_visibility p v s =
     ly_fire (PartToggled p v)
       (if om_has (ly_roots s) p then s\<lparr>ly_roots := om_set p v (ly_roots s)\<rparr> else s)"

definition set_visible :: "part \<Rightarrow> bool \<Rightarrow> layout \<Rightarrow> layout" where
  "set_visible p v s =
     (let s' = s\<lparr>ly_visibility := om_set p v (ly_visibility s), ly_auto_hidden := om_del p (ly_auto_hidden s)\<rparr>
      in if om_get (ly_visibility s) p = Some v \<and> is_visible p s = is_visible p s' then s'
         else layout_persist (update_part_visibility p (is_visible p s') s'))"

definition set_auto_hidden :: "part \<Rightarrow> bool \<Rightarrow> string \<Rightarrow> layout \<Rightarrow> layout" where
  "set_auto_hidden p h src s =
     (let sources = (if h then os_add src (hidden_by p s) else os_del src (hidden_by p s));
          s' = (if h then s\<lparr>ly_auto_hidden := om_set p sources (ly_auto_hidden s)\<rparr>
                else if sources = [] then s\<lparr>ly_auto_hidden := om_del p (ly_auto_hidden s)\<rparr>
                else s\<lparr>ly_auto_hidden := om_set p sources (ly_auto_hidden s)\<rparr>)
      in if is_visible p s = is_visible p s' then s' else update_part_visibility p (is_visible p s') s')"

datatype layout_op =
    LySidebarWidth rat | LyAuxiliaryWidth rat | LyPanelHeight rat | LyEditor bool | LyRoot part
  | LyVisible part bool | LyAutoHidden part bool string

fun apply_layout :: "layout_op \<Rightarrow> layout \<Rightarrow> layout" where
  "apply_layout (LySidebarWidth w) = set_sidebar_width w"
| "apply_layout (LyAuxiliaryWidth w) = set_auxiliary_width w"
| "apply_layout (LyPanelHeight h) = set_panel_height h"
| "apply_layout (LyEditor v) = set_editor_visible v"
| "apply_layout (LyRoot p) = get_part_root p"
| "apply_layout (LyVisible p v) = set_visible p v"
| "apply_layout (LyAutoHidden p h src) = set_auto_hidden p h src"

section \<open>What every operation keeps\<close>

text \<open>
  The sizes stay above their minimum, every part has a visibility, and a part's root is displayed
  exactly if the part is visible.
\<close>

definition layout_ok :: "layout \<Rightarrow> bool" where
  "layout_ok s \<longleftrightarrow> 270 \<le> ly_sidebar s \<and> 270 \<le> ly_auxiliary s \<and> 77 \<le> ly_panel s \<and>
     map fst (ly_visibility s) = all_parts \<and>
     (\<forall>p b. om_get (ly_roots s) p = Some b \<longrightarrow> b = is_visible p s)"

lemma om_set_same_keys: "k \<in> set (map fst m) \<Longrightarrow> map fst (om_set k v m) = map fst m"
  by (induction m) auto

lemma om_set_same: "om_get m k = Some v \<Longrightarrow> om_set k v m = m"
  by (induction m) (auto split: if_splits)

lemma part_in_all [simp]: "p \<in> set all_parts"
  by (cases p) (simp_all add: all_parts_def)

lemma is_visible_eqI:
  "om_get (ly_visibility s) p = om_get (ly_visibility s') p \<Longrightarrow> om_get (ly_auto_hidden s) p = om_get (ly_auto_hidden s') p \<Longrightarrow>
   is_visible p s = is_visible p s'"
  by (simp add: is_visible_def hidden_by_def)

lemma is_visible_cong [simp]:
  "is_visible p (layout_persist s) = is_visible p s" "is_visible p (ly_fire e s) = is_visible p s"
  "is_visible p (s\<lparr>ly_roots := r\<rparr>) = is_visible p s" "is_visible p (s\<lparr>ly_sidebar := w\<rparr>) = is_visible p s"
  "is_visible p (s\<lparr>ly_auxiliary := w\<rparr>) = is_visible p s" "is_visible p (s\<lparr>ly_panel := w\<rparr>) = is_visible p s"
  "is_visible p (s\<lparr>ly_editor := v\<rparr>) = is_visible p s" "is_visible p (update_part_visibility q v s) = is_visible p s"
  by (simp_all add: is_visible_def hidden_by_def layout_persist_def ly_fire_def update_part_visibility_def)

lemma update_part_fields [simp]:
  "ly_sidebar (update_part_visibility p v s) = ly_sidebar s" "ly_auxiliary (update_part_visibility p v s) = ly_auxiliary s"
  "ly_panel (update_part_visibility p v s) = ly_panel s" "ly_visibility (update_part_visibility p v s) = ly_visibility s"
  "ly_storage (update_part_visibility p v s) = ly_storage s" "ly_auto_hidden (update_part_visibility p v s) = ly_auto_hidden s"
  "ly_editor (update_part_visibility p v s) = ly_editor s"
  "ly_events (update_part_visibility p v s) = ly_events s @ [PartToggled p v]"
  "om_get (ly_roots (update_part_visibility p v s)) q =
     (if q = p \<and> om_has (ly_roots s) p then Some v else om_get (ly_roots s) q)"
  by (simp_all add: update_part_visibility_def ly_fire_def)

lemma persist_fields [simp]:
  "ly_sidebar (layout_persist s) = ly_sidebar s" "ly_auxiliary (layout_persist s) = ly_auxiliary s"
  "ly_panel (layout_persist s) = ly_panel s" "ly_visibility (layout_persist s) = ly_visibility s"
  "ly_roots (layout_persist s) = ly_roots s" "ly_auto_hidden (layout_persist s) = ly_auto_hidden s"
  "ly_editor (layout_persist s) = ly_editor s" "ly_events (layout_persist s) = ly_events s"
  by (simp_all add: layout_persist_def)

lemma fire_fields [simp]:
  "ly_sidebar (ly_fire e s) = ly_sidebar s" "ly_auxiliary (ly_fire e s) = ly_auxiliary s"
  "ly_panel (ly_fire e s) = ly_panel s" "ly_visibility (ly_fire e s) = ly_visibility s"
  "ly_roots (ly_fire e s) = ly_roots s" "ly_auto_hidden (ly_fire e s) = ly_auto_hidden s"
  "ly_editor (ly_fire e s) = ly_editor s" "ly_storage (ly_fire e s) = ly_storage s"
  "ly_events (ly_fire e s) = ly_events s @ [e]"
  by (simp_all add: ly_fire_def)

text \<open>A change of one part's visibility: the other roots are right as they were.\<close>

lemma layout_ok_toggle:
  assumes ok: "layout_ok s"
    and sizes: "ly_sidebar s' = ly_sidebar s" "ly_auxiliary s' = ly_auxiliary s" "ly_panel s' = ly_panel s"
    and keys: "map fst (ly_visibility s') = map fst (ly_visibility s)" and roots: "ly_roots s' = ly_roots s"
    and others: "\<And>q. q \<noteq> p \<Longrightarrow> is_visible q s' = is_visible q s"
  shows "layout_ok (update_part_visibility p (is_visible p s') s')"
    and "is_visible p s = is_visible p s' \<Longrightarrow> layout_ok s'"
proof -
  have r: "b = is_visible q s" if "om_get (ly_roots s) q = Some b" for q b
    using ok that unfolding layout_ok_def by blast
  have u: "b = is_visible q s'" if "om_get (ly_roots (update_part_visibility p (is_visible p s') s')) q = Some b" for q b
  proof (cases "q = p")
    case True
    then show ?thesis using that by (auto simp: roots om_has_def split: if_splits)
  next
    case False
    then have "om_get (ly_roots s) q = Some b" using that by (simp add: roots)
    then have "b = is_visible q s" by (rule r)
    then show ?thesis unfolding others [OF False] .
  qed
  have b: "270 \<le> ly_sidebar s \<and> 270 \<le> ly_auxiliary s \<and> 77 \<le> ly_panel s \<and> map fst (ly_visibility s) = all_parts"
    using ok unfolding layout_ok_def by blast
  show "layout_ok (update_part_visibility p (is_visible p s') s')"
    unfolding layout_ok_def update_part_fields(1-4) sizes keys is_visible_cong using b u by blast
  show "layout_ok s'" if v: "is_visible p s = is_visible p s'"
  proof -
    have "is_visible q s' = is_visible q s" for q using v others by (cases "q = p") auto
    then have "b = is_visible q s'" if "om_get (ly_roots s) q = Some b" for q b using r [OF that] by simp
    with b show ?thesis unfolding layout_ok_def sizes keys roots by blast
  qed
qed

lemma layout_ok_persist [simp]: "layout_ok (layout_persist s) = layout_ok s"
  by (simp add: layout_ok_def)

lemma layout_ok_fire [simp]: "layout_ok (ly_fire e s) = layout_ok s"
  by (simp add: layout_ok_def)

lemma layout_ok_set_visible:
  assumes "layout_ok s"
  shows "layout_ok (set_visible p v s)"
proof -
  let ?s = "s\<lparr>ly_visibility := om_set p v (ly_visibility s), ly_auto_hidden := om_del p (ly_auto_hidden s)\<rparr>"
  have k: "map fst (om_set p v (ly_visibility s)) = map fst (ly_visibility s)"
    using assms by (intro om_set_same_keys) (simp add: layout_ok_def)
  have o: "is_visible q ?s = is_visible q s" if "q \<noteq> p" for q
    by (rule is_visible_eqI) (use that in simp_all)
  have "layout_ok (update_part_visibility p (is_visible p ?s) ?s)" "is_visible p s = is_visible p ?s \<Longrightarrow> layout_ok ?s"
    using layout_ok_toggle [OF assms, of ?s p] k o by simp_all
  then show ?thesis by (simp add: set_visible_def Let_def)
qed

lemma layout_ok_set_auto_hidden:
  assumes "layout_ok s"
  shows "layout_ok (set_auto_hidden p h src s)"
proof -
  define s' where "s' = (let sources = (if h then os_add src (hidden_by p s) else os_del src (hidden_by p s))
     in if h then s\<lparr>ly_auto_hidden := om_set p sources (ly_auto_hidden s)\<rparr>
        else if sources = [] then s\<lparr>ly_auto_hidden := om_del p (ly_auto_hidden s)\<rparr>
        else s\<lparr>ly_auto_hidden := om_set p sources (ly_auto_hidden s)\<rparr>)"
  have o: "is_visible q s' = is_visible q s" if "q \<noteq> p" for q
    by (rule is_visible_eqI) (use that in \<open>simp_all add: s'_def Let_def\<close>)
  have f: "ly_sidebar s' = ly_sidebar s" "ly_auxiliary s' = ly_auxiliary s" "ly_panel s' = ly_panel s"
    "map fst (ly_visibility s') = map fst (ly_visibility s)" "ly_roots s' = ly_roots s"
    by (simp_all add: s'_def Let_def)
  have "set_auto_hidden p h src s = (if is_visible p s = is_visible p s' then s' else update_part_visibility p (is_visible p s') s')"
    unfolding set_auto_hidden_def Let_def s'_def by (rule refl)
  then show ?thesis using layout_ok_toggle [OF assms f o] by simp
qed

lemma layout_ok_step: "layout_ok s \<Longrightarrow> layout_ok (apply_layout e s)"
proof (cases e)
  case (LyRoot p)
  assume ok: "layout_ok s"
  show ?thesis
  proof (cases "om_has (ly_roots s) p")
    case False
    then show ?thesis using ok LyRoot by (auto simp: layout_ok_def get_part_root_def)
  qed (use ok LyRoot in \<open>simp add: get_part_root_def\<close>)
qed (simp_all add: layout_ok_set_visible layout_ok_set_auto_hidden,
    simp_all add: layout_ok_def set_sidebar_width_def set_auxiliary_width_def set_panel_height_def
      set_editor_visible_def Let_def)

lemma restored_visibility_keys:
  assumes "map fst m = all_parts"
  shows "map fst (restored_visibility v m) = all_parts"
proof -
  have "map fst (fold (\<lambda>p m. case f p of JBool b \<Rightarrow> om_set p b m | _ \<Rightarrow> m) ps m) = all_parts" for f ps
    using assms
  proof (induction ps arbitrary: m)
    case (Cons p ps)
    have "map fst (om_set p b m) = all_parts" for b using Cons.prems by (simp add: om_set_same_keys)
    then show ?case using Cons by (simp split: json.split)
  qed simp
  then show ?thesis by (simp add: restored_visibility_def)
qed

lemma restored_size_least: "least \<le> old \<Longrightarrow> least \<le> restored_size least old v"
  by (simp add: restored_size_def split: option.split)

lemma layout_ok_new: "layout_ok (new_layout st)"
proof -
  have "layout_ok (default_layout st)" by (simp add: layout_ok_def default_layout_def all_parts_def)
  moreover have "layout_ok (layout_restore s)" if "layout_ok s" "ly_roots s = []" for s
    using that unfolding layout_restore_def layout_ok_def
    by (auto simp: restored_size_least restored_visibility_keys split: option.split)
  moreover have "ly_roots (default_layout st) = []" by (simp add: default_layout_def)
  ultimately show ?thesis unfolding new_layout_def by blast
qed

lemma layout_ok_history: "layout_ok s \<Longrightarrow> layout_ok (fold apply_layout es s)"
  by (induction es arbitrary: s) (simp_all add: layout_ok_step)

text \<open>
  Whatever is resized, shown, hidden or hidden automatically, no part gets smaller than its
  minimum and the element of every part is displayed exactly if the part counts as visible.
\<close>

theorem parts_displayed_as_visible:
  "let s = fold apply_layout es (new_layout st)
   in 270 \<le> ly_sidebar s \<and> 270 \<le> ly_auxiliary s \<and> 77 \<le> ly_panel s \<and>
      map_option (\<lambda>b. b = is_visible p s) (om_get (ly_roots s) p) \<noteq> Some False"
proof -
  have "layout_ok (fold apply_layout es (new_layout st))" by (rule layout_ok_history [OF layout_ok_new])
  then show ?thesis unfolding layout_ok_def Let_def by (cases "om_get (ly_roots (fold apply_layout es (new_layout st))) p") auto
qed

section \<open>A restart\<close>

lemma part_text_inj [simp]: "part_text p = part_text q \<longleftrightarrow> p = q"
  by (cases p; cases q) simp_all

lemma field_visibility:
  "field (JObj (map (\<lambda>(p, b). (part_text p, JBool b)) m)) (part_text q) =
     (case om_get m q of None \<Rightarrow> JUndef | Some b \<Rightarrow> JBool b)"
  by (induction m) (auto split: option.splits)

lemma restored_visibility_get:
  assumes "map fst m = all_parts"
  shows "om_get (restored_visibility (JObj (map (\<lambda>(p, b). (part_text p, JBool b)) m)) m0) p = om_get m p"
proof -
  let ?f = "\<lambda>p m'. case om_get m p of Some b \<Rightarrow> om_set p b m' | None \<Rightarrow> m'"
  have "om_get (fold ?f ps m') p = (if p \<in> set ps \<and> om_get m p \<noteq> None then om_get m p else om_get m' p)" for ps m'
    by (induction ps arbitrary: m') (auto split: option.split)
  moreover have "om_get m p \<noteq> None"
    using assms part_in_all [of p] by (metis map_of_eq_None_iff list.set_map)
  moreover have "restored_visibility (JObj (map (\<lambda>(p, b). (part_text p, JBool b)) m)) m0 = fold ?f all_parts m0"
    unfolding restored_visibility_def nullish_def
    by (rule arg_cong [where f = "\<lambda>f. fold f all_parts m0"], intro ext)
      (simp only: json.distinct if_False field_visibility simp_thms, simp split: option.split)
  ultimately show ?thesis by simp
qed

definition whole_layout :: "layout \<Rightarrow> bool" where
  "whole_layout s \<longleftrightarrow> (\<forall>r \<in> {ly_sidebar s, ly_auxiliary s, ly_panel s}. of_int \<lfloor>r\<rfloor> = r)"

lemma layout_json_parse:
  assumes "layout_ok s" and "whole_layout s"
  shows "json_parse (json_text (layout_json s)) = Some (layout_json s)"
proof -
  have d: "distinct (map fst (ly_visibility s))" using assms(1) by (simp add: layout_ok_def all_parts_def)
  have "map fst (map (\<lambda>(p, b). (part_text p, JBool b)) m) = map part_text (map fst m)" for m :: "(part, bool) omap"
    by (induction m) auto
  with d have "distinct (map fst (map (\<lambda>(p, b). (part_text p, JBool b)) (ly_visibility s)))"
    by (simp add: distinct_map inj_on_def)
  then have "storable (JObj (map (\<lambda>(p, b). (part_text p, JBool b)) (ly_visibility s)))"
    by (simp add: split_beta)
  then have "storable (layout_json s)" using assms(2) by (simp add: layout_json_def whole_layout_def)
  then show ?thesis by (rule json_parse_text)
qed

definition same_layout :: "layout \<Rightarrow> layout \<Rightarrow> bool" where
  "same_layout s s' \<longleftrightarrow> (\<forall>p. om_get (ly_visibility s) p = om_get (ly_visibility s') p) \<and>
     ly_sidebar s = ly_sidebar s' \<and> ly_auxiliary s = ly_auxiliary s' \<and> ly_panel s = ly_panel s'"

lemma restored_layout:
  assumes "layout_ok s" and "whole_layout s" and "om_get m layout_key = Some (json_text (layout_json s))"
  shows "same_layout (new_layout (Some m)) s"
proof -
  have n: "json_text (layout_json s) \<noteq> []" by (simp add: layout_json_def)
  have w: "\<not> nullish (layout_json s)" by (simp add: layout_json_def nullish_def)
  have f: "field (layout_json s) ''visibility'' = JObj (map (\<lambda>(p, b). (part_text p, JBool b)) (ly_visibility s))"
    "field (layout_json s) ''sidebarWidth'' = JNum (ly_sidebar s)"
    "field (layout_json s) ''auxiliaryBarWidth'' = JNum (ly_auxiliary s)"
    "field (layout_json s) ''panelHeight'' = JNum (ly_panel s)"
    by (simp_all add: layout_json_def)
  have st: "ly_storage (default_layout (Some m)) = Some m" by (simp add: default_layout_def)
  have k: "map fst (ly_visibility s) = all_parts" and b: "270 \<le> ly_sidebar s" "270 \<le> ly_auxiliary s" "77 \<le> ly_panel s"
    using assms(1) unfolding layout_ok_def by blast+
  show ?thesis
    using b
    by (simp add: same_layout_def new_layout_def layout_restore_def st assms(3) n w f
        layout_json_parse [OF assms(1,2)] restored_size_def finite_num_def restored_visibility_get [OF k])
qed

text \<open>What is stored is what is shown, or nothing has changed since the layout was restored.\<close>

definition stored_since :: "layout \<Rightarrow> layout \<Rightarrow> bool" where
  "stored_since s0 s \<longleftrightarrow> (ly_storage s = ly_storage s0 \<and> same_layout s0 s) \<or>
     (\<exists>m. ly_storage s = Some m \<and> om_get m layout_key = Some (json_text (layout_json s)))"

lemma stored_persist: "ly_storage s \<noteq> None \<Longrightarrow> stored_since s0 (layout_persist s)"
  by (auto simp: stored_since_def layout_persist_def layout_json_def)

lemma stored_same:
  assumes "stored_since s0 s" and "ly_storage s' = ly_storage s" and "ly_visibility s' = ly_visibility s"
    and "ly_sidebar s' = ly_sidebar s" and "ly_auxiliary s' = ly_auxiliary s" and "ly_panel s' = ly_panel s"
  shows "stored_since s0 s'"
proof -
  have "layout_json s' = layout_json s" by (simp add: layout_json_def assms)
  then show ?thesis using assms(1) by (simp add: stored_since_def same_layout_def assms(2-))
qed

lemma storage_step:
  "ly_storage s \<noteq> None \<Longrightarrow> stored_since s0 s \<Longrightarrow> ly_storage (apply_layout e s) \<noteq> None \<and> stored_since s0 (apply_layout e s)"
proof (cases e)
  case (LyVisible p v)
  assume st: "ly_storage s \<noteq> None" and since: "stored_since s0 s"
  let ?s = "s\<lparr>ly_visibility := om_set p v (ly_visibility s), ly_auto_hidden := om_del p (ly_auto_hidden s)\<rparr>"
  have "stored_since s0 ?s" if "om_get (ly_visibility s) p = Some v"
    by (rule stored_same [OF since]) (simp_all add: om_set_same that)
  moreover have "stored_since s0 (layout_persist (update_part_visibility p b ?s))" for b
    by (rule stored_persist) (use st in simp)
  ultimately show ?thesis using st by (simp add: LyVisible set_visible_def Let_def layout_persist_def)
next
  case (LyAutoHidden p h src)
  assume st: "ly_storage s \<noteq> None" and since: "stored_since s0 s"
  show ?thesis
    using st stored_same [OF since] by (simp add: LyAutoHidden set_auto_hidden_def Let_def)
next
  case (LySidebarWidth w)
  assume st: "ly_storage s \<noteq> None" and since: "stored_since s0 s"
  have "stored_since s0 (ly_fire x (layout_persist (s\<lparr>ly_sidebar := r\<rparr>)))" for x r
    by (rule stored_same [OF stored_persist [of "s\<lparr>ly_sidebar := r\<rparr>"]]) (use st in simp_all)
  then show ?thesis using st since by (simp add: LySidebarWidth set_sidebar_width_def Let_def layout_persist_def)
next
  case (LyAuxiliaryWidth w)
  assume st: "ly_storage s \<noteq> None" and since: "stored_since s0 s"
  have "stored_since s0 (ly_fire x (layout_persist (s\<lparr>ly_auxiliary := r\<rparr>)))" for x r
    by (rule stored_same [OF stored_persist [of "s\<lparr>ly_auxiliary := r\<rparr>"]]) (use st in simp_all)
  then show ?thesis using st since by (simp add: LyAuxiliaryWidth set_auxiliary_width_def Let_def layout_persist_def)
next
  case (LyPanelHeight w)
  assume st: "ly_storage s \<noteq> None" and since: "stored_since s0 s"
  have "stored_since s0 (ly_fire x (layout_persist (s\<lparr>ly_panel := r\<rparr>)))" for x r
    by (rule stored_same [OF stored_persist [of "s\<lparr>ly_panel := r\<rparr>"]]) (use st in simp_all)
  then show ?thesis using st since by (simp add: LyPanelHeight set_panel_height_def Let_def layout_persist_def)
next
  case (LyEditor v)
  assume st: "ly_storage s \<noteq> None" and since: "stored_since s0 s"
  show ?thesis using st stored_same [OF since] since by (simp add: LyEditor set_editor_visible_def)
next
  case (LyRoot p)
  assume st: "ly_storage s \<noteq> None" and since: "stored_since s0 s"
  show ?thesis using st stored_same [OF since] since by (simp add: LyRoot get_part_root_def)
qed

lemma storage_history:
  "ly_storage s \<noteq> None \<Longrightarrow> stored_since s0 s \<Longrightarrow> ly_storage (fold apply_layout es s) \<noteq> None \<and> stored_since s0 (fold apply_layout es s)"
proof (induction es arbitrary: s)
  case (Cons e es)
  then show ?case using storage_step [of s s0 e] by simp
qed simp

lemma new_layout_storage [simp]: "ly_storage (new_layout st) = st"
  by (simp add: new_layout_def layout_restore_def default_layout_def split: option.split)

text \<open>
  C29: after any use of the layout with a storage that accepts writes the next start shows the same
  parts in the same sizes, if the sizes are whole pixels: every change the user made is stored, and
  what was hidden automatically is shown again.
\<close>

theorem layout_survives_restart:
  assumes "s = fold apply_layout es (new_layout (Some m))" and "whole_layout s"
  shows "same_layout (new_layout (ly_storage s)) s \<and> om_get (ly_auto_hidden (new_layout (ly_storage s))) p = None"
proof -
  have "stored_since (new_layout (Some m)) (new_layout (Some m))"
    by (simp add: stored_since_def same_layout_def)
  then have s: "stored_since (new_layout (Some m)) s" unfolding assms(1)
    using storage_history [of "new_layout (Some m)"] by simp
  have ok: "layout_ok s" unfolding assms(1) by (rule layout_ok_history [OF layout_ok_new])
  have "same_layout (new_layout (ly_storage s)) s"
    using s restored_layout [OF ok assms(2)] unfolding stored_since_def by auto
  moreover have "ly_auto_hidden (new_layout st) = []" for st
    by (simp add: new_layout_def layout_restore_def default_layout_def split: option.split)
  ultimately show ?thesis by simp
qed

theorem layout_survives_restart_witness:
  "let s = fold apply_layout [LySidebarWidth 100, LyVisible Panel True, LyAutoHidden Sidebar True ''narrow''] (new_layout (Some []))
   in same_layout (new_layout (ly_storage s)) s \<and> om_get (ly_auto_hidden (new_layout (ly_storage s))) Sidebar = None"
proof -
  let ?s = "fold apply_layout [LySidebarWidth 100, LyVisible Panel True, LyAutoHidden Sidebar True ''narrow''] (new_layout (Some []))"
  have "whole_layout ?s"
    by (simp add: whole_layout_def new_layout_def layout_restore_def default_layout_def set_sidebar_width_def
        set_visible_def set_auto_hidden_def Let_def)
  from layout_survives_restart [OF refl this] show ?thesis unfolding Let_def .
qed

section \<open>The separators\<close>

datatype sash_kind = AuxiliarySash | PanelSash | SidebarSash

text \<open>Whether moving the pointer right or down enlarges the part, and its two keys.\<close>

fun sash_direction :: "sash_kind \<Rightarrow> rat" where
  "sash_direction AuxiliarySash = -1"
| "sash_direction PanelSash = -1"
| "sash_direction SidebarSash = 1"

fun sash_keys :: "sash_kind \<Rightarrow> string \<times> string" where
  "sash_keys AuxiliarySash = (''ArrowRight'', ''ArrowLeft'')"
| "sash_keys PanelSash = (''ArrowDown'', ''ArrowUp'')"
| "sash_keys SidebarSash = (''ArrowLeft'', ''ArrowRight'')"

fun sash_minimum :: "sash_kind \<Rightarrow> rat" where
  "sash_minimum AuxiliarySash = 270"
| "sash_minimum PanelSash = 77"
| "sash_minimum SidebarSash = 270"

text \<open>What the workbench creates each separator with: the size, the part and the resizing.\<close>

fun sash_size :: "sash_kind \<Rightarrow> layout \<Rightarrow> rat" where
  "sash_size AuxiliarySash = ly_auxiliary"
| "sash_size PanelSash = ly_panel"
| "sash_size SidebarSash = ly_sidebar"

fun sash_part :: "sash_kind \<Rightarrow> part" where
  "sash_part AuxiliarySash = AuxiliaryBar"
| "sash_part PanelSash = Panel"
| "sash_part SidebarSash = Sidebar"

definition resize_sidebar :: "rat \<Rightarrow> layout \<Rightarrow> layout" where
  "resize_sidebar w s = (if w < 270 then set_visible Sidebar False s else set_sidebar_width w s)"

definition resize_auxiliary :: "rat \<Rightarrow> layout \<Rightarrow> layout" where
  "resize_auxiliary w s = (if w < 270 then set_visible AuxiliaryBar False s else set_auxiliary_width w s)"

definition resize_panel :: "rat \<Rightarrow> layout \<Rightarrow> layout" where
  "resize_panel h s = (if h < 77 then set_visible Panel False s else set_panel_height h s)"

fun sash_resize :: "sash_kind \<Rightarrow> rat \<Rightarrow> layout \<Rightarrow> layout" where
  "sash_resize AuxiliarySash = resize_auxiliary"
| "sash_resize PanelSash = resize_panel"
| "sash_resize SidebarSash = resize_sidebar"

text \<open>A drag: the size at its start and, at every move, the pointer's offset from where it went down.\<close>

definition sash_drag :: "sash_kind \<Rightarrow> rat \<Rightarrow> rat list \<Rightarrow> layout \<Rightarrow> layout" where
  "sash_drag k down moves s =
     (let start = sash_size k s in fold (\<lambda>p. sash_resize k (start + sash_direction k * (p - down))) moves s)"

definition sash_key :: "sash_kind \<Rightarrow> string \<Rightarrow> layout \<Rightarrow> layout" where
  "sash_key k key s =
     (let delta = (if key = snd (sash_keys k) then 10 else if key = fst (sash_keys k) then -10 else 0)
      in if delta = 0 then s else sash_resize k (sash_size k s + delta) s)"

lemma set_visible_sizes [simp]:
  "ly_auxiliary (set_visible p v s) = ly_auxiliary s" "ly_panel (set_visible p v s) = ly_panel s"
  "ly_sidebar (set_visible p v s) = ly_sidebar s"
  by (simp_all add: set_visible_def Let_def)

lemma sash_resize_size:
  "sash_size k (sash_resize k r s) = (if r < sash_minimum k then sash_size k s else r)"
  by (cases k) (simp_all add: resize_auxiliary_def resize_panel_def resize_sidebar_def
    set_auxiliary_width_def set_panel_height_def set_sidebar_width_def Let_def)

lemma set_visible_visible [simp]: "is_visible p (set_visible p v s) = v"
  by (simp add: set_visible_def Let_def) (simp add: is_visible_def hidden_by_def)

lemma sash_resize_visible:
  "is_visible (sash_part k) (sash_resize k r s) \<longleftrightarrow> \<not> r < sash_minimum k \<and> is_visible (sash_part k) s"
  by (cases k) (simp_all add: resize_auxiliary_def resize_panel_def resize_sidebar_def
    set_auxiliary_width_def set_panel_height_def set_sidebar_width_def Let_def)

text \<open>
  A drag that once takes a part below its minimum hides it, and moving back within the same
  drag does not show it again, though the size follows the pointer again: the part then has the
  size of the last move that was large enough, or the one the drag began with.
\<close>

theorem drag_hides_for_good:
  "let s' = sash_drag k down moves s; sizes = map (\<lambda>p. sash_size k s + sash_direction k * (p - down)) moves
   in is_visible (sash_part k) s' = (is_visible (sash_part k) s \<and> list_all (\<lambda>r. \<not> r < sash_minimum k) sizes) \<and>
      sash_size k s' = last (sash_size k s # filter (\<lambda>r. \<not> r < sash_minimum k) sizes)"
proof -
  have "is_visible (sash_part k) (fold (\<lambda>p. sash_resize k (f p)) moves t) =
       (is_visible (sash_part k) t \<and> list_all (\<lambda>r. \<not> r < sash_minimum k) (map f moves))
     \<and> sash_size k (fold (\<lambda>p. sash_resize k (f p)) moves t) =
       last (sash_size k t # filter (\<lambda>r. \<not> r < sash_minimum k) (map f moves))" for f t
    by (induction moves rule: rev_induct) (auto simp: sash_resize_visible sash_resize_size)
  from this [of "\<lambda>p. sash_size k s + sash_direction k * (p - down)" s] show ?thesis
    unfolding sash_drag_def Let_def .
qed

section \<open>The layout policy of the window\<close>

datatype layout_mode = DesktopLayout | PhoneLayout | TabletLayout

definition mode_of :: "bool \<Rightarrow> rat option \<Rightarrow> layout_mode" where
  "mode_of mobile_platform width =
     (if \<not> mobile_platform then DesktopLayout
      else let w = (case width of None \<Rightarrow> 1024 | Some w \<Rightarrow> w)
           in if w < 640 then PhoneLayout else if w < 1024 then TabletLayout else DesktopLayout)"

definition layout_policy :: "bool \<Rightarrow> rat option \<Rightarrow> layout \<Rightarrow> layout" where
  "layout_policy mobile_platform width s =
     (case width of
        None \<Rightarrow> s
      | Some w \<Rightarrow>
          if w \<le> 0 then s
          else let mobile = (mode_of mobile_platform width \<noteq> DesktopLayout) in
            set_auto_hidden Panel mobile ''responsive-policy''
              (set_auto_hidden Sidebar (mobile \<or> w < 700) ''responsive-policy''
                (set_auto_hidden AuxiliaryBar (mobile \<or> w < 900) ''responsive-policy'' s)))"

section \<open>The responsive sidebar\<close>

text \<open>
  The state around the layout that decides whether the window is small: the setting, the width of
  the viewport (\<open>None\<close>: no window), and what the contribution remembers.
\<close>

record shell =
  sh_layout :: layout
  sh_setting :: bool
  sh_width :: "rat option"
  sh_previous :: bool
  sh_hidden :: bool
  sh_applying :: bool

definition responsive_source :: string where
  "responsive_source = ''responsive-sessions-sidebar''"

definition is_constrained :: "shell \<Rightarrow> bool" where
  "is_constrained s \<longleftrightarrow> sh_setting s \<and> (case sh_width s of None \<Rightarrow> False | Some w \<Rightarrow> w \<le> 1800) \<and>
     ly_editor (sh_layout s) \<and> is_visible AuxiliaryBar (sh_layout s)"

definition new_shell :: "layout \<Rightarrow> bool \<Rightarrow> rat option \<Rightarrow> shell" where
  "new_shell l setting width =
     (let s = \<lparr>sh_layout = l, sh_setting = setting, sh_width = width, sh_previous = False, sh_hidden = False, sh_applying = False\<rparr>
      in s\<lparr>sh_previous := is_constrained s\<rparr>)"

text \<open>
  The listeners run inside the layout's \<open>fire\<close>; hiding the sidebar fires again, so the update is
  recursive.  The first argument bounds the depth: the update nested in an update finds nothing
  to do, so a depth of two is the program's (\<open>responsive_depth\<close> below).
\<close>

fun responsive_update :: "nat \<Rightarrow> shell \<Rightarrow> shell"
  and responsive_hear :: "nat \<Rightarrow> layout_event \<Rightarrow> shell \<Rightarrow> shell"
  and responsive_hide :: "nat \<Rightarrow> bool \<Rightarrow> shell \<Rightarrow> shell \<times> bool" where
  "responsive_update 0 s = s"
| "responsive_update (Suc n) s =
     (let constrained = is_constrained s in
      if constrained = sh_previous s then s
      else let s' = s\<lparr>sh_previous := constrained\<rparr> in
        if constrained
        then (case responsive_hide n True s' of (t, done) \<Rightarrow> if done then t\<lparr>sh_hidden := True\<rparr> else t)
        else if sh_hidden s' then (fst (responsive_hide n False s'))\<lparr>sh_hidden := False\<rparr>
        else s')"
| "responsive_hear n e s =
     (case e of
        EditorToggled v \<Rightarrow> responsive_update n s
      | PartToggled p v \<Rightarrow>
          responsive_update n (if p = Sidebar \<and> \<not> sh_applying s then s\<lparr>sh_hidden := False\<rparr> else s)
      | SizeChanged p \<Rightarrow> s)"
| "responsive_hide n h s =
     (if is_visible Sidebar (sh_layout s) = (\<not> h) then (s, False)
      else
        let l = set_auto_hidden Sidebar h responsive_source (sh_layout s);
            fired = drop (length (ly_events (sh_layout s))) (ly_events l)
        in ((fold (responsive_hear n) fired (s\<lparr>sh_applying := True, sh_layout := l\<rparr>))\<lparr>sh_applying := False\<rparr>, True))"

text \<open>A step of the window around the layout; the layout's listeners run on what it fired.\<close>

definition shell_do :: "(layout \<Rightarrow> layout) \<Rightarrow> shell \<Rightarrow> shell" where
  "shell_do f s =
     (let l = f (sh_layout s); fired = drop (length (ly_events (sh_layout s))) (ly_events l)
      in fold (responsive_hear 2) fired (s\<lparr>sh_layout := l\<rparr>))"

datatype shell_op = ShLayout layout_op | ShResize rat | ShSetting bool | ShSession

fun apply_shell :: "shell_op \<Rightarrow> shell \<Rightarrow> shell" where
  "apply_shell (ShLayout e) s = shell_do (apply_layout e) s"
| "apply_shell (ShResize w) s = responsive_update 2 (s\<lparr>sh_width := Some w\<rparr>)"
| "apply_shell (ShSetting b) s = responsive_update 2 (s\<lparr>sh_setting := b\<rparr>)"
| "apply_shell ShSession s = s\<lparr>sh_previous := is_constrained s\<rparr>"

text \<open>Other controllers use sources of their own.\<close>

fun foreign_op :: "shell_op \<Rightarrow> bool" where
  "foreign_op (ShLayout (LyAutoHidden p h src)) = (src \<noteq> responsive_source)"
| "foreign_op _ = True"

definition gives_way :: "layout \<Rightarrow> bool" where
  "gives_way l \<longleftrightarrow> responsive_source \<in> set (hidden_by Sidebar l)"

definition shell_sane :: "shell \<Rightarrow> bool" where
  "shell_sane s \<longleftrightarrow> \<not> sh_applying s \<and> sh_hidden s = gives_way (sh_layout s) \<and>
     (sh_hidden s \<longrightarrow> sh_previous s \<and> om_get (ly_visibility (sh_layout s)) Sidebar = Some True)"

definition shell_ok :: "shell \<Rightarrow> bool" where
  "shell_ok s \<longleftrightarrow> shell_sane s \<and> sh_previous s = is_constrained s"

lemma gives_way_invisible: "gives_way l \<Longrightarrow> \<not> is_visible Sidebar l"
  by (auto simp: gives_way_def is_visible_def)

lemma auto_hidden_fields [simp]:
  "ly_visibility (set_auto_hidden p h src l) = ly_visibility l" "ly_editor (set_auto_hidden p h src l) = ly_editor l"
  by (simp_all add: set_auto_hidden_def Let_def)

lemma hidden_by_auto:
  "hidden_by q (set_auto_hidden p h src l) =
     (if q = p then (if h then os_add src (hidden_by p l) else os_del src (hidden_by p l)) else hidden_by q l)"
  by (simp add: set_auto_hidden_def Let_def hidden_by_def)

lemma is_visible_auto_other: "q \<noteq> p \<Longrightarrow> is_visible q (set_auto_hidden p h src l) = is_visible q l"
  by (simp add: is_visible_def hidden_by_auto)

lemma auto_hidden_events:
  "ly_events (set_auto_hidden p h src l) = ly_events l @
     (if is_visible p (set_auto_hidden p h src l) = is_visible p l then [] else [PartToggled p (is_visible p (set_auto_hidden p h src l))])"
  by (simp add: set_auto_hidden_def Let_def)

lemma constrained_cong:
  "sh_setting s = sh_setting s' \<Longrightarrow> sh_width s = sh_width s' \<Longrightarrow> ly_editor (sh_layout s) = ly_editor (sh_layout s') \<Longrightarrow>
   is_visible AuxiliaryBar (sh_layout s) = is_visible AuxiliaryBar (sh_layout s') \<Longrightarrow> is_constrained s = is_constrained s'"
  by (simp add: is_constrained_def)

lemma update_settled: "is_constrained s = sh_previous s \<Longrightarrow> responsive_update n s = s"
  by (cases n) simp_all

text \<open>Hiding or showing the sidebar: the update nested in it has nothing to do.\<close>

lemma hide_eq:
  assumes "is_constrained s = sh_previous s" and "\<not> sh_applying s"
  shows "responsive_hide n h s =
     (if is_visible Sidebar (sh_layout s) = (\<not> h) then (s, False)
      else (s\<lparr>sh_layout := set_auto_hidden Sidebar h responsive_source (sh_layout s)\<rparr>, True))"
proof -
  let ?t = "s\<lparr>sh_applying := True, sh_layout := set_auto_hidden Sidebar h responsive_source (sh_layout s)\<rparr>"
  have "is_constrained ?t = is_constrained s"
    by (rule constrained_cong) (simp_all add: is_visible_auto_other)
  then have "responsive_update n ?t = ?t" using assms(1) by (intro update_settled) simp
  then have "fold (responsive_hear n) (drop (length (ly_events (sh_layout s)))
        (ly_events (set_auto_hidden Sidebar h responsive_source (sh_layout s)))) ?t = ?t"
    by (simp add: auto_hidden_events)
  then show ?thesis using assms(2) by (simp add: Let_def del: responsive_hear.simps)
qed

lemma responsive_depth:
  assumes "\<not> sh_applying s"
  shows "responsive_update (Suc n) s =
    (if is_constrained s = sh_previous s then s
     else let s' = s\<lparr>sh_previous := is_constrained s\<rparr>;
              set = (\<lambda>h. set_auto_hidden Sidebar h responsive_source (sh_layout s))
       in if is_constrained s
          then (if is_visible Sidebar (sh_layout s) then s'\<lparr>sh_layout := set True, sh_hidden := True\<rparr> else s')
          else if sh_hidden s then (if is_visible Sidebar (sh_layout s) then s' else s'\<lparr>sh_layout := set False\<rparr>)\<lparr>sh_hidden := False\<rparr>
          else s')"
proof -
  have c: "is_constrained (s\<lparr>sh_previous := b\<rparr>) = is_constrained s" for b by (simp add: is_constrained_def)
  have h: "responsive_hide n b (s\<lparr>sh_previous := is_constrained s\<rparr>) =
      (if is_visible Sidebar (sh_layout s) = (\<not> b) then (s\<lparr>sh_previous := is_constrained s\<rparr>, False)
       else (s\<lparr>sh_previous := is_constrained s, sh_layout := set_auto_hidden Sidebar b responsive_source (sh_layout s)\<rparr>, True))" for b
    using hide_eq [of "s\<lparr>sh_previous := is_constrained s\<rparr>" n b] c assms by simp
  show ?thesis
  proof (cases "is_constrained s")
    case True
    with h [of True] show ?thesis by (simp add: Let_def del: responsive_hide.simps)
  next
    case False
    with h [of False] show ?thesis by (simp add: Let_def del: responsive_hide.simps)
  qed
qed

lemma shell_okI:
  "\<not> sh_applying s \<Longrightarrow> sh_hidden s = gives_way (sh_layout s) \<Longrightarrow> sh_previous s = is_constrained s \<Longrightarrow>
   (sh_hidden s \<Longrightarrow> sh_previous s \<and> om_get (ly_visibility (sh_layout s)) Sidebar = Some True) \<Longrightarrow> shell_ok s"
  unfolding shell_ok_def shell_sane_def by blast

lemma gives_way_set [simp]: "gives_way (set_auto_hidden Sidebar h responsive_source l) = h"
  by (simp add: gives_way_def hidden_by_auto)

lemma constrained_layout:
  "ly_editor l = ly_editor (sh_layout s) \<Longrightarrow> is_visible AuxiliaryBar l = is_visible AuxiliaryBar (sh_layout s) \<Longrightarrow>
   is_constrained (s\<lparr>sh_previous := b, sh_layout := l, sh_hidden := h\<rparr>) = is_constrained s"
  "is_constrained (s\<lparr>sh_previous := b\<rparr>) = is_constrained s"
  "is_constrained (s\<lparr>sh_previous := b, sh_hidden := h\<rparr>) = is_constrained s"
  by (simp_all add: is_constrained_def)

lemma update_sane:
  assumes "shell_sane s"
  shows "shell_ok (responsive_update (Suc n) s)"
proof -
  have a: "\<not> sh_applying s" and g: "sh_hidden s = gives_way (sh_layout s)"
    and m: "sh_hidden s \<Longrightarrow> sh_previous s \<and> om_get (ly_visibility (sh_layout s)) Sidebar = Some True"
    using assms unfolding shell_sane_def by blast+
  have vis: "om_get (ly_visibility (sh_layout s)) Sidebar = Some True" if "is_visible Sidebar (sh_layout s)"
    using that by (auto simp: is_visible_def split: option.splits)
  have inv: "\<not> is_visible Sidebar (sh_layout s)" if "sh_hidden s"
    using gives_way_invisible that g by simp
  consider "is_constrained s = sh_previous s"
    | "is_constrained s" "is_visible Sidebar (sh_layout s)" "\<not> sh_previous s"
    | "is_constrained s" "\<not> is_visible Sidebar (sh_layout s)" "\<not> sh_previous s"
    | "\<not> is_constrained s" "sh_hidden s" "sh_previous s"
    | "\<not> is_constrained s" "\<not> sh_hidden s" "sh_previous s" by blast
  then show ?thesis
  proof cases
    case 1
    then show ?thesis using assms by (simp add: shell_ok_def)
  next
    case 2
    show ?thesis unfolding responsive_depth [OF a] Let_def
      by (rule shell_okI) (use 2 a vis in \<open>simp_all add: constrained_layout is_visible_auto_other\<close>)
  next
    case 3
    show ?thesis unfolding responsive_depth [OF a] Let_def
      by (rule shell_okI) (use 3 a g m in \<open>simp_all add: constrained_layout\<close>)
  next
    case 4
    show ?thesis unfolding responsive_depth [OF a] Let_def
      by (rule shell_okI) (use 4 a inv in \<open>simp_all add: constrained_layout is_visible_auto_other\<close>)
  next
    case 5
    show ?thesis unfolding responsive_depth [OF a] Let_def
      by (rule shell_okI) (use 5 a g in \<open>simp_all add: constrained_layout\<close>)
  qed
qed

lemma set_visible_events:
  "ly_events (set_visible p v l) = ly_events l @
     (if om_get (ly_visibility l) p = Some v \<and> is_visible p l = v then [] else [PartToggled p v])"
proof -
  have "is_visible p (l\<lparr>ly_visibility := om_set p v (ly_visibility l), ly_auto_hidden := om_del p (ly_auto_hidden l)\<rparr>) = v"
    by (simp add: is_visible_def hidden_by_def)
  then show ?thesis by (simp add: set_visible_def Let_def)
qed

lemma set_visible_fields:
  "ly_editor (set_visible p v l) = ly_editor l"
  "ly_visibility (set_visible p v l) = om_set p v (ly_visibility l)"
  "hidden_by q (set_visible p v l) = (if q = p then [] else hidden_by q l)"
  by (simp_all add: set_visible_def Let_def hidden_by_def)

lemma set_visible_other: "q \<noteq> p \<Longrightarrow> is_visible q (set_visible p v l) = is_visible q l"
  by (simp add: is_visible_def set_visible_fields)

text \<open>An operation that fires nothing the listener reacts to, or one event it does.\<close>

lemma shell_do_quiet:
  assumes "ly_events (f (sh_layout s)) = ly_events (sh_layout s) @ fired" and "fired \<in> {[], [SizeChanged p]}"
  shows "shell_do f s = s\<lparr>sh_layout := f (sh_layout s)\<rparr>"
  using assms by (auto simp: shell_do_def Let_def)

lemma shell_do_fired:
  assumes "ly_events (f (sh_layout s)) = ly_events (sh_layout s) @ [e]"
  shows "shell_do f s = responsive_hear 2 e (s\<lparr>sh_layout := f (sh_layout s)\<rparr>)"
  by (simp add: shell_do_def Let_def assms del: responsive_hear.simps)

lemma update_2: "shell_sane s \<Longrightarrow> shell_ok (responsive_update 2 s)"
  using update_sane [of s 1] by (simp add: numeral_2_eq_2 del: responsive_update.simps)

lemma shell_ok_layout:
  assumes "shell_ok s" and "ly_editor l = ly_editor (sh_layout s)"
    and "is_visible AuxiliaryBar l = is_visible AuxiliaryBar (sh_layout s)"
    and "gives_way l = gives_way (sh_layout s)"
    and "gives_way l \<Longrightarrow> om_get (ly_visibility l) Sidebar = om_get (ly_visibility (sh_layout s)) Sidebar"
  shows "shell_ok (s\<lparr>sh_layout := l\<rparr>)"
proof -
  have "is_constrained (s\<lparr>sh_layout := l\<rparr>) = is_constrained s" by (simp add: is_constrained_def assms(2,3))
  then show ?thesis using assms(1,4,5) unfolding shell_ok_def shell_sane_def by auto
qed

lemma shell_sane_layout:
  assumes "shell_ok s" and "gives_way l = gives_way (sh_layout s)"
    and "gives_way l \<Longrightarrow> om_get (ly_visibility l) Sidebar = om_get (ly_visibility (sh_layout s)) Sidebar"
  shows "shell_sane (s\<lparr>sh_layout := l\<rparr>)"
  using assms unfolding shell_ok_def shell_sane_def by auto

lemma shell_sane_shown:
  assumes "shell_ok s" and "\<not> gives_way l"
  shows "shell_sane (s\<lparr>sh_layout := l, sh_hidden := False\<rparr>)"
  using assms unfolding shell_ok_def shell_sane_def by simp

lemma shell_ok_visible:
  assumes ok: "shell_ok s"
  shows "shell_ok (shell_do (set_visible p v) s)"
proof -
  let ?l = "set_visible p v (sh_layout s)"
  have sane: "\<not> sh_applying s" "sh_hidden s = gives_way (sh_layout s)"
    "sh_hidden s \<Longrightarrow> om_get (ly_visibility (sh_layout s)) Sidebar = Some True"
    using ok unfolding shell_ok_def shell_sane_def by blast+
  show ?thesis
  proof (cases "om_get (ly_visibility (sh_layout s)) p = Some v \<and> is_visible p (sh_layout s) = v")
    case True
    then have q: "shell_do (set_visible p v) s = s\<lparr>sh_layout := ?l\<rparr>"
      by (intro shell_do_quiet [where fired = "[]"]) (simp_all add: set_visible_events)
    have n: "\<not> gives_way (sh_layout s)" if "p = Sidebar"
    proof
      assume g: "gives_way (sh_layout s)"
      then have "om_get (ly_visibility (sh_layout s)) Sidebar = Some True" using sane by simp
      then show False using True that gives_way_invisible [OF g] by simp
    qed
    show ?thesis unfolding q
    proof (rule shell_ok_layout [OF ok])
      show "is_visible AuxiliaryBar ?l = is_visible AuxiliaryBar (sh_layout s)"
        using True by (cases "p = AuxiliaryBar") (simp_all add: set_visible_other)
      show "gives_way ?l = gives_way (sh_layout s)"
        using n by (cases "p = Sidebar") (simp_all add: gives_way_def set_visible_fields)
    qed (use True in \<open>auto simp: set_visible_fields\<close>)
  next
    case False
    then have q: "shell_do (set_visible p v) s = responsive_hear 2 (PartToggled p v) (s\<lparr>sh_layout := ?l\<rparr>)"
      by (intro shell_do_fired) (simp add: set_visible_events)
    show ?thesis
    proof (cases "p = Sidebar")
      case True
      have "shell_sane (s\<lparr>sh_layout := ?l, sh_hidden := False\<rparr>)"
        by (rule shell_sane_shown [OF ok]) (simp add: True gives_way_def set_visible_fields)
      then show ?thesis unfolding q using update_2 True sane(1) by simp
    next
      case other: False
      have "shell_sane (s\<lparr>sh_layout := ?l\<rparr>)"
        by (rule shell_sane_layout [OF ok]) (use other in \<open>simp_all add: gives_way_def set_visible_fields\<close>)
      then show ?thesis unfolding q using update_2 other by simp
    qed
  qed
qed

lemma shell_ok_auto_hidden:
  assumes ok: "shell_ok s" and src: "src \<noteq> responsive_source"
  shows "shell_ok (shell_do (set_auto_hidden p h src) s)"
proof -
  let ?l = "set_auto_hidden p h src (sh_layout s)"
  have g: "gives_way ?l = gives_way (sh_layout s)" using src by (simp add: gives_way_def hidden_by_auto)
  have a: "\<not> sh_applying s" using ok unfolding shell_ok_def shell_sane_def by blast
  show ?thesis
  proof (cases "is_visible p ?l = is_visible p (sh_layout s)")
    case True
    then have q: "shell_do (set_auto_hidden p h src) s = s\<lparr>sh_layout := ?l\<rparr>"
      by (intro shell_do_quiet [where fired = "[]"]) (simp_all add: auto_hidden_events)
    have "is_visible AuxiliaryBar ?l = is_visible AuxiliaryBar (sh_layout s)"
      using True by (cases "p = AuxiliaryBar") (simp_all add: is_visible_auto_other)
    then show ?thesis unfolding q by (intro shell_ok_layout [OF ok]) (simp_all add: g)
  next
    case False
    then have q: "shell_do (set_auto_hidden p h src) s =
        responsive_hear 2 (PartToggled p (is_visible p ?l)) (s\<lparr>sh_layout := ?l\<rparr>)"
      by (intro shell_do_fired) (simp add: auto_hidden_events)
    show ?thesis
    proof (cases "p = Sidebar")
      case True
      have "\<not> gives_way ?l"
        using False True g gives_way_invisible [of ?l] gives_way_invisible [of "sh_layout s"] by auto
      then have "shell_sane (s\<lparr>sh_layout := ?l, sh_hidden := False\<rparr>)" by (rule shell_sane_shown [OF ok])
      then show ?thesis unfolding q using update_2 True a by simp
    next
      case other: False
      have "shell_sane (s\<lparr>sh_layout := ?l\<rparr>)" by (rule shell_sane_layout [OF ok]) (simp_all add: g)
      then show ?thesis unfolding q using update_2 other by simp
    qed
  qed
qed

lemma shell_ok_size:
  assumes "shell_ok s" and "ly_events (f (sh_layout s)) = ly_events (sh_layout s) @ fired" "fired \<in> {[], [SizeChanged p]}"
    and "ly_editor (f (sh_layout s)) = ly_editor (sh_layout s)" "ly_visibility (f (sh_layout s)) = ly_visibility (sh_layout s)"
    and "ly_auto_hidden (f (sh_layout s)) = ly_auto_hidden (sh_layout s)"
  shows "shell_ok (shell_do f s)"
proof -
  have "is_visible q (f (sh_layout s)) = is_visible q (sh_layout s)" for q
    by (rule is_visible_eqI) (simp_all add: assms)
  moreover have "gives_way (f (sh_layout s)) = gives_way (sh_layout s)"
    by (simp add: gives_way_def hidden_by_def assms)
  ultimately show ?thesis
    unfolding shell_do_quiet [of f, OF assms(2,3)] by (intro shell_ok_layout [OF assms(1)]) (simp_all add: assms)
qed

lemma shell_ok_editor:
  assumes ok: "shell_ok s"
  shows "shell_ok (shell_do (set_editor_visible v) s)"
proof (cases "v = ly_editor (sh_layout s)")
  case True
  then show ?thesis using ok by (simp add: shell_do_def set_editor_visible_def Let_def)
next
  case False
  let ?l = "set_editor_visible v (sh_layout s)"
  have q: "shell_do (set_editor_visible v) s = responsive_hear 2 (EditorToggled v) (s\<lparr>sh_layout := ?l\<rparr>)"
    by (rule shell_do_fired) (use False in \<open>simp add: set_editor_visible_def\<close>)
  have "shell_sane (s\<lparr>sh_layout := ?l\<rparr>)"
    by (rule shell_sane_layout [OF ok])
      (use False in \<open>simp_all add: set_editor_visible_def gives_way_def hidden_by_def ly_fire_def\<close>)
  then show ?thesis unfolding q using update_2 by simp
qed

lemma shell_ok_step:
  assumes ok: "shell_ok s" and "foreign_op e"
  shows "shell_ok (apply_shell e s)"
proof (cases e)
  case (ShLayout x)
  then show ?thesis
  proof (cases x)
    case (LySidebarWidth w)
    then show ?thesis unfolding ShLayout
      by (simp, intro shell_ok_size [OF ok, where p = Sidebar and fired = "if max 270 w = ly_sidebar (sh_layout s) then [] else [SizeChanged Sidebar]"])
        (simp_all add: set_sidebar_width_def Let_def)
  next
    case (LyAuxiliaryWidth w)
    then show ?thesis unfolding ShLayout
      by (simp, intro shell_ok_size [OF ok, where p = AuxiliaryBar and fired = "if max 270 w = ly_auxiliary (sh_layout s) then [] else [SizeChanged AuxiliaryBar]"])
        (simp_all add: set_auxiliary_width_def Let_def)
  next
    case (LyPanelHeight w)
    then show ?thesis unfolding ShLayout
      by (simp, intro shell_ok_size [OF ok, where p = Panel and fired = "if max 77 w = ly_panel (sh_layout s) then [] else [SizeChanged Panel]"])
        (simp_all add: set_panel_height_def Let_def)
  next
    case (LyRoot p)
    then show ?thesis unfolding ShLayout
      by (simp, intro shell_ok_size [OF ok, where p = Panel and fired = "[]"]) (simp_all add: get_part_root_def)
  next
    case (LyAutoHidden p h src)
    then show ?thesis using assms(2) by (simp add: ShLayout shell_ok_auto_hidden [OF ok])
  qed (simp_all add: shell_ok_visible [OF ok] shell_ok_editor [OF ok])
next
  case (ShResize w)
  have "shell_sane (s\<lparr>sh_width := Some w\<rparr>)" using ok unfolding shell_ok_def shell_sane_def by auto
  then show ?thesis by (simp add: ShResize update_2)
next
  case (ShSetting b)
  have "shell_sane (s\<lparr>sh_setting := b\<rparr>)" using ok unfolding shell_ok_def shell_sane_def by auto
  then show ?thesis by (simp add: ShSetting update_2)
next
  case ShSession
  have "is_constrained s = sh_previous s" using ok unfolding shell_ok_def by simp
  then show ?thesis using ok by (simp add: ShSession)
qed

lemma shell_ok_history: "shell_ok s \<Longrightarrow> list_all foreign_op es \<Longrightarrow> shell_ok (fold apply_shell es s)"
  by (induction es arbitrary: s) (simp_all add: shell_ok_step)

lemma shell_ok_new: "shell_ok (new_shell (new_layout st) setting width)"
proof -
  have "ly_auto_hidden (new_layout st) = []"
    by (simp add: new_layout_def layout_restore_def default_layout_def split: option.split)
  then have "\<not> gives_way (new_layout st)" by (simp add: gives_way_def hidden_by_def)
  then show ?thesis
    by (simp add: new_shell_def Let_def shell_ok_def shell_sane_def is_constrained_def)
qed

text \<open>
  C30: the sidebar gives way only while there is a reason: at any time, if the contribution hides
  it, then the setting is on, the window is at most 1800 pixels wide and the editor and the
  auxiliary bar are shown.  So when the reason goes the sidebar comes back, and what the user or
  another controller does meanwhile never leaves it hidden behind.
\<close>

theorem sidebar_gives_way_only_while_small:
  assumes "list_all foreign_op es" and "s = fold apply_shell es (new_shell (new_layout st) setting width)"
    and "responsive_source \<in> set (hidden_by Sidebar (sh_layout s))"
  shows "sh_setting s \<and> (\<exists>w. sh_width s = Some w \<and> w \<le> 1800) \<and> ly_editor (sh_layout s) \<and>
    is_visible AuxiliaryBar (sh_layout s)"
proof -
  have "shell_ok s" unfolding assms(2) by (rule shell_ok_history [OF shell_ok_new assms(1)])
  then have "is_constrained s" using assms(3) unfolding shell_ok_def shell_sane_def gives_way_def by blast
  then show ?thesis by (auto simp: is_constrained_def split: option.splits)
qed

lemma small_window_hides:
  "let s = fold apply_shell [ShLayout (LyEditor True)] (new_shell (new_layout None) True (Some 1200))
   in responsive_source \<in> set (hidden_by Sidebar (sh_layout s))"
  by (simp add: new_shell_def new_layout_def layout_restore_def default_layout_def Let_def shell_do_def
      set_editor_visible_def ly_fire_def is_constrained_def is_visible_def hidden_by_def numeral_2_eq_2
      set_auto_hidden_def update_part_visibility_def os_add_def om_has_def)

theorem sidebar_gives_way_only_while_small_witness:
  "let s = fold apply_shell [ShLayout (LyEditor True)] (new_shell (new_layout None) True (Some 1200))
   in sh_setting s \<and> (\<exists>w. sh_width s = Some w \<and> w \<le> 1800) \<and> ly_editor (sh_layout s) \<and>
      is_visible AuxiliaryBar (sh_layout s)"
  using sidebar_gives_way_only_while_small [OF _ refl small_window_hides [unfolded Let_def]]
  by (simp only: Let_def list.pred_inject foreign_op.simps simp_thms)

text \<open>
  Restoring a session can hide the sidebar.  In whichever order the two listeners of the
  active session run, the new baseline of the sidebar first or the detail view that restores its
  preview, the editor that appears counts as a transition.
\<close>

theorem restored_preview_hides_sidebar:
  assumes "list_all foreign_op es" and "s = fold apply_shell es (new_shell (new_layout st) True (Some w))"
    and "\<not> ly_editor (sh_layout s)" and "sh_setting s" and "sh_width s = Some w'" and "w' \<le> 1800"
    and "is_visible AuxiliaryBar (sh_layout s)" and "is_visible Sidebar (sh_layout s)"
  shows "\<not> is_visible Sidebar (sh_layout (fold apply_shell [ShSession, ShLayout (LyEditor True)] s)) \<and>
     \<not> is_visible Sidebar (sh_layout (fold apply_shell [ShLayout (LyEditor True), ShSession] s))"
proof -
  have ok: "shell_ok s" unfolding assms(2) by (rule shell_ok_history [OF shell_ok_new assms(1)])
  have c: "\<not> is_constrained s" "\<not> sh_previous s" "\<not> sh_applying s"
    using ok assms(3) unfolding shell_ok_def shell_sane_def is_constrained_def by blast+
  then have p: "s\<lparr>sh_previous := False\<rparr> = s" by simp
  let ?l = "set_editor_visible True (sh_layout s)"
  let ?t = "s\<lparr>sh_layout := ?l\<rparr>"
  have e: "apply_shell (ShLayout (LyEditor True)) s = responsive_update 2 ?t"
    using assms(3) shell_do_fired [of "set_editor_visible True" s "EditorToggled True"]
    by (simp add: set_editor_visible_def)
  have v: "is_visible q ?l = is_visible q (sh_layout s)" for q by (simp add: set_editor_visible_def)
  have "is_constrained ?t" using assms(3-7) by (simp add: is_constrained_def v) (simp add: set_editor_visible_def)
  then have "sh_layout (responsive_update 2 ?t) = set_auto_hidden Sidebar True responsive_source ?l"
    using responsive_depth [of ?t 1] c assms(8) by (simp add: v numeral_2_eq_2 del: responsive_update.simps)
  then have "gives_way (sh_layout (responsive_update 2 ?t))" by simp
  then have "\<not> is_visible Sidebar (sh_layout (responsive_update 2 ?t))" by (rule gives_way_invisible)
  moreover have "apply_shell ShSession s = s" using c p by simp
  ultimately show ?thesis using e by simp
qed

theorem restored_preview_hides_sidebar_witness:
  "let s = new_shell (new_layout None) True (Some 1200)
   in \<not> is_visible Sidebar (sh_layout (fold apply_shell [ShSession, ShLayout (LyEditor True)] s)) \<and>
     \<not> is_visible Sidebar (sh_layout (fold apply_shell [ShLayout (LyEditor True), ShSession] s))"
proof -
  let ?s = "new_shell (new_layout None) True (Some 1200)"
  have s: "\<not> ly_editor (sh_layout ?s)" "sh_setting ?s" "sh_width ?s = Some 1200"
    "is_visible AuxiliaryBar (sh_layout ?s)" "is_visible Sidebar (sh_layout ?s)"
    by (simp_all add: new_shell_def new_layout_def layout_restore_def default_layout_def Let_def is_visible_def hidden_by_def)
  have w: "(1200 :: rat) \<le> 1800" by simp
  have "?s = fold apply_shell [] ?s" by simp
  from restored_preview_hides_sidebar [OF _ this s(1-3) w s(4,5)] show ?thesis by (simp only: Let_def list.pred_inject simp_thms)
qed

end
