(* ===== verification/DetailView.thy ===== *)
theory DetailView
  imports Layout Identity
begin

text \<open>
  \<open>packages/workbench/src/contrib/workspace/detail-view-service.ts\<close>: the tabs of the
  workspace's details, saved and restored per session, and what they do to the layout.

  Every optional dependency is there, as the container injects it.  What the service saves
  through \<open>IWorkspaceUIStateService\<close> is the typed map of the details per session, whose
  contract is \<open>session_details_round_trip\<close> of \<open>LocalState\<close>.  The service's
  listener on the layout runs on the events the layout fired.
\<close>

section \<open>State and operations\<close>

datatype tab_kind = ChangesTab | FilesTab | PreviewTab

record detail_tab =
  dt_id :: string
  dt_title :: string
  dt_kind :: tab_kind
  dt_content :: "string option"

record session_details =
  sd_view :: "detail_tab option"
  sd_auxiliary :: "bool option"

record detail_view =
  dv_tabs :: "detail_tab list"
  dv_active :: string
  dv_changes :: bool
  dv_files :: bool
  dv_preview :: bool
  dv_session :: "session_identity option"
  dv_layout :: layout
  dv_saved :: "(session_identity, session_details) omap"
  dv_fired :: nat

definition files_tab :: detail_tab where
  "files_tab = \<lparr>dt_id = ''files'', dt_title = ''Files'', dt_kind = FilesTab, dt_content = None\<rparr>"

definition changes_tab :: detail_tab where
  "changes_tab = \<lparr>dt_id = ''changes'', dt_title = ''Changes'', dt_kind = ChangesTab, dt_content = None\<rparr>"

definition active_tab :: "detail_view \<Rightarrow> detail_tab option" where
  "active_tab s = find (\<lambda>t. dt_id t = dv_active s) (dv_tabs s)"

definition save_current :: "detail_view \<Rightarrow> detail_view" where
  "save_current s =
     (case dv_session s of
        None \<Rightarrow> s
      | Some i \<Rightarrow> s\<lparr>dv_saved := om_set i \<lparr>sd_view = active_tab s, sd_auxiliary = Some (is_visible AuxiliaryBar (dv_layout s))\<rparr>
                                 (dv_saved s)\<rparr>)"

text \<open>A change of the layout, without and with the service's listener.\<close>

definition dv_hear :: "layout_event \<Rightarrow> detail_view \<Rightarrow> detail_view" where
  "dv_hear e s = (case e of PartToggled p v \<Rightarrow> if p = AuxiliaryBar then save_current s else s | _ \<Rightarrow> s)"

definition dv_relayout :: "(layout \<Rightarrow> layout) \<Rightarrow> detail_view \<Rightarrow> detail_view" where
  "dv_relayout f s =
     (let l = f (dv_layout s)
      in fold dv_hear (drop (length (ly_events (dv_layout s))) (ly_events l)) (s\<lparr>dv_layout := l\<rparr>))"

definition dv_sync :: "detail_view \<Rightarrow> detail_view" where
  "dv_sync s =
     (let k = map_option dt_kind (active_tab s);
          s' = s\<lparr>dv_changes := (k = Some ChangesTab), dv_files := (k = Some FilesTab), dv_preview := (k = Some PreviewTab)\<rparr>
      in dv_relayout (set_editor_visible (k = Some PreviewTab)) s')"

definition dv_fire :: "detail_view \<Rightarrow> detail_view" where
  "dv_fire s = s\<lparr>dv_fired := Suc (dv_fired s)\<rparr>"

definition dv_commit :: "detail_view \<Rightarrow> detail_view" where
  "dv_commit s = dv_fire (save_current (dv_sync s))"

definition dv_ensure :: "detail_tab \<Rightarrow> detail_view \<Rightarrow> detail_view" where
  "dv_ensure tab s =
     (let tabs = (if list_ex (\<lambda>t. dt_id t = dt_id tab) (dv_tabs s)
                  then map (\<lambda>t. if dt_id t = dt_id tab then tab else t) (dv_tabs s)
                  else dv_tabs s @ [tab])
      in dv_commit (dv_relayout (set_visible AuxiliaryBar True) (s\<lparr>dv_tabs := tabs, dv_active := dt_id tab\<rparr>)))"

definition open_changes :: "detail_view \<Rightarrow> detail_view" where
  "open_changes = dv_ensure changes_tab"

definition open_files :: "detail_view \<Rightarrow> detail_view" where
  "open_files = dv_ensure files_tab"

definition open_preview :: "string \<Rightarrow> string \<Rightarrow> string \<Rightarrow> detail_view \<Rightarrow> detail_view" where
  "open_preview i title content =
     dv_ensure \<lparr>dt_id = i, dt_title = title, dt_kind = PreviewTab, dt_content = Some content\<rparr>"

definition select_tab :: "string \<Rightarrow> detail_view \<Rightarrow> detail_view" where
  "select_tab i s =
     (if list_ex (\<lambda>t. dt_id t = i) (dv_tabs s) \<and> dv_active s \<noteq> i then dv_commit (s\<lparr>dv_active := i\<rparr>) else s)"

definition close_tab :: "string \<Rightarrow> detail_view \<Rightarrow> detail_view" where
  "close_tab i s =
     (if length (dv_tabs s) = 1 then s
      else case find_index (\<lambda>t. dt_id t = i) (dv_tabs s) of
          None \<Rightarrow> s
        | Some k \<Rightarrow>
            let tabs = filter (\<lambda>t. dt_id t \<noteq> i) (dv_tabs s)
            in dv_commit (s\<lparr>dv_tabs := tabs, dv_active := (if dv_active s = i then dt_id (tabs ! (k - 1)) else dv_active s)\<rparr>))"

definition commit_new_session :: "session_identity \<Rightarrow> detail_view \<Rightarrow> detail_view" where
  "commit_new_session i s =
     s\<lparr>dv_saved := om_set i \<lparr>sd_view = Some changes_tab, sd_auxiliary = Some (is_visible AuxiliaryBar (dv_layout s))\<rparr>
                     (dv_saved s)\<rparr>"

text \<open>What a session shows: its saved view or the changes, beside the files.\<close>

definition saved_view :: "session_identity \<Rightarrow> detail_view \<Rightarrow> detail_tab" where
  "saved_view i s =
     (case om_get (dv_saved s) i of None \<Rightarrow> changes_tab
      | Some d \<Rightarrow> (case sd_view d of None \<Rightarrow> changes_tab | Some t \<Rightarrow> t))"

definition saved_auxiliary :: "session_identity \<Rightarrow> detail_view \<Rightarrow> bool" where
  "saved_auxiliary i s =
     (case om_get (dv_saved s) i of None \<Rightarrow> False
      | Some d \<Rightarrow> (case sd_auxiliary d of None \<Rightarrow> False | Some b \<Rightarrow> b))"

definition show_saved :: "session_identity \<Rightarrow> detail_view \<Rightarrow> detail_view" where
  "show_saved i s =
     (let t = saved_view i s
      in s\<lparr>dv_tabs := (if dt_id t \<noteq> dt_id files_tab then [files_tab, t] else [files_tab]), dv_active := dt_id t\<rparr>)"

definition dv_restore :: "session_identity \<Rightarrow> detail_view \<Rightarrow> detail_view" where
  "dv_restore i s =
     (let aux = saved_auxiliary i s
      in dv_fire (dv_relayout (set_visible AuxiliaryBar aux) (dv_sync (show_saved i s))))"

definition dv_session_changed :: "session_identity option \<Rightarrow> detail_view \<Rightarrow> detail_view" where
  "dv_session_changed i s =
     (let s' = (save_current s)\<lparr>dv_session := i\<rparr>
      in case i of None \<Rightarrow> s' | Some j \<Rightarrow> dv_restore j s')"

text \<open>
  The constructor; the listener on the layout is installed at its end, so what it restores for a
  session that is active already is not saved again.
\<close>

definition new_detail_view :: "session_identity option \<Rightarrow> layout \<Rightarrow> (session_identity, session_details) omap \<Rightarrow> detail_view" where
  "new_detail_view i l saved =
     (let s = \<lparr>dv_tabs = [files_tab], dv_active = ''files'', dv_changes = False, dv_files = True, dv_preview = False,
               dv_session = i, dv_layout = set_editor_visible False l, dv_saved = saved, dv_fired = 0\<rparr>
      in case i of None \<Rightarrow> s | Some j \<Rightarrow> (dv_restore j s)\<lparr>dv_saved := saved\<rparr>)"

datatype detail_op =
    DvOpen detail_tab | DvSelect string | DvClose string | DvCommitNew session_identity
  | DvSession "session_identity option" | DvLayout layout_op

fun apply_detail :: "detail_op \<Rightarrow> detail_view \<Rightarrow> detail_view" where
  "apply_detail (DvOpen t) = dv_ensure t"
| "apply_detail (DvSelect i) = select_tab i"
| "apply_detail (DvClose i) = close_tab i"
| "apply_detail (DvCommitNew i) = commit_new_session i"
| "apply_detail (DvSession i) = dv_session_changed i"
| "apply_detail (DvLayout e) = dv_relayout (apply_layout e)"

text \<open>The editor's visibility is set by this service alone.\<close>

fun detail_foreign :: "detail_op \<Rightarrow> bool" where
  "detail_foreign (DvLayout (LyEditor v)) = False"
| "detail_foreign _ = True"

section \<open>What the steps read and write\<close>

lemma save_current_fields [simp]:
  "dv_tabs (save_current s) = dv_tabs s" "dv_active (save_current s) = dv_active s"
  "dv_changes (save_current s) = dv_changes s" "dv_files (save_current s) = dv_files s"
  "dv_preview (save_current s) = dv_preview s" "dv_session (save_current s) = dv_session s"
  "dv_layout (save_current s) = dv_layout s"
  by (simp_all add: save_current_def split: option.split)

lemma dv_hear_cases: "dv_hear e s = s \<or> dv_hear e s = save_current s"
  by (auto simp: dv_hear_def split: layout_event.split)

lemma save_current_idem [simp]: "save_current (save_current s) = save_current s"
  by (auto simp: save_current_def active_tab_def om_set_same split: option.split)

lemma dv_hear_fold: "fold dv_hear es s = s \<or> fold dv_hear es s = save_current s"
proof (induction es arbitrary: s)
  case (Cons e es)
  have "fold dv_hear es (save_current s) = save_current s" using Cons.IH [of "save_current s"] by simp
  then show ?case using Cons.IH [of s] dv_hear_cases [of e s] by auto
qed simp

lemma dv_relayout_cases:
  "dv_relayout f s = s\<lparr>dv_layout := f (dv_layout s)\<rparr> \<or> dv_relayout f s = save_current (s\<lparr>dv_layout := f (dv_layout s)\<rparr>)"
  unfolding dv_relayout_def Let_def by (rule dv_hear_fold)

lemma dv_relayout_fields [simp]:
  "dv_tabs (dv_relayout f s) = dv_tabs s" "dv_active (dv_relayout f s) = dv_active s"
  "dv_changes (dv_relayout f s) = dv_changes s" "dv_files (dv_relayout f s) = dv_files s"
  "dv_preview (dv_relayout f s) = dv_preview s" "dv_session (dv_relayout f s) = dv_session s"
  "dv_layout (dv_relayout f s) = f (dv_layout s)"
  using dv_relayout_cases [of f s] by auto

lemma active_tab_cong: "dv_tabs s = dv_tabs s' \<Longrightarrow> dv_active s = dv_active s' \<Longrightarrow> active_tab s = active_tab s'"
  by (simp add: active_tab_def)

lemma active_tab_fields [simp]:
  "active_tab (save_current s) = active_tab s" "active_tab (dv_relayout f s) = active_tab s"
  by (rule active_tab_cong; simp)+

lemma dv_sync_fields [simp]:
  "dv_tabs (dv_sync s) = dv_tabs s" "dv_active (dv_sync s) = dv_active s" "active_tab (dv_sync s) = active_tab s"
  "dv_session (dv_sync s) = dv_session s"
  "dv_changes (dv_sync s) = (map_option dt_kind (active_tab s) = Some ChangesTab)"
  "dv_files (dv_sync s) = (map_option dt_kind (active_tab s) = Some FilesTab)"
  "dv_preview (dv_sync s) = (map_option dt_kind (active_tab s) = Some PreviewTab)"
  "dv_layout (dv_sync s) = set_editor_visible (map_option dt_kind (active_tab s) = Some PreviewTab) (dv_layout s)"
  by (simp_all add: dv_sync_def Let_def active_tab_def)

lemma dv_fire_fields [simp]:
  "dv_tabs (dv_fire s) = dv_tabs s" "dv_active (dv_fire s) = dv_active s" "active_tab (dv_fire s) = active_tab s"
  "dv_changes (dv_fire s) = dv_changes s" "dv_files (dv_fire s) = dv_files s" "dv_preview (dv_fire s) = dv_preview s"
  "dv_session (dv_fire s) = dv_session s" "dv_layout (dv_fire s) = dv_layout s" "dv_saved (dv_fire s) = dv_saved s"
  by (simp_all add: dv_fire_def active_tab_def)

lemma dv_commit_fields [simp]:
  "dv_tabs (dv_commit s) = dv_tabs s" "dv_active (dv_commit s) = dv_active s" "active_tab (dv_commit s) = active_tab s"
  "dv_session (dv_commit s) = dv_session s"
  by (simp_all add: dv_commit_def)

section \<open>The tabs, the context keys and the editor agree\<close>

definition dv_tabs_ok :: "detail_view \<Rightarrow> bool" where
  "dv_tabs_ok s \<longleftrightarrow> distinct (map dt_id (dv_tabs s)) \<and> dv_active s \<in> set (map dt_id (dv_tabs s))"

definition dv_shown_ok :: "detail_view \<Rightarrow> bool" where
  "dv_shown_ok s \<longleftrightarrow>
     dv_changes s = (map_option dt_kind (active_tab s) = Some ChangesTab) \<and>
     dv_files s = (map_option dt_kind (active_tab s) = Some FilesTab) \<and>
     dv_preview s = (map_option dt_kind (active_tab s) = Some PreviewTab) \<and>
     ly_editor (dv_layout s) = dv_preview s"

lemma active_tab_Some:
  assumes "dv_tabs_ok s"
  obtains t where "active_tab s = Some t" "t \<in> set (dv_tabs s)" "dt_id t = dv_active s"
proof -
  have "\<exists>t. active_tab s = Some t"
    unfolding active_tab_def by (rule find_exists) (use assms in \<open>auto simp: dv_tabs_ok_def\<close>)
  then obtain t where t: "active_tab s = Some t" ..
  have "t \<in> set (dv_tabs s) \<and> dt_id t = dv_active s" using t unfolding active_tab_def by (rule find_SomeD)
  with t show ?thesis using that by blast
qed

lemma set_visible_editor [simp]: "ly_editor (set_visible p v l) = ly_editor l"
  by (simp add: set_visible_def Let_def)

lemma set_editor_visible_editor [simp]: "ly_editor (set_editor_visible v l) = v"
  by (simp add: set_editor_visible_def)

lemma layout_op_editor: "detail_foreign (DvLayout e) \<Longrightarrow> ly_editor (apply_layout e l) = ly_editor l"
  by (cases e) (simp_all add: set_sidebar_width_def set_auxiliary_width_def set_panel_height_def get_part_root_def Let_def)

lemma tabs_ok_cong: "dv_tabs s = dv_tabs s' \<Longrightarrow> dv_active s = dv_active s' \<Longrightarrow> dv_tabs_ok s = dv_tabs_ok s'"
  by (simp add: dv_tabs_ok_def)

lemma tabs_ok_keep [simp]:
  "dv_tabs_ok (dv_commit s) = dv_tabs_ok s" "dv_tabs_ok (dv_relayout f s) = dv_tabs_ok s"
  "dv_tabs_ok (save_current s) = dv_tabs_ok s" "dv_tabs_ok (s\<lparr>dv_session := i\<rparr>) = dv_tabs_ok s"
  "dv_tabs_ok (dv_sync s) = dv_tabs_ok s" "dv_tabs_ok (dv_fire s) = dv_tabs_ok s" "dv_tabs_ok (s\<lparr>dv_saved := m\<rparr>) = dv_tabs_ok s"
  by (rule tabs_ok_cong; simp)+

lemma shown_ok_sync [simp]: "dv_shown_ok (dv_sync s)"
  by (simp add: dv_shown_ok_def)

lemma shown_ok_cong:
  "dv_tabs s = dv_tabs s' \<Longrightarrow> dv_active s = dv_active s' \<Longrightarrow> dv_changes s = dv_changes s' \<Longrightarrow> dv_files s = dv_files s' \<Longrightarrow>
   dv_preview s = dv_preview s' \<Longrightarrow> ly_editor (dv_layout s) = ly_editor (dv_layout s') \<Longrightarrow> dv_shown_ok s = dv_shown_ok s'"
  by (simp add: dv_shown_ok_def active_tab_def)

lemma shown_ok_keep [simp]:
  "dv_shown_ok (save_current s) = dv_shown_ok s" "dv_shown_ok (dv_fire s) = dv_shown_ok s"
  "dv_shown_ok (s\<lparr>dv_session := i\<rparr>) = dv_shown_ok s" "dv_shown_ok (s\<lparr>dv_saved := m\<rparr>) = dv_shown_ok s"
  "dv_shown_ok (dv_relayout (set_visible p v) s) = dv_shown_ok s"
  by (rule shown_ok_cong; simp)+

lemma shown_ok_commit [simp]: "dv_shown_ok (dv_commit s)"
  by (simp add: dv_commit_def)

lemma ensure_tabs_ok: "dv_tabs_ok s \<Longrightarrow> dv_tabs_ok (dv_ensure t s)"
proof -
  assume ok: "dv_tabs_ok s"
  have m: "map dt_id (map (\<lambda>u. if dt_id u = dt_id t then t else u) ts) = map dt_id ts" for ts
    by (induction ts) simp_all
  show ?thesis
    using ok unfolding dv_ensure_def Let_def
    by (simp add: dv_tabs_ok_def m list_ex_iff image_iff del: map_map) (auto simp: list_ex_iff)
qed

lemma close_tabs_ok:
  assumes ok: "dv_tabs_ok s"
  shows "dv_tabs_ok (close_tab i s)"
proof (cases "length (dv_tabs s) = 1 \<or> find_index (\<lambda>t. dt_id t = i) (dv_tabs s) = None")
  case True
  then show ?thesis using ok by (auto simp: close_tab_def)
next
  case False
  then obtain k where k: "find_index (\<lambda>t. dt_id t = i) (dv_tabs s) = Some k" and l: "length (dv_tabs s) \<noteq> 1" by auto
  let ?tabs = "filter (\<lambda>t. dt_id t \<noteq> i) (dv_tabs s)"
  have b: "k < length (dv_tabs s)" "dt_id (dv_tabs s ! k) = i" using find_index_Some [OF k] by auto
  have d: "distinct (map dt_id (dv_tabs s))" using ok by (simp add: dv_tabs_ok_def)
  have "?tabs = take k (dv_tabs s) @ drop (Suc k) (dv_tabs s)"
  proof -
    have split: "dv_tabs s = take k (dv_tabs s) @ dv_tabs s ! k # drop (Suc k) (dv_tabs s)" using b(1) by (rule id_take_nth_drop)
    have n: "i \<notin> dt_id ` set (take k (dv_tabs s))" "i \<notin> dt_id ` set (drop (Suc k) (dv_tabs s))"
      using d b(2) by (subst (asm) split, simp)+
    have f: "filter (\<lambda>t. dt_id t \<noteq> i) ts = ts" if "i \<notin> dt_id ` set ts" for ts
      using that by (induction ts) auto
    have "filter (\<lambda>t. dt_id t \<noteq> i) (take k (dv_tabs s) @ dv_tabs s ! k # drop (Suc k) (dv_tabs s)) =
        take k (dv_tabs s) @ drop (Suc k) (dv_tabs s)"
      using b(2) by (simp add: f [OF n(1)] f [OF n(2)])
    then show ?thesis unfolding split [symmetric] .
  qed
  then have len: "length ?tabs = length (dv_tabs s) - 1" using b(1) by simp
  have "k - 1 < length ?tabs" using b(1) l unfolding len by arith
  then have "dt_id (?tabs ! (k - 1)) \<in> set (map dt_id ?tabs)" by (metis imageI list.set_map nth_mem)
  moreover have "distinct (map dt_id ?tabs)" using d by (simp add: distinct_map_filter)
  moreover have "dv_active s \<in> set (map dt_id ?tabs)" if "dv_active s \<noteq> i" using ok that by (auto simp: dv_tabs_ok_def)
  ultimately show ?thesis using l k by (simp add: close_tab_def Let_def dv_tabs_ok_def)
qed

lemma show_saved_tabs_ok: "dv_tabs_ok (show_saved i s)"
  by (auto simp: show_saved_def Let_def dv_tabs_ok_def)

lemma restore_ok: "dv_tabs_ok (dv_restore i s) \<and> dv_shown_ok (dv_restore i s)"
  by (simp add: dv_restore_def Let_def show_saved_tabs_ok)

lemma detail_step_ok:
  assumes "detail_foreign e" and ok: "dv_tabs_ok s \<and> dv_shown_ok s"
  shows "dv_tabs_ok (apply_detail e s) \<and> dv_shown_ok (apply_detail e s)"
proof (cases e)
  case (DvOpen t)
  then show ?thesis using ok ensure_tabs_ok by (simp add: dv_ensure_def Let_def)
next
  case (DvSelect i)
  have "dv_tabs_ok (s\<lparr>dv_active := i\<rparr>)" if "list_ex (\<lambda>t. dt_id t = i) (dv_tabs s)"
    using ok that by (auto simp: dv_tabs_ok_def list_ex_iff)
  then show ?thesis using ok DvSelect by (simp add: select_tab_def)
next
  case (DvClose i)
  have "dv_shown_ok (close_tab i s)" using ok by (simp add: close_tab_def Let_def split: option.split)
  then show ?thesis using ok DvClose by (simp add: close_tabs_ok)
next
  case (DvCommitNew i)
  then show ?thesis using ok by (simp add: commit_new_session_def)
next
  case (DvSession i)
  then show ?thesis using ok restore_ok by (simp add: dv_session_changed_def Let_def split: option.split)
next
  case (DvLayout l)
  have "dv_shown_ok (dv_relayout (apply_layout l) s) = dv_shown_ok s"
    by (rule shown_ok_cong) (use layout_op_editor assms(1) DvLayout in auto)
  then show ?thesis using ok DvLayout by simp
qed

lemma new_detail_ok: "dv_tabs_ok (new_detail_view i l saved) \<and> dv_shown_ok (new_detail_view i l saved)"
proof (cases i)
  case None
  then show ?thesis
    by (simp add: new_detail_view_def Let_def dv_tabs_ok_def dv_shown_ok_def active_tab_def files_tab_def)
next
  case (Some j)
  then show ?thesis using restore_ok by (simp add: new_detail_view_def Let_def)
qed

lemma detail_history_ok:
  "list_all detail_foreign es \<Longrightarrow> dv_tabs_ok s \<and> dv_shown_ok s \<Longrightarrow>
   dv_tabs_ok (fold apply_detail es s) \<and> dv_shown_ok (fold apply_detail es s)"
proof (induction es arbitrary: s)
  case (Cons e es)
  then show ?case using detail_step_ok [of e s] by simp
qed simp

text \<open>
  C22: however tabs are opened, selected and closed and sessions are switched, there is a tab, no
  two tabs have the same id, the active tab is one of them, exactly the context key of its kind is
  set, and the editor is shown exactly for a preview.
\<close>

theorem detail_view_consistent:
  assumes "list_all detail_foreign es"
  shows "let s = fold apply_detail es (new_detail_view i l saved)
    in distinct (map dt_id (dv_tabs s)) \<and>
       (case active_tab s of None \<Rightarrow> False
        | Some t \<Rightarrow> t \<in> set (dv_tabs s) \<and> dt_id t = dv_active s \<and>
            dv_changes s = (dt_kind t = ChangesTab) \<and> dv_files s = (dt_kind t = FilesTab) \<and>
            dv_preview s = (dt_kind t = PreviewTab) \<and> ly_editor (dv_layout s) = (dt_kind t = PreviewTab))"
proof -
  let ?s = "fold apply_detail es (new_detail_view i l saved)"
  have ok: "dv_tabs_ok ?s" "dv_shown_ok ?s" using detail_history_ok [OF assms new_detail_ok] by blast+
  obtain t where "active_tab ?s = Some t" "t \<in> set (dv_tabs ?s)" "dt_id t = dv_active ?s"
    using active_tab_Some [OF ok(1)] .
  then show ?thesis using ok unfolding Let_def dv_tabs_ok_def dv_shown_ok_def by simp
qed

theorem detail_view_consistent_witness:
  "let s = fold apply_detail [DvOpen changes_tab, DvClose ''files''] (new_detail_view None (new_layout None) [])
   in distinct (map dt_id (dv_tabs s)) \<and>
       (case active_tab s of None \<Rightarrow> False
        | Some t \<Rightarrow> t \<in> set (dv_tabs s) \<and> dt_id t = dv_active s \<and>
            dv_changes s = (dt_kind t = ChangesTab) \<and> dv_files s = (dt_kind t = FilesTab) \<and>
            dv_preview s = (dt_kind t = PreviewTab) \<and> ly_editor (dv_layout s) = (dt_kind t = PreviewTab))"
  by (rule detail_view_consistent) simp

section \<open>A session's details are there when it is selected again\<close>

fun leaves_alone :: "session_identity \<Rightarrow> detail_op \<Rightarrow> bool" where
  "leaves_alone i (DvCommitNew j) = (j \<noteq> i)"
| "leaves_alone i (DvSession j) = (j \<noteq> Some i)"
| "leaves_alone i _ = True"

definition details_of :: "session_identity \<Rightarrow> detail_view \<Rightarrow> session_details option" where
  "details_of i s = om_get (dv_saved s) i"

lemma details_save: "dv_session s \<noteq> Some i \<Longrightarrow> details_of i (save_current s) = details_of i s"
  by (auto simp: details_of_def save_current_def split: option.split)

lemma details_keep [simp]:
  "details_of i (s\<lparr>dv_layout := l\<rparr>) = details_of i s" "details_of i (dv_fire s) = details_of i s"
  "details_of i (s\<lparr>dv_tabs := ts\<rparr>) = details_of i s" "details_of i (s\<lparr>dv_active := a\<rparr>) = details_of i s"
  "details_of i (s\<lparr>dv_session := x\<rparr>) = details_of i s" "details_of i (show_saved j s) = details_of i s"
  "details_of i (s\<lparr>dv_changes := b, dv_files := c, dv_preview := d\<rparr>) = details_of i s"
  by (simp_all add: details_of_def show_saved_def Let_def)

lemma details_relayout: "dv_session s \<noteq> Some i \<Longrightarrow> details_of i (dv_relayout f s) = details_of i s"
  using dv_relayout_cases [of f s] details_save [of "s\<lparr>dv_layout := f (dv_layout s)\<rparr>" i] by auto

lemma details_sync: "dv_session s \<noteq> Some i \<Longrightarrow> details_of i (dv_sync s) = details_of i s"
  by (simp add: dv_sync_def Let_def details_relayout)

lemma details_commit: "dv_session s \<noteq> Some i \<Longrightarrow> details_of i (dv_commit s) = details_of i s"
  by (simp add: dv_commit_def details_sync details_save)

lemma show_saved_session [simp]: "dv_session (show_saved j s) = dv_session s"
  by (simp add: show_saved_def Let_def)

lemma details_restore: "dv_session s \<noteq> Some i \<Longrightarrow> details_of i (dv_restore j s) = details_of i s"
  by (simp add: dv_restore_def Let_def details_relayout details_sync)

lemma restore_session [simp]: "dv_session (dv_restore j s) = dv_session s"
  by (simp add: dv_restore_def Let_def)

lemma session_changed_session [simp]: "dv_session (dv_session_changed j s) = j"
  by (simp add: dv_session_changed_def Let_def split: option.split)

lemma details_step:
  assumes "leaves_alone i e" and "dv_session s \<noteq> Some i"
  shows "details_of i (apply_detail e s) = details_of i s \<and> dv_session (apply_detail e s) \<noteq> Some i"
proof (cases e)
  case (DvOpen t)
  then show ?thesis using assms by (simp add: dv_ensure_def Let_def details_commit details_relayout)
next
  case (DvSelect j)
  then show ?thesis using assms by (simp add: select_tab_def details_commit)
next
  case (DvClose j)
  then show ?thesis using assms by (simp add: close_tab_def Let_def details_commit split: option.split)
next
  case (DvCommitNew j)
  then show ?thesis using assms by (simp add: commit_new_session_def details_of_def)
next
  case (DvSession j)
  then have "j \<noteq> Some i" using assms(1) by simp
  then have "details_of i (dv_session_changed j s) = details_of i s"
    using assms(2) by (cases j) (simp_all add: dv_session_changed_def Let_def details_restore details_save)
  then show ?thesis using DvSession \<open>j \<noteq> Some i\<close> by simp
next
  case (DvLayout l)
  then show ?thesis using assms by (simp add: details_relayout)
qed

lemma details_history:
  "list_all (leaves_alone i) es \<Longrightarrow> dv_session s \<noteq> Some i \<Longrightarrow>
   details_of i (fold apply_detail es s) = details_of i s \<and> dv_session (fold apply_detail es s) \<noteq> Some i"
proof (induction es arbitrary: s)
  case (Cons e es)
  then show ?case using details_step [of i e s] by simp
qed simp

lemma restore_shows:
  "dv_active (dv_restore i s) = dt_id (saved_view i s)"
  "active_tab (dv_restore i s) = Some (if dt_id (saved_view i s) = ''files'' then files_tab else saved_view i s)"
  "is_visible AuxiliaryBar (dv_layout (dv_restore i s)) = saved_auxiliary i s"
  by (auto simp: dv_restore_def Let_def show_saved_def active_tab_def files_tab_def)

lemma details_shown:
  "details_of i s = Some \<lparr>sd_view = Some t, sd_auxiliary = Some b\<rparr> \<Longrightarrow> saved_view i s = t \<and> saved_auxiliary i s = b"
  by (simp add: details_of_def saved_view_def saved_auxiliary_def)

text \<open>
  C21: a session that is left and selected again, whatever happens in between to other sessions,
  to their tabs and to the layout, shows the tab that was active (a tab with the id of the files is
  the files tab again) and the auxiliary bar is visible as it was.
\<close>

theorem details_return_with_session:
  assumes "dv_session s = Some i" and "active_tab s = Some t" and "j \<noteq> Some i"
    and "list_all (leaves_alone i) es"
  shows "let s' = dv_session_changed (Some i) (fold apply_detail es (dv_session_changed j s))
    in dv_active s' = dv_active s
     \<and> active_tab s' = Some (if dt_id t = ''files'' then files_tab else t)
     \<and> is_visible AuxiliaryBar (dv_layout s') = is_visible AuxiliaryBar (dv_layout s)"
proof -
  let ?d = "\<lparr>sd_view = Some t, sd_auxiliary = Some (is_visible AuxiliaryBar (dv_layout s))\<rparr>"
  let ?s1 = "dv_session_changed j s"
  have "details_of i (save_current s) = Some ?d" using assms(1,2) by (simp add: save_current_def details_of_def)
  then have "details_of i ?s1 = Some ?d"
    using assms(3) by (cases j) (simp_all add: dv_session_changed_def Let_def details_restore)
  then have m: "details_of i (fold apply_detail es ?s1) = Some ?d" "dv_session (fold apply_detail es ?s1) \<noteq> Some i"
    using details_history [OF assms(4), of ?s1] assms(3) by auto
  let ?s2 = "(save_current (fold apply_detail es ?s1))\<lparr>dv_session := Some i\<rparr>"
  have d: "details_of i ?s2 = Some ?d" using m by (simp add: details_save)
  have t: "dt_id t = dv_active s" using assms(2) find_SomeD unfolding active_tab_def by fastforce
  show ?thesis
    using details_shown [OF d] t unfolding Let_def dv_session_changed_def [of "Some i"] option.case restore_shows by simp
qed

theorem details_return_with_session_witness:
  "let i = \<lparr>si_workspace = ''w'', si_resource = ''a''\<rparr>; j = \<lparr>si_workspace = ''w'', si_resource = ''b''\<rparr>;
       s = dv_ensure changes_tab (new_detail_view (Some i) (new_layout None) []);
       s' = dv_session_changed (Some i) (fold apply_detail [DvOpen files_tab] (dv_session_changed (Some j) s))
   in dv_active s' = dv_active s \<and> active_tab s' = Some changes_tab
     \<and> is_visible AuxiliaryBar (dv_layout s') = is_visible AuxiliaryBar (dv_layout s)"
proof -
  let ?i = "\<lparr>si_workspace = ''w'', si_resource = ''a''\<rparr>"
  let ?s = "dv_ensure changes_tab (new_detail_view (Some ?i) (new_layout None) [])"
  have s: "dv_session ?s = Some ?i" by (simp add: dv_ensure_def Let_def new_detail_view_def)
  have t: "active_tab ?s = Some changes_tab"
  proof -
    have "dv_tabs (new_detail_view (Some ?i) (new_layout None) []) = [files_tab, changes_tab]"
      by (simp add: new_detail_view_def Let_def dv_restore_def show_saved_def saved_view_def files_tab_def changes_tab_def)
    then show ?thesis by (simp add: active_tab_def dv_ensure_def Let_def files_tab_def changes_tab_def)
  qed
  show ?thesis
    using details_return_with_session [OF s t, of "Some \<lparr>si_workspace = ''w'', si_resource = ''b''\<rparr>" "[DvOpen files_tab]"]
    by (simp add: Let_def changes_tab_def)
qed

section \<open>A narrow window is remembered as the session's choice\<close>

text \<open>
  An automatic hide of the auxiliary bar, which the layout takes back when the window is wide
  again, is saved as the session's details like the user's own: once another session has been
  selected in the narrow window, the bar stays hidden for the session in the wide one.
\<close>

theorem narrow_window_forgets_auxiliary:
  assumes "dv_session s = Some i" and "is_visible AuxiliaryBar (dv_layout s)" and "j \<noteq> Some i"
    and "list_all (leaves_alone i) es"
  shows "let narrow = dv_relayout (set_auto_hidden AuxiliaryBar True ''responsive-policy'') s;
             wide = fold apply_detail (DvLayout (LyAutoHidden AuxiliaryBar False ''responsive-policy'') # es)
                      (dv_session_changed j narrow)
    in \<not> is_visible AuxiliaryBar (dv_layout (dv_session_changed (Some i) wide))"
proof -
  let ?n = "dv_relayout (set_auto_hidden AuxiliaryBar True ''responsive-policy'') s"
  let ?es = "DvLayout (LyAutoHidden AuxiliaryBar False ''responsive-policy'') # es"
  have v: "\<not> is_visible AuxiliaryBar (dv_layout ?n)"
    by (auto simp add: is_visible_def hidden_by_auto os_add_def)
  let ?d = "\<lparr>sd_view = active_tab ?n, sd_auxiliary = Some False\<rparr>"
  have n: "dv_session ?n = Some i" using assms(1) by simp
  have "details_of i (save_current ?n) = Some ?d" using n v by (simp add: save_current_def details_of_def)
  then have "details_of i (dv_session_changed j ?n) = Some ?d"
    using assms(3) by (cases j) (simp_all add: dv_session_changed_def Let_def details_restore)
  moreover have "list_all (leaves_alone i) ?es" using assms(4) by simp
  ultimately have m: "details_of i (fold apply_detail ?es (dv_session_changed j ?n)) = Some ?d"
      "dv_session (fold apply_detail ?es (dv_session_changed j ?n)) \<noteq> Some i"
    using details_history [of i ?es "dv_session_changed j ?n"] assms(3) by auto
  let ?s2 = "(save_current (fold apply_detail ?es (dv_session_changed j ?n)))\<lparr>dv_session := Some i\<rparr>"
  have "details_of i ?s2 = Some ?d" unfolding details_keep details_save [OF m(2)] by (rule m(1))
  then have "saved_auxiliary i ?s2 = False" by (simp add: details_of_def saved_auxiliary_def)
  then show ?thesis
    unfolding Let_def dv_session_changed_def [of "Some i"] option.case restore_shows by blast
qed

theorem narrow_window_forgets_auxiliary_witness:
  "let s = dv_ensure changes_tab (new_detail_view (Some \<lparr>si_workspace = ''w'', si_resource = ''a''\<rparr>) (new_layout None) []);
       narrow = dv_relayout (set_auto_hidden AuxiliaryBar True ''responsive-policy'') s;
       wide = fold apply_detail [DvLayout (LyAutoHidden AuxiliaryBar False ''responsive-policy'')] (dv_session_changed None narrow)
   in \<not> is_visible AuxiliaryBar (dv_layout (dv_session_changed (Some \<lparr>si_workspace = ''w'', si_resource = ''a''\<rparr>) wide))"
proof -
  let ?i = "\<lparr>si_workspace = ''w'', si_resource = ''a''\<rparr>"
  let ?s = "dv_ensure changes_tab (new_detail_view (Some ?i) (new_layout None) [])"
  have s: "dv_session ?s = Some ?i" "is_visible AuxiliaryBar (dv_layout ?s)"
    by (simp_all add: dv_ensure_def Let_def new_detail_view_def dv_commit_def set_editor_visible_def)
  show ?thesis
    using narrow_window_forgets_auxiliary [OF s, of None "[]"] by (simp add: Let_def)
qed

end
