(* ===== verification/Resources.thy ===== *)
theory Resources
  imports Attachment DetailView
begin

text \<open>
  \<open>packages/workbench/src/contrib/workspace/workspace-resource-service.ts\<close>: the changes and
  files of the workspaces, loaded from the attached host.

  Every operation that awaits a host is split there; the second step takes what the host
  answered.  \<open>rs_loading\<close> collects the loads that have begun and not ended.  The calls made on
  hosts are a log; the host's \<open>resourceURI\<close> is a parameter, \<open>None\<close> where it throws (\<open>new URL\<close> does for a
  base that is no URL): an answer whose entries cannot be resolved replaces the changes only.  A change is a value: the list the
  service holds is its own copy of what the host sent.
\<close>

section \<open>State\<close>

record workspace_change =
  cg_diff :: string
  cg_id :: string
  cg_path :: string
  cg_resource :: string
  cg_reviewed :: bool
  cg_status :: string

record resource_entry =
  re_name :: string
  re_directory :: bool

record workspace_file =
  fl_name :: string
  fl_directory :: bool
  fl_uri :: string

datatype load_state = LoadError | LoadIdle | LoadLoading | LoadReady

datatype resource_call =
    AskChangeset nat string
  | AskResources nat "string option"
  | AskRead nat string
  | AskOperation nat string string string
  | TellReviewed nat string string bool

record resources =
  rs_changes :: "(string, workspace_change list) omap"
  rs_files :: "(string, workspace_file list) omap"
  rs_children :: "(string, (string, workspace_file list) omap) omap"
  rs_pending :: string
  rs_errors :: "(string, string) omap"
  rs_states :: "(string, load_state) omap"
  rs_changesets :: "(string, string) omap"
  rs_generations :: "(string, nat) omap"
  rs_details :: detail_view
  rs_loading :: "(string \<times> nat) list"
  rs_calls :: "resource_call list"
  rs_fired :: nat

definition new_resources :: "detail_view \<Rightarrow> resources" where
  "new_resources d = \<lparr>rs_changes = [], rs_files = [], rs_children = [], rs_pending = [], rs_errors = [], rs_states = [],
     rs_changesets = [], rs_generations = [], rs_details = d, rs_loading = [], rs_calls = [], rs_fired = 0\<rparr>"

definition rs_fire :: "resources \<Rightarrow> resources" where
  "rs_fire s = s\<lparr>rs_fired := Suc (rs_fired s)\<rparr>"

definition rs_call :: "resource_call list \<Rightarrow> resources \<Rightarrow> resources" where
  "rs_call cs s = s\<lparr>rs_calls := rs_calls s @ cs\<rparr>"

section \<open>Loading\<close>

definition root_key :: "string \<Rightarrow> string" where
  "root_key ws = ws @ ''|root''"

definition directory_key :: "string \<Rightarrow> string \<Rightarrow> string" where
  "directory_key ws uri = ws @ ''|directory|'' @ uri"

definition rs_generation :: "string \<Rightarrow> resources \<Rightarrow> nat" where
  "rs_generation k s = (case om_get (rs_generations s) k of None \<Rightarrow> 0 | Some n \<Rightarrow> n)"

text \<open>A session resource that is given and not empty.\<close>

definition given_session :: "string option \<Rightarrow> string option" where
  "given_session sr = (case sr of None \<Rightarrow> None | Some r \<Rightarrow> if r = [] then None else Some r)"

definition load_begin :: "string \<Rightarrow> nat \<Rightarrow> string option \<Rightarrow> resources \<Rightarrow> resources \<times> nat" where
  "load_begin ws h sr s =
     (let g = Suc (rs_generation (root_key ws) s)
      in (rs_call ((case given_session sr of None \<Rightarrow> [] | Some r \<Rightarrow> [AskChangeset h r]) @ [AskResources h None])
            (rs_fire (s\<lparr>rs_generations := om_set (root_key ws) g (rs_generations s),
                        rs_states := om_set ws LoadLoading (rs_states s),
                        rs_errors := om_set ws [] (rs_errors s),
                        rs_loading := rs_loading s @ [(ws, g)]\<rparr>)), g))"

definition file_of :: "(string \<Rightarrow> string option \<Rightarrow> string option) \<Rightarrow> string option \<Rightarrow> resource_entry \<Rightarrow> workspace_file option" where
  "file_of uri base e =
     map_option (\<lambda>u. \<lparr>fl_name = re_name e, fl_directory = re_directory e, fl_uri = u\<rparr>)
       (uri (if re_directory e then re_name e @ ''/'' else re_name e) base)"

text \<open>\<open>None\<close> where \<open>resourceURI\<close> throws for one of the entries.\<close>

definition files_of :: "(string \<Rightarrow> string option \<Rightarrow> string option) \<Rightarrow> string option \<Rightarrow> resource_entry list \<Rightarrow> workspace_file list option" where
  "files_of uri base es = those (map (file_of uri base) es)"

definition children_of :: "string \<Rightarrow> resources \<Rightarrow> (string, workspace_file list) omap" where
  "children_of ws s = (case om_get (rs_children s) ws of None \<Rightarrow> [] | Some m \<Rightarrow> m)"

text \<open>
  What \<open>Promise.all\<close> settles with: the rejection (\<open>None\<close> if it is no \<open>Error\<close>) or the
  changeset's files and resource and the entries.
\<close>

type_synonym load_result = "string option + (workspace_change list \<times> string) \<times> resource_entry list"

definition load_end ::
  "(string \<Rightarrow> string option \<Rightarrow> string option) \<Rightarrow> string \<Rightarrow> string option \<Rightarrow> nat \<Rightarrow> load_result \<Rightarrow> resources \<Rightarrow> resources" where
  "load_end uri ws sr g r s =
     (let current = (om_get (rs_generations s) (root_key ws) = Some g);
          s' = s\<lparr>rs_loading := filter (\<lambda>l. l \<noteq> (ws, g)) (rs_loading s)\<rparr>
      in if \<not> current then s'
         else case r of
             Inl e \<Rightarrow>
               rs_fire (s'\<lparr>rs_states := om_set ws LoadError (rs_states s),
                           rs_errors := om_set ws (case e of Some m \<Rightarrow> m | None \<Rightarrow> ''Unable to load workspace resources'')
                                          (rs_errors s)\<rparr>)
           | Inr (changeset, entries) \<Rightarrow>
               let c = (if given_session sr = None then ([], []) else changeset);
                   s1 = s'\<lparr>rs_changes := om_set ws (fst c) (rs_changes s), rs_changesets := om_set ws (snd c) (rs_changesets s)\<rparr>
               in (case files_of uri None entries of
                     None \<Rightarrow> s1
                   | Some files \<Rightarrow>
                       rs_fire (s1\<lparr>rs_files := om_set ws files (rs_files s),
                                   rs_children := om_set ws (om_set [] files (children_of ws s)) (rs_children s),
                                   rs_states := om_set ws LoadReady (rs_states s)\<rparr>)))"

text \<open>
  An entry of the answer has no URI: where the load is still the newest one, \<open>loadWorkspace\<close> rejects
  with what \<open>resourceURI\<close> has thrown.
\<close>

definition unresolvable :: "(string \<Rightarrow> string option \<Rightarrow> string option) \<Rightarrow> load_result \<Rightarrow> bool" where
  "unresolvable uri r = (case r of Inl e \<Rightarrow> False | Inr (changeset, entries) \<Rightarrow> files_of uri None entries = None)"

definition load_throws :: "(string \<Rightarrow> string option \<Rightarrow> string option) \<Rightarrow> string \<Rightarrow> nat \<Rightarrow> load_result \<Rightarrow> resources \<Rightarrow> bool" where
  "load_throws uri ws g r s \<longleftrightarrow> om_get (rs_generations s) (root_key ws) = Some g \<and> unresolvable uri r"

definition refresh_resources :: "'a attachment \<Rightarrow> resources \<Rightarrow> resources" where
  "refresh_resources wa s = (case attached_pair wa of None \<Rightarrow> s | Some (ws, h) \<Rightarrow> fst (load_begin ws h None s))"

definition directory_begin :: "'a attachment \<Rightarrow> string \<Rightarrow> resources \<Rightarrow> resources" where
  "directory_begin wa uri s =
     (case attached_pair wa of
        None \<Rightarrow> s
      | Some (ws, h) \<Rightarrow>
          rs_call [AskResources h (Some uri)]
            (s\<lparr>rs_generations := om_set (directory_key ws uri) (Suc (rs_generation (directory_key ws uri) s)) (rs_generations s)\<rparr>))"

definition directory_end ::
  "(string \<Rightarrow> string option \<Rightarrow> string option) \<Rightarrow> string \<Rightarrow> string \<Rightarrow> nat \<Rightarrow> resource_entry list \<Rightarrow> resources \<Rightarrow> resources" where
  "directory_end uri ws dir g entries s =
     (if om_get (rs_generations s) (directory_key ws dir) \<noteq> Some g then s
      else (case files_of uri (Some dir) entries of
              None \<Rightarrow> s
            | Some files \<Rightarrow> rs_fire (s\<lparr>rs_children := om_set ws (om_set dir files (children_of ws s)) (rs_children s)\<rparr>)))"

section \<open>Files and changes\<close>

definition open_file_begin :: "'a attachment \<Rightarrow> string \<Rightarrow> resources \<Rightarrow> resources" where
  "open_file_begin wa uri s = (case attached_pair wa of None \<Rightarrow> s | Some (ws, h) \<Rightarrow> rs_call [AskRead h uri] s)"

definition open_file_end :: "string \<Rightarrow> string \<Rightarrow> resources \<Rightarrow> resources" where
  "open_file_end uri content s =
     s\<lparr>rs_details := open_preview uri (last (split_by (\<lambda>c. c = CHR ''/'') uri)) content (rs_details s)\<rparr>"

definition change_at :: "string \<Rightarrow> string \<Rightarrow> resources \<Rightarrow> workspace_change option" where
  "change_at ws path s =
     find (\<lambda>c. cg_path c = path) (case om_get (rs_changes s) ws of None \<Rightarrow> [] | Some cs \<Rightarrow> cs)"

text \<open>\<open>attachedWorkspaceID()\<close>, if it is not empty.\<close>

definition current_workspace :: "'a attachment \<Rightarrow> string option" where
  "current_workspace wa = (case attached_workspace wa of None \<Rightarrow> None | Some w \<Rightarrow> if w = [] then None else Some w)"

definition open_change :: "'a attachment \<Rightarrow> string \<Rightarrow> resources \<Rightarrow> resources" where
  "open_change wa path s =
     (case current_workspace wa of
        None \<Rightarrow> s
      | Some ws \<Rightarrow>
          (case change_at ws path s of
             None \<Rightarrow> s
           | Some c \<Rightarrow> s\<lparr>rs_details := open_preview (''diff:'' @ path) path (cg_diff c) (rs_details s)\<rparr>))"

text \<open>The changeset and the change an operation on a path is about, if both are known.\<close>

definition operand :: "string \<Rightarrow> string \<Rightarrow> resources \<Rightarrow> (string \<times> workspace_change) option" where
  "operand ws path s =
     (case om_get (rs_changesets s) ws of
        None \<Rightarrow> None
      | Some cs \<Rightarrow> if cs = [] then None else map_option (\<lambda>c. (cs, c)) (change_at ws path s))"

definition operation_begin :: "string \<Rightarrow> 'a attachment \<Rightarrow> string \<Rightarrow> resources \<Rightarrow> resources" where
  "operation_begin opid wa path s =
     (case current_workspace wa of
        None \<Rightarrow> s
      | Some ws \<Rightarrow>
          (case operand ws path s of
             None \<Rightarrow> s
           | Some (cs, c) \<Rightarrow>
               (case attached (Some ws) wa of None \<Rightarrow> s | Some h \<Rightarrow> rs_call [AskOperation h cs opid (cg_resource c)] s)))"

definition stage_begin :: "'a attachment \<Rightarrow> string \<Rightarrow> resources \<Rightarrow> resources" where
  "stage_begin = operation_begin ''stage''"

definition stage_end :: "'a attachment \<Rightarrow> resources \<Rightarrow> resources" where
  "stage_end wa s = refresh_resources wa s"

definition revert_begin :: "'a attachment \<Rightarrow> resources \<Rightarrow> resources" where
  "revert_begin wa s = (if rs_pending s = [] then s else operation_begin ''revert'' wa (rs_pending s) s)"

definition revert_end :: "'a attachment \<Rightarrow> resources \<Rightarrow> resources" where
  "revert_end wa s = refresh_resources wa (s\<lparr>rs_pending := []\<rparr>)"

definition request_revert :: "string \<Rightarrow> resources \<Rightarrow> resources" where
  "request_revert path s = rs_fire (s\<lparr>rs_pending := path\<rparr>)"

text \<open>The change found is changed in place: the first of its path.\<close>

fun flip_reviewed :: "string \<Rightarrow> workspace_change list \<Rightarrow> workspace_change list" where
  "flip_reviewed path [] = []"
| "flip_reviewed path (c # cs) =
     (if cg_path c = path then c\<lparr>cg_reviewed := \<not> cg_reviewed c\<rparr> # cs else c # flip_reviewed path cs)"

definition review_change :: "'a attachment \<Rightarrow> string \<Rightarrow> resources \<Rightarrow> resources" where
  "review_change wa path s =
     (case current_workspace wa of
        None \<Rightarrow> s
      | Some ws \<Rightarrow>
          (case operand ws path s of
             None \<Rightarrow> s
           | Some (cs, c) \<Rightarrow>
               let calls = (case attached (Some ws) wa of None \<Rightarrow> [] | Some h \<Rightarrow> [TellReviewed h cs (cg_id c) (\<not> cg_reviewed c)])
               in rs_fire (rs_call calls
                    (s\<lparr>rs_changes := om_set ws (flip_reviewed path (the (om_get (rs_changes s) ws))) (rs_changes s)\<rparr>))))"

definition replace_changes :: "string \<Rightarrow> string \<Rightarrow> workspace_change list \<Rightarrow> resources \<Rightarrow> resources" where
  "replace_changes ws cs changes s =
     rs_fire (s\<lparr>rs_changes := om_set ws changes (rs_changes s), rs_changesets := om_set ws cs (rs_changesets s)\<rparr>)"

datatype 'a resource_op =
    RsLoad string nat "string option" | RsLoaded string "string option" nat load_result
  | RsRefresh "'a attachment"
  | RsDirectory "'a attachment" string | RsDirectoryRead string string nat "resource_entry list"
  | RsOpenFile "'a attachment" string | RsFileRead string string
  | RsOpenChange "'a attachment" string
  | RsStage "'a attachment" string | RsStaged "'a attachment"
  | RsRevert "'a attachment" | RsReverted "'a attachment"
  | RsRequestRevert string | RsReview "'a attachment" string
  | RsReplace string string "workspace_change list"

fun apply_resource :: "(string \<Rightarrow> string option \<Rightarrow> string option) \<Rightarrow> 'a resource_op \<Rightarrow> resources \<Rightarrow> resources" where
  "apply_resource uri (RsLoad ws h sr) s = fst (load_begin ws h sr s)"
| "apply_resource uri (RsLoaded ws sr g r) s = load_end uri ws sr g r s"
| "apply_resource uri (RsRefresh wa) s = refresh_resources wa s"
| "apply_resource uri (RsDirectory wa dir) s = directory_begin wa dir s"
| "apply_resource uri (RsDirectoryRead ws dir g es) s = directory_end uri ws dir g es s"
| "apply_resource uri (RsOpenFile wa f) s = open_file_begin wa f s"
| "apply_resource uri (RsFileRead f content) s = open_file_end f content s"
| "apply_resource uri (RsOpenChange wa path) s = open_change wa path s"
| "apply_resource uri (RsStage wa path) s = stage_begin wa path s"
| "apply_resource uri (RsStaged wa) s = stage_end wa s"
| "apply_resource uri (RsRevert wa) s = revert_begin wa s"
| "apply_resource uri (RsReverted wa) s = revert_end wa s"
| "apply_resource uri (RsRequestRevert path) s = request_revert path s"
| "apply_resource uri (RsReview wa path) s = review_change wa path s"
| "apply_resource uri (RsReplace ws cs changes) s = replace_changes ws cs changes s"

lemmas resource_defs = load_begin_def load_end_def refresh_resources_def directory_begin_def directory_end_def
  open_file_begin_def open_file_end_def open_change_def operation_begin_def stage_begin_def stage_end_def revert_begin_def
  revert_end_def request_revert_def review_change_def replace_changes_def rs_call_def rs_fire_def Let_def

section \<open>Only the newest load of a workspace shows\<close>

lemma generation_set:
  "rs_generation k (s\<lparr>rs_generations := om_set k' n (rs_generations s)\<rparr>) = (if k = k' then n else rs_generation k s)"
  by (simp add: rs_generation_def)

lemma rs_generation_cong: "rs_generations s = rs_generations s' \<Longrightarrow> rs_generation k s = rs_generation k s'"
  by (simp add: rs_generation_def)

lemma rs_fire_fields [simp]:
  "rs_generations (rs_fire s) = rs_generations s" "rs_states (rs_fire s) = rs_states s" "rs_loading (rs_fire s) = rs_loading s"
  "rs_errors (rs_fire s) = rs_errors s" "rs_changes (rs_fire s) = rs_changes s" "rs_changesets (rs_fire s) = rs_changesets s"
  "rs_files (rs_fire s) = rs_files s" "rs_children (rs_fire s) = rs_children s" "rs_details (rs_fire s) = rs_details s"
  "rs_pending (rs_fire s) = rs_pending s" "rs_calls (rs_fire s) = rs_calls s"
  by (simp_all add: rs_fire_def)

lemma rs_call_fields [simp]:
  "rs_generations (rs_call c s) = rs_generations s" "rs_states (rs_call c s) = rs_states s" "rs_loading (rs_call c s) = rs_loading s"
  "rs_errors (rs_call c s) = rs_errors s" "rs_changes (rs_call c s) = rs_changes s" "rs_changesets (rs_call c s) = rs_changesets s"
  "rs_files (rs_call c s) = rs_files s" "rs_children (rs_call c s) = rs_children s" "rs_details (rs_call c s) = rs_details s"
  "rs_pending (rs_call c s) = rs_pending s" "rs_calls (rs_call c s) = rs_calls s @ c"
  by (simp_all add: rs_call_def)

text \<open>What a step does to the tickets, the states and the loads under way; a load may end by throwing.\<close>

datatype load_effect = Unrelated | Begins string | Ends bool string nat | BeginsDirectory string

fun load_step :: "load_effect \<Rightarrow> resources \<Rightarrow> resources \<Rightarrow> bool" where
  "load_step Unrelated s t \<longleftrightarrow>
     rs_generations t = rs_generations s \<and> rs_states t = rs_states s \<and> rs_loading t = rs_loading s"
| "load_step (Begins ws) s t \<longleftrightarrow>
     rs_generations t = om_set (root_key ws) (Suc (rs_generation (root_key ws) s)) (rs_generations s) \<and>
     rs_states t = om_set ws LoadLoading (rs_states s) \<and>
     rs_loading t = rs_loading s @ [(ws, Suc (rs_generation (root_key ws) s))]"
| "load_step (Ends throws ws g) s t \<longleftrightarrow>
     rs_generations t = rs_generations s \<and> rs_loading t = filter (\<lambda>l. l \<noteq> (ws, g)) (rs_loading s) \<and>
     (if om_get (rs_generations s) (root_key ws) = Some g \<and> \<not> throws
      then \<exists>st. st \<noteq> LoadLoading \<and> rs_states t = om_set ws st (rs_states s)
      else rs_states t = rs_states s)"
| "load_step (BeginsDirectory k) s t \<longleftrightarrow>
     (\<exists>ws dir. k = directory_key ws dir) \<and> rs_generations t = om_set k (Suc (rs_generation k s)) (rs_generations s) \<and>
     rs_states t = rs_states s \<and> rs_loading t = rs_loading s"

lemma load_begin_step: "load_step (Begins ws) s (fst (load_begin ws h sr s))"
  by (simp add: load_begin_def Let_def)

lemma refresh_step: "load_step Unrelated s (refresh_resources wa s) \<or> (\<exists>ws. load_step (Begins ws) s (refresh_resources wa s))"
  using load_begin_step by (fastforce simp: refresh_resources_def split: option.split)

lemma load_end_step: "load_step (Ends (unresolvable uri r) ws g) s (load_end uri ws sr g r s)"
  by (auto simp: load_end_def unresolvable_def Let_def split: sum.split option.split)

lemma unresolvable_iff:
  "unresolvable uri (Inr (c, entries)) \<longleftrightarrow>
     (\<exists>e \<in> set entries. uri (if re_directory e then re_name e @ ''/'' else re_name e) None = None)"
  by (auto simp: unresolvable_def files_of_def those_None file_of_def image_iff)

fun op_throws :: "(string \<Rightarrow> string option \<Rightarrow> string option) \<Rightarrow> 'a resource_op \<Rightarrow> bool" where
  "op_throws uri (RsLoaded ws sr g r) = unresolvable uri r"
| "op_throws uri _ = False"

fun step_throws :: "load_effect \<Rightarrow> bool" where
  "step_throws (Ends throws ws g) = throws"
| "step_throws _ = False"

lemma resource_step: "\<exists>e. load_step e s (apply_resource uri op s) \<and> step_throws e = op_throws uri op"
proof -
  have u: "\<exists>e. load_step e s t \<and> step_throws e = False" if "load_step Unrelated s t" for t
    using that step_throws.simps(2) by blast
  have r: "\<exists>e. load_step e s (refresh_resources wa s') \<and> step_throws e = False"
    if "s' = s \<or> s' = s\<lparr>rs_pending := []\<rparr>" for s' and wa :: "'a attachment"
  proof -
    have c: "load_step e (s\<lparr>rs_pending := []\<rparr>) t = load_step e s t" for e t by (cases e) (simp_all add: rs_generation_def)
    have "load_step Unrelated s' (refresh_resources wa s') \<or> (\<exists>ws. load_step (Begins ws) s' (refresh_resources wa s'))"
      by (rule refresh_step)
    then have "load_step Unrelated s (refresh_resources wa s') \<or> (\<exists>ws. load_step (Begins ws) s (refresh_resources wa s'))"
      using that c by blast
    then show ?thesis using step_throws.simps(2,3) by blast
  qed
  show ?thesis
  proof (cases op)
    case (RsLoad ws h sr)
    have "load_step (Begins ws) s (apply_resource uri op s)" unfolding RsLoad apply_resource.simps by (rule load_begin_step)
    then show ?thesis unfolding RsLoad op_throws.simps using step_throws.simps(3) by blast
  next
    case (RsLoaded ws sr g r)
    have "load_step (Ends (unresolvable uri r) ws g) s (apply_resource uri op s)" unfolding RsLoaded apply_resource.simps by (rule load_end_step)
    then show ?thesis unfolding RsLoaded op_throws.simps using step_throws.simps(1) by blast
  next
    case (RsRefresh wa)
    show ?thesis unfolding RsRefresh apply_resource.simps op_throws.simps by (rule r) simp
  next
    case (RsStaged wa)
    show ?thesis unfolding RsStaged apply_resource.simps op_throws.simps stage_end_def by (rule r) simp
  next
    case (RsReverted wa)
    show ?thesis unfolding RsReverted apply_resource.simps op_throws.simps revert_end_def by (rule r) simp
  next
    case (RsDirectory wa dir)
    show ?thesis
    proof (cases "attached_pair wa")
      case None
      then show ?thesis unfolding RsDirectory op_throws.simps by (intro u) (simp add: directory_begin_def)
    next
      case (Some p)
      obtain ws h where "p = (ws, h)" by fastforce
      then have "load_step (BeginsDirectory (directory_key ws dir)) s (apply_resource uri op s)"
        using Some RsDirectory by (auto simp: directory_begin_def)
      then show ?thesis unfolding RsDirectory op_throws.simps using step_throws.simps(4) by blast
    qed
  next
    case (RsDirectoryRead ws dir g es)
    show ?thesis unfolding RsDirectoryRead op_throws.simps by (rule u) (simp add: directory_end_def split: option.split)
  next
    case (RsOpenFile wa f)
    show ?thesis unfolding RsOpenFile op_throws.simps by (rule u) (simp add: open_file_begin_def split: option.split)
  next
    case (RsFileRead f content)
    show ?thesis unfolding RsFileRead op_throws.simps by (rule u) (simp add: open_file_end_def)
  next
    case (RsOpenChange wa path)
    show ?thesis unfolding RsOpenChange op_throws.simps by (rule u) (simp add: open_change_def split: option.split)
  next
    case (RsStage wa path)
    show ?thesis unfolding RsStage op_throws.simps by (rule u) (simp add: stage_begin_def operation_begin_def split: option.split)
  next
    case (RsRevert wa)
    show ?thesis unfolding RsRevert op_throws.simps by (rule u) (simp add: revert_begin_def operation_begin_def split: option.split)
  next
    case (RsRequestRevert path)
    show ?thesis unfolding RsRequestRevert op_throws.simps by (rule u) (simp add: request_revert_def)
  next
    case (RsReview wa path)
    show ?thesis unfolding RsReview op_throws.simps by (rule u) (simp add: review_change_def Let_def split: option.split)
  next
    case (RsReplace ws cs changes)
    show ?thesis unfolding RsReplace op_throws.simps by (rule u) (simp add: replace_changes_def)
  qed
qed

lemma load_step_generation: "load_step e s t \<Longrightarrow> rs_generation k s \<le> rs_generation k t"
  by (cases e) (auto simp: rs_generation_def)

text \<open>What the views show of the resources.\<close>

definition shown_resources :: "resources \<Rightarrow>
    (string, workspace_change list) omap \<times> (string, string) omap \<times> (string, workspace_file list) omap \<times>
    (string, (string, workspace_file list) omap) omap \<times> (string, load_state) omap \<times> (string, string) omap" where
  "shown_resources s = (rs_changes s, rs_changesets s, rs_files s, rs_children s, rs_states s, rs_errors s)"

interpretation loading: latest_wins "rs_generation (root_key ws)" "load_begin ws h sr" "load_end uri ws sr"
  "apply_resource uri :: 'a resource_op \<Rightarrow> resources \<Rightarrow> resources" shown_resources "\<lambda>s. True"
proof unfold_locales
  fix s s' :: resources and t
  assume "load_begin ws h sr s = (s', t)"
  then show "rs_generation (root_key ws) s' = t \<and> rs_generation (root_key ws) s < t"
    by (auto simp: load_begin_def Let_def rs_generation_def)
next
  fix s :: resources and t r
  assume "t \<noteq> rs_generation (root_key ws) s"
  then have "om_get (rs_generations s) (root_key ws) \<noteq> Some t" by (auto simp: rs_generation_def)
  then show "shown_resources (load_end uri ws sr t r s) = shown_resources s"
    by (simp add: load_end_def shown_resources_def)
next
  fix s :: resources and e :: "'a resource_op"
  show "rs_generation (root_key ws) s \<le> rs_generation (root_key ws) (apply_resource uri e s)"
    using resource_step load_step_generation by metis
qed simp_all

text \<open>
  C35: when a workspace is loaded again before its first load has ended, what the first one
  brings, resources or an error, never shows, whatever the service does in between.
\<close>

theorem superseded_load_never_shows:
  fixes before after :: "'a resource_op list"
  assumes "load_begin ws h sr s = (s1, g)"
    and "load_begin ws h' sr' (fold (apply_resource uri) before s1) = (s2, g')"
  shows "shown_resources (load_end uri ws sr g r (fold (apply_resource uri) after s2))
    = shown_resources (fold (apply_resource uri) after s2)"
proof -
  have "g \<noteq> rs_generation (root_key ws) (fold (apply_resource uri) after s2)"
  proof -
    have "rs_generation (root_key ws) s1 = g" using loading.start_ticket [OF TrueI assms(1)] by simp
    then have "g \<le> rs_generation (root_key ws) (fold (apply_resource uri) before s1)"
      using loading.history_ticket [OF TrueI, of ws s1 uri before] by simp
    also have "\<dots> < g'" using loading.start_ticket [OF TrueI assms(2)] by simp
    also have "g' \<le> rs_generation (root_key ws) (fold (apply_resource uri) after s2)"
      using loading.start_ticket [OF TrueI assms(2)] loading.history_ticket [OF TrueI, of ws s2 uri after] by simp
    finally show ?thesis by simp
  qed
  then show ?thesis by (rule loading.finish_stale)
qed

theorem superseded_load_never_shows_witness:
  "let s2 = fst (load_begin ''w'' 5 None (fst (load_begin ''w'' 5 (Some ''s'') (new_resources (new_detail_view None (new_layout None) [])))))
   in shown_resources (load_end (\<lambda>p b. Some p) ''w'' (Some ''s'') 1 (Inl (Some ''lost'')) s2) = shown_resources s2
      \<and> om_get (rs_states s2) ''w'' = Some LoadLoading"
proof -
  let ?s1 = "fst (load_begin ''w'' 5 (Some ''s'') (new_resources (new_detail_view None (new_layout None) [])))"
  let ?s2 = "fst (load_begin ''w'' 5 None ?s1)"
  have b1: "load_begin ''w'' 5 (Some ''s'') (new_resources (new_detail_view None (new_layout None) [])) = (?s1, 1)"
    by (simp add: load_begin_def new_resources_def Let_def rs_generation_def)
  have b2: "load_begin ''w'' 5 None (fold (apply_resource (\<lambda>p b. Some p)) ([] :: nat resource_op list) ?s1) = (?s2, 2)"
    by (simp add: load_begin_def new_resources_def Let_def rs_generation_def)
  have "om_get (rs_states ?s2) ''w'' = Some LoadLoading" by (simp add: load_begin_def Let_def)
  then show ?thesis
    using superseded_load_never_shows [OF b1 b2, of "Inl (Some ''lost'')" "[]"] by (simp add: Let_def)
qed

section \<open>A workspace counts as loading exactly while its newest load is under way\<close>

definition loading_ok :: "bool \<Rightarrow> string \<Rightarrow> resources \<Rightarrow> bool" where
  "loading_ok resolved ws s \<longleftrightarrow>
     ((ws, rs_generation (root_key ws) s) \<in> set (rs_loading s) \<longrightarrow> om_get (rs_states s) ws = Some LoadLoading) \<and>
     (resolved \<longrightarrow> om_get (rs_states s) ws = Some LoadLoading \<longrightarrow> (ws, rs_generation (root_key ws) s) \<in> set (rs_loading s)) \<and>
     (\<forall>g. (ws, g) \<in> set (rs_loading s) \<longrightarrow> 0 < g \<and> g \<le> rs_generation (root_key ws) s)"

lemma root_key_inj [simp]: "root_key ws = root_key ws' \<longleftrightarrow> ws = ws'"
  by (simp add: root_key_def)

lemma root_not_directory:
  assumes "CHR ''|'' \<notin> set ws"
  shows "root_key ws \<noteq> directory_key ws' dir"
proof
  assume "root_key ws = directory_key ws' dir"
  then have "filter (\<lambda>c. c = CHR ''|'') (ws @ ''|root'') = filter (\<lambda>c. c = CHR ''|'') (ws' @ ''|directory|'' @ dir)"
    by (simp only: root_key_def directory_key_def)
  moreover have "filter (\<lambda>c. c = CHR ''|'') ws = []" using assms by (auto simp: filter_empty_conv)
  ultimately have "length ''|'' = length (filter (\<lambda>c. c = CHR ''|'') (ws' @ ''|directory|'' @ dir))" by simp
  then show False by simp
qed

lemma loading_ok_step:
  assumes ws: "CHR ''|'' \<notin> set ws" and ok: "loading_ok resolved ws s" and "load_step e s t" and "resolved \<Longrightarrow> \<not> step_throws e"
  shows "loading_ok resolved ws t"
proof (cases e)
  case Unrelated
  then show ?thesis using ok assms(3) by (simp add: loading_ok_def rs_generation_def)
next
  case (Begins w)
  show ?thesis
  proof (cases "w = ws")
    case True
    have "rs_generation (root_key ws) t = Suc (rs_generation (root_key ws) s)"
      using assms(3) Begins True by (simp add: rs_generation_def)
    then show ?thesis using ok assms(3) Begins True by (auto simp: loading_ok_def)
  next
    case False
    then have "rs_generation (root_key ws) t = rs_generation (root_key ws) s"
      using assms(3) Begins by (simp add: rs_generation_def)
    then show ?thesis using ok assms(3) Begins False by (simp add: loading_ok_def)
  qed
next
  case (Ends throws w g)
  have gen: "rs_generation (root_key ws) t = rs_generation (root_key ws) s"
    using assms(3) Ends by (simp add: rs_generation_def)
  show ?thesis
  proof (cases "om_get (rs_generations s) (root_key w) = Some g")
    case True
    have g: "rs_generation (root_key w) s = g" using True by (simp add: rs_generation_def)
    show ?thesis
    proof (cases throws)
      case True
      then show ?thesis using ok assms(3,4) Ends gen g by (cases "w = ws") (auto simp: loading_ok_def)
    next
      case False
      then obtain st where "st \<noteq> LoadLoading" "rs_states t = om_set w st (rs_states s)" using assms(3) Ends True by auto
      then show ?thesis using ok assms(3) Ends gen g by (cases "w = ws") (auto simp: loading_ok_def)
    qed
  next
    case False
    have "g \<noteq> rs_generation (root_key w) s" if "(w, g) \<in> set (rs_loading s)" "w = ws"
    proof
      assume g: "g = rs_generation (root_key w) s"
      then have "0 < rs_generation (root_key w) s" using ok that by (auto simp: loading_ok_def)
      with g False show False by (auto simp: rs_generation_def split: option.splits)
    qed
    then show ?thesis using ok assms(3) Ends gen False by (auto simp: loading_ok_def)
  qed
next
  case (BeginsDirectory k)
  then obtain w dir where "k = directory_key w dir" using assms(3) by auto
  then have "root_key ws \<noteq> k" using root_not_directory [OF ws] by simp
  then have "rs_generation (root_key ws) t = rs_generation (root_key ws) s"
    using assms(3) BeginsDirectory by (simp add: rs_generation_def)
  then show ?thesis using ok assms(3) BeginsDirectory by (simp add: loading_ok_def)
qed

lemma loading_ok_history:
  assumes "CHR ''|'' \<notin> set ws" and "resolved \<Longrightarrow> \<forall>e \<in> set es. \<not> op_throws uri e"
  shows "loading_ok resolved ws (fold (apply_resource uri) es (new_resources d))"
proof (rule fold_keeps [where P = "loading_ok resolved ws"])
  fix e s assume e: "e \<in> set es" and s: "loading_ok resolved ws s"
  obtain x where x: "load_step x s (apply_resource uri e s)" "step_throws x = op_throws uri e" using resource_step [of s uri e] by blast
  show "loading_ok resolved ws (apply_resource uri e s)" by (rule loading_ok_step [OF assms(1) s x(1)]) (use assms(2) e x(2) in blast)
qed (simp add: loading_ok_def new_resources_def)

text \<open>
  C25: while its newest load has not been answered a workspace is in the state \<open>loading\<close>, and where
  the host's URLs can be resolved only then.  The answer to the newest load, resources or an error,
  ends that state unless an entry's URL cannot be resolved: then the handler throws and the
  workspace stays \<open>loading\<close> although nothing is under way (ids of workspaces contain no vertical bar).
\<close>

theorem workspace_loading_while_pending:
  assumes "CHR ''|'' \<notin> set ws"
  shows "let s = fold (apply_resource uri) es (new_resources d); g = rs_generation (root_key ws) s;
      t = load_end uri ws sr g r s
    in ((ws, g) \<in> set (rs_loading s) \<longrightarrow> om_get (rs_states s) ws = Some LoadLoading) \<and>
       ((\<forall>e \<in> set es. \<not> op_throws uri e) \<longrightarrow> om_get (rs_states s) ws = Some LoadLoading \<longrightarrow> (ws, g) \<in> set (rs_loading s)) \<and>
       ((ws, g) \<in> set (rs_loading s) \<longrightarrow>
          (ws, g) \<notin> set (rs_loading t) \<and> (om_get (rs_states t) ws = Some LoadLoading) = unresolvable uri r)"
proof -
  let ?s = "fold (apply_resource uri) es (new_resources d)"
  let ?g = "rs_generation (root_key ws) ?s"
  have ok: "loading_ok False ws ?s" "(\<forall>e \<in> set es. \<not> op_throws uri e) \<Longrightarrow> loading_ok True ws ?s"
    by (rule loading_ok_history [OF assms]; simp)+
  have "(ws, ?g) \<notin> set (rs_loading (load_end uri ws sr ?g r ?s)) \<and>
      (om_get (rs_states (load_end uri ws sr ?g r ?s)) ws = Some LoadLoading) = unresolvable uri r"
    if p: "(ws, ?g) \<in> set (rs_loading ?s)"
  proof -
    have "0 < ?g" using ok(1) p by (auto simp: loading_ok_def)
    then have "om_get (rs_generations ?s) (root_key ws) = Some ?g" by (auto simp: rs_generation_def split: option.splits)
    moreover have "om_get (rs_states ?s) ws = Some LoadLoading" using ok(1) p by (simp add: loading_ok_def)
    ultimately show ?thesis using load_end_step [of uri r ws ?g ?s sr] by (cases "unresolvable uri r") auto
  qed
  with ok show ?thesis unfolding Let_def by (auto simp: loading_ok_def)
qed

theorem workspace_loading_while_pending_witness:
  "let s = fold (apply_resource (\<lambda>p b. Some p)) [RsLoad ''w'' 5 None :: unit resource_op] (new_resources (new_detail_view None (new_layout None) []))
   in (''w'', 1) \<in> set (rs_loading s) \<and> om_get (rs_states s) ''w'' = Some LoadLoading \<and>
      om_get (rs_states (load_end (\<lambda>p b. Some p) ''w'' None 1 (Inr (([], []), [])) s)) ''w'' \<noteq> Some LoadLoading"
proof -
  let ?s = "fold (apply_resource (\<lambda>p b. Some p)) [RsLoad ''w'' 5 None :: unit resource_op] (new_resources (new_detail_view None (new_layout None) []))"
  have "rs_generation (root_key ''w'') ?s = 1" "(''w'', 1) \<in> set (rs_loading ?s)"
    by (simp_all add: load_begin_def rs_generation_def new_resources_def Let_def)
  moreover have "\<not> unresolvable (\<lambda>p b. Some p) (Inr (([], []), []))" by (simp add: unresolvable_iff)
  ultimately show ?thesis
    using workspace_loading_while_pending [of "''w''" "\<lambda>p b. Some p" "[RsLoad ''w'' 5 None :: unit resource_op]"
        "new_detail_view None (new_layout None) []" None "Inr (([], []), [])"] unfolding Let_def by simp
qed

text \<open>
  A host that gives no default directory has the empty text as the base of its URLs, which is no URL:
  every answer with an entry throws, and the workspace stays \<open>loading\<close> with changes that no
  listener was told of.
\<close>

theorem unresolvable_answer_loads_for_ever:
  assumes "\<And>n. uri n None = None" and "entries \<noteq> []" and "om_get (rs_states s) ws = Some LoadLoading"
    and "om_get (rs_generations s) (root_key ws) = Some g" and "given_session sr \<noteq> None"
  shows "let t = load_end uri ws sr g (Inr (changeset, entries)) s
    in om_get (rs_states t) ws = Some LoadLoading \<and> (ws, g) \<notin> set (rs_loading t) \<and>
       om_get (rs_changes t) ws = Some (fst changeset) \<and> rs_fired t = rs_fired s"
proof -
  have "files_of uri None entries = None"
    using assms(1,2) by (cases entries) (auto simp: files_of_def those_None file_of_def)
  moreover obtain x where "given_session sr = Some x" using assms(5) by blast
  ultimately show ?thesis using assms(3,4) by (simp add: load_end_def Let_def)
qed

section \<open>What a refresh and a late answer get wrong\<close>

text \<open>
  The refresh that follows a staged or reverted change loads the workspace without a session:
  when it has ended there are no changes and no changeset, whatever the host would have listed, and
  staging, reverting and reviewing do nothing until the host publishes the changeset again.
\<close>

theorem refresh_forgets_changes:
  assumes "attached_pair wa = Some (ws, h)"
  shows "let s1 = stage_end wa s; s2 = load_end uri ws None (rs_generation (root_key ws) s1) (Inr (changeset, entries)) s1
    in om_get (rs_changes s2) ws = Some [] \<and> om_get (rs_changesets s2) ws = Some [] \<and>
       stage_begin wa path s2 = s2 \<and> revert_begin wa s2 = s2 \<and> review_change wa path s2 = s2"
proof -
  have w: "attached_workspace wa = Some ws" "ws \<noteq> []"
    using assms by (auto simp: attached_pair_def split: option.splits if_splits)
  let ?s1 = "stage_end wa s"
  let ?g = "rs_generation (root_key ws) ?s1"
  let ?s2 = "load_end uri ws None ?g (Inr (changeset, entries)) ?s1"
  have g: "om_get (rs_generations ?s1) (root_key ws) = Some ?g"
    using assms by (simp add: stage_end_def refresh_resources_def load_begin_def Let_def rs_generation_def)
  then have c: "om_get (rs_changes ?s2) ws = Some []" "om_get (rs_changesets ?s2) ws = Some []"
    by (simp_all add: load_end_def given_session_def Let_def split: option.split)
  then have "operation_begin opid wa path ?s2 = ?s2" "review_change wa path ?s2 = ?s2" for opid path
    using w by (simp_all add: operation_begin_def review_change_def current_workspace_def operand_def)
  then show ?thesis using c unfolding Let_def stage_begin_def revert_begin_def by simp
qed

theorem refresh_forgets_changes_witness:
  "let wa = fst (Attachment.connected 1 (''w'', Inr 7) (fst (attach ''w'' (new_attachment :: nat attachment))));
       s1 = stage_end wa (new_resources (new_detail_view None (new_layout None) []));
       s2 = load_end (\<lambda>p b. Some p) ''w'' None (rs_generation (root_key ''w'') s1) (Inr (([], ''changes''), [])) s1
   in om_get (rs_changesets s2) ''w'' = Some []"
proof -
  let ?wa = "fst (Attachment.connected 1 (''w'', Inr 7) (fst (attach ''w'' (new_attachment :: nat attachment))))"
  have "attached_pair ?wa = Some (''w'', 7)"
    by (simp add: Attachment.connected_def attach_def begin_attach_def new_attachment_def close_current_def Let_def attached_pair_def
        attached_def attached_workspace_def is_closed_def)
  from refresh_forgets_changes [OF this] show ?thesis unfolding Let_def by blast
qed

text \<open>
  A file that was opened in one session and is read when another session has been selected
  opens in that other session's details and is saved with them.
\<close>

theorem late_file_opens_in_other_session:
  assumes "s' = s\<lparr>rs_details := dv_session_changed (Some j) (rs_details s)\<rparr>"
  shows "let d = rs_details (open_file_end uri content s')
    in dv_session d = Some j \<and> dv_active d = uri \<and>
       details_of j d = Some \<lparr>sd_view = active_tab d, sd_auxiliary = Some True\<rparr>"
proof -
  have ev: "is_visible p (set_editor_visible v l) = is_visible p l" for p v l
    by (rule is_visible_eqI) (simp_all add: set_editor_visible_def)
  have "dv_session (dv_ensure t d) = dv_session d" "dv_active (dv_ensure t d) = dt_id t" for t d
    by (simp_all add: dv_ensure_def Let_def)
  moreover have "details_of j (dv_ensure t d) = Some \<lparr>sd_view = active_tab (dv_ensure t d), sd_auxiliary = Some True\<rparr>"
    if "dv_session d = Some j" for t d
    using that by (simp add: dv_ensure_def Let_def dv_commit_def details_of_def save_current_def ev active_tab_def)
  ultimately
  show ?thesis unfolding assms open_file_end_def Let_def by (simp add: open_preview_def)
qed

theorem late_file_opens_in_other_session_witness:
  "let j = \<lparr>si_workspace = ''w'', si_resource = ''b''\<rparr>; s = new_resources (new_detail_view None (new_layout None) []);
       d = rs_details (open_file_end ''file:/a/b.txt'' ''text'' (s\<lparr>rs_details := dv_session_changed (Some j) (rs_details s)\<rparr>))
   in dv_session d = Some j \<and> dv_active d = ''file:/a/b.txt''"
  using late_file_opens_in_other_session
    [OF refl, where j = "\<lparr>si_workspace = ''w'', si_resource = ''b''\<rparr>" and s = "new_resources (new_detail_view None (new_layout None) [])"
       and uri = "''file:/a/b.txt''" and content = "''text''"]
  unfolding Let_def by blast

end
