(* ===== verification/ProtocolText.thy ===== *)
theory ProtocolText
  imports ChatSession Resources
begin

text \<open>
  The functions of \<open>packages/workbench/src/contrib/sessions/ahp-projection-service.ts\<close> that
  read the values of the protocol: the texts of tool calls, results and errors, the events of a turn
  in a snapshot and the changes of a changeset.

  A value of type \<open>unknown\<close> is the dynamic value it is (\<open>json\<close>); reading a property of what
  is no object gives \<open>undefined\<close>, as \<open>recordValue(v)?.k\<close> does.
\<close>

section \<open>Strings, records and markdown\<close>

definition record_value :: "json \<Rightarrow> json option" where
  "record_value v = (case v of JObj fs \<Rightarrow> Some v | JArr xs \<Rightarrow> Some v | _ \<Rightarrow> None)"

definition string_value :: "json \<Rightarrow> string" where
  "string_value v = (case v of JStr s \<Rightarrow> s | _ \<Rightarrow> [])"

definition str_field :: "json \<Rightarrow> string \<Rightarrow> string" where
  "str_field v k = string_value (field v k)"

definition display_text :: "json \<Rightarrow> string" where
  "display_text v = (case v of JStr s \<Rightarrow> s | _ \<Rightarrow> str_field v ''markdown'')"

definition looks_like_object :: "string \<Rightarrow> bool" where
  "looks_like_object s \<longleftrightarrow> starts_with ''{'' s \<and> ends_with ''}'' s"

section \<open>What a tool asks to do\<close>

fun first_identifier :: "json list \<Rightarrow> string" where
  "first_identifier [] = []"
| "first_identifier (c # cs) = or_str (str_field c ''identifier'') (first_identifier cs)"

definition first_command_identifier :: "json \<Rightarrow> string" where
  "first_command_identifier v = first_identifier (arr_items v)"

text \<open>The lines that are not empty, each where it occurs first.\<close>

definition distinct_lines :: "string list \<Rightarrow> string list" where
  "distinct_lines ls = rev (remdups (rev (filter (\<lambda>l. l \<noteq> []) ls)))"

definition newline :: string where
  "newline = [CHR 0x0A]"

definition permission_request_detail :: "string \<Rightarrow> string" where
  "permission_request_detail value =
     (if \<not> looks_like_object value then []
      else case (case json_parse value of None \<Rightarrow> None | Some v \<Rightarrow> record_value v) of
          None \<Rightarrow> []
        | Some r \<Rightarrow>
            let command = or_str (or_str (str_field r ''fullCommandText'') (str_field r ''command''))
                            (first_command_identifier (field r ''commands''));
                intention = or_str (str_field r ''intention'') (str_field r ''description'');
                path = or_str (str_field r ''path'') (str_field r ''filePath'');
                url = str_field r ''url'';
                lines = distinct_lines
                  [if command \<noteq> [] then ''$ '' @ command else [],
                   intention,
                   if command = [] \<and> path \<noteq> [] then path else [],
                   if command = [] \<and> path = [] then url else []];
                kind = str_field r ''kind''
            in if 0 < length lines then join_str newline lines
               else if kind \<noteq> [] then kind @ '' requires approval.'' else [])"

fun tool_invocation_detail :: "string list \<Rightarrow> string" where
  "tool_invocation_detail [] = ''This action requires approval.''"
| "tool_invocation_detail (c # cs) =
     (let v = js_trim c in
      if v = [] then tool_invocation_detail cs
      else let permission = permission_request_detail v in
           if permission \<noteq> [] then permission
           else if \<not> looks_like_object v then v
           else tool_invocation_detail cs)"

section \<open>What a tool has done\<close>

text \<open>
  \<open>errorMessage\<close> parses a text as JSON and looks again at what it denotes; a string in a JSON
  text is shorter than the text, so this ends.
\<close>

lemma utf8_length: "n < 0x80 \<Longrightarrow> length (utf8 n) = 1" "length (utf8 n) \<le> 4" "n < 0x10000 \<Longrightarrow> length (utf8 n) \<le> 3"
  by (simp_all add: utf8_def)

lemma hex_val_bound: "hex_val c = Some n \<Longrightarrow> n < 16"
  by (auto simp: hex_val_def Let_def split: if_splits)

lemma hex4_bound: "hex4 a b c d = Some n \<Longrightarrow> n < 0x10000"
proof -
  assume h: "hex4 a b c d = Some n"
  then obtain w x y z where v: "hex_val a = Some w" "hex_val b = Some x" "hex_val c = Some y" "hex_val d = Some z"
    and n: "n = ((w * 16 + x) * 16 + y) * 16 + z"
    by (auto simp: hex4_def split: option.splits)
  have "w < 16" "x < 16" "y < 16" "z < 16" using v by (auto dest: hex_val_bound)
  then show ?thesis unfolding n by simp
qed

lemma low_surrogate_length: "low_surrogate r = Some (lo, r') \<Longrightarrow> length r = length r' + 6"
  by (auto simp: low_surrogate_def split: list.splits if_splits option.splits)

lemma unescape_length:
  assumes "unescape r = Some (d, r')"
  shows "length d + length r' \<le> length r"
proof -
  obtain e r1 where r: "r = e # r1" using assms by (auto simp: unescape_def split: list.splits)
  show ?thesis
  proof (cases "e = CHR ''u''")
    case False
    then show ?thesis using assms r by (auto simp: unescape_def split: option.splits)
  next
    case True
    then obtain a b c f r2 n where r1: "r1 = a # b # c # f # r2" and n: "hex4 a b c f = Some n"
      using assms r by (auto simp: unescape_def split: list.splits option.splits)
    show ?thesis
    proof (cases "(0xD800 \<le> n \<and> n \<le> 0xDBFF) \<and> low_surrogate r2 \<noteq> None")
      case True
      then obtain lo r3 where lo: "low_surrogate r2 = Some (lo, r3)" by auto
      then have "d = utf8 (0x10000 + (n - 0xD800) * 1024 + (lo - 0xDC00)) \<and> r' = r3"
        using assms True n by (simp add: unescape_def r r1 \<open>e = CHR ''u''\<close>)
      then show ?thesis using utf8_length(2) [of "0x10000 + (n - 0xD800) * 1024 + (lo - 0xDC00)"] low_surrogate_length [OF lo]
        by (simp add: r r1)
    next
      case False
      then have "d = utf8 n \<and> r' = r2"
        using assms n by (auto simp: unescape_def r r1 \<open>e = CHR ''u''\<close> split: if_splits option.splits)
      then show ?thesis using utf8_length(3) [OF hex4_bound [OF n]] by (simp add: r r1)
    qed
  qed
qed

lemma parse_chars_length: "parse_chars s = Some (t, r) \<Longrightarrow> length t + length r < length s"
proof (induction s arbitrary: t r rule: parse_chars.induct)
  case (1 s)
  obtain c cs where s: "s = c # cs" using "1.prems" by (cases s) auto
  note step = "1.prems" [unfolded s parse_chars.simps [of "c # cs"] list.case]
  show ?case
  proof (cases "c = quote_char")
    case True
    then show ?thesis using step s by simp
  next
    case q: False
    show ?thesis
    proof (cases "c = backslash")
      case True
      then obtain d r1 t' where u: "unescape cs = Some (d, r1)" and p: "parse_chars r1 = Some (t', r)" and t: "t = d @ t'"
        using step q by (auto split: option.splits)
      have "length t' + length r < length r1" using "1.IH"(1) [OF s q True u refl p] .
      then show ?thesis using unescape_length [OF u] by (simp add: s t)
    next
      case b: False
      then obtain t' where ctl: "\<not> (of_char c :: nat) < 32" and p: "parse_chars cs = Some (t', r)" and t: "t = c # t'"
        using step q by (auto split: if_splits)
      have "length t' + length r < length cs" using "1.IH"(2) [OF s q b ctl p] .
      then show ?thesis by (simp add: s t)
    qed
  qed
qed

lemma parsed_string_shorter:
  assumes "json_parse text = Some (JStr s)"
  shows "length s < length text"
proof -
  obtain r where "parse_value (2 * length text + 1) (skip_ws text) = Some (JStr s, r)"
    using assms by (auto simp: json_parse_def split: option.splits prod.splits if_splits)
  then obtain c cs where c: "skip_ws text = c # cs" and v: "parse_value (Suc (2 * length text)) (c # cs) = Some (JStr s, r)"
    by (cases "skip_ws text") auto
  have "c = quote_char"
  proof (rule ccontr)
    assume "c \<noteq> quote_char"
    then have "parse_num (c # cs) = Some (JStr s, r)" using v by (auto split: if_splits)
    then show False by (auto simp: parse_num_def Let_def split: option.splits prod.splits if_splits)
  qed
  then have "parse_chars cs = Some (s, r)" using v by auto
  then have "length s < length cs" using parse_chars_length by fastforce
  then show ?thesis using c length_skip_ws [of "text"] by simp
qed

lemma length_js_trim: "length (js_trim s) \<le> length s"
  using js_trim_infix [of s] by (metis le_add1 le_add2 length_append order_trans)

definition text_length :: "json \<Rightarrow> nat" where
  "text_length v = (case v of JStr s \<Rightarrow> Suc (length s) | _ \<Rightarrow> 0)"

function error_message :: "json \<Rightarrow> string" where
  "error_message v =
     (case v of
        JStr s \<Rightarrow>
          (let t = js_trim s in
           if t = [] then []
           else case json_parse t of None \<Rightarrow> t | Some w \<Rightarrow> or_str (error_message w) t)
      | _ \<Rightarrow>
          (case record_value v of
             None \<Rightarrow> []
           | Some e \<Rightarrow>
               or_str (or_str (str_field e ''message'') (str_field e ''error'')) (str_field (field e ''cause'') ''message'')))"
  by pat_completeness auto
termination
proof (relation "measure text_length")
  show "wf (measure text_length)" by simp
next
  fix v s t w
  assume v: "v = JStr s" and t: "t = js_trim s" and p: "json_parse t = Some w"
  show "(w, v) \<in> measure text_length"
  proof (cases w)
    case (JStr u)
    then have "length u < length t" using p parsed_string_shorter by blast
    then show ?thesis using length_js_trim [of s] by (simp add: JStr v t text_length_def)
  qed (simp_all add: v text_length_def)
qed

declare error_message.simps [simp del]

definition tool_result_content :: "json \<Rightarrow> string" where
  "tool_result_content v =
     (case v of
        JArr xs \<Rightarrow>
          join_str newline (filter (\<lambda>t. t \<noteq> [])
            (map (\<lambda>e. case e of JStr s \<Rightarrow> s | _ \<Rightarrow> or_str (str_field e ''text'') (str_field e ''content'')) xs))
      | _ \<Rightarrow> [])"

definition tool_result_detail :: "json option \<Rightarrow> string" where
  "tool_result_detail result =
     (case result of
        None \<Rightarrow> []
      | Some r \<Rightarrow>
          let failure = error_message (field r ''error'');
              content = tool_result_content (field r ''content'');
              past = display_text (field r ''pastTenseMessage'')
          in if field r ''success'' = JBool False then or_str (or_str failure content) past
             else or_str (or_str past content) failure)"

section \<open>The summary of a tool call\<close>

definition normalized_name :: "string \<Rightarrow> string" where
  "normalized_name n = filter (\<lambda>c. is_lower c \<or> is_digit c) (to_lower n)"

definition mentions :: "string list \<Rightarrow> string \<Rightarrow> bool" where
  "mentions ws n \<longleftrightarrow> list_ex (\<lambda>w. includes_str w n) ws"

definition shell_words :: "string list" where
  "shell_words = [''bash'', ''shell'', ''terminal'', ''command'', ''execute'', ''run'']"

definition parse_tool_input :: "string \<Rightarrow> json option" where
  "parse_tool_input value =
     (let input = js_trim value in
      if \<not> starts_with ''{'' input \<or> \<not> ends_with ''}'' input then None
      else case json_parse input of None \<Rightarrow> None | Some v \<Rightarrow> record_value v)"

text \<open>The strings of an array that are not empty.\<close>

definition array_strings :: "json \<Rightarrow> string list" where
  "array_strings v = filter (\<lambda>t. t \<noteq> []) (map string_value (filter is_str (arr_items v)))"

fun first_string :: "json \<Rightarrow> string list \<Rightarrow> string" where
  "first_string input [] = []"
| "first_string input (k # ks) =
     (let v = field input k in
      if is_str v \<and> js_trim (string_value v) \<noteq> [] then js_trim (string_value v)
      else if is_arr v \<and> array_strings v \<noteq> [] then join_str '', '' (array_strings v)
      else first_string input ks)"

definition is_newline :: "char \<Rightarrow> bool" where
  "is_newline c \<longleftrightarrow> c = CHR 0x0A"

definition line_count :: "string \<Rightarrow> nat" where
  "line_count s = (if s \<noteq> [] then length (split_by is_newline s) else 0)"

definition format_line_delta :: "nat \<Rightarrow> nat \<Rightarrow> string" where
  "format_line_delta added removed =
     join_str '' '' (filter (\<lambda>t. t \<noteq> [])
       [if added \<noteq> 0 then ''+'' @ show_nat added else [], if removed \<noteq> 0 then ''-'' @ show_nat removed else []])"

definition edit_line_delta :: "json \<Rightarrow> string" where
  "edit_line_delta input =
     (let before = first_string input [''old_string'', ''oldString'', ''oldText'', ''before''];
          after = first_string input [''new_string'', ''newString'', ''newText'', ''after'']
      in if before = [] \<and> after = []
         then let patch = first_string input [''patch'', ''diff''] in
              if patch = [] then []
              else format_line_delta
                (length (filter (\<lambda>l. starts_with ''+'' l \<and> \<not> starts_with ''+++'' l) (split_by is_newline patch)))
                (length (filter (\<lambda>l. starts_with ''-'' l \<and> \<not> starts_with ''---'' l) (split_by is_newline patch)))
         else format_line_delta (line_count after) (line_count before))"

definition forward_slashes :: "string \<Rightarrow> string" where
  "forward_slashes p = map (\<lambda>c. if c = backslash then CHR ''/'' else c) p"

definition file_name :: "string \<Rightarrow> string" where
  "file_name path =
     (case at_last (filter (\<lambda>w. w \<noteq> []) (split_by (\<lambda>c. c = CHR ''/'') (forward_slashes path))) of
        None \<Rightarrow> path | Some w \<Rightarrow> w)"

definition tool_call_summary :: "string \<Rightarrow> string \<Rightarrow> string" where
  "tool_call_summary tool raw =
     (let n = normalized_name tool in
      case parse_tool_input raw of
        None \<Rightarrow> if mentions shell_words n then js_trim raw else []
      | Some input \<Rightarrow>
          let command = first_string input [''command'', ''fullCommandText'', ''cmd'', ''script''];
              path = first_string input [''path'', ''filePath'', ''file_path'', ''filename'', ''targetPath'', ''target_file''];
              url = first_string input [''url'', ''uri'', ''href''];
              query = first_string input [''query'', ''pattern'', ''searchTerm'', ''search_term'', ''keyword'', ''keywords'', ''regex'']
          in if command \<noteq> [] \<and> mentions shell_words n then command
             else if path \<noteq> [] \<and> mentions [''edit'', ''replace'', ''patch'', ''write'', ''create'', ''insert'', ''file''] n
             then let delta = edit_line_delta input in file_name path @ (if delta \<noteq> [] then '' '' @ delta else [])
             else if path \<noteq> [] \<and> mentions [''read'', ''view'', ''open'', ''cat''] n then file_name path
             else if url \<noteq> [] \<and> mentions [''web'', ''fetch'', ''http'', ''url'', ''browser''] n then url
             else if query \<noteq> [] \<and> mentions [''search'', ''grep'', ''find'', ''glob'', ''keyword'', ''web''] n then query
             else or_str (or_str (or_str command (if path \<noteq> [] then file_name path else [])) url) query)"

definition selection_id :: "json \<Rightarrow> string" where
  "selection_id v = or_str (or_str (str_field v ''id'') (str_field v ''identifier'')) (string_value v)"

section \<open>The events of a turn\<close>

definition some_nonempty :: "string \<Rightarrow> string option" where
  "some_nonempty s = (if s = [] then None else Some s)"

text \<open>\<open>None\<close> where the function returns \<open>undefined\<close>.\<close>

definition tool_event_from_state :: "json option \<Rightarrow> string \<Rightarrow> chat_event option" where
  "tool_event_from_state tool channel =
     (case tool of
        None \<Rightarrow> None
      | Some t \<Rightarrow>
          let call = str_field t ''toolCallId'' in
          if call = [] then None
          else let status = or_str (str_field t ''status'') ''unknown'';
                   permission = starts_with ''permission-'' call \<or>
                     field (field t ''_meta'') ''zaw/permissionRequest'' = JBool True
               in if permission \<and> status \<noteq> ''pending-confirmation'' then None
                  else let title = or_str (str_field t ''displayName'') (str_field t ''toolName'');
                           outcome = (case record_value (field t ''result'') of Some r \<Rightarrow> r | None \<Rightarrow> t);
                           detail = (if status = ''completed'' then tool_result_detail (Some outcome)
                                     else tool_invocation_detail
                                            [str_field t ''toolInput'', display_text (field t ''invocationMessage'')]);
                           summary = tool_call_summary title (str_field t ''toolInput'')
                       in if status = ''pending-confirmation''
                          then Some (ApprovalEv channel call
                                 (or_str (display_text (field t ''confirmationTitle'')) title)
                                 (some_nonempty summary) (Some detail) Pending)
                          else if status = ''cancelled'' then None
                          else Some (ToolEv call title (Some summary) (Some detail)
                                 (if status = ''completed'' \<and> field outcome ''success'' = JBool False
                                  then ''failed'' else status)))"

text \<open>
  The parts are read in order; \<open>markdown\<close> and \<open>markdownID\<close> collect the text of adjacent
  markdown parts until a part of another kind flushes them.
\<close>

type_synonym turn_state = "chat_event list \<times> string \<times> string"

definition flush_markdown :: "turn_state \<Rightarrow> turn_state" where
  "flush_markdown st =
     (case st of (events, markdown, mid) \<Rightarrow>
        if markdown = [] then st else (events @ [MessageEv (some_nonempty mid) AgentRole markdown], [], []))"

definition add_event :: "chat_event \<Rightarrow> turn_state \<Rightarrow> turn_state" where
  "add_event e st = (case st of (events, markdown, mid) \<Rightarrow> (events @ [e], markdown, mid))"

definition read_part :: "string \<Rightarrow> string \<Rightarrow> json \<Rightarrow> turn_state \<Rightarrow> turn_state" where
  "read_part turn channel v st =
     (case record_value v of
        None \<Rightarrow> st
      | Some part \<Rightarrow>
          if field part ''kind'' = JStr ''markdown''
          then (case st of (events, markdown, mid) \<Rightarrow>
                  let pid = str_field part ''id''
                  in (events, markdown @ str_field part ''content'',
                      or_str mid (if turn \<noteq> [] \<and> pid \<noteq> [] then turn @ '':'' @ pid else pid)))
          else let st' = flush_markdown st in
               if field part ''kind'' = JStr ''toolCall''
               then (case tool_event_from_state (record_value (field part ''toolCall'')) channel of
                       None \<Rightarrow> st' | Some e \<Rightarrow> add_event e st')
               else if field part ''kind'' = JStr ''systemNotification''
               then let t = display_text (field part ''content'') in
                    if t = [] then st'
                    else add_event (NoticeEv
                           (if field part ''level'' = JStr ''error'' then NoticeError
                            else if field part ''level'' = JStr ''warning'' then NoticeWarning else NoticeInfo) t) st'
               else st')"

definition events_for_turn :: "json \<Rightarrow> string \<Rightarrow> chat_event list" where
  "events_for_turn turn channel =
     (let tid = str_field turn ''id'';
          message = str_field (field turn ''message'') ''text'';
          user = (if message = [] then []
                  else [MessageEv (if tid \<noteq> [] then Some (tid @ '':user'') else None) UserRole message]);
          parts = arr_items (field turn ''responseParts'');
          (events, _, _) = flush_markdown (fold (read_part tid channel) parts (user, [], []));
          failure = str_field (field turn ''error'') ''message''
      in events @ (if failure = [] then [] else [ErrorEv (Some failure)]))"

section \<open>Changes\<close>

definition str_or :: "string \<Rightarrow> json \<Rightarrow> string" where
  "str_or d v = (case v of JStr s \<Rightarrow> s | _ \<Rightarrow> d)"

definition to_workspace_change :: "json \<Rightarrow> workspace_change list" where
  "to_workspace_change v =
     (case record_value v of
        None \<Rightarrow> []
      | Some r \<Rightarrow>
          let i = str_field r ''id'' in
          if i = [] then []
          else [\<lparr>cg_diff = str_or [] (field r ''diff''), cg_id = i, cg_path = str_or i (field r ''path''),
                 cg_resource = str_or i (field r ''resource''), cg_reviewed = (field r ''reviewed'' = JBool True),
                 cg_status = str_or ''M'' (field r ''status'')\<rparr>])"

definition to_workspace_changes :: "json list \<Rightarrow> workspace_change list" where
  "to_workspace_changes files = concat (map to_workspace_change files)"

section \<open>What the texts are\<close>

lemma permission_nonempty_or: "tool_invocation_detail cs \<noteq> []"
  by (induction cs) (auto simp: Let_def)

text \<open>
  The text under which a tool call asks for approval is never empty, and unless every
  candidate is empty or an object the code can make nothing of, it is the permission text or the
  trimmed text of the first candidate that is neither.
\<close>

theorem approval_text_is_never_empty:
  "tool_invocation_detail cs \<noteq> [] \<and>
   tool_invocation_detail cs =
     (case find (\<lambda>c. js_trim c \<noteq> [] \<and> (permission_request_detail (js_trim c) \<noteq> [] \<or> \<not> looks_like_object (js_trim c))) cs of
        None \<Rightarrow> ''This action requires approval.''
      | Some c \<Rightarrow> or_str (permission_request_detail (js_trim c)) (js_trim c))"
proof -
  have "tool_invocation_detail cs =
     (case find (\<lambda>c. js_trim c \<noteq> [] \<and> (permission_request_detail (js_trim c) \<noteq> [] \<or> \<not> looks_like_object (js_trim c))) cs of
        None \<Rightarrow> ''This action requires approval.''
      | Some c \<Rightarrow> or_str (permission_request_detail (js_trim c)) (js_trim c))"
    by (induction cs) (auto simp: Let_def or_str_def)
  then show ?thesis using permission_nonempty_or by blast
qed

lemma quoted_ends: "json_text (JStr s) = quote_char # concat (map escape_char s) @ [quote_char]"
  by (simp add: quote_str_def)

lemma error_message_step:
  assumes "storable v" and "json_text v = c # cs @ [d]" and "visible_char c" and "visible_char d" and "error_message v \<noteq> []"
  shows "error_message (JStr (json_text v)) = error_message v"
proof -
  have t: "js_trim (json_text v) = json_text v" using assms(2-4) js_trim_keep by simp
  have "json_text v \<noteq> []" using assms(2) by simp
  then show ?thesis
    using assms(5) by (simp add: error_message.simps [of "JStr (json_text v)"] t json_parse_text [OF assms(1)] or_str_def)
qed

text \<open>
  C33: an error message is found however often its object was turned into JSON text on the way:
  each layer of quoting is taken off, and this ends for every value.
\<close>

theorem error_message_unwraps:
  assumes "m \<noteq> []"
  shows "error_message (JStr (((\<lambda>t. json_text (JStr t)) ^^ n) (json_text (JObj [(''message'', JStr m)])))) = m"
proof (induction n)
  case 0
  let ?v = "JObj [(''message'', JStr m)]"
  have e: "error_message ?v = m"
    using assms by (simp add: error_message.simps [of ?v] record_value_def str_field_def string_value_def or_str_def)
  have "json_text ?v = CHR ''{'' # (quote_str ''message'' @ '':'' @ quote_str m) @ [CHR ''}'']" by (simp add: live_fields_def)
  from error_message_step [OF _ this] show ?case using e assms by (simp add: visible_char_def)
next
  case (Suc n)
  let ?t = "((\<lambda>t. json_text (JStr t)) ^^ n) (json_text (JObj [(''message'', JStr m)]))"
  have "error_message (JStr (json_text (JStr ?t))) = error_message (JStr ?t)"
    by (rule error_message_step [OF _ quoted_ends]) (use Suc assms in \<open>simp_all add: visible_char_def\<close>)
  then show ?case using Suc by simp
qed

theorem error_message_unwraps_witness:
  "error_message (JStr (json_text (JStr (json_text (JObj [(''message'', JStr ''no space left'')]))))) = ''no space left''"
  using error_message_unwraps [of "''no space left''" 1] by simp

definition path_separator :: "char \<Rightarrow> bool" where
  "path_separator c \<longleftrightarrow> c = CHR ''/'' \<or> c = backslash"

lemma forward_slashes_simps:
  "forward_slashes [] = []" "forward_slashes (a @ b) = forward_slashes a @ forward_slashes b"
  "forward_slashes (c # cs) = (if c = backslash then CHR ''/'' else c) # forward_slashes cs"
  by (simp_all add: forward_slashes_def)

lemma forward_slashes_name: "list_all (\<lambda>c. \<not> path_separator c) n \<Longrightarrow> forward_slashes n = n \<and> CHR ''/'' \<notin> set n"
  by (induction n) (auto simp: forward_slashes_simps path_separator_def)

lemma trailing_components:
  assumes "list_all path_separator trail" and "n \<noteq> []" and "CHR ''/'' \<notin> set n"
  shows "filter (\<lambda>w. w \<noteq> []) (split_by (\<lambda>c. c = CHR ''/'') (n @ forward_slashes trail)) = [n]"
  using assms(1)
proof (induction trail rule: rev_induct)
  case Nil
  have "split_by (\<lambda>c. c = CHR ''/'') n = [n]" using assms(3) by (intro split_by_no_sep) auto
  then show ?case using assms(2) by (simp add: forward_slashes_simps)
next
  case (snoc c trail)
  then have "n @ forward_slashes (trail @ [c]) = (n @ forward_slashes trail) @ CHR ''/'' # []"
    by (auto simp: forward_slashes_simps path_separator_def)
  then show ?case using snoc
    by (simp only: split_by_append_sep [where P = "\<lambda>c. c = CHR ''/''"]) simp
qed

text \<open>
  The name shown for a file is the last component of its path, under either kind of
  separator, with trailing separators or without.
\<close>

theorem file_name_is_last_component:
  assumes "n \<noteq> []" and "list_all (\<lambda>c. \<not> path_separator c) n" and "path_separator c" and "list_all path_separator trail"
  shows "file_name (n @ trail) = n \<and> file_name (dir @ [c] @ n @ trail) = n"
proof -
  have f: "forward_slashes n = n" "CHR ''/'' \<notin> set n" using forward_slashes_name [OF assms(2)] by auto
  have t: "filter (\<lambda>w. w \<noteq> []) (split_by (\<lambda>c. c = CHR ''/'') (forward_slashes (n @ trail))) = [n]"
    using trailing_components [OF assms(4,1) f(2)] by (simp add: forward_slashes_simps f)
  have d: "forward_slashes (dir @ [c] @ n @ trail) = forward_slashes dir @ CHR ''/'' # forward_slashes (n @ trail)"
    using assms(3) by (auto simp: forward_slashes_simps path_separator_def)
  have "filter (\<lambda>w. w \<noteq> []) (split_by (\<lambda>c. c = CHR ''/'') (forward_slashes (dir @ [c] @ n @ trail))) =
      filter (\<lambda>w. w \<noteq> []) (split_by (\<lambda>c. c = CHR ''/'') (forward_slashes dir)) @ [n]"
    unfolding d using t by (simp add: split_by_append_sep)
  then show ?thesis using t by (simp only: file_name_def) (simp add: at_last_def)
qed

theorem file_name_is_last_component_witness:
  "file_name (''src'' @ [backslash] @ ''main.ts'' @ ''/'') = ''main.ts''"
proof -
  have "''main.ts'' \<noteq> []" "list_all (\<lambda>c. \<not> path_separator c) ''main.ts''" "path_separator backslash" "list_all path_separator ''/''"
    by (simp_all add: path_separator_def)
  from file_name_is_last_component [OF this, of "''src''"] show ?thesis by blast
qed

end
