(* ===== verification/SessionCatalog.thy ===== *)
theory SessionCatalog
  imports Identity LocalState
begin

text \<open>
  \<open>packages/workbench/src/services/session-catalog.ts\<close> and
  \<open>contrib/sessions/session-catalog-service.ts\<close>: the catalog of sessions, its refreshes and
  its local flags.

  A refresh is split at its \<open>await\<close>; the continuation carries what the provider settled with
  (\<open>None\<close>: a rejection).  The objects \<open>_sessions\<close>, \<open>_sessionTitles\<close> and
  \<open>_connectionState\<close> are insertion-ordered maps.  Changes are detected as in the code, by
  comparing \<open>JSON.stringify\<close> of the four parts; the fields of an item are written in the order
  of its type.
\<close>

section \<open>Items\<close>

record catalog_item =
  ci_workspace :: string
  ci_resource :: string
  ci_provider :: string
  ci_title :: string
  ci_status :: int
  ci_activity :: "string option"
  ci_repository :: "string option"
  ci_directory :: "string option"
  ci_created :: string
  ci_modified :: string
  ci_observed :: string
  ci_online :: bool
  ci_stale :: bool
  ci_approval :: "string option"
  ci_changes :: "(int option \<times> int option \<times> int option) option"

definition opt_json :: "('a \<Rightarrow> json) \<Rightarrow> 'a option \<Rightarrow> json" where
  "opt_json f x = (case x of None \<Rightarrow> JUndef | Some v \<Rightarrow> f v)"

definition num_json :: "int \<Rightarrow> json" where
  "num_json n = JNum (of_int n)"

definition item_json :: "catalog_item \<Rightarrow> json" where
  "item_json i = JObj
     [(''workspaceId'', JStr (ci_workspace i)), (''resource'', JStr (ci_resource i)),
      (''provider'', JStr (ci_provider i)), (''title'', JStr (ci_title i)), (''status'', num_json (ci_status i)),
      (''activity'', opt_json JStr (ci_activity i)), (''repository'', opt_json JStr (ci_repository i)),
      (''workingDirectory'', opt_json JStr (ci_directory i)), (''createdAt'', JStr (ci_created i)),
      (''modifiedAt'', JStr (ci_modified i)), (''observedAt'', JStr (ci_observed i)),
      (''agentHostOnline'', JBool (ci_online i)), (''stale'', JBool (ci_stale i)),
      (''approval'', opt_json (\<lambda>l. JObj [(''label'', JStr l)]) (ci_approval i)),
      (''changes'', opt_json (\<lambda>(a, d, f). JObj [(''additions'', opt_json num_json a),
         (''deletions'', opt_json num_json d), (''files'', opt_json num_json f)]) (ci_changes i))]"

definition item_key :: "catalog_item \<Rightarrow> string" where
  "item_key i = session_identity_key \<lparr>si_workspace = ci_workspace i, si_resource = ci_resource i\<rparr>"

section \<open>The service\<close>

datatype connection = Connected | Offline | Reconnecting

fun connection_text :: "connection \<Rightarrow> string" where
  "connection_text Connected = ''connected''"
| "connection_text Offline = ''offline''"
| "connection_text Reconnecting = ''reconnecting''"

record session_catalog =
  sc_items :: "catalog_item list"
  sc_sessions :: "(string, string list) omap"
  sc_titles :: "(string, string) omap"
  sc_connection :: "(string, connection) omap"
  sc_timer :: bool
  sc_serial :: nat
  sc_latest_all :: nat
  sc_latest_provider :: "(string, nat) omap"
  sc_archived :: "string list"
  sc_pinned :: "string list"
  sc_unread :: "string list"
  sc_storage :: "browser_storage option"
  sc_fires :: nat
  sc_filter_fires :: nat

definition local_state_key :: string where
  "local_state_key = ''zaw.session-catalog.local-state''"

definition strings_in :: "json \<Rightarrow> string list" where
  "strings_in v = List.map_filter (\<lambda>x. case x of JStr s \<Rightarrow> Some s | _ \<Rightarrow> None) (arr_items v)"

text \<open>The three sets of flags, from the stored text.\<close>

definition restore_local_state :: "browser_storage option \<Rightarrow> string list \<times> string list \<times> string list" where
  "restore_local_state st =
     (case stored_item local_state_key st of
        None \<Rightarrow> ([], [], [])
      | Some t \<Rightarrow>
          if t = [] then ([], [], [])
          else (case json_parse t of
            None \<Rightarrow> ([], [], [])
          | Some v \<Rightarrow>
              if nullish v then ([], [], [])
              else (fold os_add (strings_in (field v ''archived'')) [],
                    fold os_add (strings_in (field v ''pinned'')) [],
                    fold os_add (strings_in (field v ''unread'')) [])))"

definition new_catalog :: "browser_storage option \<Rightarrow> session_catalog" where
  "new_catalog st =
     (case restore_local_state st of (a, p, u) \<Rightarrow>
        \<lparr>sc_items = [], sc_sessions = [], sc_titles = [], sc_connection = [], sc_timer = False, sc_serial = 0,
         sc_latest_all = 0, sc_latest_provider = [], sc_archived = a, sc_pinned = p, sc_unread = u,
         sc_storage = st, sc_fires = 0, sc_filter_fires = 0\<rparr>)"

subsection \<open>Applying a list of items\<close>

definition get_or :: "'v \<Rightarrow> ('k, 'v) omap \<Rightarrow> 'k \<Rightarrow> 'v" where
  "get_or d m k = (case om_get m k of None \<Rightarrow> d | Some v \<Rightarrow> v)"

type_synonym projection = "(string, string list) omap \<times> (string, string) omap \<times> (string, connection) omap"

definition project_item :: "catalog_item \<Rightarrow> projection \<Rightarrow> projection" where
  "project_item i p =
     (case p of (ss, ts, cs) \<Rightarrow>
        (om_set (ci_workspace i) (get_or [] ss (ci_workspace i) @ [ci_resource i]) ss,
         om_set (item_key i) (ci_title i) ts,
         (let cs1 = (if ci_online i \<and> \<not> om_has cs (ci_workspace i)
                     then om_set (ci_workspace i) Connected cs else cs)
          in if \<not> ci_online i then om_set (ci_workspace i) Offline cs1 else cs1)))"

definition project_items :: "catalog_item list \<Rightarrow> projection" where
  "project_items items = fold project_item items ([], [], [])"

definition parts_text ::
  "catalog_item list \<Rightarrow> projection \<Rightarrow> string \<times> string \<times> string \<times> string" where
  "parts_text items p =
     (case p of (ss, ts, cs) \<Rightarrow>
        (json_text (JArr (map item_json items)),
         json_text (JObj (map (\<lambda>(k, v). (k, JArr (map JStr v))) ss)),
         json_text (JObj (map (\<lambda>(k, v). (k, JStr v)) ts)),
         json_text (JObj (map (\<lambda>(k, v). (k, JStr (connection_text v))) cs))))"

definition catalog_apply :: "catalog_item list \<Rightarrow> session_catalog \<Rightarrow> session_catalog \<times> bool" where
  "catalog_apply items s =
     (case project_items items of (ss, ts, cs) \<Rightarrow>
        let changed = parts_text (sc_items s) (sc_sessions s, sc_titles s, sc_connection s)
                        \<noteq> parts_text items (ss, ts, cs);
            s1 = s\<lparr>sc_items := items, sc_sessions := ss, sc_titles := ts, sc_connection := cs\<rparr>
        in (if changed then s1\<lparr>sc_fires := Suc (sc_fires s1)\<rparr> else s1, changed))"

definition apply_provider :: "string \<Rightarrow> catalog_item list \<Rightarrow> session_catalog \<Rightarrow> session_catalog \<times> bool" where
  "apply_provider p items s =
     catalog_apply (filter (\<lambda>i. ci_provider i \<noteq> p) (sc_items s) @ filter (\<lambda>i. ci_provider i = p) items) s"

subsection \<open>Refreshing\<close>

definition refresh_begin :: "session_catalog \<Rightarrow> session_catalog \<times> nat" where
  "refresh_begin s =
     (let n = Suc (sc_serial s) in (s\<lparr>sc_serial := n, sc_latest_all := n\<rparr>, n))"

definition refresh_end :: "nat \<Rightarrow> catalog_item list option \<Rightarrow> session_catalog \<Rightarrow> session_catalog \<times> bool" where
  "refresh_end n r s =
     (case r of
        None \<Rightarrow> (s, False)
      | Some items \<Rightarrow>
          if sc_latest_all s \<noteq> n \<or> (\<exists>m \<in> set (om_values (sc_latest_provider s)). n < m) then (s, False)
          else catalog_apply items s)"

definition provider_begin :: "string \<Rightarrow> session_catalog \<Rightarrow> session_catalog \<times> nat" where
  "provider_begin p s =
     (let n = Suc (sc_serial s) in
      (s\<lparr>sc_serial := n, sc_latest_provider := om_set p n (sc_latest_provider s)\<rparr>, n))"

definition provider_end ::
  "string \<Rightarrow> nat \<Rightarrow> catalog_item list option \<Rightarrow> session_catalog \<Rightarrow> session_catalog \<times> bool" where
  "provider_end p n r s =
     (case r of
        None \<Rightarrow> (s, False)
      | Some items \<Rightarrow>
          if om_get (sc_latest_provider s) p \<noteq> Some n \<or> n < sc_latest_all s then (s, False)
          else apply_provider p (filter (\<lambda>i. ci_provider i = p) items) s)"

text \<open>The timer fires a refresh; the first one starts with it.\<close>

definition catalog_start :: "session_catalog \<Rightarrow> session_catalog \<times> nat option" where
  "catalog_start s =
     (if sc_timer s then (s, None)
      else (case refresh_begin s of (s1, n) \<Rightarrow> (s1\<lparr>sc_timer := True\<rparr>, Some n)))"

definition catalog_stop :: "session_catalog \<Rightarrow> session_catalog" where
  "catalog_stop s = (if sc_timer s then s\<lparr>sc_timer := False\<rparr> else s)"

subsection \<open>Local changes\<close>

definition catalog_add :: "session_identity \<Rightarrow> string \<Rightarrow> session_catalog \<Rightarrow> session_catalog" where
  "catalog_add i title s =
     (let cur = get_or [] (sc_sessions s) (si_workspace i);
          s1 = (if si_resource i \<in> set cur then s
                else s\<lparr>sc_sessions := om_set (si_workspace i) (cur @ [si_resource i]) (sc_sessions s)\<rparr>)
      in s1\<lparr>sc_titles := om_set (session_identity_key i) title (sc_titles s1), sc_fires := Suc (sc_fires s1)\<rparr>)"

definition is_archived :: "session_identity \<Rightarrow> session_catalog \<Rightarrow> bool" where
  "is_archived i s \<longleftrightarrow> session_identity_key i \<in> set (sc_archived s)"

definition is_pinned :: "session_identity \<Rightarrow> session_catalog \<Rightarrow> bool" where
  "is_pinned i s \<longleftrightarrow> session_identity_key i \<in> set (sc_pinned s)"

definition is_read :: "session_identity \<Rightarrow> session_catalog \<Rightarrow> bool" where
  "is_read i s \<longleftrightarrow> session_identity_key i \<notin> set (sc_unread s)"

definition local_state_json :: "session_catalog \<Rightarrow> json" where
  "local_state_json s = JObj [(''archived'', JArr (map JStr (sc_archived s))),
     (''pinned'', JArr (map JStr (sc_pinned s))), (''unread'', JArr (map JStr (sc_unread s)))]"

definition local_state_changed :: "session_catalog \<Rightarrow> session_catalog" where
  "local_state_changed s =
     s\<lparr>sc_storage := store_item local_state_key (json_text (local_state_json s)) (sc_storage s),
       sc_fires := Suc (sc_fires s)\<rparr>"

definition mark_read :: "session_identity \<Rightarrow> bool \<Rightarrow> session_catalog \<Rightarrow> session_catalog" where
  "mark_read i read s =
     (let key = session_identity_key i;
          changed = (if read then key \<in> set (sc_unread s) else key \<notin> set (sc_unread s));
          s1 = s\<lparr>sc_unread := (if read then os_del key (sc_unread s) else os_add key (sc_unread s))\<rparr>
      in if changed then local_state_changed s1 else s1)"

definition toggle_in :: "string \<Rightarrow> string list \<Rightarrow> string list" where
  "toggle_in key xs = (if key \<in> set xs then os_del key xs else os_add key xs)"

definition toggle_archived :: "session_identity \<Rightarrow> session_catalog \<Rightarrow> session_catalog" where
  "toggle_archived i s = local_state_changed (s\<lparr>sc_archived := toggle_in (session_identity_key i) (sc_archived s)\<rparr>)"

definition toggle_pinned :: "session_identity \<Rightarrow> session_catalog \<Rightarrow> session_catalog" where
  "toggle_pinned i s = local_state_changed (s\<lparr>sc_pinned := toggle_in (session_identity_key i) (sc_pinned s)\<rparr>)"

definition request_filter :: "session_catalog \<Rightarrow> session_catalog" where
  "request_filter s = s\<lparr>sc_filter_fires := Suc (sc_filter_fires s)\<rparr>"

datatype catalog_op =
    CaRefresh
  | CaRefreshed nat "catalog_item list option"
  | CaProvider string
  | CaProvided string nat "catalog_item list option"
  | CaApply "catalog_item list"
  | CaApplyProvider string "catalog_item list"
  | CaStart
  | CaStop
  | CaAdd session_identity string
  | CaMarkRead session_identity bool
  | CaToggleArchived session_identity
  | CaTogglePinned session_identity
  | CaFilter

fun apply_catalog :: "catalog_op \<Rightarrow> session_catalog \<Rightarrow> session_catalog" where
  "apply_catalog CaRefresh s = fst (refresh_begin s)"
| "apply_catalog (CaRefreshed n r) s = fst (refresh_end n r s)"
| "apply_catalog (CaProvider p) s = fst (provider_begin p s)"
| "apply_catalog (CaProvided p n r) s = fst (provider_end p n r s)"
| "apply_catalog (CaApply items) s = fst (catalog_apply items s)"
| "apply_catalog (CaApplyProvider p items) s = fst (apply_provider p items s)"
| "apply_catalog CaStart s = fst (catalog_start s)"
| "apply_catalog CaStop s = catalog_stop s"
| "apply_catalog (CaAdd i t) s = catalog_add i t s"
| "apply_catalog (CaMarkRead i r) s = mark_read i r s"
| "apply_catalog (CaToggleArchived i) s = toggle_archived i s"
| "apply_catalog (CaTogglePinned i) s = toggle_pinned i s"
| "apply_catalog CaFilter s = request_filter s"

section \<open>Only the newest refresh shows\<close>

abbreviation shown :: "session_catalog \<Rightarrow> catalog_item list \<times> projection" where
  "shown s \<equiv> (sc_items s, sc_sessions s, sc_titles s, sc_connection s)"

lemma catalog_apply_frame [simp]:
  "sc_serial (fst (catalog_apply items s)) = sc_serial s"
  "sc_latest_all (fst (catalog_apply items s)) = sc_latest_all s"
  "sc_latest_provider (fst (catalog_apply items s)) = sc_latest_provider s"
  by (simp_all add: catalog_apply_def Let_def split: prod.split)

lemma apply_provider_frame [simp]:
  "sc_serial (fst (apply_provider p items s)) = sc_serial s"
  "sc_latest_all (fst (apply_provider p items s)) = sc_latest_all s"
  "sc_latest_provider (fst (apply_provider p items s)) = sc_latest_provider s"
  by (simp_all add: apply_provider_def)

lemma local_state_frame [simp]:
  "sc_serial (local_state_changed s) = sc_serial s" "sc_latest_all (local_state_changed s) = sc_latest_all s"
  "sc_latest_provider (local_state_changed s) = sc_latest_provider s"
  "sc_archived (local_state_changed s) = sc_archived s" "sc_pinned (local_state_changed s) = sc_pinned s"
  "sc_unread (local_state_changed s) = sc_unread s"
  by (simp_all add: local_state_changed_def)

definition serials_ok :: "session_catalog \<Rightarrow> bool" where
  "serials_ok s \<longleftrightarrow> sc_latest_all s \<le> sc_serial s \<and>
     (\<forall>p n. om_get (sc_latest_provider s) p = Some n \<longrightarrow> n \<le> sc_serial s) \<and> om_wf (sc_latest_provider s)"

text \<open>What every operation does to the serials: they only grow.\<close>

lemma catalog_serials:
  assumes "serials_ok s"
  shows "serials_ok (apply_catalog op s) \<and> sc_serial s \<le> sc_serial (apply_catalog op s)
    \<and> sc_latest_all s \<le> sc_latest_all (apply_catalog op s)
    \<and> (\<forall>p n. om_get (sc_latest_provider s) p = Some n \<longrightarrow>
          (\<exists>m \<ge> n. om_get (sc_latest_provider (apply_catalog op s)) p = Some m))"
  using assms
  by (cases op)
    (auto simp: serials_ok_def refresh_begin_def refresh_end_def provider_begin_def provider_end_def
      catalog_start_def catalog_stop_def catalog_add_def mark_read_def toggle_archived_def toggle_pinned_def
      request_filter_def Let_def le_Suc_eq split: option.split)

lemma serials_ok_new: "serials_ok (new_catalog st)"
  by (auto simp: serials_ok_def new_catalog_def split: prod.split)

interpretation refreshing: latest_wins sc_latest_all refresh_begin "\<lambda>n r s. fst (refresh_end n r s)"
  apply_catalog shown serials_ok
  by unfold_locales
    (use catalog_serials in \<open>auto simp: refresh_begin_def refresh_end_def Let_def serials_ok_def le_Suc_eq split: option.split\<close>)

interpretation provider_refreshing: latest_wins "\<lambda>s. get_or 0 (sc_latest_provider s) p" "provider_begin p"
  "\<lambda>n r s. fst (provider_end p n r s)" apply_catalog shown serials_ok for p
proof unfold_locales
  fix s s' :: session_catalog and t
  assume ok: "serials_ok s" and b: "provider_begin p s = (s', t)"
  show "get_or 0 (sc_latest_provider s') p = t \<and> get_or 0 (sc_latest_provider s) p < t"
    using ok b by (auto simp: provider_begin_def get_or_def serials_ok_def Let_def less_Suc_eq_le split: option.split)
  show "serials_ok s'" using ok b
    by (auto simp: provider_begin_def serials_ok_def Let_def le_Suc_eq split: if_splits)
next
  fix s :: session_catalog and e
  assume ok: "serials_ok s"
  show "serials_ok (apply_catalog e s)" using catalog_serials [OF ok] by simp
  show "get_or 0 (sc_latest_provider s) p \<le> get_or 0 (sc_latest_provider (apply_catalog e s)) p"
  proof (cases "om_get (sc_latest_provider s) p")
    case (Some n)
    then obtain m where "n \<le> m" "om_get (sc_latest_provider (apply_catalog e s)) p = Some m"
      using catalog_serials [OF ok, of e] by blast
    then show ?thesis using Some by (simp add: get_or_def)
  qed (simp add: get_or_def)
next
  fix t r and s :: session_catalog
  assume "t \<noteq> get_or 0 (sc_latest_provider s) p"
  then show "shown (fst (provider_end p t r s)) = shown s"
    by (auto simp: provider_end_def get_or_def split: option.split)
qed

text \<open>
  C24: the catalog never goes back: the answer to a full refresh is dropped, and changes
  nothing at all, when another full refresh or a refresh of any provider was asked for after it,
  however the answers are interleaved with every other operation.
\<close>

theorem stale_refresh_never_shows:
  assumes ok: "serials_ok s"
    and first: "refresh_begin s = (s1, n)" and mid: "serials_ok mid" "mid = fold apply_catalog before s1"
    and second: "refresh_begin mid = (s2, m) \<or> provider_begin p mid = (s2, m)"
    and now: "now = fold apply_catalog after s2"
  shows "fst (refresh_end n r now) = now \<and> snd (refresh_end n r now) = False"
  using second
proof
  assume "refresh_begin mid = (s2, m)"
  then have "n \<noteq> sc_latest_all now"
    using refreshing.superseded_ticket [OF ok first, of before s2 m after] mid(2) now by simp
  then show ?thesis by (simp add: refresh_end_def split: option.split)
next
  assume p: "provider_begin p mid = (s2, m)"
  then have i2: "serials_ok s2" using provider_refreshing.start_inv [OF mid(1)] by blast
  have m: "get_or 0 (sc_latest_provider s2) p = m" "sc_serial mid < m"
    using p by (auto simp: provider_begin_def get_or_def Let_def)
  have i1: "serials_ok s1" using refreshing.start_inv [OF ok first] .
  have mono: "serials_ok t \<Longrightarrow> sc_serial t \<le> sc_serial (fold apply_catalog es t)" for t es
  proof (induction es arbitrary: t)
    case (Cons e es)
    then show ?case using catalog_serials [OF Cons.prems, of e] by (force intro: order_trans)
  qed simp
  have "n = sc_serial s1" using first by (auto simp: refresh_begin_def Let_def)
  also have "\<dots> \<le> sc_serial mid" using mono [OF i1, of before] mid(2) by simp
  also have "\<dots> < m" by (rule m(2))
  also have "m \<le> get_or 0 (sc_latest_provider now) p"
    using provider_refreshing.history_ticket [OF i2, of p after] m(1) now by simp
  finally have lt: "n < get_or 0 (sc_latest_provider now) p" .
  then obtain k where k: "om_get (sc_latest_provider now) p = Some k" "n < k"
    by (auto simp: get_or_def split: option.splits)
  have "serials_ok now" using provider_refreshing.history_inv [OF i2, of after] now by simp
  then have "k \<in> set (om_values (sc_latest_provider now))"
    using k(1) om_values_iff [of "sc_latest_provider now" k] by (auto simp: serials_ok_def)
  then show ?thesis using k(2) by (auto simp: refresh_end_def split: option.split)
qed

theorem stale_refresh_never_shows_witness:
  "let s1 = fst (refresh_begin (new_catalog None)); s2 = fst (provider_begin ''codex'' s1)
   in fst (refresh_end 1 (Some []) s2) = s2"
proof -
  have f: "refresh_begin (new_catalog None) = (fst (refresh_begin (new_catalog None)), 1)"
    by (simp add: refresh_begin_def new_catalog_def restore_local_state_def stored_item_def Let_def)
  have i: "serials_ok (fst (refresh_begin (new_catalog None)))"
    using refreshing.start_inv [OF serials_ok_new f] .
  show ?thesis
    using stale_refresh_never_shows [OF serials_ok_new f i, of "[]" _ _ "''codex''" _ "[]" "Some []"]
    by (simp add: Let_def) (metis prod.collapse)
qed

section \<open>What applying items shows\<close>

lemma project_items_snoc: "project_items (xs @ [i]) = project_item i (project_items xs)"
  by (simp add: project_items_def)

text \<open>
  The catalog's views of a list of items are what the list says: the sessions of a
  workspace are the resources of its items in order, a title is that of the last item with the
  identity, and a workspace is offline as soon as one of its items is, connected when it has
  items and all are online, and unknown otherwise.
\<close>

theorem catalog_projection:
  assumes "catalog_apply items s = (s', changed)"
  shows "sc_items s' = items
    \<and> get_or [] (sc_sessions s') ws = map ci_resource (filter (\<lambda>i. ci_workspace i = ws) items)
    \<and> om_get (sc_titles s') (session_identity_key k) =
        map_option ci_title (at_last (filter (\<lambda>i. ci_workspace i = si_workspace k \<and> ci_resource i = si_resource k) items))
    \<and> om_get (sc_connection s') ws =
        (if \<exists>i \<in> set items. ci_workspace i = ws \<and> \<not> ci_online i then Some Offline
         else if \<exists>i \<in> set items. ci_workspace i = ws then Some Connected else None)"
proof -
  have "get_or [] (fst (project_items items)) ws = map ci_resource (filter (\<lambda>i. ci_workspace i = ws) items)"
  proof (induction items rule: rev_induct)
    case Nil
    show ?case by (simp add: project_items_def get_or_def)
  next
    case (snoc i xs)
    then show ?case
      by (auto simp: project_items_snoc project_item_def get_or_def split: prod.splits option.splits)
  qed
  moreover have "om_get (fst (snd (project_items items))) (session_identity_key k) =
      map_option ci_title (at_last (filter (\<lambda>i. ci_workspace i = si_workspace k \<and> ci_resource i = si_resource k) items))"
  proof (induction items rule: rev_induct)
    case Nil
    show ?case by (simp add: project_items_def at_last_def)
  next
    case (snoc i xs)
    have "item_key i = session_identity_key k \<longleftrightarrow> ci_workspace i = si_workspace k \<and> ci_resource i = si_resource k"
      by (auto simp: item_key_def intro: session_identity.equality)
    then show ?case using snoc
      by (auto simp: project_items_snoc project_item_def at_last_def split: prod.splits)
  qed
  moreover have "om_get (snd (snd (project_items items))) ws =
        (if \<exists>i \<in> set items. ci_workspace i = ws \<and> \<not> ci_online i then Some Offline
         else if \<exists>i \<in> set items. ci_workspace i = ws then Some Connected else None)"
  proof (induction items rule: rev_induct)
    case Nil
    show ?case by (simp add: project_items_def)
  next
    case (snoc i xs)
    obtain ss ts cs where p: "project_items xs = (ss, ts, cs)" by (metis prod_cases3)
    show ?case using snoc
      by (cases "ci_workspace i = ws"; cases "ci_online i")
        (auto simp: project_items_snoc project_item_def p om_has_def split: if_splits)
  qed
  ultimately show ?thesis using assms
    by (auto simp: catalog_apply_def Let_def split: prod.splits if_splits)
qed

theorem catalog_projection_witness:
  "let i = (\<lambda>r on. \<lparr>ci_workspace = ''w'', ci_resource = r, ci_provider = ''p'', ci_title = r, ci_status = 0,
         ci_activity = None, ci_repository = None, ci_directory = None, ci_created = [], ci_modified = [],
         ci_observed = [], ci_online = on, ci_stale = False, ci_approval = None, ci_changes = None\<rparr>);
       s' = fst (catalog_apply [i ''a'' True, i ''b'' False, i ''c'' True] (new_catalog None))
   in get_or [] (sc_sessions s') ''w'' = [''a'', ''b'', ''c''] \<and> om_get (sc_connection s') ''w'' = Some Offline"
proof -
  let ?i = "\<lambda>r on. \<lparr>ci_workspace = ''w'', ci_resource = r, ci_provider = ''p'', ci_title = r, ci_status = 0,
         ci_activity = None, ci_repository = None, ci_directory = None, ci_created = [], ci_modified = [],
         ci_observed = [], ci_online = on, ci_stale = False, ci_approval = None, ci_changes = None\<rparr>"
  let ?r = "catalog_apply [?i ''a'' True, ?i ''b'' False, ?i ''c'' True] (new_catalog None)"
  have "?r = (fst ?r, snd ?r)" by simp
  from catalog_projection [OF this, of "''w''"] show ?thesis by (simp add: Let_def)
qed

section \<open>The local flags survive a restart\<close>

lemma strings_in_back [simp]: "strings_in (JArr (map JStr xs)) = xs"
  by (induction xs) (simp_all add: strings_in_def List.map_filter_simps)

lemma fold_os_add: "distinct (ys @ xs) \<Longrightarrow> fold os_add xs ys = ys @ xs"
  by (induction xs arbitrary: ys) (simp_all add: os_add_def)

definition flags_ok :: "session_catalog \<Rightarrow> bool" where
  "flags_ok s \<longleftrightarrow> distinct (sc_archived s) \<and> distinct (sc_pinned s) \<and> distinct (sc_unread s)"

lemma restore_after_change:
  assumes "flags_ok s" and "sc_storage s = Some b" and "bs_writable b"
  shows "restore_local_state (sc_storage (local_state_changed s)) = (sc_archived s, sc_pinned s, sc_unread s)"
proof -
  have "storable (local_state_json s)" by (simp add: local_state_json_def)
  then have p: "json_parse (json_text (local_state_json s)) = Some (local_state_json s)" by (rule json_parse_text)
  have "json_text (local_state_json s) \<noteq> []" by (simp add: local_state_json_def)
  then show ?thesis
    using assms p
    by (simp add: restore_local_state_def local_state_changed_def stored_item_def store_item_def
        nullish_def local_state_json_def flags_ok_def fold_os_add)
qed

text \<open>
  Archiving, pinning or marking a session unread is remembered: a new catalog on the same
  (writable) storage has the same flags for every session, and toggling twice is as if nothing
  had happened.
\<close>

theorem catalog_flags_survive_restart:
  assumes ok: "flags_ok s" and st: "sc_storage s = Some b" "bs_writable b"
    and op: "s' = toggle_archived i s \<or> s' = toggle_pinned i s"
  shows "is_archived j (new_catalog (sc_storage s')) = is_archived j s'
    \<and> is_pinned j (new_catalog (sc_storage s')) = is_pinned j s'
    \<and> is_read j (new_catalog (sc_storage s')) = is_read j s'
    \<and> is_archived j (toggle_archived i (toggle_archived i s)) = is_archived j s
    \<and> is_pinned j (toggle_pinned i (toggle_pinned i s)) = is_pinned j s"
proof -
  have ok': "flags_ok (s\<lparr>sc_archived := toggle_in k (sc_archived s)\<rparr>)"
    "flags_ok (s\<lparr>sc_pinned := toggle_in k (sc_pinned s)\<rparr>)" for k
    using ok by (simp_all add: flags_ok_def toggle_in_def)
  have "restore_local_state (sc_storage s') = (sc_archived s', sc_pinned s', sc_unread s')"
    using op restore_after_change [OF ok'(1)] restore_after_change [OF ok'(2)] st
    by (auto simp: toggle_archived_def toggle_pinned_def)
  then show ?thesis
    by (auto simp: new_catalog_def is_archived_def is_pinned_def is_read_def toggle_archived_def
        toggle_pinned_def toggle_in_def)
qed

theorem catalog_flags_survive_restart_witness:
  "let i = \<lparr>si_workspace = ''w'', si_resource = ''r''\<rparr>;
       s = toggle_pinned i (new_catalog (Some \<lparr>bs_items = [], bs_writable = True\<rparr>))
   in is_pinned i (new_catalog (sc_storage s))"
proof -
  let ?i = "\<lparr>si_workspace = ''w'', si_resource = ''r''\<rparr>"
  let ?s0 = "new_catalog (Some \<lparr>bs_items = [], bs_writable = True\<rparr>)"
  have e: "restore_local_state (Some \<lparr>bs_items = [], bs_writable = True\<rparr>) = ([], [], [])"
    by (simp add: restore_local_state_def stored_item_def)
  have "flags_ok ?s0" "sc_storage ?s0 = Some \<lparr>bs_items = [], bs_writable = True\<rparr>"
    by (simp_all add: new_catalog_def e flags_ok_def)
  from catalog_flags_survive_restart [OF this _ disjI2 [OF refl], of ?i ?i]
  show ?thesis
    by (simp add: Let_def) (simp add: is_pinned_def toggle_pinned_def toggle_in_def new_catalog_def e)
qed

end
