(* ===== verification/Terminal.thy ===== *)
theory Terminal
  imports Attachment Layout
begin

text \<open>
  \<open>packages/workbench/src/contrib/terminal/terminal-service.ts\<close> and
  \<open>terminal-group-service.ts\<close>: the terminals of the attached workspace and the panel
  that holds them.

  \<open>create\<close>, \<open>disposeTerminal\<close> and \<open>reattach\<close> are split at their \<open>await\<close>: the first
  step calls the host, the second takes what the host answered.  The calls made on hosts are a
  log.  Sizes are finite numbers.
\<close>

section \<open>State\<close>

record agent_terminal =
  tl_resource :: string
  tl_title :: string
  tl_output :: string

datatype terminal_call =
    CallCreate nat
  | CallDispose nat string
  | CallInput nat string string
  | CallResize nat string int int

record terminal_group =
  tg_open :: bool
  tg_collapsed :: bool
  tg_open_key :: bool
  tg_layout :: layout
  tg_fired :: nat

record terminals =
  tm_terminals :: "agent_terminal list"
  tm_active :: "string option"
  tm_height :: rat
  tm_generation :: nat
  tm_active_key :: bool
  tm_group :: terminal_group
  tm_calls :: "terminal_call list"
  tm_fired :: nat

section \<open>The panel\<close>

definition new_terminal_group :: "layout \<Rightarrow> terminal_group" where
  "new_terminal_group l = \<lparr>tg_open = False, tg_collapsed = False, tg_open_key = False, tg_layout = l, tg_fired = 0\<rparr>"

definition tg_set_open :: "bool \<Rightarrow> terminal_group \<Rightarrow> terminal_group" where
  "tg_set_open b g = g\<lparr>tg_open := b, tg_layout := set_visible Panel b (tg_layout g), tg_open_key := b, tg_fired := Suc (tg_fired g)\<rparr>"

definition open_panel :: "terminal_group \<Rightarrow> terminal_group" where
  "open_panel g = (if tg_open g then g else tg_set_open True g)"

definition toggle_open :: "terminal_group \<Rightarrow> terminal_group" where
  "toggle_open g = tg_set_open (\<not> tg_open g) g"

definition toggle_collapse :: "terminal_group \<Rightarrow> terminal_group" where
  "toggle_collapse g = g\<lparr>tg_collapsed := \<not> tg_collapsed g, tg_fired := Suc (tg_fired g)\<rparr>"

section \<open>The terminals\<close>

definition new_terminals :: "layout \<Rightarrow> terminals" where
  "new_terminals l = \<lparr>tm_terminals = [], tm_active = None, tm_height = 300, tm_generation = 0, tm_active_key = False,
     tm_group = new_terminal_group l, tm_calls = [], tm_fired = 0\<rparr>"

definition tm_fire :: "terminals \<Rightarrow> terminals" where
  "tm_fire s = s\<lparr>tm_fired := Suc (tm_fired s)\<rparr>"

definition tm_call :: "terminal_call \<Rightarrow> terminals \<Rightarrow> terminals" where
  "tm_call c s = s\<lparr>tm_calls := tm_calls s @ [c]\<rparr>"

definition has_terminal :: "string \<Rightarrow> terminals \<Rightarrow> bool" where
  "has_terminal r s \<longleftrightarrow> list_ex (\<lambda>t. tl_resource t = r) (tm_terminals s)"

definition create_begin :: "'a attachment \<Rightarrow> terminals \<Rightarrow> terminals" where
  "create_begin wa s = (case attached_pair wa of None \<Rightarrow> s | Some (w, h) \<Rightarrow> tm_call (CallCreate h) s)"

definition create_end :: "string + agent_terminal \<Rightarrow> terminals \<Rightarrow> terminals" where
  "create_end r s =
     (case r of
        Inl e \<Rightarrow> s
      | Inr t \<Rightarrow>
          tm_fire (s\<lparr>tm_terminals := tm_terminals s @
                       [t\<lparr>tl_title := (if tl_title t = [] then ''Terminal'' else tl_title t)\<rparr>],
                     tm_active := Some (tl_resource t),
                     tm_group := open_panel (tm_group s),
                     tm_active_key := True\<rparr>))"

text \<open>
  The result says whether there is something to wait for; without a workspace nothing happens,
  with a host that has closed the terminal is removed all the same.
\<close>

definition dispose_begin :: "'a attachment \<Rightarrow> string \<Rightarrow> terminals \<Rightarrow> terminals \<times> bool" where
  "dispose_begin wa r s =
     (case attached_workspace wa of
        None \<Rightarrow> (s, False)
      | Some w \<Rightarrow>
          if w = [] then (s, False)
          else (case attached (Some w) wa of None \<Rightarrow> (s, True) | Some h \<Rightarrow> (tm_call (CallDispose h r) s, True)))"

definition first_terminal :: "agent_terminal list \<Rightarrow> string option" where
  "first_terminal ts = map_option tl_resource (at_first ts)"

definition dispose_end :: "string \<Rightarrow> bool \<Rightarrow> terminals \<Rightarrow> terminals" where
  "dispose_end r failed s =
     (if failed then s
      else let ts = filter (\<lambda>t. tl_resource t \<noteq> r) (tm_terminals s);
               act = (if tm_active s = Some r then first_terminal ts else tm_active s)
           in tm_fire (s\<lparr>tm_terminals := ts, tm_active := act, tm_active_key := (act \<noteq> None \<and> act \<noteq> Some [])\<rparr>))"

definition select_terminal :: "string \<Rightarrow> terminals \<Rightarrow> terminals" where
  "select_terminal r s =
     (if \<not> has_terminal r s then s else tm_fire (s\<lparr>tm_active := Some r, tm_active_key := True\<rparr>))"

definition terminal_panel_height :: "rat \<Rightarrow> terminals \<Rightarrow> terminals" where
  "terminal_panel_height h s = tm_fire (s\<lparr>tm_height := max 120 h\<rparr>)"

text \<open>\<open>attached(attachedWorkspaceID() ?? "")\<close>.\<close>

definition any_host :: "'a attachment \<Rightarrow> nat option" where
  "any_host wa = attached (Some (case attached_workspace wa of None \<Rightarrow> [] | Some w \<Rightarrow> w)) wa"

definition terminal_input :: "'a attachment \<Rightarrow> string \<Rightarrow> string \<Rightarrow> terminals \<Rightarrow> terminals" where
  "terminal_input wa r data s =
     (if data = [] \<or> \<not> has_terminal r s then s
      else (case any_host wa of None \<Rightarrow> s | Some h \<Rightarrow> tm_call (CallInput h r data) s))"

definition terminal_resize :: "'a attachment \<Rightarrow> string \<Rightarrow> rat \<Rightarrow> rat \<Rightarrow> terminals \<Rightarrow> terminals" where
  "terminal_resize wa r cols rows s =
     (if \<not> has_terminal r s then s
      else (case any_host wa of
          None \<Rightarrow> s
        | Some h \<Rightarrow> tm_call (CallResize h r (max 1 \<lfloor>cols\<rfloor>) (max 1 \<lfloor>rows\<rfloor>)) s))"

definition reattach_begin :: "terminals \<Rightarrow> terminals \<times> nat" where
  "reattach_begin s = (let g = Suc (tm_generation s) in (s\<lparr>tm_generation := g\<rparr>, g))"

text \<open>What the terminals the host listed have become: attached, or as listed.\<close>

definition settled_terminals :: "(agent_terminal \<times> (string + agent_terminal)) list \<Rightarrow> agent_terminal list" where
  "settled_terminals rs = map (\<lambda>(t, r). case r of Inl e \<Rightarrow> t | Inr t' \<Rightarrow> t') rs"

definition reattach_end :: "nat \<Rightarrow> (agent_terminal \<times> (string + agent_terminal)) list \<Rightarrow> terminals \<Rightarrow> terminals" where
  "reattach_end g rs s =
     (if g \<noteq> tm_generation s then s
      else let ts = settled_terminals rs;
               kept = (case tm_active s of
                         None \<Rightarrow> None
                       | Some r \<Rightarrow> if r \<noteq> [] \<and> \<not> list_ex (\<lambda>t. tl_resource t = r) ts then None else Some r);
               act = (if tg_open (tm_group s) \<and> (kept = None \<or> kept = Some []) then first_terminal ts else kept)
           in tm_fire (s\<lparr>tm_terminals := ts, tm_active := act\<rparr>))"

definition appended :: "string \<Rightarrow> string \<Rightarrow> agent_terminal \<Rightarrow> agent_terminal" where
  "appended r data t = (if tl_resource t = r then t\<lparr>tl_output := tl_output t @ data\<rparr> else t)"

definition append_output :: "string \<Rightarrow> string \<Rightarrow> terminals \<Rightarrow> terminals" where
  "append_output r data s =
     (if data = [] then s else tm_fire (s\<lparr>tm_terminals := map (appended r data) (tm_terminals s)\<rparr>))"

datatype 'a terminal_op =
    TmCreate "'a attachment" | TmCreated "string + agent_terminal"
  | TmDispose "'a attachment" string | TmDisposed string bool
  | TmSelect string | TmHeight rat
  | TmInput "'a attachment" string string | TmResize "'a attachment" string rat rat
  | TmReattach | TmReattached nat "(agent_terminal \<times> (string + agent_terminal)) list"
  | TmOutput string string | TmToggleOpen | TmToggleCollapse | TmLayout layout_op

fun apply_terminal :: "'a terminal_op \<Rightarrow> terminals \<Rightarrow> terminals" where
  "apply_terminal (TmCreate wa) s = create_begin wa s"
| "apply_terminal (TmCreated r) s = create_end r s"
| "apply_terminal (TmDispose wa r) s = fst (dispose_begin wa r s)"
| "apply_terminal (TmDisposed r failed) s = dispose_end r failed s"
| "apply_terminal (TmSelect r) s = select_terminal r s"
| "apply_terminal (TmHeight h) s = terminal_panel_height h s"
| "apply_terminal (TmInput wa r d) s = terminal_input wa r d s"
| "apply_terminal (TmResize wa r c w) s = terminal_resize wa r c w s"
| "apply_terminal TmReattach s = fst (reattach_begin s)"
| "apply_terminal (TmReattached g rs) s = reattach_end g rs s"
| "apply_terminal (TmOutput r d) s = append_output r d s"
| "apply_terminal TmToggleOpen s = s\<lparr>tm_group := toggle_open (tm_group s)\<rparr>"
| "apply_terminal TmToggleCollapse s = s\<lparr>tm_group := toggle_collapse (tm_group s)\<rparr>"
| "apply_terminal (TmLayout e) s = s\<lparr>tm_group := (tm_group s)\<lparr>tg_layout := apply_layout e (tg_layout (tm_group s))\<rparr>\<rparr>"

section \<open>The active terminal is one of the terminals\<close>

text \<open>A call the service may make: input that is not empty, a size of at least one cell.\<close>

fun sane_call :: "terminal_call \<Rightarrow> bool" where
  "sane_call (CallInput h r data) = (data \<noteq> [])"
| "sane_call (CallResize h r cols rows) = (1 \<le> cols \<and> 1 \<le> rows)"
| "sane_call _ = True"

definition listed :: "string option \<Rightarrow> agent_terminal list \<Rightarrow> bool" where
  "listed act ts \<longleftrightarrow> (case act of None \<Rightarrow> True | Some r \<Rightarrow> r = [] \<or> r \<in> tl_resource ` set ts)"

definition tm_ok :: "terminals \<Rightarrow> bool" where
  "tm_ok s \<longleftrightarrow> listed (tm_active s) (tm_terminals s) \<and> 120 \<le> tm_height s \<and>
     tg_open_key (tm_group s) = tg_open (tm_group s) \<and> list_all sane_call (tm_calls s)"

lemma has_terminal_resources: "has_terminal r s \<longleftrightarrow> r \<in> tl_resource ` set (tm_terminals s)"
  by (auto simp: has_terminal_def list_ex_iff)

lemma tm_ok_call: "tm_ok s \<Longrightarrow> sane_call c \<Longrightarrow> tm_ok (tm_call c s)"
  by (simp add: tm_ok_def tm_call_def has_terminal_def)

lemma tm_fire_fields [simp]:
  "tm_terminals (tm_fire s) = tm_terminals s" "tm_active (tm_fire s) = tm_active s" "tm_height (tm_fire s) = tm_height s"
  "tm_generation (tm_fire s) = tm_generation s" "tm_active_key (tm_fire s) = tm_active_key s"
  "tm_group (tm_fire s) = tm_group s" "tm_calls (tm_fire s) = tm_calls s" "has_terminal r (tm_fire s) = has_terminal r s"
  by (simp_all add: tm_fire_def has_terminal_def)

lemma tm_ok_fire [simp]: "tm_ok (tm_fire s) = tm_ok s"
  by (simp add: tm_ok_def)

text \<open>The list and the active terminal change together.\<close>

lemma tm_ok_relist:
  "tm_ok s \<Longrightarrow> listed act ts \<Longrightarrow> tm_ok (s\<lparr>tm_terminals := ts, tm_active := act\<rparr>)"
  by (simp add: tm_ok_def)

lemma tm_ok_key [simp]: "tm_ok (s\<lparr>tm_active_key := b\<rparr>) = tm_ok s" "tm_ok (s\<lparr>tm_generation := g\<rparr>) = tm_ok s"
  by (simp_all add: tm_ok_def)

lemma first_terminal_in: "first_terminal ts = Some r \<Longrightarrow> r \<in> tl_resource ` set ts"
  by (auto simp: first_terminal_def at_first_def split: list.splits)

lemma listed_first: "listed (first_terminal ts) ts"
  using first_terminal_in [of ts] by (cases "first_terminal ts") (auto simp: listed_def)

lemma listed_if: "listed a ts \<Longrightarrow> listed b ts \<Longrightarrow> listed (if c then a else b) ts"
  by simp

lemma listed_output:
  "listed a (map (appended r d) ts) = listed a ts"
proof -
  have "tl_resource (appended r d t) = tl_resource t" for t by (simp add: appended_def)
  then have "tl_resource ` set (map (appended r d) ts) = tl_resource ` set ts"
    by (induction ts) auto
  then show ?thesis unfolding listed_def by (simp only:)
qed

lemma group_ok:
  "tm_ok s \<Longrightarrow> tg_open_key g = tg_open g \<Longrightarrow> tm_ok (s\<lparr>tm_group := g\<rparr>)"
  by (simp add: tm_ok_def)

lemma tm_ok_step:
  assumes ok: "tm_ok s"
  shows "tm_ok (apply_terminal e s)"
proof (cases e)
  case (TmCreate wa)
  then show ?thesis using ok by (simp add: create_begin_def tm_ok_call split: option.split)
next
  case (TmCreated r)
  show ?thesis
  proof (cases r)
    case (Inr t)
    let ?ts = "tm_terminals s @ [t\<lparr>tl_title := (if tl_title t = [] then ''Terminal'' else tl_title t)\<rparr>]"
    have "tm_ok (s\<lparr>tm_terminals := ?ts, tm_active := Some (tl_resource t)\<rparr>)"
      by (rule tm_ok_relist [OF ok]) (simp add: listed_def)
    moreover have "tg_open_key (tm_group s) = tg_open (tm_group s)" using ok by (simp add: tm_ok_def)
    ultimately have "tm_ok (s\<lparr>tm_terminals := ?ts, tm_active := Some (tl_resource t), tm_group := open_panel (tm_group s)\<rparr>)"
      using group_ok [of "s\<lparr>tm_terminals := ?ts, tm_active := Some (tl_resource t)\<rparr>" "open_panel (tm_group s)"]
      by (simp add: open_panel_def tg_set_open_def)
    then have "tm_ok ((s\<lparr>tm_terminals := ?ts, tm_active := Some (tl_resource t), tm_group := open_panel (tm_group s)\<rparr>)\<lparr>tm_active_key := True\<rparr>)"
      unfolding tm_ok_key .
    then show ?thesis using TmCreated Inr by (simp add: create_end_def)
  qed (use ok TmCreated in \<open>simp add: create_end_def\<close>)
next
  case (TmDispose wa r)
  then show ?thesis using ok by (simp add: dispose_begin_def tm_ok_call split: option.split)
next
  case (TmDisposed r failed)
  let ?ts = "filter (\<lambda>t. tl_resource t \<noteq> r) (tm_terminals s)"
  let ?act = "if tm_active s = Some r then first_terminal ?ts else tm_active s"
  have a: "listed (tm_active s) (tm_terminals s)" using ok by (simp add: tm_ok_def)
  have "listed (tm_active s) ?ts" if "tm_active s \<noteq> Some r"
    using a that by (cases "tm_active s") (auto simp: listed_def)
  then have "listed ?act ?ts" using listed_first [of ?ts] by simp
  from tm_ok_relist [OF ok this] show ?thesis using ok TmDisposed by (simp add: dispose_end_def Let_def)
next
  case (TmSelect r)
  then show ?thesis using ok by (simp add: select_terminal_def) (simp add: tm_ok_def has_terminal_resources listed_def)
next
  case (TmHeight h)
  then show ?thesis using ok by (simp add: terminal_panel_height_def) (simp add: tm_ok_def)
next
  case (TmInput wa r d)
  then show ?thesis using ok by (simp add: terminal_input_def tm_ok_call split: option.split)
next
  case (TmResize wa r c w)
  then show ?thesis using ok by (simp add: terminal_resize_def tm_ok_call split: option.split)
next
  case TmReattach
  then show ?thesis using ok by (simp add: reattach_begin_def Let_def)
next
  case (TmReattached g rs)
  let ?ts = "settled_terminals rs"
  let ?kept = "case tm_active s of None \<Rightarrow> None
    | Some r \<Rightarrow> if r \<noteq> [] \<and> \<not> list_ex (\<lambda>t. tl_resource t = r) ?ts then None else Some r"
  let ?act = "if tg_open (tm_group s) \<and> (?kept = None \<or> ?kept = Some []) then first_terminal ?ts else ?kept"
  have "listed ?kept ?ts"
    by (cases "tm_active s") (auto simp: listed_def list_ex_iff)
  then have "listed ?act ?ts" by (intro listed_if listed_first)
  from tm_ok_relist [OF ok this] show ?thesis using ok TmReattached by (simp add: reattach_end_def Let_def)
next
  case (TmOutput r d)
  then show ?thesis using ok by (simp add: append_output_def) (simp add: tm_ok_def listed_output)
qed (use ok in \<open>simp_all add: group_ok toggle_open_def tg_set_open_def toggle_collapse_def,
    simp_all add: tm_ok_def\<close>)

lemma tm_ok_history: "tm_ok s \<Longrightarrow> tm_ok (fold apply_terminal es s)"
  by (induction es arbitrary: s) (simp_all add: tm_ok_step)

lemma tm_ok_new: "tm_ok (new_terminals l)"
  by (simp add: tm_ok_def new_terminals_def new_terminal_group_def listed_def)

text \<open>
  However the terminals are created, disposed of, selected and reattached, whatever hosts
  answer and in whatever order, the active terminal is one of the terminals (or its resource is the
  empty string), the panel is at least 120 high, its context key says whether it is open, and
  every call that reached a host had input or a size of at least one cell.
\<close>

theorem terminal_panel_consistent:
  "let s = fold apply_terminal es (new_terminals l)
   in (case tm_active s of None \<Rightarrow> True | Some r \<Rightarrow> r = [] \<or> has_terminal r s) \<and> 120 \<le> tm_height s \<and>
      tg_open_key (tm_group s) = tg_open (tm_group s) \<and>
      list_all (\<lambda>c. case c of CallInput h r data \<Rightarrow> data \<noteq> [] | CallResize h r cols rows \<Rightarrow> 1 \<le> cols \<and> 1 \<le> rows | _ \<Rightarrow> True)
        (tm_calls s)"
proof -
  have c: "sane_call = (\<lambda>c. case c of CallInput h r data \<Rightarrow> data \<noteq> [] | CallResize h r cols rows \<Rightarrow> 1 \<le> cols \<and> 1 \<le> rows | _ \<Rightarrow> True)"
    by (rule ext, case_tac c) simp_all
  have "tm_ok (fold apply_terminal es (new_terminals l))" by (rule tm_ok_history [OF tm_ok_new])
  then show ?thesis unfolding Let_def tm_ok_def listed_def c has_terminal_resources .
qed

section \<open>Only the newest reattachment shows\<close>

lemma terminal_generation: "tm_generation s \<le> tm_generation (apply_terminal e s)"
  by (cases e) (simp_all add: create_begin_def create_end_def dispose_begin_def dispose_end_def select_terminal_def
      terminal_panel_height_def terminal_input_def terminal_resize_def reattach_begin_def reattach_end_def
      append_output_def tm_call_def Let_def split: option.split sum.split)

interpretation reattaching: latest_wins tm_generation reattach_begin reattach_end
  "apply_terminal :: 'a terminal_op \<Rightarrow> terminals \<Rightarrow> terminals" "\<lambda>s. s" "\<lambda>s. True"
  by unfold_locales (auto simp: reattach_begin_def reattach_end_def Let_def terminal_generation)

text \<open>
  The terminals of a workspace that was attached before another one never replace those of
  the later one: when the host of the first answers after the second reattachment has begun, the
  service is unchanged.
\<close>

theorem superseded_reattach_never_shows:
  fixes before after :: "'a terminal_op list"
  assumes "reattach_begin s = (s1, g)" and "reattach_begin (fold apply_terminal before s1) = (s2, g')"
  shows "reattach_end g rs (fold apply_terminal after s2) = fold apply_terminal after s2"
  by (rule reattaching.superseded_never_shows [OF TrueI assms])

theorem superseded_reattach_never_shows_witness:
  "let s2 = fst (reattach_begin (fst (reattach_begin (new_terminals (new_layout None)))));
       t = \<lparr>tl_resource = ''t'', tl_title = ''T'', tl_output = []\<rparr>; s3 = fold apply_terminal [TmReattached 2 [(t, Inl ''gone'')]] s2
   in reattach_end 1 [] s3 = s3 \<and> tm_terminals s3 = [t]"
proof -
  let ?s1 = "fst (reattach_begin (new_terminals (new_layout None)))"
  let ?s2 = "fst (reattach_begin ?s1)"
  let ?t = "\<lparr>tl_resource = ''t'', tl_title = ''T'', tl_output = []\<rparr>"
  have b1: "reattach_begin (new_terminals (new_layout None)) = (?s1, 1)"
    by (simp add: reattach_begin_def new_terminals_def)
  have b2: "reattach_begin (fold apply_terminal ([] :: nat terminal_op list) ?s1) = (?s2, 2)"
    by (simp add: reattach_begin_def new_terminals_def)
  let ?s3 = "fold apply_terminal ([TmReattached 2 [(?t, Inl ''gone'')]] :: nat terminal_op list) ?s2"
  have "tm_terminals ?s3 = [?t]"
    by (simp add: reattach_end_def reattach_begin_def new_terminals_def settled_terminals_def Let_def)
  then show ?thesis
    using superseded_reattach_never_shows [OF b1 b2, of "[]" "[TmReattached 2 [(?t, Inl ''gone'')]] :: nat terminal_op list"]
    unfolding Let_def by (simp del: One_nat_def)
qed

section \<open>What a reattachment gets wrong\<close>

text \<open>
  A reattachment that finds the active terminal gone while the panel is closed leaves no
  terminal active, but the context key \<open>terminal.active\<close> as it was: unlike every other operation
  that changes the active terminal it does not set the key.
\<close>

theorem reattach_leaves_active_key:
  assumes "reattach_begin s = (s1, g)" and "tm_active_key s" and "tm_active s = Some r" and "r \<noteq> []"
    and "\<not> tg_open (tm_group s)" and "list_all (\<lambda>t. tl_resource t \<noteq> r) (settled_terminals rs)"
  shows "tm_active (reattach_end g rs s1) = None \<and> tm_active_key (reattach_end g rs s1)
    \<and> tm_terminals (reattach_end g rs s1) = settled_terminals rs"
proof -
  have "\<not> list_ex (\<lambda>t. tl_resource t = r) (settled_terminals rs)"
    using assms(6) by (auto simp: list_ex_iff list_all_iff)
  then show ?thesis using assms(1-5) by (auto simp: reattach_begin_def reattach_end_def Let_def)
qed

theorem reattach_leaves_active_key_witness:
  "let t = \<lparr>tl_resource = ''t'', tl_title = ''T'', tl_output = []\<rparr>;
       s = (create_end (Inr t) (new_terminals (new_layout None)));
       s' = s\<lparr>tm_group := toggle_open (tm_group s)\<rparr>
   in tm_active (reattach_end 1 [] (fst (reattach_begin s'))) = None \<and> tm_active_key (reattach_end 1 [] (fst (reattach_begin s')))"
proof -
  let ?s = "create_end (Inr \<lparr>tl_resource = ''t'', tl_title = ''T'', tl_output = []\<rparr>) (new_terminals (new_layout None))"
  let ?s' = "?s\<lparr>tm_group := toggle_open (tm_group ?s)\<rparr>"
  have b: "reattach_begin ?s' = (fst (reattach_begin ?s'), 1)"
    by (simp add: reattach_begin_def create_end_def new_terminals_def tm_fire_def Let_def)
  have f: "tm_active_key ?s'" "tm_active ?s' = Some ''t''" "\<not> tg_open (tm_group ?s')"
    by (simp_all add: create_end_def toggle_open_def tg_set_open_def open_panel_def new_terminals_def new_terminal_group_def)
  show ?thesis
    using reattach_leaves_active_key [OF b f(1,2) _ f(3), of "[]"] by (simp add: settled_terminals_def Let_def)
qed

end
