(* ===== verification/Sessions.thy ===== *)
theory Sessions
  imports Commands Navigation ProtocolText Attachment SessionCatalog Resources Terminal
begin

text \<open>
  \<open>packages/workbench/src/contrib/workspace/workspace-service.ts\<close>,
  \<open>contrib/sessions/session-service.ts\<close> and \<open>session.commands.ts\<close>: the asynchronous
  operations that run through the attachment, the chat, the catalog, the details, the resources
  and the terminals together.

  A running asynchronous function is a task: what it waits for, and the continuations (frames) of
  the functions that await one another, innermost first.  Every \<open>await\<close> ends a step; a settled
  promise resumes its task in a step of its own, so that anything may run in between.  Calls on
  hosts are a log of the workspace they are meant for, the host and the call.
\<close>

section \<open>Workspaces\<close>

record workspace =
  wk_id :: string
  wk_name :: string
  wk_desired :: string
  wk_observed :: string
  wk_agent_host :: string
  wk_build :: string

definition is_workspace_running :: "workspace option \<Rightarrow> bool" where
  "is_workspace_running x \<longleftrightarrow>
     (case x of None \<Rightarrow> False
      | Some w \<Rightarrow> wk_desired w = ''running'' \<and> wk_observed w = ''running'' \<and> wk_agent_host w = ''online'')"

datatype workspace_lifecycle = LifecycleRunning | LifecycleStopped | LifecycleTransitioning

definition workspace_lifecycle_state :: "workspace option \<Rightarrow> workspace_lifecycle" where
  "workspace_lifecycle_state x =
     (case x of None \<Rightarrow> LifecycleTransitioning
      | Some w \<Rightarrow>
          if is_workspace_running x then LifecycleRunning
          else if wk_desired w = ''stopped'' \<and> wk_observed w = ''stopped'' then LifecycleStopped
          else LifecycleTransitioning)"

section \<open>Values, calls and frames\<close>

datatype outcome_value =
    VUnit
  | VHost nat
  | VResource string
  | VSession session_identity
  | VWorkspaces "workspace list"
  | VCreated string string
  | VLogs "string option"

type_synonym outcome = "string + outcome_value"

datatype value_kind = KUnit | KHost | KResource | KSession | KWorkspaces | KCreated | KLogs

fun kind_of :: "outcome_value \<Rightarrow> value_kind" where
  "kind_of VUnit = KUnit"
| "kind_of (VHost h) = KHost"
| "kind_of (VResource r) = KResource"
| "kind_of (VSession i) = KSession"
| "kind_of (VWorkspaces ws) = KWorkspaces"
| "kind_of (VCreated b i) = KCreated"
| "kind_of (VLogs l) = KLogs"

record prompt_message =
  am_agent :: string
  am_mode :: chat_mode
  am_approval :: approval_mode
  am_attachments :: "json list"
  am_model :: string
  am_effort :: string
  am_text :: string

datatype host_call =
    CreateSession string "string option"
  | AttachSession string
  | PromptSession string prompt_message
  | CancelTurn string string
  | ConfirmToolCall string string string bool

datatype provider_call = ProviderCreate json | ProviderList | ProviderLogs string

datatype frame =
    CreateOnHost string string "string option"
  | CreateOnCreated string string
  | AttachOnHost session_identity
  | AttachOnAttached session_identity
  | SendOnHost session_identity
  | SendOnPrompted session_identity
  | SelectOnHost string "string option"
  | SelectOnLoaded
  | ReloadOnList
  | MakeOnCreated
  | MakeOnReloaded "string \<times> string"
  | LogsOnAnswer
  | CommandOnCreated "composition option"
  | CommandOnSelected session_identity

datatype wait =
    OnConnect nat string
  | OnCall value_kind
  | OnLoads
  | Settled outcome

datatype progress = Blocked wait "frame list" | Finished outcome

section \<open>The state\<close>

record session_world =
  se_attachment :: "json attachment"
  se_workspaces :: "workspace list"
  se_selected :: "string option"
  se_active_context :: bool
  se_online_context :: bool
  se_changes :: nat
  se_nav :: nav_world
  se_chat :: chat_sessions
  se_catalog :: session_catalog
  se_resources :: resources
  se_terminals :: terminals
  se_calls :: "(string \<times> nat \<times> host_call) list"
  se_provider :: "provider_call list"
  se_tasks :: "(nat, wait \<times> frame list) omap"
  se_next :: nat
  se_outcomes :: "(nat \<times> outcome) list"
  se_loads :: "(nat \<times> string \<times> string option \<times> nat) list"
  se_reattaches :: "(nat \<times> nat) list"

text \<open>The workspace service registers listener 0 on the close of an attachment.\<close>

definition new_session_world :: "layout \<Rightarrow> browser_storage option \<Rightarrow> session_world" where
  "new_session_world l st =
     \<lparr>se_attachment = on_close 0 new_attachment, se_workspaces = [], se_selected = None, se_active_context = False,
      se_online_context = False, se_changes = 0,
      se_nav = \<lparr>nw_active = new_active True, nw_nav = new_navigation (new_active True), nw_opened = []\<rparr>,
      se_chat = new_chat_sessions None, se_catalog = new_catalog st,
      se_resources = new_resources (new_detail_view None l []), se_terminals = new_terminals l,
      se_calls = [], se_provider = [], se_tasks = [], se_next = 0, se_outcomes = [], se_loads = [], se_reattaches = []\<rparr>"

definition active_of :: "session_world \<Rightarrow> session_identity option" where
  "active_of w = as_selected (nw_active (se_nav w))"

definition call_host :: "string \<Rightarrow> nat \<Rightarrow> host_call \<Rightarrow> session_world \<Rightarrow> session_world" where
  "call_host ws h c w = w\<lparr>se_calls := se_calls w @ [(ws, h, c)]\<rparr>"

definition call_provider :: "provider_call \<Rightarrow> session_world \<Rightarrow> session_world" where
  "call_provider c w = w\<lparr>se_provider := se_provider w @ [c]\<rparr>"

definition ws_fire :: "session_world \<Rightarrow> session_world" where
  "ws_fire w = w\<lparr>se_changes := Suc (se_changes w)\<rparr>"

text \<open>A change of the active session, which the history, the chat and the details hear.\<close>

definition hear_active :: "active_session \<times> session_identity option option \<Rightarrow> session_world \<Rightarrow> session_world" where
  "hear_active r w =
     (let w1 = w\<lparr>se_nav := hear r (se_nav w)\<rparr>
      in case snd r of
           None \<Rightarrow> w1
         | Some i \<Rightarrow> w1\<lparr>se_chat := cs_active_changed i (se_chat w1),
                        se_resources := (se_resources w1)\<lparr>rs_details := dv_session_changed i (rs_details (se_resources w1))\<rparr>\<rparr>)"

definition select_active :: "session_identity \<Rightarrow> session_world \<Rightarrow> session_world" where
  "select_active i w = hear_active (active_select i (nw_active (se_nav w))) w"

definition clear_active :: "session_world \<Rightarrow> session_world" where
  "clear_active w = hear_active (active_clear (nw_active (se_nav w))) w"

definition attach_then :: "string \<Rightarrow> frame list \<Rightarrow> session_world \<Rightarrow> session_world \<times> progress" where
  "attach_then ws fs w =
     (case attach ws (se_attachment w) of
        (a, r) \<Rightarrow> (w\<lparr>se_attachment := a\<rparr>,
                    case r of AlreadyAttached h \<Rightarrow> Blocked (Settled (Inr (VHost h))) fs | Connecting g \<Rightarrow> Blocked (OnConnect g ws) fs))"

section \<open>The session service\<close>

definition running :: "string \<Rightarrow> session_world \<Rightarrow> bool" where
  "running ws w \<longleftrightarrow> is_workspace_running (find (\<lambda>x. wk_id x = ws) (se_workspaces w))"

abbreviation not_running :: progress where
  "not_running \<equiv> Finished (Inl ''Workspace must be running'')"

definition create_session :: "string \<Rightarrow> string \<Rightarrow> string option \<Rightarrow> session_world \<Rightarrow> session_world \<times> progress" where
  "create_session ws title provider w =
     (if \<not> running ws w then (w, not_running) else attach_then ws [CreateOnHost ws title provider] w)"

definition created :: "session_identity \<Rightarrow> string \<Rightarrow> session_world \<Rightarrow> session_world" where
  "created i title w =
     (let w1 = w\<lparr>se_resources := (se_resources w)\<lparr>rs_details := commit_new_session i (rs_details (se_resources w))\<rparr>\<rparr>;
          w2 = w1\<lparr>se_catalog := catalog_add i title (se_catalog w1)\<rparr>
      in select_active i w2)"

definition attach_on_host :: "session_identity \<Rightarrow> nat \<Rightarrow> session_world \<Rightarrow> session_world \<times> progress" where
  "attach_on_host i h w =
     (call_host (si_workspace i) h (AttachSession (si_resource i)) w, Blocked (OnCall KUnit) [AttachOnAttached i])"

definition attach_session :: "session_identity \<Rightarrow> session_world \<Rightarrow> session_world \<times> progress" where
  "attach_session i w =
     (case attached (Some (si_workspace i)) (se_attachment w) of
        Some h \<Rightarrow> attach_on_host i h w
      | None \<Rightarrow> attach_then (si_workspace i) [AttachOnHost i] w)"

definition prompt_of :: "composition \<Rightarrow> prompt_message" where
  "prompt_of c = \<lparr>am_agent = cc_agent c, am_mode = (case cc_mode c of None \<Rightarrow> AgentChat | Some m \<Rightarrow> m),
     am_approval = cc_approval c, am_attachments = cc_attachments c, am_model = cc_model c, am_effort = cc_effort c,
     am_text = cc_draft c\<rparr>"

definition send_on_host :: "session_identity \<Rightarrow> nat \<Rightarrow> session_world \<Rightarrow> session_world \<times> progress" where
  "send_on_host i h w =
     (case cs_composition i (se_chat w) of
        (chat, c) \<Rightarrow>
          let w1 = w\<lparr>se_chat := chat\<rparr>
          in if js_trim (cc_draft c) = [] \<and> cc_attachments c = [] then (w1, Finished (Inr VUnit))
             else (call_host (si_workspace i) h (PromptSession (si_resource i) (prompt_of c)) w1,
                   Blocked (OnCall KUnit) [SendOnPrompted i]))"

definition send_session :: "session_identity \<Rightarrow> session_world \<Rightarrow> session_world \<times> progress" where
  "send_session i w =
     (if \<not> running (si_workspace i) w then (w, not_running)
      else case attached (Some (si_workspace i)) (se_attachment w) of
             Some h \<Rightarrow> send_on_host i h w
           | None \<Rightarrow> attach_then (si_workspace i) [SendOnHost i] w)"

text \<open>An active turn that is named, and the host attached for the session's workspace.\<close>

definition turn_and_host :: "session_identity \<Rightarrow> session_world \<Rightarrow> (string \<times> nat) option" where
  "turn_and_host i w =
     (case (cs_active_turn i (se_chat w), attached (Some (si_workspace i)) (se_attachment w)) of
        (Some t, Some h) \<Rightarrow> if t = [] then None else Some (t, h)
      | _ \<Rightarrow> None)"

definition cancel_session :: "session_identity \<Rightarrow> session_world \<Rightarrow> session_world \<times> progress" where
  "cancel_session i w =
     (case turn_and_host i w of
        None \<Rightarrow> (w, Finished (Inr VUnit))
      | Some (t, h) \<Rightarrow> (call_host (si_workspace i) h (CancelTurn (si_resource i) t) w, Blocked (OnCall KUnit) []))"

definition confirm_session_call :: "session_identity \<Rightarrow> string \<Rightarrow> string \<Rightarrow> bool \<Rightarrow> session_world \<Rightarrow> session_world" where
  "confirm_session_call i chat call ok w =
     (case turn_and_host i w of
        None \<Rightarrow> w
      | Some (t, h) \<Rightarrow> call_host (si_workspace i) h (ConfirmToolCall chat t call ok) w)"

section \<open>The workspace service\<close>

definition reload_workspaces :: "session_world \<Rightarrow> session_world \<times> progress" where
  "reload_workspaces w = (call_provider ProviderList w, Blocked (OnCall KWorkspaces) [ReloadOnList])"

definition make_workspace :: "json \<Rightarrow> session_world \<Rightarrow> session_world \<times> progress" where
  "make_workspace input w = (call_provider (ProviderCreate input) w, Blocked (OnCall KCreated) [MakeOnCreated])"

definition load_build_logs :: "string \<Rightarrow> session_world \<Rightarrow> session_world \<times> progress" where
  "load_build_logs ws w =
     (case find (\<lambda>x. wk_id x = ws) (se_workspaces w) of
        None \<Rightarrow> (w, Finished (Inr (VLogs None)))
      | Some x \<Rightarrow>
          if wk_build x = [] then (w, Finished (Inr (VLogs None)))
          else (call_provider (ProviderLogs (wk_build x)) w, Blocked (OnCall KLogs) [LogsOnAnswer]))"

definition select_workspace :: "string \<Rightarrow> string option \<Rightarrow> session_world \<Rightarrow> session_world \<times> progress" where
  "select_workspace ws sr w = attach_then ws [SelectOnHost ws sr] w"

text \<open>
  The selection is published before the resources and the terminals settle; task \<open>n\<close> waits for
  both.
\<close>

definition select_on_host :: "nat \<Rightarrow> string \<Rightarrow> string option \<Rightarrow> nat \<Rightarrow> session_world \<Rightarrow> session_world \<times> progress" where
  "select_on_host n ws sr h w =
     (let w1 = ws_fire (w\<lparr>se_selected := Some ws, se_active_context := True, se_online_context := True\<rparr>);
          (res, g) = load_begin ws h sr (se_resources w1);
          (ts, r) = reattach_begin (se_terminals w1)
      in (w1\<lparr>se_resources := res, se_terminals := ts, se_loads := se_loads w1 @ [(n, ws, sr, g)],
             se_reattaches := se_reattaches w1 @ [(n, r)]\<rparr>,
          Blocked OnLoads [SelectOnLoaded]))"

text \<open>The listener on the close of the attachment.\<close>

definition workspace_closed :: "string \<Rightarrow> session_world \<Rightarrow> session_world" where
  "workspace_closed ws w =
     (if se_selected w \<noteq> Some ws then w else ws_fire (w\<lparr>se_online_context := False\<rparr>))"

section \<open>Running frames\<close>

definition all_changes :: "composition \<Rightarrow> composition_changes" where
  "all_changes c = \<lparr>ch_agent = Some (cc_agent c), ch_mode = map_option Some (cc_mode c), ch_approval = Some (cc_approval c),
     ch_attachments = Some (cc_attachments c), ch_draft = Some (cc_draft c), ch_model = Some (cc_model c),
     ch_effort = Some (cc_effort c)\<rparr>"

definition command_created :: "composition option \<Rightarrow> session_identity \<Rightarrow> session_world \<Rightarrow> session_world \<times> progress" where
  "command_created input i w =
     (case input of
        None \<Rightarrow> (w, Finished (Inr VUnit))
      | Some c \<Rightarrow>
          let w1 = w\<lparr>se_chat := fst (cs_update i (all_changes c) (se_chat w))\<rparr>
          in if js_trim (cc_draft c) \<noteq> [] \<or> cc_attachments c \<noteq> [] then send_session i w1
             else (w1, Finished (Inr VUnit)))"

text \<open>
  What a frame takes out of the value it awaited; no frame ever awaits a value of another kind
  (\<open>tasks_are_typed\<close> below).
\<close>

definition host_in :: "outcome_value \<Rightarrow> nat" where
  "host_in v = (case v of VHost h \<Rightarrow> h | _ \<Rightarrow> 0)"

definition resource_in :: "outcome_value \<Rightarrow> string" where
  "resource_in v = (case v of VResource r \<Rightarrow> r | _ \<Rightarrow> [])"

definition session_in :: "outcome_value \<Rightarrow> session_identity" where
  "session_in v = (case v of VSession i \<Rightarrow> i | _ \<Rightarrow> \<lparr>si_workspace = [], si_resource = []\<rparr>)"

definition workspaces_in :: "outcome_value \<Rightarrow> workspace list" where
  "workspaces_in v = (case v of VWorkspaces ws \<Rightarrow> ws | _ \<Rightarrow> [])"

definition made_in :: "outcome_value \<Rightarrow> string \<times> string" where
  "made_in v = (case v of VCreated b i \<Rightarrow> (b, i) | _ \<Rightarrow> ([], []))"

definition logs_in :: "outcome_value \<Rightarrow> string option" where
  "logs_in v = (case v of VLogs l \<Rightarrow> l | _ \<Rightarrow> None)"

fun run_frame :: "nat \<Rightarrow> frame \<Rightarrow> outcome_value \<Rightarrow> session_world \<Rightarrow> session_world \<times> progress" where
  "run_frame n (CreateOnHost ws title provider) v w =
     (call_host ws (host_in v) (CreateSession title provider) w, Blocked (OnCall KResource) [CreateOnCreated ws title])"
| "run_frame n (CreateOnCreated ws title) v w =
     (let i = \<lparr>si_workspace = ws, si_resource = resource_in v\<rparr> in (created i title w, Finished (Inr (VSession i))))"
| "run_frame n (AttachOnHost i) v w = attach_on_host i (host_in v) w"
| "run_frame n (AttachOnAttached i) v w = (select_active i w, Finished (Inr VUnit))"
| "run_frame n (SendOnHost i) v w = send_on_host i (host_in v) w"
| "run_frame n (SendOnPrompted i) v w =
     (w\<lparr>se_chat := cs_clear_after_send i (se_chat w)\<rparr>, Finished (Inr VUnit))"
| "run_frame n (SelectOnHost ws sr) v w = select_on_host n ws sr (host_in v) w"
| "run_frame n SelectOnLoaded v w = (ws_fire w, Finished (Inr VUnit))"
| "run_frame n ReloadOnList v w = (ws_fire (w\<lparr>se_workspaces := workspaces_in v\<rparr>), Finished (Inr VUnit))"
| "run_frame n MakeOnCreated v w =
     (case reload_workspaces w of
        (w', Blocked wt fs) \<Rightarrow> (w', Blocked wt (fs @ [MakeOnReloaded (made_in v)]))
      | (w', Finished r) \<Rightarrow> (w', Finished r))"
| "run_frame n (MakeOnReloaded made) v w = (w, Finished (Inr (VCreated (fst made) (snd made))))"
| "run_frame n LogsOnAnswer v w = (w, Finished (Inr (VLogs (logs_in v))))"
| "run_frame n (CommandOnCreated input) v w = command_created input (session_in v) w"
| "run_frame n (CommandOnSelected i) v w = attach_session i w"

text \<open>A rejection passes through every frame, since none catches it.\<close>

definition continue_frame :: "nat \<Rightarrow> frame \<Rightarrow> outcome \<Rightarrow> session_world \<Rightarrow> session_world \<times> progress" where
  "continue_frame n f r w = (case r of Inl e \<Rightarrow> (w, Finished (Inl e)) | Inr v \<Rightarrow> run_frame n f v w)"

text \<open>An asynchronous function has been called and has returned its promise.\<close>

fun begin_task :: "frame list \<Rightarrow> session_world \<times> progress \<Rightarrow> session_world" where
  "begin_task gs (w, Blocked wt fs) =
     w\<lparr>se_tasks := om_set (se_next w) (wt, fs @ gs) (se_tasks w), se_next := Suc (se_next w)\<rparr>"
| "begin_task gs (w, Finished r) =
     w\<lparr>se_tasks := om_set (se_next w) (Settled r, gs) (se_tasks w), se_next := Suc (se_next w)\<rparr>"

definition set_task :: "nat \<Rightarrow> wait \<Rightarrow> frame list \<Rightarrow> session_world \<Rightarrow> session_world" where
  "set_task n wt fs w = w\<lparr>se_tasks := om_set n (wt, fs) (se_tasks w)\<rparr>"

definition resume_task :: "nat \<Rightarrow> session_world \<Rightarrow> session_world" where
  "resume_task n w =
     (case om_get (se_tasks w) n of
        Some (Settled r, []) \<Rightarrow> w\<lparr>se_tasks := om_del n (se_tasks w), se_outcomes := se_outcomes w @ [(n, r)]\<rparr>
      | Some (Settled r, f # fs) \<Rightarrow>
          (case continue_frame n f r w of
             (w', Blocked wt gs) \<Rightarrow> set_task n wt (gs @ fs) w'
           | (w', Finished r') \<Rightarrow> set_task n (Settled r') fs w')
      | _ \<Rightarrow> w)"

section \<open>Promises of the hosts, the resources and the terminals settle\<close>

fun attach_outcome :: "attach_result \<Rightarrow> outcome" where
  "attach_outcome (AttachedHost h) = Inr (VHost h)"
| "attach_outcome StaleAttachment = Inl ''Workspace attachment was superseded''"
| "attach_outcome (ConnectFailed e) = Inl e"

definition connect_settles :: "nat \<Rightarrow> string + nat \<Rightarrow> session_world \<Rightarrow> session_world" where
  "connect_settles n r w =
     (case om_get (se_tasks w) n of
        Some (OnConnect g ws, fs) \<Rightarrow>
          (case connected g (ws, r) (se_attachment w) of
             (a, res) \<Rightarrow> set_task n (Settled (attach_outcome res)) fs (w\<lparr>se_attachment := a\<rparr>))
      | _ \<Rightarrow> w)"

text \<open>A promise settles with a value of its type.\<close>

definition call_settles :: "nat \<Rightarrow> outcome \<Rightarrow> session_world \<Rightarrow> session_world" where
  "call_settles n r w =
     (case om_get (se_tasks w) n of
        Some (OnCall k, fs) \<Rightarrow>
          (if (case r of Inl e \<Rightarrow> True | Inr v \<Rightarrow> kind_of v = k) then set_task n (Settled r) fs w else w)
      | _ \<Rightarrow> w)"

definition settle_loads :: "nat \<Rightarrow> outcome \<Rightarrow> session_world \<Rightarrow> session_world" where
  "settle_loads n r w =
     (case om_get (se_tasks w) n of Some (OnLoads, fs) \<Rightarrow> set_task n (Settled r) fs w | _ \<Rightarrow> w)"

text \<open>
  \<open>Promise.all\<close> rejects with the resources, also where the URL of an entry is none (with the
  engine's message); otherwise it waits for the terminals too.
\<close>

definition load_settles :: "(string \<Rightarrow> string option \<Rightarrow> string option) \<Rightarrow> nat \<Rightarrow> load_result \<Rightarrow> session_world \<Rightarrow> session_world" where
  "load_settles uri n r w =
     (case find (\<lambda>l. fst l = n) (se_loads w) of
        None \<Rightarrow> w
      | Some (m, ws, sr, g) \<Rightarrow>
          let w1 = w\<lparr>se_resources := load_end uri ws sr g r (se_resources w),
                     se_loads := filter (\<lambda>l. fst l \<noteq> n) (se_loads w)\<rparr>
          in case r of
               Inl e \<Rightarrow> settle_loads n (Inl (or_else e [])) w1
             | Inr x \<Rightarrow>
                 if load_throws uri ws g r (se_resources w) then settle_loads n (Inl ''Invalid URL'') w1
                 else if list_ex (\<lambda>l. fst l = n) (se_reattaches w1) then w1 else settle_loads n (Inr VUnit) w1)"

definition reattach_settles ::
  "nat \<Rightarrow> (agent_terminal \<times> (string + agent_terminal)) list \<Rightarrow> session_world \<Rightarrow> session_world" where
  "reattach_settles n rs w =
     (case find (\<lambda>l. fst l = n) (se_reattaches w) of
        None \<Rightarrow> w
      | Some (m, g) \<Rightarrow>
          let w1 = w\<lparr>se_terminals := reattach_end g rs (se_terminals w),
                     se_reattaches := filter (\<lambda>l. fst l \<noteq> n) (se_reattaches w)\<rparr>
          in if list_ex (\<lambda>l. fst l = n) (se_loads w1) then w1 else settle_loads n (Inr VUnit) w1)"

text \<open>A host closes: the workspace service hears it if the host was the current one.\<close>

definition host_closes :: "nat \<Rightarrow> session_world \<Rightarrow> session_world" where
  "host_closes h w =
     (let a = host_closed h (se_attachment w);
          told = drop (length (wa_close_delivered (se_attachment w))) (wa_close_delivered a)
      in fold workspace_closed (map snd (filter (\<lambda>d. fst d = 0) told)) (w\<lparr>se_attachment := a\<rparr>))"

section \<open>The commands of sessions\<close>

definition is_object :: "json \<Rightarrow> bool" where
  "is_object v \<longleftrightarrow> (case v of JObj fs \<Rightarrow> True | JArr xs \<Rightarrow> True | _ \<Rightarrow> False)"

definition has_key :: "json \<Rightarrow> string \<Rightarrow> bool" where
  "has_key v k \<longleftrightarrow> (case v of JObj fs \<Rightarrow> map_of fs k \<noteq> None | _ \<Rightarrow> False)"

definition is_session_identity :: "json \<Rightarrow> bool" where
  "is_session_identity v \<longleftrightarrow> is_object v \<and> is_str (field v ''resource'') \<and> is_str (field v ''workspaceID'')"

definition is_session_action_target :: "json \<Rightarrow> bool" where
  "is_session_action_target v \<longleftrightarrow>
     is_session_identity v \<or>
     is_object v \<and> is_session_identity (field v ''session'') \<and> is_arr (field v ''sessions'') \<and>
     arr_items (field v ''sessions'') \<noteq> [] \<and> list_all is_session_identity (arr_items (field v ''sessions''))"

text \<open>\<open>String(v)\<close>: the elements of an array are joined, missing ones empty.\<close>

fun string_of :: "json \<Rightarrow> string" where
  "string_of (JStr t) = t"
| "string_of (JArr xs) = join_str '','' (map (\<lambda>x. if x = JUndef \<or> x = JNull then [] else string_of x) xs)"
| "string_of (JObj fs) = ''[object Object]''"
| "string_of JUndef = ''undefined''"
| "string_of JNull = ''null''"
| "string_of (JBool b) = (if b then ''true'' else ''false'')"
| "string_of (JNum r) = show_num r"

definition is_initial_composition :: "json \<Rightarrow> bool" where
  "is_initial_composition v \<longleftrightarrow>
     is_object v \<and> is_str (field v ''draft'') \<and> is_str (field v ''model'') \<and> is_str (field v ''reasoningEffort'') \<and>
     is_str (field v ''agent'') \<and> is_arr (field v ''attachments'') \<and>
     string_of (field v ''approvalMode'') \<in> {''allow'', ''ask'', ''autopilot''}"

definition identity_of :: "json \<Rightarrow> session_identity" where
  "identity_of v = \<lparr>si_workspace = str_field v ''workspaceID'', si_resource = str_field v ''resource''\<rparr>"

text \<open>The session identities of a target, or nothing if they cannot be iterated.\<close>

definition session_targets :: "json \<Rightarrow> json list option" where
  "session_targets v =
     (if has_key v ''sessions''
      then (case field v ''sessions'' of JArr xs \<Rightarrow> Some xs | JStr t \<Rightarrow> Some (map (\<lambda>c. JStr [c]) t) | _ \<Rightarrow> None)
      else Some [v])"

definition composition_of :: "json \<Rightarrow> composition" where
  "composition_of v = \<lparr>cc_agent = str_field v ''agent'',
     cc_mode = (if field v ''mode'' = JUndef then None else Some (restored_mode (field v ''mode''))),
     cc_approval = restored_approval (field v ''approvalMode''), cc_attachments = arr_items (field v ''attachments''),
     cc_draft = str_field v ''draft'', cc_model = str_field v ''model'', cc_effort = str_field v ''reasoningEffort''\<rparr>"

definition argument :: "nat \<Rightarrow> json list \<Rightarrow> json" where
  "argument k args = (case at_index args k of None \<Rightarrow> JUndef | Some v \<Rightarrow> v)"

type_synonym session_handler = "(json, session_world) handler"

definition new_command :: session_handler where
  "new_command args w = (clear_active w, None)"

abbreviation nothing_to_do :: "session_world \<Rightarrow> session_world \<times> progress" where
  "nothing_to_do w \<equiv> (w, Finished (Inr VUnit))"

definition create_command :: session_handler where
  "create_command args w =
     (let title = (case argument 0 args of JStr t \<Rightarrow> t | _ \<Rightarrow> ''New session''); input = argument 1 args;
          initial = (if is_initial_composition input then Some (composition_of input) else None)
      in case se_selected w of
           None \<Rightarrow> (begin_task [] (nothing_to_do w), None)
         | Some ws \<Rightarrow>
             if ws = [] then (begin_task [] (nothing_to_do w), None)
             else (begin_task [CommandOnCreated initial] (create_session ws title (map_option cc_agent initial) w), None))"

definition open_command :: session_handler where
  "open_command args w =
     (let i = identity_of (argument 0 args); w1 = select_active i w
      in (begin_task [CommandOnSelected i] (select_workspace (si_workspace i) (Some (si_resource i)) w1), None))"

definition send_command :: session_handler where
  "send_command args w =
     (begin_task [] (case active_of w of None \<Rightarrow> nothing_to_do w | Some i \<Rightarrow> send_session i w), None)"

definition cancel_command :: session_handler where
  "cancel_command args w =
     (begin_task [] (case active_of w of None \<Rightarrow> nothing_to_do w | Some i \<Rightarrow> cancel_session i w), None)"

definition confirm_command :: session_handler where
  "confirm_command args w =
     (case active_of w of
        None \<Rightarrow> (w, None)
      | Some i \<Rightarrow> (confirm_session_call i (string_value (argument 0 args)) (string_value (argument 1 args))
                     (argument 2 args = JBool True) w, None))"

definition for_targets :: "(session_identity \<Rightarrow> session_catalog \<Rightarrow> session_catalog) \<Rightarrow> json \<Rightarrow> session_world \<Rightarrow> session_world \<times> string option" where
  "for_targets act v w =
     (case session_targets v of
        None \<Rightarrow> (w, Some ''target.sessions is not iterable'')
      | Some xs \<Rightarrow> (w\<lparr>se_catalog := fold (\<lambda>x. act (identity_of x)) xs (se_catalog w)\<rparr>, None))"

definition pin_command :: session_handler where
  "pin_command args w = for_targets toggle_pinned (argument 0 args) w"

definition archive_command :: session_handler where
  "archive_command args w = for_targets toggle_archived (argument 0 args) w"

definition mark_read_command :: session_handler where
  "mark_read_command args w = for_targets (\<lambda>i. mark_read i (argument 1 args \<noteq> JBool False)) (argument 0 args) w"

definition filter_command :: session_handler where
  "filter_command args w = (w\<lparr>se_catalog := request_filter (se_catalog w)\<rparr>, None)"

definition create_arguments :: "json list \<Rightarrow> bool" where
  "create_arguments args \<longleftrightarrow>
     (argument 0 args = JUndef \<or> is_str (argument 0 args)) \<and>
     (argument 1 args = JUndef \<or> is_initial_composition (argument 1 args))"

definition confirm_arguments :: "json list \<Rightarrow> bool" where
  "confirm_arguments args \<longleftrightarrow> is_str (argument 0 args) \<and> is_str (argument 1 args) \<and> is_bool (argument 2 args)"

definition mark_read_arguments :: "json list \<Rightarrow> bool" where
  "mark_read_arguments args \<longleftrightarrow>
     is_session_action_target (argument 0 args) \<and> (argument 1 args = JUndef \<or> is_bool (argument 1 args))"

definition session_commands :: "(string \<times> session_handler \<times> (json list \<Rightarrow> bool) option) list" where
  "session_commands =
     [(''zaw.session.new'', new_command, None),
      (''zaw.session.create'', create_command, Some create_arguments),
      (''zaw.session.open'', open_command, Some (\<lambda>args. is_session_identity (argument 0 args))),
      (''zaw.session.send'', send_command, None),
      (''zaw.session.cancel'', cancel_command, None),
      (''zaw.session.confirmToolCall'', confirm_command, Some confirm_arguments),
      (''zaw.session.togglePinned'', pin_command, Some (\<lambda>args. is_session_action_target (argument 0 args))),
      (''zaw.session.toggleArchived'', archive_command, Some (\<lambda>args. is_session_action_target (argument 0 args))),
      (''zaw.session.markRead'', mark_read_command, Some mark_read_arguments),
      (''zaw.session.filter'', filter_command, None)]"

fun register_all ::
  "(string \<times> session_handler \<times> (json list \<Rightarrow> bool) option) list \<Rightarrow> (json, session_world) command_registry \<Rightarrow>
   registry_error + (json, session_world) command_registry" where
  "register_all [] s = Inr s"
| "register_all ((k, h, v) # cs) s =
     (case register_command k h \<lparr>cm_id = k, cm_category = Some ''Session'', cm_precondition = None, cm_validate = v\<rparr> s of
        Inl e \<Rightarrow> Inl e
      | Inr s' \<Rightarrow> register_all cs s')"

definition register_session_commands ::
  "(json, session_world) command_registry \<Rightarrow> registry_error + (json, session_world) command_registry" where
  "register_session_commands s = register_all session_commands s"

definition session_registry :: "(json, session_world) command_registry" where
  "session_registry = (case register_session_commands new_command_registry of Inl e \<Rightarrow> new_command_registry | Inr s \<Rightarrow> s)"

section \<open>Histories\<close>

datatype session_step =
    StCommand string "json list"
  | StCreate string string "string option"
  | StAttach session_identity
  | StSend session_identity
  | StCancel session_identity
  | StConfirm session_identity string string bool
  | StSelectWorkspace string "string option"
  | StReload
  | StMake json
  | StLogs string
  | StDetach
  | StResume nat
  | StConnect nat "string + nat"
  | StCall nat outcome
  | StLoad nat load_result
  | StReattach nat "(agent_terminal \<times> (string + agent_terminal)) list"
  | StHostCloses nat
  | StCompose session_identity composition_changes
  | StTurn session_identity "string option"

fun apply_session :: "(string \<Rightarrow> string option \<Rightarrow> string option) \<Rightarrow> session_step \<Rightarrow> session_world \<Rightarrow> session_world" where
  "apply_session uri (StCommand k args) w = fst (execute_command k args session_registry w)"
| "apply_session uri (StCreate ws t p) w = begin_task [] (create_session ws t p w)"
| "apply_session uri (StAttach i) w = begin_task [] (attach_session i w)"
| "apply_session uri (StSend i) w = begin_task [] (send_session i w)"
| "apply_session uri (StCancel i) w = begin_task [] (cancel_session i w)"
| "apply_session uri (StConfirm i chat call ok) w = confirm_session_call i chat call ok w"
| "apply_session uri (StSelectWorkspace ws sr) w = begin_task [] (select_workspace ws sr w)"
| "apply_session uri StReload w = begin_task [] (reload_workspaces w)"
| "apply_session uri (StMake input) w = begin_task [] (make_workspace input w)"
| "apply_session uri (StLogs ws) w = begin_task [] (load_build_logs ws w)"
| "apply_session uri StDetach w = w\<lparr>se_attachment := detach (se_attachment w)\<rparr>"
| "apply_session uri (StResume n) w = resume_task n w"
| "apply_session uri (StConnect n r) w = connect_settles n r w"
| "apply_session uri (StCall n r) w = call_settles n r w"
| "apply_session uri (StLoad n r) w = load_settles uri n r w"
| "apply_session uri (StReattach n rs) w = reattach_settles n rs w"
| "apply_session uri (StHostCloses h) w = host_closes h w"
| "apply_session uri (StCompose i ch) w = w\<lparr>se_chat := fst (cs_update i ch (se_chat w))\<rparr>"
| "apply_session uri (StTurn i t) w = w\<lparr>se_chat := cs_set_active_turn i t (se_chat w)\<rparr>"

section \<open>Continuations are well typed\<close>

fun frame_in :: "frame \<Rightarrow> value_kind" where
  "frame_in (CreateOnHost ws t p) = KHost"
| "frame_in (CreateOnCreated ws t) = KResource"
| "frame_in (AttachOnHost i) = KHost"
| "frame_in (AttachOnAttached i) = KUnit"
| "frame_in (SendOnHost i) = KHost"
| "frame_in (SendOnPrompted i) = KUnit"
| "frame_in (SelectOnHost ws sr) = KHost"
| "frame_in SelectOnLoaded = KUnit"
| "frame_in ReloadOnList = KWorkspaces"
| "frame_in MakeOnCreated = KCreated"
| "frame_in (MakeOnReloaded made) = KUnit"
| "frame_in LogsOnAnswer = KLogs"
| "frame_in (CommandOnCreated c) = KSession"
| "frame_in (CommandOnSelected i) = KUnit"

fun frame_out :: "frame \<Rightarrow> value_kind" where
  "frame_out (CreateOnHost ws t p) = KSession"
| "frame_out (CreateOnCreated ws t) = KSession"
| "frame_out MakeOnCreated = KCreated"
| "frame_out (MakeOnReloaded made) = KCreated"
| "frame_out LogsOnAnswer = KLogs"
| "frame_out f = KUnit"

text \<open>The kind of the value a stack of frames returns when its innermost one awaits kind \<open>k\<close>.\<close>

fun stack_kind :: "value_kind \<Rightarrow> frame list \<Rightarrow> value_kind option" where
  "stack_kind k [] = Some k"
| "stack_kind k (f # fs) = (if frame_in f = k then stack_kind (frame_out f) fs else None)"

fun wait_kind :: "wait \<Rightarrow> value_kind option" where
  "wait_kind (OnConnect g ws) = Some KHost"
| "wait_kind (OnCall k) = Some k"
| "wait_kind OnLoads = Some KUnit"
| "wait_kind (Settled r) = (case r of Inl e \<Rightarrow> None | Inr v \<Rightarrow> Some (kind_of v))"

definition task_typed :: "wait \<times> frame list \<Rightarrow> bool" where
  "task_typed t =
     (case (wait_kind (fst t), snd t) of
        (Some k, fs) \<Rightarrow> stack_kind k fs \<noteq> None
      | (None, []) \<Rightarrow> True
      | (None, f # fs) \<Rightarrow> stack_kind (frame_out f) fs \<noteq> None)"

fun progress_kind :: "progress \<Rightarrow> value_kind \<Rightarrow> bool" where
  "progress_kind (Blocked wt fs) k = (\<exists>k0. wait_kind wt = Some k0 \<and> stack_kind k0 fs = Some k)"
| "progress_kind (Finished r) k = (case r of Inl e \<Rightarrow> True | Inr v \<Rightarrow> kind_of v = k)"

lemma stack_kind_append: "stack_kind k (fs @ gs) = Option.bind (stack_kind k fs) (\<lambda>k'. stack_kind k' gs)"
  by (induction fs arbitrary: k) auto

text \<open>The operations of the services leave the tasks to their callers.\<close>

lemma tasks_kept [simp]:
  "se_tasks (call_host ws h c w) = se_tasks w" "se_tasks (call_provider pc w) = se_tasks w"
  "se_tasks (ws_fire w) = se_tasks w" "se_tasks (workspace_closed ws w) = se_tasks w"
  "se_tasks (hear_active r w) = se_tasks w" "se_tasks (select_active i w) = se_tasks w"
  "se_tasks (clear_active w) = se_tasks w" "se_tasks (created i t w) = se_tasks w"
  "se_tasks (confirm_session_call i chat call ok w) = se_tasks w"
  by (simp_all add: call_host_def call_provider_def ws_fire_def workspace_closed_def hear_active_def select_active_def
      clear_active_def created_def confirm_session_call_def Let_def split: option.split prod.split)

lemma tasks_kept_by_calls [simp]:
  "se_tasks (fst (attach_then ws fs w)) = se_tasks w" "se_tasks (fst (create_session ws t p w)) = se_tasks w"
  "se_tasks (fst (attach_session i w)) = se_tasks w" "se_tasks (fst (send_on_host i h w)) = se_tasks w"
  "se_tasks (fst (send_session i w)) = se_tasks w" "se_tasks (fst (cancel_session i w)) = se_tasks w"
  "se_tasks (fst (reload_workspaces w)) = se_tasks w" "se_tasks (fst (make_workspace input w)) = se_tasks w"
  "se_tasks (fst (load_build_logs ws w)) = se_tasks w" "se_tasks (fst (select_workspace ws sr w)) = se_tasks w"
  "se_tasks (fst (select_on_host n ws sr h w)) = se_tasks w"
  by (simp_all add: attach_then_def create_session_def attach_session_def attach_on_host_def send_on_host_def send_session_def
      cancel_session_def reload_workspaces_def make_workspace_def load_build_logs_def select_workspace_def select_on_host_def
      Let_def split: option.split prod.split)

lemma tasks_kept_by_frames [simp]: "se_tasks (fst (continue_frame n f r w)) = se_tasks w"
  by (cases f; cases r) (simp_all add: continue_frame_def attach_on_host_def command_created_def reload_workspaces_def
      Let_def split: option.split)

lemma call_kinds [simp]:
  "progress_kind (snd (create_session ws t p w)) KSession" "progress_kind (snd (attach_session i w)) KUnit"
  "progress_kind (snd (send_session i w)) KUnit" "progress_kind (snd (send_on_host i h w)) KUnit"
  "progress_kind (snd (cancel_session i w)) KUnit" "progress_kind (snd (reload_workspaces w)) KUnit"
  "progress_kind (snd (make_workspace input w)) KCreated" "progress_kind (snd (load_build_logs ws w)) KLogs"
  "progress_kind (snd (select_workspace ws sr w)) KUnit"
  by (simp_all add: create_session_def attach_then_def attach_session_def attach_on_host_def send_session_def send_on_host_def
      cancel_session_def reload_workspaces_def make_workspace_def load_build_logs_def select_workspace_def Let_def
      split: option.split prod.split attach_outcome.split)

text \<open>A frame that gets what it awaits returns what its callers await.\<close>

lemma frame_preserves_kinds:
  "kind_of v = frame_in f \<Longrightarrow> progress_kind (snd (run_frame n f v w)) (frame_out f)"
  by (cases f) (auto simp: attach_on_host_def select_on_host_def command_created_def reload_workspaces_def Let_def
      split: option.split prod.split)

definition tasks_typed :: "session_world \<Rightarrow> bool" where
  "tasks_typed w \<longleftrightarrow> list_all (\<lambda>t. task_typed (snd t)) (se_tasks w)"

lemma tasks_typed_get: "tasks_typed w \<Longrightarrow> om_get (se_tasks w) n = Some t \<Longrightarrow> task_typed t"
  unfolding tasks_typed_def list_all_iff by (metis map_of_SomeD snd_conv)

lemma tasks_typed_set:
  assumes "tasks_typed w" and "se_tasks w' = om_set n t (se_tasks w)" and "task_typed t"
  shows "tasks_typed w'"
  using assms set_om_set [of n t "se_tasks w"] by (auto simp: tasks_typed_def list_all_iff)

lemma tasks_typed_cong: "tasks_typed w \<Longrightarrow> se_tasks w' = se_tasks w \<Longrightarrow> tasks_typed w'"
  by (simp add: tasks_typed_def)

fun task_of :: "progress \<Rightarrow> frame list \<Rightarrow> wait \<times> frame list" where
  "task_of (Blocked wt gs) fs = (wt, gs @ fs)"
| "task_of (Finished r) fs = (Settled r, fs)"

lemma progress_typed: "progress_kind p k \<Longrightarrow> stack_kind k fs \<noteq> None \<Longrightarrow> task_typed (task_of p fs)"
  by (cases p; cases fs) (auto simp: task_typed_def stack_kind_append split: sum.splits if_splits)

lemma begin_task_eq:
  "begin_task fs p = (fst p)\<lparr>se_tasks := om_set (se_next (fst p)) (task_of (snd p) fs) (se_tasks (fst p)), se_next := Suc (se_next (fst p))\<rparr>"
  by (cases p; cases "snd p") auto

lemma resume_task_eq:
  "resume_task n w =
     (case om_get (se_tasks w) n of
        Some (Settled r, []) \<Rightarrow> w\<lparr>se_tasks := om_del n (se_tasks w), se_outcomes := se_outcomes w @ [(n, r)]\<rparr>
      | Some (Settled r, f # fs) \<Rightarrow>
          (case continue_frame n f r w of (w', p) \<Rightarrow> set_task n (fst (task_of p fs)) (snd (task_of p fs)) w')
      | _ \<Rightarrow> w)"
  by (auto simp: resume_task_def split: option.split prod.split wait.split list.split progress.split)

lemma typed_begin:
  assumes "tasks_typed w" and "se_tasks (fst p) = se_tasks w" and "progress_kind (snd p) k" and "stack_kind k fs \<noteq> None"
  shows "tasks_typed (begin_task fs p)"
  by (rule tasks_typed_set [OF assms(1), where n = "se_next (fst p)" and t = "task_of (snd p) fs"])
    (use assms(2) progress_typed [OF assms(3,4)] in \<open>simp_all add: begin_task_eq\<close>)

lemma typed_resume: "tasks_typed w \<Longrightarrow> tasks_typed (resume_task n w)"
proof -
  assume t: "tasks_typed w"
  show ?thesis
  proof (cases "om_get (se_tasks w) n")
    case (Some x)
    obtain wt fs where x: "x = (wt, fs)" by fastforce
    have typed: "task_typed (wt, fs)" using tasks_typed_get [OF t Some] by (simp add: x)
    show ?thesis
    proof (cases wt)
      case (Settled r)
      show ?thesis
      proof (cases fs)
        case Nil
        have "set (om_del n (se_tasks w)) \<subseteq> set (se_tasks w)" by (rule set_om_del)
        with t show ?thesis by (auto simp: resume_task_def Some x Settled Nil tasks_typed_def list_all_iff)
      next
        case (Cons f gs)
        obtain w' p where c: "continue_frame n f r w = (w', p)" by fastforce
        have "task_typed (task_of p gs)"
        proof (cases r)
          case (Inl e)
          with typed c show ?thesis by (cases gs) (auto simp: Settled Cons continue_frame_def task_typed_def split: if_splits)
        next
          case (Inr v)
          with typed have k: "kind_of v = frame_in f" "stack_kind (frame_out f) gs \<noteq> None"
            by (auto simp: Settled Cons task_typed_def split: if_splits)
          have "p = snd (run_frame n f v w)" using c by (simp add: continue_frame_def Inr)
          with progress_typed [OF frame_preserves_kinds [OF k(1)] k(2)] show ?thesis by simp
        qed
        moreover have "se_tasks w' = se_tasks w" using c tasks_kept_by_frames [of n f r w] by simp
        ultimately show ?thesis
          by (intro tasks_typed_set [OF t, of _ n "task_of p gs"])
            (simp_all add: resume_task_eq Some x Settled Cons c set_task_def)
      qed
    qed (use t in \<open>simp_all add: resume_task_def Some x\<close>)
  qed (use t in \<open>simp add: resume_task_def\<close>)
qed

lemma typed_settle:
  assumes t: "tasks_typed w" and "om_get (se_tasks w) n = Some (wt, fs)" and "wait_kind wt = Some k"
    and "se_tasks w' = se_tasks w" and "case r of Inl e \<Rightarrow> True | Inr v \<Rightarrow> kind_of v = k"
  shows "tasks_typed (set_task n (Settled r) fs w')"
proof (rule tasks_typed_set [OF t])
  show "se_tasks (set_task n (Settled r) fs w') = om_set n (Settled r, fs) (se_tasks w)" using assms(4) by (simp add: set_task_def)
  show "task_typed (Settled r, fs)"
    using tasks_typed_get [OF t assms(2)] assms(3,5)
    by (cases fs) (auto simp: task_typed_def split: sum.splits if_splits)
qed

lemma typed_settles:
  assumes "tasks_typed w"
  shows "tasks_typed (connect_settles n a w)" "tasks_typed (call_settles n r w)" "tasks_typed (load_settles uri n l w)"
    "tasks_typed (reattach_settles n rs w)"
proof -
  have attached: "case attach_outcome x of Inl e \<Rightarrow> True | Inr v \<Rightarrow> kind_of v = KHost" for x by (cases x) simp_all
  show "tasks_typed (connect_settles n a w)"
    using assms by (auto simp: connect_settles_def split: option.split prod.split wait.split
        intro!: typed_settle [OF assms] attached)
  show "tasks_typed (call_settles n r w)"
    using assms by (auto simp: call_settles_def split: option.split wait.split intro!: typed_settle [OF assms])
  have loads: "tasks_typed (settle_loads n x w')" if "se_tasks w' = se_tasks w" and "case x of Inl e \<Rightarrow> True | Inr v \<Rightarrow> kind_of v = KUnit" for w' x
    using assms that tasks_typed_cong [OF assms that(1)]
    by (auto simp: settle_loads_def that split: option.split wait.split sum.splits intro!: typed_settle [OF assms])
  show "tasks_typed (load_settles uri n l w)" "tasks_typed (reattach_settles n rs w)"
    using assms by (auto simp: load_settles_def reattach_settles_def Let_def split: option.split prod.split sum.split
        intro!: loads intro: tasks_typed_cong)
qed

lemma tasks_kept_by_closing [simp]: "se_tasks (host_closes h w) = se_tasks w"
proof -
  have "se_tasks (fold workspace_closed xs v) = se_tasks v" for xs v by (induction xs arbitrary: v) simp_all
  then show ?thesis by (simp add: host_closes_def Let_def)
qed

text \<open>What the registered handlers do.\<close>

lemma registry_handlers:
  "map_option rc_handler (om_get (cmds session_registry) k) = map_option fst (map_of session_commands k)"
  by (simp add: session_registry_def register_session_commands_def session_commands_def register_command_def
      new_command_registry_def om_has_def)

definition one_of_handlers :: "string \<Rightarrow> session_handler \<Rightarrow> bool" where
  "one_of_handlers k hdl \<longleftrightarrow> (\<exists>v. (k, hdl, v) \<in> set session_commands)"

lemma handlers_are:
  "one_of_handlers k hdl \<Longrightarrow> hdl \<in> {new_command, create_command, open_command, send_command, cancel_command, confirm_command,
     pin_command, archive_command, mark_read_command, filter_command}"
  by (auto simp: one_of_handlers_def session_commands_def)

lemma execute_runs:
  "fst (execute_command k args s w) = w \<or>
   (\<exists>rc. om_get (cmds s) k = Some rc \<and> fst (execute_command k args s w) = fst (rc_handler rc args w))"
proof (cases "om_get (cmds s) k")
  case (Some rc)
  have run: "fst (case x of None \<Rightarrow> (v, None) | Some e \<Rightarrow> (v, Some (HandlerThrew e))) = v" for x and v
    by (cases x) simp_all
  show ?thesis
    by (cases "cm_validate (rc_descriptor rc)"; cases "cm_precondition (rc_descriptor rc)"; cases "cmd_accessor s")
      (simp_all add: execute_command_def Some Let_def run case_prod_unfold)
qed (simp add: execute_command_def)

lemma command_cases:
  obtains "fst (execute_command k args session_registry w) = w"
  | hdl where "one_of_handlers k hdl" "fst (execute_command k args session_registry w) = fst (hdl args w)"
proof (cases "fst (execute_command k args session_registry w) = w")
  case False
  then obtain rc where rc: "om_get (cmds session_registry) k = Some rc"
      "fst (execute_command k args session_registry w) = fst (rc_handler rc args w)"
    using execute_runs [of k args session_registry w] by blast
  then have "\<exists>p. map_of session_commands k = Some p \<and> rc_handler rc = fst p"
    using registry_handlers [of k] by (cases "map_of session_commands k") simp_all
  then have "one_of_handlers k (rc_handler rc)"
    unfolding one_of_handlers_def by (metis map_of_SomeD prod.collapse)
  then show ?thesis using that(2) rc(2) by blast
qed (rule that(1))

lemma typed_handlers:
  assumes t: "tasks_typed w"
  shows "tasks_typed (fst (new_command args w))" "tasks_typed (fst (create_command args w))"
    "tasks_typed (fst (open_command args w))" "tasks_typed (fst (send_command args w))"
    "tasks_typed (fst (cancel_command args w))" "tasks_typed (fst (confirm_command args w))"
    "tasks_typed (fst (for_targets act v w))" "tasks_typed (fst (filter_command args w))"
proof -
  note unit = typed_begin [OF t, where k = KUnit and fs = "[]"]
  show "tasks_typed (fst (new_command args w))" using t by (simp add: new_command_def tasks_typed_def)
  have c: "tasks_typed (begin_task [CommandOnCreated c] (create_session ws title p w))" for c ws title p
    by (rule typed_begin [OF t, where k = KSession]) simp_all
  have n: "tasks_typed (begin_task [] (nothing_to_do w))" by (rule unit) simp_all
  show "tasks_typed (fst (create_command args w))" using c n by (simp add: create_command_def Let_def split: option.split)
  show "tasks_typed (fst (open_command args w))"
    unfolding open_command_def Let_def fst_conv by (rule typed_begin [OF t, where k = KUnit]) simp_all
  show "tasks_typed (fst (send_command args w))" "tasks_typed (fst (cancel_command args w))"
    unfolding send_command_def cancel_command_def fst_conv by (rule unit; simp split: option.split)+
  show "tasks_typed (fst (confirm_command args w))" using t by (simp add: confirm_command_def tasks_typed_def split: option.split)
  show "tasks_typed (fst (for_targets act v w))" using t by (simp add: for_targets_def tasks_typed_def split: option.split)
  show "tasks_typed (fst (filter_command args w))" using t by (simp add: filter_command_def tasks_typed_def)
qed

lemma typed_step:
  assumes t: "tasks_typed w"
  shows "tasks_typed (apply_session uri e w)"
proof (cases e)
  case (StCommand k args)
  show ?thesis
  proof (rule command_cases [of k args w])
    fix hdl assume h: "one_of_handlers k hdl" and r: "fst (execute_command k args session_registry w) = fst (hdl args w)"
    have "tasks_typed (fst (hdl args w))"
      using handlers_are [OF h] typed_handlers [OF t] by (auto simp: pin_command_def archive_command_def mark_read_command_def)
    then show ?thesis by (simp add: StCommand r)
  qed (use t in \<open>simp add: StCommand\<close>)
next
  case (StCreate ws ti p)
  show ?thesis unfolding StCreate apply_session.simps by (rule typed_begin [OF t, where k = KSession]) simp_all
next
  case (StMake input)
  show ?thesis unfolding StMake apply_session.simps by (rule typed_begin [OF t, where k = KCreated]) simp_all
next
  case (StLogs ws)
  show ?thesis unfolding StLogs apply_session.simps by (rule typed_begin [OF t, where k = KLogs]) simp_all
next
  case (StAttach i)
  show ?thesis unfolding StAttach apply_session.simps by (rule typed_begin [OF t, where k = KUnit]) simp_all
next
  case (StSend i)
  show ?thesis unfolding StSend apply_session.simps by (rule typed_begin [OF t, where k = KUnit]) simp_all
next
  case (StCancel i)
  show ?thesis unfolding StCancel apply_session.simps by (rule typed_begin [OF t, where k = KUnit]) simp_all
next
  case (StSelectWorkspace ws sr)
  show ?thesis unfolding StSelectWorkspace apply_session.simps by (rule typed_begin [OF t, where k = KUnit]) simp_all
next
  case StReload
  show ?thesis unfolding StReload apply_session.simps by (rule typed_begin [OF t, where k = KUnit]) simp_all
qed (use t typed_resume [OF t] typed_settles [OF t] in \<open>simp_all add: tasks_typed_def\<close>)

text \<open>
  Whatever is called and whatever settles in whatever order, a continuation is never resumed with a
  value of another kind than the one it awaits.
\<close>

lemma tasks_are_typed: "tasks_typed (fold (apply_session uri) es (new_session_world l st))"
proof -
  have "tasks_typed (new_session_world l st)" by (simp add: tasks_typed_def new_session_world_def)
  then show ?thesis by (intro fold_keeps [where P = tasks_typed]) (auto intro: typed_step)
qed

section \<open>No session's call reaches another workspace\<close>

definition reaches :: "json attachment \<Rightarrow> string \<Rightarrow> nat \<Rightarrow> bool" where
  "reaches a ws h \<longleftrightarrow> ws = [] \<or> (\<exists>b \<in> set (wa_subs a). sb_host b = h \<and> sb_workspace b = ws)"

definition current_reaches :: "json attachment \<Rightarrow> bool" where
  "current_reaches a \<longleftrightarrow> (case wa_current a of None \<Rightarrow> True | Some (ws, h) \<Rightarrow> reaches a ws h)"

fun frame_workspace :: "frame \<Rightarrow> string option" where
  "frame_workspace (CreateOnHost ws t p) = Some ws"
| "frame_workspace (AttachOnHost i) = Some (si_workspace i)"
| "frame_workspace (SendOnHost i) = Some (si_workspace i)"
| "frame_workspace (SelectOnHost ws sr) = Some ws"
| "frame_workspace f = None"

definition frame_reaches :: "json attachment \<Rightarrow> frame list \<Rightarrow> nat \<Rightarrow> bool" where
  "frame_reaches a fs h \<longleftrightarrow>
     (case fs of [] \<Rightarrow> True
      | f # _ \<Rightarrow> (case frame_workspace f of None \<Rightarrow> True | Some ws \<Rightarrow> reaches a ws h))"

definition frame_meant :: "frame list \<Rightarrow> string \<Rightarrow> bool" where
  "frame_meant fs ws \<longleftrightarrow> (case fs of [] \<Rightarrow> True | f # _ \<Rightarrow> frame_workspace f \<in> {None, Some ws})"

definition task_reaches :: "json attachment \<Rightarrow> wait \<Rightarrow> frame list \<Rightarrow> bool" where
  "task_reaches a wt fs \<longleftrightarrow>
     (case wt of
        OnConnect g ws \<Rightarrow> frame_meant fs ws
      | OnCall k \<Rightarrow> k \<noteq> KHost
      | OnLoads \<Rightarrow> True
      | Settled r \<Rightarrow> (case r of Inl e \<Rightarrow> True | Inr v \<Rightarrow> (case v of VHost h \<Rightarrow> frame_reaches a fs h | _ \<Rightarrow> True)))"

definition progress_reaches :: "json attachment \<Rightarrow> progress \<Rightarrow> bool" where
  "progress_reaches a p \<longleftrightarrow>
     (case p of
        Blocked wt fs \<Rightarrow> task_reaches a wt fs \<and> (fs = [] \<longrightarrow> (\<exists>k. wt = OnCall k))
      | Finished r \<Rightarrow> (case r of Inl e \<Rightarrow> True | Inr v \<Rightarrow> kind_of v \<noteq> KHost))"

text \<open>The attachment and the log are right, and what has been connected stays known.\<close>

definition base_reaches :: "session_world \<Rightarrow> bool" where
  "base_reaches w \<longleftrightarrow> current_reaches (se_attachment w) \<and>
     list_all (\<lambda>(ws, h, c). reaches (se_attachment w) ws h) (se_calls w)"

definition keeps_reach :: "session_world \<Rightarrow> session_world \<Rightarrow> bool" where
  "keeps_reach w w' \<longleftrightarrow> base_reaches w' \<and> set (wa_subs (se_attachment w)) \<subseteq> set (wa_subs (se_attachment w'))"

definition call_reaches :: "session_world \<Rightarrow> session_world \<times> progress \<Rightarrow> bool" where
  "call_reaches w p \<longleftrightarrow> keeps_reach w (fst p) \<and> progress_reaches (se_attachment (fst p)) (snd p)"

lemma reaches_mono: "set (wa_subs a) \<subseteq> set (wa_subs b) \<Longrightarrow> reaches a ws h \<Longrightarrow> reaches b ws h"
  by (auto simp: reaches_def)

lemma task_reaches_mono: "set (wa_subs a) \<subseteq> set (wa_subs b) \<Longrightarrow> task_reaches a wt fs \<Longrightarrow> task_reaches b wt fs"
  by (auto simp: task_reaches_def frame_reaches_def intro: reaches_mono
      split: wait.split sum.split outcome_value.split list.split option.split)

lemma attached_reaches: "current_reaches a \<Longrightarrow> attached (Some ws) a = Some h \<Longrightarrow> reaches a ws h"
  by (auto simp: current_reaches_def attached_def reaches_def split: option.splits prod.splits if_splits)

lemma attach_keeps:
  assumes "current_reaches a" and "attach ws a = (b, r)"
  shows "current_reaches b" "wa_subs b = wa_subs a"
    "case r of AlreadyAttached h \<Rightarrow> reaches b ws h | Connecting g \<Rightarrow> True"
  using assms
  by (auto simp: attach_def begin_attach_def current_reaches_def reaches_def Let_def split: option.splits prod.splits if_splits)

lemma keeps_same:
  "base_reaches w \<Longrightarrow> se_attachment w' = se_attachment w \<Longrightarrow> se_calls w' = se_calls w \<Longrightarrow> keeps_reach w w'"
  by (simp add: keeps_reach_def base_reaches_def)

lemma keeps_call:
  "base_reaches w \<Longrightarrow> reaches (se_attachment w) ws h \<Longrightarrow> se_attachment w' = se_attachment w \<Longrightarrow>
   se_calls w' = se_calls w @ [(ws, h, c)] \<Longrightarrow> keeps_reach w w'"
  by (simp add: keeps_reach_def base_reaches_def)

lemma attach_then_reaches:
  "base_reaches w \<Longrightarrow> frame_workspace f = Some ws \<Longrightarrow> call_reaches w (attach_then ws [f] w)"
  using attach_keeps [of "se_attachment w" ws]
  by (auto simp: attach_then_def call_reaches_def keeps_reach_def base_reaches_def progress_reaches_def task_reaches_def
      frame_reaches_def frame_meant_def reaches_def list_all_iff split: prod.split attach_outcome.split)

lemma services_keep [simp]:
  "se_attachment (call_provider pc w) = se_attachment w" "se_calls (call_provider pc w) = se_calls w"
  "se_attachment (ws_fire w) = se_attachment w" "se_calls (ws_fire w) = se_calls w"
  "se_attachment (select_active i w) = se_attachment w" "se_calls (select_active i w) = se_calls w"
  "se_attachment (clear_active w) = se_attachment w" "se_calls (clear_active w) = se_calls w"
  "se_attachment (created i t w) = se_attachment w" "se_calls (created i t w) = se_calls w"
  "se_attachment (call_host ws h c w) = se_attachment w" "se_calls (call_host ws h c w) = se_calls w @ [(ws, h, c)]"
  by (simp_all add: call_provider_def ws_fire_def select_active_def clear_active_def hear_active_def created_def call_host_def
      Let_def split: option.split)

lemma host_calls_reach:
  assumes "base_reaches w"
  shows "reaches (se_attachment w) (si_workspace i) h \<Longrightarrow> call_reaches w (attach_on_host i h w)"
    "reaches (se_attachment w) (si_workspace i) h \<Longrightarrow> call_reaches w (send_on_host i h w)"
  using assms
  by (auto simp: attach_on_host_def send_on_host_def call_reaches_def progress_reaches_def task_reaches_def Let_def
      split: prod.split intro: keeps_call keeps_same)

lemma turn_host_reaches:
  "base_reaches w \<Longrightarrow> turn_and_host i w = Some (t, h) \<Longrightarrow> reaches (se_attachment w) (si_workspace i) h"
  by (auto simp: turn_and_host_def base_reaches_def intro: attached_reaches split: option.splits if_splits)

lemma calls_reach:
  assumes b: "base_reaches w"
  shows "call_reaches w (create_session ws t p w)" "call_reaches w (attach_session i w)" "call_reaches w (send_session i w)"
    "call_reaches w (cancel_session i w)" "call_reaches w (reload_workspaces w)" "call_reaches w (make_workspace input w)"
    "call_reaches w (load_build_logs ws w)" "call_reaches w (select_workspace ws sr w)"
proof -
  have c: "current_reaches (se_attachment w)" using b by (simp add: base_reaches_def)
  have no: "call_reaches w (w, Finished r)" if "case r of Inl e \<Rightarrow> True | Inr v \<Rightarrow> kind_of v \<noteq> KHost" for r
    using b that by (simp add: call_reaches_def keeps_same progress_reaches_def)
  note a = attach_then_reaches [OF b] and h = host_calls_reach [OF b attached_reaches [OF c]]
  show "call_reaches w (create_session ws t p w)" "call_reaches w (select_workspace ws sr w)"
    using a no by (simp_all add: create_session_def select_workspace_def)
  show "call_reaches w (attach_session i w)" "call_reaches w (send_session i w)"
    using a h no by (simp_all add: attach_session_def send_session_def split: option.split)
  show "call_reaches w (cancel_session i w)"
  proof (cases "turn_and_host i w")
    case None
    then show ?thesis using no by (simp add: cancel_session_def)
  next
    case (Some x)
    obtain t h where x: "x = (t, h)" by fastforce
    show ?thesis using keeps_call [OF b turn_host_reaches [OF b Some [unfolded x]]]
      by (simp add: cancel_session_def Some x call_reaches_def progress_reaches_def task_reaches_def)
  qed
  show "call_reaches w (reload_workspaces w)" "call_reaches w (make_workspace input w)" "call_reaches w (load_build_logs ws w)"
    using b no by (simp_all add: reload_workspaces_def make_workspace_def load_build_logs_def call_reaches_def progress_reaches_def
        task_reaches_def keeps_same split: option.split)
qed

lemma loads_reach: "base_reaches w \<Longrightarrow> call_reaches w (select_on_host n ws sr h w)"
  by (auto simp: select_on_host_def call_reaches_def progress_reaches_def task_reaches_def ws_fire_def Let_def
      intro: keeps_same split: prod.split)

lemma keeps_reach_trans: "keeps_reach u v \<Longrightarrow> keeps_reach v w \<Longrightarrow> keeps_reach u w"
  by (auto simp: keeps_reach_def)

lemma frame_calls_reach:
  assumes b: "base_reaches w" and k: "kind_of v = frame_in f" and h: "\<And>h. v = VHost h \<Longrightarrow> frame_reaches (se_attachment w) (f # fs) h"
  shows "call_reaches w (run_frame n f v w)"
proof -
  have v: "frame_in f = KHost \<Longrightarrow> v = VHost (host_in v)" using k by (cases v) (auto simp: host_in_def)
  have r: "reaches (se_attachment w) ws (host_in v)" if "frame_workspace f = Some ws" for ws
  proof -
    have "frame_in f = KHost" using that by (cases f) auto
    from h [OF v [OF this]] that show ?thesis by (simp add: frame_reaches_def)
  qed
  show ?thesis
  proof (cases f)
    case (CreateOnHost ws t p)
    with r keeps_call [OF b] show ?thesis by (simp add: call_reaches_def progress_reaches_def task_reaches_def)
  next
    case (CommandOnCreated c)
    show ?thesis
    proof (cases c)
      case (Some x)
      let ?w = "w\<lparr>se_chat := fst (cs_update (session_in v) (all_changes x) (se_chat w))\<rparr>"
      have "keeps_reach w ?w" using b by (intro keeps_same) simp_all
      moreover from this have "call_reaches ?w (send_session (session_in v) ?w)"
        by (intro calls_reach) (simp add: keeps_reach_def)
      ultimately show ?thesis unfolding CommandOnCreated run_frame.simps command_created_def Some Let_def option.case
        by (auto simp: call_reaches_def progress_reaches_def intro: keeps_reach_trans simp del: select_convs)
    qed (use b in \<open>simp add: CommandOnCreated command_created_def call_reaches_def keeps_same progress_reaches_def\<close>)
  qed (use b r host_calls_reach [OF b] calls_reach [OF b] loads_reach [OF b] in
      \<open>auto simp: call_reaches_def keeps_same progress_reaches_def task_reaches_def reload_workspaces_def Let_def\<close>)
qed

definition tasks_reach :: "session_world \<Rightarrow> bool" where
  "tasks_reach w \<longleftrightarrow> base_reaches w \<and> list_all (\<lambda>(n, wt, fs). task_reaches (se_attachment w) wt fs) (se_tasks w)"

lemma tasks_reach_get:
  "tasks_reach w \<Longrightarrow> om_get (se_tasks w) n = Some (wt, fs) \<Longrightarrow> task_reaches (se_attachment w) wt fs"
  unfolding tasks_reach_def list_all_iff by (metis (no_types, lifting) case_prodD map_of_SomeD)

lemma tasks_reachI:
  assumes "tasks_reach w" and k: "keeps_reach w w'" and
    "\<And>n wt fs. (n, wt, fs) \<in> set (se_tasks w') \<Longrightarrow> (n, wt, fs) \<in> set (se_tasks w) \<or> task_reaches (se_attachment w') wt fs"
  shows "tasks_reach w'"
proof -
  have old: "task_reaches (se_attachment w') wt fs" if "(n, wt, fs) \<in> set (se_tasks w)" for n wt fs
  proof (rule task_reaches_mono)
    show "set (wa_subs (se_attachment w)) \<subseteq> set (wa_subs (se_attachment w'))" using k by (simp add: keeps_reach_def)
    show "task_reaches (se_attachment w) wt fs" using assms(1) that unfolding tasks_reach_def list_all_iff by fast
  qed
  have "task_reaches (se_attachment w') wt fs" if "(n, wt, fs) \<in> set (se_tasks w')" for n wt fs
    using assms(3) [OF that] old by blast
  with k show ?thesis unfolding tasks_reach_def list_all_iff keeps_reach_def by blast
qed

lemma tasks_reach_subset:
  "tasks_reach w \<Longrightarrow> keeps_reach w w' \<Longrightarrow> set (se_tasks w') \<subseteq> set (se_tasks w) \<Longrightarrow> tasks_reach w'"
  by (rule tasks_reachI) auto

lemma tasks_reach_set:
  assumes "tasks_reach w" and "keeps_reach w w'" and "se_tasks w' = om_set n (wt, fs) (se_tasks w)"
    and "task_reaches (se_attachment w') wt fs"
  shows "tasks_reach w'"
proof (rule tasks_reachI [OF assms(1,2)])
  fix m wt' fs' assume "(m, wt', fs') \<in> set (se_tasks w')"
  then have "(m, wt', fs') \<in> set (om_set n (wt, fs) (se_tasks w))" by (simp only: assms(3))
  from subsetD [OF set_om_set this] show "(m, wt', fs') \<in> set (se_tasks w) \<or> task_reaches (se_attachment w') wt' fs'"
    using assms(4) by auto
qed

lemma progress_task_reaches:
  assumes "progress_reaches a p"
  shows "task_reaches a (fst (task_of p fs)) (snd (task_of p fs))"
proof (cases p)
  case (Blocked wt gs)
  with assms show ?thesis
    by (cases gs) (auto simp: progress_reaches_def task_reaches_def frame_reaches_def frame_meant_def
        split: wait.split sum.split outcome_value.split)
next
  case (Finished r)
  with assms show ?thesis by (auto simp: progress_reaches_def task_reaches_def split: sum.split outcome_value.split)
qed

lemma reach_begin:
  assumes t: "tasks_reach w" and c: "call_reaches w p" and k: "se_tasks (fst p) = se_tasks w"
  shows "tasks_reach (begin_task fs p)"
proof (rule tasks_reach_set [OF t])
  show "keeps_reach w (begin_task fs p)" using c by (simp add: call_reaches_def begin_task_eq keeps_reach_def base_reaches_def)
  show "se_tasks (begin_task fs p) = om_set (se_next (fst p)) (fst (task_of (snd p) fs), snd (task_of (snd p) fs)) (se_tasks w)"
    using k by (simp add: begin_task_eq)
  show "task_reaches (se_attachment (begin_task fs p)) (fst (task_of (snd p) fs)) (snd (task_of (snd p) fs))"
    using c progress_task_reaches by (simp add: begin_task_eq call_reaches_def)
qed

lemma reach_resume:
  assumes t: "tasks_reach w" and y: "tasks_typed w"
  shows "tasks_reach (resume_task n w)"
proof (cases "om_get (se_tasks w) n")
  case (Some x)
  obtain wt fs where x: "x = (wt, fs)" by fastforce
  have b: "base_reaches w" using t by (simp add: tasks_reach_def)
  show ?thesis
  proof (cases wt)
    case (Settled r)
    show ?thesis
    proof (cases fs)
      case Nil
      have "set (om_del n (se_tasks w)) \<subseteq> set (se_tasks w)" by (rule set_om_del)
      then show ?thesis
        by (intro tasks_reach_subset [OF t]) (simp_all add: resume_task_def Some x Settled Nil keeps_same b)
    next
      case (Cons f gs)
      obtain w' p where c: "continue_frame n f r w = (w', p)" by fastforce
      have "keeps_reach w w' \<and> task_reaches (se_attachment w') (fst (task_of p gs)) (snd (task_of p gs))"
      proof (cases r)
        case (Inl e)
        with c b show ?thesis by (auto simp: continue_frame_def keeps_same task_reaches_def)
      next
        case (Inr v)
        have "task_typed (wt, fs)" using tasks_typed_get [OF y Some] by (simp add: x)
        then have "kind_of v = frame_in f" by (auto simp: Settled Cons Inr task_typed_def split: if_splits)
        moreover have "frame_reaches (se_attachment w) (f # gs) h" if "v = VHost h" for h
          using tasks_reach_get [OF t Some [unfolded x]] that by (simp add: Settled Cons Inr task_reaches_def)
        ultimately have "call_reaches w (run_frame n f v w)" by (rule frame_calls_reach [OF b])
        with c progress_task_reaches show ?thesis by (simp add: continue_frame_def Inr call_reaches_def)
      qed
      moreover have "se_tasks w' = se_tasks w" using c tasks_kept_by_frames [of n f r w] by simp
      ultimately show ?thesis
        by (intro tasks_reach_set [OF t, of _ n "fst (task_of p gs)" "snd (task_of p gs)"])
          (auto simp: resume_task_eq Some x Settled Cons c set_task_def keeps_reach_def base_reaches_def)
    qed
  qed (use t in \<open>simp_all add: resume_task_def Some x\<close>)
qed (use t in \<open>simp add: resume_task_def\<close>)

lemma connected_keeps:
  assumes "current_reaches a" and "connected g (ws, r) a = (b, res)"
  shows "current_reaches b" "set (wa_subs a) \<subseteq> set (wa_subs b)" "res = AttachedHost h \<Longrightarrow> reaches b ws h"
  using assms
  by (auto simp: connected_def close_host_def current_reaches_def reaches_def Let_def split: sum.splits if_splits option.splits)

lemma reach_settle:
  assumes t: "tasks_reach w" and k: "keeps_reach w w'" and "se_tasks w' = se_tasks w"
    and "task_reaches (se_attachment w') (Settled r) fs"
  shows "tasks_reach (set_task n (Settled r) fs w')"
  by (rule tasks_reach_set [OF t, of _ n "Settled r" fs])
    (use assms in \<open>simp_all add: set_task_def keeps_reach_def base_reaches_def\<close>)

lemma reach_connect:
  assumes t: "tasks_reach w"
  shows "tasks_reach (connect_settles n r w)"
proof (cases "\<exists>g ws fs. om_get (se_tasks w) n = Some (OnConnect g ws, fs)")
  case True
  then obtain g ws fs where g: "om_get (se_tasks w) n = Some (OnConnect g ws, fs)" by blast
  obtain a res where c: "connected g (ws, r) (se_attachment w) = (a, res)" by fastforce
  have b: "base_reaches w" using t by (simp add: tasks_reach_def)
  then have cur: "current_reaches (se_attachment w)" by (simp add: base_reaches_def)
  note keep = connected_keeps [OF cur c]
  have "keeps_reach w (w\<lparr>se_attachment := a\<rparr>)"
    using b keep(1,2) by (auto simp: keeps_reach_def base_reaches_def list_all_iff intro: reaches_mono)
  moreover have "frame_meant fs ws" using tasks_reach_get [OF t g] by (simp add: task_reaches_def)
  then have "task_reaches a (Settled (attach_outcome res)) fs"
    using keep(3) by (cases res) (auto simp: task_reaches_def frame_reaches_def frame_meant_def split: list.splits option.splits)
  ultimately show ?thesis
    unfolding connect_settles_def g c option.case prod.case wait.case
    by (intro reach_settle [OF t]) simp_all
next
  case False
  then show ?thesis using t by (auto simp: connect_settles_def split: option.split wait.split)
qed

lemma reach_call:
  assumes t: "tasks_reach w"
  shows "tasks_reach (call_settles n r w)"
proof -
  have b: "base_reaches w" using t by (simp add: tasks_reach_def)
  have "task_reaches a (Settled r) fs" if "om_get (se_tasks w) n = Some (OnCall k, fs)" and "case r of Inl e \<Rightarrow> True | Inr v \<Rightarrow> kind_of v = k"
    for k fs a
    using tasks_reach_get [OF t that(1)] that(2) by (auto simp: task_reaches_def split: sum.splits outcome_value.split)
  then show ?thesis using t
    by (auto simp: call_settles_def split: option.split wait.split intro!: reach_settle [OF t] keeps_same [OF b])
qed

lemma reach_unit:
  assumes t: "tasks_reach w" and "se_attachment w' = se_attachment w" "se_calls w' = se_calls w" "se_tasks w' = se_tasks w"
  shows "tasks_reach w'"
  using t by (simp add: tasks_reach_def base_reaches_def assms(2-4))

lemma reach_loads:
  assumes t: "tasks_reach w"
  shows "tasks_reach (load_settles uri n l w)" "tasks_reach (reattach_settles n rs w)"
proof -
  have settle: "tasks_reach (settle_loads n x w')"
    if "se_attachment w' = se_attachment w" "se_calls w' = se_calls w" "se_tasks w' = se_tasks w"
      and "case x of Inl e \<Rightarrow> True | Inr v \<Rightarrow> kind_of v = KUnit" for w' x
  proof -
    have t': "tasks_reach w'" by (rule reach_unit [OF t that(1-3)])
    then have "keeps_reach w' w'" by (simp add: tasks_reach_def keeps_same)
    moreover have "task_reaches a (Settled x) fs" for a fs
      using that(4) by (auto simp: task_reaches_def split: sum.splits outcome_value.split)
    ultimately show ?thesis using t'
      by (auto simp: settle_loads_def split: option.split wait.split intro!: reach_settle [OF t'])
  qed
  show "tasks_reach (load_settles uri n l w)" "tasks_reach (reattach_settles n rs w)"
    using t by (auto simp: load_settles_def reattach_settles_def Let_def split: option.split prod.split sum.split
        intro!: settle intro: reach_unit)
qed

lemma closed_keeps:
  assumes "current_reaches a"
  shows "current_reaches (host_closed h a)" "wa_subs (host_closed h a) = wa_subs a"
    "current_reaches (detach a)" "wa_subs (detach a) = wa_subs a"
proof -
  have one: "wa_subs (deliver_close b x) = wa_subs x \<and> wa_current (deliver_close b x) \<in> {None, wa_current x}"
    for b and x :: "json attachment"
    by (simp add: deliver_close_def)
  have "wa_subs (fold deliver_close bs x) = wa_subs x \<and> wa_current (fold deliver_close bs x) \<in> {None, wa_current x}"
    for bs and x :: "json attachment"
  proof (induction bs arbitrary: x)
    case (Cons b bs)
    from Cons.IH [of "deliver_close b x"] one [of b x] show ?case by auto
  qed simp
  from this [of "filter (\<lambda>b. sb_host b = h) (wa_subs a)" "close_host h a"]
  show "current_reaches (host_closed h a)" "wa_subs (host_closed h a) = wa_subs a"
    using assms by (auto simp: host_closed_def close_host_def current_reaches_def reaches_def split: option.splits)
  show "current_reaches (detach a)" "wa_subs (detach a) = wa_subs a"
    by (simp_all add: detach_def current_reaches_def)
qed

lemma reach_attachment:
  assumes t: "tasks_reach w" and "current_reaches a" "wa_subs a = wa_subs (se_attachment w)"
  shows "tasks_reach (w\<lparr>se_attachment := a\<rparr>)"
proof (rule tasks_reach_subset [OF t])
  have "list_all (\<lambda>(ws, h, c). reaches a ws h) (se_calls w)"
    using t assms(3) by (auto simp: tasks_reach_def base_reaches_def list_all_iff reaches_def)
  then show "keeps_reach w (w\<lparr>se_attachment := a\<rparr>)" using assms(2,3) by (simp add: keeps_reach_def base_reaches_def)
qed simp

lemma reach_outside:
  assumes t: "tasks_reach w"
  shows "tasks_reach (host_closes h w)" "tasks_reach (w\<lparr>se_attachment := detach (se_attachment w)\<rparr>)"
    "tasks_reach (confirm_session_call i chat call ok w)"
proof -
  have b: "base_reaches w" using t by (simp add: tasks_reach_def)
  then have c: "current_reaches (se_attachment w)" by (simp add: base_reaches_def)
  have "tasks_reach (workspace_closed ws v)" if "tasks_reach v" for ws v
    by (rule reach_unit [OF that]) (simp_all add: workspace_closed_def)
  then have "tasks_reach (fold workspace_closed xs v)" if "tasks_reach v" for xs v
    using fold_keeps [where P = tasks_reach and xs = xs] that by blast
  then show "tasks_reach (host_closes h w)"
    using reach_attachment [OF t closed_keeps(1,2) [OF c]] by (simp add: host_closes_def Let_def)
  show "tasks_reach (w\<lparr>se_attachment := detach (se_attachment w)\<rparr>)"
    by (rule reach_attachment [OF t closed_keeps(3,4) [OF c]])
  show "tasks_reach (confirm_session_call i chat call ok w)"
  proof (cases "turn_and_host i w")
    case (Some x)
    obtain tn h where x: "x = (tn, h)" by fastforce
    show ?thesis unfolding confirm_session_call_def Some x option.case prod.case
      by (rule tasks_reach_subset [OF t keeps_call [OF b turn_host_reaches [OF b Some [unfolded x]]]]) simp_all
  qed (use t in \<open>simp add: confirm_session_call_def\<close>)
qed

lemma reach_handlers:
  assumes t: "tasks_reach w" and h: "one_of_handlers k hdl"
  shows "tasks_reach (fst (hdl args w))"
proof -
  have b: "base_reaches w" using t by (simp add: tasks_reach_def)
  note go = reach_begin [OF t calls_reach(1) [OF b]] reach_begin [OF t calls_reach(3) [OF b]] reach_begin [OF t calls_reach(4) [OF b]]
  have none: "tasks_reach (begin_task fs (nothing_to_do w))" for fs
    by (rule reach_begin [OF t]) (use b in \<open>simp_all add: call_reaches_def keeps_same progress_reaches_def\<close>)
  have sel: "tasks_reach (select_active i w)" for i by (rule reach_unit [OF t]) simp_all
  have opened: "tasks_reach (begin_task fs (select_workspace ws sr (select_active i w)))" for fs ws sr i
    by (rule reach_begin [OF sel [of i] calls_reach(8)]) (use sel in \<open>simp_all add: tasks_reach_def\<close>)
  have targets: "tasks_reach (fst (for_targets act v w))" for act v
    using t by (auto simp: for_targets_def split: option.split intro: reach_unit)
  show ?thesis using handlers_are [OF h] go none opened targets reach_outside(3) [OF t] reach_unit [OF t] t
    by (elim insertE emptyE)
      (simp_all add: new_command_def create_command_def open_command_def send_command_def cancel_command_def confirm_command_def
        pin_command_def archive_command_def mark_read_command_def filter_command_def Let_def split: option.split)
qed

lemma reach_step:
  assumes t: "tasks_reach w" and y: "tasks_typed w"
  shows "tasks_reach (apply_session uri e w)"
proof (cases e)
  case (StCommand k args)
  show ?thesis
  proof (rule command_cases [of k args w])
    fix hdl assume "one_of_handlers k hdl" "fst (execute_command k args session_registry w) = fst (hdl args w)"
    then show ?thesis using reach_handlers [OF t] by (simp add: StCommand)
  qed (use t in \<open>simp add: StCommand\<close>)
next
  case (StCompose i ch)
  show ?thesis unfolding StCompose by (rule reach_unit [OF t]) simp_all
next
  case (StTurn i tn)
  show ?thesis unfolding StTurn by (rule reach_unit [OF t]) simp_all
qed (use t reach_resume [OF t y] reach_connect [OF t] reach_call [OF t] reach_loads [OF t] reach_outside [OF t]
      reach_begin [OF t calls_reach(1)] reach_begin [OF t calls_reach(2)] reach_begin [OF t calls_reach(3)]
      reach_begin [OF t calls_reach(4)] reach_begin [OF t calls_reach(5)] reach_begin [OF t calls_reach(6)]
      reach_begin [OF t calls_reach(7)] reach_begin [OF t calls_reach(8)] in \<open>simp_all add: tasks_reach_def\<close>)

text \<open>
  C6: no call that is meant for a session of one workspace reaches the host of another: whatever
  workspaces are attached, superseded, closed and reopened while functions wait, every call goes
  to a host that was connected for its own workspace.  (An empty workspace id stands for any.)
\<close>

theorem calls_reach_their_workspace:
  "let w = fold (apply_session uri) es (new_session_world l st)
   in list_all (\<lambda>(ws, h, c). ws = [] \<or> list_ex (\<lambda>b. sb_host b = h \<and> sb_workspace b = ws) (wa_subs (se_attachment w))) (se_calls w)"
proof -
  let ?w = "fold (apply_session uri) es (new_session_world l st)"
  have "tasks_typed ?w \<and> tasks_reach ?w"
  proof (rule fold_keeps [where P = "\<lambda>w. tasks_typed w \<and> tasks_reach w"])
    show "tasks_typed (new_session_world l st) \<and> tasks_reach (new_session_world l st)"
      by (simp add: tasks_typed_def tasks_reach_def base_reaches_def current_reaches_def new_session_world_def on_close_def new_attachment_def)
  qed (use typed_step reach_step in blast)
  then show ?thesis by (simp add: tasks_reach_def base_reaches_def reaches_def list_ex_iff Bex_def Let_def)
qed

section \<open>What is typed while a message is sent is lost\<close>

lemma composition_after_update: "snd (cs_composition i (fst (cs_update i ch s))) = spread (snd (cs_composition i s)) ch"
  by (simp add: cs_update_def cs_composition_def cs_persist_def Let_def split: option.split prod.split)

text \<open>
  A message is sent as it was when the host was found, and when the host has taken it the
  draft is emptied, whatever it is by then: what was typed in the meantime is lost without being
  sent.
\<close>

theorem typing_while_sending_is_lost:
  assumes "running (si_workspace i) w" and "attached (Some (si_workspace i)) (se_attachment w) = Some h"
    and "cs_composition i (se_chat w) = (chat, c)" and "js_trim (cc_draft c) \<noteq> []"
  shows "let w' = fold (apply_session uri) [StSend i, StCompose i (no_changes\<lparr>ch_draft := Some typed\<rparr>),
                    StCall (se_next w) (Inr VUnit), StResume (se_next w)] w
    in se_calls w' = se_calls w @ [(si_workspace i, h, PromptSession (si_resource i) (prompt_of c))] \<and>
       cc_draft (snd (cs_composition i (se_chat w'))) = []"
  using assms
  by (simp add: send_session_def send_on_host_def call_host_def call_settles_def set_task_def resume_task_def continue_frame_def
      cs_clear_after_send_def composition_after_update spread_def or_else_def no_changes_def Let_def)

theorem typing_while_sending_is_lost_witness:
  "let i = \<lparr>si_workspace = ''w'', si_resource = ''s''\<rparr>;
       chat = fst (cs_update i (no_changes\<lparr>ch_draft := Some ''hi''\<rparr>) (new_chat_sessions None));
       w = (new_session_world (new_layout None) None)\<lparr>
             se_workspaces := [\<lparr>wk_id = ''w'', wk_name = ''w'', wk_desired = ''running'', wk_observed = ''running'', wk_agent_host = ''online'', wk_build = []\<rparr>],
             se_attachment := new_attachment\<lparr>wa_current := Some (''w'', 5)\<rparr>, se_chat := chat\<rparr>;
       w' = fold (apply_session (\<lambda>p b. Some p)) [StSend i, StCompose i (no_changes\<lparr>ch_draft := Some ''and more''\<rparr>),
              StCall (se_next w) (Inr VUnit), StResume (se_next w)] w
   in length (se_calls w') = 1 \<and> cc_draft (snd (cs_composition i (se_chat w'))) = []"
proof -
  define i where "i = \<lparr>si_workspace = ''w'', si_resource = ''s''\<rparr>"
  define chat where "chat = fst (cs_update i (no_changes\<lparr>ch_draft := Some ''hi''\<rparr>) (new_chat_sessions None))"
  define w where "w = (new_session_world (new_layout None) None)\<lparr>
      se_workspaces := [\<lparr>wk_id = ''w'', wk_name = ''w'', wk_desired = ''running'', wk_observed = ''running'', wk_agent_host = ''online'', wk_build = []\<rparr>],
      se_attachment := new_attachment\<lparr>wa_current := Some (''w'', 5)\<rparr>, se_chat := chat\<rparr>"
  have r: "running (si_workspace i) w" by (simp add: running_def is_workspace_running_def w_def i_def)
  have a: "attached (Some (si_workspace i)) (se_attachment w) = Some 5"
    by (simp add: attached_def w_def i_def is_closed_def new_attachment_def)
  have "cc_draft (snd (cs_composition i (se_chat w))) = ''hi''"
    by (simp add: w_def chat_def composition_after_update spread_def or_else_def no_changes_def)
  moreover have "js_trim ''hi'' \<noteq> []" using js_trim_keep [of "CHR ''h''" "CHR ''i''" "[]"] by (simp add: visible_char_def)
  ultimately have d: "js_trim (cc_draft (snd (cs_composition i (se_chat w)))) \<noteq> []" by simp
  have "se_calls w = []" by (simp add: w_def new_session_world_def)
  with typing_while_sending_is_lost [OF r a prod.collapse [symmetric] d, of "\<lambda>p b. Some p" "''and more''"]
  show ?thesis unfolding Let_def w_def chat_def i_def by simp
qed

text \<open>
  Sending again before the host has taken the message sends it again.
\<close>

theorem second_send_repeats_message:
  assumes "running (si_workspace i) w" and "attached (Some (si_workspace i)) (se_attachment w) = Some h"
    and "cs_composition i (se_chat w) = (chat, c)" and "js_trim (cc_draft c) \<noteq> []"
  shows "let p = (si_workspace i, h, PromptSession (si_resource i) (prompt_of c))
    in se_calls (fold (apply_session uri) [StSend i, StSend i] w) = se_calls w @ [p, p]"
proof -
  have "cs_composition i chat = (chat, c)"
    using assms(3) by (auto simp: cs_composition_def Let_def split: option.splits)
  then show ?thesis using assms
    by (simp add: send_session_def send_on_host_def call_host_def running_def Let_def)
qed

section \<open>A session that is still opening takes the window back\<close>

definition identity_json :: "session_identity \<Rightarrow> json" where
  "identity_json i = JObj [(''workspaceID'', JStr (si_workspace i)), (''resource'', JStr (si_resource i))]"

lemma identity_of_json [simp]: "identity_of (identity_json i) = i"
  by (simp add: identity_of_def identity_json_def str_field_def string_value_def)

lemma open_runs:
  "fst (execute_command ''zaw.session.open'' [identity_json i] session_registry w) =
   begin_task [CommandOnSelected i] (attach_then (si_workspace i) [SelectOnHost (si_workspace i) (Some (si_resource i))] (select_active i w))"
proof -
  have "om_get (cmds session_registry) ''zaw.session.open'' =
      Some \<lparr>rc_descriptor = \<lparr>cm_id = ''zaw.session.open'', cm_category = Some ''Session'', cm_precondition = None,
              cm_validate = Some (\<lambda>args. is_session_identity (argument 0 args))\<rparr>, rc_handler = open_command\<rparr>"
    by (simp add: session_registry_def register_session_commands_def session_commands_def register_command_def
        new_command_registry_def om_has_def)
  moreover have "is_session_identity (argument 0 [identity_json i])"
    by (simp add: is_session_identity_def is_object_def identity_json_def argument_def at_index_def)
  ultimately show ?thesis
    by (simp add: execute_command_def open_command_def select_workspace_def argument_def at_index_def Let_def)
qed

lemma selected_frame [simp]:
  "se_next (select_active i w) = se_next w" "se_loads (select_active i w) = se_loads w"
  "se_reattaches (select_active i w) = se_reattaches w" "active_of (select_active i w) = Some i"
  "se_next (ws_fire w) = se_next w" "se_terminals (select_active i w) = se_terminals w"
  by (simp_all add: select_active_def hear_active_def hear_def active_select_def active_of_def ws_fire_def Let_def split: option.split)

lemma active_of_cong: "se_nav w' = se_nav w \<Longrightarrow> active_of w' = active_of w"
  by (simp add: active_of_def)

text \<open>
  C36: while a session is being opened, its resources loaded and only its terminals not answered
  yet, the user opens a session of another workspace; when the terminals of the first workspace
  settle before the second is connected, the first open goes on: it attaches its own workspace
  again, the second open fails as superseded, and the first session ends up active although the
  second was asked for last.
\<close>

theorem overtaken_open_takes_over:
  assumes "om_get (se_tasks w) n = Some (OnLoads, [SelectOnLoaded, CommandOnSelected a])" and "n < se_next w"
    and "find (\<lambda>l. fst l = n) (se_loads w) = None" and "find (\<lambda>l. fst l = n) (se_reattaches w) = Some (n, r)"
    and "si_workspace a \<noteq> si_workspace b" and "wa_current (se_attachment w) = Some (si_workspace a, h)"
  shows "let m = se_next w;
      w1 = fold (apply_session uri) [StCommand ''zaw.session.open'' [identity_json b], StReattach n rs, StResume n, StResume n, StConnect m (Inr k)] w;
      w2 = fold (apply_session uri) [StConnect n (Inr j), StResume n, StCall n (Inr VUnit), StResume n] w1
    in (\<exists>fs. om_get (se_tasks w1) m = Some (Settled (Inl ''Workspace attachment was superseded''), fs)) \<and>
       active_of w2 = Some a \<and> attached_workspace (se_attachment w2) = Some (si_workspace a)"
proof -
  define g where "g = wa_generation (se_attachment w)"
  define w1 where "w1 = apply_session uri (StCommand ''zaw.session.open'' [identity_json b]) w"
  have no: "\<not> list_ex (\<lambda>l. fst l = n) (se_loads w)" using assms(3) by (auto simp: list_ex_iff find_None_iff)
  have w1: "om_get (se_tasks w1) n = Some (OnLoads, [SelectOnLoaded, CommandOnSelected a])"
      "om_get (se_tasks w1) (se_next w) = Some (OnConnect (Suc g) (si_workspace b), [SelectOnHost (si_workspace b) (Some (si_resource b)), CommandOnSelected b])"
      "find (\<lambda>l. fst l = n) (se_reattaches w1) = Some (n, r)" "se_loads w1 = se_loads w"
      "wa_current (se_attachment w1) = None" "wa_generation (se_attachment w1) = Suc g"
    using assms by (simp_all add: w1_def open_runs attach_then_def attach_def begin_attach_def Let_def g_def)
  define w2 where "w2 = apply_session uri (StReattach n rs) w1"
  have w2: "om_get (se_tasks w2) n = Some (Settled (Inr VUnit), [SelectOnLoaded, CommandOnSelected a])"
      "om_get (se_tasks w2) (se_next w) = om_get (se_tasks w1) (se_next w)" "se_attachment w2 = se_attachment w1"
    using w1 no assms(2) by (simp_all add: w2_def reattach_settles_def settle_loads_def set_task_def Let_def)
  define w3 where "w3 = apply_session uri (StResume n) w2"
  have w3: "om_get (se_tasks w3) n = Some (Settled (Inr VUnit), [CommandOnSelected a])"
      "om_get (se_tasks w3) (se_next w) = om_get (se_tasks w1) (se_next w)" "se_attachment w3 = se_attachment w1"
    using w2 assms(2) by (simp_all add: w3_def resume_task_def continue_frame_def set_task_def)
  define w4 where "w4 = apply_session uri (StResume n) w3"
  have w4: "om_get (se_tasks w4) n = Some (OnConnect (Suc (Suc g)) (si_workspace a), [AttachOnHost a])"
      "om_get (se_tasks w4) (se_next w) = om_get (se_tasks w1) (se_next w)" "wa_generation (se_attachment w4) = Suc (Suc g)"
      "wa_current (se_attachment w4) = None"
    using w3 w1(5,6) assms(2)
    by (simp_all add: w4_def resume_task_def continue_frame_def set_task_def attach_session_def attached_def attach_then_def attach_def
        begin_attach_def Let_def)
  define w5 where "w5 = apply_session uri (StConnect (se_next w) (Inr k)) w4"
  have w5: "\<exists>fs. om_get (se_tasks w5) (se_next w) = Some (Settled (Inl ''Workspace attachment was superseded''), fs)"
      "om_get (se_tasks w5) n = om_get (se_tasks w4) n" "wa_generation (se_attachment w5) = Suc (Suc g)"
    using w4 w1(2) assms(2) by (simp_all add: w5_def connect_settles_def connected_def close_host_def set_task_def Let_def)
  have "active_of (fold (apply_session uri) [StConnect n (Inr j), StResume n, StCall n (Inr VUnit), StResume n] w5) = Some a \<and>
      attached_workspace (se_attachment (fold (apply_session uri) [StConnect n (Inr j), StResume n, StCall n (Inr VUnit), StResume n] w5)) =
      Some (si_workspace a)"
    using w5(2,3) w4(1)
    by (simp add: connect_settles_def connected_def resume_task_def continue_frame_def attach_on_host_def host_in_def call_host_def
        call_settles_def set_task_def attached_workspace_def Let_def active_of_cong)
  with w5(1) show ?thesis unfolding Let_def w5_def w4_def w3_def w2_def w1_def by simp
qed

lemma open_until_loaded:
  assumes "wa_current (se_attachment w) = None" and "se_loads w = []" and "se_reattaches w = []" and "\<not> unresolvable uri (Inr x)"
  shows "let n = se_next w;
      w' = fold (apply_session uri) [StCommand ''zaw.session.open'' [identity_json a], StConnect n (Inr h), StResume n, StLoad n (Inr x)] w
    in om_get (se_tasks w') n = Some (OnLoads, [SelectOnLoaded, CommandOnSelected a]) \<and> n < se_next w' \<and> se_loads w' = [] \<and>
       find (\<lambda>l. fst l = n) (se_reattaches w') = Some (n, Suc (tm_generation (se_terminals w))) \<and>
       wa_current (se_attachment w') = Some (si_workspace a, h)"
proof -
  define n where "n = se_next w"
  define w1 where "w1 = apply_session uri (StCommand ''zaw.session.open'' [identity_json a]) w"
  have w1: "om_get (se_tasks w1) n = Some (OnConnect (Suc (wa_generation (se_attachment w))) (si_workspace a),
          [SelectOnHost (si_workspace a) (Some (si_resource a)), CommandOnSelected a])"
      "se_next w1 = Suc n" "wa_generation (se_attachment w1) = Suc (wa_generation (se_attachment w))" "se_loads w1 = []"
      "se_reattaches w1 = []" "se_terminals w1 = se_terminals w"
    using assms by (simp_all add: w1_def n_def open_runs attach_then_def attach_def begin_attach_def Let_def)
  define w2 where "w2 = apply_session uri (StConnect n (Inr h)) w1"
  have w2: "om_get (se_tasks w2) n = Some (Settled (Inr (VHost h)), [SelectOnHost (si_workspace a) (Some (si_resource a)), CommandOnSelected a])"
      "se_next w2 = Suc n" "wa_current (se_attachment w2) = Some (si_workspace a, h)" "se_loads w2 = []"
      "se_reattaches w2 = []" "se_terminals w2 = se_terminals w"
    using w1 by (simp_all add: w2_def connect_settles_def connected_def set_task_def Let_def)
  define w3 where "w3 = apply_session uri (StResume n) w2"
  obtain res g where lb: "load_begin (si_workspace a) h (Some (si_resource a)) (se_resources w2) = (res, g)" by fastforce
  have w3: "om_get (se_tasks w3) n = Some (OnLoads, [SelectOnLoaded, CommandOnSelected a])"
      "se_next w3 = Suc n" "wa_current (se_attachment w3) = Some (si_workspace a, h)"
      "se_loads w3 = [(n, si_workspace a, Some (si_resource a), g)]" "se_reattaches w3 = [(n, Suc (tm_generation (se_terminals w)))]"
    using w2 by (simp_all add: w3_def resume_task_def continue_frame_def set_task_def select_on_host_def host_in_def reattach_begin_def
        ws_fire_def Let_def lb)
  define w4 where "w4 = apply_session uri (StLoad n (Inr x)) w3"
  have "om_get (se_tasks w4) n = Some (OnLoads, [SelectOnLoaded, CommandOnSelected a])" "n < se_next w4" "se_loads w4 = []"
      "find (\<lambda>l. fst l = n) (se_reattaches w4) = Some (n, Suc (tm_generation (se_terminals w)))"
      "wa_current (se_attachment w4) = Some (si_workspace a, h)"
    using w3 assms(4) by (simp_all add: w4_def load_settles_def load_throws_def Let_def)
  then show ?thesis unfolding Let_def n_def [symmetric] w4_def w3_def w2_def w1_def by simp
qed

theorem overtaken_open_takes_over_witness:
  "let a = \<lparr>si_workspace = ''a'', si_resource = ''s''\<rparr>; b = \<lparr>si_workspace = ''b'', si_resource = ''t''\<rparr>; uri = (\<lambda>p x. Some p);
       w = fold (apply_session uri) [StCommand ''zaw.session.open'' [identity_json a], StConnect 0 (Inr 1), StResume 0, StLoad 0 (Inr (([], ''c''), []))]
             (new_session_world (new_layout None) None);
       w' = fold (apply_session uri) [StConnect 0 (Inr 3), StResume 0, StCall 0 (Inr VUnit), StResume 0]
             (fold (apply_session uri) [StCommand ''zaw.session.open'' [identity_json b], StReattach 0 [], StResume 0, StResume 0, StConnect (se_next w) (Inr 2)] w)
   in active_of w' = Some a \<and> attached_workspace (se_attachment w') = Some ''a''"
proof -
  define a where "a = \<lparr>si_workspace = ''a'', si_resource = ''s''\<rparr>"
  define b where "b = \<lparr>si_workspace = ''b'', si_resource = ''t''\<rparr>"
  define uri :: "string \<Rightarrow> string option \<Rightarrow> string option" where "uri = (\<lambda>p x. Some p)"
  define w0 where "w0 = new_session_world (new_layout None) None"
  define w where "w = fold (apply_session uri) [StCommand ''zaw.session.open'' [identity_json a], StConnect 0 (Inr 1), StResume 0,
      StLoad 0 (Inr (([], ''c''), []))] w0"
  have w0: "wa_current (se_attachment w0) = None" "se_loads w0 = []" "se_reattaches w0 = []" "se_next w0 = 0"
    by (simp_all add: w0_def new_session_world_def on_close_def new_attachment_def)
  have u: "\<not> unresolvable uri (Inr (([], ''c''), []))" by (simp add: unresolvable_iff)
  from open_until_loaded [OF w0(1-3) u, of a 1]
  have h: "om_get (se_tasks w) 0 = Some (OnLoads, [SelectOnLoaded, CommandOnSelected a])" "0 < se_next w" "se_loads w = []"
    "find (\<lambda>l. fst l = 0) (se_reattaches w) = Some (0, Suc (tm_generation (se_terminals w0)))"
    "wa_current (se_attachment w) = Some (si_workspace a, 1)"
    unfolding Let_def w0(4) w_def by blast+
  have l: "find (\<lambda>l. fst l = 0) (se_loads w) = None" by (simp add: h(3))
  have ab: "si_workspace a \<noteq> si_workspace b" by (simp add: a_def b_def)
  from overtaken_open_takes_over [OF h(1,2) l h(4) ab h(5), of uri "[]" 2 3]
  have "active_of (fold (apply_session uri) [StConnect 0 (Inr 3), StResume 0, StCall 0 (Inr VUnit), StResume 0]
      (fold (apply_session uri) [StCommand ''zaw.session.open'' [identity_json b], StReattach 0 [], StResume 0, StResume 0, StConnect (se_next w) (Inr 2)] w)) = Some a \<and>
    attached_workspace (se_attachment (fold (apply_session uri) [StConnect 0 (Inr 3), StResume 0, StCall 0 (Inr VUnit), StResume 0]
      (fold (apply_session uri) [StCommand ''zaw.session.open'' [identity_json b], StReattach 0 [], StResume 0, StResume 0, StConnect (se_next w) (Inr 2)] w))) = Some (si_workspace a)"
    unfolding Let_def by blast
  then show ?thesis unfolding Let_def w_def w0_def uri_def a_def b_def by simp
qed

end
