(* ===== verification/CatalogSections.thy ===== *)
theory CatalogSections
  imports SessionCatalog Registries
begin

text \<open>
  \<open>packages/workbench/src/contrib/sessions/session-catalog-sections.ts\<close>: how the catalog's
  items are sorted and grouped into the nodes of the sessions list.

  \<open>Date.parse\<close> is the parameter \<open>parse\<close> (milliseconds, \<open>None\<close> for NaN), the start of
  the local day \<open>start_of_day\<close>, \<open>localeCompare\<close> is \<open>lc\<close> and its accent- and
  case-insensitive form \<open>lc_base\<close>.  A comparator that returns NaN counts as \<open>0\<close>, as the
  language says.
\<close>

section \<open>Dates\<close>

datatype date_section = SecPinned | SecToday | SecYesterday | SecWeek | SecOlder | SecArchived

datatype section_kind = DateSection date_section | MoreSection | RepositorySection

datatype grouping = Capped | ByDate | ByRepository

definition section_order :: "date_section list" where
  "section_order = [SecPinned, SecToday, SecYesterday, SecWeek, SecOlder, SecArchived]"

fun section_label :: "section_kind \<Rightarrow> string" where
  "section_label (DateSection SecArchived) = ''Archived''"
| "section_label MoreSection = ''More''"
| "section_label (DateSection SecOlder) = ''Older''"
| "section_label (DateSection SecPinned) = ''Pinned''"
| "section_label RepositorySection = ''Other''"
| "section_label (DateSection SecToday) = ''Today''"
| "section_label (DateSection SecWeek) = ''Previous 7 Days''"
| "section_label (DateSection SecYesterday) = ''Yesterday''"

definition session_date_section ::
  "(string \<Rightarrow> int option) \<Rightarrow> (int \<Rightarrow> int) \<Rightarrow> bool \<Rightarrow> bool \<Rightarrow> int \<Rightarrow> catalog_item \<Rightarrow> date_section" where
  "session_date_section parse start_of_day archived pinned now item =
     (if archived then SecArchived
      else if pinned then SecPinned
      else (case parse (ci_modified item) of
          None \<Rightarrow> SecOlder
        | Some modified \<Rightarrow>
            let today = start_of_day now;
                age = (of_int (today - modified) / 86400000 :: rat)
            in if today \<le> modified then SecToday
               else if age \<le> 1 then SecYesterday
               else if age \<le> 7 then SecWeek
               else SecOlder))"

record section_entry =
  se_item :: catalog_item
  se_repository :: string
  se_section :: date_section

definition or_text :: "string option \<Rightarrow> string \<Rightarrow> string" where
  "or_text x d = (case x of Some s \<Rightarrow> if s \<noteq> [] then s else d | None \<Rightarrow> d)"

definition section_index :: "date_section \<Rightarrow> int" where
  "section_index sec = (case find_index (\<lambda>x. x = sec) section_order of None \<Rightarrow> -1 | Some n \<Rightarrow> int n)"

definition newest_first :: "(string \<Rightarrow> int option) \<Rightarrow> section_entry \<Rightarrow> section_entry \<Rightarrow> int" where
  "newest_first parse l r =
     (case (parse (ci_modified (se_item r)), parse (ci_modified (se_item l))) of
        (Some b, Some a) \<Rightarrow> b - a
      | _ \<Rightarrow> 0)"

definition entry_cmp ::
  "(string \<Rightarrow> int option) \<Rightarrow> (string \<Rightarrow> string \<Rightarrow> int) \<Rightarrow> section_entry \<Rightarrow> section_entry \<Rightarrow> int" where
  "entry_cmp parse lc =
     cmp_then (\<lambda>l r. section_index (se_section l) - section_index (se_section r))
       (cmp_then (\<lambda>l r. lc (se_repository l) (se_repository r)) (newest_first parse))"

record section_options =
  so_archived :: "catalog_item \<Rightarrow> bool"
  so_pinned :: "catalog_item \<Rightarrow> bool"
  so_now :: int
  so_grouping :: grouping
  so_expanded :: "string list"
  so_limit :: nat

definition calculate_sections ::
  "(string \<Rightarrow> int option) \<Rightarrow> (int \<Rightarrow> int) \<Rightarrow> (string \<Rightarrow> string \<Rightarrow> int) \<Rightarrow> section_options \<Rightarrow>
   catalog_item list \<Rightarrow> section_entry list" where
  "calculate_sections parse start_of_day lc opts items =
     js_sort (entry_cmp parse lc)
       (map (\<lambda>i. \<lparr>se_item = i,
                  se_repository = or_text (ci_repository i) (or_text (ci_directory i) (ci_workspace i)),
                  se_section = session_date_section parse start_of_day (so_archived opts i) (so_pinned opts i)
                    (so_now opts) i\<rparr>) items)"

section \<open>Grouping\<close>

datatype catalog_child = ChildSession catalog_item | ShowMore nat string | ShowLess string

datatype catalog_node =
    SessionNode catalog_item
  | SectionNode (node_section: section_kind) (node_label: string) (node_sessions: "catalog_item list")
      (node_children: "catalog_child list")

definition section_node :: "section_kind \<Rightarrow> string \<Rightarrow> catalog_item list \<Rightarrow> catalog_node" where
  "section_node k l xs = SectionNode k l xs (map ChildSession xs)"

text \<open>\<open>raw.replace(/[\\/]+$/, "").replace(/\.git$/i, "")\<close> and its last path segment.\<close>

definition path_sep :: "char \<Rightarrow> bool" where
  "path_sep c \<longleftrightarrow> c = CHR ''/'' \<or> c = CHR 0x5C"

definition strip_git :: "string \<Rightarrow> string" where
  "strip_git s = (if to_lower (last_n 4 s) = ''.git'' then take (length s - 4) s else s)"

definition repository_name :: "catalog_item \<Rightarrow> string option" where
  "repository_name i =
     (let raw = or_text (ci_repository i) (or_text (ci_directory i) []) in
      if raw = [] then None
      else at_last (filter (\<lambda>p. p \<noteq> []) (split_by (\<lambda>c. path_sep c \<or> c = CHR '':'')
             (strip_git (rev (dropWhile path_sep (rev raw)))))))"

definition group_repositories ::
  "section_options \<Rightarrow> section_entry list \<Rightarrow> (string, catalog_item list) omap" where
  "group_repositories opts es =
     fold (\<lambda>e m. let r = (case repository_name (se_item e) of Some n \<Rightarrow> n | None \<Rightarrow> section_label RepositorySection)
                  in om_set r (get_or [] m r @ [se_item e]) m)
       (filter (\<lambda>e. se_section e \<noteq> SecArchived \<and> \<not> so_pinned opts (se_item e)) es) []"

definition repository_node :: "section_options \<Rightarrow> string \<Rightarrow> catalog_item list \<Rightarrow> catalog_node" where
  "repository_node opts label sessions =
     (let expanded = (label \<in> set (so_expanded opts)); limit = so_limit opts;
          visible = (if expanded then sessions else take limit sessions)
      in SectionNode RepositorySection label sessions
           (map ChildSession visible @
            (if limit < length sessions
             then [if expanded then ShowLess label else ShowMore (length sessions - limit) label]
             else [])))"

definition group_catalog ::
  "(string \<Rightarrow> int option) \<Rightarrow> (int \<Rightarrow> int) \<Rightarrow> (string \<Rightarrow> string \<Rightarrow> int) \<Rightarrow> (string \<Rightarrow> string \<Rightarrow> int) \<Rightarrow>
   section_options \<Rightarrow> catalog_item list \<Rightarrow> catalog_node list" where
  "group_catalog parse start_of_day lc lc_base opts items =
     (let entries = calculate_sections parse start_of_day lc opts items in
      case so_grouping opts of
        Capped \<Rightarrow>
          let active = filter (\<lambda>e. se_section e \<noteq> SecArchived) entries;
              pinned = filter (\<lambda>e. so_pinned opts (se_item e)) active;
              unpinned = filter (\<lambda>e. \<not> so_pinned opts (se_item e)) active;
              visible = take 3 unpinned;
              remaining = map se_item (drop 3 unpinned @ filter (\<lambda>e. se_section e = SecArchived) entries)
          in map (SessionNode \<circ> se_item) pinned @ map (SessionNode \<circ> se_item) visible @
             (if remaining \<noteq> [] then [section_node MoreSection (section_label MoreSection) remaining] else [])
      | ByRepository \<Rightarrow>
          let pinned = filter (\<lambda>e. se_section e \<noteq> SecArchived \<and> so_pinned opts (se_item e)) entries;
              repositories = group_repositories opts entries;
              archived = map se_item (filter (\<lambda>e. se_section e = SecArchived) entries)
          in map (SessionNode \<circ> se_item) pinned @
             map (\<lambda>(label, sessions). repository_node opts label sessions)
               (js_sort (\<lambda>l r. lc_base (fst l) (fst r)) repositories) @
             (if archived \<noteq> [] then [section_node (DateSection SecArchived) (section_label (DateSection SecArchived)) archived]
              else [])
      | ByDate \<Rightarrow>
          concat (map (\<lambda>sec.
            let sessions = map se_item (filter (\<lambda>e. se_section e = sec) entries) in
            if sessions \<noteq> [] then [section_node (DateSection sec) (section_label (DateSection sec)) sessions] else [])
            section_order))"

section \<open>Every session appears, once\<close>

fun sessions_of :: "catalog_node \<Rightarrow> catalog_item list" where
  "sessions_of (SessionNode i) = [i]"
| "sessions_of (SectionNode _ _ xs _) = xs"

lemma mset_entries:
  "mset (map se_item (calculate_sections parse sod lc opts items)) = mset items"
  by (simp add: calculate_sections_def multiset.map_comp o_def)

lemma sessions_of_nodes [simp]:
  "sessions_of (section_node k l xs) = xs" "sessions_of (repository_node opts l xs) = xs"
  by (simp_all add: section_node_def repository_node_def Let_def)

lemma concat_session_nodes: "concat (map (sessions_of \<circ> (SessionNode \<circ> f)) xs) = map f xs"
  by (induction xs) auto

lemma mset_map_split:
  "mset (map f xs) = mset (map f (filter P xs)) + mset (map f (filter (\<lambda>x. \<not> P x) xs))"
  by (induction xs) auto

lemma mset_map_take_drop: "mset (map f xs) = mset (map f (take n xs)) + mset (map f (drop n xs))"
  by (metis append_take_drop_id map_append mset_append)

lemma mset_three:
  "mset (map f xs) = mset (map f (filter (\<lambda>x. \<not> A x \<and> B x) xs)) +
     mset (map f (filter (\<lambda>x. \<not> A x \<and> \<not> B x) xs)) + mset (map f (filter A xs))"
  by (induction xs) auto

lemma values_om_set_append:
  "om_wf m \<Longrightarrow> mset (concat (om_values (om_set k (get_or [] m k @ [x]) m))) = add_mset x (mset (concat (om_values m)))"
proof (induction m)
  case Nil
  show ?case by (simp add: om_values_def get_or_def)
next
  case (Cons e m)
  obtain k' v where e: "e = (k', v)" by fastforce
  have "om_wf m" using Cons.prems by (simp add: om_wf_def)
  with Cons.IH show ?case by (auto simp: e om_values_def get_or_def split: option.splits)
qed

lemma group_repositories_mset:
  "mset (concat (om_values (group_repositories opts es))) =
     mset (map se_item (filter (\<lambda>e. se_section e \<noteq> SecArchived \<and> \<not> so_pinned opts (se_item e)) es))"
proof -
  let ?f = "\<lambda>e m. let r = (case repository_name (se_item e) of Some n \<Rightarrow> n | None \<Rightarrow> section_label RepositorySection)
                  in om_set r (get_or [] m r @ [se_item e]) m"
  have "om_wf (fold ?f xs []) \<and> mset (concat (om_values (fold ?f xs []))) = mset (map se_item xs)" for xs
    by (induction xs rule: rev_induct) (simp_all add: om_values_def [of "[]"] Let_def values_om_set_append)
  then show ?thesis unfolding group_repositories_def by blast
qed

lemma mset_concat_sections:
  "mset (concat (map (\<lambda>sec. map se_item (filter (\<lambda>e. se_section e = sec) es)) section_order)) = mset (map se_item es)"
proof (induction es)
  case (Cons e es)
  then show ?case by (cases "se_section e") (simp_all add: section_order_def)
qed (simp add: section_order_def)

lemma optional_section:
  "concat (map sessions_of (if xs \<noteq> [] then [section_node k l xs] else [])) = xs"
  by simp

lemma capped_sessions:
  assumes "so_grouping opts = Capped"
  shows "concat (map sessions_of (group_catalog parse sod lc lc_base opts items)) =
    (let active = filter (\<lambda>e. se_section e \<noteq> SecArchived) (calculate_sections parse sod lc opts items);
         unpinned = filter (\<lambda>e. \<not> so_pinned opts (se_item e)) active
     in map se_item (filter (\<lambda>e. so_pinned opts (se_item e)) active) @ map se_item (take 3 unpinned) @
        map se_item (drop 3 unpinned @ filter (\<lambda>e. se_section e = SecArchived) (calculate_sections parse sod lc opts items)))"
  unfolding group_catalog_def Let_def assms grouping.case
  by (simp only: map_append concat_append optional_section map_map concat_session_nodes)

lemma repository_sessions:
  assumes "so_grouping opts = ByRepository"
  shows "concat (map sessions_of (group_catalog parse sod lc lc_base opts items)) =
    (let entries = calculate_sections parse sod lc opts items
     in map se_item (filter (\<lambda>e. se_section e \<noteq> SecArchived \<and> so_pinned opts (se_item e)) entries) @
        concat (map snd (js_sort (\<lambda>l r. lc_base (fst l) (fst r)) (group_repositories opts entries))) @
        map se_item (filter (\<lambda>e. se_section e = SecArchived) entries))"
proof -
  have r: "sessions_of \<circ> (\<lambda>(label, sessions). repository_node opts label sessions) = snd"
    by (rule ext) auto
  show ?thesis
    unfolding group_catalog_def Let_def assms grouping.case
    by (simp only: map_append concat_append optional_section map_map concat_session_nodes r)
qed

lemma mset_concat_snd:
  assumes "mset xs = mset ys"
  shows "mset (concat (map snd xs)) = mset (concat (map snd ys))"
proof -
  have "mset (map (mset \<circ> snd) xs) = mset (map (mset \<circ> snd) ys)"
    using arg_cong [OF assms, of "image_mset (mset \<circ> snd)"] by simp
  then have "sum_list (map (mset \<circ> snd) xs) = sum_list (map (mset \<circ> snd) ys)"
    by (metis sum_mset_sum_list)
  then show ?thesis by (simp add: mset_concat o_def)
qed

text \<open>
  C28: whatever the grouping, the dates, the collations and the flags, the nodes of the list
  hold exactly the sessions of the catalog, each as often as it is there: none is lost in a
  section, none shown under two.
\<close>

theorem grouping_partitions_catalog:
  "mset (concat (map sessions_of (group_catalog parse sod lc lc_base opts items))) = mset items"
proof -
  let ?es = "calculate_sections parse sod lc opts items"
  show ?thesis
  proof (cases "so_grouping opts")
    case Capped
    let ?act = "filter (\<lambda>e. se_section e \<noteq> SecArchived) ?es"
    let ?un = "filter (\<lambda>e. \<not> so_pinned opts (se_item e)) ?act"
    have 1: "mset (map se_item ?un) = mset (map se_item (take 3 ?un)) + mset (map se_item (drop 3 ?un))"
      by (rule mset_map_take_drop)
    have 2: "mset (map se_item ?act) = mset (map se_item (filter (\<lambda>e. so_pinned opts (se_item e)) ?act)) + mset (map se_item ?un)"
      by (rule mset_map_split)
    have 3: "mset (map se_item ?es) = mset (map se_item ?act) + mset (map se_item (filter (\<lambda>e. se_section e = SecArchived) ?es))"
      using mset_map_split [of se_item ?es "\<lambda>e. se_section e \<noteq> SecArchived"] by (simp only: not_not)
    show ?thesis
      unfolding capped_sessions [OF Capped] Let_def
      by (simp only: map_append mset_append mset_entries [symmetric, of items parse sod lc opts] 3 2 1 ac_simps)
  next
    case ByRepository
    have r: "mset (concat (map snd (js_sort c (group_repositories opts ?es)))) =
        mset (map se_item (filter (\<lambda>e. se_section e \<noteq> SecArchived \<and> \<not> so_pinned opts (se_item e)) ?es))" for c
      using mset_concat_snd [OF mset_js_sort [of c "group_repositories opts ?es"]] group_repositories_mset [of opts ?es]
      unfolding om_values_def by (rule trans)
    show ?thesis
      unfolding repository_sessions [OF ByRepository] Let_def mset_append r
        mset_entries [symmetric, of items parse sod lc opts]
        mset_three [of se_item ?es "\<lambda>e. se_section e = SecArchived" "\<lambda>e. so_pinned opts (se_item e)"]
      by (simp only: ac_simps)
  next
    case ByDate
    have m: "mset (concat (map sessions_of (concat (map (\<lambda>sec.
            if map se_item (filter (\<lambda>e. se_section e = sec) es) \<noteq> []
            then [section_node (DateSection sec) (section_label (DateSection sec)) (map se_item (filter (\<lambda>e. se_section e = sec) es))] else [])
            secs)))) = mset (concat (map (\<lambda>sec. map se_item (filter (\<lambda>e. se_section e = sec) es)) secs))" for es secs
      by (induction secs) (auto simp: filter_empty_conv)
    show ?thesis
      unfolding group_catalog_def ByDate grouping.case Let_def m mset_concat_sections mset_entries
      by (rule refl)
  qed
qed

section \<open>The order\<close>

lemma consistent_newest_first:
  assumes "\<And>t. parse t \<noteq> None"
  shows "consistent_cmp (newest_first parse)"
proof -
  have e: "newest_first parse l r = (- the (parse (ci_modified (se_item l)))) - (- the (parse (ci_modified (se_item r))))" for l r
    using assms [of "ci_modified (se_item l)"] assms [of "ci_modified (se_item r)"]
    by (auto simp: newest_first_def)
  show ?thesis using consistent_cmp_key [of "\<lambda>e. - the (parse (ci_modified (se_item e)))"]
    unfolding consistent_cmp_def e by blast
qed

lemma consistent_entry_cmp:
  "consistent_cmp lc \<Longrightarrow> (\<And>t. parse t \<noteq> None) \<Longrightarrow> consistent_cmp (entry_cmp parse lc)"
  unfolding entry_cmp_def
  by (intro consistent_cmp_then consistent_cmp_key consistent_cmp_inv [where k = se_repository] consistent_newest_first)

text \<open>
  When every date can be read, the entries come out sorted: by section in the fixed order,
  then by repository in the collation's order, then the latest modified first.
\<close>

theorem sections_sorted:
  assumes "consistent_cmp lc" and "\<And>t. parse t \<noteq> None"
  shows "sorted_wrt (\<lambda>a b. entry_cmp parse lc a b \<le> 0) (calculate_sections parse sod lc opts items)"
  unfolding calculate_sections_def by (rule sorted_js_sort) (rule consistent_entry_cmp [OF assms])

definition sample_item :: "string \<Rightarrow> string \<Rightarrow> catalog_item" where
  "sample_item r d = \<lparr>ci_workspace = ''w'', ci_resource = r, ci_provider = ''p'', ci_title = r, ci_status = 0,
     ci_activity = None, ci_repository = None, ci_directory = None, ci_created = [], ci_modified = d,
     ci_observed = [], ci_online = True, ci_stale = False, ci_approval = None, ci_changes = None\<rparr>"

definition sample_options :: section_options where
  "sample_options = \<lparr>so_archived = (\<lambda>i. False), so_pinned = (\<lambda>i. False), so_now = 0,
     so_grouping = ByDate, so_expanded = [], so_limit = 5\<rparr>"

theorem sections_sorted_witness:
  "let es = calculate_sections (\<lambda>d. Some (int (length d))) (\<lambda>n. 0) code_unit_compare sample_options
       [sample_item ''old'' ''x'', sample_item ''new'' ''xxx'']
   in map (ci_resource \<circ> se_item) es = [''new'', ''old'']
    \<and> sorted_wrt (\<lambda>a b. entry_cmp (\<lambda>d. Some (int (length d))) code_unit_compare a b \<le> 0) es"
proof -
  let ?es = "calculate_sections (\<lambda>d. Some (int (length d))) (\<lambda>n. 0) code_unit_compare sample_options
       [sample_item ''old'' ''x'', sample_item ''new'' ''xxx'']"
  have "sorted_wrt (\<lambda>a b. entry_cmp (\<lambda>d. Some (int (length d))) code_unit_compare a b \<le> 0) ?es"
    by (rule sections_sorted [OF consistent_code_unit_compare]) simp
  moreover have "map (ci_resource \<circ> se_item) ?es = [''new'', ''old'']"
    by (simp add: calculate_sections_def js_sort_def entry_cmp_def cmp_then_def newest_first_def
        session_date_section_def sample_options_def sample_item_def section_index_def section_order_def
        code_unit_compare_refl)
  ultimately show ?thesis by (simp add: Let_def)
qed

text \<open>
  A date that cannot be read breaks the order: the comparator then treats the item as equal
  to two items that differ from each other, so it is no consistent comparator and what the sort
  gives depends on the engine.
\<close>

theorem unreadable_date_breaks_the_order:
  assumes "parse bad = None" and "parse early = Some a" and "parse late = Some b" and "a < b"
  shows "\<not> consistent_cmp (entry_cmp parse code_unit_compare)"
proof
  let ?e = "\<lambda>d. \<lparr>se_item = sample_item ''r'' d, se_repository = ''w'', se_section = SecOlder\<rparr>"
  assume c: "consistent_cmp (entry_cmp parse code_unit_compare)"
  have "entry_cmp parse code_unit_compare (?e early) (?e bad) = 0"
    "entry_cmp parse code_unit_compare (?e bad) (?e late) = 0"
    "0 < entry_cmp parse code_unit_compare (?e early) (?e late)"
    using assms by (simp_all add: entry_cmp_def cmp_then_def newest_first_def sample_item_def)
  then show False using consistent_cmp_le_trans [OF c, of "?e early" "?e bad" "?e late"] by simp
qed

theorem unreadable_date_breaks_the_order_witness:
  "\<not> consistent_cmp (entry_cmp (\<lambda>d. if d = ''never'' then None else Some (int (length d))) code_unit_compare)"
  by (rule unreadable_date_breaks_the_order [of _ "''never''" "''x''" 1 "''xx''" 2]) simp_all

end
