(* ===== verification/VirtualList.thy ===== *)
theory VirtualList
  imports Prelude Complex_Main
begin

text \<open>
  \<open>src/packages/ui/src/widgets/virtual-list.ts\<close>: a list that renders the rows near its viewport
  only.  The delegate's \<open>getHeight\<close>, \<open>getKey\<close> and what its elements say of their expansion and
  level are parameters; pixels are rationals.  The scroll position is limited by the browser to what
  the content allows.  An element is a number with the row it shows; a click on it is recorded.
\<close>

section \<open>Rows\<close>

record 'a vrow =
  vr_top :: rat
  vr_bottom :: rat
  vr_item :: 'a
  vr_key :: string

record 'a velement =
  ve_id :: nat
  ve_item :: 'a
  ve_tab :: int
  ve_height :: rat
  ve_top :: rat

record 'a delegate =
  dg_height :: "'a \<Rightarrow> rat"
  dg_key :: "'a \<Rightarrow> string"
  dg_expanded :: "'a \<Rightarrow> bool option"
  dg_level :: "'a \<Rightarrow> int option"

record list_options =
  lo_overscan :: "rat option"
  lo_tree :: bool
  lo_height :: "rat option"

record 'a vlist =
  vl_rows :: "'a vrow list"
  vl_rendered :: "(string, 'a velement) omap"
  vl_active :: "string option"
  vl_viewport :: rat
  vl_client :: rat
  vl_scroll :: rat
  vl_content :: rat
  vl_tab :: int
  vl_focused :: "string option"
  vl_clicked :: "string list"
  vl_next :: nat

definition new_vlist :: "list_options \<Rightarrow> rat \<Rightarrow> 'a vlist" where
  "new_vlist opts client =
     \<lparr>vl_rows = [], vl_rendered = [], vl_active = None, vl_viewport = (case lo_height opts of None \<Rightarrow> 0 | Some h \<Rightarrow> h),
      vl_client = client, vl_scroll = 0, vl_content = 0, vl_tab = 0, vl_focused = None, vl_clicked = [], vl_next = 0\<rparr>"

definition effective_height :: "'a vlist \<Rightarrow> rat" where
  "effective_height s = (if vl_viewport s \<noteq> 0 then vl_viewport s else if vl_client s \<noteq> 0 then vl_client s else 600)"

definition overscan :: "list_options \<Rightarrow> rat" where
  "overscan opts = (case lo_overscan opts of None \<Rightarrow> 200 | Some x \<Rightarrow> x)"

text \<open>The binary search for the first row that ends at the offset or below it.\<close>

function first_visible :: "'a vrow list \<Rightarrow> rat \<Rightarrow> nat \<Rightarrow> nat \<Rightarrow> nat" where
  "first_visible rows offset low high =
     (if low < high
      then (let middle = (low + high) div 2
            in if vr_bottom (rows ! middle) < offset then first_visible rows offset (Suc middle) high
               else first_visible rows offset low middle)
      else low)"
  by pat_completeness auto
termination
  by (relation "measure (\<lambda>(rows, offset, low, high). high - low)") auto

declare first_visible.simps [simp del]

definition window_start :: "list_options \<Rightarrow> 'a vlist \<Rightarrow> rat" where
  "window_start opts s = max 0 (vl_scroll s - overscan opts)"

definition window_end :: "list_options \<Rightarrow> 'a vlist \<Rightarrow> rat" where
  "window_end opts s = vl_scroll s + effective_height s + overscan opts"

text \<open>The rows the loop of \<open>renderVisible\<close> visits before it breaks.\<close>

definition visited_rows :: "list_options \<Rightarrow> 'a vlist \<Rightarrow> 'a vrow list" where
  "visited_rows opts s =
     takeWhile (\<lambda>r. vr_top r \<le> window_end opts s)
       (drop (first_visible (vl_rows s) (window_start opts s) 0 (length (vl_rows s))) (vl_rows s))"

definition render_row :: "'a vrow \<Rightarrow> 'a vlist \<Rightarrow> 'a vlist" where
  "render_row r s =
     (let i = (case om_get (vl_rendered s) (vr_key r) of None \<Rightarrow> vl_next s | Some e \<Rightarrow> ve_id e);
          e = \<lparr>ve_id = i, ve_item = vr_item r, ve_tab = (if Some (vr_key r) = vl_active s then 0 else -1),
               ve_height = vr_bottom r - vr_top r, ve_top = vr_top r\<rparr>
      in s\<lparr>vl_rendered := om_set (vr_key r) e (vl_rendered s),
           vl_next := (if om_has (vl_rendered s) (vr_key r) then vl_next s else Suc (vl_next s))\<rparr>)"

definition render_visible :: "list_options \<Rightarrow> 'a vlist \<Rightarrow> 'a vlist" where
  "render_visible opts s =
     (let visible = map vr_key (visited_rows opts s); t = fold render_row (visited_rows opts s) s
      in t\<lparr>vl_rendered := filter (\<lambda>(k, e). k \<in> set visible) (vl_rendered t)\<rparr>)"

text \<open>Assigning \<open>scrollTop\<close>, or a change of the content: the browser limits the position.\<close>

definition scroll_to :: "rat \<Rightarrow> 'a vlist \<Rightarrow> 'a vlist" where
  "scroll_to y s = s\<lparr>vl_scroll := max 0 (min y (vl_content s - vl_client s))\<rparr>"

fun layout_rows :: "'a delegate \<Rightarrow> rat \<Rightarrow> 'a list \<Rightarrow> 'a vrow list" where
  "layout_rows d y [] = []"
| "layout_rows d y (x # xs) =
     \<lparr>vr_top = y, vr_bottom = y + dg_height d x, vr_item = x, vr_key = dg_key d x\<rparr> # layout_rows d (y + dg_height d x) xs"

definition set_items :: "list_options \<Rightarrow> 'a delegate \<Rightarrow> 'a list \<Rightarrow> 'a vlist \<Rightarrow> 'a vlist" where
  "set_items opts d xs s =
     (let rows = layout_rows d 0 xs;
          s1 = scroll_to (vl_scroll s) (s\<lparr>vl_rows := rows, vl_content := sum_list (map (dg_height d) xs)\<rparr>);
          s2 = (if list_ex (\<lambda>r. Some (vr_key r) = vl_active s1) rows then s1
                else s1\<lparr>vl_active := map_option vr_key (at_first rows)\<rparr>)
      in render_visible opts (s2\<lparr>vl_tab := (if rows = [] then 0 else -1)\<rparr>))"

definition layout_list :: "list_options \<Rightarrow> rat option \<Rightarrow> 'a vlist \<Rightarrow> 'a vlist" where
  "layout_list opts h s = render_visible opts (case h of None \<Rightarrow> s | Some x \<Rightarrow> s\<lparr>vl_viewport := x\<rparr>)"

definition reveal :: "list_options \<Rightarrow> nat \<Rightarrow> 'a vlist \<Rightarrow> 'a vlist" where
  "reveal opts k s =
     (case at_index (vl_rows s) k of
        None \<Rightarrow> s
      | Some r \<Rightarrow>
          render_visible opts
            (if vr_top r < vl_scroll s then scroll_to (vr_top r) s
             else if vl_scroll s + effective_height s < vr_bottom r then scroll_to (vr_bottom r - effective_height s) s
             else s))"

definition set_active_key :: "string \<Rightarrow> 'a vlist \<Rightarrow> 'a vlist" where
  "set_active_key k s =
     s\<lparr>vl_active := Some k, vl_rendered := map (\<lambda>(k', e). (k', e\<lparr>ve_tab := (if k' = k then 0 else -1)\<rparr>)) (vl_rendered s)\<rparr>"

text \<open>Focusing an element fires \<open>focusin\<close>, whose listener makes its row the active one.\<close>

definition focus_in :: "string \<Rightarrow> 'a vlist \<Rightarrow> 'a vlist" where
  "focus_in k s = (if k \<noteq> [] then set_active_key k s else s)"

definition focus_index :: "list_options \<Rightarrow> nat \<Rightarrow> 'a vlist \<Rightarrow> 'a vlist" where
  "focus_index opts k s =
     (case at_index (vl_rows s) k of
        None \<Rightarrow> s
      | Some r \<Rightarrow>
          (let t = reveal opts k (s\<lparr>vl_active := Some (vr_key r)\<rparr>)
           in if om_has (vl_rendered t) (vr_key r) then focus_in (vr_key r) (t\<lparr>vl_focused := Some (vr_key r)\<rparr>) else t))"

section \<open>The keyboard\<close>

definition click_row :: "string option \<Rightarrow> 'a vlist \<Rightarrow> 'a vlist" where
  "click_row k s = (case k of None \<Rightarrow> s | Some x \<Rightarrow> s\<lparr>vl_clicked := vl_clicked s @ [x]\<rparr>)"

definition element_at :: "'a vlist \<Rightarrow> nat \<Rightarrow> 'a velement option" where
  "element_at s k = (case at_index (vl_rows s) k of None \<Rightarrow> None | Some r \<Rightarrow> om_get (vl_rendered s) (vr_key r))"

definition level_or :: "'a delegate \<Rightarrow> int \<Rightarrow> 'a velement option \<Rightarrow> int" where
  "level_or d n e = (case e of None \<Rightarrow> n | Some x \<Rightarrow> (case dg_level d (ve_item x) of None \<Rightarrow> n | Some l \<Rightarrow> l))"

text \<open>The loop of the left arrow: the last row before \<open>k\<close> of a smaller level.\<close>

fun parent_index :: "'a delegate \<Rightarrow> 'a vlist \<Rightarrow> int \<Rightarrow> nat \<Rightarrow> nat option" where
  "parent_index d s level 0 = None"
| "parent_index d s level (Suc k) =
     (if level_or d level (element_at s k) < level then Some k else parent_index d s level k)"

text \<open>
  The row a key moves to; \<open>target\<close> is the row element the key was pressed in.  The index of no row
  is -1 in the code: the down arrow then goes to the first row.
\<close>

definition key_target :: "list_options \<Rightarrow> 'a delegate \<Rightarrow> string \<Rightarrow> string option \<Rightarrow> 'a vlist \<Rightarrow> nat option" where
  "key_target opts d key target s =
     (let current_key = (case target of Some k \<Rightarrow> Some k | None \<Rightarrow> vl_active s);
          current = find_index (\<lambda>r. Some (vr_key r) = current_key) (vl_rows s);
          element = (case target of None \<Rightarrow> None | Some k \<Rightarrow> om_get (vl_rendered s) k);
          expanded = (case element of None \<Rightarrow> None | Some e \<Rightarrow> dg_expanded d (ve_item e));
          n = length (vl_rows s)
      in if key = ''ArrowDown''
         then (if n = 0 then None else Some (min (n - 1) (case current of None \<Rightarrow> 0 | Some k \<Rightarrow> Suc k)))
         else if key = ''ArrowUp'' then Some (case current of None \<Rightarrow> 0 | Some k \<Rightarrow> k - 1)
         else if key = ''Home'' then Some 0
         else if key = ''End'' then (if n = 0 then None else Some (n - 1))
         else if lo_tree opts \<and> key = ''ArrowRight'' \<and> expanded = Some True
         then (let k = (case current of None \<Rightarrow> 0 | Some k \<Rightarrow> Suc k)
               in if level_or d 1 element < level_or d 0 (element_at s k) then Some k else None)
         else if lo_tree opts \<and> key = ''ArrowLeft'' \<and> expanded \<noteq> Some True
         then (case current of None \<Rightarrow> None | Some k \<Rightarrow> parent_index d s (level_or d 1 element) k)
         else None)"

definition key_down :: "list_options \<Rightarrow> 'a delegate \<Rightarrow> string \<Rightarrow> string option \<Rightarrow> 'a vlist \<Rightarrow> 'a vlist" where
  "key_down opts d key target s =
     (let expanded = (case target of None \<Rightarrow> None | Some k \<Rightarrow>
            (case om_get (vl_rendered s) k of None \<Rightarrow> None | Some e \<Rightarrow> dg_expanded d (ve_item e)))
      in if key = ''Enter'' \<or> key = '' '' then click_row target s
         else
          (let s1 = (if lo_tree opts \<and> (key = ''ArrowRight'' \<and> expanded = Some False \<or> key = ''ArrowLeft'' \<and> expanded = Some True)
                     then click_row target s else s)
           in case key_target opts d key target s of None \<Rightarrow> s1 | Some k \<Rightarrow> focus_index opts k s1))"

datatype 'a vlist_op =
    VlItems "'a list"
  | VlLayout "rat option"
  | VlScroll rat
  | VlResize rat
  | VlReveal nat
  | VlKey string "string option"
  | VlPointer string

fun apply_vlist :: "list_options \<Rightarrow> 'a delegate \<Rightarrow> 'a vlist_op \<Rightarrow> 'a vlist \<Rightarrow> 'a vlist" where
  "apply_vlist opts d (VlItems xs) s = set_items opts d xs s"
| "apply_vlist opts d (VlLayout h) s = layout_list opts h s"
| "apply_vlist opts d (VlScroll y) s = render_visible opts (scroll_to y s)"
| "apply_vlist opts d (VlResize h) s = render_visible opts (scroll_to (vl_scroll s) (s\<lparr>vl_client := h\<rparr>))"
| "apply_vlist opts d (VlReveal k) s = reveal opts k s"
| "apply_vlist opts d (VlKey key target) s = key_down opts d key target s"
| "apply_vlist opts d (VlPointer k) s = focus_in k s"

section \<open>The window\<close>

text \<open>Rows follow one another without overlap.\<close>

definition rows_ok :: "'a vrow list \<Rightarrow> bool" where
  "rows_ok rows \<longleftrightarrow> sorted_wrt (\<lambda>a b. vr_bottom a \<le> vr_top b) rows \<and> list_all (\<lambda>r. vr_top r \<le> vr_bottom r) rows"

lemma layout_rows_ok:
  assumes "\<And>x. 0 \<le> dg_height d x"
  shows "rows_ok (layout_rows d y xs) \<and> list_all (\<lambda>r. y \<le> vr_top r) (layout_rows d y xs)"
proof (induction xs arbitrary: y)
  case (Cons x xs)
  have "y \<le> y + dg_height d x" using assms by simp
  with Cons [of "y + dg_height d x"] show ?case
    by (auto simp: rows_ok_def list_all_iff intro: order_trans)
qed (simp add: rows_ok_def)

lemma filter_dropWhile: "sorted_wrt (\<lambda>a b. P b \<longrightarrow> P a) xs \<Longrightarrow> dropWhile P xs = filter (\<lambda>x. \<not> P x) xs"
  by (induction xs) (auto intro!: filter_True [symmetric] simp: filter_id_conv)

lemma filter_takeWhile: "sorted_wrt (\<lambda>a b. P b \<longrightarrow> P a) xs \<Longrightarrow> takeWhile P xs = filter P xs"
  by (induction xs) (auto simp: filter_empty_conv)

lemma first_visible_correct:
  assumes "low \<le> high" and "high \<le> length rows" and "sorted_wrt (\<lambda>a b. vr_bottom a \<le> vr_bottom b) rows"
    and "\<forall>k < low. vr_bottom (rows ! k) < offset" and "high < length rows \<longrightarrow> \<not> vr_bottom (rows ! high) < offset"
  shows "low \<le> first_visible rows offset low high \<and> first_visible rows offset low high \<le> high \<and>
    (\<forall>k < first_visible rows offset low high. vr_bottom (rows ! k) < offset) \<and>
    (first_visible rows offset low high < length rows \<longrightarrow> \<not> vr_bottom (rows ! first_visible rows offset low high) < offset)"
  using assms
proof (induction rows offset low high rule: first_visible.induct)
  case (1 rows offset low high)
  show ?case
  proof (cases "low < high")
    case True
    let ?m = "(low + high) div 2"
    have m: "low \<le> ?m" "?m < high" using True by auto
    show ?thesis
    proof (cases "vr_bottom (rows ! ?m) < offset")
      case b: True
      have "\<forall>k < Suc ?m. vr_bottom (rows ! k) < offset"
      proof (intro allI impI)
        fix k assume "k < Suc ?m"
        then have "k = ?m \<or> vr_bottom (rows ! k) \<le> vr_bottom (rows ! ?m)"
          using 1(4,5) m by (auto simp: less_Suc_eq intro: sorted_wrt_nth_less)
        with b show "vr_bottom (rows ! k) < offset" by auto
      qed
      moreover have e: "first_visible rows offset low high = first_visible rows offset (Suc ?m) high"
        using True b by (simp add: first_visible.simps [of rows offset low high] Let_def)
      ultimately show ?thesis
        unfolding e using 1(1) [OF True refl b] 1(4-7) m by auto
    next
      case b: False
      have e: "first_visible rows offset low high = first_visible rows offset low ?m"
        using True b by (simp add: first_visible.simps [of rows offset low high] Let_def)
      show ?thesis
        unfolding e using 1(2) [OF True refl b] 1(4-7) m b by auto
    qed
  next
    case False
    then have e: "first_visible rows offset low high = low" by (simp add: first_visible.simps [of rows offset low high])
    show ?thesis unfolding e using 1(3-7) False by simp
  qed
qed

lemma rows_ok_bottoms: "rows_ok rows \<Longrightarrow> sorted_wrt (\<lambda>a b. vr_bottom a \<le> vr_bottom b) rows"
  unfolding rows_ok_def
  by (induction rows) (auto simp: list_all_iff intro: order_trans)

lemma rows_ok_tops: "rows_ok rows \<Longrightarrow> sorted_wrt (\<lambda>a b. vr_top a \<le> vr_top b) rows"
  unfolding rows_ok_def
  by (induction rows) (auto simp: list_all_iff intro: order_trans)

lemma first_visible_drops:
  assumes "rows_ok rows"
  shows "drop (first_visible rows offset 0 (length rows)) rows = dropWhile (\<lambda>r. vr_bottom r < offset) rows"
proof -
  let ?k = "first_visible rows offset 0 (length rows)"
  have "?k \<le> length rows \<and> (\<forall>j < ?k. vr_bottom (rows ! j) < offset) \<and> (?k < length rows \<longrightarrow> \<not> vr_bottom (rows ! ?k) < offset)"
    using first_visible_correct [of 0 "length rows" rows offset] rows_ok_bottoms [OF assms] by simp
  then have "takeWhile (\<lambda>r. vr_bottom r < offset) rows = take ?k rows"
    by (intro takeWhile_eq_take_P_nth) auto
  then have "length (takeWhile (\<lambda>r. vr_bottom r < offset) rows) = ?k"
    using \<open>?k \<le> length rows \<and> _\<close> by simp
  then show ?thesis by (simp add: dropWhile_eq_drop)
qed

definition in_window :: "list_options \<Rightarrow> 'a vlist \<Rightarrow> 'a vrow \<Rightarrow> bool" where
  "in_window opts s r \<longleftrightarrow> window_start opts s \<le> vr_bottom r \<and> vr_top r \<le> window_end opts s"

lemma visited_rows_window:
  assumes "rows_ok (vl_rows s)"
  shows "visited_rows opts s = filter (in_window opts s) (vl_rows s)"
proof -
  have "sorted_wrt (\<lambda>a b. vr_bottom b < window_start opts s \<longrightarrow> vr_bottom a < window_start opts s) (vl_rows s)"
    by (rule sorted_wrt_mono_rel [OF _ rows_ok_bottoms [OF assms]]) auto
  then have d: "dropWhile (\<lambda>r. vr_bottom r < window_start opts s) (vl_rows s) =
      filter (\<lambda>r. \<not> vr_bottom r < window_start opts s) (vl_rows s)" by (rule filter_dropWhile)
  have "sorted_wrt (\<lambda>a b. vr_top b \<le> window_end opts s \<longrightarrow> vr_top a \<le> window_end opts s)
      (filter (\<lambda>r. \<not> vr_bottom r < window_start opts s) (vl_rows s))"
    by (rule sorted_wrt_filter, rule sorted_wrt_mono_rel [OF _ rows_ok_tops [OF assms]]) auto
  from filter_takeWhile [OF this] show ?thesis
    by (simp add: visited_rows_def first_visible_drops [OF assms] d in_window_def [abs_def] not_less conj_commute)
qed

section \<open>What is rendered\<close>

lemma render_row_frame [simp]:
  "vl_rows (render_row r s) = vl_rows s" "vl_active (render_row r s) = vl_active s" "vl_viewport (render_row r s) = vl_viewport s"
  "vl_client (render_row r s) = vl_client s" "vl_scroll (render_row r s) = vl_scroll s" "vl_content (render_row r s) = vl_content s"
  "vl_tab (render_row r s) = vl_tab s" "vl_focused (render_row r s) = vl_focused s"
  by (simp_all add: render_row_def Let_def)

lemma render_rows_frame [simp]:
  "vl_rows (fold render_row rs s) = vl_rows s" "vl_active (fold render_row rs s) = vl_active s"
  "vl_viewport (fold render_row rs s) = vl_viewport s" "vl_client (fold render_row rs s) = vl_client s"
  "vl_scroll (fold render_row rs s) = vl_scroll s" "vl_content (fold render_row rs s) = vl_content s"
  "vl_tab (fold render_row rs s) = vl_tab s" "vl_focused (fold render_row rs s) = vl_focused s"
  by (induction rs arbitrary: s) simp_all

lemma render_visible_frame [simp]:
  "vl_rows (render_visible opts s) = vl_rows s" "vl_active (render_visible opts s) = vl_active s"
  "vl_viewport (render_visible opts s) = vl_viewport s" "vl_client (render_visible opts s) = vl_client s"
  "vl_scroll (render_visible opts s) = vl_scroll s" "vl_content (render_visible opts s) = vl_content s"
  "vl_tab (render_visible opts s) = vl_tab s" "vl_focused (render_visible opts s) = vl_focused s"
  by (simp_all add: render_visible_def Let_def)

text \<open>Only the element of the active row is a tab stop.\<close>

definition tab_of :: "string option \<Rightarrow> string \<Rightarrow> int" where
  "tab_of active k = (if Some k = active then 0 else -1)"

lemma render_rows_map:
  "om_wf (vl_rendered s) \<Longrightarrow> om_wf (vl_rendered (fold render_row rs s)) \<and>
   om_keys (vl_rendered (fold render_row rs s)) = om_keys (vl_rendered (fold render_row rs s)) \<and>
   set (om_keys (vl_rendered (fold render_row rs s))) = set (om_keys (vl_rendered s)) \<union> vr_key ` set rs"
proof (induction rs arbitrary: s)
  case (Cons r rs)
  from Cons.prems have "om_wf (vl_rendered (render_row r s))" by (simp add: render_row_def Let_def)
  from Cons.IH [OF this] show ?case by (auto simp: render_row_def Let_def om_keys_def om_set_keys)
qed (simp add: om_keys_def)

lemma render_rows_tabs:
  assumes "r \<in> set rs \<and> vr_key r = k \<or> (\<exists>e. om_get (vl_rendered s) k = Some e \<and> ve_tab e = tab_of (vl_active s) k)"
  shows "\<exists>e. om_get (vl_rendered (fold render_row rs s)) k = Some e \<and> ve_tab e = tab_of (vl_active s) k"
  using assms
proof (induction rs arbitrary: s)
  case (Cons x rs)
  have "r \<in> set rs \<and> vr_key r = k \<or> (\<exists>e. om_get (vl_rendered (render_row x s)) k = Some e \<and> ve_tab e = tab_of (vl_active (render_row x s)) k)"
    using Cons.prems by (auto simp: render_row_def Let_def tab_of_def)
  from Cons.IH [OF this] show ?case by simp
qed simp

definition window_ok :: "list_options \<Rightarrow> 'a vlist \<Rightarrow> bool" where
  "window_ok opts s \<longleftrightarrow> rows_ok (vl_rows s) \<and> om_wf (vl_rendered s) \<and>
     set (om_keys (vl_rendered s)) = vr_key ` set (filter (in_window opts s) (vl_rows s)) \<and>
     list_all (\<lambda>(k, e). ve_tab e = tab_of (vl_active s) k) (vl_rendered s)"

lemma render_visible_ok:
  assumes "rows_ok (vl_rows s)" and "om_wf (vl_rendered s)"
  shows "window_ok opts (render_visible opts s)"
proof -
  let ?rs = "visited_rows opts s"
  let ?m = "vl_rendered (fold render_row ?rs s)"
  have m: "om_wf ?m" "set (om_keys ?m) = set (om_keys (vl_rendered s)) \<union> vr_key ` set ?rs"
    using render_rows_map [OF assms(2)] by blast+
  have r: "vl_rendered (render_visible opts s) = filter (\<lambda>(k, e). k \<in> vr_key ` set ?rs) ?m"
    by (simp add: render_visible_def Let_def)
  have wf: "om_wf (filter (\<lambda>(k, e). k \<in> vr_key ` set ?rs) ?m)"
    using m(1) by (auto simp: om_wf_def intro: distinct_map_filter)
  have "set (om_keys (filter (\<lambda>(k, e). k \<in> vr_key ` set ?rs) ?m)) = set (om_keys ?m) \<inter> vr_key ` set ?rs"
    by (auto simp: om_keys_def image_iff)
  then have keys: "set (om_keys (filter (\<lambda>(k, e). k \<in> vr_key ` set ?rs) ?m)) = vr_key ` set ?rs" using m(2) by auto
  have tab: "ve_tab e = tab_of (vl_active s) k" if a: "(k, e) \<in> set ?m" and b: "k \<in> vr_key ` set ?rs" for k e
  proof -
    obtain x where "x \<in> set ?rs" "vr_key x = k" using b by blast
    then obtain e' where "om_get ?m k = Some e'" "ve_tab e' = tab_of (vl_active s) k" using render_rows_tabs by blast
    moreover have "om_get ?m k = Some e" using a om_get_eq_Some_iff [OF m(1)] by blast
    ultimately show ?thesis by simp
  qed
  have win: "in_window opts (render_visible opts s) = in_window opts s"
    by (simp add: in_window_def [abs_def] window_start_def window_end_def effective_height_def)
  show ?thesis
    unfolding window_ok_def r win
    using assms(1) wf keys tab visited_rows_window [OF assms(1), of opts] by (auto simp: list_all_iff)
qed

lemma active_key_ok: "window_ok opts s \<Longrightarrow> window_ok opts (set_active_key k s)"
proof -
  assume w: "window_ok opts s"
  have k: "om_keys (vl_rendered (set_active_key k s)) = om_keys (vl_rendered s)"
    by (simp add: set_active_key_def om_keys_def comp_def case_prod_beta)
  then have "om_wf (vl_rendered (set_active_key k s))" using w by (simp add: window_ok_def om_wf_def om_keys_def)
  moreover have "in_window opts (set_active_key k s) = in_window opts s"
    by (simp add: in_window_def [abs_def] window_start_def window_end_def effective_height_def set_active_key_def)
  ultimately show ?thesis
    using w k by (auto simp: window_ok_def set_active_key_def list_all_iff tab_of_def)
qed

lemma window_ok_cong:
  assumes "window_ok opts s" and "vl_rows t = vl_rows s" and "vl_rendered t = vl_rendered s" and "vl_active t = vl_active s"
    and "vl_scroll t = vl_scroll s" and "vl_viewport t = vl_viewport s" and "vl_client t = vl_client s"
  shows "window_ok opts t"
proof -
  have "in_window opts t = in_window opts s"
    using assms by (simp add: in_window_def [abs_def] window_start_def window_end_def effective_height_def)
  with assms show ?thesis by (simp add: window_ok_def)
qed

lemma scroll_to_frame [simp]:
  "vl_rows (scroll_to y s) = vl_rows s" "vl_rendered (scroll_to y s) = vl_rendered s" "vl_active (scroll_to y s) = vl_active s"
  "vl_viewport (scroll_to y s) = vl_viewport s" "vl_client (scroll_to y s) = vl_client s" "vl_content (scroll_to y s) = vl_content s"
  by (simp_all add: scroll_to_def)

lemma reveal_ok: "window_ok opts s \<Longrightarrow> window_ok opts (reveal opts k s)"
  by (auto simp: reveal_def window_ok_def [of opts s] intro!: render_visible_ok split: option.split)

lemma focus_in_ok: "window_ok opts s \<Longrightarrow> window_ok opts (focus_in k (s\<lparr>vl_focused := f\<rparr>))"
proof -
  assume "window_ok opts s"
  then have "window_ok opts (s\<lparr>vl_focused := f\<rparr>)" by (rule window_ok_cong) simp_all
  then show ?thesis by (simp add: focus_in_def active_key_ok)
qed

lemma focus_index_ok:
  assumes "window_ok opts s"
  shows "window_ok opts (focus_index opts k s)"
proof (cases "at_index (vl_rows s) k")
  case (Some r)
  let ?t = "reveal opts k (s\<lparr>vl_active := Some (vr_key r)\<rparr>)"
  have "window_ok opts ?t"
    using assms Some by (auto simp: reveal_def window_ok_def [of opts s] intro!: render_visible_ok)
  then show ?thesis using Some by (simp add: focus_index_def Let_def focus_in_ok)
qed (use assms in \<open>simp add: focus_index_def\<close>)

lemma vlist_step_ok:
  assumes "\<And>x. 0 \<le> dg_height d x" and "window_ok opts s"
  shows "window_ok opts (apply_vlist opts d e s)"
proof (cases e)
  case (VlItems xs)
  show ?thesis unfolding VlItems apply_vlist.simps set_items_def Let_def
    by (rule render_visible_ok) (use assms layout_rows_ok [OF assms(1), of 0 xs] in \<open>simp_all add: window_ok_def\<close>)
next
  case (VlKey key target)
  have "window_ok opts (click_row x s)" for x
    using assms(2) by (auto simp: click_row_def intro: window_ok_cong split: option.split)
  then show ?thesis using assms(2)
    by (auto simp: VlKey key_down_def Let_def intro: focus_index_ok split: option.split)
next
  case (VlReveal k)
  then show ?thesis using assms(2) by (simp add: reveal_ok)
next
  case (VlPointer k)
  then show ?thesis using assms(2) by (simp add: focus_in_def active_key_ok)
qed (use assms(2) in \<open>auto simp: layout_list_def window_ok_def [of opts s] intro!: render_visible_ok split: option.split\<close>)

lemma window_ok_new: "window_ok opts (new_vlist opts client)"
  by (simp add: window_ok_def new_vlist_def rows_ok_def om_keys_def)

lemma vlist_history_ok:
  "(\<And>x. 0 \<le> dg_height d x) \<Longrightarrow> window_ok opts (fold (apply_vlist opts d) es (new_vlist opts client))"
  by (rule fold_keeps [where P = "window_ok opts"]) (auto intro: vlist_step_ok window_ok_new)

text \<open>
  C14: after any history of changes, scrolling and key presses the elements that are rendered are
  exactly those of the rows that meet the window, and none but the element of the active row is a
  tab stop.
\<close>

theorem list_renders_its_window:
  assumes "\<And>x. 0 \<le> dg_height d x"
  shows "let s = fold (apply_vlist opts d) es (new_vlist opts client)
    in set (om_keys (vl_rendered s)) = vr_key ` set (filter (in_window opts s) (vl_rows s)) \<and>
       distinct (om_keys (vl_rendered s)) \<and>
       list_all (\<lambda>(k, e). (ve_tab e = 0) = (Some k = vl_active s)) (vl_rendered s)"
proof -
  have w: "window_ok opts (fold (apply_vlist opts d) es (new_vlist opts client))" by (rule vlist_history_ok [OF assms])
  moreover have "(tab_of a k = 0) = (Some k = a)" for a k by (simp add: tab_of_def)
  ultimately show ?thesis
    by (simp add: Let_def window_ok_def om_wf_def om_keys_def list_all_iff split_beta)
qed

theorem list_renders_its_window_witness:
  "let d = \<lparr>dg_height = (\<lambda>x. 50), dg_key = (\<lambda>x. replicate x CHR ''a''), dg_expanded = (\<lambda>x. None), dg_level = (\<lambda>x. None)\<rparr>;
       s = fold (apply_vlist \<lparr>lo_overscan = Some 0, lo_tree = False, lo_height = Some 200\<rparr> d) [VlItems [0..<9]]
             (new_vlist \<lparr>lo_overscan = Some 0, lo_tree = False, lo_height = Some 200\<rparr> 0)
   in distinct (om_keys (vl_rendered s))"
proof -
  let ?d = "\<lparr>dg_height = (\<lambda>x. 50), dg_key = (\<lambda>x. replicate x CHR ''a''), dg_expanded = (\<lambda>x. None), dg_level = (\<lambda>x. None)\<rparr>"
  have "0 \<le> dg_height ?d x" for x by simp
  from list_renders_its_window [OF this] show ?thesis unfolding Let_def by blast
qed

lemma rows_span:
  assumes "rows_ok (r # rs)" and "list_all (\<lambda>r. vr_top r + h \<le> vr_bottom r) rs" and "rs \<noteq> []"
  shows "vr_bottom r + of_nat (length rs - 1) * h \<le> vr_top (last rs)"
  using assms
proof (induction rs arbitrary: r)
  case (Cons x xs)
  show ?case
  proof (cases "xs = []")
    case False
    have "rows_ok (x # xs)" "vr_bottom r \<le> vr_top x" "vr_top x + h \<le> vr_bottom x"
      using Cons.prems by (simp_all add: rows_ok_def)
    moreover from Cons.IH [OF this(1) _ False] Cons.prems
    have "vr_bottom x + of_nat (length xs - 1) * h \<le> vr_top (last xs)" by simp
    moreover have "of_nat (length xs) * h = of_nat (length xs - 1) * h + h"
      using False by (cases xs) (simp_all add: algebra_simps)
    ultimately show ?thesis using False by simp
  qed (use Cons.prems in \<open>simp add: rows_ok_def\<close>)
qed simp

lemma focus_index_rows: "vl_rows (focus_index opts k s) = vl_rows s"
  by (simp add: focus_index_def focus_in_def set_active_key_def reveal_def Let_def split: option.split)

lemma rows_high:
  assumes "\<And>x. h \<le> dg_height d x"
  shows "list_all (\<lambda>r. vr_top r + h \<le> vr_bottom r) (vl_rows (fold (apply_vlist opts d) es (new_vlist opts client)))"
proof (rule fold_keeps [where P = "\<lambda>s. list_all (\<lambda>r. vr_top r + h \<le> vr_bottom r) (vl_rows s)"])
  fix e and s :: "'a vlist" assume "list_all (\<lambda>r. vr_top r + h \<le> vr_bottom r) (vl_rows s)"
  moreover have "list_all (\<lambda>r. vr_top r + h \<le> vr_bottom r) (layout_rows d y xs)" for y xs
    using assms by (induction xs arbitrary: y) simp_all
  ultimately show "list_all (\<lambda>r. vr_top r + h \<le> vr_bottom r) (vl_rows (apply_vlist opts d e s))"
    by (cases e) (simp_all add: set_items_def layout_list_def reveal_def key_down_def click_row_def focus_in_def
        set_active_key_def focus_index_rows Let_def split: option.split)
qed (simp add: new_vlist_def)

text \<open>
  C31: if every row is at least \<open>h\<close> high, no more elements are rendered than fit in the viewport
  and its overscan, plus two: the document stays small however long the list is.
\<close>

theorem rendered_rows_bounded:
  assumes "\<And>x. h \<le> dg_height d x" and "0 < h" and "0 \<le> overscan opts"
    and "s = fold (apply_vlist opts d) es (new_vlist opts client)" and "0 \<le> effective_height s"
  shows "of_nat (length (vl_rendered s)) * h \<le> effective_height s + 2 * overscan opts + 2 * h"
proof -
  have pos: "0 \<le> dg_height d x" for x using assms(1) [of x] assms(2) by simp
  have w: "window_ok opts s" unfolding assms(4) by (rule vlist_history_ok [OF pos])
  have high: "list_all (\<lambda>r. vr_top r + h \<le> vr_bottom r) (vl_rows s)" unfolding assms(4) by (rule rows_high [OF assms(1)])
  let ?rs = "filter (in_window opts s) (vl_rows s)"
  have "length (vl_rendered s) = card (set (om_keys (vl_rendered s)))"
    using w distinct_card [of "om_keys (vl_rendered s)"] by (simp add: window_ok_def om_wf_def om_keys_def)
  also have "\<dots> \<le> length ?rs"
    using w card_image_le [of "set ?rs" vr_key] card_length [of ?rs] by (simp add: window_ok_def)
  finally have le: "(of_nat (length (vl_rendered s)) :: rat) * h \<le> of_nat (length ?rs) * h" using assms(2) by simp
  have "of_nat (length ?rs) * h \<le> effective_height s + 2 * overscan opts + 2 * h"
  proof (cases ?rs)
    case (Cons r rs)
    show ?thesis
    proof (cases "rs = []")
      case False
      have "rows_ok ?rs" using w by (auto simp: window_ok_def rows_ok_def list_all_iff intro: sorted_wrt_filter)
      moreover have "list_all (\<lambda>r. vr_top r + h \<le> vr_bottom r) ?rs" using high by (simp add: list_all_iff)
      ultimately have "vr_bottom r + of_nat (length rs - 1) * h \<le> vr_top (last rs)"
        using rows_span [of r rs h] False unfolding Cons by simp
      moreover have "r \<in> set ?rs" "last rs \<in> set ?rs" using False unfolding Cons by simp_all
      then have "window_start opts s \<le> vr_bottom r" "vr_top (last rs) \<le> window_end opts s" by (simp_all add: in_window_def)
      moreover have "window_end opts s - window_start opts s \<le> effective_height s + 2 * overscan opts"
        by (simp add: window_start_def window_end_def)
      moreover have "of_nat (length ?rs) * h = of_nat (length rs - 1) * h + 2 * h"
        unfolding Cons using False by (cases rs) (simp_all add: algebra_simps)
      ultimately show ?thesis by simp
    qed (use Cons assms(2,3,5) in simp)
  qed (use assms(2,3,5) in simp)
  with le show ?thesis by simp
qed

theorem rendered_rows_bounded_witness:
  "let d = \<lparr>dg_height = (\<lambda>x. 50), dg_key = (\<lambda>x. replicate (Suc x) CHR ''a''), dg_expanded = (\<lambda>x. None), dg_level = (\<lambda>x. None)\<rparr>;
       opts = \<lparr>lo_overscan = Some 0, lo_tree = False, lo_height = Some 100\<rparr>;
       s = fold (apply_vlist opts d) [VlItems [0, 1, 2, 3, 4]] (new_vlist opts 100)
   in length (vl_rows s) = 5 \<and> of_nat (length (vl_rendered s)) \<le> (4 :: rat)"
proof -
  let ?d = "\<lparr>dg_height = (\<lambda>x. 50), dg_key = (\<lambda>x. replicate (Suc x) CHR ''a''), dg_expanded = (\<lambda>x. None), dg_level = (\<lambda>x. None)\<rparr>"
  let ?o = "\<lparr>lo_overscan = Some 0, lo_tree = False, lo_height = Some 100\<rparr>"
  define s where "s = fold (apply_vlist ?o ?d) [VlItems [0, 1, 2, 3, 4 :: nat]] (new_vlist ?o 100)"
  have r: "length (vl_rows s) = 5" "vl_client s = 100" "vl_viewport s = 100"
    by (simp_all add: s_def set_items_def Let_def new_vlist_def)
  have h: "50 \<le> dg_height ?d x" for x by simp
  have "of_nat (length (vl_rendered s)) * 50 \<le> effective_height s + 2 * overscan ?o + 2 * 50"
    by (rule rendered_rows_bounded [OF h _ _ s_def]) (simp_all add: overscan_def effective_height_def r)
  then have "of_nat (length (vl_rendered s)) \<le> (4 :: rat)" by (simp add: overscan_def effective_height_def r)
  with r(1) show ?thesis unfolding Let_def s_def by blast
qed

section \<open>The keyboard keeps the focus in sight\<close>

text \<open>The scroll position is what the content allows, and every row lies in the content.\<close>

definition scroll_ok :: "'a vlist \<Rightarrow> bool" where
  "scroll_ok s \<longleftrightarrow> 0 \<le> vl_scroll s \<and> vl_scroll s \<le> max 0 (vl_content s - vl_client s) \<and>
     list_all (\<lambda>r. 0 \<le> vr_top r \<and> vr_bottom r \<le> vl_content s) (vl_rows s) \<and> vl_tab s = (if vl_rows s = [] then 0 else -1)"

lemma scroll_to_ok [simp]: "scroll_ok s \<Longrightarrow> scroll_ok (scroll_to y s)"
  by (simp add: scroll_ok_def scroll_to_def)

lemma scroll_ok_cong:
  "scroll_ok s \<Longrightarrow> vl_scroll t = vl_scroll s \<Longrightarrow> vl_content t = vl_content s \<Longrightarrow> vl_client t = vl_client s \<Longrightarrow> vl_rows t = vl_rows s \<Longrightarrow>
   vl_tab t = vl_tab s \<Longrightarrow> scroll_ok t"
  by (simp add: scroll_ok_def)

lemma scroll_render [simp]: "scroll_ok (render_visible opts s) = scroll_ok s"
  by (simp add: scroll_ok_def)

lemma scroll_reveal: "scroll_ok s \<Longrightarrow> scroll_ok (reveal opts k s)"
  by (simp add: reveal_def split: option.split)

lemma scroll_focus: "scroll_ok s \<Longrightarrow> scroll_ok (focus_index opts k s)"
proof (cases "at_index (vl_rows s) k")
  case (Some r)
  assume "scroll_ok s"
  then have "scroll_ok (reveal opts k (s\<lparr>vl_active := Some (vr_key r)\<rparr>))"
    by (intro scroll_reveal) (simp add: scroll_ok_def)
  then show ?thesis using Some
    by (auto simp: focus_index_def focus_in_def set_active_key_def Let_def intro: scroll_ok_cong)
qed (simp add: focus_index_def)

lemma layout_rows_content:
  assumes "\<And>x. 0 \<le> dg_height d x"
  shows "list_all (\<lambda>r. y \<le> vr_top r \<and> vr_bottom r \<le> y + sum_list (map (dg_height d) xs)) (layout_rows d y xs)"
proof (induction xs arbitrary: y)
  case (Cons x xs)
  have "0 \<le> sum_list (map (dg_height d) xs)" using assms by (intro sum_list_nonneg) auto
  moreover have "y + dg_height d x + sum_list (map (dg_height d) xs) = y + (dg_height d x + sum_list (map (dg_height d) xs))" by simp
  ultimately show ?case using Cons [of "y + dg_height d x"] assms [of x]
    by (auto simp: list_all_iff intro: order_trans)
qed simp

lemma layout_rows_Nil [simp]: "layout_rows d y xs = [] \<longleftrightarrow> xs = []"
  by (cases xs) simp_all

lemma scroll_step:
  assumes "\<And>x. 0 \<le> dg_height d x" and "scroll_ok s"
  shows "scroll_ok (apply_vlist opts d e s)"
proof (cases e)
  case (VlItems xs)
  then show ?thesis using layout_rows_content [OF assms(1), of 0 xs]
    by (simp add: set_items_def Let_def) (auto simp: scroll_ok_def scroll_to_def max_def)
next
  case (VlKey key target)
  have "scroll_ok (click_row x s)" for x using assms(2) by (simp add: click_row_def scroll_ok_def split: option.split)
  then show ?thesis using assms(2) by (auto simp: VlKey key_down_def Let_def intro: scroll_focus split: option.split)
next
  case (VlPointer k)
  then show ?thesis using assms(2) by (simp add: focus_in_def set_active_key_def scroll_ok_def)
next
  case (VlResize h)
  then show ?thesis using assms(2) by (simp add: scroll_ok_def scroll_to_def)
next
  case (VlLayout h)
  then show ?thesis using assms(2) by (simp add: layout_list_def scroll_ok_def split: option.split)
qed (use assms(2) in \<open>simp_all add: scroll_reveal\<close>)

lemma scroll_ok_new: "0 \<le> client \<Longrightarrow> scroll_ok (new_vlist opts client)"
  by (simp add: scroll_ok_def new_vlist_def)

lemma scroll_history:
  "(\<And>x. 0 \<le> dg_height d x) \<Longrightarrow> 0 \<le> client \<Longrightarrow> scroll_ok (fold (apply_vlist opts d) es (new_vlist opts client))"
  by (rule fold_keeps [where P = scroll_ok]) (auto intro: scroll_step scroll_ok_new)

lemma reveal_in_window:
  assumes "rows_ok (vl_rows s)" and "scroll_ok s" and "k < length (vl_rows s)" and "0 \<le> overscan opts"
    and "0 \<le> vl_client s" and "vl_client s \<le> effective_height s"
  shows "in_window opts (reveal opts k s) (vl_rows s ! k)"
proof -
  let ?r = "vl_rows s ! k" and ?H = "effective_height s"
  have r: "0 \<le> vr_top ?r" "vr_bottom ?r \<le> vl_content s" "vr_top ?r \<le> vr_bottom ?r"
    using assms(1-3) by (auto simp: rows_ok_def scroll_ok_def list_all_length)
  have s: "0 \<le> vl_scroll s" "vl_scroll s \<le> max 0 (vl_content s - vl_client s)" using assms(2) by (simp_all add: scroll_ok_def)
  define t where "t = (if vr_top ?r < vl_scroll s then scroll_to (vr_top ?r) s
             else if vl_scroll s + ?H < vr_bottom ?r then scroll_to (vr_bottom ?r - ?H) s else s)"
  have e: "effective_height t = ?H" by (simp add: t_def effective_height_def)
  have y: "vl_scroll t \<le> vr_bottom ?r \<and> vr_top ?r \<le> vl_scroll t + ?H"
    using r s assms(5,6) by (auto simp: t_def scroll_to_def)
  have "reveal opts k s = render_visible opts t" using assms(3) by (simp add: reveal_def at_index_def t_def)
  moreover have "in_window opts (render_visible opts t) ?r = in_window opts t ?r"
    by (simp add: in_window_def window_start_def window_end_def effective_height_def)
  moreover have "in_window opts t ?r" using y r assms(4) by (auto simp: in_window_def window_start_def window_end_def e)
  ultimately show ?thesis by simp
qed

lemma focus_in_facts:
  "vl_focused (focus_in k s) = vl_focused s" "om_has (vl_rendered (focus_in k s)) x = om_has (vl_rendered s) x"
  "vl_active s = Some k \<Longrightarrow> vl_active (focus_in k s) = Some k" "in_window opts (focus_in k s) = in_window opts s"
  "in_window opts (s\<lparr>vl_focused := f\<rparr>) = in_window opts s"
proof -
  have "om_has (map (\<lambda>(k', e). (k', g k' e)) m) x = om_has m x" for g :: "string \<Rightarrow> 'a velement \<Rightarrow> 'a velement" and m
    by (induction m) (auto simp: om_has_def)
  then show "om_has (vl_rendered (focus_in k s)) x = om_has (vl_rendered s) x" by (simp add: focus_in_def set_active_key_def)
qed (simp_all add: focus_in_def set_active_key_def in_window_def [abs_def] window_start_def window_end_def effective_height_def)

text \<open>
  C32: the row that the keyboard moves to is scrolled into the window, rendered, focused and made
  the active one, wherever the viewport stood before.
\<close>

theorem keyboard_focus_is_in_sight:
  assumes "\<And>x. 0 \<le> dg_height d x" and "0 \<le> client" and "0 \<le> overscan opts"
    and "s = fold (apply_vlist opts d) es (new_vlist opts client)"
    and "0 \<le> vl_client s" and "vl_client s \<le> effective_height s"
    and "key_target opts d key target s = Some k" and "k < length (vl_rows s)" and "key \<noteq> ''Enter''" and "key \<noteq> '' ''"
  shows "let t = key_down opts d key target s; x = vr_key (vl_rows s ! k)
    in vl_focused t = Some x \<and> vl_active t = Some x \<and> om_has (vl_rendered t) x \<and> in_window opts t (vl_rows s ! k)"
proof -
  let ?x = "vr_key (vl_rows s ! k)"
  have w: "window_ok opts s" and sc: "scroll_ok s"
    unfolding assms(4) by (rule vlist_history_ok [OF assms(1)], rule scroll_history [OF assms(1,2)])
  have focus: "vl_focused t = Some ?x \<and> vl_active t = Some ?x \<and> om_has (vl_rendered t) ?x \<and> in_window opts t (vl_rows s ! k)"
    if c: "c = s \<or> (\<exists>x. c = click_row x s)" and t: "t = focus_index opts k c" for c t
  proof -
    let ?c = "c\<lparr>vl_active := Some ?x\<rparr>"
    have f: "vl_rows c = vl_rows s" "vl_client c = vl_client s" "vl_viewport c = vl_viewport s"
      "vl_scroll c = vl_scroll s" "vl_rendered c = vl_rendered s" "vl_content c = vl_content s" "vl_tab c = vl_tab s"
      using c by (auto simp: click_row_def effective_height_def split: option.splits)
    have c': "rows_ok (vl_rows ?c)" "om_wf (vl_rendered ?c)" "scroll_ok ?c" using w sc f by (simp_all add: window_ok_def scroll_ok_def)
    have k: "at_index (vl_rows c) k = Some (vl_rows s ! k)" using assms(8) f by (simp add: at_index_def)
    let ?t = "reveal opts k ?c"
    have wt: "window_ok opts ?t" using k c' by (auto simp: reveal_def intro!: render_visible_ok)
    have h: "effective_height ?c = effective_height s" using f by (simp add: effective_height_def)
    have "in_window opts ?t (vl_rows ?c ! k)"
      by (rule reveal_in_window [OF c'(1,3)]) (use f h assms(3,5,6,8) in simp_all)
    then have sight: "in_window opts ?t (vl_rows s ! k)" using f by simp
    moreover have "vl_rows ?t = vl_rows s" using f by (simp add: reveal_def split: option.split)
    ultimately have "?x \<in> set (om_keys (vl_rendered ?t))" using wt assms(8) by (auto simp: window_ok_def)
    then have h: "om_has (vl_rendered ?t) ?x" by (simp add: om_has_def om_keys_def map_of_eq_None_iff)
    have a: "vl_active ?t = Some ?x" using k by (simp add: reveal_def)
    have "t = focus_in ?x (?t\<lparr>vl_focused := Some ?x\<rparr>)" unfolding t using h k by (simp add: focus_index_def Let_def)
    then show ?thesis using h a sight by (simp add: focus_in_facts)
  qed
  obtain c where cc: "c = s \<or> (\<exists>x. c = click_row x s)" and kc: "key_down opts d key target s = focus_index opts k c"
  proof -
    let ?c = "if lo_tree opts \<and> (key = ''ArrowRight'' \<and> (case target of None \<Rightarrow> None | Some k \<Rightarrow>
            (case om_get (vl_rendered s) k of None \<Rightarrow> None | Some e \<Rightarrow> dg_expanded d (ve_item e))) = Some False \<or>
          key = ''ArrowLeft'' \<and> (case target of None \<Rightarrow> None | Some k \<Rightarrow>
            (case om_get (vl_rendered s) k of None \<Rightarrow> None | Some e \<Rightarrow> dg_expanded d (ve_item e))) = Some True)
        then click_row target s else s"
    show ?thesis by (rule that [of ?c]) (use assms(7,9,10) in \<open>auto simp: key_down_def Let_def\<close>)
  qed
  from focus [OF cc kc] show ?thesis unfolding Let_def .
qed

theorem keyboard_focus_is_in_sight_witness:
  "let d = \<lparr>dg_height = (\<lambda>x. 50), dg_key = (\<lambda>x. replicate (Suc x) CHR ''a''), dg_expanded = (\<lambda>x. None), dg_level = (\<lambda>x. None)\<rparr>;
       opts = \<lparr>lo_overscan = Some 0, lo_tree = False, lo_height = Some 100\<rparr>;
       s = fold (apply_vlist opts d) [VlItems [0, 1, 2, 3]] (new_vlist opts 100)
   in vl_focused (key_down opts d ''End'' None s) = Some ''aaaa''"
proof -
  let ?d = "\<lparr>dg_height = (\<lambda>x. 50), dg_key = (\<lambda>x. replicate (Suc x) CHR ''a''), dg_expanded = (\<lambda>x. None), dg_level = (\<lambda>x. None)\<rparr>"
  let ?o = "\<lparr>lo_overscan = Some 0, lo_tree = False, lo_height = Some 100\<rparr>"
  let ?s = "fold (apply_vlist ?o ?d) [VlItems [0, 1, 2, 3 :: nat]] (new_vlist ?o 100)"
  define s where "s = ?s"
  have r: "map vr_key (vl_rows s) = [''a'', ''aa'', ''aaa'', ''aaaa'']" "length (vl_rows s) = 4" "vl_client s = 100" "vl_viewport s = 100"
    by (simp_all add: s_def set_items_def Let_def new_vlist_def numeral_eq_Suc)
  have h: "0 \<le> dg_height ?d x" for x by simp
  have n: "key_target ?o ?d ''End'' None s = Some 3" unfolding key_target_def Let_def r(2) by simp
  have "map vr_key (vl_rows s) ! 3 = vr_key (vl_rows s ! 3)" by (rule nth_map) (simp only: r(2))
  then have k: "vr_key (vl_rows s ! 3) = ''aaaa''" unfolding r(1) by simp
  have p: "(0 :: rat) \<le> 100" "0 \<le> overscan ?o" "0 \<le> vl_client s" "vl_client s \<le> effective_height s" "3 < length (vl_rows s)"
    by (simp_all add: overscan_def effective_height_def r)
  have "vl_focused (key_down ?o ?d ''End'' None s) = Some ''aaaa''"
    using keyboard_focus_is_in_sight [OF h p(1,2) s_def p(3,4) n p(5)] unfolding Let_def k by blast
  then show ?thesis unfolding Let_def s_def .
qed

text \<open>
  When the active row has been scrolled out of the window, neither a row nor the list itself
  is a tab stop, so that the list cannot be reached from the keyboard any more.
\<close>

theorem scrolled_list_has_no_tab_stop:
  assumes "\<And>x. 0 \<le> dg_height d x" and "0 \<le> client" and "s = fold (apply_vlist opts d) es (new_vlist opts client)"
    and "vl_rows s \<noteq> []" and "vl_active s = Some x" and "list_all (\<lambda>r. vr_key r = x \<longrightarrow> \<not> in_window opts s r) (vl_rows s)"
  shows "vl_tab s = -1 \<and> list_all (\<lambda>(k, e). ve_tab e = -1) (vl_rendered s)"
proof -
  have w: "window_ok opts s" and sc: "scroll_ok s"
    unfolding assms(3) by (rule vlist_history_ok [OF assms(1)], rule scroll_history [OF assms(1,2)])
  have "x \<notin> set (om_keys (vl_rendered s))" using w assms(6) by (auto simp: window_ok_def list_all_iff)
  then have "ve_tab e = -1" if "(k, e) \<in> set (vl_rendered s)" for k e
  proof -
    have "k \<noteq> x" using that \<open>x \<notin> _\<close> by (force simp: om_keys_def)
    then show ?thesis using that w assms(5) by (auto simp: window_ok_def list_all_iff tab_of_def)
  qed
  then show ?thesis using sc assms(4) by (auto simp: scroll_ok_def list_all_iff)
qed

theorem scrolled_list_has_no_tab_stop_witness:
  "let d = \<lparr>dg_height = (\<lambda>x. 50), dg_key = (\<lambda>x. replicate (Suc x) CHR ''a''), dg_expanded = (\<lambda>x. None), dg_level = (\<lambda>x. None)\<rparr>;
       opts = \<lparr>lo_overscan = Some 0, lo_tree = False, lo_height = Some 100\<rparr>;
       s = fold (apply_vlist opts d) [VlItems [0, 1, 2, 3], VlScroll 100] (new_vlist opts 100)
   in vl_tab s = -1 \<and> list_all (\<lambda>(k, e). ve_tab e = -1) (vl_rendered s)"
proof -
  let ?d = "\<lparr>dg_height = (\<lambda>x. 50), dg_key = (\<lambda>x. replicate (Suc x) CHR ''a''), dg_expanded = (\<lambda>x. None), dg_level = (\<lambda>x. None)\<rparr>"
  let ?o = "\<lparr>lo_overscan = Some 0, lo_tree = False, lo_height = Some 100\<rparr>"
  let ?s = "fold (apply_vlist ?o ?d) [VlItems [0, 1, 2, 3 :: nat], VlScroll 100] (new_vlist ?o 100)"
  have h: "0 \<le> dg_height ?d x" for x by simp
  define s where "s = ?s"
  have r: "vl_rows s = layout_rows ?d 0 [0, 1, 2, 3]" "vl_scroll s = 100" "vl_active s = Some ''a''"
    by (simp_all add: s_def set_items_def Let_def new_vlist_def scroll_to_def at_first_def)
  have "list_all (\<lambda>r. vr_key r = ''a'' \<longrightarrow> \<not> in_window ?o s r) (vl_rows s)"
    unfolding r(1) by (simp add: in_window_def window_start_def r(2) overscan_def)
  then have "vl_tab s = -1 \<and> list_all (\<lambda>(k, e). ve_tab e = -1) (vl_rendered s)"
    by (intro scrolled_list_has_no_tab_stop [OF h _ s_def _ r(3)]) (simp_all add: r(1))
  then show ?thesis unfolding Let_def s_def .
qed

end
