(* ===== verification/CatalogView.thy ===== *)
theory CatalogView
  imports Sessions CatalogSections VirtualList "HOL-Library.Sublist"
begin

unbundle bit_operations_syntax

text \<open>
  \<open>packages/workbench/src/contrib/sessions/session-catalog-view.ts\<close>: the list of the sessions, its
  rows, the filter and the collapsed sections, the selection, the keyboard and the actions of a
  row, which run the commands of \<open>Sessions\<close> on the services of \<open>Sessions\<close>.

  What a row's elements show is a record computed from the view's state.  Parameters are
  \<open>Date.parse\<close>, the clock, the start of the local day, the collation and the formatters of the
  language's \<open>Intl\<close>; letters are lowered as ASCII.
\<close>

section \<open>Rows\<close>

datatype catalog_row =
    SectionRow (section_count: nat) (row_workspace: string) (row_workspace_name: string)
  | SessionRow (row_identity: session_identity) (row_item: "catalog_item option") (row_title: string) (row_workspace_name: string)

fun row_key :: "catalog_row \<Rightarrow> string" where
  "row_key (SectionRow c ws name) = ''section:'' @ ws"
| "row_key (SessionRow i item title name) = ''session:'' @ session_identity_key i"

fun is_session_row :: "catalog_row \<Rightarrow> bool" where
  "is_session_row (SessionRow i item title name) = True"
| "is_session_row (SectionRow c ws name) = False"

definition has_status :: "int option \<Rightarrow> int \<Rightarrow> bool" where
  "has_status status flag \<longleftrightarrow> (case status of None \<Rightarrow> False | Some s \<Rightarrow> s AND flag = flag)"

definition archived_status :: int where
  "archived_status = 64"

definition approval_row_height :: "string \<Rightarrow> rat" where
  "approval_row_height label = of_nat (min (Suc (length (filter (\<lambda>c. c = CHR 0x0A) label))) 3) * 18 + 14"

definition row_height :: "bool \<Rightarrow> catalog_row \<Rightarrow> rat" where
  "row_height narrow r =
     (case r of
        SectionRow c ws name \<Rightarrow> (if narrow then 26 else 30)
      | SessionRow i item title name \<Rightarrow>
          (if narrow then 52 else 54) +
          (case item of None \<Rightarrow> 0 | Some x \<Rightarrow> (case ci_approval x of None \<Rightarrow> 0 | Some l \<Rightarrow> approval_row_height l)))"

definition js_round :: "rat \<Rightarrow> int" where
  "js_round x = \<lfloor>x + 1 / 2\<rfloor>"

record time_format =
  tf_parse :: "string \<Rightarrow> int option"
  tf_relative :: "int \<Rightarrow> string \<Rightarrow> string"
  tf_date :: "int \<Rightarrow> string"

definition relative_time :: "time_format \<Rightarrow> int \<Rightarrow> string option \<Rightarrow> string" where
  "relative_time tf now v =
     (case v of
        None \<Rightarrow> []
      | Some t \<Rightarrow>
          if t = [] then []
          else (case tf_parse tf t of
             None \<Rightarrow> []
           | Some stamp \<Rightarrow>
               let seconds = js_round (of_int (stamp - now) / 1000);
                   minutes = js_round (of_int seconds / 60);
                   hours = js_round (of_int minutes / 60);
                   days = js_round (of_int hours / 24)
               in if \<bar>seconds\<bar> < 60 then tf_relative tf seconds ''second''
                  else if \<bar>minutes\<bar> < 60 then tf_relative tf minutes ''minute''
                  else if \<bar>hours\<bar> < 24 then tf_relative tf hours ''hour''
                  else if \<bar>days\<bar> < 7 then tf_relative tf days ''day''
                  else tf_date tf stamp))"

section \<open>The view\<close>

record catalog_env =
  ce_format :: time_format
  ce_now :: int
  ce_start_of_day :: "int \<Rightarrow> int"
  ce_compare :: "string \<Rightarrow> string \<Rightarrow> int"

record catalog_view =
  cv_world :: session_world
  cv_search :: string
  cv_search_hidden :: bool
  cv_collapsed :: "string list"
  cv_rows :: "catalog_row list"
  cv_index :: int
  cv_compact :: bool
  cv_selected :: "string list"
  cv_anchor :: int
  cv_menu :: "session_identity option"
  cv_hovered :: "string option"
  cv_pending :: bool
  cv_storage :: "browser_storage option"
  cv_list :: "catalog_row vlist"
  cv_minute :: int
  cv_focus :: "string option"

abbreviation cv_catalog :: "catalog_view \<Rightarrow> session_catalog" where
  "cv_catalog v \<equiv> se_catalog (cv_world v)"

definition row_delegate :: "catalog_view \<Rightarrow> catalog_row delegate" where
  "row_delegate v = \<lparr>dg_height = row_height (cv_compact v), dg_key = row_key, dg_expanded = (\<lambda>r. None), dg_level = (\<lambda>r. None)\<rparr>"

abbreviation catalog_list_options :: list_options where
  "catalog_list_options \<equiv> \<lparr>lo_overscan = None, lo_tree = False, lo_height = None\<rparr>"

definition text_includes :: "string \<Rightarrow> string \<Rightarrow> bool" where
  "text_includes t s \<longleftrightarrow> list_ex (\<lambda>k. starts_with t (drop k s)) [0..<Suc (length s)]"

definition view_filter :: "catalog_view \<Rightarrow> string" where
  "view_filter v = to_lower (js_trim (cv_search v))"

text \<open>\<open>itemByIdentity\<close>: of several items with one identity the last one counts.\<close>

definition item_of :: "session_catalog \<Rightarrow> session_identity \<Rightarrow> catalog_item option" where
  "item_of c i = om_get (fold (\<lambda>x m. om_set (item_key x) x m) (sc_items c) []) (session_identity_key i)"

definition session_row :: "session_catalog \<Rightarrow> workspace \<Rightarrow> string \<Rightarrow> catalog_row" where
  "session_row c ws r =
     (let i = \<lparr>si_workspace = wk_id ws, si_resource = r\<rparr>
      in SessionRow i (item_of c i) (get_or ''Session'' (sc_titles c) (session_identity_key i)) (wk_name ws))"

definition row_texts :: "catalog_row \<Rightarrow> string list" where
  "row_texts r =
     filter (\<lambda>t. t \<noteq> [])
       [row_title r, (case row_item r of None \<Rightarrow> [] | Some x \<Rightarrow> ci_provider x),
        (case row_item r of None \<Rightarrow> [] | Some x \<Rightarrow> or_text (ci_activity x) []), row_workspace_name r]"

definition row_matches :: "string \<Rightarrow> catalog_row \<Rightarrow> bool" where
  "row_matches flt r \<longleftrightarrow> flt = [] \<or> list_ex (\<lambda>t. text_includes flt (to_lower t)) (row_texts r)"

definition item_archived :: "session_catalog \<Rightarrow> catalog_item \<Rightarrow> bool" where
  "item_archived c x \<longleftrightarrow> has_status (Some (ci_status x)) archived_status \<or>
     is_archived \<lparr>si_workspace = ci_workspace x, si_resource = ci_resource x\<rparr> c"

definition catalog_options :: "catalog_env \<Rightarrow> session_catalog \<Rightarrow> section_options" where
  "catalog_options env c =
     \<lparr>so_archived = item_archived c, so_pinned = (\<lambda>x. is_pinned \<lparr>si_workspace = ci_workspace x, si_resource = ci_resource x\<rparr> c),
      so_now = ce_now env, so_grouping = Capped, so_expanded = [], so_limit = 5\<rparr>"

text \<open>The position of each session in its sections; sessions without an item come last.\<close>

definition catalog_order :: "catalog_env \<Rightarrow> session_catalog \<Rightarrow> catalog_row list \<Rightarrow> (string, int) omap" where
  "catalog_order env c entries =
     (let sorted = calculate_sections (tf_parse (ce_format env)) (ce_start_of_day env) (ce_compare env) (catalog_options env c)
                     (List.map_filter row_item entries)
      in fold (\<lambda>(k, e) m. om_set (item_key (se_item e)) (int k) m) (enumerate 0 sorted) [])"

definition max_safe_integer :: int where
  "max_safe_integer = 2 ^ 53 - 1"

definition sorted_entries :: "catalog_env \<Rightarrow> session_catalog \<Rightarrow> catalog_row list \<Rightarrow> catalog_row list" where
  "sorted_entries env c entries =
     (let order = catalog_order env c entries;
          place = (\<lambda>r. get_or max_safe_integer order (session_identity_key (row_identity r)))
      in js_sort (\<lambda>l r. place l - place r) entries)"

definition workspace_entries :: "catalog_view \<Rightarrow> workspace \<Rightarrow> catalog_row list" where
  "workspace_entries v ws =
     filter (row_matches (view_filter v)) (map (session_row (cv_catalog v) ws) (get_or [] (sc_sessions (cv_catalog v)) (wk_id ws)))"

definition workspace_rows :: "catalog_env \<Rightarrow> catalog_view \<Rightarrow> workspace \<Rightarrow> catalog_row list" where
  "workspace_rows env v ws =
     (let entries = sorted_entries env (cv_catalog v) (workspace_entries v ws)
      in if entries = [] then []
         else SectionRow (length entries) (wk_id ws) (wk_name ws) #
              (if wk_id ws \<in> set (cv_collapsed v) then [] else entries))"

fun shows_session :: "session_identity \<Rightarrow> catalog_row \<Rightarrow> bool" where
  "shows_session i (SessionRow j item title name) = (session_identity_key j = session_identity_key i)"
| "shows_session i (SectionRow c ws name) = False"

definition row_index :: "(catalog_row \<Rightarrow> bool) \<Rightarrow> catalog_row list \<Rightarrow> int" where
  "row_index P rows = (case find_index P rows of None \<Rightarrow> -1 | Some k \<Rightarrow> int k)"

definition catalog_rows :: "catalog_env \<Rightarrow> catalog_view \<Rightarrow> catalog_row list" where
  "catalog_rows env v = concat (map (workspace_rows env v) (se_workspaces (cv_world v)))"

definition update_rows :: "catalog_env \<Rightarrow> catalog_view \<Rightarrow> catalog_view" where
  "update_rows env v =
     (let rows = catalog_rows env v;
          found = (case active_of (cv_world v) of None \<Rightarrow> -1 | Some i \<Rightarrow> row_index (shows_session i) rows);
          v1 = v\<lparr>cv_rows := rows, cv_index := (if found < 0 \<and> rows \<noteq> [] then 0 else found)\<rparr>
      in v1\<lparr>cv_list := set_items catalog_list_options (row_delegate v1) rows (cv_list v1)\<rparr>)"

definition toggle_filter :: "catalog_env \<Rightarrow> catalog_view \<Rightarrow> catalog_view" where
  "toggle_filter env v =
     (if cv_search_hidden v then v\<lparr>cv_search_hidden := False\<rparr>
      else update_rows env (v\<lparr>cv_search_hidden := True, cv_search := []\<rparr>))"

definition type_filter :: "catalog_env \<Rightarrow> string \<Rightarrow> catalog_view \<Rightarrow> catalog_view" where
  "type_filter env t v = update_rows env (v\<lparr>cv_search := t\<rparr>)"

section \<open>Collapsed sections\<close>

definition collapsed_key :: string where
  "collapsed_key = ''zaw.session-catalog.collapsed''"

definition toggle_section :: "catalog_env \<Rightarrow> string \<Rightarrow> catalog_view \<Rightarrow> catalog_view" where
  "toggle_section env ws v =
     (let c = toggle_in ws (cv_collapsed v)
      in update_rows env (v\<lparr>cv_collapsed := c, cv_storage := store_item collapsed_key (json_text (JArr (map JStr c))) (cv_storage v)\<rparr>))"

definition restore_collapsed :: "browser_storage option \<Rightarrow> string list" where
  "restore_collapsed st =
     (case stored_item collapsed_key st of
        None \<Rightarrow> []
      | Some t \<Rightarrow>
          if t = [] then []
          else (case json_parse t of None \<Rightarrow> [] | Some v \<Rightarrow> fold os_add (strings_in v) []))"

definition click_section :: "catalog_env \<Rightarrow> string \<Rightarrow> catalog_view \<Rightarrow> catalog_view" where
  "click_section env ws v =
     toggle_section env ws (v\<lparr>cv_index := row_index (\<lambda>r. row_key r = ''section:'' @ ws) (cv_rows v)\<rparr>)"

definition new_catalog_view :: "catalog_env \<Rightarrow> browser_storage option \<Rightarrow> rat \<Rightarrow> session_world \<Rightarrow> catalog_view" where
  "new_catalog_view env st client w =
     update_rows env
       \<lparr>cv_world = w, cv_search = [], cv_search_hidden = True, cv_collapsed = restore_collapsed st, cv_rows = [], cv_index = -1,
        cv_compact = False, cv_selected = [], cv_anchor = -1, cv_menu = None, cv_hovered = None, cv_pending = False,
        cv_storage = st, cv_list = new_vlist catalog_list_options client, cv_minute = ce_now env div 60000, cv_focus = None\<rparr>"

definition resize_view :: "catalog_env \<Rightarrow> rat \<Rightarrow> catalog_view \<Rightarrow> catalog_view" where
  "resize_view env width v =
     (let narrow = (width \<le> 280) in if narrow = cv_compact v then v else update_rows env (v\<lparr>cv_compact := narrow\<rparr>))"

section \<open>Listening to the services\<close>

text \<open>
  What the listeners do when the services have changed: a change of the catalog waits while a row
  is hovered; a change of the active session or of the workspaces is shown at once; a request of
  the filter toggles it.
\<close>

definition heard :: "catalog_env \<Rightarrow> session_world \<Rightarrow> catalog_view \<Rightarrow> catalog_view" where
  "heard env w v =
     (let old = cv_world v; v1 = v\<lparr>cv_world := w\<rparr>;
          v2 = (if sc_fires (se_catalog w) = sc_fires (se_catalog old) then v1
                else if cv_hovered v1 \<noteq> None then v1\<lparr>cv_pending := True\<rparr> else update_rows env v1);
          v3 = (if as_fired (nw_active (se_nav w)) = as_fired (nw_active (se_nav old)) \<and> se_changes w = se_changes old then v2
                else update_rows env v2)
      in if sc_filter_fires (se_catalog w) = sc_filter_fires (se_catalog old) then v3 else toggle_filter env v3)"

definition tick :: "catalog_env \<Rightarrow> catalog_view \<Rightarrow> catalog_view" where
  "tick env v =
     (let minute = ce_now env div 60000
      in if \<not> list_ex (\<lambda>x. has_status (Some (ci_status x)) 8) (sc_items (cv_catalog v)) \<and> minute = cv_minute v then v
         else update_rows env (v\<lparr>cv_minute := minute\<rparr>))"

text \<open>The identity of the row an element shows, if it is still listed.\<close>

definition hover_enter :: "session_identity option \<Rightarrow> catalog_view \<Rightarrow> catalog_view" where
  "hover_enter i v = v\<lparr>cv_hovered := map_option session_identity_key i\<rparr>"

definition hover_leave :: "catalog_env \<Rightarrow> session_identity option \<Rightarrow> catalog_view \<Rightarrow> catalog_view" where
  "hover_leave env i v =
     (if i \<noteq> None \<and> cv_hovered v \<noteq> map_option session_identity_key i then v
      else let v1 = v\<lparr>cv_hovered := None\<rparr>
           in if \<not> cv_pending v1 then v1 else update_rows env (v1\<lparr>cv_pending := False\<rparr>))"

section \<open>Selection\<close>

definition run_command :: "catalog_env \<Rightarrow> string \<Rightarrow> json list \<Rightarrow> catalog_view \<Rightarrow> catalog_view" where
  "run_command env k args v = heard env (fst (execute_command k args session_registry (cv_world v))) v"

definition select_row :: "catalog_env \<Rightarrow> session_identity \<Rightarrow> catalog_view \<Rightarrow> catalog_view" where
  "select_row env i v =
     (let w = cv_world v; v1 = heard env (w\<lparr>se_catalog := mark_read i True (se_catalog w)\<rparr>) v
      in run_command env ''zaw.session.open'' [identity_json i] v1)"

text \<open>\<open>rows.slice(start, end)\<close>: negative positions count from the end.\<close>

definition slice_position :: "int \<Rightarrow> 'a list \<Rightarrow> nat" where
  "slice_position k xs = nat (if k < 0 then max 0 (int (length xs) + k) else min k (int (length xs)))"

definition js_slice :: "int \<Rightarrow> int \<Rightarrow> 'a list \<Rightarrow> 'a list" where
  "js_slice a b xs = drop (slice_position a xs) (take (slice_position b xs) xs)"

definition session_keys :: "catalog_row list \<Rightarrow> string list" where
  "session_keys rows = map (\<lambda>r. session_identity_key (row_identity r)) (filter is_session_row rows)"

definition handle_selection :: "catalog_env \<Rightarrow> session_identity \<Rightarrow> bool \<Rightarrow> bool \<Rightarrow> catalog_view \<Rightarrow> catalog_view" where
  "handle_selection env i shift ctrl v =
     (let k = row_index (shows_session i) (cv_rows v); key = session_identity_key i
      in if shift \<and> 0 \<le> cv_anchor v
         then update_rows env (v\<lparr>cv_selected :=
                fold os_add (session_keys (js_slice (min (cv_anchor v) k) (max (cv_anchor v) k + 1) (cv_rows v))) []\<rparr>)
         else if ctrl then update_rows env (v\<lparr>cv_selected := toggle_in key (cv_selected v), cv_anchor := k\<rparr>)
         else select_row env i (v\<lparr>cv_selected := [key], cv_anchor := k\<rparr>))"

section \<open>The keyboard\<close>

definition move_to :: "catalog_env \<Rightarrow> nat \<Rightarrow> catalog_view \<Rightarrow> catalog_view" where
  "move_to env k v =
     (let row = cv_rows v ! k; v1 = v\<lparr>cv_index := int k\<rparr>;
          v2 = (if is_session_row row then select_row env (row_identity row) v1 else v1);
          v3 = v2\<lparr>cv_list := reveal catalog_list_options k (cv_list v2)\<rparr>
      in if om_has (vl_rendered (cv_list v3)) (row_key row) then v3\<lparr>cv_focus := Some (row_key row)\<rparr> else v3)"

definition list_key_down :: "catalog_env \<Rightarrow> string \<Rightarrow> catalog_view \<Rightarrow> catalog_view" where
  "list_key_down env key v =
     (if key \<notin> {''ArrowDown'', ''ArrowUp'', ''Home'', ''End''} then v
      else let start = (if key = ''Home'' then -1 else if key = ''End'' then int (length (cv_rows v)) else cv_index v);
               k = start + (if key = ''ArrowUp'' \<or> key = ''End'' then -1 else 1)
           in if k < 0 \<or> int (length (cv_rows v)) \<le> k then v else move_to env (nat k) v)"

section \<open>The actions of a row\<close>

record session_action_context =
  ac_session :: session_identity
  ac_sessions :: "session_identity list"

definition action_context :: "session_identity \<Rightarrow> catalog_view \<Rightarrow> session_action_context" where
  "action_context i v =
     (let xs = map row_identity (filter (\<lambda>r. is_session_row r \<and> session_identity_key (row_identity r) \<in> set (cv_selected v)) (cv_rows v))
      in \<lparr>ac_session = i, ac_sessions = (if xs = [] then [i] else xs)\<rparr>)"

definition context_json :: "session_action_context \<Rightarrow> json" where
  "context_json c = JObj [(''session'', identity_json (ac_session c)), (''sessions'', JArr (map identity_json (ac_sessions c)))]"

definition close_menu :: "catalog_view \<Rightarrow> catalog_view" where
  "close_menu v = v\<lparr>cv_menu := None\<rparr>"

definition run_session_action :: "catalog_env \<Rightarrow> string \<Rightarrow> session_identity \<Rightarrow> catalog_view \<Rightarrow> catalog_view" where
  "run_session_action env cmd i v =
     close_menu (run_command env cmd
       [context_json (action_context i v),
        if cmd = ''zaw.session.markRead'' then JBool (is_read i (cv_catalog v)) else JUndef] v)"

definition show_menu :: "session_identity \<Rightarrow> catalog_view \<Rightarrow> catalog_view" where
  "show_menu i v = (close_menu v)\<lparr>cv_menu := Some i\<rparr>"

definition context_menu :: "catalog_env \<Rightarrow> session_identity \<Rightarrow> catalog_view \<Rightarrow> catalog_view" where
  "context_menu env i v =
     (let key = session_identity_key i
      in show_menu i (if key \<in> set (cv_selected v) then v else update_rows env (v\<lparr>cv_selected := [key]\<rparr>)))"

definition action_label :: "string \<Rightarrow> string \<Rightarrow> session_identity \<Rightarrow> session_catalog \<Rightarrow> string" where
  "action_label cmd title i c =
     (if cmd = ''zaw.session.togglePinned'' then (if is_pinned i c then ''Unpin session'' else ''Pin session'')
      else if cmd = ''zaw.session.toggleArchived'' then (if is_archived i c then ''Unarchive session'' else ''Archive session'')
      else if cmd = ''zaw.session.markRead'' then (if is_read i c then ''Mark unread'' else ''Mark read'')
      else title)"

section \<open>What a row shows\<close>

definition row_element_id :: "string \<Rightarrow> string" where
  "row_element_id key =
     map (\<lambda>c. if is_upper c \<or> CHR ''a'' \<le> c \<and> c \<le> CHR ''z'' \<or> is_digit c \<or> c \<in> {CHR ''_'', CHR ''-''} then c else CHR ''-'') key"

definition row_archived :: "session_catalog \<Rightarrow> session_identity \<Rightarrow> catalog_item option \<Rightarrow> bool" where
  "row_archived c i item \<longleftrightarrow> is_archived i c \<or> has_status (map_option ci_status item) archived_status"

record session_details_shown =
  sd_badge :: string
  sd_added :: int
  sd_removed :: int
  sd_diff_hidden :: bool
  sd_description :: string
  sd_time :: string
  sd_approval :: string

definition session_details_view :: "time_format \<Rightarrow> int \<Rightarrow> catalog_item option \<Rightarrow> string \<Rightarrow> session_details_shown" where
  "session_details_view tf now item label =
     (case item of
        None \<Rightarrow> \<lparr>sd_badge = [], sd_added = 0, sd_removed = 0, sd_diff_hidden = True, sd_description = [], sd_time = [], sd_approval = []\<rparr>
      | Some x \<Rightarrow>
          let n = (\<lambda>f. case ci_changes x of None \<Rightarrow> 0 | Some c \<Rightarrow> or_else (f c) 0);
              added = n fst; removed = n (fst \<circ> snd)
          in \<lparr>sd_badge = or_text (ci_repository x) (or_str (ci_provider x) (or_text (ci_directory x) [])),
              sd_added = added, sd_removed = removed, sd_diff_hidden = (added = 0 \<and> removed = 0),
              sd_description = or_text (ci_activity x) label, sd_time = relative_time tf now (Some (ci_modified x)),
              sd_approval = or_text (ci_approval x) []\<rparr>)"

record row_shown =
  rw_id :: string
  rw_label :: string
  rw_title :: string
  rw_icon :: string
  rw_state :: string
  rw_active :: bool
  rw_archived :: bool
  rw_pinned :: bool
  rw_read :: bool
  rw_selected :: bool
  rw_identity :: string
  rw_tab :: int
  rw_expanded :: "bool option"
  rw_count :: "nat option"
  rw_details :: "session_details_shown option"

definition row_tab :: "catalog_view \<Rightarrow> catalog_row \<Rightarrow> int" where
  "row_tab v r = (if row_index (\<lambda>x. row_key x = row_key r) (cv_rows v) = cv_index v then 0 else -1)"

definition show_row :: "catalog_env \<Rightarrow> (catalog_item option \<Rightarrow> presentation) \<Rightarrow> catalog_view \<Rightarrow> catalog_row \<Rightarrow> row_shown" where
  "show_row env status v r =
     (case r of
        SectionRow n ws name \<Rightarrow>
          let closed = ws \<in> set (cv_collapsed v)
          in \<lparr>rw_id = row_element_id (row_key r), rw_label = (if closed then ''Expand '' else ''Collapse '') @ name, rw_title = name,
              rw_icon = (if closed then ''chevron-right'' else ''chevron-down''), rw_state = [], rw_active = False,
              rw_archived = False, rw_pinned = False, rw_read = False, rw_selected = False, rw_identity = ws,
              rw_tab = row_tab v r, rw_expanded = Some (\<not> closed), rw_count = Some n, rw_details = None\<rparr>
      | SessionRow i item title name \<Rightarrow>
          let s = status item; c = cv_catalog v; key = session_identity_key i
          in \<lparr>rw_id = row_element_id (row_key r),
              rw_label = join_str '', '' (filter (\<lambda>t. t \<noteq> [])
                [(case item of None \<Rightarrow> [] | Some x \<Rightarrow> ci_provider x), title, pr_label s,
                 relative_time (ce_format env) (ce_now env) (map_option ci_created item)]),
              rw_title = title, rw_icon = pr_icon s, rw_state = pr_state s, rw_active = (active_of (cv_world v) = Some i),
              rw_archived = row_archived c i item, rw_pinned = is_pinned i c, rw_read = is_read i c,
              rw_selected = (key \<in> set (cv_selected v)), rw_identity = key, rw_tab = row_tab v r, rw_expanded = None,
              rw_count = None, rw_details = Some (session_details_view (ce_format env) (ce_now env) item (pr_label s))\<rparr>)"

section \<open>Histories\<close>

datatype catalog_view_op =
    CvServices session_step
  | CvCatalog catalog_op
  | CvType string
  | CvToggleFilter
  | CvSection string
  | CvClick session_identity bool bool
  | CvKey string
  | CvAction string session_identity
  | CvContextMenu session_identity
  | CvCloseMenu
  | CvEnter "session_identity option"
  | CvLeave "session_identity option"
  | CvResize rat
  | CvTick

fun apply_view_op :: "(string \<Rightarrow> string option \<Rightarrow> string option) \<Rightarrow> catalog_env \<times> catalog_view_op \<Rightarrow> catalog_view \<Rightarrow> catalog_view" where
  "apply_view_op uri (env, CvServices e) v = heard env (apply_session uri e (cv_world v)) v"
| "apply_view_op uri (env, CvCatalog e) v = heard env ((cv_world v)\<lparr>se_catalog := apply_catalog e (cv_catalog v)\<rparr>) v"
| "apply_view_op uri (env, CvType t) v = type_filter env t v"
| "apply_view_op uri (env, CvToggleFilter) v = toggle_filter env v"
| "apply_view_op uri (env, CvSection ws) v = click_section env ws v"
| "apply_view_op uri (env, CvClick i shift ctrl) v = handle_selection env i shift ctrl v"
| "apply_view_op uri (env, CvKey key) v = list_key_down env key v"
| "apply_view_op uri (env, CvAction cmd i) v = run_session_action env cmd i v"
| "apply_view_op uri (env, CvContextMenu i) v = context_menu env i v"
| "apply_view_op uri (env, CvCloseMenu) v = close_menu v"
| "apply_view_op uri (env, CvEnter i) v = hover_enter i v"
| "apply_view_op uri (env, CvLeave i) v = hover_leave env i v"
| "apply_view_op uri (env, CvResize width) v = resize_view env width v"
| "apply_view_op uri (env, CvTick) v = tick env v"

section \<open>One row is always the place of the keyboard, and collapsed sections are remembered\<close>

definition index_ok :: "catalog_view \<Rightarrow> bool" where
  "index_ok v \<longleftrightarrow> (if cv_rows v = [] then cv_index v = -1 else 0 \<le> cv_index v \<and> cv_index v < int (length (cv_rows v)))"

definition collapsed_ok :: "catalog_view \<Rightarrow> bool" where
  "collapsed_ok v \<longleftrightarrow> distinct (cv_collapsed v) \<and> restore_collapsed (cv_storage v) = cv_collapsed v \<and>
     (case cv_storage v of None \<Rightarrow> False | Some b \<Rightarrow> bs_writable b)"

lemma row_index_bounds: "-1 \<le> row_index P rows" "row_index P rows < int (length rows) \<or> rows = []"
  by (auto simp: row_index_def dest: find_index_Some split: option.split)

lemma update_rows_frame [simp]:
  "cv_world (update_rows env v) = cv_world v" "cv_collapsed (update_rows env v) = cv_collapsed v"
  "cv_storage (update_rows env v) = cv_storage v" "cv_selected (update_rows env v) = cv_selected v"
  "cv_hovered (update_rows env v) = cv_hovered v" "cv_pending (update_rows env v) = cv_pending v"
  by (simp_all add: update_rows_def Let_def)

lemma index_update [simp]: "index_ok (update_rows env v)"
proof -
  define rows where "rows = catalog_rows env v"
  define found where "found = (case active_of (cv_world v) of None \<Rightarrow> -1 | Some i \<Rightarrow> row_index (shows_session i) rows)"
  have "-1 \<le> found" "found < int (length rows) \<or> rows = []" "rows = [] \<Longrightarrow> found = -1"
    using row_index_bounds by (auto simp: found_def row_index_def split: option.split)
  moreover have "cv_rows (update_rows env v) = rows" "cv_index (update_rows env v) = (if found < 0 \<and> rows \<noteq> [] then 0 else found)"
    unfolding found_def rows_def by (simp_all add: update_rows_def Let_def)
  ultimately show ?thesis unfolding index_ok_def by auto
qed

lemma heard_world [simp]: "cv_world (heard env w v) = w"
  by (simp add: heard_def Let_def toggle_filter_def)

lemma heard_collapsed [simp]: "cv_collapsed (heard env w v) = cv_collapsed v" "cv_storage (heard env w v) = cv_storage v"
  by (simp_all add: heard_def Let_def toggle_filter_def)

lemma index_same: "index_ok v \<Longrightarrow> cv_rows v' = cv_rows v \<Longrightarrow> cv_index v' = cv_index v \<Longrightarrow> index_ok v'"
  by (simp add: index_ok_def)

lemma index_menu [simp]: "index_ok (v\<lparr>cv_menu := m\<rparr>) = index_ok v"
  by (simp add: index_ok_def)

lemma index_toggle_filter: "index_ok v \<Longrightarrow> index_ok (toggle_filter env v)"
  by (auto simp: toggle_filter_def intro: index_same)

lemma index_heard: "index_ok v \<Longrightarrow> index_ok (heard env w v)"
proof -
  assume v: "index_ok v"
  have w: "index_ok (v\<lparr>cv_world := w\<rparr>)" by (rule index_same [OF v]) simp_all
  have p: "index_ok (v\<lparr>cv_world := w, cv_pending := True\<rparr>)" by (rule index_same [OF v]) simp_all
  show ?thesis using w p by (auto simp: heard_def Let_def intro: index_toggle_filter)
qed

lemma index_select: "index_ok v \<Longrightarrow> index_ok (select_row env i v)"
  by (simp add: select_row_def run_command_def index_heard Let_def)

lemma index_move: "k < length (cv_rows v) \<Longrightarrow> index_ok (move_to env k v)"
proof -
  assume k: "k < length (cv_rows v)"
  have v1: "index_ok (v\<lparr>cv_index := int k\<rparr>)" using k by (auto simp: index_ok_def)
  define v2 where "v2 = (if is_session_row (cv_rows v ! k) then select_row env (row_identity (cv_rows v ! k)) (v\<lparr>cv_index := int k\<rparr>)
      else v\<lparr>cv_index := int k\<rparr>)"
  have v2: "index_ok v2" using v1 index_select [OF v1] by (simp add: v2_def)
  show ?thesis unfolding move_to_def Let_def v2_def [symmetric] by (rule index_same [OF v2]) simp_all
qed

lemma index_step: "index_ok v \<Longrightarrow> index_ok (apply_view_op uri x v)"
proof -
  assume v: "index_ok v"
  obtain env e where x: "x = (env, e)" by fastforce
  show ?thesis
  proof (cases e)
    case (CvKey key)
    have "index_ok (move_to env (nat k) v)" if "\<not> (k < 0 \<or> int (length (cv_rows v)) \<le> k)" for k
      using that by (intro index_move) (simp add: nat_less_iff)
    then show ?thesis using v unfolding x CvKey apply_view_op.simps list_key_down_def Let_def by presburger
  next
    case (CvClick i shift ctrl)
    have "index_ok (v\<lparr>cv_selected := ks, cv_anchor := k\<rparr>)" for ks k by (rule index_same [OF v]) simp_all
    then show ?thesis by (simp add: x CvClick handle_selection_def Let_def index_select)
  next
    case (CvAction cmd i)
    have "index_ok (run_command env cmd args v)" for args by (simp add: run_command_def index_heard v)
    then show ?thesis by (auto simp: x CvAction run_session_action_def close_menu_def intro: index_same)
  next
    case (CvContextMenu i)
    show ?thesis using v
      by (auto simp: x CvContextMenu context_menu_def show_menu_def close_menu_def Let_def
          intro: index_same [OF v] index_same [OF index_update])
  qed (use v in \<open>auto simp: x index_heard type_filter_def index_toggle_filter click_section_def toggle_section_def close_menu_def
        hover_enter_def hover_leave_def resize_view_def tick_def Let_def intro: index_same [OF v]\<close>)
qed

text \<open>
  C17: whatever the services do and the user clicks, types and presses, the list always has one row
  that the keyboard starts from, and none only when it is empty: the selected index never points
  outside the rows shown.
\<close>

theorem selected_index_points_to_a_row:
  "let v = fold (apply_view_op uri) es (new_catalog_view env st client w)
   in if cv_rows v = [] then cv_index v = -1 else 0 \<le> cv_index v \<and> cv_index v < int (length (cv_rows v))"
proof -
  have "index_ok (fold (apply_view_op uri) es (new_catalog_view env st client w))"
    by (rule fold_keeps [where P = index_ok]) (simp_all add: index_step new_catalog_view_def)
  then show ?thesis by (simp add: index_ok_def Let_def)
qed

lemma restore_toggled:
  assumes "distinct c" and "bs_writable b"
  shows "restore_collapsed (store_item collapsed_key (json_text (JArr (map JStr c))) (Some b)) = c"
proof -
  have "storable (JArr (map JStr c))" by (simp add: list_all_iff)
  then have "json_parse (json_text (JArr (map JStr c))) = Some (JArr (map JStr c))" by (rule json_parse_text)
  moreover have "json_text (JArr (map JStr c)) \<noteq> []" by simp
  ultimately show ?thesis using assms by (simp add: restore_collapsed_def store_item_def stored_item_def fold_os_add)
qed

lemma collapsed_cong: "collapsed_ok v \<Longrightarrow> cv_collapsed v' = cv_collapsed v \<Longrightarrow> cv_storage v' = cv_storage v \<Longrightarrow> collapsed_ok v'"
  by (simp add: collapsed_ok_def)

lemma select_collapsed [simp]:
  "cv_collapsed (select_row env i v) = cv_collapsed v" "cv_storage (select_row env i v) = cv_storage v"
  by (simp_all add: select_row_def run_command_def Let_def)

lemma move_collapsed [simp]:
  "cv_collapsed (move_to env k v) = cv_collapsed v" "cv_storage (move_to env k v) = cv_storage v"
  by (simp_all add: move_to_def Let_def)

lemma collapsed_toggle: "collapsed_ok v \<Longrightarrow> collapsed_ok (toggle_section env ws v)"
proof -
  assume v: "collapsed_ok v"
  then obtain b where b: "cv_storage v = Some b" "bs_writable b" by (auto simp: collapsed_ok_def split: option.splits)
  have d: "distinct (toggle_in ws (cv_collapsed v))" using v by (simp add: collapsed_ok_def toggle_in_def)
  show ?thesis using restore_toggled [OF d b(2)] d b
    by (simp add: collapsed_ok_def toggle_section_def store_item_def Let_def)
qed

lemma collapsed_step: "collapsed_ok v \<Longrightarrow> collapsed_ok (apply_view_op uri x v)"
proof -
  assume v: "collapsed_ok v"
  obtain env e where x: "x = (env, e)" by fastforce
  show ?thesis
  proof (cases e)
    case (CvSection ws)
    have "collapsed_ok (v\<lparr>cv_index := k\<rparr>)" for k by (rule collapsed_cong [OF v]) simp_all
    then show ?thesis by (simp add: x CvSection click_section_def collapsed_toggle)
  qed (rule collapsed_cong [OF v]; simp add: x type_filter_def toggle_filter_def handle_selection_def list_key_down_def
        run_session_action_def run_command_def context_menu_def show_menu_def close_menu_def hover_enter_def hover_leave_def
        resize_view_def tick_def Let_def)+
qed

text \<open>
  The sections the user has collapsed are collapsed again after a restart: at any time the
  (writable) storage restores to exactly the view's collapsed sections, in their order.
\<close>

theorem collapsed_sections_survive_restart:
  "let v = fold (apply_view_op uri) es (new_catalog_view env (Some \<lparr>bs_items = m, bs_writable = True\<rparr>) client w)
   in restore_collapsed (cv_storage v) = cv_collapsed v"
proof -
  let ?st = "Some \<lparr>bs_items = m, bs_writable = True\<rparr>"
  have "distinct (fold os_add xs [])" for xs :: "string list"
    by (rule fold_keeps [where P = distinct]) simp_all
  then have "distinct (restore_collapsed ?st)" by (simp add: restore_collapsed_def split: option.split)
  then have "collapsed_ok (new_catalog_view env ?st client w)" by (simp add: collapsed_ok_def new_catalog_view_def)
  then have "collapsed_ok (fold (apply_view_op uri) es (new_catalog_view env ?st client w))"
    by (intro fold_keeps [where P = collapsed_ok]) (simp_all add: collapsed_step)
  then show ?thesis by (simp add: collapsed_ok_def Let_def)
qed

section \<open>The list shows every session once\<close>

lemma sorted_entries_mset [simp]: "mset (sorted_entries env c xs) = mset xs"
  by (simp add: sorted_entries_def Let_def)

lemma sorted_entries_empty [simp]: "sorted_entries env c xs = [] \<longleftrightarrow> xs = []"
  using sorted_entries_mset [of env c xs] by (metis mset_zero_iff)

lemma sorted_entries_length [simp]: "length (sorted_entries env c xs) = length xs"
  using sorted_entries_mset [of env c xs] by (metis size_mset)

text \<open>
  The specification: the search, without blanks around it and in lower case, occurs in the title of
  the session, its agent's name, its activity or the name of its workspace.
\<close>

definition session_found :: "catalog_view \<Rightarrow> workspace \<Rightarrow> session_identity \<Rightarrow> bool" where
  "session_found v ws i =
     (let item = item_of (cv_catalog v) i;
          title = (case om_get (sc_titles (cv_catalog v)) (session_identity_key i) of None \<Rightarrow> ''Session'' | Some t \<Rightarrow> t);
          provider = (case item of None \<Rightarrow> [] | Some x \<Rightarrow> ci_provider x);
          activity = (case item of None \<Rightarrow> [] | Some x \<Rightarrow> (case ci_activity x of None \<Rightarrow> [] | Some a \<Rightarrow> a))
      in \<exists>t \<in> {title, provider, activity, wk_name ws}. sublist (to_lower (js_trim (cv_search v))) (to_lower t))"

definition found_sessions :: "catalog_view \<Rightarrow> workspace \<Rightarrow> session_identity list" where
  "found_sessions v ws =
     filter (session_found v ws)
       (map (\<lambda>r. \<lparr>si_workspace = wk_id ws, si_resource = r\<rparr>)
         (case om_get (sc_sessions (cv_catalog v)) (wk_id ws) of None \<Rightarrow> [] | Some rs \<Rightarrow> rs))"

text \<open>A section of the list: its header, then rows of sessions, none where it is collapsed.\<close>

definition section_block :: "catalog_view \<Rightarrow> workspace \<Rightarrow> catalog_row list \<Rightarrow> bool" where
  "section_block v ws rows \<longleftrightarrow>
     (\<exists>entries. rows = SectionRow (length (found_sessions v ws)) (wk_id ws) (wk_name ws) # entries \<and>
        list_all (\<lambda>r. is_session_row r \<and> row_workspace_name r = wk_name ws) entries \<and>
        mset (map row_identity entries) = (if wk_id ws \<in> set (cv_collapsed v) then {#} else mset (found_sessions v ws)))"

lemma text_includes_sublist: "text_includes t s \<longleftrightarrow> sublist t s"
proof
  assume "text_includes t s"
  then have "\<exists>k. starts_with t (drop k s)" unfolding text_includes_def list_ex_iff by blast
  then obtain k where "starts_with t (drop k s)" by blast
  then obtain u where "drop k s = t @ u" by (auto simp: starts_with_iff)
  then have "s = take k s @ t @ u" by (metis append_take_drop_id)
  then show "sublist t s" unfolding sublist_def by blast
next
  assume "sublist t s"
  then obtain a u where "s = a @ t @ u" by (auto simp: sublist_def)
  then show "text_includes t s" by (auto simp: text_includes_def list_ex_iff starts_with_iff intro!: bexI [of _ "length a"])
qed

lemma row_matches_found:
  "row_matches (view_filter v) (session_row (cv_catalog v) ws r) \<longleftrightarrow> session_found v ws \<lparr>si_workspace = wk_id ws, si_resource = r\<rparr>"
proof -
  let ?q = "to_lower (js_trim (cv_search v))"
  have q: "list_ex (\<lambda>t. text_includes ?q (to_lower t)) (filter (\<lambda>t. t \<noteq> []) ts) \<or> ?q = [] \<longleftrightarrow> (\<exists>t \<in> set ts. sublist ?q (to_lower t))"
    if "ts \<noteq> []" for ts
  proof (cases "?q = []")
    case True
    have "\<exists>t. t \<in> set ts" using that by (cases ts) auto
    then show ?thesis using True by simp
  next
    case False
    then have "\<not> sublist ?q (to_lower [])" by (simp add: to_lower_def)
    then show ?thesis using False by (auto simp: list_ex_iff text_includes_sublist)
  qed
  let ?r = "session_row (cv_catalog v) ws r" and ?i = "\<lparr>si_workspace = wk_id ws, si_resource = r\<rparr>"
  define T where "T = (case om_get (sc_titles (cv_catalog v)) (session_identity_key ?i) of None \<Rightarrow> ''Session'' | Some t \<Rightarrow> t)"
  define P where "P = (case item_of (cv_catalog v) ?i of None \<Rightarrow> [] | Some x \<Rightarrow> ci_provider x)"
  define A where "A = (case item_of (cv_catalog v) ?i of None \<Rightarrow> [] | Some x \<Rightarrow> (case ci_activity x of None \<Rightarrow> [] | Some a \<Rightarrow> a))"
  have "(case row_item ?r of None \<Rightarrow> [] | Some x \<Rightarrow> or_text (ci_activity x) []) = A"
    by (cases "item_of (cv_catalog v) ?i") (auto simp: A_def session_row_def or_text_def Let_def split: option.split)
  moreover have "row_title ?r = T" "row_workspace_name ?r = wk_name ws" "(case row_item ?r of None \<Rightarrow> [] | Some x \<Rightarrow> ci_provider x) = P"
    by (simp_all add: T_def P_def session_row_def get_or_def Let_def)
  ultimately have "row_matches (view_filter v) ?r \<longleftrightarrow>
      ?q = [] \<or> list_ex (\<lambda>t. text_includes ?q (to_lower t)) (filter (\<lambda>t. t \<noteq> []) [T, P, A, wk_name ws])"
    unfolding row_matches_def row_texts_def view_filter_def by simp
  also have "\<dots> \<longleftrightarrow> (\<exists>t \<in> set [T, P, A, wk_name ws]. sublist ?q (to_lower t))" using q [of "[T, P, A, wk_name ws]"] by blast
  also have "\<dots> \<longleftrightarrow> session_found v ws ?i" unfolding session_found_def Let_def T_def [symmetric] P_def [symmetric] A_def [symmetric] by simp
  finally show ?thesis .
qed

lemma entries_found: "map row_identity (workspace_entries v ws) = found_sessions v ws"
proof -
  have "map row_identity (filter (row_matches (view_filter v)) (map (session_row (cv_catalog v) ws) rs)) =
      filter (session_found v ws) (map (\<lambda>r. \<lparr>si_workspace = wk_id ws, si_resource = r\<rparr>) rs)" for rs
  proof (induction rs)
    case (Cons r rs)
    have "row_identity (session_row (cv_catalog v) ws r) = \<lparr>si_workspace = wk_id ws, si_resource = r\<rparr>"
      by (simp add: session_row_def Let_def)
    then show ?case using Cons by (simp add: row_matches_found)
  qed simp
  then show ?thesis by (simp add: workspace_entries_def found_sessions_def get_or_def)
qed

lemma workspace_block:
  "found_sessions v ws = [] \<Longrightarrow> workspace_rows env v ws = []"
  "found_sessions v ws \<noteq> [] \<Longrightarrow> section_block v ws (workspace_rows env v ws)"
proof -
  let ?e = "sorted_entries env (cv_catalog v) (workspace_entries v ws)"
  have n: "workspace_entries v ws = [] \<longleftrightarrow> found_sessions v ws = []" using entries_found [of v ws] by (metis map_is_Nil_conv)
  show "workspace_rows env v ws = []" if "found_sessions v ws = []"
    using that n by (simp add: workspace_rows_def Let_def)
  show "section_block v ws (workspace_rows env v ws)" if f: "found_sessions v ws \<noteq> []"
  proof -
    have l: "length ?e = length (found_sessions v ws)" using entries_found [of v ws] by (metis length_map sorted_entries_length)
    have "set ?e = set (workspace_entries v ws)" by (metis set_mset_mset sorted_entries_mset)
    then have s: "list_all (\<lambda>r. is_session_row r \<and> row_workspace_name r = wk_name ws) ?e"
      by (auto simp: list_all_iff workspace_entries_def session_row_def Let_def)
    have "mset (map row_identity ?e) = mset (map row_identity (workspace_entries v ws))" by simp
    then have m: "mset (map row_identity ?e) = mset (found_sessions v ws)" by (simp only: entries_found)
    have r: "workspace_rows env v ws =
        SectionRow (length ?e) (wk_id ws) (wk_name ws) # (if wk_id ws \<in> set (cv_collapsed v) then [] else ?e)"
      using f n s l by (cases ?e) (simp_all add: workspace_rows_def Let_def)
    show ?thesis unfolding section_block_def r l
      by (rule exI [of _ "if wk_id ws \<in> set (cv_collapsed v) then [] else ?e"]) (use s m in simp)
  qed
qed

text \<open>
  C15: the list is made of one section for each workspace that has sessions the search finds, in the
  order of the workspaces: a header with their number, directly followed, unless the section is
  collapsed, by rows of exactly these sessions, each as often as the catalog has it.
\<close>

theorem rows_list_each_session:
  "\<exists>blocks. cv_rows (update_rows env v) = concat blocks \<and>
     list_all2 (section_block v) (filter (\<lambda>ws. found_sessions v ws \<noteq> []) (se_workspaces (cv_world v))) blocks"
proof -
  let ?wss = "filter (\<lambda>ws. found_sessions v ws \<noteq> []) (se_workspaces (cv_world v))"
  have "concat (map (workspace_rows env v) wss) = concat (map (workspace_rows env v) (filter (\<lambda>ws. found_sessions v ws \<noteq> []) wss))" for wss
    by (induction wss) (simp_all add: workspace_block(1))
  then have "cv_rows (update_rows env v) = concat (map (workspace_rows env v) ?wss)"
    by (simp add: update_rows_def catalog_rows_def Let_def)
  moreover have "list_all2 (section_block v) ?wss (map (workspace_rows env v) ?wss)"
    unfolding list.rel_map by (rule list.rel_refl_strong) (simp add: workspace_block(2))
  ultimately show ?thesis by blast
qed

section \<open>The actions of a row\<close>

lemma identity_json_valid [simp]: "is_session_identity (identity_json i)"
  by (simp add: is_session_identity_def is_object_def identity_json_def)

lemma context_valid: "ac_sessions c \<noteq> [] \<Longrightarrow> is_session_action_target (context_json c)"
  by (simp add: is_session_action_target_def context_json_def is_object_def list_all_iff)

lemma context_targets: "session_targets (context_json c) = Some (map identity_json (ac_sessions c))"
  by (simp add: session_targets_def context_json_def has_key_def)

lemma context_nonempty [simp]: "ac_sessions (action_context i v) \<noteq> []"
  by (simp add: action_context_def Let_def)

text \<open>The commands that the context menu and the buttons of a row run.\<close>

definition row_commands :: "string list" where
  "row_commands = [''zaw.session.togglePinned'', ''zaw.session.toggleArchived'', ''zaw.session.markRead'']"

lemma target_commands:
  "om_get (cmds session_registry) ''zaw.session.togglePinned'' = Some \<lparr>rc_descriptor = \<lparr>cm_id = ''zaw.session.togglePinned'',
     cm_category = Some ''Session'', cm_precondition = None, cm_validate = Some (\<lambda>args. is_session_action_target (argument 0 args))\<rparr>,
     rc_handler = pin_command\<rparr>"
  "om_get (cmds session_registry) ''zaw.session.toggleArchived'' = Some \<lparr>rc_descriptor = \<lparr>cm_id = ''zaw.session.toggleArchived'',
     cm_category = Some ''Session'', cm_precondition = None, cm_validate = Some (\<lambda>args. is_session_action_target (argument 0 args))\<rparr>,
     rc_handler = archive_command\<rparr>"
  "om_get (cmds session_registry) ''zaw.session.markRead'' = Some \<lparr>rc_descriptor = \<lparr>cm_id = ''zaw.session.markRead'',
     cm_category = Some ''Session'', cm_precondition = None, cm_validate = Some mark_read_arguments\<rparr>, rc_handler = mark_read_command\<rparr>"
  by (simp_all add: session_registry_def register_session_commands_def session_commands_def register_command_def
      new_command_registry_def om_has_def)

lemma for_context: "for_targets act (context_json c) w = (w\<lparr>se_catalog := fold act (ac_sessions c) (se_catalog w)\<rparr>, None)"
  by (simp add: for_targets_def context_targets fold_map comp_def)

lemma row_command_runs:
  assumes "ac_sessions c \<noteq> []" and "x = JUndef \<or> is_bool x"
  shows "execute_command ''zaw.session.togglePinned'' [context_json c, x] session_registry w =
      (w\<lparr>se_catalog := fold toggle_pinned (ac_sessions c) (se_catalog w)\<rparr>, None)"
    "execute_command ''zaw.session.toggleArchived'' [context_json c, x] session_registry w =
      (w\<lparr>se_catalog := fold toggle_archived (ac_sessions c) (se_catalog w)\<rparr>, None)"
    "execute_command ''zaw.session.markRead'' [context_json c, x] session_registry w =
      (w\<lparr>se_catalog := fold (\<lambda>i. mark_read i (x \<noteq> JBool False)) (ac_sessions c) (se_catalog w)\<rparr>, None)"
proof -
  have a: "argument 0 [context_json c, x] = context_json c" "argument 1 [context_json c, x] = x"
    by (simp_all add: argument_def at_index_def)
  show "execute_command ''zaw.session.togglePinned'' [context_json c, x] session_registry w =
      (w\<lparr>se_catalog := fold toggle_pinned (ac_sessions c) (se_catalog w)\<rparr>, None)"
    by (simp add: execute_command_def target_commands a context_valid [OF assms(1)] pin_command_def for_context)
  show "execute_command ''zaw.session.toggleArchived'' [context_json c, x] session_registry w =
      (w\<lparr>se_catalog := fold toggle_archived (ac_sessions c) (se_catalog w)\<rparr>, None)"
    by (simp add: execute_command_def target_commands a context_valid [OF assms(1)] archive_command_def for_context)
  show "execute_command ''zaw.session.markRead'' [context_json c, x] session_registry w =
      (w\<lparr>se_catalog := fold (\<lambda>i. mark_read i (x \<noteq> JBool False)) (ac_sessions c) (se_catalog w)\<rparr>, None)"
    using assms(2)
    by (simp add: execute_command_def target_commands a context_valid [OF assms(1)] mark_read_arguments_def mark_read_command_def
        for_context [unfolded] a [simplified])
qed

text \<open>
  Every action that a row runs, whatever is selected, passes the validation of its command:
  none is refused and none throws.
\<close>

theorem row_actions_are_valid:
  "list_all (\<lambda>cmd. snd (execute_command cmd [context_json (action_context i v),
       if cmd = ''zaw.session.markRead'' then JBool (is_read i (cv_catalog v)) else JUndef] session_registry w) = None) row_commands"
  by (simp add: row_commands_def row_command_runs)

text \<open>
  C38: an action of a row works on the selected sessions, also when the row is not one of them: after
  one session has been selected, the pin button of another row pins the selected one and leaves
  the row's own session as it was.
\<close>

theorem row_action_hits_the_selection:
  assumes "map row_identity (filter (\<lambda>r. is_session_row r \<and> session_identity_key (row_identity r) \<in> set (cv_selected v)) (cv_rows v)) = [j]"
    and "i \<noteq> j"
  shows "let c = cv_catalog (run_session_action env ''zaw.session.togglePinned'' i v)
    in is_pinned i c = is_pinned i (cv_catalog v) \<and> is_pinned j c = (\<not> is_pinned j (cv_catalog v))"
proof -
  have "ac_sessions (action_context i v) = [j]" using assms(1) by (simp add: action_context_def Let_def)
  moreover have "session_identity_key i \<noteq> session_identity_key j" using assms(2) by (simp add: key_eq)
  ultimately show ?thesis
    by (simp add: run_session_action_def run_command_def close_menu_def row_command_runs toggle_pinned_def local_state_changed_def
        is_pinned_def toggle_in_def)
qed

abbreviation sample_env :: catalog_env where
  "sample_env \<equiv> \<lparr>ce_format = \<lparr>tf_parse = (\<lambda>t. None), tf_relative = (\<lambda>n u. u), tf_date = (\<lambda>n. [])\<rparr>, ce_now = 0,
     ce_start_of_day = (\<lambda>n. n), ce_compare = code_unit_compare\<rparr>"

theorem row_action_hits_the_selection_witness:
  "let i = \<lparr>si_workspace = ''w'', si_resource = ''clicked''\<rparr>; j = \<lparr>si_workspace = ''w'', si_resource = ''selected''\<rparr>;
       v = (new_catalog_view sample_env None 0 (new_session_world (new_layout None) None))\<lparr>
             cv_rows := [SectionRow 2 ''w'' ''W'', SessionRow j None ''J'' ''W'', SessionRow i None ''I'' ''W''],
             cv_selected := [session_identity_key j]\<rparr>;
       c = cv_catalog (run_session_action sample_env ''zaw.session.togglePinned'' i v)
   in is_pinned i c = is_pinned i (cv_catalog v) \<and> is_pinned j c = (\<not> is_pinned j (cv_catalog v))"
proof -
  define i where "i = \<lparr>si_workspace = ''w'', si_resource = ''clicked''\<rparr>"
  define j where "j = \<lparr>si_workspace = ''w'', si_resource = ''selected''\<rparr>"
  define v where "v = (new_catalog_view sample_env None 0 (new_session_world (new_layout None) None))\<lparr>
      cv_rows := [SectionRow 2 ''w'' ''W'', SessionRow j None ''J'' ''W'', SessionRow i None ''I'' ''W''],
      cv_selected := [session_identity_key j]\<rparr>"
  have n: "i \<noteq> j" by (simp add: i_def j_def)
  have "map row_identity (filter (\<lambda>r. is_session_row r \<and> session_identity_key (row_identity r) \<in> set (cv_selected v)) (cv_rows v)) = [j]"
    using n by (simp add: v_def key_eq)
  from row_action_hits_the_selection [OF this n, of sample_env] show ?thesis
    unfolding Let_def v_def i_def j_def .
qed

lemma marks_again: "is_read j c = b \<Longrightarrow> mark_read j b c = c"
proof (cases b)
  case True
  have "os_del k xs = xs" if "k \<notin> set xs" for k and xs :: "string list"
    unfolding os_del_def by (rule filter_True) (use that in auto)
  then show "is_read j c = b \<Longrightarrow> ?thesis" using True by (simp add: mark_read_def is_read_def Let_def)
next
  case False
  then show "is_read j c = b \<Longrightarrow> ?thesis" by (simp add: mark_read_def is_read_def os_add_def Let_def)
qed

text \<open>
  C37: as long as the sessions an action works on, those selected or the row's own where none is,
  are all marked as the row's session is, all read or all unread, the action of the row, labelled
  \<open>Mark unread\<close> on a read session and \<open>Mark read\<close> on an unread one, changes nothing: it marks
  them as what they already are.
\<close>

theorem mark_read_action_changes_nothing:
  assumes "\<forall>j \<in> set (ac_sessions (action_context i v)). is_read j (cv_catalog v) = is_read i (cv_catalog v)"
  shows "cv_catalog (run_session_action env ''zaw.session.markRead'' i v) = cv_catalog v"
proof -
  let ?b = "is_read i (cv_catalog v)"
  have "fold (\<lambda>j. mark_read j ?b) js (cv_catalog v) = cv_catalog v"
    if "\<forall>j \<in> set js. is_read j (cv_catalog v) = ?b" for js
    using that by (induction js) (simp_all add: marks_again)
  with assms show ?thesis by (simp add: run_session_action_def run_command_def close_menu_def row_command_runs)
qed

theorem mark_read_action_changes_nothing_witness:
  "let i = \<lparr>si_workspace = ''w'', si_resource = ''s''\<rparr>;
       v = new_catalog_view sample_env None 0 (new_session_world (new_layout None) None)
   in is_read i (cv_catalog v) \<and> is_read i (cv_catalog (run_session_action sample_env ''zaw.session.markRead'' i v))"
proof -
  define i where "i = \<lparr>si_workspace = ''w'', si_resource = ''s''\<rparr>"
  define w where "w = new_session_world (new_layout None) None"
  define v where "v = new_catalog_view sample_env None 0 w"
  have e: "cv_world v = w" "cv_rows v = []" "cv_selected v = []"
    by (simp_all add: v_def new_catalog_view_def update_rows_def catalog_rows_def Let_def w_def new_session_world_def)
  then have "ac_sessions (action_context i v) = [i]" by (simp add: action_context_def)
  then have "\<forall>j \<in> set (ac_sessions (action_context i v)). is_read j (cv_catalog v) = is_read i (cv_catalog v)" by simp
  from mark_read_action_changes_nothing [OF this, of sample_env]
  have "cv_catalog (run_session_action sample_env ''zaw.session.markRead'' i v) = cv_catalog v" .
  moreover have "is_read i (cv_catalog v)"
    by (simp add: e(1) w_def new_session_world_def new_catalog_def restore_local_state_def stored_item_def is_read_def)
  ultimately show ?thesis unfolding Let_def v_def w_def i_def by simp
qed

section \<open>Rows stay while one is hovered\<close>

fun calm :: "catalog_view_op \<Rightarrow> bool" where
  "calm (CvCatalog e) = (e \<noteq> CaFilter)"
| "calm (CvEnter i) = (i \<noteq> None)"
| "calm CvCloseMenu = True"
| "calm e = False"

lemma catalog_keeps_filter: "e \<noteq> CaFilter \<Longrightarrow> sc_filter_fires (apply_catalog e c) = sc_filter_fires c"
  by (cases e) (auto simp: refresh_begin_def refresh_end_def provider_begin_def provider_end_def catalog_apply_def apply_provider_def
      catalog_start_def catalog_stop_def catalog_add_def mark_read_def toggle_archived_def toggle_pinned_def local_state_changed_def Let_def
      split: option.split prod.split)

text \<open>
  As long as a session is hovered, whatever happens to the catalog, the rows under the pointer
  stay as they are; the change is shown when the pointer leaves.
\<close>

theorem rows_stay_while_hovered:
  assumes "cv_hovered v \<noteq> None" and "list_all (calm \<circ> snd) es"
  shows "let v' = fold (apply_view_op uri) es v
    in cv_rows v' = cv_rows v \<and> cv_index v' = cv_index v \<and>
       (cv_pending v' \<longrightarrow> cv_rows (hover_leave env None v') = catalog_rows env (v'\<lparr>cv_hovered := None, cv_pending := False\<rparr>))"
proof -
  have step: "cv_hovered (apply_view_op uri x v) \<noteq> None \<and> cv_rows (apply_view_op uri x v) = cv_rows v \<and>
      cv_index (apply_view_op uri x v) = cv_index v" if "cv_hovered v \<noteq> None" and "calm (snd x)" for x v
  proof (cases x)
    case (Pair env e)
    with that show ?thesis
      by (cases e) (auto simp: heard_def catalog_keeps_filter hover_enter_def close_menu_def Let_def)
  qed
  have "cv_hovered (fold (apply_view_op uri) es v) \<noteq> None \<and> cv_rows (fold (apply_view_op uri) es v) = cv_rows v \<and>
      cv_index (fold (apply_view_op uri) es v) = cv_index v"
    using assms
  proof (induction es arbitrary: v)
    case (Cons x es)
    from step [of v x] Cons.prems Cons.IH [of "apply_view_op uri x v"] show ?case by simp
  qed simp
  moreover have "cv_rows (hover_leave env None u) = catalog_rows env (u\<lparr>cv_hovered := None, cv_pending := False\<rparr>)" if "cv_pending u" for u
    using that by (simp add: hover_leave_def update_rows_def Let_def)
  ultimately show ?thesis by (simp add: Let_def)
qed

theorem rows_stay_while_hovered_witness:
  "let i = \<lparr>si_workspace = ''w'', si_resource = ''s''\<rparr>;
       v = hover_enter (Some i) (new_catalog_view sample_env None 0 (new_session_world (new_layout None) None));
       v' = fold (apply_view_op (\<lambda>p b. Some p)) [(sample_env, CvCatalog (CaAdd i ''new''))] v
   in cv_rows v' = cv_rows v"
proof -
  let ?i = "\<lparr>si_workspace = ''w'', si_resource = ''s''\<rparr>"
  define u where "u = new_catalog_view sample_env None 0 (new_session_world (new_layout None) None)"
  have "cv_hovered (hover_enter (Some ?i) u) \<noteq> None" "list_all (calm \<circ> snd) [(sample_env, CvCatalog (CaAdd ?i ''new''))]"
    by (simp_all add: hover_enter_def)
  from rows_stay_while_hovered [OF this, of "\<lambda>p b. Some p" sample_env] show ?thesis
    unfolding Let_def u_def by blast
qed

end
