(* ===== verification/Widgets.thy ===== *)
theory Widgets
  imports Prelude
begin

text \<open>
  Keyboard navigation of the widget library: \<open>widgets/keyboard-navigation.ts\<close>, \<open>tabs.ts\<close> and
  \<open>tree.ts\<close> of \<open>src/packages/ui\<close>.  An element is a number with what these functions read of it;
  the focus of the document is an element.
\<close>

section \<open>Roving tab stops\<close>

record focusable =
  fe_id :: nat
  fe_disabled :: bool
  fe_aria_disabled :: bool
  fe_selected :: bool
  fe_tab :: int

datatype orientation = Horizontal | Vertical | BothWays

definition enabled_element :: "focusable \<Rightarrow> bool" where
  "enabled_element e \<longleftrightarrow> \<not> fe_disabled e \<and> \<not> fe_aria_disabled e"

definition pick_active :: "focusable list \<Rightarrow> nat option \<Rightarrow> nat option" where
  "pick_active enabled preferred =
     (case (case preferred of None \<Rightarrow> None | Some p \<Rightarrow> if p \<in> fe_id ` set enabled then Some p else None) of
        Some p \<Rightarrow> Some p
      | None \<Rightarrow>
          (case find fe_selected enabled of
             Some e \<Rightarrow> Some (fe_id e)
           | None \<Rightarrow> map_option fe_id (at_first enabled)))"

definition roving_active :: "focusable list \<Rightarrow> nat option \<Rightarrow> nat option" where
  "roving_active es preferred = pick_active (filter enabled_element es) preferred"

definition set_tabs :: "nat option \<Rightarrow> focusable list \<Rightarrow> focusable list" where
  "set_tabs active es = map (\<lambda>e. e\<lparr>fe_tab := (if Some (fe_id e) = active then 0 else -1)\<rparr>) es"

definition set_roving_tab_stop :: "focusable list \<Rightarrow> nat option \<Rightarrow> focusable list" where
  "set_roving_tab_stop es preferred = set_tabs (roving_active es preferred) es"

text \<open>
  \<open>moveRovingFocus\<close>: the elements and the focus after a key, \<open>None\<close> where the key is not handled.
\<close>

definition roving_index :: "string \<Rightarrow> bool \<Rightarrow> nat option \<Rightarrow> nat \<Rightarrow> nat" where
  "roving_index key previous current n =
     (if key = ''Home'' then 0
      else if key = ''End'' then n - 1
      else if previous then (case current of None \<Rightarrow> n | Some k \<Rightarrow> if k = 0 then n else k) - 1
      else (case current of None \<Rightarrow> 0 | Some k \<Rightarrow> Suc k mod n))"

definition moves_back :: "string \<Rightarrow> orientation \<Rightarrow> bool" where
  "moves_back key way \<longleftrightarrow> key = ''ArrowUp'' \<or> way \<noteq> Vertical \<and> key = ''ArrowLeft''"

definition moves_on :: "string \<Rightarrow> orientation \<Rightarrow> bool" where
  "moves_on key way \<longleftrightarrow> key = ''ArrowDown'' \<or> way \<noteq> Vertical \<and> key = ''ArrowRight''"

definition not_handled :: "string \<Rightarrow> orientation \<Rightarrow> bool" where
  "not_handled key way \<longleftrightarrow>
     (\<not> moves_back key way \<and> \<not> moves_on key way \<and> key \<noteq> ''Home'' \<and> key \<noteq> ''End'') \<or>
     (way = Horizontal \<and> (key = ''ArrowUp'' \<or> key = ''ArrowDown''))"

definition roving_target :: "string \<Rightarrow> orientation \<Rightarrow> nat list \<Rightarrow> nat option \<Rightarrow> nat option" where
  "roving_target key way enabled focus =
     (if length enabled = 0 then None
      else if not_handled key way then None
      else Some (enabled ! roving_index key (moves_back key way) (find_index (\<lambda>i. Some i = focus) enabled) (length enabled)))"

definition move_roving_focus :: "string \<Rightarrow> orientation \<Rightarrow> focusable list \<Rightarrow> nat option \<Rightarrow> (focusable list \<times> nat) option" where
  "move_roving_focus key way es focus =
     map_option (\<lambda>i. (set_roving_tab_stop es (Some i), i))
       (roving_target key way (map fe_id (filter enabled_element es)) focus)"

lemma pick_active_in: "pick_active xs preferred = Some i \<Longrightarrow> i \<in> fe_id ` set xs"
  by (auto simp: pick_active_def at_first_def dest!: find_SomeD split: option.splits if_splits list.splits)

lemma pick_active_None: "pick_active xs preferred = None \<longleftrightarrow> xs = []"
  by (cases xs; cases preferred) (auto simp: pick_active_def at_first_def split: option.split)

lemma roving_active_enabled: "roving_active es preferred = Some i \<Longrightarrow> i \<in> fe_id ` set (filter enabled_element es)"
  unfolding roving_active_def by (rule pick_active_in)

lemma roving_active_preferred: "i \<in> fe_id ` set (filter enabled_element es) \<Longrightarrow> roving_active es (Some i) = Some i"
  by (simp add: roving_active_def pick_active_def)

lemma set_tabs_stops:
  "distinct (map fe_id es) \<Longrightarrow> i \<in> fe_id ` set es \<Longrightarrow> map fe_id (filter (\<lambda>e. fe_tab e = 0) (set_tabs (Some i) es)) = [i]"
proof (induction es)
  case (Cons e es)
  have "filter (\<lambda>e. fe_tab e = 0) (set_tabs (Some j) xs) = []" if "j \<notin> fe_id ` set xs" for j xs
    using that by (auto simp: set_tabs_def filter_empty_conv)
  with Cons show ?case by (auto simp: set_tabs_def)
qed simp

text \<open>
  Among the elements of a group that can be focused there is exactly one tab stop as soon as
  one of them is enabled, and it is an enabled one; the preferred element where that is enabled.
\<close>

theorem one_roving_tab_stop:
  assumes "distinct (map fe_id es)" and "list_ex enabled_element es"
  shows "\<exists>e \<in> set es. enabled_element e \<and> map fe_id (filter (\<lambda>e. fe_tab e = 0) (set_roving_tab_stop es preferred)) = [fe_id e] \<and>
    (\<forall>p \<in> set es. enabled_element p \<and> preferred = Some (fe_id p) \<longrightarrow> e = p)"
proof -
  have "filter enabled_element es \<noteq> []" using assms(2) by (auto simp: list_ex_iff filter_empty_conv)
  then have "roving_active es preferred \<noteq> None" by (simp add: roving_active_def pick_active_None)
  then obtain i where i: "roving_active es preferred = Some i" by blast
  from roving_active_enabled [OF i] obtain e where e: "e \<in> set es" "enabled_element e" "fe_id e = i" by auto
  have one: "map fe_id (filter (\<lambda>e. fe_tab e = 0) (set_roving_tab_stop es preferred)) = [fe_id e]"
    unfolding set_roving_tab_stop_def i e(3) by (rule set_tabs_stops [OF assms(1)]) (use e in blast)
  have "e = p" if "p \<in> set es" "enabled_element p" "preferred = Some (fe_id p)" for p
  proof -
    have "roving_active es preferred = Some (fe_id p)" unfolding that(3) by (rule roving_active_preferred) (use that in simp)
    then have eq: "fe_id e = fe_id p" unfolding i e(3) by simp
    have "inj_on fe_id (set es)" using assms(1) by (simp add: distinct_map)
    from inj_onD [OF this eq e(1) that(1)] show ?thesis .
  qed
  then have "\<forall>p \<in> set es. enabled_element p \<and> preferred = Some (fe_id p) \<longrightarrow> e = p" by blast
  then show ?thesis using e(1,2) one by (intro bexI [of _ e] conjI)
qed

theorem one_roving_tab_stop_witness:
  "let e = (\<lambda>i d. \<lparr>fe_id = i, fe_disabled = d, fe_aria_disabled = False, fe_selected = False, fe_tab = 0\<rparr>)
   in length (filter (\<lambda>e. fe_tab e = 0) (set_roving_tab_stop [e 0 True, e 1 False, e 2 False] (Some 0))) = 1"
proof -
  let ?e = "\<lambda>i d. \<lparr>fe_id = i, fe_disabled = d, fe_aria_disabled = False, fe_selected = False, fe_tab = 0\<rparr>"
  let ?es = "[?e 0 True, ?e 1 False, ?e 2 False]"
  have "distinct (map fe_id ?es)" "list_ex enabled_element ?es" by (simp_all add: enabled_element_def)
  from one_roving_tab_stop [OF this, of "Some 0"] obtain x :: focusable
    where "map fe_id (filter (\<lambda>e. fe_tab e = 0) (set_roving_tab_stop ?es (Some 0))) = [fe_id x]" by (elim bexE conjE) (rule that, assumption)
  from arg_cong [OF this, of length] show ?thesis unfolding Let_def length_map by simp
qed

section \<open>Tabs\<close>

text \<open>A click on a label selects its tab and tells the listeners; the log is what they were told.\<close>

record tab_strip =
  ts_labels :: "focusable list"
  ts_focus :: "nat option"
  ts_selected :: "nat list"

definition new_tab_strip :: "nat list \<Rightarrow> nat \<Rightarrow> tab_strip" where
  "new_tab_strip ids active =
     (let es = map (\<lambda>i. \<lparr>fe_id = i, fe_disabled = False, fe_aria_disabled = False, fe_selected = (i = active), fe_tab = 0\<rparr>) ids
      in \<lparr>ts_labels = set_roving_tab_stop es (map_option fe_id (find fe_selected es)), ts_focus = None, ts_selected = []\<rparr>)"

definition click_tab :: "nat \<Rightarrow> tab_strip \<Rightarrow> tab_strip" where
  "click_tab i s =
     s\<lparr>ts_labels := map (\<lambda>e. e\<lparr>fe_selected := (fe_id e = i), fe_tab := (if fe_id e = i then 0 else -1)\<rparr>) (ts_labels s),
       ts_selected := ts_selected s @ [i]\<rparr>"

definition tabs_key_down :: "string \<Rightarrow> tab_strip \<Rightarrow> tab_strip" where
  "tabs_key_down key s =
     (case move_roving_focus key Horizontal (ts_labels s) (ts_focus s) of
        None \<Rightarrow> s
      | Some (es, i) \<Rightarrow>
          (let t = s\<lparr>ts_labels := es, ts_focus := Some i\<rparr> in if Some i \<noteq> ts_focus s then click_tab i t else t))"

definition focus_tab :: "nat \<Rightarrow> tab_strip \<Rightarrow> tab_strip" where
  "focus_tab i s = (if i \<in> fe_id ` set (ts_labels s) then s\<lparr>ts_focus := Some i\<rparr> else s)"

datatype tab_op = TabClick nat | TabKey string | TabFocus nat

fun apply_tab :: "tab_op \<Rightarrow> tab_strip \<Rightarrow> tab_strip" where
  "apply_tab (TabClick i) s = (if i \<in> fe_id ` set (ts_labels s) then click_tab i (s\<lparr>ts_focus := Some i\<rparr>) else s)"
| "apply_tab (TabKey key) s = tabs_key_down key s"
| "apply_tab (TabFocus i) s = focus_tab i s"

definition strip_ok :: "nat list \<Rightarrow> tab_strip \<Rightarrow> bool" where
  "strip_ok ids s \<longleftrightarrow> map fe_id (ts_labels s) = ids \<and> list_all enabled_element (ts_labels s) \<and>
     (\<exists>i. map fe_id (filter fe_selected (ts_labels s)) = [i]) \<and> (\<exists>i. map fe_id (filter (\<lambda>e. fe_tab e = 0) (ts_labels s)) = [i])"

lemma strip_tabs: "map fe_id (map (\<lambda>e. e\<lparr>fe_selected := f e, fe_tab := g e\<rparr>) es) = map fe_id es"
  by simp

lemma one_match: "distinct (map fe_id es) \<Longrightarrow> i \<in> fe_id ` set es \<Longrightarrow> map fe_id (filter (\<lambda>e. fe_id e = i) es) = [i]"
proof (induction es)
  case (Cons e es)
  have "filter (\<lambda>x. fe_id x = fe_id e) es = []" using Cons.prems(1) by (auto simp: filter_empty_conv image_iff)
  with Cons show ?case by (cases "i = fe_id e") auto
qed simp

lemma filter_map_fields:
  "map fe_id (filter fe_selected (map (\<lambda>e. e\<lparr>fe_selected := (fe_id e = i), fe_tab := (if fe_id e = i then 0 else -1)\<rparr>) es)) =
     map fe_id (filter (\<lambda>e. fe_id e = i) es)"
  "map fe_id (filter (\<lambda>e. fe_tab e = 0) (map (\<lambda>e. e\<lparr>fe_selected := (fe_id e = i), fe_tab := (if fe_id e = i then 0 else -1)\<rparr>) es)) =
     map fe_id (filter (\<lambda>e. fe_id e = i) es)"
  by (induction es) auto

lemma click_ok:
  assumes "distinct ids" and "map fe_id (ts_labels s) = ids" and "list_all enabled_element (ts_labels s)" and "i \<in> set ids"
  shows "strip_ok ids (click_tab i s)"
proof -
  have d: "distinct (map fe_id (ts_labels s))" "i \<in> fe_id ` set (ts_labels s)" using assms by auto
  have "list_all enabled_element (ts_labels (click_tab i s))"
    using assms(3) by (auto simp: click_tab_def list_all_iff enabled_element_def)
  moreover have "map fe_id (filter fe_selected (ts_labels (click_tab i s))) = [i]"
    "map fe_id (filter (\<lambda>e. fe_tab e = 0) (ts_labels (click_tab i s))) = [i]"
    using one_match [OF d] by (simp_all add: click_tab_def filter_map_fields)
  ultimately show ?thesis using assms(2) by (simp add: strip_ok_def click_tab_def comp_def)
qed

lemma set_tabs_fields:
  "map fe_id (set_tabs a es) = map fe_id es" "list_all enabled_element (set_tabs a es) = list_all enabled_element es"
  "map fe_id (filter fe_selected (set_tabs a es)) = map fe_id (filter fe_selected es)"
  by (induction es) (auto simp: set_tabs_def enabled_element_def)

text \<open>
  A key moves the focus to a label, which is then clicked, unless the label had the focus already.
\<close>

lemma roving_index_less:
  "0 < n \<Longrightarrow> (case current of None \<Rightarrow> True | Some k \<Rightarrow> k < n) \<Longrightarrow> roving_index key previous current n < n"
  by (auto simp: roving_index_def split: option.splits)

lemma roving_target_in:
  assumes "roving_target key way xs focus = Some i"
  shows "i \<in> set xs"
proof -
  have l: "case find_index P xs of None \<Rightarrow> True | Some k \<Rightarrow> k < length xs" for P
    using find_index_Some [of P xs] by (cases "find_index P xs") auto
  have "i = xs ! roving_index key (moves_back key way) (find_index (\<lambda>j. Some j = focus) xs) (length xs) \<and> 0 < length xs"
    using assms by (simp add: roving_target_def split: if_split_asm)
  with roving_index_less [OF _ l] show ?thesis by simp
qed

lemma key_down_ok:
  assumes "distinct ids" and "strip_ok ids s"
  shows "strip_ok ids (tabs_key_down key s)"
proof (cases "move_roving_focus key Horizontal (ts_labels s) (ts_focus s)")
  case (Some p)
  let ?es = "ts_labels s"
  have f: "map fe_id ?es = ids" "list_all enabled_element ?es" using assms(2) by (simp_all add: strip_ok_def)
  then have en: "filter enabled_element ?es = ?es" by (simp add: list_all_iff filter_id_conv)
  obtain i where p: "p = (set_roving_tab_stop ?es (Some i), i)" "roving_target key Horizontal ids (ts_focus s) = Some i"
    using Some f(1) by (auto simp: move_roving_focus_def en)
  have i: "i \<in> set ids" by (rule roving_target_in [OF p(2)])
  have "roving_active ?es (Some i) = Some i" by (rule roving_active_preferred) (use i f(1) en in auto)
  then have r: "set_roving_tab_stop ?es (Some i) = set_tabs (Some i) ?es" by (simp add: set_roving_tab_stop_def)
  let ?t = "s\<lparr>ts_labels := set_tabs (Some i) ?es, ts_focus := Some i\<rparr>"
  have "strip_ok ids (click_tab i ?t)"
    by (rule click_ok [OF assms(1)]) (use f i in \<open>simp_all add: set_tabs_fields\<close>)
  moreover have "tabs_key_down key s = (if Some i \<noteq> ts_focus s then click_tab i ?t else ?t)"
    using Some by (simp add: tabs_key_down_def p(1) r)
  then have "tabs_key_down key s = click_tab i ?t \<or> tabs_key_down key s = ?t" by presburger
  moreover have "strip_ok ids ?t"
    using f assms(2) set_tabs_stops [of ?es i] i assms(1) unfolding strip_ok_def by (auto simp: set_tabs_fields)
  ultimately show ?thesis by (elim disjE) (simp_all only:)
qed (use assms in \<open>simp add: tabs_key_down_def\<close>)

lemma strip_focus: "strip_ok ids (s\<lparr>ts_focus := f\<rparr>) = strip_ok ids s"
  by (simp add: strip_ok_def)

lemma strip_step:
  assumes "distinct ids" and "strip_ok ids s"
  shows "strip_ok ids (apply_tab e s)"
proof (cases e)
  case (TabClick i)
  have "strip_ok ids (click_tab i (s\<lparr>ts_focus := Some i\<rparr>))" if "i \<in> set ids"
    by (rule click_ok [OF assms(1) _ _ that]) (use assms(2) in \<open>simp_all add: strip_ok_def\<close>)
  moreover have "fe_id ` set (ts_labels s) = set ids" using assms(2) by (auto simp: strip_ok_def)
  ultimately show ?thesis using assms(2) TabClick by simp
qed (use assms key_down_ok in \<open>simp_all add: focus_tab_def strip_focus\<close>)

lemma strip_new:
  assumes "distinct ids" and "active \<in> set ids"
  shows "strip_ok ids (new_tab_strip ids active)"
proof -
  define es where "es = map (\<lambda>i. \<lparr>fe_id = i, fe_disabled = False, fe_aria_disabled = False, fe_selected = (i = active), fe_tab = 0\<rparr>) ids"
  have f: "map fe_id es = ids" "list_all enabled_element es"
    by (simp_all add: es_def comp_def list_all_iff enabled_element_def)
  then have en: "filter enabled_element es = es" by (simp add: list_all_iff filter_id_conv)
  have "map fe_id (filter fe_selected es) = filter (\<lambda>i. i = active) ids" by (simp add: es_def filter_map comp_def)
  also have "\<dots> = [active]" using assms by (induction ids) (auto simp: filter_empty_conv)
  finally have sel: "map fe_id (filter fe_selected es) = [active]" .
  obtain i where i: "roving_active es (map_option fe_id (find fe_selected es)) = Some i"
    using assms(2) f(1) by (cases "roving_active es (map_option fe_id (find fe_selected es))") (auto simp: roving_active_def en pick_active_None)
  then have "i \<in> fe_id ` set es" using roving_active_enabled en by metis
  then have "map fe_id (filter (\<lambda>e. fe_tab e = 0) (set_tabs (Some i) es)) = [i]"
    using set_tabs_stops [of es i] f(1) assms(1) by simp
  moreover have "ts_labels (new_tab_strip ids active) = set_tabs (Some i) es"
    using i by (simp add: new_tab_strip_def es_def [symmetric] Let_def set_roving_tab_stop_def)
  ultimately show ?thesis using f sel by (simp add: strip_ok_def set_tabs_fields)
qed

text \<open>
  Whatever is clicked, focused or pressed in a strip of tabs, exactly one tab is selected and
  exactly one is a tab stop, and the tabs stay in their order.
\<close>

theorem tabs_have_one_selected:
  assumes "distinct ids" and "active \<in> set ids"
  shows "let s = fold apply_tab es (new_tab_strip ids active)
    in map fe_id (ts_labels s) = ids \<and> length (filter fe_selected (ts_labels s)) = 1 \<and>
       length (filter (\<lambda>e. fe_tab e = 0) (ts_labels s)) = 1"
proof -
  have "strip_ok ids (fold apply_tab es (new_tab_strip ids active))"
    by (rule fold_keeps [where P = "strip_ok ids"]) (use strip_step strip_new assms in auto)
  then show ?thesis unfolding strip_ok_def Let_def by (metis One_nat_def length_map length_Cons list.size(3))
qed

theorem tabs_have_one_selected_witness:
  "length (filter fe_selected (ts_labels (fold apply_tab [TabKey ''End'', TabFocus 2, TabKey ''ArrowRight''] (new_tab_strip [2, 5, 7] 5)))) = 1"
  using tabs_have_one_selected [of "[2, 5, 7]" 5 "[TabKey ''End'', TabFocus 2, TabKey ''ArrowRight'']"] unfolding Let_def by simp

end
