(* ===== verification/Menus.thy ===== *)
theory Menus
  imports Widgets Complex_Main
begin

text \<open>
  Actions and menus of the widget library: \<open>actions/action.ts\<close>, \<open>actions/toolbar.ts\<close>,
  \<open>actions/picker-action.ts\<close>, \<open>widgets/dropdown.ts\<close>, \<open>dropdown-panel.ts\<close>, \<open>select.ts\<close> and \<open>dialog.ts\<close>
  of \<open>src/packages/ui\<close>.

  A button is the record of the properties these classes set.  The document delivers the
  \<open>toggle\<close> event of a \<open>details\<close> element as a task of its own, and coalesces those of one element.
\<close>

section \<open>Action buttons\<close>

record action_options =
  ao_aria :: string
  ao_checked :: bool
  ao_class :: string
  ao_disabled :: bool
  ao_icon :: string
  ao_kind :: "string option"
  ao_label :: string
  ao_title :: "string option"
  ao_working :: bool

record action_button =
  ab_aria :: string
  ab_classes :: "string list"
  ab_title :: string
  ab_checked :: bool
  ab_icon :: "string list option"
  ab_label :: "string option"
  ab_disabled :: bool
  ab_working :: bool
  ab_element_disabled :: bool
  ab_progress_hidden :: bool
  ab_busy :: bool

definition codicon :: "string \<Rightarrow> string" where
  "codicon i = ''codicon-'' @ i"

definition set_checked :: "bool \<Rightarrow> action_button \<Rightarrow> action_button" where
  "set_checked b a = a\<lparr>ab_checked := b\<rparr>"

definition set_disabled :: "bool \<Rightarrow> action_button \<Rightarrow> action_button" where
  "set_disabled b a = a\<lparr>ab_disabled := b, ab_element_disabled := b \<or> ab_working a\<rparr>"

definition set_working :: "bool \<Rightarrow> action_button \<Rightarrow> action_button" where
  "set_working b a =
     a\<lparr>ab_working := b, ab_progress_hidden := \<not> b, ab_busy := b, ab_element_disabled := ab_disabled a \<or> b\<rparr>"

definition is_icon_class :: "string \<Rightarrow> bool" where
  "is_icon_class c \<longleftrightarrow> take 8 c = ''codicon-''"

definition set_icon :: "string \<Rightarrow> action_button \<Rightarrow> action_button" where
  "set_icon i a =
     (case ab_icon a of
        None \<Rightarrow> a
      | Some cs \<Rightarrow> a\<lparr>ab_icon := Some (os_add (codicon i) (filter (\<lambda>c. \<not> is_icon_class c) cs))\<rparr>)"

definition set_label :: "string \<Rightarrow> action_button \<Rightarrow> action_button" where
  "set_label t a = a\<lparr>ab_label := map_option (\<lambda>_. t) (ab_label a)\<rparr>"

definition new_action :: "action_options \<Rightarrow> action_button" where
  "new_action opts =
     set_working (ao_working opts)
       \<lparr>ab_aria = ao_aria opts,
        ab_classes = filter (\<lambda>c. c \<noteq> []) [''zaw-action'', ''zaw-action-'' @ (case ao_kind opts of None \<Rightarrow> ''text'' | Some k \<Rightarrow> k), ao_class opts],
        ab_title = (case ao_title opts of None \<Rightarrow> ao_aria opts | Some t \<Rightarrow> t), ab_checked = ao_checked opts,
        ab_icon = (if ao_icon opts = [] then None else Some [''codicon'', codicon (ao_icon opts), ''zaw-action-glyph'']),
        ab_label = (if ao_label opts = [] then None else Some (ao_label opts)),
        ab_disabled = ao_disabled opts, ab_working = False, ab_element_disabled = ao_disabled opts,
        ab_progress_hidden = False, ab_busy = False\<rparr>"

definition icon_action :: "action_options \<Rightarrow> action_button" where
  "icon_action opts = new_action (opts\<lparr>ao_kind := Some ''icon'', ao_label := []\<rparr>)"

datatype action_op = AoChecked bool | AoDisabled bool | AoWorking bool | AoIcon string | AoLabel string

fun apply_action :: "action_op \<Rightarrow> action_button \<Rightarrow> action_button" where
  "apply_action (AoChecked b) a = set_checked b a"
| "apply_action (AoDisabled b) a = set_disabled b a"
| "apply_action (AoWorking b) a = set_working b a"
| "apply_action (AoIcon i) a = set_icon i a"
| "apply_action (AoLabel t) a = set_label t a"

definition button_ok :: "action_button \<Rightarrow> bool" where
  "button_ok a \<longleftrightarrow> ab_element_disabled a = (ab_disabled a \<or> ab_working a) \<and> ab_progress_hidden a = (\<not> ab_working a) \<and>
     ab_busy a = ab_working a \<and> (case ab_icon a of None \<Rightarrow> True | Some cs \<Rightarrow> length (filter is_icon_class cs) = 1)"

lemma icon_class [simp]: "is_icon_class (codicon i)"
  by (simp add: is_icon_class_def codicon_def)

lemma other_classes [simp]: "\<not> is_icon_class ''codicon''" "\<not> is_icon_class ''zaw-action-glyph''"
  by (simp_all add: is_icon_class_def)

lemma new_action_ok: "button_ok (new_action opts)"
  by (simp add: button_ok_def new_action_def set_working_def)

lemma one_icon_class: "filter is_icon_class (os_add (codicon i) (filter (\<lambda>c. \<not> is_icon_class c) cs)) = [codicon i]"
  by (auto simp: os_add_def filter_empty_conv)

lemma action_step_ok: "button_ok a \<Longrightarrow> button_ok (apply_action e a)"
proof (cases e)
  case (AoIcon i)
  then show "button_ok a \<Longrightarrow> ?thesis" by (simp add: button_ok_def set_icon_def one_icon_class split: option.splits)
qed (simp_all add: button_ok_def set_checked_def set_disabled_def set_working_def set_label_def)

text \<open>
  Whatever is done to an action button, it is disabled exactly if it has been disabled explicitly
  or is working, so the explicit state returns when the work ends; its spinner is shown exactly
  while it works and it has exactly one icon.
\<close>

theorem busy_action_is_disabled:
  "let a = fold apply_action es (new_action opts)
   in ab_element_disabled a = (ab_disabled a \<or> ab_working a) \<and> ab_progress_hidden a = (\<not> ab_working a) \<and> ab_busy a = ab_working a \<and>
      (case ab_icon a of None \<Rightarrow> True | Some cs \<Rightarrow> length (filter is_icon_class cs) = 1)"
proof -
  have "button_ok (fold apply_action es (new_action opts))"
    by (rule fold_keeps [where P = button_ok]) (simp_all add: new_action_ok action_step_ok)
  then show ?thesis by (simp add: button_ok_def Let_def)
qed

section \<open>Toolbars\<close>

text \<open>\<open>tb_focus\<close> is the action whose button has the focus of the document.\<close>

record toolbar_item =
  ti_hidden :: bool
  ti_button :: action_button
  ti_tab :: int

record toolbar =
  tb_items :: "(string, toolbar_item) omap"
  tb_vertical :: bool
  tb_focus :: "string option"

definition visible_buttons :: "toolbar \<Rightarrow> (string \<times> toolbar_item) list" where
  "visible_buttons t = filter (\<lambda>(i, x). \<not> ti_hidden x \<and> \<not> ab_element_disabled (ti_button x)) (tb_items t)"

definition select_roving_target :: "string option \<Rightarrow> toolbar \<Rightarrow> toolbar" where
  "select_roving_target target t =
     t\<lparr>tb_items := map (\<lambda>(i, x). (i, x\<lparr>ti_tab := (if Some i = target then 0 else -1)\<rparr>)) (tb_items t)\<rparr>"

definition initialize_roving :: "toolbar \<Rightarrow> toolbar" where
  "initialize_roving t =
     (let visible = visible_buttons t
      in select_roving_target
           (case find (\<lambda>(i, x). ti_tab x = 0) visible of
              Some (i, x) \<Rightarrow> Some i
            | None \<Rightarrow> map_option fst (at_first visible)) t)"

definition new_toolbar :: "(string \<times> bool \<times> action_options) list \<Rightarrow> bool \<Rightarrow> toolbar" where
  "new_toolbar actions vertical =
     initialize_roving
       \<lparr>tb_items = fold (\<lambda>(i, hidden, opts). om_set i \<lparr>ti_hidden = hidden, ti_button = new_action opts, ti_tab = 0\<rparr>) actions [],
        tb_vertical = vertical, tb_focus = None\<rparr>"

definition toolbar_action :: "string \<Rightarrow> (action_button \<Rightarrow> action_button) \<Rightarrow> toolbar \<Rightarrow> toolbar" where
  "toolbar_action k f t =
     t\<lparr>tb_items := map (\<lambda>(i, x). (i, if i = k then x\<lparr>ti_button := f (ti_button x)\<rparr> else x)) (tb_items t)\<rparr>"

definition set_action_hidden :: "string \<Rightarrow> bool \<Rightarrow> toolbar \<Rightarrow> toolbar" where
  "set_action_hidden k hidden t =
     (case om_get (tb_items t) k of
        None \<Rightarrow> t
      | Some x \<Rightarrow>
          (let t1 = t\<lparr>tb_items := map (\<lambda>(i, y). (i, if i = k then y\<lparr>ti_hidden := hidden\<rparr> else y)) (tb_items t)\<rparr>
           in if ti_tab x = 0 \<and> hidden then initialize_roving t1 else t1))"

text \<open>The focus enters a button.\<close>

definition toolbar_focus :: "string \<Rightarrow> toolbar \<Rightarrow> toolbar" where
  "toolbar_focus k t =
     (if k \<in> fst ` set (visible_buttons t) then select_roving_target (Some k) (t\<lparr>tb_focus := Some k\<rparr>) else t)"

text \<open>The index of \<open>onKeyDown\<close>: \<open>current\<close> is the index of the focused button, \<open>None\<close> for \<open>-1\<close>.\<close>

definition toolbar_index :: "string \<Rightarrow> bool \<Rightarrow> nat option \<Rightarrow> nat \<Rightarrow> nat" where
  "toolbar_index key back current n =
     (if key = ''Home'' then 0
      else if key = ''End'' then n - 1
      else if back then ((case current of None \<Rightarrow> 0 | Some k \<Rightarrow> k) + n - 1) mod n
      else (case current of None \<Rightarrow> 0 | Some k \<Rightarrow> Suc k) mod n)"

definition toolbar_key_down :: "string \<Rightarrow> toolbar \<Rightarrow> toolbar" where
  "toolbar_key_down key t =
     (let previous = (if tb_vertical t then ''ArrowUp'' else ''ArrowLeft'');
          following = (if tb_vertical t then ''ArrowDown'' else ''ArrowRight'');
          buttons = visible_buttons t
      in if key \<noteq> previous \<and> key \<noteq> following \<and> key \<noteq> ''Home'' \<and> key \<noteq> ''End'' then t
         else if buttons = [] then t
         else (let target = fst (buttons ! toolbar_index key (key = previous) (find_index (\<lambda>(i, x). Some i = tb_focus t) buttons) (length buttons))
               in select_roving_target (Some target) (t\<lparr>tb_focus := Some target\<rparr>)))"

datatype toolbar_op =
    TbAction string action_op
  | TbHidden string bool
  | TbKey string
  | TbFocus string
  | TbBlur

fun apply_toolbar :: "toolbar_op \<Rightarrow> toolbar \<Rightarrow> toolbar" where
  "apply_toolbar (TbAction k e) t = toolbar_action k (apply_action e) t"
| "apply_toolbar (TbHidden k b) t = set_action_hidden k b t"
| "apply_toolbar (TbKey key) t = toolbar_key_down key t"
| "apply_toolbar (TbFocus k) t = toolbar_focus k t"
| "apply_toolbar TbBlur t = t\<lparr>tb_focus := None\<rparr>"

definition tab_stops :: "toolbar \<Rightarrow> string list" where
  "tab_stops t = map fst (filter (\<lambda>(i, x). ti_tab x = 0) (tb_items t))"

abbreviation mark_target :: "string option \<Rightarrow> (string \<times> toolbar_item) list \<Rightarrow> (string \<times> toolbar_item) list" where
  "mark_target target \<equiv> map (\<lambda>(i, x). (i, x\<lparr>ti_tab := (if Some i = target then 0 else -1)\<rparr>))"

lemma marked_none: "\<forall>k. target = Some k \<longrightarrow> k \<notin> fst ` set xs \<Longrightarrow> filter (\<lambda>(i, x). ti_tab x = 0) (mark_target target xs) = []"
proof (induction xs)
  case (Cons y ys)
  then have "Some (fst y) \<noteq> target" by auto
  with Cons show ?case by (cases y) auto
qed simp

lemma marked_some:
  "distinct (map fst xs) \<Longrightarrow> k \<in> fst ` set xs \<Longrightarrow> map fst (filter (\<lambda>(i, x). ti_tab x = 0) (mark_target (Some k) xs)) = [k]"
proof (induction xs)
  case (Cons y ys)
  then show ?case using marked_none [of "Some k" ys] by (cases y) auto
qed simp

lemma stops_select:
  "om_wf (tb_items t) \<Longrightarrow> tab_stops (select_roving_target target t) =
     (case target of Some k \<Rightarrow> if om_has (tb_items t) k then [k] else [] | None \<Rightarrow> [])"
  using marked_none [of target "tb_items t"] marked_some [of "tb_items t"]
  by (auto simp: tab_stops_def select_roving_target_def om_wf_def om_has_def map_of_eq_None_iff split: option.split)

lemma select_wf [simp]: "om_wf (tb_items (select_roving_target target t)) = om_wf (tb_items t)"
  by (simp add: select_roving_target_def om_wf_def comp_def case_prod_unfold)

definition toolbar_ok :: "toolbar \<Rightarrow> bool" where
  "toolbar_ok t \<longleftrightarrow> om_wf (tb_items t) \<and> length (tab_stops t) \<le> 1"

lemma ok_select: "om_wf (tb_items t) \<Longrightarrow> toolbar_ok (select_roving_target target t)"
  by (simp add: toolbar_ok_def stops_select split: option.split)

lemma ok_map:
  assumes "toolbar_ok t" and "\<And>i x. ti_tab (f i x) = ti_tab x"
  shows "toolbar_ok (t\<lparr>tb_items := map (\<lambda>(i, x). (i, f i x)) (tb_items t)\<rparr>)"
    and "tab_stops (t\<lparr>tb_items := map (\<lambda>(i, x). (i, f i x)) (tb_items t)\<rparr>) = tab_stops t"
proof -
  show k: "tab_stops (t\<lparr>tb_items := map (\<lambda>(i, x). (i, f i x)) (tb_items t)\<rparr>) = tab_stops t"
    using assms(2) by (simp add: tab_stops_def filter_map comp_def case_prod_unfold)
  show "toolbar_ok (t\<lparr>tb_items := map (\<lambda>(i, x). (i, f i x)) (tb_items t)\<rparr>)"
    unfolding toolbar_ok_def k using assms(1) by (simp add: toolbar_ok_def om_wf_def comp_def case_prod_unfold)
qed

lemma ok_initialize: "om_wf (tb_items t) \<Longrightarrow> toolbar_ok (initialize_roving t)"
  by (simp add: initialize_roving_def ok_select Let_def)

lemma new_toolbar_wf: "om_wf (fold (\<lambda>(i, hidden, opts). om_set i \<lparr>ti_hidden = hidden, ti_button = new_action opts, ti_tab = 0\<rparr>) actions [])"
  by (rule fold_keeps [where P = om_wf]) auto

lemma toolbar_step_ok: "toolbar_ok t \<Longrightarrow> toolbar_ok (apply_toolbar e t)"
proof (cases e)
  case (TbAction k f)
  then show "toolbar_ok t \<Longrightarrow> ?thesis" by (simp add: toolbar_action_def ok_map)
next
  case (TbHidden k b)
  assume t: "toolbar_ok t"
  define t1 where "t1 = t\<lparr>tb_items := map (\<lambda>(i, y). (i, if i = k then y\<lparr>ti_hidden := b\<rparr> else y)) (tb_items t)\<rparr>"
  have "toolbar_ok t1" unfolding t1_def by (rule ok_map [OF t]) simp
  moreover from this have "toolbar_ok (initialize_roving t1)" by (simp add: toolbar_ok_def [of t1] ok_initialize)
  ultimately show ?thesis using t by (simp add: TbHidden set_action_hidden_def t1_def [symmetric] Let_def split: option.split)
next
  case (TbKey key)
  assume "toolbar_ok t"
  then have "toolbar_ok (select_roving_target x (t\<lparr>tb_focus := y\<rparr>))" for x y by (simp add: toolbar_ok_def [of t] ok_select)
  with \<open>toolbar_ok t\<close> show ?thesis by (simp add: TbKey toolbar_key_down_def Let_def)
next
  case (TbFocus k)
  assume "toolbar_ok t"
  then have "toolbar_ok (select_roving_target x (t\<lparr>tb_focus := y\<rparr>))" for x y by (simp add: toolbar_ok_def [of t] ok_select)
  with \<open>toolbar_ok t\<close> show ?thesis by (simp add: TbFocus toolbar_focus_def)
qed (simp add: toolbar_ok_def tab_stops_def)

text \<open>
  At every moment at most one button of a toolbar is a tab stop.
\<close>

theorem toolbar_has_one_tab_stop: "length (tab_stops (fold apply_toolbar es (new_toolbar actions vertical))) \<le> 1"
proof -
  have "toolbar_ok (new_toolbar actions vertical)" by (simp add: new_toolbar_def ok_initialize new_toolbar_wf)
  then have "toolbar_ok (fold apply_toolbar es (new_toolbar actions vertical))"
    by (intro fold_keeps [where P = toolbar_ok]) (auto intro: toolbar_step_ok)
  then show ?thesis by (simp add: toolbar_ok_def)
qed

definition changes_state :: "toolbar_op \<Rightarrow> bool" where
  "changes_state e \<longleftrightarrow> (case e of TbAction _ _ \<Rightarrow> True | TbHidden _ _ \<Rightarrow> True | TbBlur \<Rightarrow> True | _ \<Rightarrow> False)"

lemma no_stop_step: "changes_state e \<Longrightarrow> tab_stops t = [] \<Longrightarrow> tab_stops (apply_toolbar e t) = []"
proof (cases e)
  case (TbHidden k b)
  assume "tab_stops t = []"
  then have "ti_tab x \<noteq> 0" if "om_get (tb_items t) k = Some x" for x
    using map_of_SomeD [OF that] by (auto simp: tab_stops_def filter_empty_conv)
  with \<open>tab_stops t = []\<close> show ?thesis
    by (auto simp: TbHidden set_action_hidden_def tab_stops_def filter_map comp_def case_prod_unfold Let_def filter_empty_conv split: option.split)
qed (auto simp: changes_state_def toolbar_action_def tab_stops_def filter_map comp_def case_prod_unfold)

text \<open>
  A toolbar all of whose actions are disabled or hidden when it is made has no tab stop, and
  gets none when its actions are enabled, shown or changed later: it cannot be reached with the
  keyboard until the pointer has put the focus into it.
\<close>

theorem late_actions_have_no_tab_stop:
  assumes "list_all (\<lambda>(i, hidden, opts). hidden \<or> ao_disabled opts \<or> ao_working opts) actions" and "list_all changes_state es"
  shows "tab_stops (fold apply_toolbar es (new_toolbar actions vertical)) = []"
proof -
  define items where "items = fold (\<lambda>(i, hidden, opts). om_set i \<lparr>ti_hidden = hidden, ti_button = new_action opts, ti_tab = 0\<rparr>) actions []"
  have "list_all (\<lambda>(i, x). ti_hidden x \<or> ab_element_disabled (ti_button x)) items"
    unfolding items_def
  proof (rule fold_keeps [where P = "list_all (\<lambda>(i, x). ti_hidden x \<or> ab_element_disabled (ti_button x))"])
    fix y :: "string \<times> bool \<times> action_options" and m :: "(string, toolbar_item) omap"
    assume "y \<in> set actions" and m: "list_all (\<lambda>(i, x). ti_hidden x \<or> ab_element_disabled (ti_button x)) m"
    obtain i h opts where y: "y = (i, h, opts)" by (metis prod.exhaust)
    have "ab_element_disabled (new_action opts) = (ao_disabled opts \<or> ao_working opts)" by (simp add: new_action_def set_working_def)
    then have "h \<or> ab_element_disabled (new_action opts)" using assms(1) \<open>y \<in> set actions\<close> by (auto simp: y list_all_iff)
    then show "list_all (\<lambda>(i, x). ti_hidden x \<or> ab_element_disabled (ti_button x))
        ((\<lambda>(i, hidden, opts). om_set i \<lparr>ti_hidden = hidden, ti_button = new_action opts, ti_tab = 0\<rparr>) y m)"
      using m set_om_set [of i "\<lparr>ti_hidden = h, ti_button = new_action opts, ti_tab = 0\<rparr>" m] by (force simp: y list_all_iff)
  qed simp
  then have "visible_buttons \<lparr>tb_items = items, tb_vertical = vertical, tb_focus = None\<rparr> = []"
    by (auto simp: visible_buttons_def filter_empty_conv list_all_iff)
  moreover have "om_wf items" unfolding items_def by (rule new_toolbar_wf)
  ultimately have "tab_stops (new_toolbar actions vertical) = []"
    by (simp add: new_toolbar_def items_def [symmetric] initialize_roving_def at_first_def stops_select)
  then show ?thesis using assms(2)
    by (intro fold_keeps [where P = "\<lambda>t. tab_stops t = []"]) (auto simp: list_all_iff intro: no_stop_step)
qed

abbreviation sample_option :: "string \<Rightarrow> bool \<Rightarrow> action_options" where
  "sample_option n d \<equiv> \<lparr>ao_aria = n, ao_checked = False, ao_class = [], ao_disabled = d, ao_icon = n, ao_kind = None, ao_label = [],
     ao_title = None, ao_working = False\<rparr>"

theorem late_actions_have_no_tab_stop_witness:
  "let t = apply_toolbar (TbAction ''back'' (AoDisabled False)) (new_toolbar [(''back'', False, sample_option ''back'' True)] False)
   in tab_stops t = [] \<and> map fst (visible_buttons t) = [''back'']"
proof -
  have "tab_stops (fold apply_toolbar [TbAction ''back'' (AoDisabled False)] (new_toolbar [(''back'', False, sample_option ''back'' True)] False)) = []"
    by (rule late_actions_have_no_tab_stop) (simp_all add: changes_state_def)
  then show ?thesis
    by (simp add: Let_def visible_buttons_def toolbar_action_def new_toolbar_def initialize_roving_def select_roving_target_def
        new_action_def set_working_def set_disabled_def)
qed

section \<open>Dropdowns\<close>

text \<open>
  The dropdowns of a document.  \<open>dw_toggles\<close> are the elements whose \<open>toggle\<close> event is still to be
  delivered, \<open>dw_microtasks\<close> the positionings and focus changes that are queued; the items of a
  panel are the options and menu items in it.
\<close>

datatype dropdown_focus = NoFocus | OnSummary nat | OnItem nat nat

record dropdown =
  dd_open :: bool
  dd_disabled :: bool
  dd_items :: "focusable list"

record dropdowns =
  dw_entries :: "(nat, dropdown) omap"
  dw_active :: "nat option"
  dw_toggles :: "nat list"
  dw_microtasks :: "(nat \<times> bool) list"
  dw_focus :: dropdown_focus

definition no_dropdowns :: dropdowns where
  "no_dropdowns = \<lparr>dw_entries = [], dw_active = None, dw_toggles = [], dw_microtasks = [], dw_focus = NoFocus\<rparr>"

definition new_dropdown :: "nat \<Rightarrow> bool \<Rightarrow> focusable list \<Rightarrow> dropdowns \<Rightarrow> dropdowns" where
  "new_dropdown k disabled items w =
     (if om_has (dw_entries w) k \<or> k \<in> set (dw_toggles w) then w
      else w\<lparr>dw_entries := om_set k \<lparr>dd_open = False, dd_disabled = disabled, dd_items = items\<rparr> (dw_entries w)\<rparr>)"

definition is_open :: "nat \<Rightarrow> dropdowns \<Rightarrow> bool" where
  "is_open k w \<longleftrightarrow> (case om_get (dw_entries w) k of None \<Rightarrow> False | Some d \<Rightarrow> dd_open d)"

definition set_open :: "nat \<Rightarrow> bool \<Rightarrow> dropdowns \<Rightarrow> dropdowns" where
  "set_open k b w =
     (case om_get (dw_entries w) k of
        None \<Rightarrow> w
      | Some d \<Rightarrow>
          if dd_open d = b then w
          else w\<lparr>dw_entries := om_set k (d\<lparr>dd_open := b\<rparr>) (dw_entries w), dw_toggles := os_add k (dw_toggles w)\<rparr>)"

text \<open>The listener on \<open>toggle\<close>, when the event is delivered.\<close>

definition on_toggle :: "nat \<Rightarrow> dropdowns \<Rightarrow> dropdowns" where
  "on_toggle k w =
     (if \<not> om_has (dw_entries w) k then w
      else if \<not> is_open k w then (if dw_active w = Some k then w\<lparr>dw_active := None\<rparr> else w)
      else (let w1 = (case dw_active w of Some j \<Rightarrow> if j \<noteq> k then set_open j False w else w | None \<Rightarrow> w)
            in w1\<lparr>dw_active := Some k, dw_microtasks := dw_microtasks w1 @ [(k, False)]\<rparr>))"

definition deliver_toggle :: "nat \<Rightarrow> dropdowns \<Rightarrow> dropdowns" where
  "deliver_toggle k w = (if k \<in> set (dw_toggles w) then on_toggle k (w\<lparr>dw_toggles := os_del k (dw_toggles w)\<rparr>) else w)"

text \<open>A click on the summary toggles the element, which is the browser's own behaviour.\<close>

definition click_summary :: "nat \<Rightarrow> dropdowns \<Rightarrow> dropdowns" where
  "click_summary k w = set_open k (\<not> is_open k w) (w\<lparr>dw_focus := OnSummary k\<rparr>)"

definition pointer_down :: "nat option \<Rightarrow> dropdowns \<Rightarrow> dropdowns" where
  "pointer_down inside w = fold (\<lambda>k. if inside \<noteq> Some k then set_open k False else id) (om_keys (dw_entries w)) w"

definition dropdown_key_down :: "nat \<Rightarrow> string \<Rightarrow> dropdowns \<Rightarrow> dropdowns" where
  "dropdown_key_down k key w =
     (if \<not> om_has (dw_entries w) k then w
      else if key = ''Escape'' then (set_open k False w)\<lparr>dw_focus := OnSummary k\<rparr>
      else if dw_focus w = OnSummary k \<and> (key = ''ArrowDown'' \<or> key = ''ArrowUp'') then
        (let w1 = (if \<not> is_open k w then set_open k True w else w)
         in w1\<lparr>dw_microtasks := dw_microtasks w1 @ [(k, key = ''ArrowUp'')]\<rparr>)
      else w)"

definition focus_panel_item :: "nat \<Rightarrow> bool \<Rightarrow> dropdowns \<Rightarrow> dropdowns" where
  "focus_panel_item k from_end w =
     (case om_get (dw_entries w) k of
        None \<Rightarrow> w
      | Some d \<Rightarrow>
          (let items = filter (\<lambda>e. \<not> fe_disabled e) (dd_items d);
               target = map_option fe_id (if from_end then at_last items
                 else (case find fe_selected items of Some e \<Rightarrow> Some e | None \<Rightarrow> at_first items))
           in w\<lparr>dw_entries := om_set k
                   (d\<lparr>dd_items := map (\<lambda>e. if fe_disabled e then e else e\<lparr>fe_tab := (if Some (fe_id e) = target then 0 else -1)\<rparr>) (dd_items d)\<rparr>)
                   (dw_entries w),
                dw_focus := (case target of None \<Rightarrow> dw_focus w | Some i \<Rightarrow> OnItem k i)\<rparr>))"

definition run_microtask :: "dropdowns \<Rightarrow> dropdowns" where
  "run_microtask w =
     (case dw_microtasks w of
        [] \<Rightarrow> w
      | (k, from_end) # ms \<Rightarrow> focus_panel_item k from_end (w\<lparr>dw_microtasks := ms\<rparr>))"

definition dispose_dropdown :: "nat \<Rightarrow> dropdowns \<Rightarrow> dropdowns" where
  "dispose_dropdown k w =
     w\<lparr>dw_entries := om_del k (dw_entries w), dw_active := (if dw_active w = Some k then None else dw_active w)\<rparr>"

datatype dropdown_op =
    DdNew nat bool "focusable list"
  | DdClick nat
  | DdPointer "nat option"
  | DdKey nat string
  | DdClose nat
  | DdToggle nat
  | DdMicrotask
  | DdDispose nat

fun apply_dropdown :: "dropdown_op \<Rightarrow> dropdowns \<Rightarrow> dropdowns" where
  "apply_dropdown (DdNew k b items) w = new_dropdown k b items w"
| "apply_dropdown (DdClick k) w = click_summary k w"
| "apply_dropdown (DdPointer inside) w = pointer_down inside w"
| "apply_dropdown (DdKey k key) w = dropdown_key_down k key w"
| "apply_dropdown (DdClose k) w = set_open k False w"
| "apply_dropdown (DdToggle k) w = deliver_toggle k w"
| "apply_dropdown DdMicrotask w = run_microtask w"
| "apply_dropdown (DdDispose k) w = dispose_dropdown k w"

text \<open>An open dropdown is the active one or its event has not been delivered yet.\<close>

definition dropdowns_ok :: "dropdowns \<Rightarrow> bool" where
  "dropdowns_ok w \<longleftrightarrow> distinct (dw_toggles w) \<and> (\<forall>k. is_open k w \<longrightarrow> dw_active w = Some k \<or> k \<in> set (dw_toggles w))"

lemma is_open_set_open [simp]: "is_open i (set_open k b w) = (if i = k \<and> om_has (dw_entries w) k then b else is_open i w)"
  by (auto simp: is_open_def set_open_def om_has_def split: option.splits)

lemma set_open_frame [simp]:
  "dw_active (set_open k b w) = dw_active w" "om_has (dw_entries (set_open k b w)) i = om_has (dw_entries w) i"
  "dw_microtasks (set_open k b w) = dw_microtasks w" "dw_focus (set_open k b w) = dw_focus w"
  by (auto simp: set_open_def om_has_def split: option.splits)

lemma set_open_toggles: "set (dw_toggles w) \<subseteq> set (dw_toggles (set_open k b w))"
  "i \<in> set (dw_toggles (set_open k b w)) \<Longrightarrow> i \<in> set (dw_toggles w) \<or> i = k \<and> om_has (dw_entries w) k"
  "is_open k w \<noteq> b \<Longrightarrow> om_has (dw_entries w) k \<Longrightarrow> k \<in> set (dw_toggles (set_open k b w))"
  by (auto simp: set_open_def is_open_def om_has_def split: option.splits if_splits)

lemma set_open_distinct [simp]: "distinct (dw_toggles w) \<Longrightarrow> distinct (dw_toggles (set_open k b w))"
  by (simp add: set_open_def split: option.split)

lemma is_open_frame [simp]:
  "is_open k (w\<lparr>dw_focus := f\<rparr>) = is_open k w" "is_open k (w\<lparr>dw_active := a\<rparr>) = is_open k w"
  "is_open k (w\<lparr>dw_microtasks := ms\<rparr>) = is_open k w" "is_open k (w\<lparr>dw_toggles := ts\<rparr>) = is_open k w"
  by (simp_all add: is_open_def)

lemma ok_set_open: "dropdowns_ok w \<Longrightarrow> dropdowns_ok (set_open k b w)"
proof (cases "om_has (dw_entries w) k \<and> is_open k w \<noteq> b")
  case True
  assume "dropdowns_ok w"
  with True show ?thesis using set_open_toggles(1) [of w k b] set_open_toggles(3) [of k w b] by (auto simp: dropdowns_ok_def)
next
  case False
  then have "set_open k b w = w" by (auto simp: set_open_def is_open_def om_has_def split: option.split)
  then show "dropdowns_ok w \<Longrightarrow> ?thesis" by simp
qed

lemma ok_toggle: "dropdowns_ok w \<Longrightarrow> dropdowns_ok (deliver_toggle k w)"
proof (cases "k \<in> set (dw_toggles w)")
  case True
  assume w: "dropdowns_ok w"
  show ?thesis
  proof (cases "dw_active w")
    case None
    with True w show ?thesis by (auto simp: os_del_def deliver_toggle_def on_toggle_def dropdowns_ok_def is_open_def om_has_def split: option.splits)
  next
    case (Some j)
    define v where "v = w\<lparr>dw_toggles := os_del k (dw_toggles w)\<rparr>"
    have v: "is_open i w = is_open i v" "dw_active v = Some j" "om_has (dw_entries w) i = om_has (dw_entries v) i"
      "i \<in> set (dw_toggles w) \<longleftrightarrow> i \<in> set (dw_toggles v) \<or> i = k" for i
      using True by (auto simp: v_def Some)
    have "distinct (dw_toggles v)" using w by (simp add: v_def dropdowns_ok_def)
    moreover have "is_open i v \<Longrightarrow> om_has (dw_entries v) i" for i by (auto simp: is_open_def om_has_def split: option.splits)
    ultimately show ?thesis using w True set_open_toggles(1) [of v j False]
      by (auto simp: deliver_toggle_def v_def [symmetric] on_toggle_def dropdowns_ok_def Some v Let_def split: if_splits)
  qed
qed (simp add: deliver_toggle_def)

lemma is_open_items: "is_open i (focus_panel_item k b w) = is_open i w"
  "dw_active (focus_panel_item k b w) = dw_active w" "dw_toggles (focus_panel_item k b w) = dw_toggles w"
  by (auto simp: focus_panel_item_def is_open_def Let_def split: option.splits)

lemma ok_frame [simp]:
  "dropdowns_ok (w\<lparr>dw_focus := f\<rparr>) = dropdowns_ok w" "dropdowns_ok (w\<lparr>dw_microtasks := ms\<rparr>) = dropdowns_ok w"
  by (simp_all add: dropdowns_ok_def)

lemma ok_dropdown_step: "dropdowns_ok w \<Longrightarrow> dropdowns_ok (apply_dropdown e w)"
proof (cases e)
  case (DdPointer inside)
  assume "dropdowns_ok w"
  then show ?thesis unfolding DdPointer apply_dropdown.simps pointer_down_def
    by (intro fold_keeps [where P = dropdowns_ok]) (auto intro: ok_set_open)
next
  case (DdKey k key)
  assume "dropdowns_ok w"
  then show ?thesis by (simp add: DdKey dropdown_key_down_def Let_def ok_set_open)
next
  case DdMicrotask
  assume "dropdowns_ok w"
  then show ?thesis by (auto simp: DdMicrotask run_microtask_def dropdowns_ok_def is_open_items split: list.split)
next
  case (DdDispose k)
  assume "dropdowns_ok w"
  moreover have "is_open i (dispose_dropdown k w) \<longleftrightarrow> i \<noteq> k \<and> is_open i w" for i by (simp add: dispose_dropdown_def is_open_def)
  ultimately show ?thesis by (auto simp: DdDispose dropdowns_ok_def) (auto simp: dispose_dropdown_def)
next
  case (DdNew k b items)
  assume "dropdowns_ok w"
  then show ?thesis by (auto simp: DdNew new_dropdown_def dropdowns_ok_def is_open_def om_has_def split: option.splits if_splits)
qed (simp_all add: ok_set_open ok_toggle click_summary_def)

definition deliver_toggles :: "dropdowns \<Rightarrow> dropdowns" where
  "deliver_toggles w = fold deliver_toggle (dw_toggles w) w"

lemma deliver_pending:
  assumes "distinct ts" and "set ts \<subseteq> set (dw_toggles w)" and "\<forall>k. is_open k w \<longrightarrow> dw_active w = Some k \<or> k \<in> set ts"
  shows "is_open k (fold deliver_toggle ts w) \<longrightarrow> dw_active (fold deliver_toggle ts w) = Some k"
  using assms
proof (induction ts arbitrary: w)
  case (Cons t ts)
  define v where "v = w\<lparr>dw_toggles := os_del t (dw_toggles w)\<rparr>"
  have v: "is_open i w = is_open i v" "dw_active w = dw_active v" "om_has (dw_entries w) i = om_has (dw_entries v) i" "set ts \<subseteq> set (dw_toggles v)" for i
    using Cons.prems by (auto simp: v_def)
  have d: "deliver_toggle t w = on_toggle t v" using Cons.prems(2) by (simp add: deliver_toggle_def v_def)
  have h: "om_has (dw_entries v) i" if "is_open i v" for i using that by (auto simp: is_open_def om_has_def split: option.splits)
  have "set ts \<subseteq> set (dw_toggles (on_toggle t v))"
    using v(4) set_open_toggles(1) [of v _ False] by (fastforce simp: on_toggle_def Let_def split: option.split)
  moreover have "dw_active (on_toggle t v) = Some i \<or> i \<in> set ts" if "is_open i (on_toggle t v)" for i
  proof (cases "dw_active v")
    case None
    with that Cons.prems(3) h show ?thesis by (auto simp: on_toggle_def v Let_def split: if_splits)
  next
    case (Some j)
    with that Cons.prems(3) h [of j] h [of i] show ?thesis by (cases "i = j"; cases "i = t") (auto simp: on_toggle_def v Let_def split: if_splits)
  qed
  ultimately show ?case using Cons.IH [of "on_toggle t v"] Cons.prems(1) by (simp add: d)
qed simp

text \<open>
  However dropdowns are made, opened and closed with the pointer and the keyboard, and disposed, as
  soon as the toggle events that are pending have been delivered at most one of them is open.
\<close>

theorem at_most_one_dropdown_open:
  "\<exists>a. {k. is_open k (deliver_toggles (fold apply_dropdown es no_dropdowns))} \<subseteq> {a}"
proof -
  let ?w = "fold apply_dropdown es no_dropdowns"
  have "dropdowns_ok no_dropdowns" by (simp add: dropdowns_ok_def no_dropdowns_def is_open_def)
  then have w: "dropdowns_ok ?w" by (intro fold_keeps [where P = dropdowns_ok]) (auto intro: ok_dropdown_step)
  then have "is_open k (deliver_toggles ?w) \<longrightarrow> dw_active (deliver_toggles ?w) = Some k" for k
    unfolding deliver_toggles_def by (intro deliver_pending) (auto simp: dropdowns_ok_def)
  then have "{k. is_open k (deliver_toggles ?w)} \<subseteq> {the (dw_active (deliver_toggles ?w))}" by force
  then show ?thesis by blast
qed

text \<open>
  Being disabled does not keep a dropdown from being opened: an arrow key on its summary or a click
  opens it and puts the focus on one of its items.
\<close>

theorem disabled_dropdown_opens:
  "let w = new_dropdown k True [item] no_dropdowns;
       v = dropdown_key_down k ''ArrowDown'' (w\<lparr>dw_focus := OnSummary k\<rparr>)
   in is_open k (click_summary k w) \<and> is_open k v \<and>
      dw_focus (run_microtask v) = (if fe_disabled item then OnSummary k else OnItem k (fe_id item))"
  by (simp add: Let_def no_dropdowns_def new_dropdown_def click_summary_def set_open_def is_open_def om_has_def dropdown_key_down_def
      run_microtask_def focus_panel_item_def at_first_def)

section \<open>The place of a panel\<close>

text \<open>
  \<open>verticalClippingBounds\<close>: of every ancestor, innermost first, whether it clips, and its edges.
  Lengths are rationals.
\<close>

definition vertical_clipping_bounds :: "rat \<Rightarrow> (bool \<times> rat \<times> rat) list \<Rightarrow> rat \<times> rat" where
  "vertical_clipping_bounds height parents =
     (case fold (\<lambda>(clips, t, b) (tp, bottom). if clips then (max tp t, min bottom b) else (tp, bottom)) parents (0, height) of
        (tp, bottom) \<Rightarrow> (tp, max tp bottom))"

definition position_panel :: "rat \<times> rat \<Rightarrow> rat \<times> rat \<Rightarrow> rat \<Rightarrow> bool \<times> int" where
  "position_panel viewport trigger panel_height =
     (let below = max 0 (snd viewport - snd trigger - 8);
          above = max 0 (fst trigger - fst viewport - 8);
          drop_up = panel_height > below \<and> above > below
      in (drop_up, max 0 \<lfloor>if drop_up then above else below\<rfloor>))"

lemma clipping_fold:
  "0 \<le> (t::rat) \<Longrightarrow> b \<le> (height::rat) \<Longrightarrow> (case fold (\<lambda>(clips, t, b) (tp, bottom). if clips then (max tp t, min bottom b) else (tp, bottom)) parents (t, b) of
     (tp, bottom) \<Rightarrow> 0 \<le> tp \<and> bottom \<le> height \<and> (\<forall>(clips, t', b') \<in> set parents. clips \<longrightarrow> t' \<le> tp \<and> bottom \<le> b') \<and> t \<le> tp \<and> bottom \<le> b)"
proof (induction parents arbitrary: t b)
  case (Cons x xs)
  obtain c t1 b1 where x: "x = (c, t1, b1)" by (metis prod.exhaust)
  show ?case
  proof (cases c)
    case True
    have "0 \<le> max t t1" "min b b1 \<le> height" using Cons.prems by (simp_all add: le_max_iff_disj min_le_iff_disj)
    from Cons.IH [OF this] True show ?thesis by (auto simp: x)
  next
    case False
    with Cons.IH [OF Cons.prems] show ?thesis by (auto simp: x)
  qed
qed simp

text \<open>
  A dropdown's panel is given no more height than there is between its trigger and the nearest edge
  that clips it, less a margin; it opens upwards only if it does not fit below, and then above has
  more room than below.
\<close>

theorem panel_stays_in_sight:
  assumes "fst (vertical_clipping_bounds height parents) + 8 \<le> t" and "b + 8 \<le> snd (vertical_clipping_bounds height parents)"
  shows "case position_panel (vertical_clipping_bounds height parents) (t, b) h of (drop_up, limit) \<Rightarrow>
    0 \<le> limit \<and>
    (if drop_up then b + 8 + h > snd (vertical_clipping_bounds height parents) \<and> 0 \<le> t - 8 - rat_of_int limit \<and>
        list_all (\<lambda>(clips, t', b'). clips \<longrightarrow> t' \<le> t - 8 - rat_of_int limit) parents
     else b + 8 + rat_of_int limit \<le> snd (vertical_clipping_bounds height parents))"
proof -
  obtain p q where f: "fold (\<lambda>(clips, t, b) (tp, bottom). if clips then (max tp t, min bottom b) else (tp, bottom)) parents (0, height) = (p, q)"
    by fastforce
  have c: "0 \<le> p" "\<forall>(clips, t', b') \<in> set parents. clips \<longrightarrow> t' \<le> p"
    using clipping_fold [of 0 height height parents] by (auto simp: f)
  have v: "vertical_clipping_bounds height parents = (p, max p q)" by (simp add: vertical_clipping_bounds_def f)
  have le: "p \<le> t - 8 - rat_of_int \<lfloor>t - p - 8\<rfloor>" "b + 8 + rat_of_int \<lfloor>max p q - b - 8\<rfloor> \<le> max p q" by linarith+
  show ?thesis using assms c le unfolding v
    by (fastforce simp: position_panel_def Let_def list_all_iff max_def)
qed

theorem panel_stays_in_sight_witness:
  "position_panel (vertical_clipping_bounds 600 [(True, 100, 420)]) (380, 402) 90 = (True, 272) \<and> (100::rat) \<le> 380 - 8 - 272"
proof -
  have v: "vertical_clipping_bounds 600 [(True, 100, 420)] = (100, 420)" by (simp add: vertical_clipping_bounds_def)
  note c = panel_stays_in_sight [of 600 "[(True, 100, 420)]" 380 402 90]
  have p: "position_panel (100, 420) (380, 402) 90 = (True, 272)" by (simp add: position_panel_def)
  show ?thesis using c by (simp add: v p)
qed

section \<open>Panels, pickers and selects\<close>

record menu_item =
  mi_value :: string
  mi_label :: string
  mi_description :: string
  mi_icon :: string
  mi_disabled :: bool
  mi_selected :: bool

text \<open>The buttons of a panel, section by section, with their tab stops.\<close>

definition panel_buttons :: "menu_item list list \<Rightarrow> focusable list" where
  "panel_buttons sections =
     set_roving_tab_stop
       (map (\<lambda>(k, i). \<lparr>fe_id = k, fe_disabled = mi_disabled i, fe_aria_disabled = False, fe_selected = mi_selected i, fe_tab = 0\<rparr>)
         (enumerate 0 (concat (filter (\<lambda>items. items \<noteq> []) sections)))) None"

definition focus_selected_or_first :: "bool \<Rightarrow> focusable list \<Rightarrow> focusable list \<times> nat option" where
  "focus_selected_or_first from_end buttons =
     (let enabled = filter (\<lambda>e. \<not> fe_disabled e) buttons;
          target = map_option fe_id (if from_end then at_last enabled
            else (case find fe_selected enabled of Some e \<Rightarrow> Some e | None \<Rightarrow> at_first enabled))
      in (set_roving_tab_stop buttons target, target))"

record picker =
  pk_aria :: string
  pk_items :: "menu_item list"
  pk_value :: "string option"
  pk_label :: string
  pk_marked :: "bool list"
  pk_disabled :: bool

definition update_selection :: "picker \<Rightarrow> picker" where
  "update_selection p = p\<lparr>pk_marked := map (\<lambda>i. Some (mi_value i) = pk_value p) (pk_items p)\<rparr>"

definition new_picker :: "string \<Rightarrow> menu_item list \<Rightarrow> string option \<Rightarrow> bool \<Rightarrow> picker" where
  "new_picker aria items value disabled =
     update_selection \<lparr>pk_aria = aria, pk_items = items, pk_value = value,
       pk_label = (case find (\<lambda>i. Some (mi_value i) = value) items of None \<Rightarrow> aria | Some i \<Rightarrow> mi_label i),
       pk_marked = [], pk_disabled = disabled\<rparr>"

definition set_picker_value :: "string \<Rightarrow> picker \<Rightarrow> picker" where
  "set_picker_value v p =
     update_selection
       (case find (\<lambda>i. mi_value i = v) (pk_items p) of
          None \<Rightarrow> p\<lparr>pk_value := Some v\<rparr>
        | Some i \<Rightarrow> p\<lparr>pk_value := Some v, pk_label := mi_label i\<rparr>)"

text \<open>A click on the \<open>k\<close>-th item: the picker and the item its listeners are told.\<close>

definition pick_item :: "nat \<Rightarrow> picker \<Rightarrow> picker \<times> menu_item option" where
  "pick_item k p =
     (case at_index (pk_items p) k of
        None \<Rightarrow> (p, None)
      | Some clicked \<Rightarrow>
          if mi_disabled clicked then (p, None)
          else (case find (\<lambda>i. mi_value i = mi_value clicked) (pk_items p) of
                  None \<Rightarrow> (p, None)
                | Some i \<Rightarrow> (set_picker_value (mi_value i) p, Some i)))"

record select_widget =
  sl_options :: "menu_item list"
  sl_placeholder :: "string option"
  sl_input :: string
  sl_trigger :: string
  sl_footer :: "string option"
  sl_marked :: "bool list"
  sl_value :: "string option"

definition select_label :: "menu_item option \<Rightarrow> string option \<Rightarrow> string" where
  "select_label selected placeholder =
     (case selected of Some i \<Rightarrow> mi_label i | None \<Rightarrow> (case placeholder of Some t \<Rightarrow> t | None \<Rightarrow> ''Select''))"

definition new_select :: "menu_item list \<Rightarrow> string option \<Rightarrow> string option \<Rightarrow> select_widget" where
  "new_select options value placeholder =
     (let selected = find (\<lambda>i. Some (mi_value i) = value) options
      in \<lparr>sl_options = options, sl_placeholder = placeholder, sl_input = (case value of None \<Rightarrow> [] | Some v \<Rightarrow> v),
          sl_trigger = select_label selected placeholder,
          sl_footer = (case selected of None \<Rightarrow> None | Some i \<Rightarrow> if mi_description i = [] then None else Some (mi_description i)),
          sl_marked = map (\<lambda>i. Some (mi_value i) = value) options, sl_value = value\<rparr>)"

definition set_select_value :: "string \<Rightarrow> select_widget \<Rightarrow> select_widget" where
  "set_select_value v s =
     (let selected = find (\<lambda>i. mi_value i = v) (sl_options s)
      in s\<lparr>sl_value := Some v, sl_input := v, sl_trigger := select_label selected (sl_placeholder s),
           sl_footer := map_option (\<lambda>_. case selected of None \<Rightarrow> [] | Some i \<Rightarrow> mi_description i) (sl_footer s),
           sl_marked := map (\<lambda>i. mi_value i = v) (sl_options s)\<rparr>)"

definition select_option :: "nat \<Rightarrow> select_widget \<Rightarrow> select_widget \<times> menu_item option" where
  "select_option k s =
     (case at_index (sl_options s) k of
        None \<Rightarrow> (s, None)
      | Some clicked \<Rightarrow>
          if mi_disabled clicked then (s, None)
          else (case find (\<lambda>i. mi_value i = mi_value clicked) (sl_options s) of
                  None \<Rightarrow> (s, None)
                | Some i \<Rightarrow> (set_select_value (mi_value i) s, Some i)))"

datatype choice = Choose nat | SetValue string

fun apply_choice :: "choice \<Rightarrow> picker \<times> select_widget \<Rightarrow> picker \<times> select_widget" where
  "apply_choice (Choose k) (p, s) = (fst (pick_item k p), fst (select_option k s))"
| "apply_choice (SetValue v) (p, s) = (set_picker_value v p, set_select_value v s)"

definition choice_ok :: "menu_item list \<Rightarrow> picker \<times> select_widget \<Rightarrow> bool" where
  "choice_ok items ps \<longleftrightarrow> pk_items (fst ps) = items \<and> sl_options (snd ps) = items \<and> pk_value (fst ps) = sl_value (snd ps) \<and>
     pk_marked (fst ps) = map (\<lambda>i. Some (mi_value i) = pk_value (fst ps)) items \<and> sl_marked (snd ps) = pk_marked (fst ps) \<and>
     sl_input (snd ps) = (case sl_value (snd ps) of None \<Rightarrow> [] | Some v \<Rightarrow> v) \<and>
     (case find (\<lambda>i. Some (mi_value i) = pk_value (fst ps)) items of
        Some i \<Rightarrow> pk_label (fst ps) = mi_label i \<and> sl_trigger (snd ps) = mi_label i
      | None \<Rightarrow> sl_trigger (snd ps) = (case sl_placeholder (snd ps) of Some t \<Rightarrow> t | None \<Rightarrow> ''Select''))"

lemma set_value_ok: "choice_ok items (p, s) \<Longrightarrow> choice_ok items (set_picker_value v p, set_select_value v s)"
  by (auto simp: choice_ok_def set_picker_value_def update_selection_def set_select_value_def select_label_def Let_def
      split: option.splits)

lemma choice_step_ok: "choice_ok items ps \<Longrightarrow> choice_ok items (apply_choice e ps)"
proof (cases ps; cases e)
  fix p s k assume "choice_ok items ps" and ps: "ps = (p, s)" and e: "e = Choose k"
  then have ok: "choice_ok items (p, s)" by simp
  then have i: "pk_items p = items" "sl_options s = items" by (simp_all add: choice_ok_def)
  show ?thesis
    by (simp add: ps e pick_item_def select_option_def i ok set_value_ok split: option.split)
next
  fix p s v assume "choice_ok items ps" and "ps = (p, s)" and "e = SetValue v"
  then show ?thesis by (simp add: set_value_ok)
qed

text \<open>
  A picker and a select over the same items show the same choice, whatever is clicked or set: they mark
  exactly the items with the chosen value, show the label of the first of them, and the form's
  hidden input holds the value.
\<close>

theorem menus_show_their_value:
  "let (p, s) = fold apply_choice es (new_picker aria items value disabled, new_select items value placeholder)
   in pk_value p = sl_value s \<and> pk_marked p = map (\<lambda>i. Some (mi_value i) = pk_value p) items \<and> sl_marked s = pk_marked p \<and>
      sl_input s = (case sl_value s of None \<Rightarrow> [] | Some v \<Rightarrow> v) \<and>
      (case find (\<lambda>i. Some (mi_value i) = pk_value p) items of Some i \<Rightarrow> pk_label p = mi_label i \<and> sl_trigger s = mi_label i | None \<Rightarrow> True)"
proof -
  let ?ps = "fold apply_choice es (new_picker aria items value disabled, new_select items value placeholder)"
  have "choice_ok items (new_picker aria items value disabled, new_select items value placeholder)"
    by (simp add: choice_ok_def new_picker_def update_selection_def new_select_def select_label_def Let_def split: option.split)
  then have "choice_ok items ?ps" by (intro fold_keeps [where P = "choice_ok items"]) (auto intro: choice_step_ok)
  then show ?thesis by (cases ?ps) (auto simp: choice_ok_def split: option.splits)
qed

section \<open>Dialogs\<close>

datatype dialog_reaction = CloseDialog | FocusDialog | FocusIn nat | BrowserDefault

definition dialog_key_down :: "string \<Rightarrow> bool \<Rightarrow> nat list \<Rightarrow> nat option \<Rightarrow> dialog_reaction" where
  "dialog_key_down key shift focusable focus =
     (if key = ''Escape'' then CloseDialog
      else if key \<noteq> ''Tab'' then BrowserDefault
      else if focusable = [] then FocusDialog
      else (let index = find_index (\<lambda>e. Some e = focus) focusable
            in if shift \<and> (index = None \<or> index = Some 0) then FocusIn (last focusable)
               else if \<not> shift \<and> index = Some (length focusable - 1) then FocusIn (hd focusable)
               else BrowserDefault))"

text \<open>The browser moves the focus to the next or previous element of the document that can take it.\<close>

definition tab_in_dialog :: "bool \<Rightarrow> nat list \<Rightarrow> nat list \<Rightarrow> nat list \<Rightarrow> nat option \<Rightarrow> nat option" where
  "tab_in_dialog shift before focusable after focus =
     (case dialog_key_down ''Tab'' shift focusable focus of
        FocusIn e \<Rightarrow> Some e
      | FocusDialog \<Rightarrow> None
      | CloseDialog \<Rightarrow> focus
      | BrowserDefault \<Rightarrow>
          (case find_index (\<lambda>e. Some e = focus) focusable of
             None \<Rightarrow> at_first (focusable @ after)
           | Some k \<Rightarrow> (let k' = length before + k in at_index (before @ focusable @ after) (if shift then k' - 1 else k' + 1))))"

lemma find_index_distinct: "distinct xs \<Longrightarrow> k < length xs \<Longrightarrow> find_index (\<lambda>e. e = xs ! k) xs = Some k"
proof (induction xs arbitrary: k)
  case (Cons x xs)
  then show ?case by (cases k) (auto simp: nth_Cons')
qed simp

text \<open>
  The Tab key goes round inside a dialog: from each of its elements to the next, from the last to
  the first, and backwards with Shift; it never leaves for the document around it.
\<close>

theorem dialog_keeps_focus:
  assumes "distinct focusable" and "k < length focusable"
  shows "tab_in_dialog False before focusable after (Some (focusable ! k)) = Some (focusable ! (Suc k mod length focusable)) \<and>
    tab_in_dialog True before focusable after (Some (focusable ! k)) = Some (focusable ! ((k + length focusable - 1) mod length focusable))"
proof -
  note i = find_index_distinct [OF assms]
  have ne: "focusable \<noteq> []" using assms(2) by auto
  show ?thesis
  proof
    show "tab_in_dialog False before focusable after (Some (focusable ! k)) = Some (focusable ! (Suc k mod length focusable))"
    proof (cases "Suc k = length focusable")
      case True
      then have "k = length focusable - 1" by simp
      then show ?thesis using ne using i by (simp add: tab_in_dialog_def dialog_key_down_def hd_conv_nth)
    next
      case False
      with assms(2) have "Suc k < length focusable" "k \<noteq> length focusable - Suc 0" by simp_all
      then show ?thesis using ne by (simp add: tab_in_dialog_def dialog_key_down_def i at_index_def nth_append Let_def)
    qed
    show "tab_in_dialog True before focusable after (Some (focusable ! k)) = Some (focusable ! ((k + length focusable - 1) mod length focusable))"
    proof (cases k)
      case 0
      then show ?thesis using ne i by (simp add: tab_in_dialog_def dialog_key_down_def last_conv_nth)
    next
      case (Suc j)
      have "(k + length focusable - 1) mod length focusable = j" using assms(2) Suc by simp
      then show ?thesis using ne i assms(2) by (simp add: tab_in_dialog_def dialog_key_down_def at_index_def nth_append Let_def Suc)
    qed
  qed
qed

theorem dialog_keeps_focus_witness:
  "tab_in_dialog False [1] [2, 3] [4] (Some 3) = Some 2 \<and> tab_in_dialog True [1] [2, 3] [4] (Some 2) = Some 3"
  using dialog_keeps_focus [of "[2, 3]" 1 "[1]" "[4]"] dialog_keeps_focus [of "[2, 3]" 0 "[1]" "[4]"] by simp

end
