(* ===== verification/Management.thy ===== *)
theory Management
  imports Interfaces Json
begin

text \<open>
  \<open>packages/workbench/src/contrib/management/management-service.ts\<close>: the lists of templates,
  credentials, models and provisioners, the sheet being edited and the navigation of the
  management window.

  Every \<open>await\<close> ends a step.  What then waits is a task with the rest of the function: a request
  sent to the provider, one of the two reloads, or a caller that goes on once its reload has
  returned.  The provider settles tasks in any order and the user acts in between.  The emitters
  are a log, a rejected promise is in \<open>mg_rejected\<close> (\<open>None\<close>: what was thrown is no \<open>Error\<close>).
\<close>

section \<open>Data\<close>

datatype source_kind = GitSource | TarSource

record template_source =
  ts_kind :: source_kind
  ts_fields :: "(string, string) omap"

record template =
  tp_id :: string
  tp_name :: string
  tp_description :: string
  tp_source :: template_source

datatype credential_kind = UsernamePassword | Token | SshKey

record credential =
  cn_id :: string
  cn_name :: string
  cn_kind :: credential_kind
  cn_metadata :: "(string, string) omap"

datatype provider_kind = Anthropic | Deepseek | OpenAI

record model_provider =
  mp_id :: string
  mp_name :: string
  mp_kind :: provider_kind
  mp_base :: string
  mp_has_key :: bool

record model =
  md_id :: string
  md_provider :: string
  md_name :: string
  md_upstream :: string
  md_default :: bool
  md_capabilities :: json

record provisioner =
  pv_id :: string
  pv_name :: string
  pv_addr :: string
  pv_ready :: bool

record job =
  jb_id :: string
  jb_build :: string
  jb_provisioner :: string
  jb_status :: string
  jb_workspace :: string

record build =
  bd_id :: string
  bd_workspace :: string
  bd_template :: string
  bd_status :: string

datatype sheet =
    ConfirmCredentialDelete | ConfirmTemplateDelete | ConfirmWorkspaceStop | BuildLogs | CredentialSheet
  | ModelSheet | ModelProviderSheet | TemplateSheet | TemplateSourceSheet | WorkspaceCreate

datatype models_state = ModelsError | ModelsIdle | ModelsLoading | ModelsReady

datatype management_event =
    ChangeFired
  | EditingFired
  | SheetFired "sheet option"
  | TemplatesFired "template list"
  | CredentialsFired "credential list"

text \<open>What is sent to the provider; the option of the two model requests is the edited entry's id.\<close>

datatype request =
    SaveTemplate string string json
  | DeleteTemplate string
  | SaveCredential string credential_kind "(string, string) omap" "(string, string) omap"
  | DeleteCredential string
  | SaveModelProvider string string provider_kind string string "string option"
  | DeleteModelProvider string
  | SaveModel string string string bool json "string option"
  | DeleteModel string
  | StartWorkspace string
  | StopWorkspace string
  | DeleteWorkspace string

text \<open>What a caller does once its reload has returned.\<close>

datatype followup =
    JustReload
  | TemplateSaved | TemplateDeleted | CredentialSaved | CredentialDeleted | ModelProviderSaved | ModelSaved
  | FireAfter

datatype task =
    Requesting request
  | Loading nat followup
  | LoadingRuntime nat followup
  | Continuing followup

record management =
  mg_templates :: "template list"
  mg_credentials :: "credential list"
  mg_models :: "model list"
  mg_providers :: "model_provider list"
  mg_models_state :: models_state
  mg_models_error :: string
  mg_provisioners :: "provisioner list"
  mg_jobs :: "job list"
  mg_builds :: "build list"
  mg_editing_template :: "template option"
  mg_editing_credential :: "credential option"
  mg_editing_provider :: "model_provider option"
  mg_editing_model :: "model option"
  mg_provider_id :: string
  mg_credential_kind :: credential_kind
  mg_template_kind :: source_kind
  mg_sheet :: "sheet option"
  mg_dirty :: bool
  mg_open :: bool
  mg_view :: string
  mg_query :: string
  mg_history :: "string list"
  mg_pending_credential :: string
  mg_pending_template :: string
  mg_pending_workspace :: string
  mg_generation :: nat
  mg_runtime_generation :: nat
  mg_open_context :: "bool option"
  mg_dirty_context :: "bool option"
  mg_events :: "management_event list"
  mg_tasks :: "(nat, task) omap"
  mg_next :: nat
  mg_rejected :: "string option list"

definition new_management :: "bool \<Rightarrow> management" where
  "new_management has_context = \<lparr>mg_templates = [], mg_credentials = [], mg_models = [], mg_providers = [],
     mg_models_state = ModelsIdle, mg_models_error = [], mg_provisioners = [], mg_jobs = [], mg_builds = [],
     mg_editing_template = None, mg_editing_credential = None, mg_editing_provider = None,
     mg_editing_model = None, mg_provider_id = [], mg_credential_kind = Token, mg_template_kind = GitSource,
     mg_sheet = None, mg_dirty = False, mg_open = False, mg_view = ''settings'', mg_query = [], mg_history = [],
     mg_pending_credential = [], mg_pending_template = [], mg_pending_workspace = [],
     mg_generation = 0, mg_runtime_generation = 0,
     mg_open_context = (if has_context then Some False else None),
     mg_dirty_context = (if has_context then Some False else None),
     mg_events = [], mg_tasks = [], mg_next = 0, mg_rejected = []\<rparr>"

section \<open>Events and tasks\<close>

definition mg_fire :: "management_event \<Rightarrow> management \<Rightarrow> management" where
  "mg_fire e s = s\<lparr>mg_events := mg_events s @ [e]\<rparr>"

definition fire_change :: "management \<Rightarrow> management" where
  "fire_change s = mg_fire ChangeFired
     (s\<lparr>mg_open_context := map_option (\<lambda>_. mg_open s) (mg_open_context s),
        mg_dirty_context := map_option (\<lambda>_. mg_dirty s) (mg_dirty_context s)\<rparr>)"

definition fire_sheet :: "management \<Rightarrow> management" where
  "fire_sheet s = mg_fire (SheetFired (mg_sheet s)) s"

definition fire_editing :: "management \<Rightarrow> management" where
  "fire_editing s = mg_fire EditingFired s"

definition add_task :: "task \<Rightarrow> management \<Rightarrow> management" where
  "add_task t s = s\<lparr>mg_tasks := mg_tasks s @ [(mg_next s, t)], mg_next := Suc (mg_next s)\<rparr>"

definition end_task :: "nat \<Rightarrow> management \<Rightarrow> management" where
  "end_task n s = s\<lparr>mg_tasks := om_del n (mg_tasks s)\<rparr>"

definition mg_reject :: "string option \<Rightarrow> management \<Rightarrow> management" where
  "mg_reject e s = s\<lparr>mg_rejected := mg_rejected s @ [e]\<rparr>"

section \<open>Reloading\<close>

definition begin_reload :: "followup \<Rightarrow> management \<Rightarrow> management" where
  "begin_reload fu s =
     (let g = Suc (mg_generation s)
      in add_task (Loading g fu)
           (fire_change (s\<lparr>mg_generation := g, mg_models_state := ModelsLoading, mg_models_error := []\<rparr>)))"

type_synonym lists = "template list \<times> credential list \<times> model list \<times> model_provider list"

text \<open>The four lists have arrived, or one of the four requests failed; the result is whether the reload returns.\<close>

fun finish_reload :: "nat \<Rightarrow> string option + lists \<Rightarrow> management \<Rightarrow> management \<times> bool" where
  "finish_reload g (Inl e) s =
     (mg_reject e
        (if g = mg_generation s
         then fire_change (s\<lparr>mg_models_state := ModelsError,
                mg_models_error := (case e of Some m \<Rightarrow> m | None \<Rightarrow> ''Unable to load models'')\<rparr>)
         else s), False)"
| "finish_reload g (Inr (ts, cs, ms, ps)) s =
     (if g \<noteq> mg_generation s then s
      else fire_change (mg_fire (CredentialsFired cs) (mg_fire (TemplatesFired ts)
             (s\<lparr>mg_templates := ts, mg_credentials := cs, mg_models := ms, mg_providers := ps,
                mg_models_state := ModelsReady\<rparr>))), True)"

definition begin_runtime :: "followup \<Rightarrow> management \<Rightarrow> management" where
  "begin_runtime fu s =
     (let g = Suc (mg_runtime_generation s) in add_task (LoadingRuntime g fu) (s\<lparr>mg_runtime_generation := g\<rparr>))"

fun finish_runtime :: "nat \<Rightarrow> string option + provisioner list \<Rightarrow> management \<Rightarrow> management \<times> bool" where
  "finish_runtime g (Inl e) s = (mg_reject e s, False)"
| "finish_runtime g (Inr ps) s =
     (if g \<noteq> mg_runtime_generation s then s
      else fire_change (s\<lparr>mg_provisioners := ps, mg_jobs := [], mg_builds := []\<rparr>), True)"

section \<open>Requests\<close>

text \<open>What follows a request that the provider has answered, up to the next \<open>await\<close>.\<close>

fun after_request :: "request \<Rightarrow> management \<Rightarrow> management" where
  "after_request (SaveTemplate _ _ _) s = begin_reload TemplateSaved s"
| "after_request (DeleteTemplate _) s = begin_reload TemplateDeleted s"
| "after_request (SaveCredential _ _ _ _) s = begin_reload CredentialSaved s"
| "after_request (DeleteCredential _) s = begin_reload CredentialDeleted s"
| "after_request (SaveModelProvider _ _ _ _ _ _) s = begin_reload ModelProviderSaved (s\<lparr>mg_editing_provider := None\<rparr>)"
| "after_request (DeleteModelProvider _) s = begin_reload JustReload s"
| "after_request (SaveModel _ _ _ _ _ _) s = begin_reload ModelSaved (s\<lparr>mg_editing_model := None\<rparr>)"
| "after_request (DeleteModel _) s = begin_reload JustReload s"
| "after_request (StartWorkspace _) s = begin_runtime JustReload s"
| "after_request (StopWorkspace _) s =
     begin_runtime FireAfter (fire_sheet (s\<lparr>mg_sheet := None, mg_pending_workspace := []\<rparr>))"
| "after_request (DeleteWorkspace _) s = begin_runtime FireAfter s"

fun follow_up :: "followup \<Rightarrow> management \<Rightarrow> management" where
  "follow_up JustReload s = s"
| "follow_up TemplateSaved s =
     fire_change (fire_sheet (s\<lparr>mg_sheet := None, mg_dirty := False, mg_editing_template := None\<rparr>))"
| "follow_up TemplateDeleted s = fire_change (fire_sheet (s\<lparr>mg_sheet := None, mg_pending_template := []\<rparr>))"
| "follow_up CredentialSaved s =
     fire_change (fire_sheet (s\<lparr>mg_sheet := None, mg_dirty := False, mg_editing_credential := None\<rparr>))"
| "follow_up CredentialDeleted s = fire_change (fire_sheet (s\<lparr>mg_sheet := None, mg_pending_credential := []\<rparr>))"
| "follow_up ModelProviderSaved s = fire_change (fire_sheet (s\<lparr>mg_sheet := None, mg_dirty := False\<rparr>))"
| "follow_up ModelSaved s = fire_change (fire_sheet (s\<lparr>mg_sheet := None, mg_dirty := False\<rparr>))"
| "follow_up FireAfter s = fire_change s"

definition save_template :: "string \<Rightarrow> string \<Rightarrow> json \<Rightarrow> management \<Rightarrow> management" where
  "save_template name desc src s = add_task (Requesting (SaveTemplate name desc src)) s"

definition delete_template :: "management \<Rightarrow> management" where
  "delete_template s =
     (if mg_pending_template s = [] then s else add_task (Requesting (DeleteTemplate (mg_pending_template s))) s)"

definition save_credential ::
  "string \<Rightarrow> credential_kind \<Rightarrow> (string, string) omap \<Rightarrow> (string, string) omap \<Rightarrow> management \<Rightarrow> management" where
  "save_credential name k meta secret s = add_task (Requesting (SaveCredential name k meta secret)) s"

definition delete_credential :: "string \<Rightarrow> management \<Rightarrow> management" where
  "delete_credential i s = add_task (Requesting (DeleteCredential i)) s"

definition save_model_provider ::
  "string \<Rightarrow> string \<Rightarrow> provider_kind \<Rightarrow> string \<Rightarrow> string \<Rightarrow> management \<Rightarrow> management" where
  "save_model_provider i name k base key s =
     add_task (Requesting (SaveModelProvider i name k base key (map_option mp_id (mg_editing_provider s)))) s"

definition delete_model_provider :: "string \<Rightarrow> management \<Rightarrow> management" where
  "delete_model_provider i s = add_task (Requesting (DeleteModelProvider i)) s"

definition save_model :: "string \<Rightarrow> string \<Rightarrow> string \<Rightarrow> bool \<Rightarrow> json \<Rightarrow> management \<Rightarrow> management" where
  "save_model p name up def caps s =
     add_task (Requesting (SaveModel p name up def caps (map_option md_id (mg_editing_model s)))) s"

definition delete_model :: "string \<Rightarrow> management \<Rightarrow> management" where
  "delete_model i s = add_task (Requesting (DeleteModel i)) s"

definition start_workspace :: "string \<Rightarrow> management \<Rightarrow> management" where
  "start_workspace i s = add_task (Requesting (StartWorkspace i)) s"

definition stop_workspace :: "string \<Rightarrow> management \<Rightarrow> management" where
  "stop_workspace i s = add_task (Requesting (StopWorkspace i)) s"

definition delete_workspace :: "string \<Rightarrow> management \<Rightarrow> management" where
  "delete_workspace i s = add_task (Requesting (DeleteWorkspace i)) s"

section \<open>What the user does\<close>

definition open_management :: "management \<Rightarrow> management" where
  "open_management s = fire_change (s\<lparr>mg_open := True\<rparr>)"

definition open_workspace_create :: "management \<Rightarrow> management" where
  "open_workspace_create s = fire_change (fire_sheet
     (s\<lparr>mg_open := True, mg_view := ''workspaces'', mg_sheet := Some WorkspaceCreate, mg_dirty := False\<rparr>))"

definition open_build_logs :: "string \<Rightarrow> management \<Rightarrow> management" where
  "open_build_logs ws s = fire_change (fire_sheet (s\<lparr>mg_pending_workspace := ws, mg_sheet := Some BuildLogs\<rparr>))"

definition close_sheet :: "management \<Rightarrow> management" where
  "close_sheet s = fire_change (fire_sheet (fire_editing
     (s\<lparr>mg_dirty := False, mg_sheet := None, mg_editing_credential := None, mg_editing_template := None,
        mg_editing_model := None, mg_editing_provider := None\<rparr>)))"

definition close_management :: "management \<Rightarrow> management" where
  "close_management s = fire_change (close_sheet (s\<lparr>mg_open := False\<rparr>))"

definition set_dirty :: "bool \<Rightarrow> management \<Rightarrow> management" where
  "set_dirty d s =
     (if mg_dirty s = d then s
      else s\<lparr>mg_dirty := d, mg_dirty_context := map_option (\<lambda>_. d) (mg_dirty_context s)\<rparr>)"

definition add_template :: "management \<Rightarrow> management" where
  "add_template s = fire_change (fire_sheet (fire_editing
     (s\<lparr>mg_editing_template := None, mg_sheet := Some TemplateSourceSheet, mg_dirty := False\<rparr>)))"

definition choose_template_kind :: "source_kind \<Rightarrow> management \<Rightarrow> management" where
  "choose_template_kind k s = fire_change (fire_sheet
     (s\<lparr>mg_template_kind := k, mg_sheet := Some TemplateSheet, mg_dirty := False\<rparr>))"

definition edit_template :: "string \<Rightarrow> management \<Rightarrow> management" where
  "edit_template i s =
     (case find (\<lambda>t. tp_id t = i) (mg_templates s) of
        None \<Rightarrow> s
      | Some t \<Rightarrow> fire_change (fire_sheet (fire_editing
          (s\<lparr>mg_editing_template := Some t, mg_template_kind := ts_kind (tp_source t),
             mg_sheet := Some TemplateSheet, mg_dirty := False\<rparr>))))"

definition request_delete_template :: "string \<Rightarrow> management \<Rightarrow> management" where
  "request_delete_template i s =
     fire_change (fire_sheet (s\<lparr>mg_pending_template := i, mg_sheet := Some ConfirmTemplateDelete\<rparr>))"

definition add_credential :: "management \<Rightarrow> management" where
  "add_credential s = fire_change (fire_sheet (fire_editing
     (s\<lparr>mg_sheet := Some CredentialSheet, mg_editing_credential := None, mg_credential_kind := Token,
        mg_dirty := False\<rparr>)))"

definition edit_credential :: "string \<Rightarrow> management \<Rightarrow> management" where
  "edit_credential i s =
     (case find (\<lambda>c. cn_id c = i) (mg_credentials s) of
        None \<Rightarrow> s
      | Some c \<Rightarrow> fire_change (fire_sheet (fire_editing
          (s\<lparr>mg_editing_credential := Some c, mg_credential_kind := cn_kind c,
             mg_sheet := Some CredentialSheet, mg_dirty := False\<rparr>))))"

definition set_credential_kind :: "credential_kind \<Rightarrow> management \<Rightarrow> management" where
  "set_credential_kind k s = fire_editing (s\<lparr>mg_credential_kind := k\<rparr>)"

definition request_delete_credential :: "string \<Rightarrow> management \<Rightarrow> management" where
  "request_delete_credential i s =
     fire_change (fire_sheet (s\<lparr>mg_pending_credential := i, mg_sheet := Some ConfirmCredentialDelete\<rparr>))"

definition add_model_provider :: "management \<Rightarrow> management" where
  "add_model_provider s = fire_change (fire_sheet
     (s\<lparr>mg_editing_provider := None, mg_sheet := Some ModelProviderSheet, mg_dirty := False\<rparr>))"

definition edit_model_provider :: "string \<Rightarrow> management \<Rightarrow> management" where
  "edit_model_provider i s =
     (case find (\<lambda>p. mp_id p = i) (mg_providers s) of
        None \<Rightarrow> s
      | Some p \<Rightarrow> fire_change (fire_sheet
          (s\<lparr>mg_editing_provider := Some p, mg_sheet := Some ModelProviderSheet, mg_dirty := False\<rparr>)))"

text \<open>The new model's provider: the one asked for, else the first one.\<close>

definition add_model :: "string \<Rightarrow> management \<Rightarrow> management" where
  "add_model p s = fire_change (fire_sheet
     (s\<lparr>mg_editing_model := None,
        mg_provider_id := (if p \<noteq> [] then p else case mg_providers s of [] \<Rightarrow> [] | q # _ \<Rightarrow> mp_id q),
        mg_sheet := Some ModelSheet, mg_dirty := False\<rparr>))"

definition edit_model :: "string \<Rightarrow> management \<Rightarrow> management" where
  "edit_model i s =
     (case find (\<lambda>m. md_id m = i) (mg_models s) of
        None \<Rightarrow> s
      | Some m \<Rightarrow> fire_change (fire_sheet
          (s\<lparr>mg_editing_model := Some m, mg_provider_id := md_provider m, mg_sheet := Some ModelSheet,
             mg_dirty := False\<rparr>)))"

definition select_view :: "string \<Rightarrow> management \<Rightarrow> management" where
  "select_view i s =
     (if mg_view s = i then s
      else fire_change (s\<lparr>mg_history := mg_history s @ [mg_view s], mg_view := i, mg_query := []\<rparr>))"

definition search_management :: "string \<Rightarrow> management \<Rightarrow> management" where
  "search_management q s = fire_change (s\<lparr>mg_query := q\<rparr>)"

definition go_back :: "management \<Rightarrow> management" where
  "go_back s =
     (if mg_history s = [] then s
      else fire_change (s\<lparr>mg_view := last (mg_history s), mg_history := butlast (mg_history s)\<rparr>))"

definition request_workspace_stop :: "string \<Rightarrow> management \<Rightarrow> management" where
  "request_workspace_stop i s =
     fire_change (fire_sheet (s\<lparr>mg_pending_workspace := i, mg_sheet := Some ConfirmWorkspaceStop\<rparr>))"

section \<open>All steps\<close>

datatype mg_user =
    MgOpen | MgOpenWorkspaceCreate | MgOpenBuildLogs string | MgCloseSheet | MgClose | MgSetDirty bool
  | MgAddTemplate | MgChooseTemplateKind source_kind | MgEditTemplate string | MgRequestDeleteTemplate string
  | MgAddCredential | MgEditCredential string | MgSetCredentialKind credential_kind
  | MgRequestDeleteCredential string
  | MgAddModelProvider | MgEditModelProvider string | MgAddModel string | MgEditModel string
  | MgSelectView string | MgSearch string | MgGoBack | MgRequestWorkspaceStop string

fun apply_user :: "mg_user \<Rightarrow> management \<Rightarrow> management" where
  "apply_user MgOpen = open_management"
| "apply_user MgOpenWorkspaceCreate = open_workspace_create"
| "apply_user (MgOpenBuildLogs i) = open_build_logs i"
| "apply_user MgCloseSheet = close_sheet"
| "apply_user MgClose = close_management"
| "apply_user (MgSetDirty d) = set_dirty d"
| "apply_user MgAddTemplate = add_template"
| "apply_user (MgChooseTemplateKind k) = choose_template_kind k"
| "apply_user (MgEditTemplate i) = edit_template i"
| "apply_user (MgRequestDeleteTemplate i) = request_delete_template i"
| "apply_user MgAddCredential = add_credential"
| "apply_user (MgEditCredential i) = edit_credential i"
| "apply_user (MgSetCredentialKind k) = set_credential_kind k"
| "apply_user (MgRequestDeleteCredential i) = request_delete_credential i"
| "apply_user MgAddModelProvider = add_model_provider"
| "apply_user (MgEditModelProvider i) = edit_model_provider i"
| "apply_user (MgAddModel p) = add_model p"
| "apply_user (MgEditModel i) = edit_model i"
| "apply_user (MgSelectView i) = select_view i"
| "apply_user (MgSearch q) = search_management q"
| "apply_user MgGoBack = go_back"
| "apply_user (MgRequestWorkspaceStop i) = request_workspace_stop i"

datatype mg_command =
    CmdReload | CmdReloadRuntime
  | CmdSaveTemplate string string json | CmdDeleteTemplate
  | CmdSaveCredential string credential_kind "(string, string) omap" "(string, string) omap"
  | CmdDeleteCredential string
  | CmdSaveModelProvider string string provider_kind string string | CmdDeleteModelProvider string
  | CmdSaveModel string string string bool json | CmdDeleteModel string
  | CmdStartWorkspace string | CmdStopWorkspace string | CmdDeleteWorkspace string

fun apply_command :: "mg_command \<Rightarrow> management \<Rightarrow> management" where
  "apply_command CmdReload = begin_reload JustReload"
| "apply_command CmdReloadRuntime = begin_runtime JustReload"
| "apply_command (CmdSaveTemplate n d j) = save_template n d j"
| "apply_command CmdDeleteTemplate = delete_template"
| "apply_command (CmdSaveCredential n k m x) = save_credential n k m x"
| "apply_command (CmdDeleteCredential i) = delete_credential i"
| "apply_command (CmdSaveModelProvider i n k b x) = save_model_provider i n k b x"
| "apply_command (CmdDeleteModelProvider i) = delete_model_provider i"
| "apply_command (CmdSaveModel p n u d c) = save_model p n u d c"
| "apply_command (CmdDeleteModel i) = delete_model i"
| "apply_command (CmdStartWorkspace i) = start_workspace i"
| "apply_command (CmdStopWorkspace i) = stop_workspace i"
| "apply_command (CmdDeleteWorkspace i) = delete_workspace i"

text \<open>A promise settles; a continuation runs.  A step that does not fit the task does not happen.\<close>

datatype mg_step =
    MgUser mg_user
  | MgCommand mg_command
  | MgRequested nat "string option option"
  | MgLoaded nat "string option + lists"
  | MgRuntimeLoaded nat "string option + provisioner list"
  | MgContinue nat

definition after_reload :: "followup \<Rightarrow> management \<times> bool \<Rightarrow> management" where
  "after_reload fu r = (if snd r \<and> fu \<noteq> JustReload then add_task (Continuing fu) (fst r) else fst r)"

fun apply_mg :: "mg_step \<Rightarrow> management \<Rightarrow> management" where
  "apply_mg (MgUser u) s = apply_user u s"
| "apply_mg (MgCommand c) s = apply_command c s"
| "apply_mg (MgRequested n e) s =
     (case om_get (mg_tasks s) n of
        Some (Requesting r) \<Rightarrow>
          (case e of Some x \<Rightarrow> mg_reject x (end_task n s) | None \<Rightarrow> after_request r (end_task n s))
      | _ \<Rightarrow> s)"
| "apply_mg (MgLoaded n r) s =
     (case om_get (mg_tasks s) n of
        Some (Loading g fu) \<Rightarrow> after_reload fu (finish_reload g r (end_task n s))
      | _ \<Rightarrow> s)"
| "apply_mg (MgRuntimeLoaded n r) s =
     (case om_get (mg_tasks s) n of
        Some (LoadingRuntime g fu) \<Rightarrow> after_reload fu (finish_runtime g r (end_task n s))
      | _ \<Rightarrow> s)"
| "apply_mg (MgContinue n) s =
     (case om_get (mg_tasks s) n of Some (Continuing fu) \<Rightarrow> follow_up fu (end_task n s) | _ \<Rightarrow> s)"

section \<open>The contexts follow the state\<close>

lemmas fires = fire_change_def fire_sheet_def fire_editing_def mg_fire_def

lemmas task_defs = add_task_def end_task_def mg_reject_def

lemmas user_defs = open_management_def open_workspace_create_def open_build_logs_def close_sheet_def
  close_management_def set_dirty_def add_template_def choose_template_kind_def edit_template_def
  request_delete_template_def add_credential_def edit_credential_def set_credential_kind_def
  request_delete_credential_def add_model_provider_def edit_model_provider_def add_model_def edit_model_def
  select_view_def search_management_def go_back_def request_workspace_stop_def

lemmas command_defs = begin_reload_def begin_runtime_def save_template_def delete_template_def
  save_credential_def delete_credential_def save_model_provider_def delete_model_provider_def
  save_model_def delete_model_def start_workspace_def stop_workspace_def delete_workspace_def

definition contexts_ok :: "management \<Rightarrow> bool" where
  "contexts_ok s \<longleftrightarrow> mg_open_context s = Some (mg_open s) \<and> mg_dirty_context s = Some (mg_dirty s)"

lemma contexts_user: "contexts_ok s \<Longrightarrow> contexts_ok (apply_user u s)"
  by (cases u) (simp_all add: contexts_ok_def user_defs fires split: option.splits)

lemma contexts_command: "contexts_ok s \<Longrightarrow> contexts_ok (apply_command c s)"
  by (cases c) (simp_all add: contexts_ok_def command_defs fires task_defs Let_def)

lemma contexts_request: "contexts_ok s \<Longrightarrow> contexts_ok (after_request r s)"
  by (cases r) (simp_all add: contexts_ok_def command_defs fires task_defs Let_def)

lemma contexts_follow_up: "contexts_ok s \<Longrightarrow> contexts_ok (follow_up fu s)"
  by (cases fu) (simp_all add: contexts_ok_def fires)

lemma contexts_finish: "contexts_ok s \<Longrightarrow> contexts_ok (fst (finish_reload g r s))"
  by (induction g r s rule: finish_reload.induct) (simp_all add: contexts_ok_def fires task_defs)

lemma contexts_runtime: "contexts_ok s \<Longrightarrow> contexts_ok (fst (finish_runtime g r s))"
  by (induction g r s rule: finish_runtime.induct) (simp_all add: contexts_ok_def fires task_defs)

lemma contexts_tasks [simp]:
  "contexts_ok (add_task t s) = contexts_ok s" "contexts_ok (end_task n s) = contexts_ok s"
  "contexts_ok (mg_reject e s) = contexts_ok s"
  by (simp_all add: contexts_ok_def task_defs)

lemma contexts_step: "contexts_ok s \<Longrightarrow> contexts_ok (apply_mg e s)"
  by (cases e) (simp_all add: contexts_user contexts_command contexts_request contexts_follow_up contexts_finish
    contexts_runtime after_reload_def split: option.split task.split)

text \<open>
  Whatever the user and the provider do, in whatever order, the context keys that the menus
  and the keyboard shortcuts read say whether the window is open and whether the form is dirty.
\<close>

theorem management_contexts_accurate:
  "let s = fold apply_mg es (new_management True)
   in mg_open_context s = Some (mg_open s) \<and> mg_dirty_context s = Some (mg_dirty s)"
proof -
  have "contexts_ok (fold apply_mg es s)" if "contexts_ok s" for s
    using that by (induction es arbitrary: s) (simp_all add: contexts_step)
  moreover have "contexts_ok (new_management True)" by (simp add: contexts_ok_def new_management_def)
  ultimately show ?thesis unfolding contexts_ok_def Let_def by blast
qed

section \<open>Loading\<close>

fun gens :: "(nat, task) omap \<Rightarrow> nat list" where
  "gens [] = []"
| "gens ((_, Loading g _) # m) = g # gens m"
| "gens (_ # m) = gens m"

lemma gens_append: "gens (m @ m') = gens m @ gens m'"
  by (induction m rule: gens.induct) simp_all

lemma gens_iff: "g \<in> set (gens m) \<longleftrightarrow> (\<exists>n fu. (n, Loading g fu) \<in> set m)"
  by (induction m rule: gens.induct) auto

lemma gens_del_other:
  "om_wf m \<Longrightarrow> om_get m n = Some t \<Longrightarrow> (\<And>g fu. t \<noteq> Loading g fu) \<Longrightarrow> gens (om_del n m) = gens m"
proof (induction m)
  case (Cons e m)
  obtain k t' where e: "e = (k, t')" by fastforce
  have w: "om_wf m" "k \<notin> fst ` set m" using Cons.prems(1) by (simp_all add: e om_wf_def)
  show ?case
  proof (cases "k = n")
    case True
    with w have "om_del n m = m" by (simp add: om_del_fresh map_of_eq_None_iff)
    moreover have "t' = t" using True Cons.prems(2) by (simp add: e)
    ultimately show ?thesis using True Cons.prems(3) by (cases t) (auto simp: e)
  next
    case False
    then have "gens (om_del n m) = gens m" using Cons w by (simp add: e)
    with False show ?thesis by (cases t') (simp_all add: e)
  qed
qed simp

lemma gens_del: 
  "om_wf m \<Longrightarrow> distinct (gens m) \<Longrightarrow> om_get m n = Some (Loading g fu) \<Longrightarrow> gens (om_del n m) = remove1 g (gens m)"
proof (induction m rule: gens.induct)
  case (2 k h f m)
  then show ?case by (cases "k = n") (auto simp: om_wf_def om_del_fresh map_of_eq_None_iff gens_iff dest: map_of_SomeD)
qed (auto simp: om_wf_def split: if_splits)

abbreviation load_gens :: "management \<Rightarrow> nat list" where
  "load_gens s \<equiv> gens (mg_tasks s)"

definition tasks_ok :: "management \<Rightarrow> bool" where
  "tasks_ok s \<longleftrightarrow> om_wf (mg_tasks s) \<and> (\<forall>n \<in> fst ` set (mg_tasks s). n < mg_next s) \<and>
     distinct (load_gens s) \<and> (\<forall>g \<in> set (load_gens s). g \<le> mg_generation s)"

definition loading_ok :: "management \<Rightarrow> bool" where
  "loading_ok s \<longleftrightarrow> tasks_ok s \<and> (mg_models_state s = ModelsLoading \<longleftrightarrow> mg_generation s \<in> set (load_gens s))"

text \<open>Loading is decided by four parts of the state; what leaves them alone keeps the invariant.\<close>

definition loading_parts :: "management \<Rightarrow> nat \<times> bool \<times> (nat, task) omap \<times> nat" where
  "loading_parts s = (mg_generation s, mg_models_state s = ModelsLoading, mg_tasks s, mg_next s)"

lemma loading_parts_ok: "loading_parts s' = loading_parts s \<Longrightarrow> loading_ok s \<Longrightarrow> loading_ok s'"
  by (simp add: loading_parts_def loading_ok_def tasks_ok_def)

lemma parts_fire [simp]:
  "loading_parts (fire_change s) = loading_parts s" "loading_parts (fire_sheet s) = loading_parts s"
  "loading_parts (fire_editing s) = loading_parts s" "loading_parts (mg_fire e s) = loading_parts s"
  "loading_parts (mg_reject x s) = loading_parts s"
  by (simp_all add: loading_parts_def fires task_defs)

lemma parts_user: "loading_parts (apply_user u s) = loading_parts s"
  by (cases u) (simp_all add: user_defs loading_parts_def fires split: option.split)

lemma parts_follow_up: "loading_parts (follow_up fu s) = loading_parts s"
  by (cases fu) (simp_all add: loading_parts_def fires)

lemma loading_reject [simp]: "loading_ok (mg_reject x s) = loading_ok s"
  by (simp add: loading_ok_def tasks_ok_def task_defs)

lemma loading_change [simp]: "loading_ok (fire_change s) = loading_ok s"
  by (simp add: loading_ok_def tasks_ok_def fires)

lemma loading_add_task:
  "loading_ok s \<Longrightarrow> (\<And>g fu. t \<noteq> Loading g fu) \<Longrightarrow> loading_ok (add_task t s)"
  by (cases t) (auto simp: loading_ok_def tasks_ok_def task_defs om_wf_def gens_append)

lemma loading_begin_reload:
  assumes "loading_ok s"
  shows "loading_ok (begin_reload fu s)"
proof -
  have s: "om_wf (mg_tasks s)" "\<And>n. n \<in> fst ` set (mg_tasks s) \<Longrightarrow> n < mg_next s" "distinct (load_gens s)"
    "\<And>g. g \<in> set (load_gens s) \<Longrightarrow> g \<le> mg_generation s"
    using assms unfolding loading_ok_def tasks_ok_def by blast+
  have t: "mg_tasks (begin_reload fu s) = mg_tasks s @ [(mg_next s, Loading (Suc (mg_generation s)) fu)]"
    "mg_next (begin_reload fu s) = Suc (mg_next s)" "mg_generation (begin_reload fu s) = Suc (mg_generation s)"
    "mg_models_state (begin_reload fu s) = ModelsLoading"
    by (simp_all add: begin_reload_def Let_def fires task_defs)
  have "om_wf (mg_tasks (begin_reload fu s))" using s(1,2) unfolding t om_wf_def by auto
  moreover have "\<forall>n \<in> fst ` set (mg_tasks (begin_reload fu s)). n < mg_next (begin_reload fu s)"
    unfolding t using s(2) by (auto intro: less_SucI)
  moreover have "distinct (load_gens (begin_reload fu s))" unfolding t gens_append using s(3) s(4) [of "Suc (mg_generation s)"] by auto
  moreover have "\<forall>g \<in> set (load_gens (begin_reload fu s)). g \<le> mg_generation (begin_reload fu s)"
    unfolding t gens_append using s(4) by (auto intro: le_SucI)
  ultimately show ?thesis unfolding loading_ok_def tasks_ok_def by (simp add: t gens_append)
qed

lemma tasks_end:
  assumes "tasks_ok s"
  shows "om_wf (mg_tasks (end_task n s))" "\<forall>k \<in> fst ` set (mg_tasks (end_task n s)). k < mg_next (end_task n s)"
  using assms om_del_keys [of n "mg_tasks s"] unfolding tasks_ok_def by (auto simp: end_task_def)

lemma loading_end_other:
  assumes "loading_ok s" and "om_get (mg_tasks s) n = Some t" and "\<And>g fu. t \<noteq> Loading g fu"
  shows "loading_ok (end_task n s)"
proof -
  have "load_gens (end_task n s) = load_gens s"
    using gens_del_other [OF _ assms(2,3)] assms(1) by (simp add: end_task_def loading_ok_def tasks_ok_def)
  then show ?thesis
    using assms(1) tasks_end [of s n] unfolding loading_ok_def tasks_ok_def by (simp add: end_task_def)
qed

text \<open>A reload that completes is the latest one exactly if its state is the one shown as loading.\<close>

lemma loading_finish:
  assumes ok: "loading_ok s" and t: "om_get (mg_tasks s) n = Some (Loading g fu)"
  shows "loading_ok (fst (finish_reload g r (end_task n s)))"
proof -
  have "g \<in> set (load_gens s)" using map_of_SomeD [OF t] by (auto simp: gens_iff)
  moreover have d: "load_gens (end_task n s) = remove1 g (load_gens s)"
    using gens_del [OF _ _ t] ok by (simp add: end_task_def loading_ok_def tasks_ok_def)
  moreover have "distinct (load_gens s)" using ok by (simp add: loading_ok_def tasks_ok_def)
  ultimately have m: "set (load_gens (end_task n s)) = set (load_gens s) - {g}" "distinct (load_gens (end_task n s))"
    by simp_all
  have f: "mg_generation (end_task n s) = mg_generation s" "mg_models_state (end_task n s) = mg_models_state s"
    by (simp_all add: end_task_def)
  have keep: "loading_ok (end_task n s)" if "g \<noteq> mg_generation s"
    using ok m f that tasks_end [of s n] unfolding loading_ok_def tasks_ok_def by auto
  have done': "loading_ok s'" if "g = mg_generation s" and "mg_tasks s' = mg_tasks (end_task n s)"
    and "mg_generation s' = mg_generation s" and "mg_next s' = mg_next (end_task n s)" and "mg_models_state s' \<noteq> ModelsLoading" for s'
    using ok m f that tasks_end [of s n] unfolding loading_ok_def tasks_ok_def by auto
  show ?thesis
  proof (cases r)
    case (Inl e)
    then show ?thesis using keep done' by (auto simp: f fires)
  next
    case (Inr v)
    obtain ts cs ms ps where "v = (ts, cs, ms, ps)" by (metis prod_cases4)
    then show ?thesis using keep done' by (auto simp: Inr f fires)
  qed
qed

lemma loading_begin_runtime: "loading_ok s \<Longrightarrow> loading_ok (begin_runtime fu s)"
  unfolding begin_runtime_def Let_def
  by (rule loading_add_task) (auto simp: loading_ok_def tasks_ok_def)

lemma loading_command: "loading_ok s \<Longrightarrow> loading_ok (apply_command c s)"
  by (cases c) (simp_all add: loading_begin_reload loading_begin_runtime loading_add_task save_template_def
    delete_template_def save_credential_def delete_credential_def save_model_provider_def
    delete_model_provider_def save_model_def delete_model_def start_workspace_def stop_workspace_def
    delete_workspace_def)

lemma loading_request: "loading_ok s \<Longrightarrow> loading_ok (after_request r s)"
proof (cases r)
  case (SaveModelProvider i n k b x e)
  assume "loading_ok s"
  then have "loading_ok (s\<lparr>mg_editing_provider := None\<rparr>)"
    by (rule loading_parts_ok [rotated]) (simp add: loading_parts_def)
  then show ?thesis by (simp add: SaveModelProvider loading_begin_reload)
next
  case (SaveModel p n u d c e)
  assume "loading_ok s"
  then have "loading_ok (s\<lparr>mg_editing_model := None\<rparr>)"
    by (rule loading_parts_ok [rotated]) (simp add: loading_parts_def)
  then show ?thesis by (simp add: SaveModel loading_begin_reload)
next
  case (StopWorkspace i)
  assume "loading_ok s"
  then have "loading_ok (fire_sheet (s\<lparr>mg_sheet := None, mg_pending_workspace := []\<rparr>))"
    by (rule loading_parts_ok [rotated]) (simp add: loading_parts_def fires)
  then show ?thesis by (simp add: StopWorkspace loading_begin_runtime)
qed (simp_all add: loading_begin_reload loading_begin_runtime)

lemma loading_after_reload: "loading_ok (fst r) \<Longrightarrow> loading_ok (after_reload fu r)"
  by (simp add: after_reload_def loading_add_task)

lemma loading_runtime: "loading_ok s \<Longrightarrow> loading_ok (fst (finish_runtime g r s))"
proof (induction g r s rule: finish_runtime.induct)
  case (2 g ps s)
  then have "loading_ok (s\<lparr>mg_provisioners := ps, mg_jobs := [], mg_builds := []\<rparr>)"
    by (rule loading_parts_ok [rotated]) (simp add: loading_parts_def)
  with 2 show ?case by simp
qed simp

lemma loading_step:
  assumes "loading_ok s"
  shows "loading_ok (apply_mg e s)"
proof (cases e)
  case (MgUser u)
  show ?thesis using loading_parts_ok [OF parts_user assms] by (simp add: MgUser)
next
  case (MgCommand c)
  show ?thesis using loading_command [OF assms] by (simp add: MgCommand)
next
  case (MgRequested n x)
  show ?thesis
    using assms loading_end_other [OF assms, of n] loading_request
    by (auto simp: MgRequested split: option.split task.split)
next
  case (MgLoaded n r)
  show ?thesis
    using assms loading_finish [OF assms, of n] loading_after_reload
    by (auto simp: MgLoaded split: option.split task.split)
next
  case (MgRuntimeLoaded n r)
  show ?thesis
    using assms loading_end_other [OF assms, of n] loading_after_reload loading_runtime
    by (auto simp: MgRuntimeLoaded split: option.split task.split)
next
  case (MgContinue n)
  show ?thesis
    using assms loading_end_other [OF assms, of n] loading_parts_ok [OF parts_follow_up]
    by (auto simp: MgContinue split: option.split task.split)
qed

lemma loading_history: "loading_ok s \<Longrightarrow> loading_ok (fold apply_mg es s)"
  by (induction es arbitrary: s) (simp_all add: loading_step)

lemma loading_new: "loading_ok (new_management c)"
  by (simp add: loading_ok_def tasks_ok_def new_management_def)

text \<open>
  C11: the models are shown as loading exactly while the latest reload is under way: it never
  shows a spinner with nothing to wait for, whichever of the overlapping reloads have returned or
  failed, and never shows a list as current while its reload is out.
\<close>

theorem loading_exactly_while_pending:
  "let s = fold apply_mg es (new_management c)
   in mg_models_state s = ModelsLoading \<longleftrightarrow> (\<exists>n fu. om_get (mg_tasks s) n = Some (Loading (mg_generation s) fu))"
proof -
  let ?s = "fold apply_mg es (new_management c)"
  have ok: "loading_ok ?s" by (rule loading_history [OF loading_new])
  then have "om_wf (mg_tasks ?s)" by (simp add: loading_ok_def tasks_ok_def)
  then have "mg_generation ?s \<in> set (load_gens ?s) \<longleftrightarrow> (\<exists>n fu. om_get (mg_tasks ?s) n = Some (Loading (mg_generation ?s) fu))"
    unfolding gens_iff by (simp add: om_get_eq_Some_iff)
  with ok show ?thesis unfolding loading_ok_def Let_def by blast
qed

section \<open>Reloads that were superseded\<close>

text \<open>What the views show of the lists and their state.\<close>

definition mg_shown :: "management \<Rightarrow> lists \<times> models_state \<times> string" where
  "mg_shown s = ((mg_templates s, mg_credentials s, mg_models s, mg_providers s), mg_models_state s, mg_models_error s)"

definition runtime_shown :: "management \<Rightarrow> provisioner list \<times> job list \<times> build list" where
  "runtime_shown s = (mg_provisioners s, mg_jobs s, mg_builds s)"

lemma generation_user:
  "mg_generation (apply_user u s) = mg_generation s" "mg_runtime_generation (apply_user u s) = mg_runtime_generation s"
  by (cases u, simp_all add: user_defs fires split: option.split)+

lemma generation_command:
  "mg_generation s \<le> mg_generation (apply_command c s)"
  "mg_runtime_generation s \<le> mg_runtime_generation (apply_command c s)"
  by (cases c, simp_all add: command_defs fires task_defs Let_def)+

lemma generation_request:
  "mg_generation s \<le> mg_generation (after_request r s)"
  "mg_runtime_generation s \<le> mg_runtime_generation (after_request r s)"
  by (cases r, simp_all add: command_defs fires task_defs Let_def)+

lemma generation_follow_up:
  "mg_generation (follow_up fu s) = mg_generation s" "mg_runtime_generation (follow_up fu s) = mg_runtime_generation s"
  by (cases fu, simp_all add: fires)+

lemma generation_finish:
  "mg_generation (fst (finish_reload g r s)) = mg_generation s"
  "mg_runtime_generation (fst (finish_reload g r s)) = mg_runtime_generation s"
  "mg_generation (fst (finish_runtime g p s)) = mg_generation s"
  "mg_runtime_generation (fst (finish_runtime g p s)) = mg_runtime_generation s"
  by (induction g r s rule: finish_reload.induct, simp_all add: fires task_defs)
    (induction g p s rule: finish_runtime.induct, simp_all add: fires task_defs)+

lemma generation_tasks [simp]:
  "mg_generation (end_task n s) = mg_generation s" "mg_runtime_generation (end_task n s) = mg_runtime_generation s"
  "mg_generation (add_task t s) = mg_generation s" "mg_runtime_generation (add_task t s) = mg_runtime_generation s"
  "mg_generation (mg_reject x s) = mg_generation s" "mg_runtime_generation (mg_reject x s) = mg_runtime_generation s"
  by (simp_all add: task_defs)

lemma generation_step:
  "mg_generation s \<le> mg_generation (apply_mg e s) \<and> mg_runtime_generation s \<le> mg_runtime_generation (apply_mg e s)"
proof (cases e)
  case (MgRequested n x)
  then show ?thesis
    using generation_request [where s = "end_task n s"] by (auto split: option.split task.split)
qed (auto simp: generation_user generation_command generation_follow_up generation_finish after_reload_def
    split: option.split task.split)

lemma generation_begin [simp]:
  "mg_generation (begin_reload fu s) = Suc (mg_generation s)"
  "mg_runtime_generation (begin_runtime fu s) = Suc (mg_runtime_generation s)"
  by (simp_all add: begin_reload_def begin_runtime_def Let_def fires)

lemma stale_reload:
  "g \<noteq> mg_generation s \<Longrightarrow> mg_shown (fst (finish_reload g r s)) = mg_shown s"
  by (induction g r s rule: finish_reload.induct) (simp_all add: mg_shown_def task_defs)

lemma stale_runtime:
  "g \<noteq> mg_runtime_generation s \<Longrightarrow> runtime_shown (fst (finish_runtime g r s)) = runtime_shown s"
  by (induction g r s rule: finish_runtime.induct) (simp_all add: runtime_shown_def task_defs)

interpretation reloading: latest_wins mg_generation
  "\<lambda>s. (begin_reload fu s, mg_generation (begin_reload fu s))"
  "\<lambda>g r s. fst (finish_reload g r s)" apply_mg mg_shown "\<lambda>s. True" for fu
  by unfold_locales (auto simp: stale_reload generation_step)

interpretation runtime_reloading: latest_wins mg_runtime_generation
  "\<lambda>s. (begin_runtime fu s, mg_runtime_generation (begin_runtime fu s))"
  "\<lambda>g r s. fst (finish_runtime g r s)" apply_mg runtime_shown "\<lambda>s. True" for fu
  by unfold_locales (auto simp: stale_runtime generation_step)

text \<open>
  Of two overlapping reloads the earlier one never shows, neither its lists nor its error,
  however late it returns and whatever happened in between.
\<close>

theorem superseded_reload_never_shows:
  "let s1 = begin_reload fu s; s2 = begin_reload fu (fold apply_mg es s1); now = fold apply_mg fs s2
   in mg_shown (fst (finish_reload (mg_generation s1) r now)) = mg_shown now"
  unfolding Let_def
  by (rule reloading.superseded_never_shows [OF TrueI refl refl])

text \<open>
  Nor does a superseded reload of the runtime show its provisioners.
\<close>

theorem superseded_runtime_never_shows:
  "let s1 = begin_runtime fu s; s2 = begin_runtime fu (fold apply_mg es s1); now = fold apply_mg fs s2
   in runtime_shown (fst (finish_runtime (mg_runtime_generation s1) r now)) = runtime_shown now"
  unfolding Let_def
  by (rule runtime_reloading.superseded_never_shows [OF TrueI refl refl])

section \<open>Going back\<close>

definition select_all :: "string list \<Rightarrow> management \<Rightarrow> management" where
  "select_all is s = fold select_view is s"

definition back_times :: "nat \<Rightarrow> management \<Rightarrow> management" where
  "back_times n s = (go_back ^^ n) s"

lemma go_back_parts:
  assumes "mg_history s = h @ [v]"
  shows "mg_view (go_back s) = v" "mg_history (go_back s) = h" "mg_query (go_back s) = mg_query s"
  using assms by (simp_all add: go_back_def fires)

lemma back_times_parts:
  "mg_history s = h @ vs \<Longrightarrow> mg_history (back_times (length vs) s) = h \<and> mg_query (back_times (length vs) s) = mg_query s \<and>
     mg_view (back_times (length vs) s) = hd (vs @ [mg_view s])"
proof (induction vs arbitrary: s rule: rev_induct)
  case (snoc v vs)
  then have h: "mg_history s = (h @ vs) @ [v]" by simp
  have "back_times (length (vs @ [v])) s = back_times (length vs) (go_back s)"
    unfolding back_times_def length_append by (simp add: funpow_swap1)
  with snoc.IH [OF go_back_parts(2) [OF h]] go_back_parts(1,3) [OF h] show ?case
    by (simp add: hd_append)
qed (simp add: back_times_def)

lemma select_all_parts:
  "\<exists>vs. mg_history (select_all is s) = mg_history s @ vs \<and> hd (vs @ [mg_view (select_all is s)]) = mg_view s"
proof (induction "is" rule: rev_induct)
  case (snoc i xs)
  then obtain vs where v: "mg_history (select_all xs s) = mg_history s @ vs"
    "hd (vs @ [mg_view (select_all xs s)]) = mg_view s" by blast
  have f: "select_all (xs @ [i]) s = select_view i (select_all xs s)" by (simp add: select_all_def)
  show ?case
  proof (cases "mg_view (select_all xs s) = i")
    case True
    then show ?thesis using v unfolding f by (auto simp: select_view_def)
  next
    case False
    then have "mg_history (select_view i (select_all xs s)) = mg_history s @ (vs @ [mg_view (select_all xs s)])"
      using v by (simp add: select_view_def fires)
    moreover have "hd ((vs @ [mg_view (select_all xs s)]) @ [mg_view (select_view i (select_all xs s))]) = mg_view s"
      using v(2) by (simp add: hd_append split: if_splits)
    ultimately show ?thesis unfolding f by blast
  qed
qed (simp add: select_all_def)

text \<open>
  Going back as often as the history has grown returns to the view and the history from which
  views were selected, whatever was selected and searched.  The search is not undone: the text
  searched for in the last view is applied to the one returned to, although selecting a view
  clears it.
\<close>

theorem back_returns_with_the_search:
  "let s1 = search_management q (select_all is s);
       s2 = back_times (length (mg_history s1) - length (mg_history s)) s1
   in mg_view s2 = mg_view s \<and> mg_history s2 = mg_history s \<and> mg_query s2 = q"
proof -
  let ?s1 = "search_management q (select_all is s)"
  obtain vs where "mg_history (select_all is s) = mg_history s @ vs"
    and v: "hd (vs @ [mg_view (select_all is s)]) = mg_view s"
    using select_all_parts by blast
  then have h: "mg_history ?s1 = mg_history s @ vs" by (simp add: search_management_def fires)
  have "mg_view ?s1 = mg_view (select_all is s)" "mg_query ?s1 = q" by (simp_all add: search_management_def fires)
  then show ?thesis using back_times_parts [OF h] h v by (simp add: Let_def)
qed

section \<open>A save that completes late\<close>

lemma fresh_task: "tasks_ok s \<Longrightarrow> mg_next s \<le> n \<Longrightarrow> om_get (mg_tasks s) n = None"
  by (force simp: tasks_ok_def map_of_eq_None_iff)


text \<open>
  A template save whose answer comes late closes whichever form is open by then: a credential
  that the user has opened and changed meanwhile loses its sheet and its unsaved mark, while it
  stays the one being edited.
\<close>

theorem late_save_closes_another_form:
  assumes "s = fold apply_mg es (new_management ctx)" and "find (\<lambda>c. cn_id c = i) (mg_credentials s) = Some c"
  shows "let n = mg_next s;
             s1 = fold apply_mg [MgCommand (CmdSaveTemplate name desc src), MgRequested n None,
                    MgUser (MgEditCredential i), MgUser (MgSetDirty True)] s;
             s2 = fold apply_mg [MgLoaded (Suc n) (Inr ls), MgContinue (Suc (Suc n))] s1
         in mg_sheet s1 = Some CredentialSheet \<and> mg_dirty s1 \<and> mg_editing_credential s1 = Some c \<and>
            mg_sheet s2 = None \<and> \<not> mg_dirty s2 \<and> mg_editing_credential s2 = Some c"
proof -
  have "loading_ok s" unfolding assms(1) by (rule loading_history [OF loading_new])
  then have t: "tasks_ok s" by (simp add: loading_ok_def)
  have f: "om_get (mg_tasks s) (mg_next s) = None" "om_get (mg_tasks s) (Suc (mg_next s)) = None"
    "om_get (mg_tasks s) (Suc (Suc (mg_next s))) = None"
    using fresh_task [OF t] by simp_all
  obtain ts cs ms ps where l: "ls = (ts, cs, ms, ps)" by (metis prod_cases4)
  show ?thesis
    using assms(2)
    by (simp add: Let_def l save_template_def edit_credential_def set_dirty_def begin_reload_def task_defs
        fires map_add_def f om_del_snoc after_reload_def)
qed

theorem late_save_closes_another_form_witness:
  "let c = \<lparr>cn_id = ''c'', cn_name = ''key'', cn_kind = SshKey, cn_metadata = []\<rparr>;
       s = fold apply_mg [MgCommand CmdReload, MgLoaded 0 (Inr ([], [c], [], []))] (new_management True);
       n = mg_next s;
       s1 = fold apply_mg [MgCommand (CmdSaveTemplate ''t'' [] JNull), MgRequested n None,
              MgUser (MgEditCredential ''c''), MgUser (MgSetDirty True)] s;
       s2 = fold apply_mg [MgLoaded (Suc n) (Inr ([], [], [], [])), MgContinue (Suc (Suc n))] s1
   in mg_sheet s1 = Some CredentialSheet \<and> mg_dirty s1 \<and> mg_editing_credential s1 = Some c \<and>
      mg_sheet s2 = None \<and> \<not> mg_dirty s2 \<and> mg_editing_credential s2 = Some c"
proof -
  let ?c = "\<lparr>cn_id = ''c'', cn_name = ''key'', cn_kind = SshKey, cn_metadata = []\<rparr>"
  let ?s = "fold apply_mg [MgCommand CmdReload, MgLoaded 0 (Inr ([], [?c], [], []))] (new_management True)"
  have "find (\<lambda>c. cn_id c = ''c'') (mg_credentials ?s) = Some ?c"
    by (simp add: new_management_def begin_reload_def Let_def task_defs fires after_reload_def)
  from late_save_closes_another_form [OF refl this, of "''t''" "[]" JNull "([], [], [], [])"]
  show ?thesis unfolding Let_def .
qed

end
