(* ===== verification/Composer.thy ===== *)
theory Composer
  imports Menus ChatSession Management
begin

text \<open>
  \<open>packages/workbench/src/contrib/sessions/agent-composer.ts\<close>: the input editor with its
  attachments, its pickers and its send button, over any owner of the composition.

  The callbacks of the options are two functions of the owner's state: what it offers
  (\<open>composer_env\<close>) and the change of its composition; whether a change makes the owner refresh the
  composer at once is a flag.  Descriptors of actions are those the registry lists or the fallbacks.
  The height of the text is a parameter.
\<close>

section \<open>What the owner offers\<close>

record composer_model =
  co_id :: string
  co_name :: string
  co_vendor :: string
  co_reasoning :: bool
  co_efforts :: "string list"

record composer_env =
  en_composition :: composition
  en_disabled :: bool
  en_models :: "composer_model list"
  en_models_state :: models_state
  en_placeholder :: string
  en_notice :: "(string \<times> string) option"
  en_working :: bool
  en_cancels :: bool
  en_actions :: "(string \<times> string \<times> string \<times> string) list"

text \<open>Of an action: its id, its command, its icon and its title.\<close>

definition fallback_actions :: "(string \<times> string \<times> string \<times> string) list" where
  "fallback_actions =
     [(''zaw.action.composer.mode'', ''zaw.composer.selectMode'', ''tools'', ''Agent mode''),
      (''zaw.action.composer.attach'', ''zaw.composer.attach'', ''add'', ''Attach files''),
      (''zaw.action.composer.model'', ''zaw.composer.selectModel'', ''sparkle'', ''Language model''),
      (''zaw.action.composer.reasoningEffort'', ''zaw.composer.selectReasoningEffort'', ''settings'', ''Reasoning effort''),
      (''zaw.action.composer.submit'', ''zaw.composer.submit'', ''arrow-up'', ''Send'')]"

definition composer_descriptor :: "composer_env \<Rightarrow> string \<Rightarrow> string \<times> string \<times> string" where
  "composer_descriptor e k =
     (case om_get (en_actions e) k of
        Some d \<Rightarrow> d
      | None \<Rightarrow> (case om_get fallback_actions k of Some d \<Rightarrow> d | None \<Rightarrow> ([], [], [])))"

abbreviation descriptor_title :: "composer_env \<Rightarrow> string \<Rightarrow> string" where
  "descriptor_title e k \<equiv> snd (snd (composer_descriptor e k))"

section \<open>The composer\<close>

datatype composer_focus = OnEditor | OnPill nat | Elsewhere

datatype composer_microtask = QueuedChange composition_changes | QueuedPickers

record pickers =
  pi_mode :: picker
  pi_model :: picker
  pi_effort :: picker
  pi_composition :: composition
  pi_selected_model :: string
  pi_commands :: "string \<times> string \<times> string"

text \<open>A file that is attached, with what a \<open>FileReader\<close> gives for it.\<close>

record picked_file =
  pf_name :: string
  pf_type :: string
  pf_data_url :: "string option"

record composer =
  cp_value :: string
  cp_selection :: "nat \<times> nat"
  cp_focus :: composer_focus
  cp_composing :: bool
  cp_placeholder :: string
  cp_editor_disabled :: bool
  cp_working :: bool
  cp_notice :: "(string \<times> string) option"
  cp_pills :: "(string \<times> string) list"
  cp_height :: nat
  cp_send :: action_button
  cp_pickers :: pickers
  cp_dragging :: bool
  cp_dialogs :: nat
  cp_readings :: "picked_file list list"
  cp_submits :: nat
  cp_microtasks :: "composer_microtask list"

definition resize_editor :: "(string \<Rightarrow> nat) \<Rightarrow> composer \<Rightarrow> composer" where
  "resize_editor height c = c\<lparr>cp_height := min 180 (max 52 (height (cp_value c)))\<rparr>"

definition send_disabled :: "composer_env \<Rightarrow> string \<Rightarrow> bool" where
  "send_disabled e value \<longleftrightarrow>
     en_disabled e \<or> (\<not> en_working e \<and> js_trim value = [] \<and> cc_attachments (en_composition e) = [])"

definition refresh_send :: "composer_env \<Rightarrow> composer \<Rightarrow> composer" where
  "refresh_send e c =
     (let b1 = set_working (en_working e \<and> \<not> en_cancels e) (cp_send c);
          b2 = set_icon (if en_working e \<and> en_cancels e then ''debug-stop'' else ''arrow-up'') b1;
          b3 = b2\<lparr>ab_aria := (if en_working e then (if en_cancels e then ''Stop generating'' else ''Creating session'')
                            else descriptor_title e ''zaw.action.composer.submit'')\<rparr>
      in c\<lparr>cp_send := set_disabled (send_disabled e (cp_value c)) b3\<rparr>)"

definition attachment_pill :: "json \<Rightarrow> string \<times> string" where
  "attachment_pill a = (str_or_empty (field a ''label''), if field a ''displayKind'' = JStr ''image'' then ''file-media'' else ''file'')"

text \<open>The pills are made anew, so that none keeps the focus.\<close>

definition render_attachments :: "composer_env \<Rightarrow> composer \<Rightarrow> composer" where
  "render_attachments e c =
     c\<lparr>cp_pills := map attachment_pill (cc_attachments (en_composition e)),
       cp_focus := (case cp_focus c of OnPill k \<Rightarrow> Elsewhere | f \<Rightarrow> f)\<rparr>"

definition refresh_composer :: "(string \<Rightarrow> nat) \<Rightarrow> composer_env \<Rightarrow> composer \<Rightarrow> composer" where
  "refresh_composer height e c =
     (let draft = cc_draft (en_composition e);
          c1 = (if cp_value c \<noteq> draft then
                  c\<lparr>cp_value := draft,
                    cp_selection := (if cp_focus c = OnEditor
                      then (min (fst (cp_selection c)) (length draft), min (snd (cp_selection c)) (length draft))
                      else (length draft, length draft))\<rparr>
                else c);
          c2 = c1\<lparr>cp_placeholder := en_placeholder e, cp_editor_disabled := en_disabled e, cp_working := en_working e,
                  cp_notice := en_notice e\<rparr>
      in refresh_send e (resize_editor height (render_attachments e c2)))"

section \<open>Pickers\<close>

definition plain_item :: "string \<Rightarrow> string \<Rightarrow> string \<Rightarrow> menu_item" where
  "plain_item value label description =
     \<lparr>mi_value = value, mi_label = label, mi_description = description, mi_icon = [], mi_disabled = False, mi_selected = False\<rparr>"

definition mode_items :: "menu_item list" where
  "mode_items = [plain_item ''agent'' ''Agent'' [], plain_item ''ask'' ''Ask'' [], plain_item ''plan'' ''Plan'' []]"

definition model_items :: "composer_env \<Rightarrow> menu_item list" where
  "model_items e =
     (if en_models_state e = ModelsLoading \<or> en_models_state e = ModelsIdle then [plain_item [] (''Loading models'' @ bytes [226, 128, 166]) []]
      else if en_models_state e = ModelsError then [plain_item [] ''Models unavailable'' []]
      else if en_models e = [] then [plain_item [] ''No models available'' []]
      else map (\<lambda>m. plain_item (co_id m) (co_name m) (co_vendor m)) (en_models e))"

definition selected_model :: "composer_env \<Rightarrow> string" where
  "selected_model e =
     (if list_ex (\<lambda>m. co_id m = cc_model (en_composition e)) (en_models e) then cc_model (en_composition e)
      else (case en_models e of [] \<Rightarrow> [] | m # ms \<Rightarrow> co_id m))"

definition model_definition :: "composer_env \<Rightarrow> composer_model option" where
  "model_definition e = find (\<lambda>m. co_id m = selected_model e) (en_models e)"

definition model_efforts :: "composer_env \<Rightarrow> string list" where
  "model_efforts e = (case model_definition e of None \<Rightarrow> [] | Some m \<Rightarrow> co_efforts m)"

definition selected_effort :: "composer_env \<Rightarrow> string" where
  "selected_effort e =
     (if cc_effort (en_composition e) \<in> set (model_efforts e) then cc_effort (en_composition e)
      else (case model_efforts e of [] \<Rightarrow> [] | x # xs \<Rightarrow> x))"

definition effort_label :: "string \<Rightarrow> string" where
  "effort_label x =
     (if x = ''low'' then ''Low'' else if x = ''medium'' then ''Medium'' else if x = ''high'' then ''High''
      else if x = ''xhigh'' then ''Extra high'' else x)"

definition effort_items :: "composer_env \<Rightarrow> menu_item list" where
  "effort_items e =
     (if model_efforts e = [] then [plain_item [] ''No reasoning'' []] else map (\<lambda>x. plain_item x (effort_label x) []) (model_efforts e))"

definition no_reasoning :: "composer_env \<Rightarrow> bool" where
  "no_reasoning e \<longleftrightarrow> (case model_definition e of None \<Rightarrow> True | Some m \<Rightarrow> \<not> co_reasoning m) \<or> model_efforts e = []"

definition new_pickers :: "composer_env \<Rightarrow> pickers" where
  "new_pickers e =
     \<lparr>pi_mode = new_picker (descriptor_title e ''zaw.action.composer.mode'') mode_items
        (Some (mode_text (case cc_mode (en_composition e) of None \<Rightarrow> AgentChat | Some m \<Rightarrow> m))) False,
      pi_model = new_picker (descriptor_title e ''zaw.action.composer.model'') (model_items e) (Some (selected_model e))
        (en_models_state e \<noteq> ModelsReady \<or> en_models e = []),
      pi_effort = new_picker (descriptor_title e ''zaw.action.composer.reasoningEffort'') (effort_items e) (Some (selected_effort e))
        (no_reasoning e),
      pi_composition = en_composition e, pi_selected_model = selected_model e,
      pi_commands = (fst (composer_descriptor e ''zaw.action.composer.mode''), fst (composer_descriptor e ''zaw.action.composer.model''),
        fst (composer_descriptor e ''zaw.action.composer.reasoningEffort''))\<rparr>"

text \<open>\<open>refreshPickers\<close>: the pickers are made anew, and the composition is corrected in a microtask.\<close>

definition needs_correction :: "composer_env \<Rightarrow> bool" where
  "needs_correction e \<longleftrightarrow>
     en_models_state e = ModelsReady \<and>
     (cc_model (en_composition e) \<noteq> selected_model e \<or> cc_effort (en_composition e) \<noteq> selected_effort e)"

definition refresh_pickers :: "composer_env \<Rightarrow> composer \<Rightarrow> composer" where
  "refresh_pickers e c =
     c\<lparr>cp_pickers := new_pickers e,
       cp_microtasks := cp_microtasks c @
         (if needs_correction e
          then [QueuedChange (no_changes\<lparr>ch_model := Some (selected_model e), ch_effort := Some (selected_effort e)\<rparr>)] else [])\<rparr>"

definition new_composer :: "(string \<Rightarrow> nat) \<Rightarrow> composer_env \<Rightarrow> composer" where
  "new_composer height e =
     (let send = icon_action \<lparr>ao_aria = descriptor_title e ''zaw.action.composer.submit'', ao_checked = False,
            ao_class = ''agent-primary-send-action'', ao_disabled = False,
            ao_icon = fst (snd (composer_descriptor e ''zaw.action.composer.submit'')), ao_kind = None, ao_label = [],
            ao_title = None, ao_working = False\<rparr>
      in refresh_composer height e (refresh_pickers e
           \<lparr>cp_value = [], cp_selection = (0, 0), cp_focus = Elsewhere, cp_composing = False, cp_placeholder = [],
            cp_editor_disabled = False, cp_working = False, cp_notice = None, cp_pills = [], cp_height = 52, cp_send = send,
            cp_pickers = new_pickers e, cp_dragging = False, cp_dialogs = 0, cp_readings = [], cp_submits = 0, cp_microtasks = []\<rparr>))"

section \<open>Operations\<close>

record 'w composer_host =
  ho_env :: "'w \<Rightarrow> composer_env"
  ho_change :: "composition_changes \<Rightarrow> 'w \<Rightarrow> 'w"
  ho_refreshes :: bool
  ho_height :: "string \<Rightarrow> nat"

definition on_change :: "'w composer_host \<Rightarrow> composition_changes \<Rightarrow> 'w \<times> composer \<Rightarrow> 'w \<times> composer" where
  "on_change host ch s =
     (let w = ho_change host ch (fst s)
      in (w, if ho_refreshes host then refresh_composer (ho_height host) (ho_env host w) (snd s) else snd s))"

text \<open>\<open>input\<close>, \<open>compositionstart\<close>, \<open>compositionend\<close> and \<open>keydown\<close> of the editor.\<close>

definition type_text :: "'w composer_host \<Rightarrow> string \<Rightarrow> nat \<times> nat \<Rightarrow> 'w \<times> composer \<Rightarrow> 'w \<times> composer" where
  "type_text host v selection s =
     (case on_change host (no_changes\<lparr>ch_draft := Some v\<rparr>)
             (fst s, (snd s)\<lparr>cp_value := v, cp_selection := selection, cp_focus := OnEditor\<rparr>) of
        (w, c) \<Rightarrow> (w, refresh_send (ho_env host w) (resize_editor (ho_height host) c)))"

definition editor_key_down :: "string \<Rightarrow> bool \<Rightarrow> bool \<Rightarrow> composer \<Rightarrow> composer" where
  "editor_key_down key shift composing c =
     (if key \<noteq> ''Enter'' \<or> shift \<or> composing \<or> cp_composing c then c
      else if ab_element_disabled (cp_send c) then c
      else c\<lparr>cp_submits := Suc (cp_submits c)\<rparr>)"

datatype composer_action = AttachAction | ModelAction string | ModeAction string | EffortAction string | SubmitAction

definition chat_mode_of :: "string \<Rightarrow> chat_mode option" where
  "chat_mode_of t =
     (if t = ''agent'' then Some AgentChat else if t = ''ask'' then Some AskChat else if t = ''plan'' then Some PlanChat else None)"

definition perform_action :: "'w composer_host \<Rightarrow> composer_action \<Rightarrow> 'w \<times> composer \<Rightarrow> 'w \<times> composer" where
  "perform_action host a s =
     (case a of
        AttachAction \<Rightarrow> apsnd (\<lambda>c. c\<lparr>cp_dialogs := Suc (cp_dialogs c)\<rparr>) s
      | ModelAction m \<Rightarrow>
          apsnd (\<lambda>c. c\<lparr>cp_microtasks := cp_microtasks c @ [QueuedPickers]\<rparr>)
            (on_change host (no_changes\<lparr>ch_model := Some m, ch_effort := Some []\<rparr>) s)
      | ModeAction m \<Rightarrow> on_change host (no_changes\<lparr>ch_mode := Some (chat_mode_of m)\<rparr>) s
      | EffortAction x \<Rightarrow> on_change host (no_changes\<lparr>ch_effort := Some x\<rparr>) s
      | SubmitAction \<Rightarrow> apsnd (\<lambda>c. c\<lparr>cp_submits := Suc (cp_submits c)\<rparr>) s)"

text \<open>
  What the registered commands make of a command and its value (\<open>None\<close> where they refuse it), and what
  the composer does on its own where there is no command service.
\<close>

definition composer_command :: "string \<Rightarrow> string option \<Rightarrow> composer_action option" where
  "composer_command command value =
     (if command = ''zaw.composer.attach'' then Some AttachAction
      else if command = ''zaw.composer.selectMode'' then
        (case value of Some v \<Rightarrow> if chat_mode_of v \<noteq> None then Some (ModeAction v) else None | None \<Rightarrow> None)
      else if command = ''zaw.composer.selectModel'' then map_option ModelAction value
      else if command = ''zaw.composer.selectReasoningEffort'' then map_option EffortAction value
      else if command = ''zaw.composer.submit'' then Some SubmitAction
      else None)"

definition own_action :: "string \<Rightarrow> string option \<Rightarrow> composer_action" where
  "own_action command value =
     (if command = ''zaw.composer.attach'' then AttachAction
      else if command = ''zaw.composer.selectModel'' then ModelAction (case value of None \<Rightarrow> [] | Some v \<Rightarrow> v)
      else if command = ''zaw.composer.selectMode'' then ModeAction (case value of None \<Rightarrow> ''agent'' | Some v \<Rightarrow> v)
      else if command = ''zaw.composer.selectReasoningEffort'' then EffortAction (case value of None \<Rightarrow> [] | Some v \<Rightarrow> v)
      else SubmitAction)"

definition run_action :: "'w composer_host \<Rightarrow> bool \<Rightarrow> string \<Rightarrow> string option \<Rightarrow> 'w \<times> composer \<Rightarrow> 'w \<times> composer" where
  "run_action host service command value s =
     (if service then (case composer_command command value of None \<Rightarrow> s | Some a \<Rightarrow> perform_action host a s)
      else perform_action host (own_action command value) s)"

definition pick_mode :: "'w composer_host \<Rightarrow> bool \<Rightarrow> nat \<Rightarrow> 'w \<times> composer \<Rightarrow> 'w \<times> composer" where
  "pick_mode host service k s =
     (let ps = cp_pickers (snd s)
      in case pick_item k (pi_mode ps) of
           (p, None) \<Rightarrow> s
         | (p, Some i) \<Rightarrow> run_action host service (fst (pi_commands ps)) (Some (mi_value i))
                           (apsnd (\<lambda>c. c\<lparr>cp_pickers := ps\<lparr>pi_mode := p\<rparr>\<rparr>) s))"

definition pick_model :: "'w composer_host \<Rightarrow> bool \<Rightarrow> nat \<Rightarrow> 'w \<times> composer \<Rightarrow> 'w \<times> composer" where
  "pick_model host service k s =
     (let ps = cp_pickers (snd s)
      in case pick_item k (pi_model ps) of
           (p, None) \<Rightarrow> s
         | (p, Some i) \<Rightarrow> run_action host service (fst (snd (pi_commands ps))) (Some (mi_value i))
                           (apsnd (\<lambda>c. c\<lparr>cp_pickers := ps\<lparr>pi_model := p\<rparr>\<rparr>) s))"

definition pick_effort :: "'w composer_host \<Rightarrow> bool \<Rightarrow> nat \<Rightarrow> 'w \<times> composer \<Rightarrow> 'w \<times> composer" where
  "pick_effort host service k s =
     (let ps = cp_pickers (snd s)
      in case pick_item k (pi_effort ps) of
           (p, None) \<Rightarrow> s
         | (p, Some i) \<Rightarrow>
             (let s1 = apsnd (\<lambda>c. c\<lparr>cp_pickers := ps\<lparr>pi_effort := p\<rparr>\<rparr>) s;
                  s2 = (if cc_model (pi_composition ps) = [] \<and> pi_selected_model ps \<noteq> []
                        then on_change host (no_changes\<lparr>ch_model := Some (pi_selected_model ps)\<rparr>) s1 else s1)
              in run_action host service (snd (snd (pi_commands ps))) (Some (mi_value i)) s2))"

definition run_composer_microtask :: "'w composer_host \<Rightarrow> 'w \<times> composer \<Rightarrow> 'w \<times> composer" where
  "run_composer_microtask host s =
     (case cp_microtasks (snd s) of
        [] \<Rightarrow> s
      | QueuedChange ch # ts \<Rightarrow> on_change host ch (apsnd (\<lambda>c. c\<lparr>cp_microtasks := ts\<rparr>) s)
      | QueuedPickers # ts \<Rightarrow> apsnd (\<lambda>c. refresh_pickers (ho_env host (fst s)) (c\<lparr>cp_microtasks := ts\<rparr>)) s)"

text \<open>Clicks on the attach and send buttons; a disabled button cannot be clicked.\<close>

definition click_attach :: "'w composer_host \<Rightarrow> bool \<Rightarrow> 'w \<times> composer \<Rightarrow> 'w \<times> composer" where
  "click_attach host service s =
     run_action host service (fst (composer_descriptor (ho_env host (fst s)) ''zaw.action.composer.attach'')) None s"

definition click_send :: "'w composer_host \<Rightarrow> bool \<Rightarrow> 'w \<times> composer \<Rightarrow> 'w \<times> composer" where
  "click_send host service s =
     (if ab_element_disabled (cp_send (snd s)) then s
      else run_action host service (fst (composer_descriptor (ho_env host (fst s)) ''zaw.action.composer.submit'')) None s)"

section \<open>Attachments\<close>

definition remove_attachment :: "'w composer_host \<Rightarrow> nat \<Rightarrow> 'w \<times> composer \<Rightarrow> 'w \<times> composer" where
  "remove_attachment host k s =
     (let old = cc_attachments (en_composition (ho_env host (fst s)))
      in case on_change host (no_changes\<lparr>ch_attachments := Some (take k old @ drop (Suc k) old)\<rparr>) s of
           (w, c) \<Rightarrow>
             (let c1 = render_attachments (ho_env host w) c; n = length (cp_pills c1);
                  c2 = c1\<lparr>cp_focus := (if n = 0 then OnEditor else OnPill (min k (n - 1)))\<rparr>
              in (w, refresh_send (ho_env host w) c2)))"

definition navigate_attachments :: "string \<Rightarrow> composer \<Rightarrow> composer" where
  "navigate_attachments key c =
     (if key \<noteq> ''ArrowLeft'' \<and> key \<noteq> ''ArrowRight'' then c
      else (case cp_focus c of
              OnPill k \<Rightarrow>
                (let n = length (cp_pills c)
                 in if n < 2 then c
                    else c\<lparr>cp_focus := OnPill ((if key = ''ArrowLeft'' then k + n - 1 else k + 1) mod n)\<rparr>)
            | _ \<Rightarrow> c))"

definition read_base64 :: "string option \<Rightarrow> string option" where
  "read_base64 url =
     (case url of
        None \<Rightarrow> None
      | Some t \<Rightarrow> (case find_index (\<lambda>x. x = CHR '','') t of None \<Rightarrow> None | Some k \<Rightarrow> Some (drop (Suc k) t)))"

definition read_attachment :: "picked_file \<Rightarrow> json option" where
  "read_attachment f =
     map_option (\<lambda>data. JObj
       [(''contentType'', JStr (if pf_type f = [] then ''text/plain'' else pf_type f)), (''data'', JStr data),
        (''displayKind'', JStr (if take 6 (pf_type f) = ''image/'' then ''image'' else ''document'')),
        (''label'', JStr (pf_name f)), (''type'', JStr ''embeddedResource'')])
       (read_base64 (pf_data_url f))"

text \<open>\<open>attachFiles\<close> up to its \<open>await\<close>, and its rest when all files have been read or one has failed.\<close>

definition attach_files :: "composer_env \<Rightarrow> picked_file list \<Rightarrow> composer \<Rightarrow> composer" where
  "attach_files e files c = (if files = [] \<or> en_disabled e then c else c\<lparr>cp_readings := cp_readings c @ [files]\<rparr>)"

definition files_read :: "'w composer_host \<Rightarrow> nat \<Rightarrow> 'w \<times> composer \<Rightarrow> 'w \<times> composer" where
  "files_read host n s =
     (case at_index (cp_readings (snd s)) n of
        None \<Rightarrow> s
      | Some files \<Rightarrow>
          (let s1 = apsnd (\<lambda>c. c\<lparr>cp_readings := take n (cp_readings c) @ drop (Suc n) (cp_readings c)\<rparr>) s
           in case those (map read_attachment files) of
                None \<Rightarrow> s1
              | Some new \<Rightarrow>
                  (case on_change host (no_changes\<lparr>ch_attachments := Some (cc_attachments (en_composition (ho_env host (fst s1))) @ new)\<rparr>) s1 of
                     (w, c) \<Rightarrow> (w, refresh_send (ho_env host w) (render_attachments (ho_env host w) c)))))"

definition drag_over :: "bool \<Rightarrow> composer \<Rightarrow> composer" where
  "drag_over has_files c = (if has_files then c\<lparr>cp_dragging := True\<rparr> else c)"

definition drag_leave :: "bool \<Rightarrow> composer \<Rightarrow> composer" where
  "drag_leave inside c = (if inside then c else c\<lparr>cp_dragging := False\<rparr>)"

definition drop_files :: "composer_env \<Rightarrow> picked_file list \<Rightarrow> composer \<Rightarrow> composer" where
  "drop_files e files c = attach_files e files (c\<lparr>cp_dragging := False\<rparr>)"

datatype 'w composer_op =
    CoType string "nat \<times> nat"
  | CoComposing bool
  | CoKey string bool bool
  | CoMode nat
  | CoModel nat
  | CoEffort nat
  | CoMicrotask
  | CoAttach
  | CoSend
  | CoFiles "picked_file list"
  | CoDrop "picked_file list"
  | CoDrag bool
  | CoDragLeave bool
  | CoRead nat
  | CoRemove nat
  | CoNavigate string
  | CoPickers
  | CoOwner 'w

text \<open>In a step of the owner its state changes and it refreshes the composer.\<close>

fun apply_composer :: "'w composer_host \<Rightarrow> bool \<Rightarrow> 'w composer_op \<Rightarrow> 'w \<times> composer \<Rightarrow> 'w \<times> composer" where
  "apply_composer host service (CoType v selection) s = type_text host v selection s"
| "apply_composer host service (CoComposing b) s = apsnd (\<lambda>c. c\<lparr>cp_composing := b\<rparr>) s"
| "apply_composer host service (CoKey key shift composing) s = apsnd (editor_key_down key shift composing) s"
| "apply_composer host service (CoMode k) s = pick_mode host service k s"
| "apply_composer host service (CoModel k) s = pick_model host service k s"
| "apply_composer host service (CoEffort k) s = pick_effort host service k s"
| "apply_composer host service CoMicrotask s = run_composer_microtask host s"
| "apply_composer host service CoAttach s = click_attach host service s"
| "apply_composer host service CoSend s = click_send host service s"
| "apply_composer host service (CoFiles files) s = apsnd (attach_files (ho_env host (fst s)) files) s"
| "apply_composer host service (CoDrop files) s = apsnd (drop_files (ho_env host (fst s)) files) s"
| "apply_composer host service (CoDrag b) s = apsnd (drag_over b) s"
| "apply_composer host service (CoDragLeave b) s = apsnd (drag_leave b) s"
| "apply_composer host service (CoRead n) s = files_read host n s"
| "apply_composer host service (CoRemove k) s = remove_attachment host k s"
| "apply_composer host service (CoNavigate key) s = apsnd (navigate_attachments key) s"
| "apply_composer host service CoPickers s = apsnd (refresh_pickers (ho_env host (fst s))) s"
| "apply_composer host service (CoOwner w) s = (w, refresh_composer (ho_height host) (ho_env host w) (snd s))"

section \<open>The composer shows the composition\<close>

fun focus_in :: "nat \<Rightarrow> composer_focus \<Rightarrow> bool" where
  "focus_in n (OnPill k) = (k < n)"
| "focus_in n f = True"

definition shows_input :: "composer_env \<Rightarrow> composer \<Rightarrow> bool" where
  "shows_input e c \<longleftrightarrow>
     cp_value c = cc_draft (en_composition e) \<and> cp_pills c = map attachment_pill (cc_attachments (en_composition e)) \<and>
     focus_in (length (cc_attachments (en_composition e))) (cp_focus c)"

definition composer_shows :: "composer_env \<Rightarrow> composer \<Rightarrow> bool" where
  "composer_shows e c \<longleftrightarrow>
     shows_input e c \<and>
     ab_element_disabled (cp_send c) = (send_disabled e (cc_draft (en_composition e)) \<or> (en_working e \<and> \<not> en_cancels e))"

definition corrections_only :: "composer \<Rightarrow> bool" where
  "corrections_only c \<longleftrightarrow>
     list_all (\<lambda>t. case t of QueuedChange ch \<Rightarrow> ch_draft ch = None \<and> ch_attachments ch = None | QueuedPickers \<Rightarrow> True) (cp_microtasks c)"

lemma refresh_send_frame [simp]:
  "cp_value (refresh_send e c) = cp_value c" "cp_pills (refresh_send e c) = cp_pills c" "cp_focus (refresh_send e c) = cp_focus c"
  "cp_microtasks (refresh_send e c) = cp_microtasks c" "cp_submits (refresh_send e c) = cp_submits c"
  "ab_element_disabled (cp_send (refresh_send e c)) = (send_disabled e (cp_value c) \<or> (en_working e \<and> \<not> en_cancels e))"
  by (simp_all add: refresh_send_def set_disabled_def set_icon_def set_working_def Let_def split: option.split)

lemma resize_frame [simp]:
  "cp_value (resize_editor h c) = cp_value c" "cp_pills (resize_editor h c) = cp_pills c" "cp_focus (resize_editor h c) = cp_focus c"
  "cp_microtasks (resize_editor h c) = cp_microtasks c" "cp_send (resize_editor h c) = cp_send c"
  "cp_submits (resize_editor h c) = cp_submits c"
  by (simp_all add: resize_editor_def)

lemma render_frame [simp]:
  "cp_value (render_attachments e c) = cp_value c" "cp_pills (render_attachments e c) = map attachment_pill (cc_attachments (en_composition e))"
  "cp_microtasks (render_attachments e c) = cp_microtasks c" "cp_send (render_attachments e c) = cp_send c"
  "cp_submits (render_attachments e c) = cp_submits c"
  "cp_focus (render_attachments e c) = (case cp_focus c of OnPill k \<Rightarrow> Elsewhere | f \<Rightarrow> f)"
  by (simp_all add: render_attachments_def)

lemma refresh_frame [simp]:
  "cp_microtasks (refresh_composer h e c) = cp_microtasks c" "cp_submits (refresh_composer h e c) = cp_submits c"
  by (simp_all add: refresh_composer_def Let_def)

lemma refresh_shows: "composer_shows e (refresh_composer h e c)"
  by (simp add: composer_shows_def shows_input_def refresh_composer_def Let_def split: composer_focus.split)

lemma send_shows: "shows_input e c \<Longrightarrow> composer_shows e (refresh_send e c)"
  by (simp add: composer_shows_def shows_input_def)

lemma shows_fields:
  assumes "cp_value c' = cp_value c" and "cp_pills c' = cp_pills c" and "cp_send c' = cp_send c" and "cp_focus c' = cp_focus c"
  shows "composer_shows e c' = composer_shows e c"
  using assms by (simp add: composer_shows_def shows_input_def)

lemma spread_untouched: "ch_draft ch = None \<Longrightarrow> ch_attachments ch = None \<Longrightarrow>
    cc_draft (spread k ch) = cc_draft k \<and> cc_attachments (spread k ch) = cc_attachments k"
  by (simp add: spread_def or_else_def)

definition composer_inv :: "'w composer_host \<Rightarrow> 'w \<times> composer \<Rightarrow> bool" where
  "composer_inv host s \<longleftrightarrow> composer_shows (ho_env host (fst s)) (snd s) \<and> corrections_only (snd s)"

lemma inv_keep:
  assumes "composer_inv host (w, c)" and "cp_value c' = cp_value c" and "cp_pills c' = cp_pills c" and "cp_send c' = cp_send c"
    and "cp_focus c' = cp_focus c" and "corrections_only c'"
  shows "composer_inv host (w, c')"
  using assms(1,6) shows_fields [OF assms(2-5)] by (simp add: composer_inv_def)

lemma inv_apsnd:
  assumes "composer_inv host s" and "cp_value (f (snd s)) = cp_value (snd s)" and "cp_pills (f (snd s)) = cp_pills (snd s)"
    and "cp_send (f (snd s)) = cp_send (snd s)" and "cp_focus (f (snd s)) = cp_focus (snd s)"
    and "cp_microtasks (f (snd s)) = cp_microtasks (snd s)"
  shows "composer_inv host (apsnd f s)"
  using inv_keep [of host "fst s" "snd s" "f (snd s)"] assms by (cases s) (simp add: composer_inv_def corrections_only_def)

lemma inv_render: "corrections_only c \<Longrightarrow> cp_value c = cc_draft (en_composition (ho_env host w)) \<Longrightarrow>
    focus_in (length (cc_attachments (en_composition (ho_env host w)))) (g (cp_focus (render_attachments (ho_env host w) c))) \<Longrightarrow>
    composer_inv host (w, refresh_send (ho_env host w) ((render_attachments (ho_env host w) c)\<lparr>cp_focus := g (cp_focus (render_attachments (ho_env host w) c))\<rparr>))"
  unfolding composer_inv_def fst_conv snd_conv
  by (intro conjI send_shows) (simp_all add: shows_input_def corrections_only_def)

lemma inv_rendered: "corrections_only c \<Longrightarrow> cp_value c = cc_draft (en_composition (ho_env host w)) \<Longrightarrow>
    composer_inv host (w, refresh_send (ho_env host w) (render_attachments (ho_env host w) c))"
  unfolding composer_inv_def fst_conv snd_conv
  by (intro conjI send_shows) (simp_all add: shows_input_def corrections_only_def split: composer_focus.split)

lemma mod_length: "\<not> length xs < 2 \<Longrightarrow> j mod length xs < length xs"
  by (rule mod_less_divisor) linarith

text \<open>A step of the composer does to its owner's state nothing but changes of the composition.\<close>

lemma change_keeps: "(\<And>ch w. P w \<Longrightarrow> P (ho_change host ch w)) \<Longrightarrow> P (fst s) \<Longrightarrow> P (fst (on_change host ch s))"
  by (simp add: on_change_def Let_def)

lemma run_keeps:
  assumes "\<And>ch w. P w \<Longrightarrow> P (ho_change host ch w)" and "P (fst s)"
  shows "P (fst (run_action host service command value s))"
proof -
  have "P (fst (perform_action host a s))" for a
    by (cases a) (auto simp: perform_action_def assms intro!: change_keeps [where P = P])
  then show ?thesis using assms(2) by (simp add: run_action_def split: option.split)
qed

lemma step_keeps:
  assumes change: "\<And>ch w. P w \<Longrightarrow> P (ho_change host ch w)" and s: "P (fst s)" and "\<And>w. e \<noteq> CoOwner w"
  shows "P (fst (apply_composer host service e s))"
proof -
  have k: "P (fst (on_change host ch t))" if "P (fst t)" for ch t
    by (rule change_keeps [where P = P]) (use change that in blast)+
  have run: "P (fst (run_action host service command v t))" if "P (fst t)" for command v t
    by (rule run_keeps [where P = P]) (use change that in blast)+
  note keep = k run
  have c: "P (fst (case on_change host ch t of (w, c) \<Rightarrow> (w, f w c)))" if "P (fst t)" for ch t and f :: "'a \<Rightarrow> composer \<Rightarrow> composer"
    using k [OF that, of ch] by (cases "on_change host ch t") simp
  have t: "P (fst (type_text host v selection s))" for v selection unfolding type_text_def by (rule c) (simp add: s)
  have p: "P (fst (pick_mode host service k s))" "P (fst (pick_model host service k s))" "P (fst (pick_effort host service k s))" for k
    using s by (auto simp: pick_mode_def pick_model_def pick_effort_def Let_def intro!: keep split: prod.split option.split)
  have r: "P (fst (files_read host n s))" for n
    using s by (auto simp: files_read_def Let_def intro!: c split: option.split)
  have m: "P (fst (remove_attachment host k s))" for k
    unfolding remove_attachment_def Let_def by (rule c [OF s])
  have q: "P (fst (run_composer_microtask host s))"
    using s by (auto simp: run_composer_microtask_def intro!: keep split: list.split composer_microtask.split)
  show ?thesis
  proof (cases e)
    case (CoOwner w)
    with assms(3) show ?thesis by blast
  qed (use s in \<open>simp_all add: t p r m q keep click_attach_def click_send_def\<close>)
qed

text \<open>
  The owner of a composition: a change spreads over the composition and touches nothing else of what
  the owner offers.
\<close>

locale composer_owner =
  fixes host :: "'w composer_host"
  assumes env_change: "ho_env host (ho_change host ch w) = (ho_env host w)\<lparr>en_composition := spread (en_composition (ho_env host w)) ch\<rparr>"
begin

lemma change_frame [simp]:
  "fst (on_change host ch s) = ho_change host ch (fst s)" "cp_microtasks (snd (on_change host ch s)) = cp_microtasks (snd s)"
  "cp_submits (snd (on_change host ch s)) = cp_submits (snd s)"
  by (simp_all add: on_change_def Let_def)

lemma change_other:
  assumes "composer_inv host s" and "ch_draft ch = None" and "ch_attachments ch = None"
  shows "composer_inv host (on_change host ch s)"
proof -
  have c: "corrections_only (snd (on_change host ch s))" using assms(1) by (simp add: composer_inv_def corrections_only_def)
  show ?thesis
  proof (cases "ho_refreshes host")
    case True
    then show ?thesis using c by (simp add: composer_inv_def on_change_def Let_def refresh_shows)
  next
    case False
    then have n: "snd (on_change host ch s) = snd s" by (simp add: on_change_def Let_def)
    show ?thesis using assms c spread_untouched [OF assms(2,3)]
      by (simp add: composer_inv_def n composer_shows_def shows_input_def env_change send_disabled_def)
  qed
qed

lemma type_inv: "composer_inv host s \<Longrightarrow> composer_inv host (type_text host v selection s)"
proof -
  assume s: "composer_inv host s"
  define c where "c = (snd s)\<lparr>cp_value := v, cp_selection := selection, cp_focus := OnEditor\<rparr>"
  define w where "w = ho_change host (no_changes\<lparr>ch_draft := Some v\<rparr>) (fst s)"
  define c1 where "c1 = (if ho_refreshes host then refresh_composer (ho_height host) (ho_env host w) c else c)"
  have t: "type_text host v selection s = (w, refresh_send (ho_env host w) (resize_editor (ho_height host) c1))"
    by (simp add: type_text_def on_change_def Let_def c_def w_def c1_def)
  have e: "cc_draft (en_composition (ho_env host w)) = v"
    "cc_attachments (en_composition (ho_env host w)) = cc_attachments (en_composition (ho_env host (fst s)))"
    by (simp_all add: w_def env_change spread_def or_else_def no_changes_def)
  have "shows_input (ho_env host w) c1"
  proof (cases "ho_refreshes host")
    case True
    then show ?thesis using refresh_shows [of "ho_env host w" "ho_height host" c] by (simp add: c1_def composer_shows_def)
  next
    case False
    then show ?thesis using s e by (simp add: c1_def c_def composer_inv_def composer_shows_def shows_input_def)
  qed
  then have "shows_input (ho_env host w) (resize_editor (ho_height host) c1)" by (simp add: shows_input_def)
  moreover have "cp_microtasks c1 = cp_microtasks (snd s)" by (simp add: c1_def c_def)
  ultimately show ?thesis using s by (simp add: t composer_inv_def send_shows corrections_only_def)
qed

lemma perform_inv: "composer_inv host s \<Longrightarrow> composer_inv host (perform_action host a s)"
proof (cases a)
  case (ModelAction m)
  assume "composer_inv host s"
  then have "composer_inv host (on_change host (no_changes\<lparr>ch_model := Some m, ch_effort := Some []\<rparr>) s)"
    by (rule change_other) (simp_all add: no_changes_def)
  moreover obtain w c where t: "on_change host (no_changes\<lparr>ch_model := Some m, ch_effort := Some []\<rparr>) s = (w, c)" by fastforce
  ultimately have i: "composer_inv host (w, c)" by simp
  then have "corrections_only (c\<lparr>cp_microtasks := cp_microtasks c @ [QueuedPickers]\<rparr>)" by (simp add: composer_inv_def corrections_only_def)
  then have "composer_inv host (w, c\<lparr>cp_microtasks := cp_microtasks c @ [QueuedPickers]\<rparr>)" by (intro inv_keep [OF i]) simp_all
  then show ?thesis by (simp add: ModelAction perform_action_def t)
next
  case AttachAction
  assume "composer_inv host s"
  then show ?thesis unfolding AttachAction perform_action_def composer_action.case by (rule inv_apsnd) simp_all
next
  case SubmitAction
  assume "composer_inv host s"
  then show ?thesis unfolding SubmitAction perform_action_def composer_action.case by (rule inv_apsnd) simp_all
next
  case (ModeAction m)
  assume "composer_inv host s"
  then show ?thesis unfolding ModeAction perform_action_def composer_action.case by (rule change_other) (simp_all add: no_changes_def)
next
  case (EffortAction x)
  assume "composer_inv host s"
  then show ?thesis unfolding EffortAction perform_action_def composer_action.case by (rule change_other) (simp_all add: no_changes_def)
qed

lemma run_inv: "composer_inv host s \<Longrightarrow> composer_inv host (run_action host service command value s)"
  by (simp add: run_action_def perform_inv split: option.split)

lemma pickers_inv: "composer_inv host s \<Longrightarrow> composer_inv host (apsnd (\<lambda>c. c\<lparr>cp_pickers := f c\<rparr>) s)"
  by (rule inv_apsnd) simp_all

lemma pick_inv: "composer_inv host s \<Longrightarrow> composer_inv host (pick_mode host service k s)"
  "composer_inv host s \<Longrightarrow> composer_inv host (pick_model host service k s)"
  "composer_inv host s \<Longrightarrow> composer_inv host (pick_effort host service k s)"
  by (auto simp: pick_mode_def pick_model_def pick_effort_def Let_def no_changes_def
      intro!: run_inv pickers_inv change_other split: prod.split option.split)

lemma microtask_inv: "composer_inv host s \<Longrightarrow> composer_inv host (run_composer_microtask host s)"
proof (cases "cp_microtasks (snd s)")
  case (Cons t ts)
  assume s: "composer_inv host s"
  obtain w c where wc: "s = (w, c)" by fastforce
  have c: "corrections_only (c\<lparr>cp_microtasks := ts\<rparr>)" using s Cons by (simp add: wc composer_inv_def corrections_only_def)
  have i: "composer_inv host (w, c\<lparr>cp_microtasks := ts\<rparr>)" by (rule inv_keep [OF s [unfolded wc] _ _ _ _ c]) simp_all
  show ?thesis
  proof (cases t)
    case (QueuedChange ch)
    have "ch_draft ch = None \<and> ch_attachments ch = None" using s Cons by (simp add: wc composer_inv_def corrections_only_def QueuedChange)
    with i show ?thesis using Cons by (simp add: run_composer_microtask_def wc QueuedChange change_other)
  next
    case QueuedPickers
    have "corrections_only (refresh_pickers (ho_env host w) (c\<lparr>cp_microtasks := ts\<rparr>))"
      using c by (simp add: refresh_pickers_def corrections_only_def no_changes_def)
    then have "composer_inv host (w, refresh_pickers (ho_env host w) (c\<lparr>cp_microtasks := ts\<rparr>))"
      by (intro inv_keep [OF i]) (simp_all add: refresh_pickers_def)
    then show ?thesis using Cons by (simp add: run_composer_microtask_def wc QueuedPickers)
  qed
qed (simp add: run_composer_microtask_def)

lemma change_draft:
  assumes "composer_inv host s" and "ch_draft ch = None"
  shows "cp_value (snd (on_change host ch s)) = cc_draft (en_composition (ho_env host (ho_change host ch (fst s))))"
    and "corrections_only (snd (on_change host ch s))"
proof -
  have "cc_draft (en_composition (ho_env host (ho_change host ch (fst s)))) = cc_draft (en_composition (ho_env host (fst s)))"
    using assms(2) by (simp add: env_change spread_def or_else_def)
  then show "cp_value (snd (on_change host ch s)) = cc_draft (en_composition (ho_env host (ho_change host ch (fst s))))"
    using assms(1) refresh_shows [of "ho_env host (ho_change host ch (fst s))" "ho_height host" "snd s"]
    by (simp add: on_change_def Let_def composer_inv_def composer_shows_def shows_input_def)
  show "corrections_only (snd (on_change host ch s))" using assms(1) by (simp add: composer_inv_def corrections_only_def)
qed

lemma remove_inv: "composer_inv host s \<Longrightarrow> composer_inv host (remove_attachment host k s)"
proof -
  assume s: "composer_inv host s"
  define ch where "ch = (let old = cc_attachments (en_composition (ho_env host (fst s)))
    in no_changes\<lparr>ch_attachments := Some (take k old @ drop (Suc k) old)\<rparr>)"
  obtain w c where wc: "on_change host ch s = (w, c)" by fastforce
  have w: "w = ho_change host ch (fst s)" using change_frame(1) [of ch s] by (simp add: wc)
  have d: "ch_draft ch = None" by (simp add: ch_def Let_def no_changes_def)
  note c = change_draft [OF s d, unfolded wc, folded w]
  define n where "n = length (cc_attachments (en_composition (ho_env host w)))"
  have "composer_inv host (w, refresh_send (ho_env host w) ((render_attachments (ho_env host w) c)
      \<lparr>cp_focus := (\<lambda>f. if n = 0 then OnEditor else OnPill (min k (n - 1))) (cp_focus (render_attachments (ho_env host w) c))\<rparr>))"
    using c by (intro inv_render) (auto simp: n_def [symmetric] min_less_iff_disj)
  then show ?thesis using wc by (cases "n = 0") (simp_all add: remove_attachment_def ch_def Let_def n_def)
qed

lemma read_inv: "composer_inv host s \<Longrightarrow> composer_inv host (files_read host n s)"
proof (cases "at_index (cp_readings (snd s)) n")
  case (Some files)
  assume s: "composer_inv host s"
  define s1 where "s1 = apsnd (\<lambda>c. c\<lparr>cp_readings := take n (cp_readings c) @ drop (Suc n) (cp_readings c)\<rparr>) s"
  have s1: "composer_inv host s1" unfolding s1_def by (rule inv_apsnd [OF s]) simp_all
  show ?thesis
  proof (cases "those (map read_attachment files)")
    case None
    then show ?thesis using s1 by (simp add: files_read_def Some s1_def)
  next
    case (Some new)
    define ch where "ch = no_changes\<lparr>ch_attachments := Some (cc_attachments (en_composition (ho_env host (fst s1))) @ new)\<rparr>"
    obtain w c where wc: "on_change host ch s1 = (w, c)" by fastforce
    have w: "w = ho_change host ch (fst s1)" using change_frame(1) [of ch s1] by (simp add: wc)
    have d: "ch_draft ch = None" by (simp add: ch_def no_changes_def)
    note c = change_draft [OF s1 d, unfolded wc, folded w]
    have "composer_inv host (w, refresh_send (ho_env host w) (render_attachments (ho_env host w) c))"
      using c by (intro inv_rendered) auto
    then show ?thesis using wc Some \<open>at_index (cp_readings (snd s)) n = Some files\<close>
      by (simp add: files_read_def s1_def [symmetric] ch_def)
  qed
qed (simp add: files_read_def)

lemma step_inv: "composer_inv host s \<Longrightarrow> composer_inv host (apply_composer host service e s)"
proof (cases e)
  case (CoNavigate key)
  assume s: "composer_inv host s"
  obtain w c where wc: "s = (w, c)" by fastforce
  have "composer_inv host (w, navigate_attachments key c)"
    using s by (auto simp: wc navigate_attachments_def composer_inv_def composer_shows_def shows_input_def corrections_only_def Let_def mod_length
        split: composer_focus.split)
  then show ?thesis by (simp add: CoNavigate wc)
next
  case (CoOwner w)
  assume "composer_inv host s"
  then show ?thesis by (simp add: CoOwner composer_inv_def refresh_shows corrections_only_def)
next
  case CoPickers
  assume s: "composer_inv host s"
  obtain w c where wc: "s = (w, c)" by fastforce
  have "corrections_only (refresh_pickers (ho_env host w) c)"
    using s by (simp add: wc composer_inv_def refresh_pickers_def corrections_only_def no_changes_def)
  then have "composer_inv host (w, refresh_pickers (ho_env host w) c)"
    by (intro inv_keep [OF s [unfolded wc]]) (simp_all add: refresh_pickers_def)
  then show ?thesis by (simp add: CoPickers wc)
qed (auto simp: type_inv pick_inv microtask_inv read_inv remove_inv run_inv click_attach_def click_send_def
    editor_key_down_def attach_files_def drop_files_def drag_over_def drag_leave_def intro!: inv_apsnd)

lemma new_inv: "composer_inv host (w, new_composer (ho_height host) (ho_env host w))"
  by (simp add: new_composer_def Let_def composer_inv_def refresh_shows) (simp add: corrections_only_def refresh_pickers_def no_changes_def)

lemma history_inv:
  "composer_inv host (fold (apply_composer host service) es (w, new_composer (ho_height host) (ho_env host w)))"
  by (rule fold_keeps [where P = "composer_inv host"]) (simp_all add: step_inv new_inv)

lemma enter_submits:
  assumes "composer_inv host s"
  shows "cp_submits (editor_key_down ''Enter'' False False (snd s)) =
    (if cp_composing (snd s) \<or> send_disabled (ho_env host (fst s)) (cc_draft (en_composition (ho_env host (fst s)))) \<or>
        (en_working (ho_env host (fst s)) \<and> \<not> en_cancels (ho_env host (fst s)))
     then cp_submits (snd s) else Suc (cp_submits (snd s)))"
  using assms by (simp add: composer_inv_def composer_shows_def editor_key_down_def)

end

section \<open>Pickers settle\<close>

text \<open>
  The correction of the composition that making the pickers queues is the last one: after it the
  composition has the model and the effort the pickers show, the model is an offered one (or none
  is), the effort one of the model's (or it has none), and making the pickers again corrects nothing.
\<close>

theorem picker_corrections_settle:
  "let e' = e\<lparr>en_composition := spread (en_composition e)
              (no_changes\<lparr>ch_model := Some (selected_model e), ch_effort := Some (selected_effort e)\<rparr>)\<rparr>
   in \<not> needs_correction e' \<and> pk_value (pi_model (new_pickers e')) = Some (cc_model (en_composition e')) \<and>
      pk_value (pi_effort (new_pickers e')) = Some (cc_effort (en_composition e')) \<and>
      (en_models e = [] \<or> cc_model (en_composition e') \<in> co_id ` set (en_models e)) \<and>
      (model_efforts e' = [] \<or> cc_effort (en_composition e') \<in> set (model_efforts e'))"
proof -
  define e' where "e' = e\<lparr>en_composition := spread (en_composition e)
              (no_changes\<lparr>ch_model := Some (selected_model e), ch_effort := Some (selected_effort e)\<rparr>)\<rparr>"
  have c: "cc_model (en_composition e') = selected_model e" "cc_effort (en_composition e') = selected_effort e" "en_models e' = en_models e"
    by (simp_all add: e'_def spread_def or_else_def no_changes_def)
  have offered: "en_models e = [] \<or> selected_model e \<in> co_id ` set (en_models e)"
  proof (cases "list_ex (\<lambda>m. co_id m = cc_model (en_composition e)) (en_models e)")
    case True
    then show ?thesis by (simp add: selected_model_def list_ex_iff) (metis image_eqI)
  next
    case False
    then show ?thesis by (cases "en_models e") (simp_all add: selected_model_def)
  qed
  then have m: "selected_model e' = selected_model e"
    by (auto simp: selected_model_def [of e'] c list_ex_iff) (simp add: selected_model_def)
  then have d: "model_efforts e' = model_efforts e" by (simp add: model_efforts_def model_definition_def c)
  have x: "selected_effort e = [] \<and> model_efforts e = [] \<or> selected_effort e \<in> set (model_efforts e)"
    by (auto simp: selected_effort_def split: list.split)
  then have "selected_effort e' = selected_effort e" by (auto simp: selected_effort_def [of e'] c d)
  then show ?thesis unfolding e'_def [symmetric] Let_def
    using offered x m d c by (auto simp: needs_correction_def new_pickers_def new_picker_def update_selection_def)
qed

text \<open>
  The registered commands of the composer do what the composer does without a command service, for
  every value its pickers can give.
\<close>

theorem composer_commands_agree:
  "composer_command ''zaw.composer.attach'' v = Some (own_action ''zaw.composer.attach'' v) \<and>
   composer_command ''zaw.composer.submit'' v = Some (own_action ''zaw.composer.submit'' v) \<and>
   composer_command ''zaw.composer.selectModel'' (Some m) = Some (own_action ''zaw.composer.selectModel'' (Some m)) \<and>
   composer_command ''zaw.composer.selectReasoningEffort'' (Some x) = Some (own_action ''zaw.composer.selectReasoningEffort'' (Some x)) \<and>
   map (\<lambda>i. composer_command ''zaw.composer.selectMode'' (Some (mi_value i))) mode_items =
     map (\<lambda>i. Some (own_action ''zaw.composer.selectMode'' (Some (mi_value i)))) mode_items"
  by (simp add: composer_command_def own_action_def mode_items_def plain_item_def chat_mode_of_def)

text \<open>
  When files are attached together and one of them cannot be read, none is attached: the composition
  stays as it is.
\<close>

theorem unreadable_file_loses_all:
  assumes "at_index (cp_readings (snd s)) n = Some files" and "f \<in> set files" and "pf_data_url f = None"
  shows "fst (files_read host n s) = fst s"
proof -
  have "read_attachment f = None" using assms(3) by (simp add: read_attachment_def read_base64_def)
  then have "None \<in> set (map read_attachment files)" using assms(2) by (force simp: image_iff)
  from those_None [THEN iffD2, OF this] show ?thesis using assms(1) by (simp add: files_read_def)
qed

theorem unreadable_file_loses_all_witness:
  "fst (files_read host 0 (w, c\<lparr>cp_readings := [[\<lparr>pf_name = ''a'', pf_type = ''text/plain'', pf_data_url = Some ''data:,YQ==''\<rparr>,
      \<lparr>pf_name = ''b'', pf_type = [], pf_data_url = None\<rparr>]]\<rparr>)) = w"
proof -
  let ?f = "\<lparr>pf_name = ''b'', pf_type = [], pf_data_url = None\<rparr>"
  let ?files = "[\<lparr>pf_name = ''a'', pf_type = ''text/plain'', pf_data_url = Some ''data:,YQ==''\<rparr>, ?f]"
  have "at_index (cp_readings (snd (w, c\<lparr>cp_readings := [?files]\<rparr>))) 0 = Some ?files" by (simp add: at_index_def)
  from unreadable_file_loses_all [OF this, of ?f host] show ?thesis by simp
qed

end
