(* ===== verification/Drafts.thy ===== *)
theory Drafts
  imports Composer Sessions LocalState
begin

text \<open>
  \<open>packages/workbench/src/contrib/sessions/new-session-view.ts\<close>, the class \<open>NewSessionInputModel\<close>: the
  drafts of sessions that do not exist yet, kept per workspace and in the browser's storage.

  A draft is the JavaScript object it is, as what was stored is taken over unchecked; what the views
  read of it is \<open>composition_of\<close>, faithful for the drafts this code writes
  (\<open>drafts_are_compositions\<close>).
\<close>

section \<open>Drafts\<close>

type_synonym draft = "(string \<times> json) list"

record input_model =
  im_states :: "(string, draft) omap"
  im_storage :: "browser_storage option"

definition empty_draft :: draft where
  "empty_draft =
     [(''agent'', JStr []), (''approvalMode'', JStr ''ask''), (''attachments'', JArr []), (''draft'', JStr []),
      (''model'', JStr []), (''reasoningEffort'', JStr [])]"

definition spread_over :: "draft \<Rightarrow> draft \<Rightarrow> draft" where
  "spread_over base fs = fold (\<lambda>(k, v). om_set k v) fs base"

definition draft_key :: "string option \<Rightarrow> string" where
  "draft_key ws = (case ws of None \<Rightarrow> ''global'' | Some k \<Rightarrow> if k = [] then ''global'' else k)"

definition untitled_key :: "string \<Rightarrow> string" where
  "untitled_key k = ''zaw.untitled-session.'' @ k"

definition load_draft :: "string \<Rightarrow> browser_storage option \<Rightarrow> draft" where
  "load_draft k st =
     (case stored_item (untitled_key k) st of
        None \<Rightarrow> empty_draft
      | Some t \<Rightarrow>
          if t = [] then empty_draft
          else (case json_parse t of None \<Rightarrow> empty_draft | Some v \<Rightarrow> spread_over empty_draft (spread_fields v)))"

definition draft_text :: "draft \<Rightarrow> string" where
  "draft_text d = json_text (JObj d)"

definition get_draft :: "string option \<Rightarrow> input_model \<Rightarrow> input_model \<times> draft" where
  "get_draft ws m =
     (let k = draft_key ws
      in case om_get (im_states m) k of
           Some d \<Rightarrow> (m, d)
         | None \<Rightarrow> let d = load_draft k (im_storage m) in (m\<lparr>im_states := om_set k d (im_states m)\<rparr>, d))"

abbreviation draft_of :: "string option \<Rightarrow> input_model \<Rightarrow> draft" where
  "draft_of ws m \<equiv> snd (get_draft ws m)"

definition update_draft :: "string option \<Rightarrow> draft \<Rightarrow> input_model \<Rightarrow> input_model" where
  "update_draft ws changes m =
     (let k = draft_key ws; r = get_draft ws m; d = spread_over (snd r) changes
      in (fst r)\<lparr>im_states := om_set k d (im_states (fst r)),
           im_storage := store_item (untitled_key k) (draft_text d) (im_storage (fst r))\<rparr>)"

definition clear_draft :: "string option \<Rightarrow> input_model \<Rightarrow> input_model" where
  "clear_draft ws m =
     (let k = draft_key ws
      in m\<lparr>im_states := om_del k (im_states m),
           im_storage := map_option (\<lambda>b. b\<lparr>bs_items := om_del (untitled_key k) (bs_items b)\<rparr>) (im_storage m)\<rparr>)"

definition new_input_model :: "browser_storage option \<Rightarrow> input_model" where
  "new_input_model st = \<lparr>im_states = [], im_storage = st\<rparr>"

text \<open>The changes of a composition as properties of an object.\<close>

definition opt_field :: "string \<Rightarrow> ('a \<Rightarrow> json) \<Rightarrow> 'a option \<Rightarrow> draft" where
  "opt_field k f x = (case x of None \<Rightarrow> [] | Some v \<Rightarrow> [(k, f v)])"

definition mode_json :: "chat_mode option \<Rightarrow> json" where
  "mode_json m = (case m of None \<Rightarrow> JUndef | Some x \<Rightarrow> JStr (mode_text x))"

definition change_fields :: "composition_changes \<Rightarrow> draft" where
  "change_fields ch =
     opt_field ''agent'' JStr (ch_agent ch) @ opt_field ''mode'' mode_json (ch_mode ch) @
     opt_field ''approvalMode'' (\<lambda>a. JStr (approval_text a)) (ch_approval ch) @
     opt_field ''attachments'' JArr (ch_attachments ch) @ opt_field ''draft'' JStr (ch_draft ch) @
     opt_field ''model'' JStr (ch_model ch) @ opt_field ''reasoningEffort'' JStr (ch_effort ch)"

lemma map_of_opt_field:
  "map_of (opt_field k f x @ fs) i = (if i = k \<and> x \<noteq> None then map_option f x else map_of fs i)"
  by (cases x) (simp_all add: opt_field_def)

lemma opt_field_keys: "fst ` set (opt_field k f x) = (if x = None then {} else {k})"
  by (cases x) (simp_all add: opt_field_def)

lemma opt_field_distinct: "distinct (map fst (opt_field k f x))"
  by (cases x) (simp_all add: opt_field_def)

lemma opt_field_all: "(\<forall>e \<in> set (opt_field k f x). P e) = (case x of None \<Rightarrow> True | Some v \<Rightarrow> P (k, f v))"
  by (cases x) (simp_all add: opt_field_def)

lemma map_of_spread: "om_wf fs \<Longrightarrow> map_of (spread_over base fs) k = (case map_of fs k of Some v \<Rightarrow> Some v | None \<Rightarrow> map_of base k)"
proof (induction fs arbitrary: base)
  case (Cons x fs)
  obtain i v where x: "x = (i, v)" by fastforce
  from Cons.prems have "i \<notin> fst ` set fs" "om_wf fs" by (simp_all add: x om_wf_def)
  then have "map_of fs i = None" by (simp add: map_of_eq_None_iff)
  with Cons.IH [OF \<open>om_wf fs\<close>, of "om_set i v base"] show ?case by (auto simp: x spread_over_def split: option.split)
qed (simp add: spread_over_def)

lemma change_fields_wf: "om_wf (change_fields ch)"
  by (simp add: change_fields_def om_wf_def image_Un opt_field_keys opt_field_distinct)

lemma change_fields_get:
  "map_of (change_fields ch) ''agent'' = map_option JStr (ch_agent ch)"
  "map_of (change_fields ch) ''mode'' = map_option mode_json (ch_mode ch)"
  "map_of (change_fields ch) ''approvalMode'' = map_option (\<lambda>a. JStr (approval_text a)) (ch_approval ch)"
  "map_of (change_fields ch) ''attachments'' = map_option JArr (ch_attachments ch)"
  "map_of (change_fields ch) ''draft'' = map_option JStr (ch_draft ch)"
  "map_of (change_fields ch) ''model'' = map_option JStr (ch_model ch)"
  "map_of (change_fields ch) ''reasoningEffort'' = map_option JStr (ch_effort ch)"
  by (simp_all add: change_fields_def map_of_opt_field map_of_opt_field [where fs = "[]", simplified] del: map_of_append)

lemma changed_field:
  "field (JObj (spread_over d (change_fields ch))) k = or_else (map_of (change_fields ch) k) (field (JObj d) k)"
  by (simp add: map_of_spread change_fields_wf or_else_def split: option.split)

lemma or_else_str: "string_value (or_else (map_option JStr x) v) = or_else x (string_value v)"
  by (cases x) (simp_all add: or_else_def string_value_def)

lemma or_else_arr: "arr_items (or_else (map_option JArr x) v) = or_else x (arr_items v)"
  by (cases x) (simp_all add: or_else_def)

lemma or_else_approval:
  "restored_approval (or_else (map_option (\<lambda>a. JStr (approval_text a)) x) v) = or_else x (restored_approval v)"
proof -
  have "restored_approval (JStr (approval_text a)) = a" for a by (cases a) (simp_all add: restored_approval_def)
  then show ?thesis by (cases x) (simp_all add: or_else_def)
qed

lemma or_else_is_str: "is_str (or_else (map_option JStr x) v) = (x \<noteq> None \<or> is_str v)"
  by (cases x) (simp_all add: or_else_def)

lemma or_else_is_arr: "is_arr (or_else (map_option JArr x) v) = (x \<noteq> None \<or> is_arr v)"
  by (cases x) (simp_all add: or_else_def)

definition read_mode :: "json \<Rightarrow> chat_mode option" where
  "read_mode v = (if v = JUndef then None else Some (restored_mode v))"

lemma read_mode_else:
  "read_mode (or_else (map_option mode_json m) v) = or_else m (read_mode v)"
proof -
  have "restored_mode (JStr (mode_text x)) = x" for x by (cases x) (simp_all add: restored_mode_def)
  then show ?thesis by (cases m) (simp_all add: or_else_def read_mode_def mode_json_def split: option.split)
qed

lemma composition_change:
  "composition_of (JObj (spread_over d (change_fields ch))) = spread (composition_of (JObj d)) ch"
  unfolding composition_of_def spread_def str_field_def changed_field change_fields_get read_mode_def [symmetric]
    or_else_str or_else_arr or_else_approval read_mode_else by simp

lemma draft_update: "draft_of ws (update_draft ws changes m) = spread_over (draft_of ws m) changes"
  by (simp add: update_draft_def get_draft_def Let_def)

section \<open>Drafts are typed and survive a restart\<close>

datatype input_op = ImGet "string option" | ImUpdate "string option" composition_changes | ImClear "string option" | ImRestart

fun apply_input :: "input_op \<Rightarrow> input_model \<Rightarrow> input_model" where
  "apply_input (ImGet ws) m = fst (get_draft ws m)"
| "apply_input (ImUpdate ws ch) m = update_draft ws (change_fields ch) m"
| "apply_input (ImClear ws) m = clear_draft ws m"
| "apply_input ImRestart m = m\<lparr>im_states := []\<rparr>"

definition storable_changes :: "input_op \<Rightarrow> bool" where
  "storable_changes e \<longleftrightarrow>
     (case e of
        ImUpdate ws ch \<Rightarrow> ch_mode ch \<noteq> Some None \<and> (case ch_attachments ch of None \<Rightarrow> True | Some xs \<Rightarrow> list_all storable xs)
      | _ \<Rightarrow> True)"

definition draft_ok :: "draft \<Rightarrow> bool" where
  "draft_ok d \<longleftrightarrow> om_wf d \<and> storable (JObj d) \<and> is_initial_composition (JObj d)"

definition input_ok :: "input_model \<Rightarrow> bool" where
  "input_ok m \<longleftrightarrow>
     (\<forall>k d. om_get (im_states m) k = Some d \<longrightarrow> draft_ok d) \<and> (\<forall>k. draft_ok (load_draft k (im_storage m)))"

definition input_stored :: "input_model \<Rightarrow> bool" where
  "input_stored m \<longleftrightarrow>
     (\<exists>b. im_storage m = Some b \<and> bs_writable b) \<and>
     (\<forall>k d. om_get (im_states m) k = Some d \<longrightarrow> map_of (load_draft k (im_storage m)) = map_of d)"

lemma set_spread: "set (spread_over base fs) \<subseteq> set base \<union> set fs"
proof (induction fs arbitrary: base)
  case (Cons x fs)
  obtain i v where x: "x = (i, v)" by fastforce
  have "set (spread_over (om_set i v base) fs) \<subseteq> set (om_set i v base) \<union> set fs" by (rule Cons.IH)
  then show ?case using set_om_set [of i v base] by (auto simp: x spread_over_def)
qed (simp add: spread_over_def)

lemma spread_wf: "om_wf base \<Longrightarrow> om_wf (spread_over base fs)"
  unfolding spread_over_def by (rule fold_keeps [where P = om_wf]) auto

lemma empty_draft_ok: "draft_ok empty_draft"
  by (simp add: draft_ok_def empty_draft_def om_wf_def is_initial_composition_def is_object_def)

lemma initial_fields: "draft_ok d \<Longrightarrow> map_of d k = None \<Longrightarrow> map_of empty_draft k = None"
proof -
  assume "draft_ok d" and none: "map_of d k = None"
  then have i: "is_initial_composition (JObj d)" by (simp add: draft_ok_def)
  have u: "field (JObj d) k = JUndef" using none by simp
  have "\<not> is_str JUndef" "\<not> is_arr JUndef" "string_of JUndef \<notin> {''allow'', ''ask'', ''autopilot''}" by simp_all
  then have "k \<noteq> ''agent''" "k \<noteq> ''approvalMode''" "k \<noteq> ''attachments''" "k \<noteq> ''draft''" "k \<noteq> ''model''" "k \<noteq> ''reasoningEffort''"
    using i u unfolding is_initial_composition_def by metis+
  then show ?thesis by (simp add: empty_draft_def)
qed

lemma spread_ok:
  assumes "draft_ok d" and "storable_changes (ImUpdate ws ch)"
  shows "draft_ok (spread_over d (change_fields ch))"
proof -
  have "string_of (JStr (approval_text a)) \<in> {''allow'', ''ask'', ''autopilot''}" for a by (cases a) simp_all
  then have approval: "string_of v \<in> {''allow'', ''ask'', ''autopilot''} \<Longrightarrow>
      string_of (or_else (map_option (\<lambda>a. JStr (approval_text a)) x) v) \<in> {''allow'', ''ask'', ''autopilot''}" for x v
    by (cases x) (simp_all only: or_else_def option.map option.case)
  have i: "is_initial_composition (JObj (spread_over d (change_fields ch)))"
    using assms(1) unfolding draft_ok_def is_initial_composition_def changed_field change_fields_get or_else_is_str or_else_is_arr
    by (intro conjI approval) (simp_all add: is_object_def)
  have "storable (JObj (change_fields ch))"
  proof -
    have m: "case ch_mode ch of None \<Rightarrow> True | Some m \<Rightarrow> storable (mode_json m)"
      using assms(2) by (auto simp: storable_changes_def mode_json_def split: option.splits)
    have x: "case ch_attachments ch of None \<Rightarrow> True | Some xs \<Rightarrow> \<forall>v \<in> set xs. storable v"
      using assms(2) by (auto simp: storable_changes_def list_all_iff split: option.splits)
    have "\<forall>f \<in> set (change_fields ch). storable (snd f)"
      unfolding change_fields_def set_append ball_Un opt_field_all snd_conv storable.simps
      using m x by (intro conjI) (auto split: option.split)
    then show ?thesis using change_fields_wf [of ch] by (simp add: om_wf_def)
  qed
  moreover have w: "om_wf (spread_over d (change_fields ch))" using assms(1) by (simp add: draft_ok_def spread_wf)
  ultimately have "storable (JObj (spread_over d (change_fields ch)))"
    using assms(1) set_spread [of d "change_fields ch"] by (auto simp: draft_ok_def om_wf_def list_all_iff)
  with i w show ?thesis by (simp add: draft_ok_def)
qed

lemma load_stored:
  assumes "draft_ok d"
  shows "draft_ok (load_draft k (Some (b\<lparr>bs_items := om_set (untitled_key k) (draft_text d) xs\<rparr>)))" (is ?ok)
    and "map_of (load_draft k (Some (b\<lparr>bs_items := om_set (untitled_key k) (draft_text d) xs\<rparr>))) = map_of d" (is ?same)
proof -
  have st: "storable (JObj d)" and w: "om_wf d" using assms by (simp_all add: draft_ok_def)
  have "draft_text d \<noteq> []" unfolding draft_text_def using json_text_start [of "JObj d"] by auto
  then have l: "load_draft k (Some (b\<lparr>bs_items := om_set (untitled_key k) (draft_text d) xs\<rparr>)) = spread_over empty_draft d"
    by (simp add: load_draft_def stored_item_def json_parse_text [OF st, folded draft_text_def])
  have f: "map_of (spread_over empty_draft d) i = map_of d i" for i
    using initial_fields [OF assms, of i] by (simp add: map_of_spread [OF w] split: option.split)
  show ?same unfolding l using f by (intro ext)
  have "om_wf (spread_over empty_draft d)" by (rule spread_wf) (simp add: empty_draft_def om_wf_def)
  moreover from this have "storable (JObj (spread_over empty_draft d))"
    using st set_spread [of empty_draft d] empty_draft_ok by (auto simp: om_wf_def draft_ok_def)
  moreover have "is_initial_composition (JObj (spread_over empty_draft d))"
    using assms f by (simp add: draft_ok_def is_initial_composition_def is_object_def)
  ultimately show ?ok unfolding l draft_ok_def by blast
qed

lemma untitled_key_inj [simp]: "untitled_key i = untitled_key k \<longleftrightarrow> i = k"
  by (simp add: untitled_key_def)

lemma load_other:
  "i \<noteq> k \<Longrightarrow> load_draft i (Some (b\<lparr>bs_items := om_set (untitled_key k) t (bs_items b)\<rparr>)) = load_draft i (Some b)"
  "i \<noteq> k \<Longrightarrow> load_draft i (Some (b\<lparr>bs_items := om_del (untitled_key k) (bs_items b)\<rparr>)) = load_draft i (Some b)"
  "load_draft k (Some (b\<lparr>bs_items := om_del (untitled_key k) (bs_items b)\<rparr>)) = empty_draft"
  by (simp_all add: load_draft_def stored_item_def)

lemma ok_get: "input_ok m \<Longrightarrow> input_ok (fst (get_draft ws m)) \<and> draft_ok (draft_of ws m)"
  by (auto simp: input_ok_def get_draft_def Let_def split: option.splits if_splits)

lemma stored_get: "input_stored m \<Longrightarrow> input_stored (fst (get_draft ws m))"
  by (auto simp: input_stored_def get_draft_def Let_def split: option.splits if_splits)

lemma storage_get [simp]: "im_storage (fst (get_draft ws m)) = im_storage m"
  by (simp add: get_draft_def Let_def split: option.split)

lemma load_stored_item:
  "load_draft i (store_item (untitled_key k) (draft_text d) st) =
     (case st of None \<Rightarrow> empty_draft
      | Some b \<Rightarrow> if bs_writable b then load_draft i (Some (b\<lparr>bs_items := om_set (untitled_key k) (draft_text d) (bs_items b)\<rparr>))
                   else load_draft i st)"
  by (simp add: store_item_def load_draft_def stored_item_def split: option.split)

lemma input_step:
  assumes "input_ok m" and "storable_changes e"
  shows "input_ok (apply_input e m)"
proof (cases e)
  case (ImUpdate ws ch)
  let ?d = "spread_over (draft_of ws m) (change_fields ch)"
  have d: "draft_ok ?d" using spread_ok [OF _ assms(2) [unfolded ImUpdate]] ok_get [OF assms(1)] by simp
  have g: "input_ok (fst (get_draft ws m))" using ok_get [OF assms(1)] by simp
  have "draft_ok (load_draft i (store_item (untitled_key (draft_key ws)) (draft_text ?d) (im_storage m)))" for i
  proof (cases "im_storage m")
    case None
    then show ?thesis using empty_draft_ok by (simp add: load_stored_item)
  next
    case (Some b)
    have "draft_ok (load_draft i (Some b))" using assms(1) by (simp add: input_ok_def Some [symmetric])
    then show ?thesis using load_stored(1) [OF d] by (cases "i = draft_key ws") (simp_all add: Some load_stored_item load_other)
  qed
  with d g show ?thesis by (auto simp: ImUpdate update_draft_def input_ok_def Let_def)
next
  case (ImClear ws)
  have "draft_ok (load_draft i (map_option (\<lambda>b. b\<lparr>bs_items := om_del (untitled_key (draft_key ws)) (bs_items b)\<rparr>) (im_storage m)))" for i
  proof (cases "im_storage m")
    case (Some b)
    then show ?thesis using assms(1) empty_draft_ok by (cases "i = draft_key ws") (simp_all add: load_other input_ok_def)
  qed (use assms(1) in \<open>simp add: input_ok_def\<close>)
  with assms(1) show ?thesis by (simp add: ImClear clear_draft_def input_ok_def Let_def)
qed (use assms(1) ok_get [OF assms(1)] in \<open>auto simp: input_ok_def\<close>)

lemma stored_step:
  assumes "input_ok m" and "input_stored m" and "storable_changes e"
  shows "input_stored (apply_input e m)"
proof (cases e)
  case (ImGet ws)
  then show ?thesis using stored_get [OF assms(2)] by simp
next
  case (ImUpdate ws ch)
  let ?d = "spread_over (draft_of ws m) (change_fields ch)"
  have d: "draft_ok ?d" using spread_ok [OF _ assms(3) [unfolded ImUpdate]] ok_get [OF assms(1)] by simp
  obtain b where b: "im_storage m = Some b" "bs_writable b" using assms(2) by (auto simp: input_stored_def)
  have g: "input_stored (fst (get_draft ws m))" by (rule stored_get [OF assms(2)])
  have "map_of (load_draft i (store_item (untitled_key (draft_key ws)) (draft_text ?d) (Some b))) =
      map_of (if i = draft_key ws then ?d else load_draft i (Some b))" for i
    using load_stored(2) [OF d] b(2) by (simp add: load_stored_item load_other)
  moreover have "store_item (untitled_key (draft_key ws)) (draft_text ?d) (Some b) =
      Some (b\<lparr>bs_items := om_set (untitled_key (draft_key ws)) (draft_text ?d) (bs_items b)\<rparr>)"
    using b(2) by (simp add: store_item_def)
  ultimately show ?thesis using g b
    by (auto simp: ImUpdate update_draft_def input_stored_def Let_def split: if_splits)
next
  case (ImClear ws)
  obtain b where b: "im_storage m = Some b" "bs_writable b" using assms(2) by (auto simp: input_stored_def)
  show ?thesis using assms(2) b by (auto simp: ImClear clear_draft_def input_stored_def Let_def load_other)
next
  case ImRestart
  then show ?thesis using assms(2) by (auto simp: input_stored_def)
qed

definition foreign_items :: "browser_storage option \<Rightarrow> bool" where
  "foreign_items st \<longleftrightarrow> (case st of None \<Rightarrow> True | Some b \<Rightarrow> list_all (\<lambda>(k, t). take 21 k \<noteq> ''zaw.untitled-session.'') (bs_items b))"

lemma foreign_load: "foreign_items st \<Longrightarrow> load_draft k st = empty_draft"
proof -
  assume f: "foreign_items st"
  have "stored_item (untitled_key k) st = None"
  proof (cases st)
    case (Some b)
    have "take 21 (untitled_key k) = ''zaw.untitled-session.''" by (simp add: untitled_key_def)
    moreover have "take 21 i \<noteq> ''zaw.untitled-session.''" if "i \<in> fst ` set (bs_items b)" for i
      using f that by (auto simp: Some foreign_items_def list_all_iff)
    ultimately have "untitled_key k \<notin> fst ` set (bs_items b)" by blast
    then show ?thesis by (simp add: Some stored_item_def map_of_eq_None_iff)
  qed (simp add: stored_item_def)
  then show ?thesis by (simp add: load_draft_def)
qed

lemma new_input_ok: "foreign_items st \<Longrightarrow> input_ok (new_input_model st)"
  by (simp add: input_ok_def new_input_model_def foreign_load empty_draft_ok)

lemma history_ok:
  assumes "foreign_items st" and "list_all storable_changes es"
  shows "input_ok (fold apply_input es (new_input_model st))"
  using assms by (intro fold_keeps [where P = input_ok]) (auto simp: list_all_iff intro: input_step new_input_ok)

text \<open>
  Every draft this code has written, in any order of changes, clearings and reloads of the page,
  passes the validation of the command that creates a session.
\<close>

theorem drafts_are_compositions:
  assumes "foreign_items st" and "list_all storable_changes es"
  shows "create_arguments [JStr title, JObj (draft_of ws (fold apply_input es (new_input_model st)))]"
proof -
  have "draft_ok (draft_of ws (fold apply_input es (new_input_model st)))" using ok_get [OF history_ok [OF assms]] by blast
  then show ?thesis by (simp add: create_arguments_def argument_def at_index_def draft_ok_def)
qed

text \<open>
  A draft outlives a reload of the page: on a storage that can be written, what a new page reads
  for a workspace is what the old one had, property by property.
\<close>

theorem drafts_survive_restart:
  assumes "foreign_items (Some b)" and "bs_writable b" and "list_all storable_changes es"
  shows "map_of (draft_of ws (apply_input ImRestart (fold apply_input es (new_input_model (Some b))))) =
    map_of (draft_of ws (fold apply_input es (new_input_model (Some b))))"
proof -
  let ?m = "fold apply_input es (new_input_model (Some b))"
  have "input_stored (new_input_model (Some b))" using assms(2) by (simp add: input_stored_def new_input_model_def)
  then have "input_ok ?m \<and> input_stored ?m" using assms(1,3) new_input_ok [OF assms(1)]
    by (intro fold_keeps [where P = "\<lambda>m. input_ok m \<and> input_stored m"]) (auto simp: list_all_iff intro: input_step stored_step)
  then have s: "om_get (im_states ?m) k = Some d \<Longrightarrow> map_of (load_draft k (im_storage ?m)) = map_of d" for k d
    by (simp add: input_stored_def)
  show ?thesis using s by (auto simp: get_draft_def Let_def split: option.split)
qed

theorem drafts_are_compositions_witness:
  "create_arguments [JStr ''t'', JObj (draft_of None (update_draft None (change_fields (no_changes\<lparr>ch_draft := Some ''hi''\<rparr>)) (new_input_model None)))]"
proof -
  have "foreign_items None" "list_all storable_changes [ImUpdate None (no_changes\<lparr>ch_draft := Some ''hi''\<rparr>)]"
    by (simp_all add: foreign_items_def storable_changes_def no_changes_def)
  from drafts_are_compositions [OF this, of "''t''" None] show ?thesis by simp
qed

theorem drafts_survive_restart_witness:
  "let m = update_draft None (change_fields (no_changes\<lparr>ch_draft := Some ''hi''\<rparr>)) (new_input_model (Some \<lparr>bs_items = [], bs_writable = True\<rparr>))
   in map_of (draft_of None (m\<lparr>im_states := []\<rparr>)) = map_of (draft_of None m) \<and> map_of (draft_of None m) ''draft'' = Some (JStr ''hi'')"
proof -
  let ?b = "\<lparr>bs_items = [], bs_writable = True\<rparr>"
  define m where "m = update_draft None (change_fields (no_changes\<lparr>ch_draft := Some ''hi''\<rparr>)) (new_input_model (Some ?b))"
  have "foreign_items (Some ?b)" "bs_writable ?b" "list_all storable_changes [ImUpdate None (no_changes\<lparr>ch_draft := Some ''hi''\<rparr>)]"
    by (simp_all add: foreign_items_def storable_changes_def no_changes_def)
  from drafts_survive_restart [OF this, of None] have "map_of (draft_of None (m\<lparr>im_states := []\<rparr>)) = map_of (draft_of None m)" by (simp add: m_def)
  moreover have "map_of (draft_of None m) ''draft'' = Some (JStr ''hi'')"
    unfolding m_def draft_update map_of_spread [OF change_fields_wf] change_fields_get by (simp add: no_changes_def)
  ultimately show ?thesis by (simp add: m_def)
qed

end
