(* ===== verification/SessionEvents.thy ===== *)
theory SessionEvents
  imports Sessions
begin

text \<open>
  What the session services tell their listeners (\<open>onDidChange\<close> of the workspaces, of the active
  session, of the chat and of the catalog): in every step of \<open>Sessions\<close>, what a listener reads has
  changed only if it has been told.  The views of sessions rest on it.
\<close>

section \<open>Announcements\<close>

definition chat_same :: "session_identity \<Rightarrow> chat_sessions \<Rightarrow> chat_sessions \<Rightarrow> bool" where
  "chat_same i c c' \<longleftrightarrow>
     snd (cs_composition i c') = snd (cs_composition i c) \<and> cs_active_turn i c' = cs_active_turn i c \<and> cs_events i c' = cs_events i c"

definition workspaces_announced :: "session_world \<Rightarrow> session_world \<Rightarrow> bool" where
  "workspaces_announced w w' \<longleftrightarrow>
     se_changes w \<le> se_changes w' \<and>
     (se_changes w' = se_changes w \<longrightarrow> se_selected w' = se_selected w \<and> se_workspaces w' = se_workspaces w)"

definition active_announced :: "session_world \<Rightarrow> session_world \<Rightarrow> bool" where
  "active_announced w w' \<longleftrightarrow>
     (\<exists>es. as_fired (nw_active (se_nav w')) = as_fired (nw_active (se_nav w)) @ es \<and>
           active_of w' = (if es = [] then active_of w else last es))"

definition chat_announced :: "session_world \<Rightarrow> session_world \<Rightarrow> bool" where
  "chat_announced w w' \<longleftrightarrow>
     (\<exists>es. cs_fired (se_chat w') = cs_fired (se_chat w) @ es \<and> (\<forall>i. i \<notin> set es \<longrightarrow> chat_same i (se_chat w) (se_chat w')))"

definition catalog_announced :: "session_world \<Rightarrow> session_world \<Rightarrow> bool" where
  "catalog_announced w w' \<longleftrightarrow>
     sc_fires (se_catalog w) \<le> sc_fires (se_catalog w') \<and>
     (sc_fires (se_catalog w') = sc_fires (se_catalog w) \<longrightarrow> sc_titles (se_catalog w') = sc_titles (se_catalog w))"

definition announced :: "session_world \<Rightarrow> session_world \<Rightarrow> bool" where
  "announced w w' \<longleftrightarrow> workspaces_announced w w' \<and> active_announced w w' \<and> chat_announced w w' \<and> catalog_announced w w'"

lemma chat_same_refl [simp]: "chat_same i c c"
  by (simp add: chat_same_def)

lemma chat_same_trans: "chat_same i a b \<Longrightarrow> chat_same i b c \<Longrightarrow> chat_same i a c"
  by (simp add: chat_same_def)

lemma announced_trans:
  assumes "announced u v" and "announced v w"
  shows "announced u w"
proof -
  have "workspaces_announced u w" using assms by (auto simp: announced_def workspaces_announced_def)
  moreover have "active_announced u w"
  proof -
    obtain es fs where "as_fired (nw_active (se_nav v)) = as_fired (nw_active (se_nav u)) @ es"
        "active_of v = (if es = [] then active_of u else last es)" "as_fired (nw_active (se_nav w)) = as_fired (nw_active (se_nav v)) @ fs"
        "active_of w = (if fs = [] then active_of v else last fs)"
      using assms unfolding announced_def active_announced_def by blast
    then show ?thesis unfolding active_announced_def by (intro exI [of _ "es @ fs"]) auto
  qed
  moreover have "chat_announced u w"
  proof -
    obtain es fs where e: "cs_fired (se_chat v) = cs_fired (se_chat u) @ es" "cs_fired (se_chat w) = cs_fired (se_chat v) @ fs"
        "\<And>i. i \<notin> set es \<Longrightarrow> chat_same i (se_chat u) (se_chat v)" "\<And>i. i \<notin> set fs \<Longrightarrow> chat_same i (se_chat v) (se_chat w)"
      using assms unfolding announced_def chat_announced_def by blast
    then have "i \<notin> set (es @ fs) \<Longrightarrow> chat_same i (se_chat u) (se_chat w)" for i by (auto intro: chat_same_trans)
    with e show ?thesis unfolding chat_announced_def by (intro exI [of _ "es @ fs"]) simp
  qed
  moreover have "catalog_announced u w" using assms by (auto simp: announced_def catalog_announced_def)
  ultimately show ?thesis by (simp add: announced_def)
qed

text \<open>What a step that announces nothing keeps.\<close>

definition unchanged :: "session_world \<Rightarrow> session_world \<Rightarrow> bool" where
  "unchanged w w' \<longleftrightarrow>
     se_changes w' = se_changes w \<and> se_selected w' = se_selected w \<and> se_workspaces w' = se_workspaces w \<and>
     se_nav w' = se_nav w \<and> se_chat w' = se_chat w \<and> se_catalog w' = se_catalog w"

lemma announced_unchanged: "unchanged w w' \<Longrightarrow> announced w w'"
  by (simp add: announced_def unchanged_def workspaces_announced_def active_announced_def chat_announced_def catalog_announced_def active_of_def)

lemma unchanged_refl [simp]: "unchanged w w"
  by (simp add: unchanged_def)

lemma announced_refl [simp]: "announced w w"
  by (simp add: announced_unchanged)

lemma announced_cong: "announced w v \<Longrightarrow> unchanged v w' \<Longrightarrow> announced w w'"
  by (rule announced_trans [OF _ announced_unchanged])

lemma announced_fire:
  "se_changes w' = Suc (se_changes w) \<Longrightarrow> se_nav w' = se_nav w \<Longrightarrow> se_chat w' = se_chat w \<Longrightarrow> se_catalog w' = se_catalog w \<Longrightarrow> announced w w'"
  by (simp add: announced_def workspaces_announced_def active_announced_def chat_announced_def catalog_announced_def active_of_def)

text \<open>Changes of the chat announce themselves.\<close>

definition chat_step :: "chat_sessions \<Rightarrow> chat_sessions \<Rightarrow> bool" where
  "chat_step c c' \<longleftrightarrow> (\<exists>es. cs_fired c' = cs_fired c @ es \<and> (\<forall>i. i \<notin> set es \<longrightarrow> chat_same i c c'))"

lemma announced_chat: "chat_step (se_chat w) c \<Longrightarrow> announced w (w\<lparr>se_chat := c\<rparr>)"
  unfolding announced_def chat_announced_def chat_step_def
  by (auto simp: workspaces_announced_def active_announced_def catalog_announced_def active_of_def)

lemma chat_step_memo: "chat_step c (fst (cs_composition i c))"
proof -
  have "chat_same j c (fst (cs_composition i c))" for j
    by (cases "session_identity_key j = session_identity_key i")
      (simp_all add: chat_same_def cs_composition_def cs_active_turn_def cs_events_def cs_restore_def Let_def split: option.split)
  then show ?thesis unfolding chat_step_def by (intro exI [of _ "[]"]) (simp add: cs_composition_def Let_def split: option.split)
qed

lemma chat_step_turn: "chat_step c (cs_set_active_turn i t c)"
  unfolding chat_step_def
  by (intro exI [of _ "[i]"])
    (auto simp: cs_set_active_turn_def chat_same_def cs_composition_def cs_active_turn_def cs_events_def cs_restore_def Let_def split: option.split)

lemma chat_step_update: "chat_step c (fst (cs_update i ch c))"
proof -
  have k: "storage_key (session_identity_key j) = storage_key (session_identity_key i) \<longleftrightarrow> j = i" for j by (simp add: storage_key_def)
  have "chat_same j c (fst (cs_update i ch c))" if "j \<noteq> i" for j
    using that by (auto simp: chat_same_def cs_update_def cs_composition_def cs_active_turn_def cs_events_def cs_restore_def cs_persist_def k Let_def
        split: option.split)
  moreover have "cs_fired (fst (cs_update i ch c)) = cs_fired c @ [i]"
    by (simp add: cs_update_def cs_composition_def cs_persist_def Let_def split: option.split)
  ultimately show ?thesis unfolding chat_step_def by (intro exI [of _ "[i]"]) simp
qed

lemma chat_same_fields:
  assumes "cs_compositions c' = cs_compositions c" and "cs_persistence c' = cs_persistence c" and "cs_turns c' = cs_turns c"
    and "cs_messages c' = cs_messages c"
  shows "chat_same i c c'"
  unfolding chat_same_def cs_composition_def cs_active_turn_def cs_events_def cs_restore_def assms Let_def by (simp split: option.split)

lemma chat_step_active: "chat_step c (cs_active_changed i c)"
  unfolding chat_step_def by (intro exI [of _ "[]"]) (simp add: cs_active_changed_def chat_same_fields)

lemma chat_step_clear: "chat_step c (cs_clear_after_send i c)"
  unfolding cs_clear_after_send_def by (rule chat_step_update)

section \<open>Every step announces what it changes\<close>

lemma announced_hear:
  assumes "as_fired a = as_fired (nw_active (se_nav w)) @ (case r of None \<Rightarrow> [] | Some i \<Rightarrow> [i])"
    and "as_selected a = (case r of None \<Rightarrow> active_of w | Some i \<Rightarrow> i)"
  shows "announced w (hear_active (a, r) w)"
proof (cases r)
  case None
  then show ?thesis using assms
    by (simp add: announced_def hear_active_def hear_def workspaces_announced_def active_announced_def chat_announced_def catalog_announced_def
        active_of_def Let_def)
next
  case (Some i)
  have "chat_announced w (hear_active (a, r) w)"
    using chat_step_active [of "se_chat w" i] by (simp add: Some hear_active_def chat_announced_def chat_step_def Let_def)
  moreover have "active_announced w (hear_active (a, r) w)"
    unfolding active_announced_def using assms by (intro exI [of _ "[i]"]) (simp add: Some hear_active_def hear_def active_of_def Let_def)
  ultimately show ?thesis
    by (simp add: announced_def) (simp add: Some hear_active_def workspaces_announced_def catalog_announced_def Let_def)
qed

lemma announced_active: "announced w (select_active i w)" "announced w (clear_active w)"
  unfolding select_active_def clear_active_def
  by (simp_all add: active_select_def active_clear_def announced_hear active_of_def)

lemma announced_begin: "announced w (fst p) \<Longrightarrow> announced w (begin_task fs p)"
  by (erule announced_cong) (simp add: begin_task_eq unchanged_def)

lemma announced_set_task: "announced w w' \<Longrightarrow> announced w (set_task n wt fs w')"
  by (erule announced_cong) (simp add: set_task_def unchanged_def)

lemma announced_sends: "announced w (fst (send_on_host i h w))" "announced w (fst (send_session i w))"
proof -
  have host: "announced w (fst (send_on_host i h w))" for h
  proof -
    obtain chat c where x: "cs_composition i (se_chat w) = (chat, c)" by fastforce
    have "announced w (w\<lparr>se_chat := chat\<rparr>)" using chat_step_memo [of "se_chat w" i] by (simp add: x announced_chat)
    then show ?thesis by (simp add: send_on_host_def x call_host_def Let_def) (auto elim!: announced_cong simp: unchanged_def)
  qed
  show "announced w (fst (send_on_host i h w))" by (rule host)
  have "announced w (fst (attach_then ws fs w))" for ws fs
    by (rule announced_unchanged) (simp add: attach_then_def unchanged_def split: prod.split)
  with host show "announced w (fst (send_session i w))" by (simp add: send_session_def split: option.split)
qed

lemma announced_created: "announced w (created i ti w)"
  unfolding created_def Let_def
  by (rule announced_trans [OF _ announced_active(1)])
    (simp add: announced_def workspaces_announced_def active_announced_def chat_announced_def catalog_announced_def catalog_add_def active_of_def
      Let_def)

lemma announced_calls:
  "announced w (fst (attach_then ws fs w))" "announced w (fst (attach_session i w))" "announced w (fst (cancel_session i w))"
  "announced w (confirm_session_call i c t ok w)" "announced w (fst (create_session ws ti pr w))" "announced w (fst (reload_workspaces w))"
  "announced w (fst (make_workspace input w))" "announced w (fst (load_build_logs ws w))" "announced w (fst (select_workspace ws sr w))"
  "announced w (fst (attach_on_host i h w))"
  by (rule announced_unchanged; simp add: attach_then_def attach_session_def attach_on_host_def cancel_session_def confirm_session_call_def
      create_session_def reload_workspaces_def make_workspace_def load_build_logs_def select_workspace_def call_host_def call_provider_def
      unchanged_def split: option.split prod.split)+

lemma announced_frame: "announced w (fst (run_frame n f v w))"
proof (cases f)
  case MakeOnCreated
  then show ?thesis using announced_calls(6) [of w] by (simp split: prod.split progress.split) (metis fst_conv)
next
  case (CommandOnCreated input)
  have "announced w (fst (send_session i (w\<lparr>se_chat := fst (cs_update i ch (se_chat w))\<rparr>)))" "announced w (w\<lparr>se_chat := fst (cs_update i ch (se_chat w))\<rparr>)"
    for i ch by (auto intro: announced_trans [OF _ announced_sends(2)] announced_chat chat_step_update)
  then show ?thesis by (simp add: CommandOnCreated command_created_def Let_def split: option.split)
next
  case (SelectOnHost ws sr)
  then show ?thesis by (intro announced_fire) (simp_all add: select_on_host_def ws_fire_def Let_def split: prod.split)
next
  case (SendOnPrompted i)
  then show ?thesis by (simp add: announced_chat chat_step_clear)
next
  case (CreateOnHost ws ti p)
  then show ?thesis by (simp add: call_host_def announced_unchanged unchanged_def)
next
  case (CreateOnCreated ws ti)
  then show ?thesis by (simp add: announced_created Let_def)
qed (simp_all add: ws_fire_def announced_calls announced_active announced_sends announced_fire)

lemma announced_resume: "announced w (resume_task n w)"
proof (cases "om_get (se_tasks w) n")
  case (Some x)
  obtain wt fs where x: "x = (wt, fs)" by fastforce
  show ?thesis
  proof (cases wt)
    case (Settled r)
    show ?thesis
    proof (cases fs)
      case (Cons f gs)
      have "announced w (fst (continue_frame n f r w))" using announced_frame by (cases r) (simp_all add: continue_frame_def)
      then show ?thesis by (auto simp: resume_task_eq Some x Settled Cons split: prod.split intro: announced_set_task)
    qed (simp add: resume_task_def Some x Settled announced_unchanged unchanged_def)
  qed (simp_all add: resume_task_def Some x)
qed (simp add: resume_task_def)

lemma announced_settles:
  "announced w (connect_settles n a w)" "announced w (call_settles n r w)" "announced w (load_settles uri n l w)"
  "announced w (reattach_settles n rs w)"
proof -
  have l: "se_changes (settle_loads n r v) = se_changes v" "se_selected (settle_loads n r v) = se_selected v"
    "se_workspaces (settle_loads n r v) = se_workspaces v" "se_nav (settle_loads n r v) = se_nav v"
    "se_chat (settle_loads n r v) = se_chat v" "se_catalog (settle_loads n r v) = se_catalog v" for n r v
    by (simp_all add: settle_loads_def set_task_def split: option.split prod.split wait.split)
  have "unchanged w (connect_settles n a w)" "unchanged w (call_settles n r w)"
    by (simp_all add: connect_settles_def call_settles_def set_task_def unchanged_def split: option.split prod.split wait.split)
  moreover have "unchanged w (load_settles uri n l w)"
  proof (cases "find (\<lambda>l. fst l = n) (se_loads w)")
    case (Some x)
    then show ?thesis by (cases x; cases l) (simp_all add: load_settles_def Let_def unchanged_def l)
  qed (simp add: load_settles_def)
  moreover have "unchanged w (reattach_settles n rs w)"
  proof (cases "find (\<lambda>l. fst l = n) (se_reattaches w)")
    case (Some x)
    then show ?thesis by (cases x) (simp_all add: reattach_settles_def Let_def unchanged_def l)
  qed (simp add: reattach_settles_def)
  ultimately show "announced w (connect_settles n a w)" "announced w (call_settles n r w)" "announced w (load_settles uri n l w)"
    "announced w (reattach_settles n rs w)" by (simp_all add: announced_unchanged)
qed

lemma announced_closing: "announced w (host_closes h w)"
proof -
  have "announced v (fold workspace_closed xs v)" for xs v
  proof (induction xs arbitrary: v)
    case (Cons x xs)
    have "announced v (workspace_closed x v)" by (simp add: workspace_closed_def ws_fire_def announced_fire)
    with Cons.IH show ?case by (simp add: announced_trans)
  qed simp
  moreover have "announced w (w\<lparr>se_attachment := a\<rparr>)" for a by (simp add: announced_unchanged unchanged_def)
  ultimately show ?thesis unfolding host_closes_def Let_def by (rule announced_trans [rotated])
qed

lemma announced_catalog:
  assumes "sc_titles c = sc_titles (se_catalog w)" and "sc_fires (se_catalog w) \<le> sc_fires c"
  shows "announced w (w\<lparr>se_catalog := c\<rparr>)"
  using assms by (simp add: announced_def workspaces_announced_def active_announced_def chat_announced_def catalog_announced_def active_of_def)

lemma announced_targets:
  assumes "\<And>i c. sc_titles (act i c) = sc_titles c \<and> sc_fires c \<le> sc_fires (act i c)"
  shows "announced w (fst (for_targets act v w))"
proof -
  have "sc_titles (fold (\<lambda>x. act (identity_of x)) xs c) = sc_titles c \<and> sc_fires c \<le> sc_fires (fold (\<lambda>x. act (identity_of x)) xs c)" for xs c
  proof (induction xs arbitrary: c)
    case (Cons x xs)
    from Cons.IH [of "act (identity_of x) c"] assms [of "identity_of x" c] show ?case by simp
  qed simp
  then show ?thesis by (simp add: for_targets_def announced_catalog split: option.split)
qed

lemma announced_command: "announced w (fst (execute_command k args session_registry w))"
proof (rule command_cases [of k args w])
  fix hdl assume h: "one_of_handlers k hdl" and r: "fst (execute_command k args session_registry w) = fst (hdl args w)"
  have "announced w (fst (open_command args w))"
    unfolding open_command_def Let_def fst_conv by (intro announced_begin announced_trans [OF announced_active(1) announced_calls(9)])
  moreover have "announced w (fst (create_command args w))"
    by (simp add: create_command_def Let_def announced_begin announced_calls announced_unchanged unchanged_def split: option.split)
  moreover have "announced w (fst (send_command args w))" "announced w (fst (cancel_command args w))"
    by (simp_all add: send_command_def cancel_command_def announced_begin announced_calls announced_sends announced_unchanged unchanged_def split: option.split)
  moreover have "announced w (fst (confirm_command args w))" by (simp add: confirm_command_def announced_calls split: option.split)
  moreover have "announced w (fst (pin_command args w))" "announced w (fst (archive_command args w))" "announced w (fst (mark_read_command args w))"
    unfolding pin_command_def archive_command_def mark_read_command_def
    by (rule announced_targets; simp add: toggle_pinned_def toggle_archived_def mark_read_def local_state_changed_def Let_def)+
  moreover have "announced w (fst (filter_command args w))" by (simp add: filter_command_def announced_catalog request_filter_def)
  moreover have "announced w (fst (new_command args w))" by (simp add: new_command_def announced_active)
  ultimately have "announced w (fst (hdl args w))" using handlers_are [OF h] by auto
  then show ?thesis by (simp add: r)
qed simp

lemma announced_step: "announced w (apply_session uri e w)"
  by (cases e)
    (simp_all add: announced_command announced_begin announced_calls announced_sends announced_resume announced_settles announced_closing
      announced_chat chat_step_update chat_step_turn announced_unchanged unchanged_def)

text \<open>
  No step of the session services, whatever runs or settles in it, changes what a listener reads
  behind its back: without an event of the workspace service the list and the selection are the old
  ones, without one of the active session the same session is active, without one of the chat for a
  session its composition, its turn and its events are the old ones, and without one of the catalog
  the titles are.
\<close>

theorem services_announce_changes:
  "let w' = apply_session uri e w; told = drop (length (cs_fired (se_chat w))) (cs_fired (se_chat w'))
   in (se_changes w' = se_changes w \<longrightarrow> se_selected w' = se_selected w \<and> se_workspaces w' = se_workspaces w) \<and>
      (as_fired (nw_active (se_nav w')) = as_fired (nw_active (se_nav w)) \<longrightarrow> active_of w' = active_of w) \<and>
      (\<forall>i. i \<notin> set told \<longrightarrow>
         snd (cs_composition i (se_chat w')) = snd (cs_composition i (se_chat w)) \<and>
         cs_active_turn i (se_chat w') = cs_active_turn i (se_chat w) \<and> cs_events i (se_chat w') = cs_events i (se_chat w)) \<and>
      (sc_fires (se_catalog w') = sc_fires (se_catalog w) \<longrightarrow> sc_titles (se_catalog w') = sc_titles (se_catalog w))"
proof -
  have a: "announced w (apply_session uri e w)" by (rule announced_step)
  then obtain es where es: "cs_fired (se_chat (apply_session uri e w)) = cs_fired (se_chat w) @ es"
      "\<forall>i. i \<notin> set es \<longrightarrow> chat_same i (se_chat w) (se_chat (apply_session uri e w))"
    by (auto simp: announced_def chat_announced_def)
  show ?thesis using a unfolding Let_def es(1)
    by (auto simp: announced_def workspaces_announced_def active_announced_def catalog_announced_def
        dest: es(2) [rule_format, unfolded chat_same_def] split: if_splits)
qed

theorem services_announce_changes_witness:
  "let i = \<lparr>si_workspace = ''w'', si_resource = ''s''\<rparr>; w = new_session_world (new_layout None) None
   in active_of (apply_session (\<lambda>p b. Some p) (StTurn i (Some ''t'')) w) = active_of w"
proof -
  define i where "i = \<lparr>si_workspace = ''w'', si_resource = ''s''\<rparr>"
  define w where "w = new_session_world (new_layout None) None"
  have "as_fired (nw_active (se_nav (apply_session (\<lambda>p b. Some p) (StTurn i (Some ''t'')) w))) = as_fired (nw_active (se_nav w))" by simp
  with services_announce_changes [of "\<lambda>p b. Some p" "StTurn i (Some ''t'')" w]
  show ?thesis unfolding Let_def i_def [symmetric] w_def [symmetric] by blast
qed

end
