(* ===== verification/NewSession.thy ===== *)
theory NewSession
  imports Drafts SessionEvents
begin

text \<open>
  \<open>packages/workbench/src/contrib/sessions/new-session-view.ts\<close>, the class \<open>NewSessionView\<close>, and
  \<open>model-identity.ts\<close>: the view that composes a session and creates it, over the session service's
  state, the management's and the drafts.

  The optional services are present.  The parameters of a workspace, the agents a host lists and the
  registered descriptors are part of the state.  The rejections of the session service are errors
  with a message, as everywhere in its model.
\<close>

section \<open>What the view offers its composer\<close>

definition runtime_model_id :: "model \<Rightarrow> string" where
  "runtime_model_id m = md_provider m @ ''/'' @ md_upstream m"

definition offered_model :: "model_provider list \<Rightarrow> model \<Rightarrow> composer_model" where
  "offered_model ps m =
     \<lparr>co_id = runtime_model_id m, co_name = md_name m,
      co_vendor = (case find (\<lambda>p. mp_id p = md_provider m) ps of None \<Rightarrow> [] | Some p \<Rightarrow> mp_name p),
      co_reasoning = truthy (field (md_capabilities m) ''reasoning''),
      co_efforts = map string_value (arr_items (field (md_capabilities m) ''reasoningEfforts''))\<rparr>"

definition offered_models :: "management \<Rightarrow> composer_model list" where
  "offered_models g = map (offered_model (mg_providers g)) (mg_models g)"

text \<open>\<open>workspaceSourceStatus\<close>, also of the view of a session: icons and labels.\<close>

definition source_status :: "json \<Rightarrow> (string \<times> string) list" where
  "source_status ps =
     (let worktree = field ps ''worktree''; branch = field ps ''branch''
      in (if is_str worktree \<and> string_value worktree \<noteq> [] then [(''check'', string_value worktree)] else []) @
         (if is_str branch \<and> string_value branch \<noteq> [] then [(''git-branch'', string_value branch)] else []))"

datatype workspace_act = ShowBuildLogs | StopIt | StartIt

text \<open>The buttons of a workspace (icon, label, kind and act), and the spinner that may follow them.\<close>

record workspace_row =
  wr_buttons :: "(string \<times> string \<times> string \<times> workspace_act) list"
  wr_spinner :: "string option"

datatype act_phase = NotActing | Acting | Reloading nat

record new_session =
  ns_world :: session_world
  ns_management :: management
  ns_agents :: "(string \<times> string) list"
  ns_parameters :: "(string, json) omap"
  ns_descriptors :: "(string \<times> string \<times> string \<times> string) list"
  ns_input :: input_model
  ns_pending :: bool
  ns_submitting :: bool
  ns_error :: string
  ns_submitted :: "(string \<times> (string + nat)) option"
  ns_acting :: act_phase
  ns_creates :: nat
  ns_shown :: "string option"
  ns_workspace_picker :: picker
  ns_agent_picker :: picker
  ns_permission :: picker
  ns_row :: workspace_row
  ns_status :: "(string \<times> string) list"

definition workspace_with :: "string option \<Rightarrow> workspace list \<Rightarrow> workspace option" where
  "workspace_with ws xs = find (\<lambda>x. Some (wk_id x) = ws) xs"

abbreviation ns_selected :: "new_session \<Rightarrow> workspace option" where
  "ns_selected w \<equiv> workspace_with (se_selected (ns_world w)) (se_workspaces (ns_world w))"

abbreviation no_workspace :: "new_session \<Rightarrow> bool" where
  "no_workspace w \<equiv> se_selected (ns_world w) = None \<or> se_selected (ns_world w) = Some []"

definition ns_draft :: "new_session \<Rightarrow> draft" where
  "ns_draft w = draft_of (se_selected (ns_world w)) (ns_input w)"

definition ns_disabled :: "new_session \<Rightarrow> bool" where
  "ns_disabled w \<longleftrightarrow>
     ns_submitting w \<or> no_workspace w \<or> \<not> is_workspace_running (ns_selected w) \<or>
     mg_models_state (ns_management w) = ModelsError \<or> mg_models_state (ns_management w) = ModelsLoading \<or>
     (mg_models_state (ns_management w) = ModelsReady \<and> mg_models (ns_management w) = [])"

definition ns_notice :: "new_session \<Rightarrow> (string \<times> string) option" where
  "ns_notice w =
     (if ns_error w \<noteq> [] then Some (''error'', ns_error w)
      else if mg_models_state (ns_management w) = ModelsError
        then Some (''error'', if mg_models_error (ns_management w) = [] then ''Unable to load models'' else mg_models_error (ns_management w))
      else None)"

definition ns_placeholder :: "new_session \<Rightarrow> string" where
  "ns_placeholder w =
     (if no_workspace w then ''Select a workspace to start''
      else if \<not> is_workspace_running (ns_selected w) then ''Workspace must be running to create a session''
      else if mg_models_state (ns_management w) = ModelsLoading then ''Loading language models''
      else if mg_models_state (ns_management w) = ModelsError then ''Language models are unavailable''
      else if mg_models_state (ns_management w) = ModelsReady \<and> mg_models (ns_management w) = [] then ''No language models available''
      else ''Describe what you want to build'')"

definition ns_env :: "new_session \<Rightarrow> composer_env" where
  "ns_env w =
     \<lparr>en_composition = composition_of (JObj (ns_draft w)), en_disabled = ns_disabled w,
      en_models = offered_models (ns_management w), en_models_state = mg_models_state (ns_management w),
      en_placeholder = ns_placeholder w, en_notice = ns_notice w, en_working = ns_submitting w, en_cancels = False,
      en_actions = ns_descriptors w\<rparr>"

definition update_selected :: "draft \<Rightarrow> new_session \<Rightarrow> new_session" where
  "update_selected d w = w\<lparr>ns_input := update_draft (se_selected (ns_world w)) d (ns_input w)\<rparr>"

definition ns_host :: "(string \<Rightarrow> nat) \<Rightarrow> new_session composer_host" where
  "ns_host height =
     \<lparr>ho_env = ns_env, ho_change = (\<lambda>ch. update_selected (change_fields ch)), ho_refreshes = False, ho_height = height\<rparr>"

interpretation new_session_owner: composer_owner "ns_host height" for height
  by unfold_locales
    (simp add: ns_host_def ns_env_def ns_draft_def update_selected_def ns_disabled_def ns_notice_def ns_placeholder_def
      draft_update composition_change)

section \<open>The view refreshes\<close>

definition folder_item :: "string \<Rightarrow> string \<Rightarrow> string \<Rightarrow> menu_item" where
  "folder_item icon value label = (plain_item value label [])\<lparr>mi_icon := icon\<rparr>"

definition workspace_items :: "workspace list \<Rightarrow> menu_item list" where
  "workspace_items xs =
     map (\<lambda>x. folder_item ''folder'' (wk_id x) (wk_name x)) xs @
     [folder_item ''add'' ''__create_workspace__'' (''Create New Workspace'' @ bytes [226, 128, 166])]"

definition agent_items :: "(string \<times> string) list \<Rightarrow> menu_item list" where
  "agent_items as =
     (if as = [] then [plain_item [] ''No agents available'' []] else map (\<lambda>(i, n). plain_item i n []) as)"

definition permission_items :: "menu_item list" where
  "permission_items =
     [plain_item ''ask'' ''Ask for approval'' [], plain_item ''allow'' ''Bypass approvals'' [], plain_item ''autopilot'' ''Autopilot'' []]"

definition permission_change :: "string \<Rightarrow> composition_changes" where
  "permission_change v = no_changes\<lparr>ch_approval := Some (restored_approval (JStr v))\<rparr>"

definition workspace_row_of :: "bool \<Rightarrow> workspace option \<Rightarrow> workspace_row" where
  "workspace_row_of pending ws =
     (case ws of
        None \<Rightarrow> \<lparr>wr_buttons = [], wr_spinner = None\<rparr>
      | Some x \<Rightarrow>
          (let life = (if pending then LifecycleTransitioning else workspace_lifecycle_state ws);
               logs = (''output'', ''View build logs for '' @ wk_name x, ''neutral'', ShowBuildLogs);
               others = (case life of
                   LifecycleRunning \<Rightarrow> [(''debug-stop'', ''Stop '' @ wk_name x, ''stop'', StopIt)]
                 | LifecycleStopped \<Rightarrow> [(''debug-start'', ''Start '' @ wk_name x, ''start'', StartIt)]
                 | LifecycleTransitioning \<Rightarrow> [])
           in \<lparr>wr_buttons = logs # others,
               wr_spinner = (if life = LifecycleTransitioning
                 then Some (''Workspace '' @ (if wk_observed x = [] then ''transitioning'' else wk_observed x)) else None)\<rparr>))"

definition status_of :: "workspace option \<Rightarrow> json \<Rightarrow> (string \<times> string) list" where
  "status_of ws parameters =
     (if is_workspace_running ws then ''workspace-trusted'' else ''workspace-untrusted'',
      case ws of None \<Rightarrow> ''No agent host'' | Some x \<Rightarrow> ''Workspace '' @ (if wk_observed x = [] then wk_desired x else wk_observed x)) #
     source_status parameters"

text \<open>The draft is read, and the first agent is taken where it has none.\<close>

definition ensure_agent :: "new_session \<Rightarrow> new_session" where
  "ensure_agent w =
     (let ws = se_selected (ns_world w); r = get_draft ws (ns_input w); w1 = w\<lparr>ns_input := fst r\<rparr>
      in case ns_agents w of
           [] \<Rightarrow> w1
         | (i, n) # as \<Rightarrow>
             if truthy (field (JObj (snd r)) ''agent'') then w1
             else update_selected (change_fields (no_changes\<lparr>ch_agent := Some i\<rparr>)) w1)"

definition show_draft :: "new_session \<Rightarrow> new_session" where
  "show_draft w =
     (let c = composition_of (JObj (ns_draft w)); ws = ns_selected w
      in w\<lparr>ns_shown := se_selected (ns_world w),
           ns_workspace_picker := new_picker ''Select workspace'' (workspace_items (se_workspaces (ns_world w))) (se_selected (ns_world w)) False,
           ns_agent_picker := new_picker ''Session agent'' (agent_items (ns_agents w)) (Some (cc_agent c)) (ns_agents w = []),
           ns_permission := new_picker ''Permission level'' permission_items (Some (approval_text (cc_approval c))) False,
           ns_row := workspace_row_of (ns_pending w) ws,
           ns_status := status_of ws (case ws of None \<Rightarrow> JUndef | Some x \<Rightarrow> or_else (om_get (ns_parameters w) (wk_id x)) JUndef)\<rparr>)"

type_synonym draft_view = "new_session \<times> composer"

definition refresh_view :: "(string \<Rightarrow> nat) \<Rightarrow> draft_view \<Rightarrow> draft_view" where
  "refresh_view height s =
     (let w = show_draft (ensure_agent (fst s)) in (w, refresh_composer height (ns_env w) (snd s)))"

definition refresh_input :: "(string \<Rightarrow> nat) \<Rightarrow> draft_view \<Rightarrow> draft_view" where
  "refresh_input height s = apsnd (refresh_composer height (ns_env (fst s))) s"

text \<open>Also the listener on the management, and \<open>refreshAgents\<close>.\<close>

definition refresh_all :: "(string \<Rightarrow> nat) \<Rightarrow> draft_view \<Rightarrow> draft_view" where
  "refresh_all height s = refresh_view height (apsnd (refresh_pickers (ns_env (fst s))) s)"

definition bare_session ::
  "session_world \<Rightarrow> management \<Rightarrow> (string \<times> string) list \<Rightarrow> (string, json) omap \<Rightarrow>
   (string \<times> string \<times> string \<times> string) list \<Rightarrow> browser_storage option \<Rightarrow> new_session" where
  "bare_session sw g as ps ds st =
     (let p = new_picker [] [] None False
      in \<lparr>ns_world = sw, ns_management = g, ns_agents = as, ns_parameters = ps, ns_descriptors = ds,
          ns_input = new_input_model st, ns_pending = False, ns_submitting = False, ns_error = [], ns_submitted = None,
          ns_acting = NotActing, ns_creates = 0, ns_shown = None, ns_workspace_picker = p, ns_agent_picker = p, ns_permission = p,
          ns_row = \<lparr>wr_buttons = [], wr_spinner = None\<rparr>, ns_status = []\<rparr>)"

lemma bare_session_fields [simp]:
  "ns_world (bare_session sw g as ps ds st) = sw" "ns_management (bare_session sw g as ps ds st) = g"
  "ns_agents (bare_session sw g as ps ds st) = as" "ns_input (bare_session sw g as ps ds st) = new_input_model st"
  "ns_submitting (bare_session sw g as ps ds st) = False" "ns_pending (bare_session sw g as ps ds st) = False"
  by (simp_all add: bare_session_def Let_def)

definition new_draft_view ::
  "(string \<Rightarrow> nat) \<Rightarrow> session_world \<Rightarrow> management \<Rightarrow> (string \<times> string) list \<Rightarrow> (string, json) omap \<Rightarrow>
   (string \<times> string \<times> string \<times> string) list \<Rightarrow> browser_storage option \<Rightarrow> draft_view" where
  "new_draft_view height sw g as ps ds st =
     (let w = bare_session sw g as ps ds st in refresh_view height (w, new_composer height (ns_env w)))"

section \<open>What the view does\<close>

text \<open>Steps of the session service, which tells the view when the workspaces change.\<close>

definition world_step :: "(string \<Rightarrow> nat) \<Rightarrow> (session_world \<Rightarrow> session_world) \<Rightarrow> draft_view \<Rightarrow> draft_view" where
  "world_step height f s =
     (let sw = f (ns_world (fst s)); s1 = apfst (\<lambda>w. w\<lparr>ns_world := sw\<rparr>) s
      in if se_changes sw = se_changes (ns_world (fst s)) then s1 else refresh_view height s1)"

definition management_step :: "(string \<Rightarrow> nat) \<Rightarrow> (management \<Rightarrow> management) \<Rightarrow> draft_view \<Rightarrow> draft_view" where
  "management_step height f s = refresh_all height (apfst (\<lambda>w. w\<lparr>ns_management := f (ns_management w)\<rparr>) s)"

definition pick_workspace :: "(string \<Rightarrow> nat) \<Rightarrow> nat \<Rightarrow> draft_view \<Rightarrow> draft_view" where
  "pick_workspace height k s =
     (case pick_item k (ns_workspace_picker (fst s)) of
        (p, None) \<Rightarrow> s
      | (p, Some i) \<Rightarrow>
          (let s1 = apfst (\<lambda>w. w\<lparr>ns_workspace_picker := p\<rparr>) s
           in if mi_value i = ''__create_workspace__'' then apfst (\<lambda>w. w\<lparr>ns_creates := Suc (ns_creates w)\<rparr>) s1
              else world_step height (\<lambda>sw. begin_task [] (select_workspace (mi_value i) None sw)) s1))"

definition update_shown :: "composition_changes \<Rightarrow> new_session \<Rightarrow> new_session" where
  "update_shown ch w = w\<lparr>ns_input := update_draft (ns_shown w) (change_fields ch) (ns_input w)\<rparr>"

definition pick_agent :: "nat \<Rightarrow> new_session \<Rightarrow> new_session" where
  "pick_agent k w =
     (case pick_item k (ns_agent_picker w) of
        (p, None) \<Rightarrow> w
      | (p, Some i) \<Rightarrow> update_shown (no_changes\<lparr>ch_agent := Some (mi_value i)\<rparr>) (w\<lparr>ns_agent_picker := p\<rparr>))"

definition pick_permission :: "nat \<Rightarrow> new_session \<Rightarrow> new_session" where
  "pick_permission k w =
     (case pick_item k (ns_permission w) of
        (p, None) \<Rightarrow> w
      | (p, Some i) \<Rightarrow> update_shown (permission_change (mi_value i)) (w\<lparr>ns_permission := p\<rparr>))"

text \<open>\<open>submit\<close> up to its \<open>await\<close>: the workspace and either the failure of the command or its task.\<close>

fun command_message :: "command_error \<Rightarrow> string" where
  "command_message (NotRegistered k) = ''Command \"'' @ k @ ''\" is not registered''"
| "command_message (ValidationFailed k) = ''Command \"'' @ k @ ''\" parameter validation failed''"
| "command_message (PreconditionFailed k) = ''Command \"'' @ k @ ''\" precondition failed''"
| "command_message AccessorNotConfigured =
     ''ServicesAccessor not yet configured. Call commandRegistry.setServicesAccessor() after container assembly.''"
| "command_message (HandlerThrew e) = e"

definition begin_submit :: "(string \<Rightarrow> nat) \<Rightarrow> draft_view \<Rightarrow> draft_view" where
  "begin_submit height s =
     (let w = fst s
      in if no_workspace w \<or> ns_submitting w \<or> \<not> is_workspace_running (ns_selected w) then s
         else
           let ws = se_selected (ns_world w); r = get_draft ws (ns_input w);
               s1 = refresh_input height (w\<lparr>ns_input := fst r, ns_submitting := True, ns_error := []\<rparr>, snd s);
               sw = ns_world (fst s1);
               (sw', e) = execute_command ''zaw.session.create'' [JStr ''New session'', JObj (snd r)] session_registry sw
           in apfst (\<lambda>v. v\<lparr>ns_submitted := Some (or_else ws [], case e of Some x \<Rightarrow> Inl (command_message x) | None \<Rightarrow> Inr (se_next sw))\<rparr>)
                (world_step height (\<lambda>u. sw') s1))"

definition submit_fails :: "string \<Rightarrow> new_session \<Rightarrow> new_session" where
  "submit_fails e w = w\<lparr>ns_error := e, ns_submitting := False, ns_submitted := None\<rparr>"

definition submit_succeeds :: "string \<Rightarrow> new_session \<Rightarrow> new_session" where
  "submit_succeeds ws w = w\<lparr>ns_input := clear_draft (Some ws) (ns_input w), ns_submitting := False, ns_submitted := None\<rparr>"

definition task_outcome :: "nat \<Rightarrow> session_world \<Rightarrow> outcome option" where
  "task_outcome n w = map_option snd (find (\<lambda>x. fst x = n) (se_outcomes w))"

definition finish_submit :: "(string \<Rightarrow> nat) \<Rightarrow> draft_view \<Rightarrow> draft_view" where
  "finish_submit height s =
     (case ns_submitted (fst s) of
        None \<Rightarrow> s
      | Some (ws, Inl e) \<Rightarrow> refresh_input height (apfst (submit_fails e) s)
      | Some (ws, Inr n) \<Rightarrow>
          (case task_outcome n (ns_world (fst s)) of
             None \<Rightarrow> s
           | Some (Inl e) \<Rightarrow> refresh_input height (apfst (submit_fails e) s)
           | Some (Inr v) \<Rightarrow> refresh_input height (apfst (submit_succeeds ws) s)))"

text \<open>
  \<open>runWorkspaceAction\<close>: up to the management's promise, from there up to the reload's (which a task of
  the session service is), and its end.  A rejection has the message of an \<open>Error\<close>, if it is one.
\<close>

definition start_act :: "workspace_act \<Rightarrow> string \<Rightarrow> management \<Rightarrow> management" where
  "start_act a ws = (case a of ShowBuildLogs \<Rightarrow> open_build_logs ws | StopIt \<Rightarrow> stop_workspace ws | StartIt \<Rightarrow> start_workspace ws)"

definition begin_act :: "(string \<Rightarrow> nat) \<Rightarrow> workspace_act \<Rightarrow> string \<Rightarrow> draft_view \<Rightarrow> draft_view" where
  "begin_act height a ws s =
     (if ns_pending (fst s) then s
      else apfst (\<lambda>w. w\<lparr>ns_management := start_act a ws (ns_management w), ns_acting := Acting\<rparr>)
             (refresh_view height (apfst (\<lambda>w. w\<lparr>ns_pending := True, ns_error := []\<rparr>) s)))"

definition end_act :: "(string \<Rightarrow> nat) \<Rightarrow> string option \<Rightarrow> draft_view \<Rightarrow> draft_view" where
  "end_act height e s =
     refresh_view height (apfst (\<lambda>w. w\<lparr>ns_error := or_else e (ns_error w), ns_pending := False, ns_acting := NotActing\<rparr>) s)"

definition act_settles :: "(string \<Rightarrow> nat) \<Rightarrow> string option option \<Rightarrow> draft_view \<Rightarrow> draft_view" where
  "act_settles height failure s =
     (case ns_acting (fst s) of
        Acting \<Rightarrow>
          (case failure of
             Some e \<Rightarrow> end_act height (Some (or_else e ''Workspace action failed'')) s
           | None \<Rightarrow>
               apfst (\<lambda>w. w\<lparr>ns_acting := Reloading (se_next (ns_world (fst s)))\<rparr>)
                 (world_step height (\<lambda>sw. begin_task [] (reload_workspaces sw)) s))
      | _ \<Rightarrow> s)"

definition reload_settles :: "(string \<Rightarrow> nat) \<Rightarrow> draft_view \<Rightarrow> draft_view" where
  "reload_settles height s =
     (case ns_acting (fst s) of
        Reloading n \<Rightarrow>
          (case task_outcome n (ns_world (fst s)) of
             None \<Rightarrow> s
           | Some (Inl e) \<Rightarrow> end_act height (Some e) s
           | Some (Inr v) \<Rightarrow> end_act height None s)
      | _ \<Rightarrow> s)"

definition click_workspace_button :: "(string \<Rightarrow> nat) \<Rightarrow> nat \<Rightarrow> draft_view \<Rightarrow> draft_view" where
  "click_workspace_button height k s =
     (case (at_index (wr_buttons (ns_row (fst s))) k, ns_shown (fst s)) of
        (Some (icon, label, kind, a), Some ws) \<Rightarrow>
          if a = ShowBuildLogs then management_step height (open_build_logs ws) s else begin_act height a ws s
      | _ \<Rightarrow> s)"

text \<open>The composer's own steps; a submission it reports is the view's \<open>submit\<close>.\<close>

definition composer_step :: "(string \<Rightarrow> nat) \<Rightarrow> new_session composer_op \<Rightarrow> draft_view \<Rightarrow> draft_view" where
  "composer_step height e s =
     (let s' = apply_composer (ns_host height) True e s
      in if cp_submits (snd s') = cp_submits (snd s) then s' else begin_submit height s')"

datatype new_session_op =
    NsType string "nat \<times> nat"
  | NsComposing bool
  | NsKey string bool bool
  | NsPick nat nat
  | NsMicrotask
  | NsAttach
  | NsSend
  | NsFiles "picked_file list"
  | NsDrop "picked_file list"
  | NsRead nat
  | NsRemove nat
  | NsNavigate string
  | NsWorkspace nat
  | NsAgent nat
  | NsPermission nat
  | NsButton nat
  | NsActSettles "string option option"
  | NsReloadSettles
  | NsSubmitSettles
  | NsWorld session_step
  | NsManagement management
  | NsAgents "(string \<times> string) list"

fun apply_new_session ::
  "(string \<Rightarrow> string option \<Rightarrow> string option) \<Rightarrow> (string \<Rightarrow> nat) \<Rightarrow> new_session_op \<Rightarrow> draft_view \<Rightarrow> draft_view" where
  "apply_new_session uri height (NsType v selection) s = composer_step height (CoType v selection) s"
| "apply_new_session uri height (NsComposing b) s = composer_step height (CoComposing b) s"
| "apply_new_session uri height (NsKey key shift composing) s = composer_step height (CoKey key shift composing) s"
| "apply_new_session uri height (NsPick p k) s =
     composer_step height (if p = 0 then CoMode k else if p = 1 then CoModel k else CoEffort k) s"
| "apply_new_session uri height NsMicrotask s = composer_step height CoMicrotask s"
| "apply_new_session uri height NsAttach s = composer_step height CoAttach s"
| "apply_new_session uri height NsSend s = composer_step height CoSend s"
| "apply_new_session uri height (NsFiles files) s = composer_step height (CoFiles files) s"
| "apply_new_session uri height (NsDrop files) s = composer_step height (CoDrop files) s"
| "apply_new_session uri height (NsRead n) s = composer_step height (CoRead n) s"
| "apply_new_session uri height (NsRemove k) s = composer_step height (CoRemove k) s"
| "apply_new_session uri height (NsNavigate key) s = composer_step height (CoNavigate key) s"
| "apply_new_session uri height (NsWorkspace k) s = pick_workspace height k s"
| "apply_new_session uri height (NsAgent k) s = apfst (pick_agent k) s"
| "apply_new_session uri height (NsPermission k) s = apfst (pick_permission k) s"
| "apply_new_session uri height (NsButton k) s = click_workspace_button height k s"
| "apply_new_session uri height (NsActSettles r) s = act_settles height r s"
| "apply_new_session uri height NsReloadSettles s = reload_settles height s"
| "apply_new_session uri height NsSubmitSettles s = finish_submit height s"
| "apply_new_session uri height (NsWorld e) s = world_step height (apply_session uri e) s"
| "apply_new_session uri height (NsManagement g) s = management_step height (\<lambda>x. g) s"
| "apply_new_session uri height (NsAgents as) s = refresh_all height (apfst (\<lambda>w. w\<lparr>ns_agents := as\<rparr>) s)"

section \<open>The view shows the draft of the selected workspace\<close>

definition ns_inv :: "(string \<Rightarrow> nat) \<Rightarrow> draft_view \<Rightarrow> bool" where
  "ns_inv height s \<longleftrightarrow> composer_inv (ns_host height) s \<and> ns_shown (fst s) = se_selected (ns_world (fst s))"

lemma host_env [simp]: "ho_env (ns_host height) = ns_env"
  by (simp add: ns_host_def)

lemma host_change [simp]: "ho_change (ns_host height) ch w = update_selected (change_fields ch) w"
  by (simp add: ns_host_def)

lemma host_height [simp]: "ho_height (ns_host height) = height" "\<not> ho_refreshes (ns_host height)"
  by (simp_all add: ns_host_def)

lemma ns_inv_env:
  assumes "ns_inv height (w, c)" and "ns_env w' = ns_env w" and "ns_shown w' = ns_shown w"
    and "se_selected (ns_world w') = se_selected (ns_world w)"
  shows "ns_inv height (w', c)"
  using assms by (simp add: ns_inv_def composer_inv_def)

lemma ns_env_cong:
  assumes "se_selected (ns_world w') = se_selected (ns_world w)" and "se_workspaces (ns_world w') = se_workspaces (ns_world w)"
    and "ns_draft w' = ns_draft w" and "ns_submitting w' = ns_submitting w" and "ns_error w' = ns_error w"
    and "mg_models (ns_management w') = mg_models (ns_management w)" and "mg_models_state (ns_management w') = mg_models_state (ns_management w)"
    and "mg_models_error (ns_management w') = mg_models_error (ns_management w)"
    and "mg_providers (ns_management w') = mg_providers (ns_management w)" and "ns_descriptors w' = ns_descriptors w"
  shows "ns_env w' = ns_env w"
  unfolding ns_env_def ns_disabled_def ns_placeholder_def ns_notice_def offered_models_def assms ..

lemma corrections_keep: "composer_inv host s \<Longrightarrow> corrections_only (snd s)"
  by (simp add: composer_inv_def)

lemma show_draft_env: "ns_env (show_draft w) = ns_env w"
  by (rule ns_env_cong) (simp_all add: show_draft_def Let_def ns_draft_def)

lemma view_inv: "corrections_only (snd s) \<Longrightarrow> ns_inv height (refresh_view height s)"
proof -
  assume c: "corrections_only (snd s)"
  define w where "w = show_draft (ensure_agent (fst s))"
  have "composer_inv (ns_host height) (w, refresh_composer height (ns_env w) (snd s))"
    using c by (simp add: composer_inv_def refresh_shows corrections_only_def)
  moreover have "ns_shown w = se_selected (ns_world w)" by (simp add: w_def show_draft_def Let_def)
  ultimately show ?thesis by (simp add: refresh_view_def w_def [symmetric] Let_def ns_inv_def)
qed

lemma all_inv: "corrections_only (snd s) \<Longrightarrow> ns_inv height (refresh_all height s)"
  unfolding refresh_all_def by (rule view_inv) (simp add: refresh_pickers_def corrections_only_def no_changes_def)

lemma input_inv: "corrections_only (snd s) \<Longrightarrow> ns_shown (fst s) = se_selected (ns_world (fst s)) \<Longrightarrow> ns_inv height (refresh_input height s)"
  by (simp add: refresh_input_def ns_inv_def composer_inv_def refresh_shows corrections_only_def)

lemma world_inv:
  assumes "ns_inv height s" and "announced (ns_world (fst s)) (f (ns_world (fst s)))"
  shows "ns_inv height (world_step height f s)"
proof -
  obtain w c where s: "s = (w, c)" by fastforce
  let ?w = "w\<lparr>ns_world := f (ns_world w)\<rparr>"
  show ?thesis
  proof (cases "se_changes (f (ns_world w)) = se_changes (ns_world w)")
    case True
    then have e: "se_selected (ns_world ?w) = se_selected (ns_world w)" "se_workspaces (ns_world ?w) = se_workspaces (ns_world w)"
      using assms(2) by (simp_all add: s announced_def workspaces_announced_def)
    then have "ns_env ?w = ns_env w" by (intro ns_env_cong) (simp_all add: ns_draft_def)
    then show ?thesis using ns_inv_env [OF assms(1) [unfolded s], of ?w] e True by (simp add: world_step_def s Let_def)
  next
    case False
    moreover have "corrections_only c" using assms(1) by (simp add: s ns_inv_def composer_inv_def)
    ultimately show ?thesis by (simp add: world_step_def s Let_def view_inv)
  qed
qed

lemma update_shown_inv:
  assumes "ns_inv height (w, c)" and "ch_draft ch = None" and "ch_attachments ch = None"
  shows "ns_inv height (update_shown ch w, c)"
proof -
  have u: "update_shown ch w = update_selected (change_fields ch) w" using assms(1) by (simp add: ns_inv_def update_shown_def update_selected_def)
  have "composer_inv (ns_host height) (on_change (ns_host height) ch (w, c))"
    by (rule new_session_owner.change_other) (use assms in \<open>simp_all add: ns_inv_def\<close>)
  moreover have "on_change (ns_host height) ch (w, c) = (update_selected (change_fields ch) w, c)" by (simp add: on_change_def Let_def)
  ultimately show ?thesis using assms(1) by (simp add: ns_inv_def u) (simp add: update_selected_def)
qed

lemma begin_submit_inv: "ns_inv height s \<Longrightarrow> ns_inv height (begin_submit height s)"
proof -
  assume s: "ns_inv height s"
  show ?thesis
  proof (cases "no_workspace (fst s) \<or> ns_submitting (fst s) \<or> \<not> is_workspace_running (ns_selected (fst s))")
    case False
    define r where "r = get_draft (se_selected (ns_world (fst s))) (ns_input (fst s))"
    define s1 where "s1 = refresh_input height ((fst s)\<lparr>ns_input := fst r, ns_submitting := True, ns_error := []\<rparr>, snd s)"
    obtain sw e where x: "execute_command ''zaw.session.create'' [JStr ''New session'', JObj (snd r)] session_registry (ns_world (fst s1)) = (sw, e)"
      by fastforce
    have "ns_inv height s1" unfolding s1_def using s by (intro input_inv) (simp_all add: ns_inv_def composer_inv_def)
    moreover have "announced (ns_world (fst s1)) sw"
      using announced_command [of "ns_world (fst s1)" "''zaw.session.create''" "[JStr ''New session'', JObj (snd r)]"] unfolding x fst_conv .
    ultimately have "ns_inv height (world_step height (\<lambda>u. sw) s1)" by (rule world_inv)
    moreover obtain v c where v: "world_step height (\<lambda>u. sw) s1 = (v, c)" by fastforce
    moreover have "ns_env (v\<lparr>ns_submitted := y\<rparr>) = ns_env v" for y by (rule ns_env_cong) (simp_all add: ns_draft_def)
    ultimately have "ns_inv height (v, c)" "\<And>y. ns_env (v\<lparr>ns_submitted := y\<rparr>) = ns_env v" by simp_all
    then have "ns_inv height (v\<lparr>ns_submitted := y\<rparr>, c)" for y by (auto intro: ns_inv_env [of height v c])
    then show ?thesis using False by (auto simp: begin_submit_def Let_def r_def [symmetric] s1_def [symmetric] x v)
  qed (use s in \<open>simp add: begin_submit_def Let_def\<close>)
qed

lemma finish_submit_inv: "ns_inv height s \<Longrightarrow> ns_inv height (finish_submit height s)"
proof -
  assume s: "ns_inv height s"
  have "ns_inv height (refresh_input height (apfst (submit_fails e) s))" "ns_inv height (refresh_input height (apfst (submit_succeeds ws) s))" for e ws
    by (rule input_inv; use s in \<open>simp add: ns_inv_def composer_inv_def submit_fails_def submit_succeeds_def\<close>)+
  then show ?thesis using s by (auto simp: finish_submit_def split: option.split prod.split sum.split)
qed

lemma act_corrections:
  "corrections_only (snd s) \<Longrightarrow> ns_inv height (end_act height e s)"
  unfolding end_act_def by (rule view_inv) simp

lemma begin_act_inv: "ns_inv height s \<Longrightarrow> ns_inv height (begin_act height a ws s)"
proof -
  assume s: "ns_inv height s"
  define s1 where "s1 = refresh_view height (apfst (\<lambda>w. w\<lparr>ns_pending := True, ns_error := []\<rparr>) s)"
  obtain w c where wc: "s1 = (w, c)" by fastforce
  have i: "ns_inv height s1" unfolding s1_def using s by (intro view_inv) (simp add: ns_inv_def composer_inv_def)
  let ?w = "w\<lparr>ns_management := start_act a ws (ns_management w), ns_acting := Acting\<rparr>"
  have "ns_env ?w = ns_env w"
    by (rule ns_env_cong) (cases a; simp add: ns_draft_def start_act_def open_build_logs_def stop_workspace_def start_workspace_def
        add_task_def fire_change_def fire_sheet_def mg_fire_def)+
  from ns_inv_env [OF i [unfolded wc] this] have "ns_inv height (?w, c)" by simp
  then show ?thesis using s by (simp add: begin_act_def s1_def [symmetric] wc)
qed

lemma act_settles_inv: "ns_inv height s \<Longrightarrow> ns_inv height (act_settles height r s)"
proof -
  assume s: "ns_inv height s"
  then have c: "corrections_only (snd s)" by (simp add: ns_inv_def composer_inv_def)
  obtain w c where wc: "world_step height (\<lambda>sw. begin_task [] (reload_workspaces sw)) s = (w, c)" by fastforce
  have "ns_inv height (world_step height (\<lambda>sw. begin_task [] (reload_workspaces sw)) s)"
    by (rule world_inv [OF s]) (simp add: announced_begin announced_calls)
  then have i: "ns_inv height (w, c)" by (simp add: wc)
  have "ns_env (w\<lparr>ns_acting := y\<rparr>) = ns_env w" for y by (rule ns_env_cong) (simp_all add: ns_draft_def)
  from ns_inv_env [OF i this] have "ns_inv height (w\<lparr>ns_acting := y\<rparr>, c)" for y by simp
  then show ?thesis using s act_corrections [OF c] by (simp add: act_settles_def wc split: act_phase.split option.split)
qed

lemma composer_step_inv:
  assumes s: "ns_inv height s" and "\<And>w. e \<noteq> CoOwner w"
  shows "ns_inv height (composer_step height e s)"
proof -
  have i: "composer_inv (ns_host height) (apply_composer (ns_host height) True e s)"
    by (rule new_session_owner.step_inv) (use s in \<open>simp add: ns_inv_def\<close>)
  have "ns_shown (fst (apply_composer (ns_host height) True e s)) = se_selected (ns_world (fst (apply_composer (ns_host height) True e s)))"
    by (rule step_keeps [where P = "\<lambda>w. ns_shown w = se_selected (ns_world w)"])
      (use assms in \<open>simp_all add: ns_inv_def update_selected_def\<close>)
  with i have "ns_inv height (apply_composer (ns_host height) True e s)" by (simp add: ns_inv_def)
  then show ?thesis by (simp add: composer_step_def Let_def begin_submit_inv)
qed

lemma pick_workspace_inv: "ns_inv height s \<Longrightarrow> ns_inv height (pick_workspace height k s)"
proof -
  assume s: "ns_inv height s"
  obtain w c where wc: "s = (w, c)" by fastforce
  have keep: "ns_inv height (w\<lparr>ns_workspace_picker := p, ns_creates := n\<rparr>, c)" for p n
    by (rule ns_inv_env [OF s [unfolded wc] ns_env_cong]) (simp_all add: ns_draft_def)
  have p: "ns_inv height (w\<lparr>ns_workspace_picker := p\<rparr>, c)" for p using keep [where n = "ns_creates w"] by simp
  have "ns_inv height (world_step height (\<lambda>sw. begin_task [] (select_workspace i None sw)) (w\<lparr>ns_workspace_picker := p\<rparr>, c))" for i p
    by (rule world_inv [OF p]) (simp add: announced_begin announced_calls)
  then show ?thesis using s keep by (auto simp: pick_workspace_def wc Let_def split: prod.split option.split)
qed

lemma management_inv: "ns_inv height s \<Longrightarrow> ns_inv height (management_step height f s)"
  unfolding management_step_def by (rule all_inv) (simp add: ns_inv_def composer_inv_def)

lemma ns_step:
  assumes s: "ns_inv height s"
  shows "ns_inv height (apply_new_session uri height e s)"
proof (cases e)
  case (NsAgent k)
  obtain w c where wc: "s = (w, c)" by fastforce
  have p: "ns_inv height (w\<lparr>ns_agent_picker := p\<rparr>, c)" for p
    by (rule ns_inv_env [OF s [unfolded wc] ns_env_cong]) (simp_all add: ns_draft_def)
  have "ns_inv height (update_shown (no_changes\<lparr>ch_agent := Some v\<rparr>) (w\<lparr>ns_agent_picker := p\<rparr>), c)" for p v
    by (rule update_shown_inv [OF p]) (simp_all add: no_changes_def)
  then show ?thesis using s by (simp add: NsAgent wc pick_agent_def split: prod.split option.split)
next
  case (NsPermission k)
  obtain w c where wc: "s = (w, c)" by fastforce
  have p: "ns_inv height (w\<lparr>ns_permission := p\<rparr>, c)" for p
    by (rule ns_inv_env [OF s [unfolded wc] ns_env_cong]) (simp_all add: ns_draft_def)
  have "ns_inv height (update_shown (permission_change v) (w\<lparr>ns_permission := p\<rparr>), c)" for p v
    by (rule update_shown_inv [OF p]) (simp_all add: permission_change_def no_changes_def)
  then show ?thesis using s by (simp add: NsPermission wc pick_permission_def split: prod.split option.split)
next
  case (NsButton k)
  then show ?thesis using s
    by (simp add: click_workspace_button_def management_inv begin_act_inv split: option.split prod.split)
next
  case NsReloadSettles
  have "corrections_only (snd s)" using s by (simp add: ns_inv_def composer_inv_def)
  then show ?thesis using s by (simp add: NsReloadSettles reload_settles_def act_corrections split: act_phase.split option.split sum.split)
next
  case (NsAgents as)
  have "corrections_only (snd s)" using s by (simp add: ns_inv_def composer_inv_def)
  then show ?thesis unfolding NsAgents apply_new_session.simps by (intro all_inv) simp
qed (use s in \<open>simp_all add: composer_step_inv pick_workspace_inv act_settles_inv finish_submit_inv management_inv world_inv announced_step\<close>)

text \<open>
  After anything the user, the session service and the management have done in any order, the
  editor of the view has the text and the attachments of the selected workspace's draft, and its send
  button is enabled exactly when that draft can be sent.
\<close>

theorem new_session_shows_the_draft:
  "let s = fold (apply_new_session uri height) es (new_draft_view height sw g as ps ds st);
       draft = composition_of (JObj (draft_of (se_selected (ns_world (fst s))) (ns_input (fst s))))
   in cp_value (snd s) = cc_draft draft \<and> cp_pills (snd s) = map attachment_pill (cc_attachments draft) \<and>
      ab_element_disabled (cp_send (snd s)) =
        (ns_disabled (fst s) \<or> (js_trim (cc_draft draft) = [] \<and> cc_attachments draft = []))"
proof -
  define s where "s = fold (apply_new_session uri height) es (new_draft_view height sw g as ps ds st)"
  have "ns_inv height (new_draft_view height sw g as ps ds st)"
    unfolding new_draft_view_def Let_def
    by (rule view_inv) (simp add: new_composer_def Let_def corrections_only_def refresh_pickers_def no_changes_def)
  then have "ns_inv height s" unfolding s_def by (intro fold_keeps [where P = "ns_inv height"]) (auto intro: ns_step)
  then have "composer_shows (ns_env (fst s)) (snd s)" by (simp add: ns_inv_def composer_inv_def)
  then have *: "cp_value (snd s) = cc_draft (en_composition (ns_env (fst s)))"
    "cp_pills (snd s) = map attachment_pill (cc_attachments (en_composition (ns_env (fst s))))"
    "ab_element_disabled (cp_send (snd s)) = (send_disabled (ns_env (fst s)) (cc_draft (en_composition (ns_env (fst s)))) \<or>
       (en_working (ns_env (fst s)) \<and> \<not> en_cancels (ns_env (fst s))))"
    by (simp_all add: composer_shows_def shows_input_def)
  have e: "en_composition (ns_env (fst s)) = composition_of (JObj (draft_of (se_selected (ns_world (fst s))) (ns_input (fst s))))"
    "en_disabled (ns_env (fst s)) = ns_disabled (fst s)" "en_working (ns_env (fst s)) = ns_submitting (fst s)" "en_cancels (ns_env (fst s)) = False"
    by (simp_all add: ns_env_def ns_draft_def)
  have "ns_submitting (fst s) \<Longrightarrow> ns_disabled (fst s)" by (simp add: ns_disabled_def)
  then show ?thesis unfolding s_def [symmetric] Let_def * send_disabled_def e by auto
qed

section \<open>Submissions\<close>

lemma create_registered:
  "om_get (cmds session_registry) ''zaw.session.create'' =
     Some \<lparr>rc_descriptor = \<lparr>cm_id = ''zaw.session.create'', cm_category = Some ''Session'', cm_precondition = None,
             cm_validate = Some create_arguments\<rparr>, rc_handler = create_command\<rparr>"
  by (simp add: session_registry_def register_session_commands_def session_commands_def register_command_def
      new_command_registry_def om_has_def)

lemma create_runs:
  assumes "create_arguments args"
  shows "execute_command ''zaw.session.create'' args session_registry w = (fst (create_command args w), None)"
proof -
  have "snd (create_command args w) = None" by (simp add: create_command_def Let_def split: option.split)
  then show ?thesis using assms by (cases "create_command args w") (simp add: execute_command_def create_registered Let_def)
qed

lemma running_selected: "se_selected w = Some ws \<Longrightarrow> running ws w = is_workspace_running (workspace_with (se_selected w) (se_workspaces w))"
  by (simp add: running_def workspace_with_def)

text \<open>The task a submission begins: the session is created with the draft's agent, and then takes the draft over.\<close>

definition creates_session :: "string \<Rightarrow> composition \<Rightarrow> wait \<times> frame list \<Rightarrow> bool" where
  "creates_session ws c t \<longleftrightarrow>
     snd t = [CreateOnHost ws ''New session'' (Some (cc_agent c)), CommandOnCreated (Some c)] \<and>
     (case fst t of OnConnect g x \<Rightarrow> x = ws | Settled (Inr (VHost h)) \<Rightarrow> True | _ \<Rightarrow> False)"

lemma create_begins:
  assumes "se_selected w = Some ws" and "ws \<noteq> []" and "running ws w" and "is_initial_composition d"
  shows "\<exists>t. om_get (se_tasks (fst (create_command [JStr ''New session'', d] w))) (se_next w) = Some t \<and>
             creates_session ws (composition_of d) t"
proof -
  let ?fs = "[CreateOnHost ws ''New session'' (Some (cc_agent (composition_of d)))]"
  let ?gs = "[CommandOnCreated (Some (composition_of d))]"
  obtain a r where a: "attach ws (se_attachment w) = (a, r)" by fastforce
  have c: "fst (create_command [JStr ''New session'', d] w) = begin_task ?gs (attach_then ws ?fs w)"
    using assms by (simp add: create_command_def create_session_def argument_def at_index_def Let_def)
  have "\<exists>wt. attach_then ws ?fs w = (w\<lparr>se_attachment := a\<rparr>, Blocked wt ?fs) \<and>
      (case wt of OnConnect g x \<Rightarrow> x = ws | Settled (Inr (VHost h)) \<Rightarrow> True | _ \<Rightarrow> False)"
    by (cases r) (simp_all add: attach_then_def a)
  then show ?thesis unfolding c by (auto simp: creates_session_def)
qed

lemma begin_submit_world:
  assumes "\<not> no_workspace w" and "\<not> ns_submitting w" and "is_workspace_running (ns_selected w)"
    and "create_arguments [JStr ''New session'', JObj (ns_draft w)]" and "se_selected (ns_world w) = Some ws"
  shows "ns_submitted (fst (begin_submit height (w, c))) = Some (ws, Inr (se_next (ns_world w)))"
    and "ns_world (fst (begin_submit height (w, c))) = fst (create_command [JStr ''New session'', JObj (ns_draft w)] (ns_world w))"
proof -
  let ?args = "[JStr ''New session'', JObj (ns_draft w)]"
  let ?sw = "fst (create_command ?args (ns_world w))"
  have x: "execute_command ''zaw.session.create'' ?args session_registry v = (fst (create_command ?args v), None)" for v
    by (rule create_runs [OF assms(4)])
  have keep: "ns_world (fst (world_step height (\<lambda>u. v) s)) = v" for v and s :: draft_view
    by (simp add: world_step_def Let_def refresh_view_def show_draft_def ensure_agent_def update_selected_def split: list.split prod.split)
  have d: "snd (get_draft (Some ws) (ns_input w)) = ns_draft w" using assms(5) by (simp add: ns_draft_def)
  show "ns_submitted (fst (begin_submit height (w, c))) = Some (ws, Inr (se_next (ns_world w)))"
    "ns_world (fst (begin_submit height (w, c))) = ?sw"
    using assms(1-3,5) by (simp_all add: begin_submit_def Let_def d x refresh_input_def keep or_else_def)
qed

text \<open>
  A submission in a running workspace creates a session with exactly the draft: whatever drafts
  were written before, the command accepts the arguments, and its task waits for the workspace's host
  to create a session for the draft's agent and has the new session take the draft over.
\<close>

theorem submission_creates_the_draft:
  assumes "foreign_items st" and "list_all storable_changes es" and "ns_input w = fold apply_input es (new_input_model st)"
    and "se_selected (ns_world w) = Some ws" and "ws \<noteq> []" and "\<not> ns_submitting w" and "is_workspace_running (ns_selected w)"
  shows "let w' = fst (begin_submit height (w, c)); n = se_next (ns_world w)
         in ns_submitted w' = Some (ws, Inr n) \<and>
            (\<exists>t. om_get (se_tasks (ns_world w')) n = Some t \<and> creates_session ws (composition_of (JObj (ns_draft w))) t)"
proof -
  have "draft_ok (ns_draft w)" using ok_get [OF history_ok [OF assms(1,2)]] by (simp add: ns_draft_def assms(3))
  then have i: "is_initial_composition (JObj (ns_draft w))" by (simp add: draft_ok_def)
  then have a: "create_arguments [JStr ''New session'', JObj (ns_draft w)]" by (simp add: create_arguments_def argument_def at_index_def)
  have "running ws (ns_world w)" using assms(7) running_selected [OF assms(4)] by simp
  from create_begins [OF assms(4,5) this i] begin_submit_world [OF _ assms(6,7) a assms(4), of height c] assms(4,5)
  show ?thesis by (simp add: Let_def)
qed

lemma refresh_shows_env [simp]:
  "cp_notice (refresh_composer h e c) = en_notice e" "cp_working (refresh_composer h e c) = en_working e"
  "cp_pickers (refresh_composer h e c) = cp_pickers c" "cp_value (refresh_composer h e c) = cc_draft (en_composition e)"
  by (simp_all add: refresh_composer_def refresh_send_def resize_editor_def render_attachments_def Let_def)

text \<open>
  When the creation fails the view says why and nothing of the input is lost: all drafts are kept,
  the editor shows the selected one, and the view is ready to submit again.
\<close>

theorem failed_creation_keeps_the_draft:
  assumes "ns_submitted (fst s) = Some (ws, Inr n)" and "task_outcome n (ns_world (fst s)) = Some (Inl e)" and "e \<noteq> []"
  shows "let s' = finish_submit height s
         in ns_input (fst s') = ns_input (fst s) \<and> cp_value (snd s') = cc_draft (composition_of (JObj (ns_draft (fst s)))) \<and>
            cp_notice (snd s') = Some (''error'', e) \<and> \<not> cp_working (snd s') \<and> \<not> ns_submitting (fst s')"
  using assms by (simp add: finish_submit_def refresh_input_def submit_fails_def ns_env_def ns_notice_def ns_draft_def Let_def)

text \<open>
  After a successful creation the draft of the workspace is empty, but the pickers still show
  the choices of the draft that was submitted: they are made anew only with the next notification.
\<close>

theorem created_session_leaves_pickers:
  assumes "ns_submitted (fst s) = Some (ws, Inr n)" and "task_outcome n (ns_world (fst s)) = Some (Inr v)"
    and "se_selected (ns_world (fst s)) = Some ws"
  shows "let s' = finish_submit height s
         in ns_draft (fst s') = empty_draft \<and> cp_value (snd s') = [] \<and> cp_pickers (snd s') = cp_pickers (snd s) \<and>
            ns_permission (fst s') = ns_permission (fst s) \<and> ns_agent_picker (fst s') = ns_agent_picker (fst s)"
proof -
  have "draft_of (Some ws) (clear_draft (Some ws) m) = empty_draft" for m
    by (cases "im_storage m") (simp_all add: get_draft_def clear_draft_def load_other(3) load_draft_def [of _ None] stored_item_def Let_def)
  moreover have "cc_draft (composition_of (JObj empty_draft)) = []" by (simp add: composition_of_def empty_draft_def str_field_def string_value_def)
  ultimately show ?thesis using assms
    by (simp add: finish_submit_def refresh_input_def submit_succeeds_def ns_env_def ns_draft_def Let_def)
qed

theorem submission_creates_the_draft_witness:
  "let sw = (new_session_world (new_layout None) None)\<lparr>se_selected := Some ''w'',
         se_workspaces := [\<lparr>wk_id = ''w'', wk_name = ''w'', wk_desired = ''running'', wk_observed = ''running'', wk_agent_host = ''online'', wk_build = []\<rparr>]\<rparr>;
       w = (bare_session sw (new_management False) [] [] [] None)
         \<lparr>ns_input := update_draft (Some ''w'') (change_fields (no_changes\<lparr>ch_draft := Some ''hi''\<rparr>)) (new_input_model None)\<rparr>;
       w' = fst (begin_submit (\<lambda>t. 0) (w, new_composer (\<lambda>t. 0) (ns_env w)))
   in \<exists>t c. om_get (se_tasks (ns_world w')) 0 = Some t \<and> creates_session ''w'' c t \<and> cc_draft c = ''hi''"
proof -
  define sw where "sw = (new_session_world (new_layout None) None)\<lparr>se_selected := Some ''w'',
      se_workspaces := [\<lparr>wk_id = ''w'', wk_name = ''w'', wk_desired = ''running'', wk_observed = ''running'', wk_agent_host = ''online'', wk_build = []\<rparr>]\<rparr>"
  define m where "m = update_draft (Some ''w'') (change_fields (no_changes\<lparr>ch_draft := Some ''hi''\<rparr>)) (new_input_model None)"
  define w where "w = (bare_session sw (new_management False) [] [] [] None)\<lparr>ns_input := m\<rparr>"
  define c where "c = composition_of (JObj (ns_draft w))"
  have h: "foreign_items None" "list_all storable_changes [ImUpdate (Some ''w'') (no_changes\<lparr>ch_draft := Some ''hi''\<rparr>)]"
    by (simp_all add: foreign_items_def storable_changes_def no_changes_def)
  have i: "ns_input w = fold apply_input [ImUpdate (Some ''w'') (no_changes\<lparr>ch_draft := Some ''hi''\<rparr>)] (new_input_model None)"
    by (simp add: w_def m_def)
  have s: "se_selected (ns_world w) = Some ''w''" "''w'' \<noteq> []" "\<not> ns_submitting w" "se_next (ns_world w) = 0"
    by (simp_all add: w_def sw_def new_session_world_def)
  have r: "is_workspace_running (ns_selected w)"
    by (simp add: w_def sw_def workspace_with_def is_workspace_running_def)
  have "cc_draft c = ''hi''"
    unfolding c_def ns_draft_def s(1) by (simp add: w_def m_def draft_update composition_change) (simp add: spread_def or_else_def no_changes_def)
  with submission_creates_the_draft [OF h i s(1-3) r, of "\<lambda>t. 0" "new_composer (\<lambda>t. 0) (ns_env w)"]
  show ?thesis unfolding Let_def s(4) c_def [symmetric] sw_def [symmetric] m_def [symmetric] w_def [symmetric] by blast
qed

theorem failed_creation_keeps_the_draft_witness:
  "let sw = (new_session_world (new_layout None) None)\<lparr>se_outcomes := [(0, Inl ''offline'')]\<rparr>;
       w = (bare_session sw (new_management False) [] [] [] None)\<lparr>ns_submitting := True, ns_submitted := Some (''w'', Inr 0)\<rparr>
   in cp_notice (snd (finish_submit (\<lambda>t. 0) (w, new_composer (\<lambda>t. 0) (ns_env w)))) = Some (''error'', ''offline'')"
proof -
  define sw where "sw = (new_session_world (new_layout None) None)\<lparr>se_outcomes := [(0, Inl ''offline'')]\<rparr>"
  define w where "w = (bare_session sw (new_management False) [] [] [] None)\<lparr>ns_submitting := True, ns_submitted := Some (''w'', Inr 0)\<rparr>"
  have "ns_submitted (fst (w, new_composer (\<lambda>t. 0) (ns_env w))) = Some (''w'', Inr 0)"
    "task_outcome 0 (ns_world (fst (w, new_composer (\<lambda>t. 0) (ns_env w)))) = Some (Inl ''offline'')" "''offline'' \<noteq> []"
    by (simp_all add: w_def sw_def task_outcome_def)
  from failed_creation_keeps_the_draft [OF this, of "\<lambda>t. 0"] show ?thesis unfolding Let_def sw_def [symmetric] w_def [symmetric] by blast
qed

theorem created_session_leaves_pickers_witness:
  "let sw = (new_session_world (new_layout None) None)\<lparr>se_selected := Some ''w'', se_outcomes := [(0, Inr VUnit)]\<rparr>;
       w = show_draft ((bare_session sw (new_management False) [] [] [] None)
         \<lparr>ns_submitting := True, ns_submitted := Some (''w'', Inr 0),
          ns_input := update_draft (Some ''w'') (change_fields (permission_change ''allow'')) (new_input_model None)\<rparr>);
       w' = fst (finish_submit (\<lambda>t. 0) (w, new_composer (\<lambda>t. 0) (ns_env w)))
   in pk_value (ns_permission w') = Some ''allow'' \<and> cc_approval (composition_of (JObj (ns_draft w'))) = AskMode"
proof -
  define sw where "sw = (new_session_world (new_layout None) None)\<lparr>se_selected := Some ''w'', se_outcomes := [(0, Inr VUnit)]\<rparr>"
  define m where "m = update_draft (Some ''w'') (change_fields (permission_change ''allow'')) (new_input_model None)"
  define v where "v = (bare_session sw (new_management False) [] [] [] None)\<lparr>ns_submitting := True, ns_submitted := Some (''w'', Inr 0), ns_input := m\<rparr>"
  define w where "w = show_draft v"
  define s where "s = (w, new_composer (\<lambda>t. 0) (ns_env w))"
  have "cc_approval (composition_of (JObj (draft_of (Some ''w'') m))) = AllowMode"
    unfolding m_def draft_update composition_change by (simp add: permission_change_def spread_def or_else_def no_changes_def restored_approval_def)
  then have p: "pk_value (ns_permission w) = Some ''allow''"
    by (simp add: w_def v_def show_draft_def ns_draft_def sw_def new_picker_def update_selection_def Let_def)
  have "ns_submitted (fst s) = Some (''w'', Inr 0)" "task_outcome 0 (ns_world (fst s)) = Some (Inr VUnit)" "se_selected (ns_world (fst s)) = Some ''w''"
    by (simp_all add: s_def w_def v_def sw_def show_draft_def task_outcome_def Let_def)
  from created_session_leaves_pickers [OF this, of "\<lambda>t. 0"]
  have d: "ns_draft (fst (finish_submit (\<lambda>t. 0) s)) = empty_draft" "ns_permission (fst (finish_submit (\<lambda>t. 0) s)) = ns_permission w"
    by (simp_all add: Let_def s_def)
  have "cc_approval (composition_of (JObj empty_draft)) = AskMode" by (simp add: composition_of_def empty_draft_def restored_approval_def)
  with d p show ?thesis unfolding Let_def sw_def [symmetric] m_def [symmetric] v_def [symmetric] w_def [symmetric] s_def [symmetric] by simp
qed

end
