(* ===== verification/SessionPane.thy ===== *)
theory SessionPane
  imports NewSession
begin

text \<open>
  \<open>packages/workbench/src/contrib/sessions/session-pane.ts\<close> and the parts of
  \<open>active-session-view.ts\<close> that \<open>Transcript\<close> leaves open: the pane that keeps a view per opened
  session and shows the one of the active session, or the view of a new session, and the view's
  composer, name, context line and focus.

  Of a view's conversation the model keeps the events it was last given; \<open>Transcript\<close> renders them.
  Focusable elements are numbered within their view.  Hiding an element takes the focus away, as
  browsers do.  The optional services are present.
\<close>

section \<open>What the view of a session offers its composer\<close>

record active_world =
  aw_world :: session_world
  aw_management :: management
  aw_descriptors :: "(string \<times> string \<times> string \<times> string) list"

definition turn_runs :: "session_identity \<Rightarrow> session_world \<Rightarrow> bool" where
  "turn_runs i w \<longleftrightarrow> (case cs_active_turn i (se_chat w) of None \<Rightarrow> False | Some t \<Rightarrow> t \<noteq> [])"

definition av_env :: "session_identity \<Rightarrow> active_world \<Rightarrow> composer_env" where
  "av_env i w =
     \<lparr>en_composition = snd (cs_composition i (se_chat (aw_world w))),
      en_disabled = (\<not> turn_runs i (aw_world w) \<and> \<not> running (si_workspace i) (aw_world w)),
      en_models = offered_models (aw_management w), en_models_state = mg_models_state (aw_management w),
      en_placeholder = (if running (si_workspace i) (aw_world w) then ''Message the agent''
        else ''Workspace must be running to send messages''),
      en_notice = None, en_working = turn_runs i (aw_world w), en_cancels = True, en_actions = aw_descriptors w\<rparr>"

definition update_chat :: "session_identity \<Rightarrow> composition_changes \<Rightarrow> active_world \<Rightarrow> active_world" where
  "update_chat i ch w = w\<lparr>aw_world := (aw_world w)\<lparr>se_chat := fst (cs_update i ch (se_chat (aw_world w)))\<rparr>\<rparr>"

definition av_host :: "(string \<Rightarrow> nat) \<Rightarrow> session_identity \<Rightarrow> active_world composer_host" where
  "av_host height i = \<lparr>ho_env = av_env i, ho_change = update_chat i, ho_refreshes = True, ho_height = height\<rparr>"

lemma turn_after_update: "turn_runs i (w\<lparr>se_chat := fst (cs_update j ch (se_chat w))\<rparr>) = turn_runs i w"
  by (simp add: turn_runs_def cs_update_def cs_composition_def cs_active_turn_def cs_persist_def Let_def split: option.split)

lemma running_cong: "se_workspaces w' = se_workspaces w \<Longrightarrow> running ws w' = running ws w"
  by (simp add: running_def)

interpretation active_session_owner: composer_owner "av_host height i" for height i
proof
  fix ch w
  have "running (si_workspace i) (w'\<lparr>se_chat := c\<rparr>) = running (si_workspace i) w'" for w' c by (rule running_cong) simp
  then show "ho_env (av_host height i) (ho_change (av_host height i) ch w) =
      ho_env (av_host height i) w\<lparr>en_composition := spread (en_composition (ho_env (av_host height i) w)) ch\<rparr>"
    by (simp add: av_host_def av_env_def update_chat_def composition_after_update turn_after_update)
qed

text \<open>What is executed when the composer submits.\<close>

definition submit_command :: "session_identity \<Rightarrow> session_world \<Rightarrow> string" where
  "submit_command i w = (if turn_runs i w then ''zaw.session.cancel'' else ''zaw.session.send'')"

section \<open>The view of a session\<close>

record active_view =
  av_identity :: session_identity
  av_composer :: composer
  av_events :: "chat_event list"
  av_label :: string
  av_permission :: picker
  av_context :: "(string \<times> string) list"
  av_hidden :: bool
  av_last_focus :: "nat option"

definition session_label :: "session_identity \<Rightarrow> session_world \<Rightarrow> string" where
  "session_label i w = or_else (om_get (sc_titles (se_catalog w)) (session_identity_key i)) ''Session''"

text \<open>\<open>refresh\<close>: the conversation and its lanes take the events, then the composer and the name follow.\<close>

definition refresh_session :: "(string \<Rightarrow> nat) \<Rightarrow> active_world \<Rightarrow> active_view \<Rightarrow> active_view" where
  "refresh_session height w v =
     v\<lparr>av_events := cs_events (av_identity v) (se_chat (aw_world w)),
       av_composer := refresh_composer height (av_env (av_identity v) w) (av_composer v),
       av_label := session_label (av_identity v) (aw_world w)\<rparr>"

text \<open>The line under the composer is built once.\<close>

definition context_line :: "session_identity \<Rightarrow> (string, json) omap \<Rightarrow> active_world \<Rightarrow> (string \<times> string) list" where
  "context_line i ps w =
     (let ws = find (\<lambda>x. wk_id x = si_workspace i) (se_workspaces (aw_world w))
      in [(''folder'', case ws of None \<Rightarrow> si_workspace i | Some x \<Rightarrow> wk_name x),
          (if (case ws of None \<Rightarrow> False | Some x \<Rightarrow> wk_agent_host x = ''online'') then ''workspace-trusted'' else ''workspace-untrusted'',
           ''Agent host '' @ (case ws of None \<Rightarrow> ''offline'' | Some x \<Rightarrow> if wk_agent_host x = [] then ''offline'' else wk_agent_host x))] @
         source_status (case ws of None \<Rightarrow> JUndef | Some x \<Rightarrow> or_else (om_get ps (wk_id x)) JUndef))"

definition new_active_view ::
  "(string \<Rightarrow> nat) \<Rightarrow> (string, json) omap \<Rightarrow> session_identity \<Rightarrow> active_world \<Rightarrow> active_view" where
  "new_active_view height ps i w =
     refresh_session height w
       \<lparr>av_identity = i, av_composer = new_composer height (av_env i w), av_events = [], av_label = [],
        av_permission = new_picker ''Permission level'' permission_items
          (Some (approval_text (cc_approval (snd (cs_composition i (se_chat (aw_world w))))))) False,
        av_context = context_line i ps w, av_hidden = False, av_last_focus = None\<rparr>"

section \<open>The pane\<close>

text \<open>The focus and the animation frames that were asked for name a view by its key and its element.\<close>

record session_pane =
  sp_world :: active_world
  sp_parameters :: "(string, json) omap"
  sp_new :: "bool option"
  sp_views :: "(string, active_view) omap"
  sp_focus :: "(string \<times> nat) option"
  sp_frames :: "(string \<times> nat) list"

definition hide_view :: "(string \<times> nat) option \<Rightarrow> string \<Rightarrow> active_view \<Rightarrow> active_view" where
  "hide_view focus key v =
     v\<lparr>av_last_focus := (case focus of None \<Rightarrow> av_last_focus v | Some (k, e) \<Rightarrow> if k = key then Some e else av_last_focus v),
       av_hidden := True\<rparr>"

definition reveal_view :: "string \<Rightarrow> session_pane \<Rightarrow> session_pane" where
  "reveal_view key s =
     (case om_get (sp_views s) key of
        None \<Rightarrow> s
      | Some v \<Rightarrow>
          s\<lparr>sp_views := om_set key (v\<lparr>av_hidden := False\<rparr>) (sp_views s),
            sp_frames := sp_frames s @ (case av_last_focus v of None \<Rightarrow> [] | Some e \<Rightarrow> [(key, e)])\<rparr>)"

definition hide_all :: "session_pane \<Rightarrow> session_pane" where
  "hide_all s =
     s\<lparr>sp_views := map (\<lambda>(k, v). (k, hide_view (sp_focus s) k v)) (sp_views s), sp_focus := None,
       sp_new := map_option (\<lambda>h. True) (sp_new s)\<rparr>"

definition show_current :: "(string \<Rightarrow> nat) \<Rightarrow> session_pane \<Rightarrow> session_pane" where
  "show_current height s =
     (let s1 = hide_all s
      in case active_of (aw_world (sp_world s)) of
           None \<Rightarrow> s1\<lparr>sp_new := Some False\<rparr>
         | Some i \<Rightarrow>
             (let key = session_identity_key i;
                  s2 = (if om_has (sp_views s1) key then s1
                        else s1\<lparr>sp_views := om_set key (new_active_view height (sp_parameters s) i (sp_world s)) (sp_views s1)\<rparr>)
              in reveal_view key s2))"

definition new_session_pane :: "(string \<Rightarrow> nat) \<Rightarrow> active_world \<Rightarrow> (string, json) omap \<Rightarrow> session_pane" where
  "new_session_pane height w ps =
     show_current height \<lparr>sp_world = w, sp_parameters = ps, sp_new = None, sp_views = [], sp_focus = None, sp_frames = []\<rparr>"

definition map_views :: "(active_view \<Rightarrow> active_view) \<Rightarrow> session_pane \<Rightarrow> session_pane" where
  "map_views f s = s\<lparr>sp_views := map (\<lambda>(k, v). (k, f v)) (sp_views s)\<rparr>"

text \<open>
  A step of the session services and what the views hear of it: the chat's events refresh the view of
  their session, the catalog's the names, the workspace service's every composer, and the active
  session's make the pane show its view.
\<close>

definition hear_chat :: "(string \<Rightarrow> nat) \<Rightarrow> session_identity list \<Rightarrow> session_pane \<Rightarrow> session_pane" where
  "hear_chat height es s =
     map_views (\<lambda>v. if av_identity v \<in> set es then refresh_session height (sp_world s) v else v) s"

definition hear_workspaces :: "(string \<Rightarrow> nat) \<Rightarrow> session_pane \<Rightarrow> session_pane" where
  "hear_workspaces height s =
     map_views (\<lambda>v. v\<lparr>av_composer := refresh_composer height (av_env (av_identity v) (sp_world s))
       (refresh_pickers (av_env (av_identity v) (sp_world s)) (av_composer v))\<rparr>) s"

definition hear_catalog :: "session_pane \<Rightarrow> session_pane" where
  "hear_catalog s = map_views (\<lambda>v. v\<lparr>av_label := session_label (av_identity v) (aw_world (sp_world s))\<rparr>) s"

text \<open>Also of the agents: the composers make their pickers anew.\<close>

definition hear_management :: "session_pane \<Rightarrow> session_pane" where
  "hear_management s =
     map_views (\<lambda>v. v\<lparr>av_composer := refresh_pickers (av_env (av_identity v) (sp_world s)) (av_composer v)\<rparr>) s"

definition hear_services :: "(string \<Rightarrow> nat) \<Rightarrow> session_world \<Rightarrow> session_pane \<Rightarrow> session_pane" where
  "hear_services height w s =
     (let w' = aw_world (sp_world s);
          s2 = hear_chat height (drop (length (cs_fired (se_chat w))) (cs_fired (se_chat w'))) s;
          s3 = (if sc_fires (se_catalog w') = sc_fires (se_catalog w) then s2 else hear_catalog s2)
      in if se_changes w' = se_changes w then s3 else hear_workspaces height s3)"

definition pane_step :: "(string \<Rightarrow> nat) \<Rightarrow> (session_world \<Rightarrow> session_world) \<Rightarrow> session_pane \<Rightarrow> session_pane" where
  "pane_step height f s =
     (let w = aw_world (sp_world s); w' = f w;
          s' = hear_services height w (s\<lparr>sp_world := (sp_world s)\<lparr>aw_world := w'\<rparr>\<rparr>)
      in if as_fired (nw_active (se_nav w')) = as_fired (nw_active (se_nav w)) then s' else show_current height s')"

text \<open>
  What the user does in a view, which must be shown for it, and what its composer does by itself: the
  changes of the composition are the chat's, and a submission runs the command.
\<close>

definition pane_composer ::
  "(string \<Rightarrow> nat) \<Rightarrow> string \<Rightarrow> active_world composer_op \<Rightarrow> session_pane \<Rightarrow> session_pane" where
  "pane_composer height key e s =
     (case om_get (sp_views s) key of
        None \<Rightarrow> s
      | Some v \<Rightarrow>
          (let i = av_identity v; r = apply_composer (av_host height i) True e (sp_world s, av_composer v);
               s1 = s\<lparr>sp_world := fst r, sp_views := om_set key (v\<lparr>av_composer := snd r\<rparr>) (sp_views s)\<rparr>
           in if cp_submits (snd r) = cp_submits (av_composer v) then s1
              else pane_step height (\<lambda>w. fst (execute_command (submit_command i w) [] session_registry w)) s1))"

definition pane_permission :: "(string \<Rightarrow> nat) \<Rightarrow> string \<Rightarrow> nat \<Rightarrow> session_pane \<Rightarrow> session_pane" where
  "pane_permission height key k s =
     (case om_get (sp_views s) key of
        None \<Rightarrow> s
      | Some v \<Rightarrow>
          (case pick_item k (av_permission v) of
             (p, None) \<Rightarrow> s
           | (p, Some x) \<Rightarrow>
               pane_step height (\<lambda>w. w\<lparr>se_chat := fst (cs_update (av_identity v) (permission_change (mi_value x)) (se_chat w))\<rparr>)
                 (s\<lparr>sp_views := om_set key (v\<lparr>av_permission := p\<rparr>) (sp_views s)\<rparr>)))"

definition pane_frame :: "(nat \<Rightarrow> bool) \<Rightarrow> session_pane \<Rightarrow> session_pane" where
  "pane_frame is_connected s =
     (case sp_frames s of
        [] \<Rightarrow> s
      | (key, e) # fs \<Rightarrow>
          (let s1 = s\<lparr>sp_frames := fs\<rparr>
           in case om_get (sp_views s) key of
                None \<Rightarrow> s1
              | Some v \<Rightarrow> if \<not> av_hidden v \<and> is_connected e then s1\<lparr>sp_focus := Some (key, e)\<rparr> else s1))"

definition pane_focus :: "string \<Rightarrow> nat \<Rightarrow> session_pane \<Rightarrow> session_pane" where
  "pane_focus key e s =
     (case om_get (sp_views s) key of
        None \<Rightarrow> s
      | Some v \<Rightarrow> if av_hidden v then s else s\<lparr>sp_focus := Some (key, e)\<rparr>)"

definition pane_visible :: "string \<Rightarrow> session_pane \<Rightarrow> bool" where
  "pane_visible key s \<longleftrightarrow> (case om_get (sp_views s) key of None \<Rightarrow> False | Some v \<Rightarrow> \<not> av_hidden v)"

datatype pane_op =
    SpUser string "active_world composer_op"
  | SpMicrotask string
  | SpRead string nat
  | SpPermission string nat
  | SpWorld session_step
  | SpManagement management
  | SpFocus string nat
  | SpBlur
  | SpFrame "nat \<Rightarrow> bool"

fun owner_step :: "active_world composer_op \<Rightarrow> bool" where
  "owner_step (CoOwner w) = True"
| "owner_step e = False"

fun apply_pane ::
  "(string \<Rightarrow> string option \<Rightarrow> string option) \<Rightarrow> (string \<Rightarrow> nat) \<Rightarrow> pane_op \<Rightarrow> session_pane \<Rightarrow> session_pane" where
  "apply_pane uri height (SpUser key e) s = (if pane_visible key s \<and> \<not> owner_step e then pane_composer height key e s else s)"
| "apply_pane uri height (SpMicrotask key) s = pane_composer height key CoMicrotask s"
| "apply_pane uri height (SpRead key n) s = pane_composer height key (CoRead n) s"
| "apply_pane uri height (SpPermission key k) s = (if pane_visible key s then pane_permission height key k s else s)"
| "apply_pane uri height (SpWorld e) s = pane_step height (apply_session uri e) s"
| "apply_pane uri height (SpManagement g) s = hear_management (s\<lparr>sp_world := (sp_world s)\<lparr>aw_management := g\<rparr>\<rparr>)"
| "apply_pane uri height (SpFocus key e) s = pane_focus key e s"
| "apply_pane uri height SpBlur s = s\<lparr>sp_focus := None\<rparr>"
| "apply_pane uri height (SpFrame is_connected) s = pane_frame is_connected s"

section \<open>Every view shows its session\<close>

definition shows_session :: "(string \<Rightarrow> nat) \<Rightarrow> active_world \<Rightarrow> active_view \<Rightarrow> bool" where
  "shows_session height w v \<longleftrightarrow>
     composer_inv (av_host height (av_identity v)) (w, av_composer v) \<and>
     av_events v = cs_events (av_identity v) (se_chat (aw_world w)) \<and> av_label v = session_label (av_identity v) (aw_world w)"

lemma av_host_fields [simp]:
  "ho_env (av_host height i) = av_env i" "ho_change (av_host height i) = update_chat i" "ho_refreshes (av_host height i)"
  "ho_height (av_host height i) = height"
  by (simp_all add: av_host_def)

lemma shown_corrections: "shows_session height w v \<Longrightarrow> corrections_only (av_composer v)"
  by (simp add: shows_session_def composer_inv_def)

lemma refresh_session_fields [simp]:
  "av_identity (refresh_session height w v) = av_identity v" "av_hidden (refresh_session height w v) = av_hidden v"
  "av_permission (refresh_session height w v) = av_permission v" "av_last_focus (refresh_session height w v) = av_last_focus v"
  by (simp_all add: refresh_session_def)

lemma refreshed_shows: "corrections_only (av_composer v) \<Longrightarrow> shows_session height w (refresh_session height w v)"
  by (simp add: shows_session_def refresh_session_def composer_inv_def refresh_shows corrections_only_def)

lemma new_view_shows: "shows_session height w (new_active_view height ps i w)"
  unfolding new_active_view_def
  by (rule refreshed_shows) (simp add: new_composer_def Let_def corrections_only_def refresh_pickers_def no_changes_def)

lemma av_env_cong:
  assumes "chat_same i (se_chat (aw_world w)) (se_chat (aw_world w'))" and "se_workspaces (aw_world w') = se_workspaces (aw_world w)"
    and "aw_management w' = aw_management w" and "aw_descriptors w' = aw_descriptors w"
  shows "av_env i w' = av_env i w"
  using assms running_cong [OF assms(2)] by (simp add: av_env_def turn_runs_def chat_same_def)

text \<open>What a step makes of a view, listener by listener.\<close>

definition heard_view :: "(string \<Rightarrow> nat) \<Rightarrow> session_world \<Rightarrow> active_world \<Rightarrow> active_view \<Rightarrow> active_view" where
  "heard_view height u w v =
     (let es = drop (length (cs_fired (se_chat u))) (cs_fired (se_chat (aw_world w)));
          v2 = (if av_identity v \<in> set es then refresh_session height w v else v);
          v3 = (if sc_fires (se_catalog (aw_world w)) = sc_fires (se_catalog u) then v2
                else v2\<lparr>av_label := session_label (av_identity v2) (aw_world w)\<rparr>)
      in if se_changes (aw_world w) = se_changes u then v3
         else v3\<lparr>av_composer := refresh_composer height (av_env (av_identity v3) w) (refresh_pickers (av_env (av_identity v3) w) (av_composer v3))\<rparr>)"

lemma heard_fields [simp]:
  "av_identity (heard_view height u w v) = av_identity v" "av_hidden (heard_view height u w v) = av_hidden v"
  "av_permission (heard_view height u w v) = av_permission v" "av_last_focus (heard_view height u w v) = av_last_focus v"
  by (simp_all add: heard_view_def Let_def)

lemma map_views_views [simp]:
  "sp_views (map_views f s) = map (\<lambda>(k, v). (k, f v)) (sp_views s)" "sp_world (map_views f s) = sp_world s"
  "sp_new (map_views f s) = sp_new s" "sp_focus (map_views f s) = sp_focus s" "sp_frames (map_views f s) = sp_frames s"
  "sp_parameters (map_views f s) = sp_parameters s"
  by (simp_all add: map_views_def)

lemma map_views_map_views: "map_views f (map_views g s) = map_views (\<lambda>v. f (g v)) s"
  by (simp add: map_views_def comp_def case_prod_unfold)

lemma hear_services_eq: "hear_services height u s = map_views (heard_view height u (sp_world s)) s"
proof -
  have v: "map_views f t = map_views g t" if "\<And>v. f v = g v" for f g t using that by presburger
  show ?thesis
    unfolding hear_services_def Let_def hear_chat_def hear_catalog_def hear_workspaces_def map_views_views
    by (auto simp: map_views_map_views heard_view_def Let_def intro!: v)
qed

lemma heard_shows:
  assumes v: "shows_session height x v" and a: "announced (aw_world x) (aw_world w)"
    and "aw_management w = aw_management x" and "aw_descriptors w = aw_descriptors x"
  shows "shows_session height w (heard_view height (aw_world x) w v)"
proof -
  define es where "es = drop (length (cs_fired (se_chat (aw_world x)))) (cs_fired (se_chat (aw_world w)))"
  have same: "chat_same i (se_chat (aw_world x)) (se_chat (aw_world w))" if "i \<notin> set es" for i
    using a that by (auto simp: announced_def chat_announced_def es_def)
  have c: "corrections_only (av_composer v)" by (rule shown_corrections [OF v])
  define v2 where "v2 = (if av_identity v \<in> set es then refresh_session height w v else v)"
  have i: "av_identity v2 = av_identity v" by (simp add: v2_def)
  have ev: "av_events v2 = cs_events (av_identity v) (se_chat (aw_world w))"
    using same [of "av_identity v"] v by (auto simp: v2_def refresh_session_def shows_session_def chat_same_def)
  have la: "sc_fires (se_catalog (aw_world w)) = sc_fires (se_catalog (aw_world x)) \<Longrightarrow> av_label v2 = session_label (av_identity v) (aw_world w)"
    using a v by (auto simp: v2_def refresh_session_def shows_session_def announced_def catalog_announced_def session_label_def)
  have co: "corrections_only (av_composer v2)" using c by (simp add: v2_def refresh_session_def corrections_only_def)
  have sh: "composer_shows (av_env (av_identity v) w) (av_composer v2)" if "se_changes (aw_world w) = se_changes (aw_world x)"
  proof (cases "av_identity v \<in> set es")
    case False
    have "se_workspaces (aw_world w) = se_workspaces (aw_world x)" using a that by (simp add: announced_def workspaces_announced_def)
    from av_env_cong [OF same [OF False] this] assms(3,4) show ?thesis using v False by (simp add: v2_def shows_session_def composer_inv_def)
  qed (simp add: v2_def refresh_session_def refresh_shows)
  have "corrections_only (refresh_pickers e (av_composer v2))" for e
    using co by (simp add: corrections_only_def refresh_pickers_def no_changes_def)
  then show ?thesis using ev la co sh
    by (simp add: heard_view_def Let_def es_def [symmetric] v2_def [symmetric] shows_session_def composer_inv_def i refresh_shows)
      (simp add: corrections_only_def)
qed

section \<open>The pane shows the active session\<close>

definition views_ok :: "(string \<Rightarrow> nat) \<Rightarrow> active_world \<Rightarrow> (string, active_view) omap \<Rightarrow> bool" where
  "views_ok height w vs \<longleftrightarrow>
     (\<forall>k v. om_get vs k = Some v \<longrightarrow> k = session_identity_key (av_identity v) \<and> shows_session height w v)"

definition shown_key :: "session_pane \<Rightarrow> string option" where
  "shown_key s = map_option session_identity_key (active_of (aw_world (sp_world s)))"

definition visibility_ok :: "session_pane \<Rightarrow> bool" where
  "visibility_ok s \<longleftrightarrow>
     (\<forall>k. pane_visible k s \<longleftrightarrow> shown_key s = Some k) \<and> (sp_new s = Some False \<longleftrightarrow> shown_key s = None)"

definition pane_inv :: "(string \<Rightarrow> nat) \<Rightarrow> session_pane \<Rightarrow> bool" where
  "pane_inv height s \<longleftrightarrow> views_ok height (sp_world s) (sp_views s) \<and> visibility_ok s"

lemma om_get_map: "om_get (map (\<lambda>(k, v). (k, f k v)) xs) k = map_option (f k) (om_get xs k)"
  by (induction xs) auto

lemma shows_flags:
  "shows_session height w (v\<lparr>av_hidden := h\<rparr>) = shows_session height w v"
  "shows_session height w (hide_view f k v) = shows_session height w v"
  "shows_session height w (v\<lparr>av_permission := p\<rparr>) = shows_session height w v"
  by (simp_all add: shows_session_def hide_view_def)

lemma hide_fields [simp]: "av_identity (hide_view f k v) = av_identity v" "av_hidden (hide_view f k v)"
  "av_permission (hide_view f k v) = av_permission v" "av_composer (hide_view f k v) = av_composer v"
  by (simp_all add: hide_view_def)

lemma hide_all_fields [simp]:
  "sp_world (hide_all s) = sp_world s" "om_get (sp_views (hide_all s)) k = map_option (hide_view (sp_focus s) k) (om_get (sp_views s) k)"
  "sp_new (hide_all s) = map_option (\<lambda>h. True) (sp_new s)" "sp_focus (hide_all s) = None" "sp_frames (hide_all s) = sp_frames s"
  by (simp_all add: hide_all_def om_get_map)

lemma reveal_fields [simp]:
  "sp_world (reveal_view k s) = sp_world s" "sp_new (reveal_view k s) = sp_new s" "sp_focus (reveal_view k s) = sp_focus s"
  "om_get (sp_views (reveal_view k s)) j = (if j = k then map_option (\<lambda>v. v\<lparr>av_hidden := False\<rparr>) (om_get (sp_views s) k) else om_get (sp_views s) j)"
  by (auto simp: reveal_view_def split: option.split)

lemma show_current_world [simp]: "sp_world (show_current height s) = sp_world s"
  by (simp add: show_current_def Let_def split: option.split)

lemma show_current_views:
  "om_get (sp_views (show_current height s)) k =
     (case active_of (aw_world (sp_world s)) of
        None \<Rightarrow> map_option (hide_view (sp_focus s) k) (om_get (sp_views s) k)
      | Some i \<Rightarrow>
          if k = session_identity_key i
          then (case om_get (sp_views s) k of
                  None \<Rightarrow> Some ((new_active_view height (sp_parameters s) i (sp_world s))\<lparr>av_hidden := False\<rparr>)
                | Some v \<Rightarrow> Some ((hide_view (sp_focus s) k v)\<lparr>av_hidden := False\<rparr>))
          else map_option (hide_view (sp_focus s) k) (om_get (sp_views s) k))"
  by (auto simp: show_current_def Let_def om_has_def split: option.split)

lemma show_current_inv:
  assumes "views_ok height (sp_world s) (sp_views s)"
  shows "pane_inv height (show_current height s)"
proof -
  have i: "av_identity (new_active_view height ps i w) = i" for ps i w by (simp add: new_active_view_def)
  have "av_identity v = j" if "om_get (sp_views s) (session_identity_key j) = Some v" for j v
    using assms that unfolding views_ok_def by (metis key_eq)
  then have "views_ok height (sp_world s) (sp_views (show_current height s))"
    using assms by (auto simp: views_ok_def show_current_views shows_flags new_view_shows i split: option.splits if_splits)
  moreover have "visibility_ok (show_current height s)"
  proof -
    have "pane_visible k (show_current height s) \<longleftrightarrow> shown_key (show_current height s) = Some k" for k
      by (auto simp: pane_visible_def show_current_views shown_key_def split: option.splits)
    moreover have "sp_new (show_current height s) = Some False \<longleftrightarrow> shown_key (show_current height s) = None"
      by (auto simp: show_current_def shown_key_def Let_def split: option.split)
    ultimately show ?thesis by (simp add: visibility_ok_def)
  qed
  ultimately show ?thesis by (simp add: pane_inv_def)
qed

lemma map_views_get [simp]: "om_get (map (\<lambda>(k, v). (k, f v)) xs) k = map_option f (om_get xs k)"
  by (rule om_get_map)

lemma visibility_keep:
  assumes "visibility_ok s" and "\<And>k. pane_visible k s' = pane_visible k s" and "sp_new s' = sp_new s"
    and "active_of (aw_world (sp_world s')) = active_of (aw_world (sp_world s))"
  shows "visibility_ok s'"
  using assms by (simp add: visibility_ok_def shown_key_def)

lemma pane_step_inv:
  assumes s: "pane_inv height s" and a: "announced (aw_world (sp_world s)) (f (aw_world (sp_world s)))"
  shows "pane_inv height (pane_step height f s)"
proof -
  define u where "u = aw_world (sp_world s)"
  define w where "w = (sp_world s)\<lparr>aw_world := f u\<rparr>"
  define s' where "s' = map_views (heard_view height u w) (s\<lparr>sp_world := w\<rparr>)"
  have p: "pane_step height f s = (if as_fired (nw_active (se_nav (f u))) = as_fired (nw_active (se_nav u)) then s' else show_current height s')"
    by (simp add: pane_step_def hear_services_eq Let_def s'_def u_def w_def)
  have "shows_session height w (heard_view height u w v)" if "om_get (sp_views s) k = Some v" for k v
    using heard_shows [of height "sp_world s" v w] s a that by (simp add: pane_inv_def views_ok_def u_def w_def)
  then have v: "views_ok height w (sp_views s')"
    using s by (auto simp: views_ok_def s'_def pane_inv_def)
  show ?thesis
  proof (cases "as_fired (nw_active (se_nav (f u))) = as_fired (nw_active (se_nav u))")
    case True
    have "active_of (f u) = active_of u" using a True by (auto simp: announced_def active_announced_def u_def)
    then have "visibility_ok s'" using s unfolding pane_inv_def
      by (intro visibility_keep [of s s']) (auto simp: s'_def pane_visible_def u_def w_def split: option.split)
    then show ?thesis using v True by (simp add: p pane_inv_def) (simp add: s'_def)
  next
    case False
    have "views_ok height (sp_world s') (sp_views s')" using v by (simp add: s'_def)
    from show_current_inv [OF this] show ?thesis using False by (simp add: p)
  qed
qed

text \<open>The composer of a view changes nothing but the composition of its session.\<close>

definition only_composition :: "session_identity \<Rightarrow> active_world \<Rightarrow> active_world \<Rightarrow> bool" where
  "only_composition i w0 w \<longleftrightarrow>
     (\<exists>c. w = w0\<lparr>aw_world := (aw_world w0)\<lparr>se_chat := c\<rparr>\<rparr> \<and> cs_messages c = cs_messages (se_chat (aw_world w0)) \<and>
          (\<forall>j. j \<noteq> i \<longrightarrow> chat_same j (se_chat (aw_world w0)) c))"

lemma update_same: "j \<noteq> i \<Longrightarrow> chat_same j c (fst (cs_update i ch c))"
proof -
  have "cs_fired (fst (cs_update i ch c)) = cs_fired c @ [i]"
    by (simp add: cs_update_def cs_composition_def cs_persist_def Let_def split: option.split)
  then show "j \<noteq> i \<Longrightarrow> ?thesis" using chat_step_update [of c i ch] by (auto simp: chat_step_def)
qed

lemma update_messages [simp]: "cs_messages (fst (cs_update i ch c)) = cs_messages c"
  by (simp add: cs_update_def cs_composition_def cs_persist_def Let_def split: option.split)

lemma only_composition_update: "only_composition i w0 w \<Longrightarrow> only_composition i w0 (update_chat i ch w)"
proof -
  assume "only_composition i w0 w"
  then obtain c where w: "w = w0\<lparr>aw_world := (aw_world w0)\<lparr>se_chat := c\<rparr>\<rparr>" "cs_messages c = cs_messages (se_chat (aw_world w0))"
      "\<And>j. j \<noteq> i \<Longrightarrow> chat_same j (se_chat (aw_world w0)) c" by (auto simp: only_composition_def)
  have "j \<noteq> i \<Longrightarrow> chat_same j (se_chat (aw_world w0)) (fst (cs_update i ch c))" for j
    using w(3) update_same by (rule chat_same_trans)
  then show ?thesis using w unfolding only_composition_def
    by (intro exI [of _ "fst (cs_update i ch c)"]) (simp add: update_chat_def)
qed

lemma only_composition_refl: "only_composition i w w"
  unfolding only_composition_def by (intro exI [of _ "se_chat (aw_world w)"]) simp

lemma composed_world:
  assumes "\<not> owner_step e"
  shows "only_composition i w (fst (apply_composer (av_host height i) True e (w, c)))"
proof (rule step_keeps [where P = "only_composition i w"])
  show "e \<noteq> CoOwner x" for x using assms by auto
qed (simp_all add: only_composition_update only_composition_refl)

lemma other_view_shows:
  assumes v: "shows_session height w v" and o: "only_composition i w w'" and "av_identity v \<noteq> i"
  shows "shows_session height w' v"
proof -
  obtain c where w: "w' = w\<lparr>aw_world := (aw_world w)\<lparr>se_chat := c\<rparr>\<rparr>"
      and m: "cs_messages c = cs_messages (se_chat (aw_world w))"
      and c: "chat_same (av_identity v) (se_chat (aw_world w)) c"
    using o assms(3) by (auto simp: only_composition_def)
  have "av_env (av_identity v) w' = av_env (av_identity v) w" by (rule av_env_cong) (simp_all add: w c)
  then show ?thesis using v c by (simp add: shows_session_def composer_inv_def w session_label_def chat_same_def)
qed

lemma composed_inv:
  assumes s: "pane_inv height s" and e: "\<not> owner_step e" and v: "om_get (sp_views s) key = Some v"
  shows "let r = apply_composer (av_host height (av_identity v)) True e (sp_world s, av_composer v)
         in pane_inv height (s\<lparr>sp_world := fst r, sp_views := om_set key (v\<lparr>av_composer := snd r\<rparr>) (sp_views s)\<rparr>)"
proof -
  obtain w' c' where r: "apply_composer (av_host height (av_identity v)) True e (sp_world s, av_composer v) = (w', c')" by fastforce
  let ?i = "av_identity v"
  have ok: "key = session_identity_key ?i" "shows_session height (sp_world s) v"
    using s v by (auto simp: pane_inv_def views_ok_def)
  have o: "only_composition ?i (sp_world s) w'" using composed_world [OF e, of ?i "sp_world s" height "av_composer v"] by (simp add: r)
  then obtain c where w: "w' = (sp_world s)\<lparr>aw_world := (aw_world (sp_world s))\<lparr>se_chat := c\<rparr>\<rparr>"
      and m: "cs_messages c = cs_messages (se_chat (aw_world (sp_world s)))"
    by (auto simp: only_composition_def)
  have "composer_inv (av_host height ?i) (w', c')"
    using active_session_owner.step_inv [of height ?i "(sp_world s, av_composer v)" True e] ok(2) by (simp add: shows_session_def r)
  then have v': "shows_session height w' (v\<lparr>av_composer := c'\<rparr>)"
    using ok(2) by (simp add: shows_session_def w session_label_def cs_events_def m)
  let ?s = "s\<lparr>sp_world := w', sp_views := om_set key (v\<lparr>av_composer := c'\<rparr>) (sp_views s)\<rparr>"
  have "shows_session height w' x" if "om_get (sp_views s) k = Some x" "k \<noteq> key" for k x
  proof (rule other_view_shows [OF _ o])
    have k: "k = session_identity_key (av_identity x)" using s that(1) by (simp add: pane_inv_def views_ok_def)
    show "av_identity x \<noteq> ?i" using that(2) unfolding k ok(1) by simp
    show "shows_session height (sp_world s) x" using s that(1) by (simp add: pane_inv_def views_ok_def)
  qed
  then have "views_ok height w' (om_set key (v\<lparr>av_composer := c'\<rparr>) (sp_views s))"
    using v' ok(1) s by (auto simp: views_ok_def pane_inv_def split: if_splits)
  moreover have "visibility_ok ?s" using s unfolding pane_inv_def
    by (intro visibility_keep [of s ?s]) (auto simp: pane_visible_def w active_of_def v)
  ultimately show ?thesis by (simp add: pane_inv_def r)
qed

lemma pane_composer_inv: "pane_inv height s \<Longrightarrow> \<not> owner_step e \<Longrightarrow> pane_inv height (pane_composer height key e s)"
proof (cases "om_get (sp_views s) key")
  case (Some v)
  assume "pane_inv height s" and "\<not> owner_step e"
  from composed_inv [OF this Some] show ?thesis
    by (auto simp: pane_composer_def Some Let_def announced_command intro!: pane_step_inv)
qed (simp add: pane_composer_def)

lemma pane_permission_inv: "pane_inv height s \<Longrightarrow> pane_inv height (pane_permission height key k s)"
proof (cases "om_get (sp_views s) key")
  case (Some v)
  assume s: "pane_inv height s"
  have v: "key = session_identity_key (av_identity v)" "shows_session height (sp_world s) v"
    using s Some by (auto simp: pane_inv_def views_ok_def)
  have p: "pane_inv height (s\<lparr>sp_views := om_set key (v\<lparr>av_permission := p\<rparr>) (sp_views s)\<rparr>)" for p
  proof -
    have "views_ok height (sp_world s) (om_set key (v\<lparr>av_permission := p\<rparr>) (sp_views s))"
      using s v by (auto simp: views_ok_def pane_inv_def shows_flags split: if_splits)
    moreover have "visibility_ok (s\<lparr>sp_views := om_set key (v\<lparr>av_permission := p\<rparr>) (sp_views s)\<rparr>)"
      using s by (intro visibility_keep [of s "s\<lparr>sp_views := om_set key (v\<lparr>av_permission := p\<rparr>) (sp_views s)\<rparr>"])
        (auto simp: pane_visible_def Some pane_inv_def)
    ultimately show ?thesis by (simp add: pane_inv_def)
  qed
  have "pane_inv height (pane_step height (\<lambda>w. w\<lparr>se_chat := fst (cs_update (av_identity v) ch (se_chat w))\<rparr>)
      (s\<lparr>sp_views := om_set key (v\<lparr>av_permission := p\<rparr>) (sp_views s)\<rparr>))" for p ch
    by (rule pane_step_inv [OF p]) (rule announced_chat [OF chat_step_update])
  then show ?thesis using s by (simp add: pane_permission_def Some split: prod.split option.split)
qed (simp add: pane_permission_def)

lemma management_step_inv:
  assumes s: "pane_inv height s"
  shows "pane_inv height (hear_management (s\<lparr>sp_world := (sp_world s)\<lparr>aw_management := g\<rparr>\<rparr>))"
proof -
  let ?w = "(sp_world s)\<lparr>aw_management := g\<rparr>"
  let ?f = "\<lambda>v. v\<lparr>av_composer := refresh_pickers (av_env (av_identity v) ?w) (av_composer v)\<rparr>"
  have "shows_session height ?w (?f v)" if "shows_session height (sp_world s) v" for v
  proof -
    have e: "en_composition (av_env i ?w) = en_composition (av_env i (sp_world s))" "en_disabled (av_env i ?w) = en_disabled (av_env i (sp_world s))"
      "en_working (av_env i ?w) = en_working (av_env i (sp_world s))" "en_cancels (av_env i ?w) = en_cancels (av_env i (sp_world s))" for i
      by (simp_all add: av_env_def)
    have "composer_shows (av_env (av_identity v) (sp_world s)) (refresh_pickers (av_env (av_identity v) ?w) (av_composer v)) =
        composer_shows (av_env (av_identity v) (sp_world s)) (av_composer v)"
      by (rule shows_fields) (simp_all add: refresh_pickers_def)
    moreover have "corrections_only (refresh_pickers (av_env (av_identity v) ?w) (av_composer v))"
      using shown_corrections [OF that] by (simp add: corrections_only_def refresh_pickers_def no_changes_def)
    ultimately show ?thesis using that
      by (simp add: shows_session_def composer_inv_def composer_shows_def shows_input_def send_disabled_def e)
  qed
  then have "views_ok height ?w (sp_views (hear_management (s\<lparr>sp_world := ?w\<rparr>)))"
    using s by (auto simp: views_ok_def hear_management_def pane_inv_def)
  moreover have "visibility_ok (hear_management (s\<lparr>sp_world := ?w\<rparr>))"
  proof (rule visibility_keep [of s])
    show "visibility_ok s" using s by (simp add: pane_inv_def)
    show "pane_visible k (hear_management (s\<lparr>sp_world := ?w\<rparr>)) = pane_visible k s" for k
      by (cases "om_get (sp_views s) k") (simp_all add: hear_management_def pane_visible_def)
  qed (simp_all add: hear_management_def)
  ultimately show ?thesis by (simp add: pane_inv_def hear_management_def)
qed

lemma focus_inv:
  assumes s: "pane_inv height s" and "sp_world s' = sp_world s" and "sp_views s' = sp_views s" and "sp_new s' = sp_new s"
  shows "pane_inv height s'"
  using assms by (simp add: pane_inv_def visibility_ok_def shown_key_def pane_visible_def)

lemma pane_frame_fields [simp]: "sp_world (pane_frame a s) = sp_world s" "sp_views (pane_frame a s) = sp_views s" "sp_new (pane_frame a s) = sp_new s"
  by (simp_all add: pane_frame_def Let_def split: list.split option.split)

lemma pane_focus_fields [simp]: "sp_world (pane_focus k e s) = sp_world s" "sp_views (pane_focus k e s) = sp_views s" "sp_new (pane_focus k e s) = sp_new s"
  by (simp_all add: pane_focus_def split: option.split)

lemma pane_op_inv: "pane_inv height s \<Longrightarrow> pane_inv height (apply_pane uri height e s)"
  by (cases e) (auto simp: pane_composer_inv pane_permission_inv pane_step_inv announced_step management_step_inv intro: focus_inv)

lemma new_pane_inv: "pane_inv height (new_session_pane height w ps)"
  unfolding new_session_pane_def by (rule show_current_inv) (simp add: views_ok_def)

lemma pane_history: "pane_inv height (fold (apply_pane uri height) es (new_session_pane height w ps))"
  by (rule fold_keeps [where P = "pane_inv height"]) (auto intro: pane_op_inv new_pane_inv)

text \<open>
  C9: Whatever the user, the services and the frames have done, exactly the view of the active session
  is visible, and the view of a new session exactly when no session is active.
\<close>

theorem pane_shows_the_active_session:
  "let s = fold (apply_pane uri height) es (new_session_pane height w ps); active = active_of (aw_world (sp_world s))
   in (\<forall>k. pane_visible k s \<longleftrightarrow> map_option session_identity_key active = Some k) \<and> (sp_new s = Some False \<longleftrightarrow> active = None)"
  using pane_history [of height uri es w ps] by (simp add: pane_inv_def visibility_ok_def shown_key_def Let_def)

text \<open>
  Every view of the pane, also a hidden one, shows its session as the services have it: its
  events, its title, the text and the attachments of its composition, and its send button is enabled
  exactly when the composition can be sent or the running turn stopped.
\<close>

theorem views_show_their_sessions:
  assumes "om_get (sp_views (fold (apply_pane uri height) es (new_session_pane height w ps))) key = Some v"
  shows "let w' = aw_world (sp_world (fold (apply_pane uri height) es (new_session_pane height w ps))); i = av_identity v;
             c = snd (cs_composition i (se_chat w'))
         in key = session_identity_key i \<and> av_events v = cs_events i (se_chat w') \<and> av_label v = session_label i w' \<and>
            cp_value (av_composer v) = cc_draft c \<and> cp_pills (av_composer v) = map attachment_pill (cc_attachments c) \<and>
            ab_element_disabled (cp_send (av_composer v)) =
              (\<not> turn_runs i w' \<and> (\<not> running (si_workspace i) w' \<or> js_trim (cc_draft c) = [] \<and> cc_attachments c = []))"
proof -
  define s where "s = fold (apply_pane uri height) es (new_session_pane height w ps)"
  have "key = session_identity_key (av_identity v)" "shows_session height (sp_world s) v"
    using pane_history [of height uri es w ps] assms by (auto simp: s_def pane_inv_def views_ok_def)
  moreover from this(2) have "composer_shows (av_env (av_identity v) (sp_world s)) (av_composer v)" by (simp add: shows_session_def composer_inv_def)
  ultimately show ?thesis unfolding s_def [symmetric] Let_def
    by (auto simp: shows_session_def composer_shows_def shows_input_def send_disabled_def av_env_def)
qed

section \<open>Submitting acts on the session that is shown\<close>

lemma registered_turn_commands:
  "om_get (cmds session_registry) ''zaw.session.send'' =
     Some \<lparr>rc_descriptor = \<lparr>cm_id = ''zaw.session.send'', cm_category = Some ''Session'', cm_precondition = None, cm_validate = None\<rparr>,
           rc_handler = send_command\<rparr>"
  "om_get (cmds session_registry) ''zaw.session.cancel'' =
     Some \<lparr>rc_descriptor = \<lparr>cm_id = ''zaw.session.cancel'', cm_category = Some ''Session'', cm_precondition = None, cm_validate = None\<rparr>,
           rc_handler = cancel_command\<rparr>"
  by (simp_all add: session_registry_def register_session_commands_def session_commands_def register_command_def
      new_command_registry_def om_has_def)

lemma submit_runs:
  assumes "active_of w = Some i"
  shows "fst (execute_command (submit_command i w) [] session_registry w) =
    begin_task [] (if turn_runs i w then cancel_session i w else send_session i w)"
  using assms by (simp add: submit_command_def execute_command_def registered_turn_commands send_command_def cancel_command_def Let_def)

lemma send_action_registered:
  "composer_command (fst (composer_descriptor (e\<lparr>en_actions := []\<rparr>) ''zaw.action.composer.submit'')) None = Some SubmitAction"
  by (simp add: composer_descriptor_def fallback_actions_def composer_command_def)

lemma pane_step_tasks:
  "aw_world (sp_world (pane_step height f s)) = f (aw_world (sp_world s))"
  by (simp add: pane_step_def hear_services_eq Let_def)

text \<open>
  Clicking the enabled send button of the visible view sends the message of the very session it
  shows, or stops that session's turn where one is running, although the commands act on whatever
  session is active.
\<close>

theorem send_button_acts_on_the_shown_session:
  assumes "s = fold (apply_pane uri height) es (new_session_pane height w0 ps)" and "pane_visible key s"
    and "om_get (sp_views s) key = Some v" and "\<not> ab_element_disabled (cp_send (av_composer v))" and "aw_descriptors (sp_world s) = []"
  shows "let w = aw_world (sp_world s); i = av_identity v
         in aw_world (sp_world (apply_pane uri height (SpUser key CoSend) s)) =
            begin_task [] (if turn_runs i w then cancel_session i w else send_session i w)"
proof -
  have inv: "pane_inv height s" using pane_history [of height uri es w0 ps] assms(1) by simp
  let ?i = "av_identity v"
  have k: "key = session_identity_key ?i" using inv assms(3) by (simp add: pane_inv_def views_ok_def)
  have "shown_key s = Some key" using inv assms(2) by (simp add: pane_inv_def visibility_ok_def)
  then have a: "active_of (aw_world (sp_world s)) = Some ?i" by (auto simp: shown_key_def k)
  have "av_env ?i (sp_world s) = (av_env ?i (sp_world s))\<lparr>en_actions := []\<rparr>" by (simp add: av_env_def assms(5))
  then have c: "composer_command (fst (composer_descriptor (av_env ?i (sp_world s)) ''zaw.action.composer.submit'')) None = Some SubmitAction"
    using send_action_registered [of "av_env ?i (sp_world s)"] by simp
  have r: "apply_composer (av_host height ?i) True CoSend (sp_world s, av_composer v) =
      (sp_world s, (av_composer v)\<lparr>cp_submits := Suc (cp_submits (av_composer v))\<rparr>)"
    using assms(4) by (simp add: click_send_def run_action_def c perform_action_def)
  show ?thesis using assms(2)
    by (simp add: pane_composer_def assms(3) r Let_def pane_step_tasks submit_runs [OF a] del: apply_composer.simps)
qed

section \<open>The focus returns with the session\<close>

lemma show_current_fields [simp]:
  "sp_focus (show_current height s) = None"
  by (simp add: show_current_def Let_def split: option.split)

definition asked_frames :: "string \<Rightarrow> active_view option \<Rightarrow> (string \<times> nat) list" where
  "asked_frames key x = (case x of None \<Rightarrow> [] | Some v \<Rightarrow> (case av_last_focus v of None \<Rightarrow> [] | Some e \<Rightarrow> [(key, e)]))"

lemma reveal_frames: "sp_frames (reveal_view k s) = sp_frames s @ asked_frames k (om_get (sp_views s) k)"
  by (simp add: reveal_view_def asked_frames_def split: option.split)

lemma show_current_frames:
  assumes "active_of (aw_world (sp_world s)) = Some i"
  shows "sp_frames (show_current height s) = sp_frames s @ asked_frames (session_identity_key i) (om_get (sp_views (show_current height s)) (session_identity_key i))"
  using assms by (auto simp: show_current_def Let_def reveal_frames asked_frames_def split: option.split)

lemma select_fires:
  "active_of w \<noteq> Some i \<Longrightarrow> as_fired (nw_active (se_nav (select_active i w))) \<noteq> as_fired (nw_active (se_nav w))"
  by (simp add: select_active_def hear_active_def hear_def active_select_def active_of_def Let_def)

lemma activated:
  assumes "active_of (aw_world (sp_world s)) \<noteq> Some i"
  obtains t where "pane_step height (select_active i) s = show_current height t" and "active_of (aw_world (sp_world t)) = Some i"
    and "sp_focus t = sp_focus s" and "sp_frames t = sp_frames s"
    and "\<And>k. map_option av_last_focus (om_get (sp_views t) k) = map_option av_last_focus (om_get (sp_views s) k)"
proof -
  let ?w = "(sp_world s)\<lparr>aw_world := select_active i (aw_world (sp_world s))\<rparr>"
  let ?t = "map_views (heard_view height (aw_world (sp_world s)) ?w) (s\<lparr>sp_world := ?w\<rparr>)"
  have t: "pane_step height (select_active i) s = show_current height ?t"
    using select_fires [OF assms] by (simp add: pane_step_def hear_services_eq Let_def)
  have l: "map_option av_last_focus (om_get (sp_views ?t) k) = map_option av_last_focus (om_get (sp_views s) k)" for k
    by (cases "om_get (sp_views s) k") simp_all
  show ?thesis by (rule that [OF t _ _ _ l]) simp_all
qed

text \<open>
  An element of a session's view that has the focus has it again after another session was
  selected and then this one, once the animation frames have run, if it is still in the document.
\<close>

theorem focus_returns_to_session:
  assumes "active_of (aw_world (sp_world s)) = Some a" and "a \<noteq> b" and "om_get (sp_views s) (session_identity_key a) = Some v"
    and "sp_focus s = Some (session_identity_key a, e)" and "sp_frames s = []" and "is_connected e"
  shows "let s' = pane_step height (select_active a) (pane_step height (select_active b) s)
         in sp_focus s' = None \<and> sp_focus (pane_frame is_connected (pane_frame is_connected s')) = Some (session_identity_key a, e)"
proof -
  let ?a = "session_identity_key a" and ?b = "session_identity_key b"
  define s1 where "s1 = pane_step height (select_active b) s"
  define s2 where "s2 = pane_step height (select_active a) s1"
  have "active_of (aw_world (sp_world s)) \<noteq> Some b" using assms(1,2) by simp
  from activated [OF this, of height] obtain t where t: "s1 = show_current height t" "active_of (aw_world (sp_world t)) = Some b"
      "sp_focus t = Some (?a, e)" "sp_frames t = []" "map_option av_last_focus (om_get (sp_views t) ?a) = Some (av_last_focus v)"
    unfolding s1_def [symmetric] using assms(3-5) by (metis option.simps(9))
  from t(5) obtain x where x: "om_get (sp_views t) ?a = Some x" by (cases "om_get (sp_views t) ?a") simp_all
  have ab: "?a \<noteq> ?b" using assms(2) by simp
  have "om_get (sp_views s1) ?a = Some (hide_view (Some (?a, e)) ?a x)" using ab by (simp add: t(1-3) show_current_views x)
  then have l1: "map_option av_last_focus (om_get (sp_views s1) ?a) = Some (Some e)" by (simp add: hide_view_def)
  have f1: "sp_frames s1 = asked_frames ?b (om_get (sp_views s1) ?b)" using show_current_frames [OF t(2), of height] t(1,4) by simp
  have "active_of (aw_world (sp_world s1)) \<noteq> Some a" using t(1,2) assms(2) by simp
  from activated [OF this, of height] obtain u where u: "s2 = show_current height u" "active_of (aw_world (sp_world u)) = Some a"
      "sp_focus u = sp_focus s1" "sp_frames u = sp_frames s1" "map_option av_last_focus (om_get (sp_views u) ?a) = Some (Some e)"
    unfolding s2_def [symmetric] using l1 by metis
  from u(5) obtain y where y: "om_get (sp_views u) ?a = Some y" "av_last_focus y = Some e" by (cases "om_get (sp_views u) ?a") simp_all
  have "sp_focus s1 = None" by (simp add: t(1))
  then have v2: "om_get (sp_views s2) ?a = Some ((hide_view None ?a y)\<lparr>av_hidden := False\<rparr>)" by (simp add: u(1-3) show_current_views y(1))
  have b2: "case om_get (sp_views s2) ?b of None \<Rightarrow> True | Some z \<Rightarrow> av_hidden z"
    using ab by (simp add: u(1,2) show_current_views split: option.split)
  have "asked_frames ?a (om_get (sp_views s2) ?a) = [(?a, e)]" by (simp add: v2 asked_frames_def hide_view_def y(2))
  then have f2: "sp_frames s2 = sp_frames s1 @ [(?a, e)]" using show_current_frames [OF u(2), of height] by (simp add: u(1,4))
  have none: "sp_focus s2 = None" by (simp add: u(1))
  have last: "sp_frames r = [(?a, e)] \<Longrightarrow> sp_views r = sp_views s2 \<Longrightarrow> sp_focus (pane_frame is_connected r) = Some (?a, e)" for r
    using assms(6) by (simp add: pane_frame_def Let_def v2)
  have "sp_focus (pane_frame is_connected (pane_frame is_connected s2)) = Some (?a, e)"
  proof (cases "sp_frames s1")
    case Nil
    then have r: "sp_frames s2 = [(?a, e)]" by (simp add: f2)
    then have "sp_frames (pane_frame is_connected s2) = []" by (simp add: pane_frame_def Let_def v2 assms(6))
    then show ?thesis using last [OF r] by (simp add: pane_frame_def [of _ "pane_frame is_connected s2"])
  next
    case (Cons q qs)
    then obtain z where q: "sp_frames s1 = [(?b, z)]" using f1 by (auto simp: asked_frames_def split: option.splits)
    have "pane_frame is_connected s2 = s2\<lparr>sp_frames := [(?a, e)]\<rparr>"
      using b2 by (auto simp: pane_frame_def f2 q Let_def split: option.splits)
    then show ?thesis using last [of "s2\<lparr>sp_frames := [(?a, e)]\<rparr>"] by simp
  qed
  then show ?thesis using none by (simp add: Let_def s1_def [symmetric] s2_def [symmetric])
qed

section \<open>The permission of a new session\<close>

lemma memo_same: "chat_same j c (fst (cs_composition i c))"
  by (cases "session_identity_key j = session_identity_key i")
    (simp_all add: chat_same_def cs_composition_def cs_active_turn_def cs_events_def cs_restore_def Let_def split: option.split)

lemma send_same: "chat_same j (se_chat w) (se_chat (fst (send_session i w)))" and send_nav: "se_nav (fst (send_session i w)) = se_nav w"
proof -
  have h: "chat_same j (se_chat w) (se_chat (fst (send_on_host i h w)))" "se_nav (fst (send_on_host i h w)) = se_nav w" for h
  proof -
    obtain chat c where x: "cs_composition i (se_chat w) = (chat, c)" by fastforce
    show "chat_same j (se_chat w) (se_chat (fst (send_on_host i h w)))"
      using memo_same [of j "se_chat w" i] by (simp add: send_on_host_def x call_host_def Let_def)
    show "se_nav (fst (send_on_host i h w)) = se_nav w" by (simp add: send_on_host_def x call_host_def Let_def)
  qed
  have a: "se_chat (fst (attach_then ws fs w)) = se_chat w" "se_nav (fst (attach_then ws fs w)) = se_nav w" for ws fs
    by (simp_all add: attach_then_def split: prod.split)
  show "chat_same j (se_chat w) (se_chat (fst (send_session i w)))" using h(1) by (simp add: send_session_def a split: option.split)
  show "se_nav (fst (send_session i w)) = se_nav w" using h(2) by (simp add: send_session_def a split: option.split)
qed

lemma command_created_chat:
  "cc_approval (snd (cs_composition i (se_chat (fst (command_created (Some c) i w))))) = cc_approval c"
  "se_nav (fst (command_created (Some c) i w)) = se_nav w"
proof -
  let ?w = "w\<lparr>se_chat := fst (cs_update i (all_changes c) (se_chat w))\<rparr>"
  have u: "cc_approval (snd (cs_composition i (se_chat ?w))) = cc_approval c"
    by (simp add: composition_after_update spread_def all_changes_def or_else_def)
  have "snd (cs_composition i (se_chat (fst (send_session i ?w)))) = snd (cs_composition i (se_chat ?w))"
    using send_same [of i ?w i] unfolding chat_same_def by blast
  with u show "cc_approval (snd (cs_composition i (se_chat (fst (command_created (Some c) i w))))) = cc_approval c"
    by (simp add: command_created_def Let_def)
  show "se_nav (fst (command_created (Some c) i w)) = se_nav w" by (simp add: command_created_def send_nav Let_def)
qed

text \<open>
  When a session is created from a draft that bypasses approvals, the view of the session says that
  it asks: the view is made when the session becomes active, its picker then takes the permission of
  the composition, which takes the draft's only in the next step, and nothing refreshes the picker.
\<close>

theorem created_view_shows_ask:
  assumes "om_get (se_tasks (aw_world (sp_world s))) n = Some (Settled (Inr (VResource r)), [CreateOnCreated ws ti, CommandOnCreated (Some c)])"
    and "i = \<lparr>si_workspace = ws, si_resource = r\<rparr>" and "active_of (aw_world (sp_world s)) \<noteq> Some i"
    and "om_get (sp_views s) (session_identity_key i) = None"
    and "cc_approval (snd (cs_composition i (se_chat (aw_world (sp_world s))))) = AskMode"
  shows "let s' = fold (apply_pane uri height) [SpWorld (StResume n), SpWorld (StResume n)] s
         in cc_approval (snd (cs_composition i (se_chat (aw_world (sp_world s'))))) = cc_approval c \<and>
            pane_visible (session_identity_key i) s' \<and>
            map_option (\<lambda>v. pk_value (av_permission v)) (om_get (sp_views s') (session_identity_key i)) = Some (Some ''ask'')"
proof -
  let ?k = "session_identity_key i"
  define w where "w = aw_world (sp_world s)"
  define w1 where "w1 = resume_task n w"
  define s1 where "s1 = pane_step height (resume_task n) s"
  have w1: "w1 = set_task n (Settled (Inr (VSession i))) [CommandOnCreated (Some c)] (created i ti w)"
    using assms(1,2) by (simp add: w1_def w_def resume_task_def continue_frame_def resource_in_def Let_def)
  define w0 where "w0 = w\<lparr>se_resources := (se_resources w)\<lparr>rs_details := commit_new_session i (rs_details (se_resources w))\<rparr>,
      se_catalog := catalog_add i ti (se_catalog w)\<rparr>"
  have cr: "created i ti w = select_active i w0" by (simp add: created_def w0_def Let_def)
  have a0: "active_of w0 \<noteq> Some i" using assms(3) by (simp add: w0_def w_def active_of_def)
  have nav: "se_nav w1 = se_nav (select_active i w0)" "se_nav w0 = se_nav w" "se_chat w1 = se_chat (select_active i w0)" "se_chat w0 = se_chat w"
    by (simp_all add: w1 set_task_def cr) (simp_all add: w0_def)
  have act: "active_of w1 = Some i" using selected_frame(4) [of i w0] by (simp add: active_of_def nav(1))
  have "as_fired (nw_active (se_nav w1)) \<noteq> as_fired (nw_active (se_nav w))" using select_fires [OF a0] by (simp add: nav(1,2))
  then have s1: "s1 = show_current height (map_views (heard_view height w ((sp_world s)\<lparr>aw_world := w1\<rparr>)) (s\<lparr>sp_world := (sp_world s)\<lparr>aw_world := w1\<rparr>\<rparr>))"
    by (simp add: s1_def pane_step_def hear_services_eq Let_def w_def [symmetric] w1_def [symmetric])
  have ch: "chat_same i (se_chat w) (se_chat w1)"
    unfolding nav(3) using nav(4)
    by (simp add: select_active_def hear_active_def active_select_def cs_active_changed_def chat_same_fields Let_def split: option.split)
  define v where "v = (new_active_view height (sp_parameters s) i ((sp_world s)\<lparr>aw_world := w1\<rparr>))\<lparr>av_hidden := False\<rparr>"
  have v1: "om_get (sp_views s1) ?k = Some v" by (simp add: s1 show_current_views act assms(4) v_def)
  have "cc_approval (snd (cs_composition i (se_chat w1))) = AskMode" using ch assms(5) by (simp add: chat_same_def w_def)
  then have p: "pk_value (av_permission v) = Some ''ask''"
    by (simp add: v_def new_active_view_def new_picker_def update_selection_def)
  have x1: "aw_world (sp_world s1) = w1" by (simp add: s1)
  define w2 where "w2 = resume_task n w1"
  define s2 where "s2 = pane_step height (resume_task n) s1"
  have t1: "om_get (se_tasks w1) n = Some (Settled (Inr (VSession i)), [CommandOnCreated (Some c)])" by (simp add: w1 set_task_def)
  obtain u q where uq: "command_created (Some c) i w1 = (u, q)" by fastforce
  have w2: "se_chat w2 = se_chat u" "se_nav w2 = se_nav u"
    by (simp_all add: w2_def resume_task_eq t1 continue_frame_def session_in_def uq set_task_def)
  have u: "cc_approval (snd (cs_composition i (se_chat u))) = cc_approval c" "se_nav u = se_nav w1"
    using command_created_chat [where i = i and c = c and w = w1] by (simp_all add: uq)
  have s2: "s2 = map_views (heard_view height w1 ((sp_world s1)\<lparr>aw_world := w2\<rparr>)) (s1\<lparr>sp_world := (sp_world s1)\<lparr>aw_world := w2\<rparr>\<rparr>)"
    by (simp add: s2_def pane_step_def hear_services_eq Let_def x1 w2_def [symmetric] w2(2) u(2))
  have "om_get (sp_views s2) ?k = Some (heard_view height w1 ((sp_world s1)\<lparr>aw_world := w2\<rparr>) v)" by (simp add: s2 v1)
  moreover have "aw_world (sp_world s2) = w2" by (simp add: s2)
  moreover have "\<not> av_hidden v" by (simp add: v_def)
  moreover have "apply_session uri (StResume n) = resume_task n" by (intro ext) simp
  then have "fold (apply_pane uri height) [SpWorld (StResume n), SpWorld (StResume n)] s = s2" by (simp add: s1_def s2_def)
  ultimately show ?thesis using p u(1) by (simp add: Let_def pane_visible_def w2(1) del: apply_pane.simps fold_simps)
qed

theorem created_view_shows_ask_witness:
  "let i = \<lparr>si_workspace = ''w'', si_resource = ''s''\<rparr>; c = empty_composition\<lparr>cc_approval := AllowMode\<rparr>;
       w = (new_session_world (new_layout None) None)
         \<lparr>se_tasks := [(0, (Settled (Inr (VResource ''s'')), [CreateOnCreated ''w'' ''New session'', CommandOnCreated (Some c)]))]\<rparr>;
       s' = fold (apply_pane (\<lambda>p b. Some p) (\<lambda>t. 0)) [SpWorld (StResume 0), SpWorld (StResume 0)]
         (new_session_pane (\<lambda>t. 0) \<lparr>aw_world = w, aw_management = new_management False, aw_descriptors = []\<rparr> [])
   in cc_approval (snd (cs_composition i (se_chat (aw_world (sp_world s'))))) = AllowMode \<and>
      map_option (\<lambda>v. pk_value (av_permission v)) (om_get (sp_views s') (session_identity_key i)) = Some (Some ''ask'')"
proof -
  define i where "i = \<lparr>si_workspace = ''w'', si_resource = ''s''\<rparr>"
  define c where "c = empty_composition\<lparr>cc_approval := AllowMode\<rparr>"
  define w where "w = (new_session_world (new_layout None) None)
      \<lparr>se_tasks := [(0, (Settled (Inr (VResource ''s'')), [CreateOnCreated ''w'' ''New session'', CommandOnCreated (Some c)]))]\<rparr>"
  define s where "s = new_session_pane (\<lambda>t. 0) \<lparr>aw_world = w, aw_management = new_management False, aw_descriptors = []\<rparr> []"
  have a: "active_of w = None" by (simp add: w_def active_of_def new_session_world_def new_active_def)
  have s: "aw_world (sp_world s) = w" "sp_views s = []"
    using a by (simp_all add: s_def new_session_pane_def show_current_def hide_all_def)
  have t: "om_get (se_tasks w) 0 = Some (Settled (Inr (VResource ''s'')), [CreateOnCreated ''w'' ''New session'', CommandOnCreated (Some c)])"
    by (simp add: w_def)
  have p: "cc_approval (snd (cs_composition i (se_chat w))) = AskMode"
    by (simp add: w_def new_session_world_def new_chat_sessions_def cs_composition_def cs_restore_def restore_text_def empty_composition_def Let_def)
  have "active_of w \<noteq> Some i" "om_get (sp_views s) (session_identity_key i) = None" by (simp_all add: a s(2))
  from created_view_shows_ask [of s 0, unfolded s(1), OF t i_def this p, of "\<lambda>p b. Some p" "\<lambda>t. 0"]
  have "let s' = fold (apply_pane (\<lambda>p b. Some p) (\<lambda>t. 0)) [SpWorld (StResume 0), SpWorld (StResume 0)] s
        in cc_approval (snd (cs_composition i (se_chat (aw_world (sp_world s'))))) = cc_approval c \<and>
           pane_visible (session_identity_key i) s' \<and>
           map_option (\<lambda>v. pk_value (av_permission v)) (om_get (sp_views s') (session_identity_key i)) = Some (Some ''ask'')" .
  moreover have "cc_approval c = AllowMode" by (simp add: c_def)
  ultimately show ?thesis unfolding Let_def i_def [symmetric] c_def [symmetric] w_def [symmetric] s_def [symmetric] by (elim conjE) (intro conjI, simp_all only:)
qed

text \<open>A pane that shows the session \<open>s\<close> of the workspace \<open>w\<close>, with a message written.\<close>

definition sample_identity :: session_identity where
  "sample_identity = \<lparr>si_workspace = ''w'', si_resource = ''s''\<rparr>"

definition sample_world :: active_world where
  "sample_world =
     \<lparr>aw_world = select_active sample_identity
        ((new_session_world (new_layout None) None)\<lparr>
           se_workspaces := [\<lparr>wk_id = ''w'', wk_name = ''w'', wk_desired = ''running'', wk_observed = ''running'', wk_agent_host = ''online'', wk_build = []\<rparr>],
           se_chat := fst (cs_update sample_identity (no_changes\<lparr>ch_draft := Some ''hi''\<rparr>) (new_chat_sessions None))\<rparr>),
      aw_management = new_management False, aw_descriptors = []\<rparr>"

definition sample_pane :: session_pane where
  "sample_pane = new_session_pane (\<lambda>t. 0) sample_world []"

lemma sample_fields:
  "sp_world sample_pane = sample_world" "active_of (aw_world sample_world) = Some sample_identity"
  "om_get (sp_views sample_pane) (session_identity_key sample_identity) =
     Some ((new_active_view (\<lambda>t. 0) [] sample_identity sample_world)\<lparr>av_hidden := False\<rparr>)"
proof -
  show a: "active_of (aw_world sample_world) = Some sample_identity" by (simp add: sample_world_def)
  show "sp_world sample_pane = sample_world" by (simp add: sample_pane_def new_session_pane_def)
  show "om_get (sp_views sample_pane) (session_identity_key sample_identity) =
     Some ((new_active_view (\<lambda>t. 0) [] sample_identity sample_world)\<lparr>av_hidden := False\<rparr>)"
    by (simp add: sample_pane_def new_session_pane_def show_current_views a)
qed

lemma sample_composition: "cc_draft (snd (cs_composition sample_identity (se_chat (aw_world sample_world)))) = ''hi''"
  "turn_runs sample_identity (aw_world sample_world) = False" "running ''w'' (aw_world sample_world) = True"
proof -
  have c: "chat_same sample_identity (fst (cs_update sample_identity (no_changes\<lparr>ch_draft := Some ''hi''\<rparr>) (new_chat_sessions None)))
      (se_chat (aw_world sample_world))"
    by (simp add: sample_world_def select_active_def hear_active_def active_select_def cs_active_changed_def chat_same_fields Let_def split: option.split)
  then show "cc_draft (snd (cs_composition sample_identity (se_chat (aw_world sample_world)))) = ''hi''"
    by (simp add: chat_same_def composition_after_update spread_def or_else_def no_changes_def)
  show "turn_runs sample_identity (aw_world sample_world) = False" using c
    by (simp add: turn_runs_def chat_same_def cs_update_def cs_composition_def cs_persist_def cs_active_turn_def new_chat_sessions_def Let_def)
  have "se_workspaces (select_active i w) = se_workspaces w" for i w by (simp add: select_active_def hear_active_def Let_def split: option.split)
  then show "running ''w'' (aw_world sample_world) = True" by (simp add: running_def sample_world_def is_workspace_running_def)
qed

theorem views_show_their_sessions_witness:
  "map_option (\<lambda>v. cp_value (av_composer v)) (om_get (sp_views sample_pane) (session_identity_key sample_identity)) = Some ''hi''"
proof -
  have "om_get (sp_views (fold (apply_pane (\<lambda>p b. Some p) (\<lambda>t. 0)) [] (new_session_pane (\<lambda>t. 0) sample_world []))) (session_identity_key sample_identity) =
      Some ((new_active_view (\<lambda>t. 0) [] sample_identity sample_world)\<lparr>av_hidden := False\<rparr>)"
    using sample_fields(3) by (simp add: sample_pane_def)
  from views_show_their_sessions [OF this] sample_fields sample_composition(1)
  show ?thesis by (simp add: Let_def sample_pane_def [symmetric] new_active_view_def)
qed

theorem send_button_acts_on_the_shown_session_witness:
  "aw_world (sp_world (apply_pane (\<lambda>p b. Some p) (\<lambda>t. 0) (SpUser (session_identity_key sample_identity) CoSend) sample_pane)) =
   begin_task [] (send_session sample_identity (aw_world sample_world))"
proof -
  let ?v = "(new_active_view (\<lambda>t. 0) [] sample_identity sample_world)\<lparr>av_hidden := False\<rparr>"
  have i: "av_identity ?v = sample_identity" by (simp add: new_active_view_def)
  have s: "sample_pane = fold (apply_pane (\<lambda>p b. Some p) (\<lambda>t. 0)) [] (new_session_pane (\<lambda>t. 0) sample_world [])" by (simp add: sample_pane_def)
  have vis: "pane_visible (session_identity_key sample_identity) sample_pane" by (simp add: pane_visible_def sample_fields(3))
  have d: "aw_descriptors (sp_world sample_pane) = []" by (simp add: sample_fields(1)) (simp add: sample_world_def)
  have "js_trim ''hi'' \<noteq> []" using js_trim_keep [of "CHR ''h''" "CHR ''i''" "[]"] by (simp add: visible_char_def)
  moreover have "si_workspace sample_identity = ''w''" by (simp add: sample_identity_def)
  moreover have "shows_session (\<lambda>t. 0) sample_world (new_active_view (\<lambda>t. 0) [] sample_identity sample_world)" by (rule new_view_shows)
  then have "composer_shows (av_env sample_identity sample_world) (av_composer (new_active_view (\<lambda>t. 0) [] sample_identity sample_world))"
    by (simp add: shows_session_def composer_inv_def new_active_view_def)
  ultimately have "\<not> ab_element_disabled (cp_send (av_composer ?v))"
    using sample_composition by (simp add: composer_shows_def send_disabled_def av_env_def)
  from send_button_acts_on_the_shown_session [OF s vis sample_fields(3) this d]
  show ?thesis by (simp add: Let_def i sample_fields(1) sample_composition(2) del: apply_pane.simps)
qed

theorem focus_returns_to_session_witness:
  "let a = session_identity_key sample_identity; b = \<lparr>si_workspace = ''w'', si_resource = ''t''\<rparr>;
       s' = pane_step (\<lambda>t. 0) (select_active sample_identity) (pane_step (\<lambda>t. 0) (select_active b) (pane_focus a 3 sample_pane))
   in sp_focus s' = None \<and> sp_focus (pane_frame (\<lambda>e. True) (pane_frame (\<lambda>e. True) s')) = Some (a, 3)"
proof -
  define b where "b = \<lparr>si_workspace = ''w'', si_resource = ''t''\<rparr>"
  define s where "s = pane_focus (session_identity_key sample_identity) 3 sample_pane"
  let ?v = "(new_active_view (\<lambda>t. 0) [] sample_identity sample_world)\<lparr>av_hidden := False\<rparr>"
  have v: "om_get (sp_views s) (session_identity_key sample_identity) = Some ?v" by (simp add: s_def sample_fields)
  have w: "active_of (aw_world (sp_world s)) = Some sample_identity" by (simp add: s_def sample_fields)
  have f: "sp_focus s = Some (session_identity_key sample_identity, 3)" by (simp add: s_def pane_focus_def sample_fields(3))
  have "av_last_focus (new_active_view h ps i w) = None" for h ps i w by (simp add: new_active_view_def)
  then have "sp_frames sample_pane = []"
    using sample_fields(3) by (simp add: sample_pane_def new_session_pane_def show_current_frames sample_fields(2) asked_frames_def)
  then have fr: "sp_frames s = []" by (simp add: s_def pane_focus_def split: option.split)
  have ab: "sample_identity \<noteq> b" by (simp add: sample_identity_def b_def)
  from focus_returns_to_session [OF w ab v f fr, of "\<lambda>e. True" "\<lambda>t. 0"]
  show ?thesis unfolding Let_def b_def [symmetric] s_def [symmetric] by simp
qed

end
