(* ===== verification/TreeView.thy ===== *)
theory TreeView
  imports Widgets
begin

text \<open>
  \<open>widgets/tree.ts\<close> of \<open>src/packages/ui\<close>: a tree whose open items are rows of buttons.  The rows are
  numbered in the order of the document; \<open>tv_focus\<close> is the row that has its focus.
\<close>

section \<open>Items and rows\<close>

datatype tree_item = TreeItem (tr_id: string) (tr_label: string) (tr_expanded: bool) (tr_children: "tree_item list")

record tree_row =
  rw_id :: string
  rw_level :: nat
  rw_expanded :: "bool option"
  rw_label :: string

fun render_tree_item :: "nat \<Rightarrow> tree_item \<Rightarrow> tree_row list" where
  "render_tree_item level (TreeItem i l e cs) =
     \<lparr>rw_id = i, rw_level = level, rw_expanded = (if cs = [] then None else Some e), rw_label = l\<rparr> #
       (if e \<and> cs \<noteq> [] then concat (map (render_tree_item (Suc level)) cs) else [])"

definition render_tree_items :: "nat \<Rightarrow> tree_item list \<Rightarrow> tree_row list" where
  "render_tree_items level items = concat (map (render_tree_item level) items)"

fun find_item :: "string \<Rightarrow> tree_item list \<Rightarrow> tree_item option" where
  "find_item k [] = None"
| "find_item k (TreeItem i l e cs # ts) =
     (if i = k then Some (TreeItem i l e cs)
      else (case find_item k cs of Some c \<Rightarrow> Some c | None \<Rightarrow> find_item k ts))"

text \<open>The item \<open>findItem\<close> returns, changed in place.\<close>

fun set_expanded :: "string \<Rightarrow> bool \<Rightarrow> tree_item list \<Rightarrow> tree_item list" where
  "set_expanded k b [] = []"
| "set_expanded k b (TreeItem i l e cs # ts) =
     (if i = k then TreeItem i l b cs # ts
      else if find_item k cs \<noteq> None then TreeItem i l e (set_expanded k b cs) # ts
      else TreeItem i l e cs # set_expanded k b ts)"

section \<open>The widget\<close>

record tree_view =
  tv_items :: "tree_item list"
  tv_rows :: "tree_row list"
  tv_buttons :: "focusable list"
  tv_focused :: "string option"
  tv_focus :: "nat option"
  tv_selected :: "string list"

definition row_buttons :: "tree_row list \<Rightarrow> focusable list" where
  "row_buttons rows = map (\<lambda>k. \<lparr>fe_id = k, fe_disabled = False, fe_aria_disabled = False, fe_selected = False, fe_tab = 0\<rparr>) [0..<length rows]"

definition row_of :: "string \<Rightarrow> tree_row list \<Rightarrow> nat option" where
  "row_of k rows = find_index (\<lambda>r. rw_id r = k) rows"

text \<open>\<open>render\<close> replaces all elements, so that none of them has the focus.\<close>

definition render_tree :: "tree_view \<Rightarrow> tree_view" where
  "render_tree v =
     (let rows = render_tree_items 1 (tv_items v)
      in v\<lparr>tv_rows := rows,
           tv_buttons := set_roving_tab_stop (row_buttons rows) (case tv_focused v of None \<Rightarrow> None | Some k \<Rightarrow> row_of k rows),
           tv_focus := None\<rparr>)"

definition new_tree :: "tree_item list \<Rightarrow> tree_view" where
  "new_tree items =
     render_tree \<lparr>tv_items = items, tv_rows = [], tv_buttons = [], tv_focused = None, tv_focus = None, tv_selected = []\<rparr>"

text \<open>\<open>focusRow\<close>; the listener on \<open>focus\<close> of a row does the same.\<close>

definition focus_tree_row :: "nat option \<Rightarrow> tree_view \<Rightarrow> tree_view" where
  "focus_tree_row target v =
     (case target of
        None \<Rightarrow> v
      | Some k \<Rightarrow>
          v\<lparr>tv_focused := Some (rw_id (tv_rows v ! k)), tv_buttons := set_roving_tab_stop (tv_buttons v) (Some k), tv_focus := Some k\<rparr>)"

definition click_tree_row :: "nat \<Rightarrow> tree_view \<Rightarrow> tree_view" where
  "click_tree_row k v =
     (let i = rw_id (tv_rows v ! k) in v\<lparr>tv_focused := Some i, tv_selected := tv_selected v @ [i]\<rparr>)"

definition has_children :: "tree_item option \<Rightarrow> bool" where
  "has_children x = (case x of None \<Rightarrow> False | Some t \<Rightarrow> tr_children t \<noteq> [])"

definition parent_row :: "nat \<Rightarrow> tree_row list \<Rightarrow> nat option" where
  "parent_row k rows = find (\<lambda>j. rw_level (rows ! j) < rw_level (rows ! k)) (rev [0..<k])"

definition toggle_item :: "nat \<Rightarrow> bool \<Rightarrow> tree_view \<Rightarrow> tree_view" where
  "toggle_item k b v =
     (let i = rw_id (tv_rows v ! k); v1 = render_tree (v\<lparr>tv_items := set_expanded i b (tv_items v)\<rparr>)
      in focus_tree_row (row_of i (tv_rows v1)) v1)"

definition tree_key_down :: "string \<Rightarrow> tree_view \<Rightarrow> tree_view" where
  "tree_key_down key v =
     (case tv_focus v of
        None \<Rightarrow> v
      | Some k \<Rightarrow>
          (let n = length (tv_rows v); item = find_item (rw_id (tv_rows v ! k)) (tv_items v)
           in if key = ''ArrowDown'' then focus_tree_row (Some (if Suc k < n then Suc k else 0)) v
              else if key = ''ArrowUp'' then focus_tree_row (Some (if k = 0 then n - 1 else k - 1)) v
              else if key = ''Home'' then focus_tree_row (Some 0) v
              else if key = ''End'' then focus_tree_row (Some (n - 1)) v
              else if key = ''ArrowRight'' then
                (if has_children item \<and> \<not> tr_expanded (the item) then toggle_item k True v
                 else if has_children item then focus_tree_row (if Suc k < n then Some (Suc k) else None) v
                 else v)
              else if key = ''ArrowLeft'' then
                (if has_children item \<and> tr_expanded (the item) then toggle_item k False v
                 else focus_tree_row (parent_row k (tv_rows v)) v)
              else if key = ''Enter'' \<or> key = '' '' then click_tree_row k v
              else v))"

datatype tree_op = TvKey string | TvFocus nat | TvClick nat | TvBlur

fun apply_tree :: "tree_op \<Rightarrow> tree_view \<Rightarrow> tree_view" where
  "apply_tree (TvKey key) v = tree_key_down key v"
| "apply_tree (TvFocus k) v = (if k < length (tv_rows v) then focus_tree_row (Some k) v else v)"
| "apply_tree (TvClick k) v = (if k < length (tv_rows v) then click_tree_row k (focus_tree_row (Some k) v) else v)"
| "apply_tree TvBlur v = v\<lparr>tv_focus := None\<rparr>"

section \<open>One tab stop\<close>

definition tree_ok :: "tree_view \<Rightarrow> bool" where
  "tree_ok v \<longleftrightarrow> tv_rows v = render_tree_items 1 (tv_items v) \<and> map fe_id (tv_buttons v) = [0..<length (tv_rows v)] \<and>
     list_all enabled_element (tv_buttons v) \<and>
     (tv_rows v = [] \<or> (\<exists>k. map fe_id (filter (\<lambda>e. fe_tab e = 0) (tv_buttons v)) = [k])) \<and>
     (case tv_focus v of None \<Rightarrow> True | Some k \<Rightarrow>
        k < length (tv_rows v) \<and> tv_focused v = Some (rw_id (tv_rows v ! k)) \<and>
        map fe_id (filter (\<lambda>e. fe_tab e = 0) (tv_buttons v)) = [k])"

lemma roving_frame [simp]:
  "map fe_id (set_roving_tab_stop es preferred) = map fe_id es"
  "list_all enabled_element (set_roving_tab_stop es preferred) = list_all enabled_element es"
  by (simp_all add: set_roving_tab_stop_def set_tabs_def list_all_iff enabled_element_def)

lemma numbered: "map fe_id es = [0..<n] \<Longrightarrow> distinct (map fe_id es)" "map fe_id es = [0..<n] \<Longrightarrow> fe_id ` set es = {..<n}"
  by (simp, metis atLeast_upt image_set lessThan_atLeast0 set_upt)

lemma all_enabled: "list_all enabled_element es \<Longrightarrow> filter enabled_element es = es"
  by (simp add: list_all_iff filter_id_conv)

lemma stop_preferred:
  assumes "map fe_id es = [0..<n]" and "list_all enabled_element es" and "k < n"
  shows "map fe_id (filter (\<lambda>e. fe_tab e = 0) (set_roving_tab_stop es (Some k))) = [k]"
proof -
  have k: "k \<in> fe_id ` set es" using numbered(2) [OF assms(1)] assms(3) by simp
  then have "roving_active es (Some k) = Some k" by (intro roving_active_preferred) (simp add: all_enabled [OF assms(2)])
  then show ?thesis using set_tabs_stops [OF numbered(1) [OF assms(1)] k] by (simp add: set_roving_tab_stop_def)
qed

lemma stop_exists:
  assumes "map fe_id es = [0..<n]" and "list_all enabled_element es" and "n \<noteq> 0"
  shows "\<exists>k. map fe_id (filter (\<lambda>e. fe_tab e = 0) (set_roving_tab_stop es preferred)) = [k]"
proof -
  have "length es = n" using arg_cong [OF assms(1), of length] by simp
  then have "es \<noteq> []" using assms(3) by auto
  then have "roving_active es preferred \<noteq> None" by (simp add: roving_active_def pick_active_None all_enabled [OF assms(2)])
  then obtain i where i: "roving_active es preferred = Some i" by blast
  from roving_active_enabled [OF i] have "i \<in> fe_id ` set es" by auto
  from set_tabs_stops [OF numbered(1) [OF assms(1)] this] show ?thesis by (auto simp: set_roving_tab_stop_def i)
qed

lemma row_buttons_ok [simp]: "map fe_id (row_buttons rows) = [0..<length rows]" "list_all enabled_element (row_buttons rows)"
  by (simp_all add: row_buttons_def comp_def enabled_element_def list_all_iff)

lemma render_ok: "tree_ok (render_tree v)"
  by (auto simp: tree_ok_def render_tree_def Let_def intro: stop_exists)

lemma focus_ok: "tree_ok v \<Longrightarrow> (case target of None \<Rightarrow> True | Some k \<Rightarrow> k < length (tv_rows v)) \<Longrightarrow> tree_ok (focus_tree_row target v)"
  by (auto simp: tree_ok_def focus_tree_row_def stop_preferred split: option.split)

lemma focused_row:
  "tree_ok v \<Longrightarrow> tv_focus v = Some k \<Longrightarrow> k < length (tv_rows v)"
  "tree_ok v \<Longrightarrow> tv_focus v = Some k \<Longrightarrow> tv_focused v = Some (rw_id (tv_rows v ! k))"
proof -
  assume v: "tree_ok v" and f: "tv_focus v = Some k"
  have "case tv_focus v of None \<Rightarrow> True | Some k \<Rightarrow>
      k < length (tv_rows v) \<and> tv_focused v = Some (rw_id (tv_rows v ! k)) \<and>
      map fe_id (filter (\<lambda>e. fe_tab e = 0) (tv_buttons v)) = [k]"
    using v unfolding tree_ok_def by (elim conjE)
  then show "k < length (tv_rows v)" "tv_focused v = Some (rw_id (tv_rows v ! k))" using f by simp_all
qed

lemma click_tree_ok: "tree_ok v \<Longrightarrow> tv_focus v = Some k \<Longrightarrow> tree_ok (click_tree_row k v)"
proof -
  assume v: "tree_ok v" and f: "tv_focus v = Some k"
  have "tv_focused v = Some (rw_id (tv_rows v ! k))" using v f by (rule focused_row)
  then have "click_tree_row k v = v\<lparr>tv_selected := tv_selected v @ [rw_id (tv_rows v ! k)]\<rparr>" by (simp add: click_tree_row_def Let_def)
  moreover have "tree_ok (v\<lparr>tv_selected := xs\<rparr>) = tree_ok v" for xs by (cases "tv_focus v") (simp_all add: tree_ok_def)
  ultimately show ?thesis using v by (simp only:)
qed

lemma row_of_less: "row_of i rows = Some j \<Longrightarrow> j < length rows"
  unfolding row_of_def by (blast dest: find_index_Some)

lemma toggle_ok: "tree_ok (toggle_item k b v)"
  unfolding toggle_item_def Let_def
  by (rule focus_ok [OF render_ok]) (simp add: row_of_less split: option.split)

lemma parent_row_less: "parent_row k rows = Some j \<Longrightarrow> j < k"
  by (auto simp: parent_row_def dest!: find_SomeD)

lemma key_ok: "tree_ok v \<Longrightarrow> tree_ok (tree_key_down key v)"
proof (cases "tv_focus v")
  case (Some k)
  assume v: "tree_ok v"
  then have k: "k < length (tv_rows v)" using Some by (rule focused_row(1))
  from k have "0 < length (tv_rows v)" by (rule le_less_trans [OF le0])
  moreover have "tree_ok (focus_tree_row (parent_row k (tv_rows v)) v)"
    using v k by (intro focus_ok) (auto dest: parent_row_less split: option.split)
  ultimately show ?thesis using v k
    by (simp add: tree_key_down_def Some Let_def focus_ok toggle_ok click_tree_ok)
qed (simp add: tree_key_down_def)

lemma tree_step_ok: "tree_ok v \<Longrightarrow> tree_ok (apply_tree e v)"
proof (cases e)
  case (TvClick k)
  assume "tree_ok v"
  then show ?thesis by (auto simp: TvClick intro!: click_tree_ok focus_ok) (simp add: focus_tree_row_def)
next
  case TvBlur
  assume "tree_ok v"
  then show ?thesis by (auto simp: TvBlur tree_ok_def split: option.splits)
qed (auto intro: key_ok focus_ok)

text \<open>
  After any keys, clicks and moves of the focus the rows of a tree are those of its expanded
  items, exactly one of them is a tab stop, and it is the focused row where one has the focus.
\<close>

theorem tree_shows_expanded_items:
  "let v = fold apply_tree es (new_tree items)
   in tv_rows v = render_tree_items 1 (tv_items v) \<and>
      (tv_rows v = [] \<or> (\<exists>k. map fe_id (filter (\<lambda>e. fe_tab e = 0) (tv_buttons v)) = [k])) \<and>
      (case tv_focus v of None \<Rightarrow> True | Some k \<Rightarrow>
         k < length (tv_rows v) \<and> map fe_id (filter (\<lambda>e. fe_tab e = 0) (tv_buttons v)) = [k])"
proof -
  have "tree_ok (new_tree items)" unfolding new_tree_def by (rule render_ok)
  then have "tree_ok (fold apply_tree es (new_tree items))"
    by (intro fold_keeps [where P = tree_ok]) (auto intro: tree_step_ok)
  then show ?thesis by (auto simp: tree_ok_def Let_def split: option.splits)
qed

section \<open>Parents\<close>

text \<open>For every row the id of the item it is a child of.\<close>

fun item_parents :: "string option \<Rightarrow> tree_item \<Rightarrow> string option list" where
  "item_parents p (TreeItem i l e cs) = p # (if e \<and> cs \<noteq> [] then concat (map (item_parents (Some i)) cs) else [])"

definition row_parents :: "tree_item list \<Rightarrow> string option list" where
  "row_parents items = concat (map (item_parents None) items)"

text \<open>Rows with their parents, where the outermost are children of \<open>p\<close> at the given level.\<close>

definition nested :: "nat \<Rightarrow> string option \<Rightarrow> (tree_row \<times> string option) list \<Rightarrow> bool" where
  "nested level p rs \<longleftrightarrow>
     (\<forall>k < length rs. level \<le> rw_level (fst (rs ! k)) \<and>
        (case parent_row k (map fst rs) of
           None \<Rightarrow> rw_level (fst (rs ! k)) = level \<and> snd (rs ! k) = p
         | Some j \<Rightarrow> snd (rs ! k) = Some (rw_id (fst (rs ! j)))))"

lemma find_append: "find P (xs @ ys) = (case find P xs of Some x \<Rightarrow> Some x | None \<Rightarrow> find P ys)"
  by (induction xs) auto

lemma find_map: "find P (map f xs) = map_option f (find (\<lambda>x. P (f x)) xs)"
  by (induction xs) auto

lemma parent_row_append:
  "parent_row (length xs + k) (xs @ ys) =
     (case parent_row k ys of Some j \<Rightarrow> Some (length xs + j)
      | None \<Rightarrow> find (\<lambda>j. rw_level (xs ! j) < rw_level (ys ! k)) (rev [0..<length xs]))"
proof -
  have r: "rev [0..<length xs + k] = map ((+) (length xs)) (rev [0..<k]) @ rev [0..<length xs]"
  proof -
    have "[0..<length xs + k] = [0..<length xs] @ map ((+) (length xs)) [0..<k]"
      using upt_add_eq_append [of 0 "length xs" k] map_add_upt [of "length xs" k] by (simp add: add.commute [of _ "length xs"])
    then show ?thesis by (simp add: rev_map)
  qed
  have "find (\<lambda>j. rw_level ((xs @ ys) ! j) < rw_level (ys ! k)) (rev [0..<length xs]) =
      find (\<lambda>j. rw_level (xs ! j) < rw_level (ys ! k)) (rev [0..<length xs])"
    by (rule find_cong) (simp_all add: nth_append)
  then show ?thesis
    by (simp add: parent_row_def r find_append find_map split: option.split)
qed

lemma nested_append: "nested l p xs \<Longrightarrow> nested l p ys \<Longrightarrow> nested l p (xs @ ys)"
  unfolding nested_def
proof (intro allI impI)
  fix k assume x: "\<forall>k < length xs. l \<le> rw_level (fst (xs ! k)) \<and>
        (case parent_row k (map fst xs) of None \<Rightarrow> rw_level (fst (xs ! k)) = l \<and> snd (xs ! k) = p
         | Some j \<Rightarrow> snd (xs ! k) = Some (rw_id (fst (xs ! j))))"
    and y: "\<forall>k < length ys. l \<le> rw_level (fst (ys ! k)) \<and>
        (case parent_row k (map fst ys) of None \<Rightarrow> rw_level (fst (ys ! k)) = l \<and> snd (ys ! k) = p
         | Some j \<Rightarrow> snd (ys ! k) = Some (rw_id (fst (ys ! j))))"
    and k: "k < length (xs @ ys)"
  show "l \<le> rw_level (fst ((xs @ ys) ! k)) \<and>
        (case parent_row k (map fst (xs @ ys)) of None \<Rightarrow> rw_level (fst ((xs @ ys) ! k)) = l \<and> snd ((xs @ ys) ! k) = p
         | Some j \<Rightarrow> snd ((xs @ ys) ! k) = Some (rw_id (fst ((xs @ ys) ! j))))"
  proof (cases "k < length xs")
    case True
    have "parent_row k (map fst (xs @ ys)) = parent_row k (map fst xs)"
      unfolding parent_row_def using True by (intro find_cong) (auto simp: nth_append)
    with x True show ?thesis by (auto simp: nth_append dest: parent_row_less split: option.splits)
  next
    case False
    then obtain j where j: "k = length xs + j" by (metis le_add_diff_inverse not_less)
    with k have j': "j < length ys" by simp
    note e = parent_row_append [of "map fst xs" j "map fst ys"]
    show ?thesis
    proof (cases "parent_row j (map fst ys)")
      case None
      with y j' have l: "rw_level (fst (ys ! j)) = l" "snd (ys ! j) = p" by auto
      have "find (\<lambda>i. rw_level (map fst xs ! i) < rw_level (map fst ys ! j)) (rev [0..<length (map fst xs)]) = None"
        unfolding find_None_iff
      proof
        assume "\<exists>i. i \<in> set (rev [0..<length (map fst xs)]) \<and> rw_level (map fst xs ! i) < rw_level (map fst ys ! j)"
        then obtain i where "i < length xs" "rw_level (fst (xs ! i)) < rw_level (fst (ys ! j))" using j' by auto
        with x l(1) show False by auto
      qed
      with e None l show ?thesis by (simp add: j)
    next
      case (Some i)
      with e y j' show ?thesis by (auto simp: j)
    qed
  qed
qed

lemma nested_Nil [simp]: "nested l p []"
  by (simp add: nested_def)

lemma nested_concat: "(\<And>x. x \<in> set xss \<Longrightarrow> nested l p x) \<Longrightarrow> nested l p (concat xss)"
  by (induction xss) (auto intro: nested_append)

lemma nested_Cons:
  assumes "rw_level r = l" and "nested (Suc l) (Some (rw_id r)) ys"
  shows "nested l p ((r, p) # ys)"
  unfolding nested_def
proof (intro allI impI)
  fix k assume k: "k < length ((r, p) # ys)"
  show "l \<le> rw_level (fst (((r, p) # ys) ! k)) \<and>
        (case parent_row k (map fst ((r, p) # ys)) of
           None \<Rightarrow> rw_level (fst (((r, p) # ys) ! k)) = l \<and> snd (((r, p) # ys) ! k) = p
         | Some j \<Rightarrow> snd (((r, p) # ys) ! k) = Some (rw_id (fst (((r, p) # ys) ! j))))"
  proof (cases k)
    case 0
    with assms(1) show ?thesis by (simp add: parent_row_def)
  next
    case (Suc j)
    with k have j: "j < length ys" by simp
    note e = parent_row_append [of "[r]" j "map fst ys"]
    have y: "Suc l \<le> rw_level (fst (ys ! j))"
      "case parent_row j (map fst ys) of None \<Rightarrow> rw_level (fst (ys ! j)) = Suc l \<and> snd (ys ! j) = Some (rw_id r)
         | Some i \<Rightarrow> snd (ys ! j) = Some (rw_id (fst (ys ! i)))"
      using assms(2) j by (auto simp: nested_def)
    with e j assms(1) show ?thesis by (auto simp: Suc split: option.splits)
  qed
qed

lemma length_parents: "length (item_parents p t) = length (render_tree_item l t)"
proof (induction t arbitrary: p l)
  case (TreeItem i n e cs)
  have "sum_list (map (length \<circ> item_parents (Some i)) cs) = sum_list (map (length \<circ> render_tree_item (Suc l)) cs)"
    by (rule arg_cong [where f = sum_list]) (simp add: TreeItem)
  then show ?case by (simp add: length_concat comp_def)
qed

lemma zip_concat: "map length xss = map length yss \<Longrightarrow> zip (concat xss) (concat yss) = concat (map (\<lambda>(xs, ys). zip xs ys) (zip xss yss))"
proof (induction xss arbitrary: yss)
  case (Cons x xss)
  then show ?case by (cases yss) (auto simp: zip_append)
qed simp

lemma zip_items:
  "zip (concat (map (render_tree_item l) ts)) (concat (map (item_parents p) ts)) = concat (map (\<lambda>t. zip (render_tree_item l t) (item_parents p t)) ts)"
  by (subst zip_concat) (simp_all add: length_parents [of _ _ l] zip_map1 zip_map2 zip_same_conv_map comp_def)

lemma nested_item: "nested l p (zip (render_tree_item l t) (item_parents p t))"
proof (induction t arbitrary: l p)
  case (TreeItem i n e cs)
  have "nested (Suc l) (Some i) (concat (map (\<lambda>t. zip (render_tree_item (Suc l) t) (item_parents (Some i) t)) cs))"
    by (rule nested_concat) (auto simp: TreeItem)
  then show ?case by (auto simp: zip_items intro!: nested_Cons)
qed

lemma nested_rows: "nested 1 None (zip (render_tree_items 1 items) (row_parents items))"
  unfolding render_tree_items_def row_parents_def zip_items by (rule nested_concat) (auto simp: nested_item)

lemma length_row_parents [simp]: "length (row_parents items) = length (render_tree_items l items)"
proof -
  have "sum_list (map (length \<circ> item_parents None) items) = sum_list (map (length \<circ> render_tree_item l) items)"
    by (rule arg_cong [where f = sum_list]) (simp add: length_parents [of _ _ l])
  then show ?thesis by (simp add: render_tree_items_def row_parents_def length_concat comp_def)
qed

text \<open>
  The left arrow key on a row that is not expanded moves the focus to the row of the item it is a
  child of; on an outermost row it changes nothing.
\<close>

theorem arrow_left_goes_to_parent:
  assumes "v = fold apply_tree es (new_tree items)" and "tv_focus v = Some k"
    and "find_item (rw_id (tv_rows v ! k)) (tv_items v) = Some t" and "\<not> tr_expanded t \<or> tr_children t = []"
  shows "case row_parents (tv_items v) ! k of
      None \<Rightarrow> tree_key_down ''ArrowLeft'' v = v
    | Some p \<Rightarrow> \<exists>j < k. tv_focus (tree_key_down ''ArrowLeft'' v) = Some j \<and> rw_id (tv_rows v ! j) = p"
proof -
  have "tree_ok (new_tree items)" unfolding new_tree_def by (rule render_ok)
  then have v: "tree_ok v" unfolding assms(1) by (intro fold_keeps [where P = tree_ok]) (auto intro: tree_step_ok)
  have rows: "tv_rows v = render_tree_items 1 (tv_items v)" using v by (simp add: tree_ok_def)
  have k: "k < length (tv_rows v)" using v assms(2) by (rule focused_row)
  have key: "tree_key_down ''ArrowLeft'' v = focus_tree_row (parent_row k (tv_rows v)) v"
    using assms(2-4) by (auto simp: tree_key_down_def has_children_def)
  have n: "nested 1 None (zip (tv_rows v) (row_parents (tv_items v)))" unfolding rows by (rule nested_rows)
  have len: "length (row_parents (tv_items v)) = length (tv_rows v)" unfolding rows by (rule length_row_parents)
  then have m: "map fst (zip (tv_rows v) (row_parents (tv_items v))) = tv_rows v" by (simp add: map_fst_zip)
  let ?z = "zip (tv_rows v) (row_parents (tv_items v))"
  have z: "case parent_row k (tv_rows v) of None \<Rightarrow> rw_level (fst (?z ! k)) = 1 \<and> snd (?z ! k) = None
      | Some j \<Rightarrow> snd (?z ! k) = Some (rw_id (fst (?z ! j)))"
    using n k len unfolding nested_def m by (metis length_zip min.idem)
  show ?thesis
  proof (cases "parent_row k (tv_rows v)")
    case None
    with z k len have "row_parents (tv_items v) ! k = None" by simp
    then show ?thesis by (simp add: key None focus_tree_row_def)
  next
    case (Some j)
    then have j: "j < k" by (rule parent_row_less)
    with z k len Some have "row_parents (tv_items v) ! k = Some (rw_id (tv_rows v ! j))" by simp
    then show ?thesis using j by (simp add: key Some focus_tree_row_def)
  qed
qed

theorem arrow_left_goes_to_parent_witness:
  "let v = apply_tree (TvFocus 1) (new_tree [TreeItem ''a'' ''A'' True [TreeItem ''b'' ''B'' False []]])
   in \<exists>j < 1. tv_focus (tree_key_down ''ArrowLeft'' v) = Some j \<and> rw_id (tv_rows v ! j) = ''a''"
proof -
  let ?items = "[TreeItem ''a'' ''A'' True [TreeItem ''b'' ''B'' False []]]"
  define v where "v = fold apply_tree [TvFocus 1] (new_tree ?items)"
  have "tv_focus v = Some 1" "tv_items v = ?items" "rw_id (tv_rows v ! 1) = ''b''"
    by (simp_all add: v_def new_tree_def render_tree_def render_tree_items_def focus_tree_row_def Let_def)
  moreover from this have "find_item (rw_id (tv_rows v ! 1)) (tv_items v) = Some (TreeItem ''b'' ''B'' False [])" by simp
  ultimately have "\<exists>j < 1. tv_focus (tree_key_down ''ArrowLeft'' v) = Some j \<and> rw_id (tv_rows v ! j) = ''a''"
    using arrow_left_goes_to_parent [OF v_def, of 1 "TreeItem ''b'' ''B'' False []"] by (simp add: row_parents_def)
  moreover have "v = apply_tree (TvFocus 1) (new_tree ?items)" by (simp add: v_def)
  ultimately show ?thesis unfolding Let_def by (simp only:)
qed

end
