(* ===== verification/TerminalView.thy ===== *)
theory TerminalView
  imports Terminal Strings
begin

text \<open>
  \<open>packages/workbench/src/contrib/terminal/terminal-view.ts\<close>: the panel of the terminals, over the
  state of \<open>Terminal\<close>.  An xterm instance is the log of what it was told since it was opened, the
  terminal emulator itself is not part of the repository; its screen is what it was given since its
  last reset.  The elements of the list of terminals are numbered.  What the fit addon measures (or
  that it throws) is an argument of the step that fits.
\<close>

section \<open>The view\<close>

datatype xterm_call = XtermWrite string | XtermReset

record xterm_instance =
  xi_label :: string
  xi_log :: "xterm_call list"
  xi_output :: string
  xi_hidden :: bool

record terminal_tab =
  tb_resource :: string
  tb_title :: string
  tb_active :: bool

record terminal_view =
  tv_service :: terminals
  tv_instances :: "(string, xterm_instance) omap"
  tv_tabs :: "terminal_tab obj list"
  tv_next :: nat
  tv_hidden :: bool
  tv_collapsed :: bool
  tv_list_shown :: bool
  tv_empty_hidden :: bool
  tv_label :: "string option"
  tv_fits :: nat

fun screen_after :: "string \<Rightarrow> xterm_call list \<Rightarrow> string" where
  "screen_after t [] = t"
| "screen_after t (XtermWrite u # cs) = screen_after (t @ u) cs"
| "screen_after t (XtermReset # cs) = screen_after [] cs"

definition xterm_screen :: "xterm_instance \<Rightarrow> string" where
  "xterm_screen x = screen_after [] (xi_log x)"

definition write_output :: "string \<Rightarrow> xterm_instance \<Rightarrow> xterm_instance" where
  "write_output t x =
     (if t = xi_output x then x
      else x\<lparr>xi_log := xi_log x @
               (if starts_with (xi_output x) t then [XtermWrite (drop (length (xi_output x)) t)] else [XtermReset, XtermWrite t]),
             xi_output := t\<rparr>)"

definition create_instance :: "agent_terminal \<Rightarrow> xterm_instance" where
  "create_instance t = write_output (tl_output t) \<lparr>xi_label = tl_title t, xi_log = [], xi_output = [], xi_hidden = False\<rparr>"

definition sync_instance :: "agent_terminal \<Rightarrow> (string, xterm_instance) omap \<Rightarrow> (string, xterm_instance) omap" where
  "sync_instance t m =
     om_set (tl_resource t)
       (case om_get m (tl_resource t) of Some x \<Rightarrow> write_output (tl_output t) x | None \<Rightarrow> create_instance t) m"

definition drop_instances :: "agent_terminal list \<Rightarrow> (string, xterm_instance) omap \<Rightarrow> (string, xterm_instance) omap" where
  "drop_instances ts m = filter (\<lambda>(r, x). r \<in> set (map tl_resource ts)) m"

definition make_tab :: "terminals \<Rightarrow> agent_terminal \<Rightarrow> terminal_tab" where
  "make_tab s t = \<lparr>tb_resource = tl_resource t, tb_title = tl_title t, tb_active = (Some (tl_resource t) = tm_active s)\<rparr>"

text \<open>The elements there are, by their resource (of two the later), are taken once each.\<close>

fun render_tabs :: "terminals \<Rightarrow> agent_terminal list \<Rightarrow> (string, nat) omap \<Rightarrow> nat \<Rightarrow> terminal_tab obj list \<times> nat" where
  "render_tabs s [] existing n = ([], n)"
| "render_tabs s (t # ts) existing n =
     (case om_get existing (tl_resource t) of
        Some i \<Rightarrow> apfst (\<lambda>rest. Obj i (make_tab s t) # rest) (render_tabs s ts (om_del (tl_resource t) existing) n)
      | None \<Rightarrow> apfst (\<lambda>rest. Obj n (make_tab s t) # rest) (render_tabs s ts existing (Suc n)))"

definition render_instance_list :: "terminal_view \<Rightarrow> terminal_view" where
  "render_instance_list v =
     (let s = tv_service v;
          existing = fold (\<lambda>x. om_set (tb_resource (val x)) (oid x)) (tv_tabs v) [];
          (tabs, n) = render_tabs s (tm_terminals s) existing (tv_next v)
      in v\<lparr>tv_tabs := tabs, tv_next := n, tv_list_shown := (length (tm_terminals s) > 1)\<rparr>)"

definition select_active_instance :: "terminal_view \<Rightarrow> terminal_view" where
  "select_active_instance v =
     (let s = tv_service v
      in v\<lparr>tv_instances := map (\<lambda>(r, x). (r, x\<lparr>xi_hidden := (Some r \<noteq> tm_active s)\<rparr>)) (tv_instances v),
           tv_label := map_option tl_title (find (\<lambda>t. Some (tl_resource t) = tm_active s) (tm_terminals s)),
           tv_fits := Suc (tv_fits v)\<rparr>)"

definition update_view :: "terminal_view \<Rightarrow> terminal_view" where
  "update_view v =
     (let s = tv_service v;
          v1 = v\<lparr>tv_hidden := (\<not> tg_open (tm_group s)), tv_collapsed := tg_collapsed (tm_group s),
                 tv_instances := fold sync_instance (tm_terminals s) (drop_instances (tm_terminals s) (tv_instances v))\<rparr>;
          v2 = select_active_instance (render_instance_list v1)
      in v2\<lparr>tv_empty_hidden := (tm_terminals s \<noteq> [])\<rparr>)"

definition new_terminal_view :: "terminals \<Rightarrow> terminal_view" where
  "new_terminal_view s =
     update_view \<lparr>tv_service = s, tv_instances = [], tv_tabs = [], tv_next = 0, tv_hidden = False, tv_collapsed = False,
       tv_list_shown = False, tv_empty_hidden = False, tv_label = None, tv_fits = 0\<rparr>"

text \<open>Whatever happens to the terminals and the panel; the view updates when it is told.\<close>

definition service_step :: "'a terminal_op \<Rightarrow> terminal_view \<Rightarrow> terminal_view" where
  "service_step e v =
     (let s = tv_service v; s' = apply_terminal e s; v' = v\<lparr>tv_service := s'\<rparr>
      in if tm_fired s' = tm_fired s \<and> tg_fired (tm_group s') = tg_fired (tm_group s) then v' else update_view v')"

text \<open>The microtask that fits, or the resize observer: the measured width and size, or nothing where the addon throws.\<close>

definition fit_active_terminal :: "'a attachment \<Rightarrow> nat \<Rightarrow> (rat \<times> rat) option \<Rightarrow> terminal_view \<Rightarrow> terminal_view" where
  "fit_active_terminal wa width dims v =
     (if \<not> tg_open (tm_group (tv_service v)) \<or> tv_hidden v then v
      else (case tm_active (tv_service v) of
              None \<Rightarrow> v
            | Some r \<Rightarrow>
                if r = [] \<or> \<not> om_has (tv_instances v) r \<or> width = 0 then v
                else (case dims of None \<Rightarrow> v | Some (cols, rows) \<Rightarrow> service_step (TmResize wa r cols rows) v)))"

definition fit_microtask :: "'a attachment \<Rightarrow> nat \<Rightarrow> (rat \<times> rat) option \<Rightarrow> terminal_view \<Rightarrow> terminal_view" where
  "fit_microtask wa width dims v =
     (if tv_fits v = 0 then v else fit_active_terminal wa width dims (v\<lparr>tv_fits := tv_fits v - 1\<rparr>))"

text \<open>What the user does: typing in an instance, a click on an element of the list, and the three actions.\<close>

definition type_data :: "'a attachment \<Rightarrow> string \<Rightarrow> string \<Rightarrow> terminal_view \<Rightarrow> terminal_view" where
  "type_data wa r data v = (if om_has (tv_instances v) r then service_step (TmInput wa r data) v else v)"

definition click_terminal_tab :: "nat \<Rightarrow> terminal_view \<Rightarrow> terminal_view" where
  "click_terminal_tab i v =
     (case find (\<lambda>x. oid x = i) (tv_tabs v) of
        None \<Rightarrow> v
      | Some x \<Rightarrow> service_step (TmSelect (tb_resource (val x)) :: unit terminal_op) v)"

definition click_new :: "'a attachment \<Rightarrow> terminal_view \<Rightarrow> terminal_view" where
  "click_new wa v = service_step (TmCreate wa) v"

text \<open>Also hidden while there is no terminal.\<close>

definition click_kill :: "'a attachment \<Rightarrow> terminal_view \<Rightarrow> terminal_view" where
  "click_kill wa v =
     (if \<not> tv_empty_hidden v then v
      else (case tm_active (tv_service v) of
              None \<Rightarrow> v
            | Some r \<Rightarrow> if r = [] then v else service_step (TmDispose wa r) v))"

definition click_hide :: "terminal_view \<Rightarrow> terminal_view" where
  "click_hide v = service_step (TmToggleOpen :: unit terminal_op) v"

datatype 'a terminal_view_op =
    TvService "'a terminal_op"
  | TvFit "'a attachment" nat "(rat \<times> rat) option"
  | TvMicrotask "'a attachment" nat "(rat \<times> rat) option"
  | TvType "'a attachment" string string
  | TvTab nat
  | TvNew "'a attachment"
  | TvKill "'a attachment"
  | TvHide

fun apply_terminal_view :: "'a terminal_view_op \<Rightarrow> terminal_view \<Rightarrow> terminal_view" where
  "apply_terminal_view (TvService e) v = service_step e v"
| "apply_terminal_view (TvFit wa width dims) v = fit_active_terminal wa width dims v"
| "apply_terminal_view (TvMicrotask wa width dims) v = fit_microtask wa width dims v"
| "apply_terminal_view (TvType wa r data) v = type_data wa r data v"
| "apply_terminal_view (TvTab i) v = click_terminal_tab i v"
| "apply_terminal_view (TvNew wa) v = click_new wa v"
| "apply_terminal_view (TvKill wa) v = click_kill wa v"
| "apply_terminal_view TvHide v = click_hide v"

section \<open>The view shows the terminals\<close>

definition last_output :: "agent_terminal list \<Rightarrow> string \<Rightarrow> string option" where
  "last_output ts = map_of (rev (map (\<lambda>t. (tl_resource t, tl_output t)) ts))"

definition true_screen :: "xterm_instance \<Rightarrow> bool" where
  "true_screen x \<longleftrightarrow> xterm_screen x = xi_output x"

definition shows_terminals :: "terminal_view \<Rightarrow> bool" where
  "shows_terminals v \<longleftrightarrow>
     (\<forall>r. map_option xterm_screen (om_get (tv_instances v) r) = last_output (tm_terminals (tv_service v)) r) \<and>
     (\<forall>r. map_option xi_hidden (om_get (tv_instances v) r) =
        map_option (\<lambda>t. Some r \<noteq> tm_active (tv_service v)) (last_output (tm_terminals (tv_service v)) r)) \<and>
     (\<forall>r x. om_get (tv_instances v) r = Some x \<longrightarrow> true_screen x) \<and>
     map val (tv_tabs v) = map (make_tab (tv_service v)) (tm_terminals (tv_service v)) \<and>
     tv_hidden v = (\<not> tg_open (tm_group (tv_service v))) \<and> tv_empty_hidden v = (tm_terminals (tv_service v) \<noteq> [])"

lemma screen_append: "screen_after t (cs @ ds) = screen_after (screen_after t cs) ds"
proof (induction cs arbitrary: t)
  case (Cons c cs)
  then show ?case by (cases c) simp_all
qed simp

lemma write_output_screen:
  assumes "true_screen x"
  shows "true_screen (write_output t x)" and "xterm_screen (write_output t x) = t"
  using assms by (auto simp: true_screen_def xterm_screen_def write_output_def screen_append starts_with_iff)

lemma create_instance_screen: "true_screen (create_instance t)" "xterm_screen (create_instance t) = tl_output t"
  unfolding create_instance_def by (rule write_output_screen; simp add: true_screen_def xterm_screen_def)+

lemma last_output_Cons:
  "last_output (t # ts) r = (case last_output ts r of Some x \<Rightarrow> Some x | None \<Rightarrow> if r = tl_resource t then Some (tl_output t) else None)"
  by (simp add: last_output_def map_add_def split: option.split)

lemma last_output_None: "last_output ts r = None \<longleftrightarrow> r \<notin> set (map tl_resource ts)"
  by (simp add: last_output_def map_of_eq_None_iff image_image)

definition all_true :: "(string, xterm_instance) omap \<Rightarrow> bool" where
  "all_true m \<longleftrightarrow> (\<forall>r x. om_get m r = Some x \<longrightarrow> true_screen x)"

lemma sync_all:
  assumes "all_true m"
  shows "all_true (fold sync_instance ts m) \<and> map_option xterm_screen (om_get (fold sync_instance ts m) r) =
    (case last_output ts r of Some t \<Rightarrow> Some t | None \<Rightarrow> map_option xterm_screen (om_get m r))"
  using assms
proof (induction ts arbitrary: m)
  case (Cons t ts)
  have g: "om_get (sync_instance t m) k = (if k = tl_resource t
      then Some (case om_get m k of Some x \<Rightarrow> write_output (tl_output t) x | None \<Rightarrow> create_instance t) else om_get m k)" for k
    by (simp add: sync_instance_def)
  have x: "true_screen (case om_get m k of Some x \<Rightarrow> write_output (tl_output t) x | None \<Rightarrow> create_instance t)"
    "xterm_screen (case om_get m k of Some x \<Rightarrow> write_output (tl_output t) x | None \<Rightarrow> create_instance t) = tl_output t" for k
    using Cons.prems write_output_screen create_instance_screen by (auto simp: all_true_def split: option.split)
  have "all_true (sync_instance t m)" using Cons.prems x(1) unfolding all_true_def g by (auto split: if_splits)
  from Cons.IH [OF this] show ?case using x(2) by (auto simp: last_output_Cons g split: option.split)
qed (simp add: last_output_def)

lemma get_drop: "om_get (drop_instances ts m) r = (if r \<in> set (map tl_resource ts) then om_get m r else None)"
  by (induction m) (auto simp: drop_instances_def)

lemma get_map_snd: "om_get (map (\<lambda>(k, v). (k, f k v)) xs) k = map_option (f k) (om_get xs k)"
  by (induction xs) auto

lemma render_tabs_content: "map val (fst (render_tabs s ts existing n)) = map (make_tab s) ts"
  by (induction s ts existing n rule: render_tabs.induct) (simp_all split: option.split)

lemma update_shows: "all_true (tv_instances v) \<Longrightarrow> shows_terminals (update_view v)"
proof -
  assume t: "all_true (tv_instances v)"
  define s where "s = tv_service v"
  define m where "m = fold sync_instance (tm_terminals s) (drop_instances (tm_terminals s) (tv_instances v))"
  have d: "all_true (drop_instances (tm_terminals s) (tv_instances v))" using t unfolding all_true_def get_drop by (auto split: if_splits)
  have m: "all_true m" "map_option xterm_screen (om_get m r) = last_output (tm_terminals s) r" for r
  proof -
    show "all_true m" using sync_all [OF d] by (simp add: m_def)
    show "map_option xterm_screen (om_get m r) = last_output (tm_terminals s) r"
      using sync_all [OF d, of "tm_terminals s" r] last_output_None [of "tm_terminals s" r]
      by (auto simp: m_def get_drop split: option.splits)
  qed
  obtain tabs n where rt: "render_tabs s (tm_terminals s) (fold (\<lambda>x. om_set (tb_resource (val x)) (oid x)) (tv_tabs v) []) (tv_next v) = (tabs, n)"
    by fastforce
  have tabs: "map val tabs = map (make_tab s) (tm_terminals s)"
    using render_tabs_content [of s "tm_terminals s"] rt by (metis fst_conv)
  let ?f = "\<lambda>r x. x\<lparr>xi_hidden := (Some r \<noteq> tm_active s)\<rparr>"
  have i: "tv_instances (update_view v) = map (\<lambda>(r, x). (r, ?f r x)) m"
    by (simp add: update_view_def select_active_instance_def render_instance_list_def Let_def s_def [symmetric] m_def [symmetric] rt)
  have o: "tv_service (update_view v) = s" "tv_tabs (update_view v) = tabs" "tv_hidden (update_view v) = (\<not> tg_open (tm_group s))"
    "tv_empty_hidden (update_view v) = (tm_terminals s \<noteq> [])"
    by (simp_all add: update_view_def select_active_instance_def render_instance_list_def Let_def s_def [symmetric] rt)
  have scr: "xterm_screen (?f r x) = xterm_screen x" "true_screen (?f r x) = true_screen x" for r x by (simp_all add: xterm_screen_def true_screen_def)
  have h: "map_option xi_hidden (map_option (?f r) y) = map_option (\<lambda>t. Some r \<noteq> tm_active s) (map_option xterm_screen y)" for r y
    by (cases y) simp_all
  show ?thesis unfolding shows_terminals_def i get_map_snd o
  proof (intro conjI allI impI)
    show "map_option xterm_screen (map_option (?f r) (om_get m r)) = last_output (tm_terminals s) r" for r
      using m(2) [of r] by (cases "om_get m r") (simp_all add: scr)
    show "map_option xi_hidden (map_option (?f r) (om_get m r)) = map_option (\<lambda>t. Some r \<noteq> tm_active s) (last_output (tm_terminals s) r)" for r
      unfolding h m(2) ..
    show "true_screen x" if "map_option (?f r) (om_get m r) = Some x" for r x
      using m(1) that unfolding all_true_def by (cases "om_get m r") (auto simp: scr)
  qed (use tabs in simp_all)
qed

text \<open>The terminals, the active one and the panel change only with a notification.\<close>

lemma terminal_told:
  assumes "tm_fired (apply_terminal e s) = tm_fired s" and "tg_fired (tm_group (apply_terminal e s)) = tg_fired (tm_group s)"
  shows "tm_terminals (apply_terminal e s) = tm_terminals s \<and> tm_active (apply_terminal e s) = tm_active s \<and>
    tg_open (tm_group (apply_terminal e s)) = tg_open (tm_group s)"
  using assms
  by (cases e)
    (auto simp: create_begin_def create_end_def dispose_begin_def dispose_end_def select_terminal_def terminal_panel_height_def
      terminal_input_def terminal_resize_def reattach_begin_def reattach_end_def append_output_def tm_fire_def tm_call_def toggle_open_def
      tg_set_open_def toggle_collapse_def Let_def split: option.splits prod.splits sum.splits if_splits)

lemma service_step_shows: "shows_terminals v \<Longrightarrow> shows_terminals (service_step e v)"
proof -
  assume v: "shows_terminals v"
  let ?s = "apply_terminal e (tv_service v)"
  show ?thesis
  proof (cases "tm_fired ?s = tm_fired (tv_service v) \<and> tg_fired (tm_group ?s) = tg_fired (tm_group (tv_service v))")
    case True
    then show ?thesis using v terminal_told [of e "tv_service v"] by (simp add: service_step_def Let_def shows_terminals_def make_tab_def)
  next
    case False
    have "all_true (tv_instances (v\<lparr>tv_service := ?s\<rparr>))" using v by (simp add: shows_terminals_def all_true_def)
    from update_shows [OF this] show ?thesis using False by (auto simp: service_step_def Let_def)
  qed
qed

lemma fits_frame: "shows_terminals (v\<lparr>tv_fits := n\<rparr>) = shows_terminals v"
  by (simp add: shows_terminals_def)

lemma view_step_shows: "shows_terminals v \<Longrightarrow> shows_terminals (apply_terminal_view e v)"
proof -
  assume v: "shows_terminals v"
  have f: "shows_terminals (fit_active_terminal wa width dims u)" if "shows_terminals u" for wa :: "'a attachment" and width dims u
    using that by (simp add: fit_active_terminal_def service_step_shows split: option.split prod.split)
  show ?thesis using v
    by (cases e) (simp_all add: service_step_shows f fit_microtask_def fits_frame type_data_def click_terminal_tab_def click_new_def click_kill_def
        click_hide_def split: option.split)
qed

text \<open>
  Whatever the host, the services and the user do, the screen of every terminal's emulator is the
  terminal's output, although only what is new is written to it, exactly the active terminal's is
  visible, terminals that are gone have none, and the list of terminals shows them in their order.
\<close>

theorem terminal_view_shows_outputs:
  "let v = fold apply_terminal_view es (new_terminal_view (new_terminals l)); s = tv_service v
   in (\<forall>r. map_option xterm_screen (om_get (tv_instances v) r) = last_output (tm_terminals s) r) \<and>
      (\<forall>r. map_option xi_hidden (om_get (tv_instances v) r) = map_option (\<lambda>t. Some r \<noteq> tm_active s) (last_output (tm_terminals s) r)) \<and>
      map (\<lambda>x. (tb_resource (val x), tb_title (val x), tb_active (val x))) (tv_tabs v) =
        map (\<lambda>t. (tl_resource t, tl_title t, Some (tl_resource t) = tm_active s)) (tm_terminals s) \<and>
      tv_hidden v = (\<not> tg_open (tm_group s))"
proof -
  define v where "v = fold apply_terminal_view es (new_terminal_view (new_terminals l))"
  have "shows_terminals (new_terminal_view (new_terminals l))"
    unfolding new_terminal_view_def by (rule update_shows) (simp add: all_true_def)
  then have v: "shows_terminals v" unfolding v_def by (rule fold_keeps [where P = shows_terminals, rotated]) (rule view_step_shows)
  then have "map val (tv_tabs v) = map (make_tab (tv_service v)) (tm_terminals (tv_service v))" by (simp add: shows_terminals_def)
  from arg_cong [OF this, of "map (\<lambda>x. (tb_resource x, tb_title x, tb_active x))"]
  have "map (\<lambda>x. (tb_resource (val x), tb_title (val x), tb_active (val x))) (tv_tabs v) =
      map (\<lambda>t. (tl_resource t, tl_title t, Some (tl_resource t) = tm_active (tv_service v))) (tm_terminals (tv_service v))"
    by (simp add: make_tab_def comp_def)
  with v show ?thesis unfolding v_def [symmetric] Let_def by (simp add: shows_terminals_def)
qed

end
