(* ===== verification/Explorer.thy ===== *)
theory Explorer
  imports Resources Sessions Strings
begin

text \<open>
  \<open>packages/workbench/src/contrib/workspace/workspace-explorer-view.ts\<close>: the panes of a workspace's
  files and changes, over the state of \<open>Resources\<close>.

  The workspace service is read as the selected workspace and the list of workspaces.  The calls of
  \<open>zaw.workspace.openDirectory\<close> that have not settled are part of the state.  Whether the list's rows
  are tall is a matter of the browser and left out; \<open>VirtualList\<close> models the list.  The text of a
  listing that recurs is not computed: \<open>visit\<close> may not return.
\<close>

section \<open>Files\<close>

record file_row =
  fr_file :: workspace_file
  fr_depth :: nat

text \<open>The extension is the part after the last dot, or all of a name without one.\<close>

definition glyph_for_file :: "workspace_file \<Rightarrow> string" where
  "glyph_for_file f =
     (let extension = to_lower (last (split_by (\<lambda>c. c = CHR ''.'') (fl_name f)))
      in if fl_directory f then ''folder''
         else if extension \<in> {''md'', ''txt''} then ''markdown''
         else if extension \<in> {''json'', ''yaml'', ''yml''} then ''json''
         else ''file'')"

definition kids_in :: "(string, workspace_file list) omap \<Rightarrow> string \<Rightarrow> workspace_file list" where
  "kids_in children u = (case om_get children u of None \<Rightarrow> [] | Some es \<Rightarrow> es)"

partial_function (option) visit ::
  "(string, workspace_file list) omap \<Rightarrow> string list \<Rightarrow> workspace_file list \<Rightarrow> nat \<Rightarrow> file_row list option" where
  "visit children expanded entries depth =
     (case entries of
        [] \<Rightarrow> Some []
      | f # fs \<Rightarrow>
          Option.bind
            (if fl_directory f \<and> fl_uri f \<in> set expanded
             then visit children expanded (kids_in children (fl_uri f)) (Suc depth)
             else Some [])
            (\<lambda>sub. Option.bind (visit children expanded fs depth)
              (\<lambda>rest. Some (\<lparr>fr_file = f, fr_depth = depth\<rparr> # sub @ rest))))"

lemma visit_eqs:
  "visit children expanded [] depth = Some []"
  "visit children expanded (f # fs) depth =
     Option.bind
       (if fl_directory f \<and> fl_uri f \<in> set expanded
        then visit children expanded (kids_in children (fl_uri f)) (Suc depth) else Some [])
       (\<lambda>sub. Option.bind (visit children expanded fs depth) (\<lambda>rest. Some (\<lparr>fr_file = f, fr_depth = depth\<rparr> # sub @ rest)))"
  by (subst visit.simps, simp)+

record files_pane =
  fp_resources :: resources
  fp_workspaces :: "workspace list"
  fp_selected :: "string option"
  fp_expanded :: "string list"
  fp_loading :: "string list"
  fp_opening :: "string list"
  fp_uri :: string
  fp_root :: string
  fp_rows :: "file_row list"
  fp_list_hidden :: bool
  fp_empty :: "string option"

definition roots :: "string \<Rightarrow> resources \<Rightarrow> workspace_file list" where
  "roots ws s =
     (case om_get (children_of ws s) [] of
        Some es \<Rightarrow> es
      | None \<Rightarrow> (case om_get (rs_files s) ws of Some es \<Rightarrow> es | None \<Rightarrow> []))"

definition project_rows :: "string \<Rightarrow> files_pane \<Rightarrow> file_row list option" where
  "project_rows ws s = visit (children_of ws (fp_resources s)) (fp_expanded s) (roots ws (fp_resources s)) 0"

definition load_state_of :: "string option \<Rightarrow> resources \<Rightarrow> load_state" where
  "load_state_of ws s =
     (case ws of
        None \<Rightarrow> LoadIdle
      | Some i \<Rightarrow> if i = [] then LoadIdle else (case om_get (rs_states s) i of None \<Rightarrow> LoadIdle | Some x \<Rightarrow> x))"

definition empty_text :: "string \<Rightarrow> string \<Rightarrow> string option \<Rightarrow> resources \<Rightarrow> string" where
  "empty_text none idle ws s =
     (case ws of
        None \<Rightarrow> none
      | Some i \<Rightarrow>
          if i = [] then none
          else if load_state_of ws s = LoadLoading then ''Loading workspace resources'' @ bytes [226, 128, 166]
          else if load_state_of ws s = LoadError
            then (case om_get (rs_errors s) i of None \<Rightarrow> ''Unable to load workspace resources''
                  | Some e \<Rightarrow> if e = [] then ''Unable to load workspace resources'' else e)
          else idle)"

text \<open>\<open>update\<close>; nothing where it does not return.\<close>

definition update_files :: "files_pane \<Rightarrow> files_pane option" where
  "update_files s =
     map_option (\<lambda>rows.
       s\<lparr>fp_root := (case find (\<lambda>x. Some (wk_id x) = fp_selected s) (fp_workspaces s) of None \<Rightarrow> ''No workspace attached'' | Some x \<Rightarrow> wk_name x),
         fp_rows := rows, fp_list_hidden := (rows = []),
         fp_empty := (if rows = [] then Some (empty_text ''Select a workspace to browse its files'' ''No files loaded yet''
                                             (fp_selected s) (fp_resources s)) else None)\<rparr>)
       (case fp_selected s of None \<Rightarrow> Some [] | Some ws \<Rightarrow> if ws = [] then Some [] else project_rows ws s)"

text \<open>
  A click on a row: the commands of the workspace's files begin.  That of a directory is under way until
  it settles, whichever way, and \<open>finally\<close> follows.
\<close>

definition click_file :: "'a attachment \<Rightarrow> string \<Rightarrow> bool \<Rightarrow> files_pane \<Rightarrow> files_pane option" where
  "click_file wa uri directory s =
     (if uri = [] then Some s
      else
        let s1 = s\<lparr>fp_uri := uri\<rparr>
        in if \<not> directory then Some (s1\<lparr>fp_resources := open_file_begin wa uri (fp_resources s1)\<rparr>)
           else if uri \<in> set (fp_expanded s1) then update_files (s1\<lparr>fp_expanded := os_del uri (fp_expanded s1)\<rparr>)
           else update_files (s1\<lparr>fp_expanded := os_add uri (fp_expanded s1), fp_loading := os_add uri (fp_loading s1),
                                 fp_opening := fp_opening s1 @ [uri], fp_resources := directory_begin wa uri (fp_resources s1)\<rparr>))"

definition directory_opened :: "string \<Rightarrow> files_pane \<Rightarrow> files_pane option" where
  "directory_opened uri s =
     (if uri \<in> set (fp_opening s)
      then update_files (s\<lparr>fp_opening := remove1 uri (fp_opening s), fp_loading := os_del uri (fp_loading s)\<rparr>)
      else Some s)"

text \<open>What a row shows: its classes, its selection, its level and whether it is expanded.\<close>

record shown_row =
  sr_uri :: string
  sr_selected :: bool
  sr_loading :: bool
  sr_twisty :: string
  sr_icon :: string
  sr_name :: string
  sr_level :: nat
  sr_expanded :: "bool option"

definition update_file_row :: "files_pane \<Rightarrow> file_row \<Rightarrow> shown_row" where
  "update_file_row s r =
     (let f = fr_file r; expanded = (fl_directory f \<and> fl_uri f \<in> set (fp_expanded s)); loading = (fl_uri f \<in> set (fp_loading s))
      in \<lparr>sr_uri = fl_uri f, sr_selected = (fl_uri f = fp_uri s), sr_loading = loading,
          sr_twisty = ''agent-file-twisty'' @
            (if loading then '' codicon codicon-loading''
             else if fl_directory f then '' codicon codicon-chevron-'' @ (if expanded then ''down'' else ''right'') else []),
          sr_icon = ''agent-file-icon codicon codicon-'' @ (if expanded then ''folder-opened'' else glyph_for_file f),
          sr_name = fl_name f, sr_level = fr_depth r + 1, sr_expanded = (if fl_directory f then Some expanded else None)\<rparr>)"

section \<open>The rows are the files under expanded directories\<close>

text \<open>The specification: the roots are shown, and what is in an expanded directory that is shown.\<close>

inductive shown_file :: "(string, workspace_file list) omap \<Rightarrow> string list \<Rightarrow> workspace_file list \<Rightarrow> workspace_file \<Rightarrow> nat \<Rightarrow> bool"
  for children :: "(string, workspace_file list) omap" and expanded :: "string list" and entries :: "workspace_file list" where
  root: "f \<in> set entries \<Longrightarrow> shown_file children expanded entries f 0"
| child: "shown_file children expanded entries d n \<Longrightarrow> fl_directory d \<Longrightarrow> fl_uri d \<in> set expanded \<Longrightarrow>
    om_get children (fl_uri d) = Some es \<Longrightarrow> f \<in> set es \<Longrightarrow> shown_file children expanded entries f (Suc n)"

lemma in_kids: "g \<in> set (kids_in children u) \<longleftrightarrow> (\<exists>es. om_get children u = Some es \<and> g \<in> set es)"
  by (cases "om_get children u") (simp_all add: kids_in_def)

abbreviation opened :: "string list \<Rightarrow> workspace_file \<Rightarrow> bool" where
  "opened expanded f \<equiv> fl_directory f \<and> fl_uri f \<in> set expanded"

lemma shown_below:
  assumes "shown_file children expanded (kids_in children (fl_uri f)) g m" and "opened expanded f"
  shows "shown_file children expanded (f # fs) g (Suc m)"
  using assms(1)
proof (induction rule: shown_file.induct)
  case (root g)
  then obtain es where "om_get children (fl_uri f) = Some es" "g \<in> set es" by (auto simp: in_kids)
  then show ?case using assms(2) by (intro shown_file.child [of _ _ _ f]) (auto intro: shown_file.root)
qed (auto intro: shown_file.child)

lemma shown_rest: "shown_file children expanded fs g n \<Longrightarrow> shown_file children expanded (f # fs) g n"
  by (induction rule: shown_file.induct) (auto intro: shown_file.intros)

lemma shown_split:
  "shown_file children expanded (f # fs) g n \<Longrightarrow>
   (g = f \<and> n = 0) \<or> (opened expanded f \<and> (\<exists>m. n = Suc m \<and> shown_file children expanded (kids_in children (fl_uri f)) g m)) \<or>
   shown_file children expanded fs g n"
proof (induction rule: shown_file.induct)
  case (root g)
  then show ?case by (auto intro: shown_file.root)
next
  case (child d n es g)
  from child.IH show ?case
  proof (elim disjE)
    assume d: "d = f \<and> n = 0"
    have "shown_file children expanded (kids_in children (fl_uri f)) g 0"
      using child.hyps d by (intro shown_file.root) (simp add: kids_in_def)
    then show ?thesis using child.hyps d by auto
  qed (use child.hyps in \<open>auto intro: shown_file.child\<close>)
qed

lemma shown_Cons:
  "shown_file children expanded (f # fs) g n \<longleftrightarrow>
   (g = f \<and> n = 0) \<or> (opened expanded f \<and> (\<exists>m. n = Suc m \<and> shown_file children expanded (kids_in children (fl_uri f)) g m)) \<or>
   shown_file children expanded fs g n"
  using shown_split shown_below shown_rest by (metis list.set_intros(1) shown_file.root)

lemma shown_Nil [simp]: "\<not> shown_file children expanded [] g n"
proof
  assume "shown_file children expanded [] g n"
  then show False by (induction rule: shown_file.induct) auto
qed

lemma visit_rows:
  "visit children expanded entries depth = Some rows \<Longrightarrow>
   set rows = {\<lparr>fr_file = g, fr_depth = depth + n\<rparr> | g n. shown_file children expanded entries g n}"
proof (induction rule: visit.raw_induct [rotated 1, consumes 1])
  case (1 visit children expanded entries depth rows)
  show ?case
  proof (cases entries)
    case Nil
    with 1(2) show ?thesis by simp
  next
    case (Cons f fs)
    from 1(2) Cons obtain sub rest where
      sub: "(if opened expanded f then visit children expanded (kids_in children (fl_uri f)) (Suc depth) else Some []) = Some sub"
      and rest: "visit children expanded fs depth = Some rest" and rows: "rows = \<lparr>fr_file = f, fr_depth = depth\<rparr> # sub @ rest"
      by (auto simp: bind_eq_Some_conv)
    have s: "set sub = (if opened expanded f
        then {\<lparr>fr_file = g, fr_depth = Suc depth + n\<rparr> | g n. shown_file children expanded (kids_in children (fl_uri f)) g n} else {})"
      using sub 1(1) by (auto split: if_splits)
    have r: "set rest = {\<lparr>fr_file = g, fr_depth = depth + n\<rparr> | g n. shown_file children expanded fs g n}"
      using 1(1) rest by blast
    show ?thesis unfolding rows Cons shown_Cons by (auto simp: s r)
  qed
qed

text \<open>Where the entries of a directory have longer URIs than the directory, the listing ends.\<close>

definition uris_grow :: "(string, workspace_file list) omap \<Rightarrow> bool" where
  "uris_grow children \<longleftrightarrow>
     (\<forall>u es f. om_get children u = Some es \<longrightarrow> u \<noteq> [] \<longrightarrow> f \<in> set es \<longrightarrow> length u < length (fl_uri f))"

lemma keys_bounded: "\<exists>l. \<forall>u es. om_get (m :: (string, 'a) omap) u = Some es \<longrightarrow> length u \<le> l"
proof -
  have "\<forall>u es. om_get m u = Some es \<longrightarrow> length u \<le> Max (insert 0 ((length \<circ> fst) ` set m))"
  proof (intro allI impI)
    fix u es assume "om_get m u = Some es"
    then have "(u, es) \<in> set m" by (rule map_of_SomeD)
    then show "length u \<le> Max (insert 0 ((length \<circ> fst) ` set m))" by (intro Max_ge) force+
  qed
  then show ?thesis by blast
qed

lemma visit_returns:
  assumes g: "uris_grow children" and l: "\<And>u es. om_get children u = Some es \<Longrightarrow> length u \<le> l" and e: "[] \<notin> set expanded"
  shows "\<forall>f \<in> set entries. opened expanded f \<longrightarrow> l < length (fl_uri f) + k \<Longrightarrow> \<exists>rows. visit children expanded entries depth = Some rows"
proof (induction k arbitrary: entries depth)
  case 0
  then show ?case
  proof (induction entries)
    case Nil
    show ?case by (subst visit.simps) simp
  next
    case (Cons f fs)
    then obtain rest where rest: "visit children expanded fs depth = Some rest" by auto
    have "om_get children (fl_uri f) = None" if "opened expanded f"
      using l [of "fl_uri f"] Cons.prems that by (cases "om_get children (fl_uri f)") force+
    moreover have "visit children expanded [] (Suc depth) = Some []" by (subst visit.simps) simp
    ultimately show ?case using rest by (subst visit.simps) (auto simp: kids_in_def)
  qed
next
  case (Suc k)
  have kids: "\<exists>rows. visit children expanded (kids_in children (fl_uri f)) d = Some rows"
    if "l < length (fl_uri f) + Suc k" "opened expanded f" for f d
  proof (rule Suc.IH)
    have "fl_uri f \<noteq> []" using that(2) e by auto
    then have "length (fl_uri f) < length (fl_uri x)" if "x \<in> set (kids_in children (fl_uri f))" for x
      using g that unfolding uris_grow_def in_kids by blast
    then show "\<forall>x \<in> set (kids_in children (fl_uri f)). opened expanded x \<longrightarrow> l < length (fl_uri x) + k"
      using that(1) by fastforce
  qed
  show ?case using Suc.prems
  proof (induction entries)
    case Nil
    show ?case by (subst visit.simps) simp
  next
    case (Cons f fs)
    then obtain rest where rest: "visit children expanded fs depth = Some rest" by auto
    show ?case
    proof (cases "opened expanded f")
      case True
      then obtain sub where "visit children expanded (kids_in children (fl_uri f)) (Suc depth) = Some sub" using kids Cons.prems by force
      with rest True show ?thesis by (subst visit.simps) simp
    next
      case False
      with rest show ?thesis by (subst visit.simps) auto
    qed
  qed
qed

lemma visit_total: "uris_grow children \<Longrightarrow> [] \<notin> set expanded \<Longrightarrow> \<exists>rows. visit children expanded entries depth = Some rows"
proof -
  assume a: "uris_grow children" "[] \<notin> set expanded"
  obtain l where l: "\<And>u es. om_get children u = Some es \<Longrightarrow> length u \<le> l" using keys_bounded by blast
  show ?thesis by (rule visit_returns [OF a(1) l a(2), where k = "Suc l"]) auto
qed

datatype 'a files_op =
    FpClick "'a attachment" string bool
  | FpOpened string
  | FpResource "'a resource_op"
  | FpWorkspaces "string option" "workspace list"

fun files_step :: "(string \<Rightarrow> string option \<Rightarrow> string option) \<Rightarrow> 'a files_op \<Rightarrow> files_pane \<Rightarrow> files_pane option" where
  "files_step uri (FpClick wa u d) s = click_file wa u d s"
| "files_step uri (FpOpened u) s = directory_opened u s"
| "files_step uri (FpResource e) s =
     (let r = apply_resource uri e (fp_resources s); s' = s\<lparr>fp_resources := r\<rparr>
      in if rs_fired r = rs_fired (fp_resources s) then Some s' else update_files s')"
| "files_step uri (FpWorkspaces ws xs) s = update_files (s\<lparr>fp_selected := ws, fp_workspaces := xs\<rparr>)"

fun files_run :: "(string \<Rightarrow> string option \<Rightarrow> string option) \<Rightarrow> 'a files_op list \<Rightarrow> files_pane \<Rightarrow> files_pane option" where
  "files_run uri [] s = Some s"
| "files_run uri (e # es) s = Option.bind (files_step uri e s) (files_run uri es)"

definition new_files_pane :: "resources \<Rightarrow> string option \<Rightarrow> workspace list \<Rightarrow> files_pane option" where
  "new_files_pane r ws xs =
     update_files \<lparr>fp_resources = r, fp_workspaces = xs, fp_selected = ws, fp_expanded = [], fp_loading = [], fp_opening = [],
       fp_uri = [], fp_root = [], fp_rows = [], fp_list_hidden = False, fp_empty = None\<rparr>"

definition rows_now :: "files_pane \<Rightarrow> file_row list option" where
  "rows_now s = (case fp_selected s of None \<Rightarrow> Some [] | Some ws \<Rightarrow> if ws = [] then Some [] else project_rows ws s)"

definition grown :: "resources \<Rightarrow> bool" where
  "grown r \<longleftrightarrow> (\<forall>ws. uris_grow (children_of ws r))"

definition files_ok :: "files_pane \<Rightarrow> bool" where
  "files_ok s \<longleftrightarrow> grown (fp_resources s) \<and> [] \<notin> set (fp_expanded s) \<and> rows_now s = Some (fp_rows s)"

lemma update_files_ok:
  assumes "grown (fp_resources s)" and "[] \<notin> set (fp_expanded s)"
  shows "\<exists>s'. update_files s = Some s' \<and> files_ok s'"
proof -
  have p: "\<exists>rows. project_rows ws s = Some rows" for ws
    using assms by (simp add: project_rows_def grown_def visit_total)
  have "\<exists>rows. rows_now s = Some rows" using p by (simp add: rows_now_def split: option.split)
  then obtain rows where r: "rows_now s = Some rows" by blast
  have now: "rows_now (s\<lparr>fp_root := a, fp_rows := b, fp_list_hidden := c, fp_empty := d\<rparr>) = rows_now s" for a b c d
    by (simp add: rows_now_def project_rows_def split: option.split)
  show ?thesis unfolding update_files_def rows_now_def [symmetric] r using assms by (simp add: files_ok_def now r)
qed

lemma grown_cong: "rs_children r' = rs_children r \<Longrightarrow> grown r \<Longrightarrow> grown r'"
  by (simp add: grown_def children_of_def)

lemma rows_now_cong: "fp_selected s' = fp_selected s \<Longrightarrow> fp_expanded s' = fp_expanded s \<Longrightarrow>
    rs_children (fp_resources s') = rs_children (fp_resources s) \<Longrightarrow> rs_files (fp_resources s') = rs_files (fp_resources s) \<Longrightarrow>
    rows_now s' = rows_now s"
  by (simp add: rows_now_def project_rows_def roots_def children_of_def split: option.split)

lemma begin_children [simp]:
  "rs_children (open_file_begin wa u r) = rs_children r" "rs_files (open_file_begin wa u r) = rs_files r"
  "rs_children (directory_begin wa u r) = rs_children r"
  by (simp_all add: open_file_begin_def directory_begin_def split: option.split prod.split)

text \<open>A host lists under a directory what has longer URIs, as paths have.\<close>

fun lists_below :: "(string \<Rightarrow> string option \<Rightarrow> string option) \<Rightarrow> 'a resource_op \<Rightarrow> bool" where
  "lists_below uri (RsDirectoryRead ws d g es) =
     list_all (\<lambda>e. case file_of uri (Some d) e of None \<Rightarrow> True | Some f \<Rightarrow> length d < length (fl_uri f)) es"
| "lists_below uri _ = True"

fun files_op_below :: "(string \<Rightarrow> string option \<Rightarrow> string option) \<Rightarrow> 'a files_op \<Rightarrow> bool" where
  "files_op_below uri (FpResource e) = lists_below uri e"
| "files_op_below uri _ = True"

lemma files_of_each: "files_of uri base es = Some fs \<Longrightarrow> f \<in> set fs \<Longrightarrow> \<exists>e \<in> set es. file_of uri base e = Some f"
  unfolding files_of_def
proof (induction es arbitrary: fs)
  case (Cons e es)
  then show ?case by (auto split: option.splits)
qed simp

lemma quiet_resource:
  "rs_fired (apply_resource uri e r) = rs_fired r \<Longrightarrow>
   rs_children (apply_resource uri e r) = rs_children r \<and> rs_files (apply_resource uri e r) = rs_files r"
  by (cases e) (auto simp: resource_defs stage_end_def split: option.splits prod.splits sum.splits if_splits)

lemma grown_resource:
  assumes g: "grown r" and below: "lists_below uri e"
  shows "grown (apply_resource uri e r)"
proof -
  have keep: "uris_grow (children_of ws r)" for ws using g by (simp add: grown_def)
  have put: "grown r'" if "uris_grow m" "rs_children r' = om_set ws m (rs_children r)" for r' ws m
    using that g by (simp add: grown_def children_of_def)
  show ?thesis
  proof (cases e)
    case (RsLoaded ws sr n res)
    have root: "uris_grow (om_set [] fs (children_of ws r))" for fs using keep by (simp add: uris_grow_def)
    show ?thesis
    proof (cases "rs_children (apply_resource uri e r) = rs_children r")
      case True
      then show ?thesis using g by (rule grown_cong)
    next
      case False
      then obtain fs where "rs_children (apply_resource uri e r) = om_set ws (om_set [] fs (children_of ws r)) (rs_children r)"
        by (auto simp: RsLoaded load_end_def Let_def split: sum.splits option.splits if_splits)
      then show ?thesis by (rule put [OF root])
    qed
  next
    case (RsDirectoryRead ws d n es)
    show ?thesis
    proof (cases "om_get (rs_generations r) (directory_key ws d) \<noteq> Some n \<or> files_of uri (Some d) es = None")
      case True
      then have "apply_resource uri e r = r" by (auto simp: RsDirectoryRead directory_end_def)
      then show ?thesis using g by simp
    next
      case False
      then obtain fs where fs: "files_of uri (Some d) es = Some fs" and n: "om_get (rs_generations r) (directory_key ws d) = Some n" by auto
      have "length d < length (fl_uri f)" if "f \<in> set fs" for f
        using files_of_each [OF fs that] below by (auto simp: RsDirectoryRead list_all_iff split: option.splits)
      then have "uris_grow (om_set d fs (children_of ws r))" using keep by (auto simp: uris_grow_def)
      moreover have "rs_children (apply_resource uri e r) = om_set ws (om_set d fs (children_of ws r)) (rs_children r)"
        using n by (simp add: RsDirectoryRead directory_end_def fs)
      ultimately show ?thesis by (rule put)
    qed
  qed (use g in \<open>auto intro!: grown_cong [OF _ g] simp: resource_defs stage_end_def split: option.splits prod.splits if_splits\<close>)
qed

lemma files_step_ok:
  assumes s: "files_ok s" and below: "files_op_below uri e"
  shows "\<exists>s'. files_step uri e s = Some s' \<and> files_ok s'"
proof (cases e)
  case (FpClick wa u d)
  have g: "grown (fp_resources s)" and n: "[] \<notin> set (fp_expanded s)" using s by (simp_all add: files_ok_def)
  have gd: "grown (directory_begin wa u (fp_resources s))" by (rule grown_cong [OF _ g]) simp
  have opens: "files_ok (s\<lparr>fp_uri := u, fp_resources := open_file_begin wa u (fp_resources s)\<rparr>)"
    using s grown_cong [OF _ g, of "open_file_begin wa u (fp_resources s)"]
      rows_now_cong [of "s\<lparr>fp_uri := u, fp_resources := open_file_begin wa u (fp_resources s)\<rparr>" s] by (simp add: files_ok_def)
  show ?thesis
  proof (cases "u = [] \<or> \<not> d")
    case True
    then show ?thesis using s opens by (auto simp: FpClick click_file_def Let_def)
  next
    case False
    have del: "[] \<notin> set (os_del u (fp_expanded s))" and add: "[] \<notin> set (os_add u (fp_expanded s))"
      using n False by auto
    show ?thesis using False g gd del add unfolding FpClick files_step.simps click_file_def Let_def
      by (cases "u \<in> set (fp_expanded s)") (simp_all add: update_files_ok)
  qed
next
  case (FpOpened u)
  then show ?thesis using s update_files_ok [of "s\<lparr>fp_opening := remove1 u (fp_opening s), fp_loading := os_del u (fp_loading s)\<rparr>"]
    by (simp add: directory_opened_def) (simp add: files_ok_def)
next
  case (FpResource op)
  let ?r = "apply_resource uri op (fp_resources s)"
  have g: "grown ?r" by (rule grown_resource) (use s below FpResource in \<open>simp_all add: files_ok_def\<close>)
  show ?thesis
  proof (cases "rs_fired ?r = rs_fired (fp_resources s)")
    case True
    have "rows_now (s\<lparr>fp_resources := ?r\<rparr>) = rows_now s" by (rule rows_now_cong) (simp_all add: quiet_resource [OF True])
    then show ?thesis using s g True by (simp add: FpResource files_ok_def)
  next
    case False
    then show ?thesis using s g update_files_ok [of "s\<lparr>fp_resources := ?r\<rparr>"] by (simp add: FpResource Let_def files_ok_def [of s])
  qed
next
  case (FpWorkspaces ws xs)
  then show ?thesis using s update_files_ok [of "s\<lparr>fp_selected := ws, fp_workspaces := xs\<rparr>"] by (simp add: files_ok_def [of s])
qed

text \<open>
  C20: where the entries a host lists under a directory have longer URIs than it, as paths have, no
  listing recurs for ever: after anything the user and the services do the pane has updated, and its
  rows are exactly the files of the selected workspace whose directories are all expanded, each with
  its depth.
\<close>

theorem files_pane_shows_expanded_directories:
  assumes "\<forall>e \<in> set es. files_op_below uri e"
  shows "\<exists>s. Option.bind (new_files_pane (new_resources dv) ws0 xs) (files_run uri es) = Some s \<and>
    (\<forall>f n. \<lparr>fr_file = f, fr_depth = n\<rparr> \<in> set (fp_rows s) \<longleftrightarrow>
       (\<exists>ws. fp_selected s = Some ws \<and> ws \<noteq> [] \<and>
          shown_file (children_of ws (fp_resources s)) (fp_expanded s) (roots ws (fp_resources s)) f n))"
proof -
  have run: "files_ok s \<Longrightarrow> \<exists>s'. files_run uri es s = Some s' \<and> files_ok s'" for s
    using assms
  proof (induction es arbitrary: s)
    case (Cons e es)
    have "\<exists>t. files_step uri e s = Some t \<and> files_ok t" by (rule files_step_ok) (use Cons.prems in simp_all)
    then obtain t where "files_step uri e s = Some t" "files_ok t" by blast
    with Cons.IH [of t] Cons.prems show ?case by simp
  qed simp
  have "grown (new_resources dv)" by (simp add: grown_def children_of_def new_resources_def uris_grow_def)
  then have "\<exists>s. new_files_pane (new_resources dv) ws0 xs = Some s \<and> files_ok s"
    unfolding new_files_pane_def by (intro update_files_ok) simp_all
  with run obtain s where s: "Option.bind (new_files_pane (new_resources dv) ws0 xs) (files_run uri es) = Some s" "files_ok s" by force
  have r: "rows_now s = Some (fp_rows s)" using s(2) by (simp add: files_ok_def)
  have "\<lparr>fr_file = f, fr_depth = n\<rparr> \<in> set (fp_rows s) \<longleftrightarrow>
       (\<exists>ws. fp_selected s = Some ws \<and> ws \<noteq> [] \<and>
          shown_file (children_of ws (fp_resources s)) (fp_expanded s) (roots ws (fp_resources s)) f n)" for f n
  proof (cases "fp_selected s")
    case (Some ws)
    show ?thesis
    proof (cases "ws = []")
      case False
      then have "visit (children_of ws (fp_resources s)) (fp_expanded s) (roots ws (fp_resources s)) 0 = Some (fp_rows s)"
        using r by (simp add: rows_now_def Some project_rows_def)
      from visit_rows [OF this] show ?thesis using Some False by auto
    qed (use r in \<open>simp add: rows_now_def Some\<close>)
  qed (use r in \<open>simp add: rows_now_def\<close>)
  with s(1) show ?thesis by blast
qed

definition example_ops :: "unit files_op list" where
  "example_ops =
     [FpWorkspaces (Some ''w'') [], FpResource (RsLoad ''w'' 0 None),
      FpResource (RsLoaded ''w'' None 1 (Inr (([], []), [\<lparr>re_name = ''src'', re_directory = True\<rparr>]))),
      FpResource (RsDirectoryRead ''w'' ''/src/'' 0 [\<lparr>re_name = ''main'', re_directory = False\<rparr>])]"

theorem files_pane_shows_expanded_directories_witness:
  "\<exists>s. Option.bind (new_files_pane (new_resources (new_detail_view None (new_layout None) [])) None [])
      (files_run (\<lambda>n b. Some (or_else b ''/'' @ n)) example_ops) = Some s \<and>
    \<lparr>fr_file = \<lparr>fl_name = ''src'', fl_directory = True, fl_uri = ''/src/''\<rparr>, fr_depth = 0\<rparr> \<in> set (fp_rows s)"
proof -
  have l: "\<forall>e \<in> set example_ops. files_op_below (\<lambda>n b. Some (or_else b ''/'' @ n)) e"
    by (simp add: example_ops_def file_of_def or_else_def)
  from files_pane_shows_expanded_directories [OF l, of "new_detail_view None (new_layout None) []" None "[]"]
  obtain s where s: "Option.bind (new_files_pane (new_resources (new_detail_view None (new_layout None) [])) None [])
      (files_run (\<lambda>n b. Some (or_else b ''/'' @ n)) example_ops) = Some s"
    and rows: "\<lparr>fr_file = f, fr_depth = n\<rparr> \<in> set (fp_rows s) \<longleftrightarrow>
       (\<exists>ws. fp_selected s = Some ws \<and> ws \<noteq> [] \<and>
          shown_file (children_of ws (fp_resources s)) (fp_expanded s) (roots ws (fp_resources s)) f n)" for f n
    by blast
  from s have r: "fp_selected s = Some ''w'' \<and> roots ''w'' (fp_resources s) = [\<lparr>fl_name = ''src'', fl_directory = True, fl_uri = ''/src/''\<rparr>]"
    by (auto simp: visit_eqs project_rows_def example_ops_def new_files_pane_def update_files_def new_resources_def load_begin_def load_end_def rs_fire_def rs_call_def
        rs_generation_def root_key_def given_session_def children_of_def roots_def files_of_def file_of_def directory_end_def directory_key_def or_else_def Let_def)
  then show ?thesis using s by (auto simp: rows intro: shown_file.root)
qed

text \<open>
  The mark that a directory is loading goes with the first of its openings that settles: while it
  is closed and opened again during a slow listing, the later listing is pending without a mark.
\<close>

theorem loading_ends_with_the_first:
  assumes "uri \<noteq> []" and "uri \<notin> set (fp_expanded s)" and "fp_opening s = []"
    and "click_file wa uri True s = Some s1" and "click_file wa uri True s1 = Some s2" and "click_file wa uri True s2 = Some s3"
    and "directory_opened uri s3 = Some s4"
  shows "uri \<in> set (fp_opening s4) \<and> uri \<in> set (fp_expanded s4) \<and> uri \<notin> set (fp_loading s4)"
proof -
  have u: "update_files t = Some t' \<Longrightarrow> fp_opening t' = fp_opening t \<and> fp_expanded t' = fp_expanded t \<and> fp_loading t' = fp_loading t" for t t'
    by (auto simp: update_files_def)
  have 1: "fp_opening s1 = [uri]" "uri \<in> set (fp_expanded s1)"
    using assms(1-4) by (auto simp: click_file_def Let_def dest!: u)
  have 2: "fp_opening s2 = [uri]" "uri \<notin> set (fp_expanded s2)"
    using assms(1,5) 1 by (auto simp: click_file_def Let_def dest!: u)
  have 3: "fp_opening s3 = [uri, uri]" "uri \<in> set (fp_expanded s3)"
    using assms(1,6) 2 by (auto simp: click_file_def Let_def dest!: u)
  show ?thesis using assms(7) 3 by (auto simp: directory_opened_def dest!: u)
qed

text \<open>
  A host that lists a directory in itself, under a name like a dot whose URI is the directory's: once
  it is expanded the pane's listing never returns, since it shows the directory below itself.
\<close>

theorem self_listing_directory_never_returns:
  assumes "om_get children u = Some es" and "f \<in> set es" and "fl_directory f" and "fl_uri f = u" and "u \<in> set expanded"
  shows "visit children expanded es depth = None"
proof (cases "visit children expanded es depth")
  case (Some rows)
  have "shown_file children expanded es f n" for n
    by (induction n) (use assms in \<open>auto intro: shown_file.intros\<close>)
  then have "\<lparr>fr_file = f, fr_depth = depth + n\<rparr> \<in> set rows" for n unfolding visit_rows [OF Some] by blast
  then have "range (\<lambda>n. depth + n) \<subseteq> fr_depth ` set rows" by force
  moreover have "infinite (range (\<lambda>n. depth + n))" using finite_imageD [of "\<lambda>n. depth + n" UNIV] by (auto simp: inj_def)
  ultimately show ?thesis using finite_subset by blast
qed

end
