(* ===== verification/ChangesPane.thy ===== *)
theory ChangesPane
  imports Explorer
begin

text \<open>
  The pane of changes of \<open>packages/workbench/src/contrib/workspace/workspace-explorer-view.ts\<close>.  A row
  is an element with a number; \<open>cp_actions\<close> are the rows that have buttons.  A row element is shown
  with what \<open>updateChangeRow\<close> gave it last.
\<close>

section \<open>Lines of a diff\<close>

definition diff_counts :: "string \<Rightarrow> nat \<times> nat" where
  "diff_counts diff =
     fold (\<lambda>line (additions, deletions).
         if starts_with ''+'' line \<and> \<not> starts_with ''+++'' line then (Suc additions, deletions)
         else if starts_with ''-'' line \<and> \<not> starts_with ''---'' line then (additions, Suc deletions)
         else (additions, deletions))
       (split_by (\<lambda>c. c = CHR 0x0A) diff) (0, 0)"

text \<open>The lines of a hunk, as a diff prints them.\<close>

datatype hunk_line = AddedLine string | RemovedLine string | KeptLine string

fun line_text :: "hunk_line \<Rightarrow> string" where
  "line_text (AddedLine t) = t"
| "line_text (RemovedLine t) = t"
| "line_text (KeptLine t) = t"

fun print_line :: "hunk_line \<Rightarrow> string" where
  "print_line (AddedLine t) = CHR ''+'' # t"
| "print_line (RemovedLine t) = CHR ''-'' # t"
| "print_line (KeptLine t) = CHR '' '' # t"

fun counted_addition :: "hunk_line \<Rightarrow> bool" where
  "counted_addition (AddedLine t) = (\<not> starts_with ''++'' t)"
| "counted_addition _ = False"

fun counted_deletion :: "hunk_line \<Rightarrow> bool" where
  "counted_deletion (RemovedLine t) = (\<not> starts_with ''--'' t)"
| "counted_deletion _ = False"

lemma split_joined: "ws \<noteq> [] \<Longrightarrow> \<forall>w \<in> set ws. c \<notin> set w \<Longrightarrow> split_by (\<lambda>x. x = c) (join_str [c] ws) = ws"
proof (induction "[c]" ws rule: join_str.induct)
  case (3 w v ws)
  have w: "split_by (\<lambda>x. x = c) w = [w]" by (rule split_by_no_sep) (use 3 in auto)
  show ?case using 3 w split_by_append_sep [of "\<lambda>x. x = c" c w "join_str [c] (v # ws)"] by simp
qed (auto intro: split_by_no_sep)

text \<open>
  The numbers a row shows for a diff of one hunk are those of its added and its removed lines,
  but for those whose text itself starts with two plus or minus signs: these are taken for headers.
\<close>

theorem diff_counts_lines:
  assumes "ls \<noteq> []" and "\<forall>l \<in> set ls. CHR 0x0A \<notin> set (line_text l)"
  shows "diff_counts (join_str [CHR 0x0A] (map print_line ls)) =
    (length (filter counted_addition ls), length (filter counted_deletion ls))"
proof -
  have "CHR 0x0A \<notin> set (print_line l)" if "l \<in> set ls" for l using assms(2) that by (cases l) force+
  then have s: "split_by (\<lambda>c. c = CHR 0x0A) (join_str [CHR 0x0A] (map print_line ls)) = map print_line ls"
    using assms(1) by (intro split_joined) auto
  let ?count = "\<lambda>line (additions, deletions).
      if starts_with ''+'' line \<and> \<not> starts_with ''+++'' line then (Suc additions, deletions)
      else if starts_with ''-'' line \<and> \<not> starts_with ''---'' line then (additions, Suc deletions)
      else (additions, deletions :: nat)"
  have "fold ?count (map print_line ls) (a, d) =
      (a + length (filter counted_addition ls), d + length (filter counted_deletion ls))" for a d :: nat
  proof (induction ls arbitrary: a d)
    case (Cons l ls)
    then show ?case by (cases l) simp_all
  qed simp
  then show ?thesis by (simp add: diff_counts_def s)
qed

theorem diff_counts_lines_witness: "diff_counts ''+a\<newline>-b\<newline>+++c'' = (1, 1)"
  using diff_counts_lines [of "[AddedLine ''a'', RemovedLine ''b'', AddedLine ''++c'']"] by simp

section \<open>The pane\<close>

record change_row =
  cr_path :: string
  cr_selected :: bool
  cr_status :: string
  cr_diff :: string
  cr_reviewed :: bool

record changes_pane =
  cp_resources :: resources
  cp_selected :: "string option"
  cp_body :: "change_row obj list"
  cp_next :: nat
  cp_actions :: "nat list"
  cp_path :: string
  cp_empty_hidden :: bool
  cp_empty :: string

definition update_change_row :: "string \<Rightarrow> workspace_change \<Rightarrow> change_row" where
  "update_change_row selected c =
     (let (additions, deletions) = diff_counts (cg_diff c)
      in \<lparr>cr_path = cg_path c, cr_selected = (cg_path c = selected), cr_status = cg_status c,
          cr_diff = (if additions \<noteq> 0 \<or> deletions \<noteq> 0
            then ''+'' @ show_nat additions @ '' '' @ bytes [226, 136, 146] @ show_nat deletions else []),
          cr_reviewed = cg_reviewed c\<rparr>)"

definition shown_changes :: "string option \<Rightarrow> resources \<Rightarrow> workspace_change list" where
  "shown_changes ws s =
     (case ws of
        None \<Rightarrow> []
      | Some i \<Rightarrow> if i = [] then [] else (case om_get (rs_changes s) i of None \<Rightarrow> [] | Some cs \<Rightarrow> cs))"

definition existing_rows :: "change_row obj list \<Rightarrow> (string, nat) omap" where
  "existing_rows body = fold (\<lambda>x. om_set (cr_path (val x)) (oid x)) body []"

text \<open>A row for each change, one that is there or a new one; also what remains of those there.\<close>

fun sync_changes :: "string \<Rightarrow> workspace_change list \<Rightarrow> (string, nat) omap \<Rightarrow> nat \<Rightarrow> change_row obj list \<times> (string, nat) omap \<times> nat" where
  "sync_changes selected [] existing n = ([], existing, n)"
| "sync_changes selected (c # cs) existing n =
     (case om_get existing (cg_path c) of
        Some i \<Rightarrow> apfst (\<lambda>rest. Obj i (update_change_row selected c) # rest) (sync_changes selected cs (om_del (cg_path c) existing) n)
      | None \<Rightarrow> apfst (\<lambda>rest. Obj n (update_change_row selected c) # rest) (sync_changes selected cs existing (Suc n)))"

text \<open>\<open>insertBefore\<close> moves an element that is there; without a cursor it appends.\<close>

fun insert_before :: "change_row obj \<Rightarrow> nat option \<Rightarrow> change_row obj list \<Rightarrow> change_row obj list" where
  "insert_before r None body = body @ [r]"
| "insert_before r (Some i) [] = [r]"
| "insert_before r (Some i) (x # xs) = (if oid x = i then r # x # xs else x # insert_before r (Some i) xs)"

definition without_row :: "nat \<Rightarrow> change_row obj list \<Rightarrow> change_row obj list" where
  "without_row i = filter (\<lambda>x. oid x \<noteq> i)"

fun next_sibling :: "nat \<Rightarrow> change_row obj list \<Rightarrow> nat option" where
  "next_sibling i [] = None"
| "next_sibling i (x # xs) = (if oid x = i then (case xs of [] \<Rightarrow> None | y # ys \<Rightarrow> Some (oid y)) else next_sibling i xs)"

definition first_row :: "change_row obj list \<Rightarrow> nat option" where
  "first_row body = (case body of [] \<Rightarrow> None | x # xs \<Rightarrow> Some (oid x))"

fun place_rows :: "change_row obj list \<Rightarrow> nat option \<Rightarrow> change_row obj list \<Rightarrow> change_row obj list" where
  "place_rows [] cursor body = body"
| "place_rows (r # rs) cursor body =
     (let body' = (if Some (oid r) = cursor then body else insert_before r cursor (without_row (oid r) body))
      in place_rows rs (next_sibling (oid r) body') body')"

text \<open>The rows that are reused show their new values where they stand, before they are placed.\<close>

definition refresh_rows :: "change_row obj list \<Rightarrow> change_row obj list \<Rightarrow> change_row obj list" where
  "refresh_rows rows = map (\<lambda>x. case find (\<lambda>r. oid r = oid x) rows of None \<Rightarrow> x | Some r \<Rightarrow> r)"

definition dispose_row :: "nat \<Rightarrow> changes_pane \<Rightarrow> changes_pane" where
  "dispose_row i s = s\<lparr>cp_actions := removeAll i (cp_actions s), cp_body := without_row i (cp_body s)\<rparr>"

definition update_changes :: "changes_pane \<Rightarrow> changes_pane" where
  "update_changes s =
     (let (rows, stale, n) = sync_changes (cp_path s) (shown_changes (cp_selected s) (cp_resources s)) (existing_rows (cp_body s)) (cp_next s);
          s1 = s\<lparr>cp_body := refresh_rows rows (cp_body s), cp_next := n, cp_actions := cp_actions s @ [cp_next s..<n]\<rparr>;
          s2 = fold dispose_row (map snd stale) s1
      in s2\<lparr>cp_body := place_rows rows (first_row (cp_body s2)) (cp_body s2), cp_empty_hidden := (rows \<noteq> []),
            cp_empty := empty_text ''No workspace attached'' ''No changes'' (cp_selected s) (cp_resources s)\<rparr>)"

definition new_changes_pane :: "resources \<Rightarrow> string option \<Rightarrow> changes_pane" where
  "new_changes_pane r ws =
     update_changes \<lparr>cp_resources = r, cp_selected = ws, cp_body = [], cp_next = 0, cp_actions = [], cp_path = [],
       cp_empty_hidden = False, cp_empty = []\<rparr>"

definition changes_resource :: "(string \<Rightarrow> string option \<Rightarrow> string option) \<Rightarrow> 'a resource_op \<Rightarrow> changes_pane \<Rightarrow> changes_pane" where
  "changes_resource uri e s =
     (let r = apply_resource uri e (cp_resources s); s' = s\<lparr>cp_resources := r\<rparr>
      in if rs_fired r = rs_fired (cp_resources s) then s' else update_changes s')"

definition row_path :: "nat \<Rightarrow> changes_pane \<Rightarrow> string option" where
  "row_path i s = map_option (\<lambda>x. cr_path (val x)) (find (\<lambda>x. oid x = i) (cp_body s))"

text \<open>
  A click on a row, and on one of its buttons while the row has them.  The command of the row runs
  after the update, by which the row may have gone; it runs with the path the row shows.
\<close>

definition click_change :: "(string \<Rightarrow> string option \<Rightarrow> string option) \<Rightarrow> 'a attachment \<Rightarrow> nat \<Rightarrow> changes_pane \<Rightarrow> changes_pane" where
  "click_change uri wa i s =
     (case row_path i s of
        None \<Rightarrow> s
      | Some p \<Rightarrow> changes_resource uri (RsOpenChange wa p) (update_changes (s\<lparr>cp_path := p\<rparr>)))"

datatype row_action = StageChange | ToggleReviewed | RevertChange

fun action_op :: "row_action \<Rightarrow> 'a attachment \<Rightarrow> string \<Rightarrow> 'a resource_op" where
  "action_op StageChange wa p = RsStage wa p"
| "action_op ToggleReviewed wa p = RsReview wa p"
| "action_op RevertChange wa p = RsRequestRevert p"

definition click_action ::
  "(string \<Rightarrow> string option \<Rightarrow> string option) \<Rightarrow> 'a attachment \<Rightarrow> row_action \<Rightarrow> nat \<Rightarrow> changes_pane \<Rightarrow> changes_pane" where
  "click_action uri wa a i s =
     (if i \<in> set (cp_actions s) then (case row_path i s of None \<Rightarrow> s | Some p \<Rightarrow> changes_resource uri (action_op a wa p) s) else s)"

definition dispose_changes :: "changes_pane \<Rightarrow> changes_pane" where
  "dispose_changes s = fold dispose_row (cp_actions s) s"

datatype 'a changes_op =
    CpClick "'a attachment" nat
  | CpAction "'a attachment" row_action nat
  | CpResource "'a resource_op"
  | CpWorkspaces "string option"

fun apply_changes :: "(string \<Rightarrow> string option \<Rightarrow> string option) \<Rightarrow> 'a changes_op \<Rightarrow> changes_pane \<Rightarrow> changes_pane" where
  "apply_changes uri (CpClick wa i) s = click_change uri wa i s"
| "apply_changes uri (CpAction wa a i) s = click_action uri wa a i s"
| "apply_changes uri (CpResource e) s = changes_resource uri e s"
| "apply_changes uri (CpWorkspaces ws) s = update_changes (s\<lparr>cp_selected := ws\<rparr>)"

section \<open>Rows are placed in the order of the changes\<close>

abbreviation ids :: "change_row obj list \<Rightarrow> nat set" where
  "ids rows \<equiv> oid ` set rows"

lemma without_absent [simp]: "i \<notin> ids body \<Longrightarrow> without_row i body = body"
  by (auto simp: without_row_def filter_id_conv)

lemma without_append [simp]: "without_row i (xs @ ys) = without_row i xs @ without_row i ys"
  by (simp add: without_row_def)

lemma next_sibling_at: "oid r \<notin> ids pre \<Longrightarrow> next_sibling (oid r) (pre @ r # rest) = first_row rest"
  by (induction pre) (auto simp: first_row_def)

lemma insert_before_at:
  "ids pre \<inter> ids rest = {} \<Longrightarrow> insert_before r (first_row rest) (pre @ rest) = pre @ r # rest"
proof (induction pre)
  case Nil
  show ?case by (cases rest) (simp_all add: first_row_def)
next
  case (Cons x pre)
  then show ?case by (cases rest) (auto simp: first_row_def)
qed

lemma same_object: "distinct (map oid xs) \<Longrightarrow> x \<in> set xs \<Longrightarrow> y \<in> set xs \<Longrightarrow> oid x = oid y \<Longrightarrow> x = y"
  by (metis distinct_map inj_onD)

lemma placed:
  assumes "distinct (map oid (pre @ rest))" and "distinct (map oid rs)" and "ids pre \<inter> ids rs = {}" and "set rest \<subseteq> set rs"
  shows "place_rows rs (first_row rest) (pre @ rest) = pre @ rs"
  using assms
proof (induction rs arbitrary: pre rest)
  case (Cons r rs)
  define rest' where "rest' = without_row (oid r) rest"
  have p: "oid r \<notin> ids pre" using Cons.prems(3) by auto
  have d: "ids pre \<inter> ids rest = {}" using Cons.prems(1) by auto
  have d': "ids pre \<inter> ids rest' = {}" using d by (auto simp: rest'_def without_row_def)
  have body: "(if Some (oid r) = first_row rest then pre @ rest
      else insert_before r (first_row rest) (without_row (oid r) (pre @ rest))) = pre @ r # rest'"
  proof (cases "Some (oid r) = first_row rest")
    case True
    then obtain x xs where x: "rest = x # xs" "oid x = oid r" by (cases rest) (auto simp: first_row_def)
    have "x = r" using same_object [OF Cons.prems(2)] Cons.prems(4) x by auto
    moreover have "oid r \<notin> ids xs" using Cons.prems(1) x by auto
    then have "without_row (oid r) xs = xs" by simp
    then have "rest' = xs" using x by (simp add: rest'_def without_row_def)
    ultimately show ?thesis using True x by simp
  next
    case False
    have "first_row rest = first_row rest'" using False by (cases rest) (auto simp: first_row_def rest'_def without_row_def)
    then show ?thesis using False p insert_before_at [OF d', of r] by (simp add: rest'_def)
  qed
  have "place_rows rs (first_row rest') ((pre @ [r]) @ rest') = (pre @ [r]) @ rs"
  proof (rule Cons.IH)
    have "distinct (map oid rest')" using Cons.prems(1) by (simp add: rest'_def without_row_def distinct_map_filter)
    moreover have "oid r \<notin> ids rest'" by (auto simp: rest'_def without_row_def)
    ultimately show "distinct (map oid ((pre @ [r]) @ rest'))" using Cons.prems(1) p d' by simp
    show "set rest' \<subseteq> set rs" using Cons.prems(4) by (auto simp: rest'_def without_row_def)
    show "distinct (map oid rs)" "ids (pre @ [r]) \<inter> ids rs = {}" using Cons.prems(2,3) by auto
  qed
  then show ?case using next_sibling_at [OF p] body by (simp add: Let_def)
qed (use assms in simp)

lemma existing_map:
  assumes "distinct (map (\<lambda>x. cr_path (val x)) body)"
  shows "existing_rows body = map (\<lambda>x. (cr_path (val x), oid x)) body"
proof -
  have "distinct (map fst m @ map (\<lambda>x. cr_path (val x)) body) \<Longrightarrow>
      fold (\<lambda>x. om_set (cr_path (val x)) (oid x)) body m = m @ map (\<lambda>x. (cr_path (val x), oid x)) body" for m
  proof (induction body arbitrary: m)
    case (Cons x body)
    then have "om_get m (cr_path (val x)) = None" by (auto simp: map_of_eq_None_iff)
    then show ?case using Cons by (auto simp: om_set_fresh)
  qed simp
  from this [of "[]"] assms show ?thesis by (simp add: existing_rows_def)
qed

lemma sync_changes_ok:
  assumes "sync_changes sel cs m n = (rows, stale, n')" and "om_wf m" and "distinct (map snd m)" and "\<forall>i \<in> snd ` set m. i < n"
    and "distinct (map cg_path cs)"
  shows "map val rows = map (update_change_row sel) cs \<and> n \<le> n' \<and> distinct (map oid rows) \<and> om_wf stale \<and>
    ids rows \<inter> snd ` set stale = {} \<and> snd ` set m \<union> {n..<n'} = ids rows \<union> snd ` set stale \<and> set stale \<subseteq> set m \<and>
    (\<forall>r \<in> set rows. \<forall>i. om_get m (cr_path (val r)) = Some i \<longrightarrow> oid r = i)"
  using assms
proof (induction cs arbitrary: m n rows)
  case (Cons c cs)
  have path: "cr_path (update_change_row sel c) = cg_path c" for c by (simp add: update_change_row_def split: prod.split)
  show ?case
  proof (cases "om_get m (cg_path c)")
    case None
    then obtain rest where r: "sync_changes sel cs m (Suc n) = (rest, stale, n')" and rows: "rows = Obj n (update_change_row sel c) # rest"
      using Cons.prems(1) by (auto simp: apfst_def map_prod_def split: prod.splits)
    have lt: "\<forall>i \<in> snd ` set m. i < Suc n" using Cons.prems(4) less_Suc_eq by blast
    have ds: "distinct (map cg_path cs)" using Cons.prems(5) by simp
    from Cons.IH [OF r Cons.prems(2,3) lt ds] have ih: "map val rest = map (update_change_row sel) cs" "Suc n \<le> n'"
      "distinct (map oid rest)" "om_wf stale" "ids rest \<inter> snd ` set stale = {}"
      "snd ` set m \<union> {Suc n..<n'} = ids rest \<union> snd ` set stale" "set stale \<subseteq> set m"
      "\<forall>r \<in> set rest. \<forall>i. om_get m (cr_path (val r)) = Some i \<longrightarrow> oid r = i" by auto
    have n: "n \<notin> ids rest \<union> snd ` set stale" unfolding ih(6) [symmetric] using Cons.prems(4) by auto
    have i: "{n..<n'} = insert n {Suc n..<n'}" using ih(2) by auto
    have "snd ` set m \<union> {n..<n'} = insert n (ids rest \<union> snd ` set stale)" unfolding i ih(6) [symmetric] by simp
    then show ?thesis unfolding rows using ih n None by (auto simp: path)
  next
    case (Some i)
    then obtain rest where r: "sync_changes sel cs (om_del (cg_path c) m) n = (rest, stale, n')"
      and rows: "rows = Obj i (update_change_row sel c) # rest"
      using Cons.prems(1) by (auto simp: apfst_def map_prod_def split: prod.splits)
    have del: "om_del (cg_path c) m = filter (\<lambda>x. fst x \<noteq> cg_path c) m" by (auto simp: AList.delete_eq intro: filter_cong)
    have im: "(cg_path c, i) \<in> set m" using Some by (rule map_of_SomeD)
    have u: "x = (cg_path c, i)" if "x \<in> set m" "snd x = i" for x using Cons.prems(3) im that by (metis distinct_map inj_onD snd_conv)
    have v: "snd x = i" if "x \<in> set m" "fst x = cg_path c" for x
      using Cons.prems(2) that Some om_get_eq_Some_iff [of m "cg_path c"] by (metis option.inject prod.collapse)
    have "(fst x \<noteq> cg_path c) = (snd x \<noteq> i)" if "x \<in> set m" for x using u [OF that] v [OF that] by (metis fst_conv)
    then have "om_del (cg_path c) m = filter (\<lambda>x. snd x \<noteq> i) m" unfolding del by (rule filter_cong [OF refl])
    then have dm: "snd ` set (om_del (cg_path c) m) = snd ` set m - {i}" by auto
    have dd: "distinct (map snd (om_del (cg_path c) m))" using Cons.prems(3) by (simp add: del distinct_map_filter)
    have wf: "om_wf (om_del (cg_path c) m)" using Cons.prems(2) by simp
    have lt: "\<forall>i \<in> snd ` set (om_del (cg_path c) m). i < n" unfolding dm using Cons.prems(4) by blast
    have ds: "distinct (map cg_path cs)" using Cons.prems(5) by simp
    from Cons.IH [OF r wf dd lt ds] have ih: "map val rest = map (update_change_row sel) cs" "n \<le> n'"
      "distinct (map oid rest)" "om_wf stale" "ids rest \<inter> snd ` set stale = {}"
      "(snd ` set m - {i}) \<union> {n..<n'} = ids rest \<union> snd ` set stale" "set stale \<subseteq> set (om_del (cg_path c) m)"
      "\<forall>r \<in> set rest. \<forall>i. om_get (om_del (cg_path c) m) (cr_path (val r)) = Some i \<longrightarrow> oid r = i" unfolding dm by auto
    have il: "i < n" using Cons.prems(4) im by force
    have n: "i \<notin> ids rest \<union> snd ` set stale" unfolding ih(6) [symmetric] using il by auto
    have paths: "cr_path (val r) \<noteq> cg_path c" if "r \<in> set rest" for r
    proof -
      have "val r \<in> set (map val rest)" using that by simp
      then obtain d where "d \<in> set cs" "val r = update_change_row sel d" unfolding ih(1) by auto
      then show ?thesis using Cons.prems(5) by (metis (no_types) distinct.simps(2) image_eqI list.map(2) list.set_map path)
    qed
    have "i \<in> snd ` set m" using im by force
    then have eq: "snd ` set m \<union> {n..<n'} = insert i (ids rest \<union> snd ` set stale)" unfolding ih(6) [symmetric] by blast
    have "set stale \<subseteq> set m" using ih(7) set_om_del by fastforce
    then show ?thesis unfolding rows using ih n eq paths Some by (auto simp: path)
  qed
qed auto

lemma dispose_all:
  "fold dispose_row is s =
   s\<lparr>cp_actions := filter (\<lambda>i. i \<notin> set is) (cp_actions s), cp_body := filter (\<lambda>x. oid x \<notin> set is) (cp_body s)\<rparr>"
proof (induction "is" arbitrary: s)
  case (Cons i "is")
  have "filter (\<lambda>j. j \<notin> set is) (removeAll i xs) = filter (\<lambda>j. j \<noteq> i \<and> j \<notin> set is) xs" for xs
    by (induction xs) auto
  then show ?case using Cons by (simp add: dispose_row_def without_row_def conj_commute)
qed simp

definition paths_distinct :: "resources \<Rightarrow> bool" where
  "paths_distinct r \<longleftrightarrow> (\<forall>ws cs. om_get (rs_changes r) ws = Some cs \<longrightarrow> distinct (map cg_path cs))"

definition body_ok :: "changes_pane \<Rightarrow> bool" where
  "body_ok s \<longleftrightarrow> distinct (map (\<lambda>x. cr_path (val x)) (cp_body s)) \<and> distinct (map oid (cp_body s)) \<and>
     (\<forall>x \<in> set (cp_body s). oid x < cp_next s) \<and> set (cp_actions s) = ids (cp_body s)"

definition changes_ok :: "changes_pane \<Rightarrow> bool" where
  "changes_ok s \<longleftrightarrow> body_ok s \<and> paths_distinct (cp_resources s) \<and>
     map val (cp_body s) = map (update_change_row (cp_path s)) (shown_changes (cp_selected s) (cp_resources s))"

lemma row_paths: "map (\<lambda>x. cr_path (val x)) rows = map cg_path cs" if "map val rows = map (update_change_row sel) cs"
proof -
  have "map cr_path (map val rows) = map cr_path (map (update_change_row sel) cs)" using that by simp
  moreover have "cr_path (update_change_row sel c) = cg_path c" for c by (simp add: update_change_row_def split: prod.split)
  ultimately show ?thesis by (simp add: comp_def)
qed

lemma update_changes_frame:
  "cp_path (update_changes s) = cp_path s" "cp_selected (update_changes s) = cp_selected s" "cp_resources (update_changes s) = cp_resources s"
  by (simp_all add: update_changes_def Let_def dispose_all split: prod.split)

lemma body_ok_cong [simp]:
  "body_ok (s\<lparr>cp_resources := r\<rparr>) = body_ok s" "body_ok (s\<lparr>cp_path := p\<rparr>) = body_ok s" "body_ok (s\<lparr>cp_selected := ws\<rparr>) = body_ok s"
  by (simp_all add: body_ok_def)

lemma update_changes_ok:
  assumes b: "body_ok s" and d: "paths_distinct (cp_resources s)"
  shows "changes_ok (update_changes s) \<and>
    (\<forall>r \<in> set (cp_body (update_changes s)). \<forall>x \<in> set (cp_body s). cr_path (val x) = cr_path (val r) \<longrightarrow> oid r = oid x)"
proof -
  let ?cs = "shown_changes (cp_selected s) (cp_resources s)" and ?m = "existing_rows (cp_body s)"
  have m: "?m = map (\<lambda>x. (cr_path (val x), oid x)) (cp_body s)" using b by (intro existing_map) (simp add: body_ok_def)
  have mv: "map snd ?m = map oid (cp_body s)" "map fst ?m = map (\<lambda>x. cr_path (val x)) (cp_body s)" by (simp_all add: m)
  then have V: "snd ` set ?m = ids (cp_body s)" by (metis set_map)
  have cs: "distinct (map cg_path ?cs)" using d by (auto simp: shown_changes_def paths_distinct_def split: option.split)
  obtain rows stale n where sr: "sync_changes (cp_path s) ?cs ?m (cp_next s) = (rows, stale, n)" by (metis prod_cases3)
  have pre: "om_wf ?m" "distinct (map snd ?m)" "\<forall>i \<in> snd ` set ?m. i < cp_next s"
    using b unfolding om_wf_def mv V by (auto simp: body_ok_def)
  from sync_changes_ok [OF sr pre cs] have r: "map val rows = map (update_change_row (cp_path s)) ?cs" "cp_next s \<le> n"
    "distinct (map oid rows)" "ids rows \<inter> snd ` set stale = {}"
    "ids (cp_body s) \<union> {cp_next s..<n} = ids rows \<union> snd ` set stale"
    "\<forall>r \<in> set rows. \<forall>i. om_get ?m (cr_path (val r)) = Some i \<longrightarrow> oid r = i" unfolding V by blast+
  have sv: "set (map snd stale) = snd ` set stale" by simp
  define body where "body = filter (\<lambda>x. oid x \<notin> snd ` set stale) (refresh_rows rows (cp_body s))"
  have ro: "map oid (refresh_rows rows xs) = map oid xs" for xs
    by (induction xs) (auto simp: refresh_rows_def find_Some_iff split: option.split)
  have bi: "map oid body = filter (\<lambda>i. i \<notin> snd ` set stale) (map oid (cp_body s))"
    unfolding body_def ro [of "cp_body s", symmetric] by (simp add: filter_map comp_def)
  have sub: "set body \<subseteq> set rows"
  proof
    fix x assume x: "x \<in> set body"
    then obtain y where y: "y \<in> set (cp_body s)" "x = (case find (\<lambda>r. oid r = oid y) rows of None \<Rightarrow> y | Some r \<Rightarrow> r)"
      by (auto simp: body_def refresh_rows_def)
    have "oid x = oid y" unfolding y(2) by (auto simp: find_Some_iff split: option.split)
    then have "oid y \<in> ids rows" using x y(1) r(5) by (auto simp: body_def)
    then show "x \<in> set rows" unfolding y(2) by (auto simp: find_None_iff find_Some_iff split: option.split)
  qed
  have "distinct (map oid body)" unfolding bi using b by (simp add: body_ok_def)
  then have p: "place_rows rows (first_row body) body = rows" using placed [of "[]" body rows] r(3) sub by simp
  have body: "cp_body (update_changes s) = rows" and nxt: "cp_next (update_changes s) = n"
    and acts: "cp_actions (update_changes s) = filter (\<lambda>i. i \<notin> snd ` set stale) (cp_actions s @ [cp_next s..<n])"
    and rest: "cp_path (update_changes s) = cp_path s" "cp_selected (update_changes s) = cp_selected s"
      "cp_resources (update_changes s) = cp_resources s"
    unfolding update_changes_def sr Let_def dispose_all sv using p by (simp_all add: body_def)
  have "set (cp_actions (update_changes s)) = (ids (cp_body s) \<union> {cp_next s..<n}) - snd ` set stale"
    unfolding acts using b by (auto simp: body_ok_def)
  then have "set (cp_actions (update_changes s)) = ids rows" unfolding r(5) using r(4) by blast
  moreover have "\<forall>x \<in> set rows. oid x < n"
  proof
    fix x assume "x \<in> set rows"
    then have "oid x \<in> ids (cp_body s) \<union> {cp_next s..<n}" unfolding r(5) by blast
    then show "oid x < n" using b r(2) by (auto simp: body_ok_def)
  qed
  moreover have "distinct (map (\<lambda>x. cr_path (val x)) rows)" unfolding row_paths [OF r(1)] by (rule cs)
  moreover have "oid x = oid y" if "x \<in> set rows" "y \<in> set (cp_body s)" "cr_path (val y) = cr_path (val x)" for x y
  proof -
    have "(cr_path (val y), oid y) \<in> set ?m" unfolding m using that(2) by simp
    then have "om_get ?m (cr_path (val x)) = Some (oid y)" unfolding that(3) [symmetric] using pre(1) om_get_eq_Some_iff by fast
    then show ?thesis using r(6) that(1) by blast
  qed
  ultimately show ?thesis using r(1,3) d unfolding changes_ok_def body_ok_def body nxt rest by blast
qed

section \<open>The pane shows the changes\<close>

text \<open>A host lists every path once, and entries whose URLs can be resolved.\<close>

fun op_paths_distinct :: "(string \<Rightarrow> string option \<Rightarrow> string option) \<Rightarrow> 'a resource_op \<Rightarrow> bool" where
  "op_paths_distinct uri (RsLoaded ws sr g (Inr (c, es))) = (distinct (map cg_path (fst c)) \<and> \<not> unresolvable uri (Inr (c, es)))"
| "op_paths_distinct uri (RsReplace ws c cs) = distinct (map cg_path cs)"
| "op_paths_distinct uri _ = True"

fun changes_op_distinct :: "(string \<Rightarrow> string option \<Rightarrow> string option) \<Rightarrow> 'a changes_op \<Rightarrow> bool" where
  "changes_op_distinct uri (CpResource e) = op_paths_distinct uri e"
| "changes_op_distinct uri _ = True"

lemma flip_paths [simp]: "map cg_path (flip_reviewed p cs) = map cg_path cs"
  by (induction cs) auto

lemma paths_distinct_cong: "rs_changes r' = rs_changes r \<Longrightarrow> paths_distinct r' = paths_distinct r"
  by (simp add: paths_distinct_def)

lemma paths_distinct_set: "paths_distinct r \<Longrightarrow> distinct (map cg_path cs) \<Longrightarrow> rs_changes r' = om_set ws cs (rs_changes r) \<Longrightarrow> paths_distinct r'"
  by (simp add: paths_distinct_def)

lemma resource_paths:
  assumes p: "paths_distinct r" and e: "op_paths_distinct uri e"
  shows "paths_distinct (apply_resource uri e r)"
proof (cases e)
  case (RsLoaded ws sr g res)
  show ?thesis
  proof (cases "om_get (rs_generations r) (root_key ws) = Some g")
    case True
    show ?thesis using p e unfolding RsLoaded
      by (cases res) (auto simp: True load_end_def Let_def paths_distinct_def split: if_splits option.splits)
  next
    case False
    show ?thesis using p by (simp add: RsLoaded False load_end_def paths_distinct_def)
  qed
next
  case (RsReplace ws c cs)
  show ?thesis by (rule paths_distinct_set [OF p]) (use e in \<open>simp_all add: RsReplace replace_changes_def\<close>)
next
  case (RsReview wa path)
  have "distinct (map cg_path (flip_reviewed path (the (om_get (rs_changes r) ws))))" if "om_get (rs_changes r) ws \<noteq> None" for ws
    using p that by (auto simp: paths_distinct_def)
  moreover have "om_get (rs_changes r) ws \<noteq> None" if "operand ws path r = Some x" for ws x
    using that by (auto simp: operand_def change_at_def split: option.splits if_splits)
  ultimately show ?thesis using p
    by (auto simp: RsReview review_change_def Let_def split: option.split elim!: paths_distinct_set)
qed (use p in \<open>auto simp: resource_defs stage_end_def paths_distinct_def split: option.split prod.split\<close>)

lemma quiet_changes:
  assumes "rs_fired (apply_resource uri e r) = rs_fired r" and "op_paths_distinct uri e"
  shows "rs_changes (apply_resource uri e r) = rs_changes r"
proof (cases e)
  case (RsLoaded ws sr g res)
  show ?thesis using assms unfolding RsLoaded
    by (cases res) (auto simp: load_end_def rs_fire_def unresolvable_def Let_def split: option.splits if_splits)
qed (use assms(1) in \<open>auto simp: resource_defs stage_end_def split: option.splits prod.splits if_splits\<close>)

lemma shown_changes_cong: "rs_changes r' = rs_changes r \<Longrightarrow> shown_changes ws r' = shown_changes ws r"
  by (simp add: shown_changes_def split: option.split)

lemma changes_resource_ok: "changes_ok s \<Longrightarrow> op_paths_distinct uri e \<Longrightarrow> changes_ok (changes_resource uri e s)"
proof -
  assume s: "changes_ok s" and e: "op_paths_distinct uri e"
  let ?r = "apply_resource uri e (cp_resources s)"
  have p: "paths_distinct ?r" using s e by (simp add: resource_paths changes_ok_def)
  show ?thesis
  proof (cases "rs_fired ?r = rs_fired (cp_resources s)")
    case True
    show ?thesis using s p shown_changes_cong [OF quiet_changes [OF True e]]
      by (simp add: changes_resource_def True changes_ok_def body_ok_def)
  next
    case False
    have "changes_ok (update_changes (s\<lparr>cp_resources := ?r\<rparr>))"
      by (rule update_changes_ok [THEN conjunct1]) (use s p in \<open>simp_all add: changes_ok_def\<close>)
    then show ?thesis by (simp add: changes_resource_def Let_def False)
  qed
qed

lemma updated_ok:
  "changes_ok s \<Longrightarrow> changes_ok (update_changes (s\<lparr>cp_path := p\<rparr>))" "changes_ok s \<Longrightarrow> changes_ok (update_changes (s\<lparr>cp_selected := ws\<rparr>))"
  by (rule update_changes_ok [THEN conjunct1]; simp add: changes_ok_def)+

lemma changes_step_ok: "changes_ok s \<Longrightarrow> changes_op_distinct uri e \<Longrightarrow> changes_ok (apply_changes uri e s)"
proof (cases e)
  case (CpAction wa a i)
  have a: "op_paths_distinct uri (action_op a wa p)" for p by (cases a) simp_all
  assume "changes_ok s"
  then show ?thesis by (simp add: CpAction click_action_def changes_resource_ok a split: option.split)
qed (simp_all add: click_change_def changes_resource_ok updated_ok split: option.split)

text \<open>
  Where no host lists a path twice, or names that are no part of a URL, after anything the services and the user do the elements of
  the pane are those of the selected workspace's changes, in their order and as they are now, all with
  their buttons, and no row of a change that is gone remains.
\<close>

theorem changes_pane_shows_the_changes:
  assumes "\<forall>e \<in> set es. changes_op_distinct uri e"
  shows "let s = fold (apply_changes uri) es (new_changes_pane (new_resources dv) ws)
    in map val (cp_body s) = map (update_change_row (cp_path s)) (shown_changes (cp_selected s) (cp_resources s)) \<and>
       distinct (map oid (cp_body s)) \<and> set (cp_actions s) = oid ` set (cp_body s)"
proof -
  have "changes_ok (new_changes_pane (new_resources dv) ws)" unfolding new_changes_pane_def
    by (rule update_changes_ok [THEN conjunct1]) (simp_all add: body_ok_def paths_distinct_def new_resources_def)
  then have "changes_ok (fold (apply_changes uri) es (new_changes_pane (new_resources dv) ws))"
    by (rule fold_keeps [where P = changes_ok, rotated]) (use assms changes_step_ok in blast)
  then show ?thesis by (simp add: Let_def changes_ok_def body_ok_def)
qed

theorem changes_pane_shows_the_changes_witness:
  "let c = \<lparr>cg_diff = ''+a'', cg_id = ''1'', cg_path = ''a'', cg_resource = ''r'', cg_reviewed = False, cg_status = ''modified''\<rparr>;
       s = fold (apply_changes (\<lambda>n b. Some n)) [CpResource (RsReplace ''w'' ''c'' [c] :: unit resource_op)]
         (new_changes_pane (new_resources (new_detail_view None (new_layout None) [])) (Some ''w''))
   in map val (cp_body s) = [update_change_row [] c] \<and> distinct (map oid (cp_body s)) \<and> set (cp_actions s) = oid ` set (cp_body s)"
proof -
  define c where "c = \<lparr>cg_diff = ''+a'', cg_id = ''1'', cg_path = ''a'', cg_resource = ''r'', cg_reviewed = False, cg_status = ''modified''\<rparr>"
  define s where "s = fold (apply_changes (\<lambda>n b. Some n)) [CpResource (RsReplace ''w'' ''c'' [c] :: unit resource_op)]
         (new_changes_pane (new_resources (new_detail_view None (new_layout None) [])) (Some ''w''))"
  have "map val (cp_body s) = map (update_change_row (cp_path s)) (shown_changes (cp_selected s) (cp_resources s)) \<and>
       distinct (map oid (cp_body s)) \<and> set (cp_actions s) = oid ` set (cp_body s)"
    using changes_pane_shows_the_changes [of "[CpResource (RsReplace ''w'' ''c'' [c] :: unit resource_op)]" "\<lambda>n b. Some n" "new_detail_view None (new_layout None) []" "Some ''w''"]
    by (simp add: Let_def s_def)
  moreover have "cp_path s = [] \<and> shown_changes (cp_selected s) (cp_resources s) = [c]"
    by (simp add: s_def changes_resource_def new_changes_pane_def shown_changes_def replace_changes_def rs_fire_def new_resources_def
        update_changes_frame)
  ultimately show ?thesis unfolding c_def [symmetric] s_def [symmetric] Let_def by simp
qed

text \<open>
  An update keeps the element of every path that is still changed, so that the focus in a row and
  its buttons survive it.
\<close>

theorem changed_rows_keep_their_elements:
  assumes "changes_ok s" and "x \<in> set (cp_body s)" and "r \<in> set (cp_body (update_changes (s\<lparr>cp_resources := rs, cp_selected := ws, cp_path := p\<rparr>)))"
    and "paths_distinct rs" and "cr_path (val x) = cr_path (val r)"
  shows "oid r = oid x"
proof -
  let ?s = "s\<lparr>cp_resources := rs, cp_selected := ws, cp_path := p\<rparr>"
  have "body_ok ?s" "paths_distinct (cp_resources ?s)" using assms(1,4) by (simp_all add: changes_ok_def)
  from update_changes_ok [OF this, THEN conjunct2] assms(2,3,5) show ?thesis by simp
qed

definition listed_twice :: "unit changes_op list" where
  "listed_twice =
     (let c = (\<lambda>i. \<lparr>cg_diff = [], cg_id = i, cg_path = ''a'', cg_resource = i, cg_reviewed = False, cg_status = ''modified''\<rparr>)
      in [CpResource (RsReplace ''w'' ''c'' [c ''1'', c ''2'']), CpResource (RsReplace ''w'' ''c'' [])])"

text \<open>
  A path that a host lists twice, as staged and as unstaged, leaves a row: once both changes are
  gone one of their rows is still there, with its buttons, while the pane says that there is no change.
\<close>

theorem path_listed_twice_leaves_a_row:
  "let s = fold (apply_changes (\<lambda>n b. Some n)) listed_twice (new_changes_pane (new_resources dv) (Some ''w''))
   in shown_changes (cp_selected s) (cp_resources s) = [] \<and> cp_empty s = ''No changes'' \<and> \<not> cp_empty_hidden s \<and>
      map (\<lambda>x. cr_path (val x)) (cp_body s) = [''a''] \<and> cp_actions s = map oid (cp_body s)"
  by (simp add: listed_twice_def Let_def new_changes_pane_def update_changes_def changes_resource_def shown_changes_def
      new_resources_def existing_rows_def replace_changes_def rs_fire_def refresh_rows_def update_change_row_def diff_counts_def
      first_row_def without_row_def dispose_row_def empty_text_def load_state_of_def)

end
