(* ===== verification/AHPClient.thy ===== *)
theory AHPClient
  imports ProtocolText Terminal
begin

text \<open>
  \<open>packages/workbench/src/providers/ahp/ahp-client.ts\<close>: the client of an agent host, JSON-RPC
  over a web socket.

  An asynchronous method is split at its \<open>await\<close>s: a request that has been sent is in
  \<open>ac_pending\<close> with the task that continues the method.  Every call of a method has a number;
  \<open>ac_settled\<close> lists how the promises of the calls settled.  The continuation of a promise runs
  before the next message is received, so it runs in the step that settles the request.

  The terminals are objects of a store (\<open>ac_heap\<close>, an address is an index): the client changes
  them in place and hands them out.  Random ids and times are arguments.  Where the code casts a
  response to a type, the response is assumed to have it; reading a property of \<open>undefined\<close>
  rejects the call without a message of the code's own (\<open>Inl None\<close>).
\<close>

section \<open>State\<close>

datatype socket_state = SocketOpen | SocketClosing | SocketClosed

record outgoing_message =
  am_agent :: "string option"
  am_mode :: "string option"
  am_approval :: "string option"
  am_attachments :: "json list"
  am_model :: "string option"
  am_effort :: "string option"
  am_text :: string

record host_agent =
  ag_description :: string
  ag_id :: string
  ag_name :: string

record changeset =
  ct_files :: "workspace_change list"
  ct_operations :: "string list"
  ct_resource :: string

text \<open>What a method does once it has the chat of a session.\<close>

datatype after_session =
    ThenCreated string
  | ThenAttached
  | ThenPrompt outgoing_message string string
  | ThenDraft "outgoing_message option"
  | ThenCancel string
  | ThenChangeset

datatype client_task =
    InitializeTask
  | CreateSessionTask string string
  | SubscribeTask after_session string
  | ChatTask after_session string string
  | ListSessionsTask
  | CreateTerminalTask string string
  | SubscribeTerminalTask string nat
  | AttachTerminalTask string
  | PlainTask
  | ResourceListTask
  | ResourceReadTask
  | ChangesetTask string

datatype call_value =
    UnitValue | SessionValue string | ItemsValue json | TerminalValue nat | EntriesValue json | DataValue json
  | ChangesetValue changeset

type_synonym call_outcome = "string option + call_value"

record client =
  ac_id :: string
  ac_next_id :: nat
  ac_next_seq :: nat
  ac_socket :: socket_state
  ac_directory :: string
  ac_pending :: "(nat, nat \<times> client_task) omap"
  ac_chats :: "(string, string) omap"
  ac_changesets :: "(string, string) omap"
  ac_terminals :: "(string, nat) omap"
  ac_heap :: "agent_terminal list"
  ac_agents :: "host_agent list"
  ac_action_listeners :: "nat list"
  ac_close_listeners :: "nat list"
  ac_calls :: nat
  ac_settled :: "(nat \<times> call_outcome) list"
  ac_sent :: "json list"
  ac_emitted :: "(nat \<times> json) list"
  ac_closed_told :: "nat list"

definition root_channel :: string where
  "root_channel = ''ahp-root://''"

section \<open>Messages\<close>

definition send :: "json \<Rightarrow> client \<Rightarrow> client" where
  "send m s = (if ac_socket s = SocketOpen then s\<lparr>ac_sent := ac_sent s @ [m]\<rparr> else s)"

text \<open>A request of call \<open>n\<close>, continued by \<open>task\<close>.\<close>

definition send_request :: "string \<Rightarrow> json \<Rightarrow> nat \<Rightarrow> client_task \<Rightarrow> client \<Rightarrow> client" where
  "send_request meth params n task s =
     (let i = ac_next_id s;
          s1 = send (JObj [(''jsonrpc'', JStr ''2.0''), (''id'', JNum (of_nat i)), (''method'', JStr meth), (''params'', params)])
                 (s\<lparr>ac_next_id := Suc i\<rparr>)
      in s1\<lparr>ac_pending := om_set i (n, task) (ac_pending s1)\<rparr>)"

definition dispatch :: "string \<Rightarrow> json \<Rightarrow> client \<Rightarrow> client" where
  "dispatch channel action s =
     send (JObj [(''jsonrpc'', JStr ''2.0''), (''method'', JStr ''dispatchAction''),
                 (''params'', JObj [(''channel'', JStr channel), (''clientSeq'', JNum (of_nat (ac_next_seq s))), (''action'', action)])])
       (s\<lparr>ac_next_seq := Suc (ac_next_seq s)\<rparr>)"

definition envelope :: "string \<Rightarrow> json \<Rightarrow> json \<Rightarrow> json" where
  "envelope channel action server = JObj [(''channel'', JStr channel), (''action'', action), (''serverSeq'', server)]"

definition emit_action :: "json \<Rightarrow> client \<Rightarrow> client" where
  "emit_action a s = s\<lparr>ac_emitted := ac_emitted s @ map (\<lambda>l. (l, a)) (ac_action_listeners s)\<rparr>"

definition settle :: "nat \<Rightarrow> call_outcome \<Rightarrow> client \<Rightarrow> client" where
  "settle n out s = s\<lparr>ac_settled := ac_settled s @ [(n, out)]\<rparr>"

text \<open>The fields that a conditional spread adds.\<close>

definition opt_field :: "bool \<Rightarrow> string \<Rightarrow> json \<Rightarrow> (string \<times> json) list" where
  "opt_field b k v = (if b then [(k, v)] else [])"

definition given :: "string option \<Rightarrow> bool" where
  "given x \<longleftrightarrow> (case x of None \<Rightarrow> False | Some s \<Rightarrow> s \<noteq> [])"

definition str_json :: "string option \<Rightarrow> json" where
  "str_json x = (case x of None \<Rightarrow> JUndef | Some s \<Rightarrow> JStr s)"

definition to_ahp_message :: "outgoing_message \<Rightarrow> json" where
  "to_ahp_message m =
     (let meta = opt_field (given (am_effort m)) ''zaw/reasoningEffort'' (str_json (am_effort m)) @
                 opt_field (given (am_approval m)) ''zaw/approvalMode'' (str_json (am_approval m)) @
                 opt_field (given (am_mode m)) ''zaw/agentMode'' (str_json (am_mode m))
      in JObj ([(''text'', JStr (am_text m)), (''origin'', JObj [(''kind'', JStr ''user'')])] @
               opt_field (am_attachments m \<noteq> []) ''attachments'' (JArr (am_attachments m)) @
               opt_field (given (am_model m)) ''model'' (JObj [(''id'', str_json (am_model m))]) @
               opt_field (meta \<noteq> []) ''_meta'' (JObj meta) @
               opt_field (case am_agent m of None \<Rightarrow> False | Some a \<Rightarrow> starts_with ''agent:'' a) ''agent''
                 (JObj [(''uri'', str_json (am_agent m))])))"

section \<open>Values of responses\<close>

definition object_value :: "json \<Rightarrow> json" where
  "object_value v = (case record_value v of None \<Rightarrow> JObj [] | Some r \<Rightarrow> r)"

definition terminal_output :: "json \<Rightarrow> string" where
  "terminal_output v =
     concat (map (\<lambda>p. let o' = field p ''output''; v' = field p ''value''
                      in if is_str o' then string_value o' else string_value v') (arr_items v))"

definition terminal_from_snapshot :: "json \<Rightarrow> string \<Rightarrow> string \<Rightarrow> agent_terminal" where
  "terminal_from_snapshot snapshot resource fallback =
     (let state = field snapshot ''state''
      in \<lparr>tl_resource = str_or resource (field snapshot ''resource''), tl_title = str_or fallback (field state ''title''),
          tl_output = terminal_output (field state ''content'')\<rparr>)"

definition changeset_file :: "json \<Rightarrow> workspace_change list" where
  "changeset_file v =
     (let edit = object_value (field v ''edit'');
          before = object_value (field edit ''before'');
          after = object_value (field edit ''after'');
          resource = (if is_str (field after ''uri'') then str_field after ''uri'' else str_field before ''uri'');
          diff = field edit ''diff''
      in if \<not> is_str (field v ''id'') \<or> resource = [] then []
         else [\<lparr>cg_diff = (if is_str diff then string_value diff else if truthy diff then pretty [] diff else []),
                cg_id = str_field v ''id'', cg_path = str_field v ''id'', cg_resource = resource,
                cg_reviewed = (field v ''reviewed'' = JBool True),
                cg_status = (if spread_fields before = [] then ''A'' else if spread_fields after = [] then ''D'' else ''M'')\<rparr>])"

definition read_changeset :: "string \<Rightarrow> json \<Rightarrow> changeset" where
  "read_changeset resource result =
     (let state = field (field result ''snapshot'') ''state''
      in \<lparr>ct_files = concat (map changeset_file (arr_items (field state ''files''))),
          ct_operations = map (\<lambda>v. str_field v ''id'')
            (filter (\<lambda>v. is_str (field v ''id'')) (arr_items (field state ''operations''))),
          ct_resource = resource\<rparr>)"

definition empty_changeset :: changeset where
  "empty_changeset = \<lparr>ct_files = [], ct_operations = [], ct_resource = []\<rparr>"

section \<open>Agents and terminals\<close>

text \<open>A new object; its address is returned.\<close>

definition alloc :: "agent_terminal \<Rightarrow> client \<Rightarrow> client \<times> nat" where
  "alloc t s = (s\<lparr>ac_heap := ac_heap s @ [t]\<rparr>, length (ac_heap s))"

definition read_agent :: "json \<Rightarrow> host_agent list" where
  "read_agent v =
     (if \<not> is_str (field v ''provider'') then []
      else [\<lparr>ag_description = str_field v ''description'', ag_id = str_field v ''provider'',
             ag_name = str_or (str_field v ''provider'') (field v ''displayName'')\<rparr>])"

definition replace_agents :: "json \<Rightarrow> client \<Rightarrow> client" where
  "replace_agents v s = s\<lparr>ac_agents := concat (map read_agent (arr_items v))\<rparr>"

definition known_output :: "string \<Rightarrow> client \<Rightarrow> string" where
  "known_output r s = (case om_get (ac_terminals s) r of None \<Rightarrow> [] | Some a \<Rightarrow> tl_output (ac_heap s ! a))"

definition next_terminal :: "client \<Rightarrow> json \<Rightarrow> (string, nat) omap \<times> agent_terminal list \<Rightarrow> (string, nat) omap \<times> agent_terminal list" where
  "next_terminal s v st =
     (case st of (m, heap) \<Rightarrow>
        if \<not> is_str (field v ''resource'') then (m, heap)
        else (om_set (str_field v ''resource'') (length heap) m,
              heap @ [\<lparr>tl_resource = str_field v ''resource'', tl_title = str_or ''Terminal'' (field v ''title''),
                       tl_output = known_output (str_field v ''resource'') s\<rparr>]))"

definition replace_terminals :: "json \<Rightarrow> client \<Rightarrow> client" where
  "replace_terminals v s =
     (if \<not> is_arr v then s
      else case fold (next_terminal s) (arr_items v) ([], ac_heap s) of
          (m, heap) \<Rightarrow> s\<lparr>ac_terminals := m, ac_heap := heap\<rparr>)"

definition read_root_state :: "json list \<Rightarrow> client \<Rightarrow> client" where
  "read_root_state snapshots s =
     fold (\<lambda>v s. if field v ''resource'' = JStr root_channel
                 then replace_terminals (field (field v ''state'') ''terminals'') (replace_agents (field (field v ''state'') ''agents'') s)
                 else s) snapshots s"

text \<open>An action of the host changes the objects in place.\<close>

definition apply_terminal_action :: "json \<Rightarrow> client \<Rightarrow> client" where
  "apply_terminal_action e s =
     (let a = field e ''action'' in
      if field a ''type'' = JStr ''root/agentsChanged'' then replace_agents (field a ''agents'') s
      else if field a ''type'' = JStr ''root/terminalsChanged'' then replace_terminals (field a ''terminals'') s
      else case om_get (ac_terminals s) (str_field e ''channel'') of
          None \<Rightarrow> s
        | Some k \<Rightarrow>
            let t = ac_heap s ! k;
                t1 = (if field a ''type'' = JStr ''terminal/data'' \<and> is_str (field a ''data'')
                      then t\<lparr>tl_output := tl_output t @ str_field a ''data''\<rparr> else t);
                t2 = (if field a ''type'' = JStr ''terminal/titleChanged'' \<and> is_str (field a ''title'')
                      then t1\<lparr>tl_title := str_field a ''title''\<rparr> else t1)
            in s\<lparr>ac_heap := (ac_heap s)[k := t2]\<rparr>)"

definition set_terminal :: "string \<Rightarrow> agent_terminal \<Rightarrow> client \<Rightarrow> client \<times> nat" where
  "set_terminal r t s = (case alloc t s of (s1, k) \<Rightarrow> (s1\<lparr>ac_terminals := om_set r k (ac_terminals s1)\<rparr>, k))"

section \<open>The methods\<close>

definition channel_params :: "string \<Rightarrow> json" where
  "channel_params c = JObj [(''channel'', JStr c)]"

definition claim :: "client \<Rightarrow> json" where
  "claim s = JObj [(''kind'', JStr ''client''), (''clientId'', JStr (ac_id s))]"

definition load_changeset_rest :: "nat \<Rightarrow> string \<Rightarrow> client \<Rightarrow> client" where
  "load_changeset_rest n session s =
     (case om_get (ac_changesets s) session of
        None \<Rightarrow> settle n (Inr (ChangesetValue empty_changeset)) s
      | Some r \<Rightarrow>
          if r = [] then settle n (Inr (ChangesetValue empty_changeset)) s
          else send_request ''subscribe'' (channel_params r) n (ChangesetTask r) s)"

text \<open>The rest of a method that has the chat of its session.\<close>

definition with_chat :: "nat \<Rightarrow> after_session \<Rightarrow> string \<Rightarrow> string \<Rightarrow> client \<Rightarrow> client" where
  "with_chat n next resource chat s =
     (let known = s\<lparr>ac_chats := om_set resource chat (ac_chats s)\<rparr> in
      case next of
        ThenCreated title \<Rightarrow>
          settle n (Inr (SessionValue resource))
            ((if title = [] then s
              else dispatch resource (JObj [(''type'', JStr ''session/titleChanged''), (''title'', JStr title)]) s)
             \<lparr>ac_chats := om_set resource chat (ac_chats s)\<rparr>)
      | ThenAttached \<Rightarrow> settle n (Inr UnitValue) s
      | ThenPrompt m turn started \<Rightarrow>
          let action = JObj [(''type'', JStr ''chat/turnStarted''), (''turnId'', JStr turn), (''startedAt'', JStr started),
                             (''message'', to_ahp_message m)]
          in settle n (Inr UnitValue) (emit_action (envelope chat action (JNum 0)) (dispatch chat action known))
      | ThenDraft m \<Rightarrow>
          settle n (Inr UnitValue) (dispatch chat
            (JObj ([(''type'', JStr ''chat/draftChanged'')] @
                   (case m of None \<Rightarrow> [] | Some m \<Rightarrow> [(''draft'', to_ahp_message m)]))) known)
      | ThenCancel turn \<Rightarrow>
          settle n (Inr UnitValue) (dispatch chat
            (JObj [(''type'', JStr ''chat/turnCancelled''), (''turnId'', JStr turn), (''duration'', JNum 0)]) known)
      | ThenChangeset \<Rightarrow> load_changeset_rest n resource s)"

definition subscribe_session :: "nat \<Rightarrow> after_session \<Rightarrow> string \<Rightarrow> client \<Rightarrow> client" where
  "subscribe_session n next resource = send_request ''subscribe'' (channel_params resource) n (SubscribeTask next resource)"

text \<open>What a subscription to a session tells of its changes.\<close>

definition learn_changeset :: "string \<Rightarrow> json \<Rightarrow> client \<Rightarrow> client" where
  "learn_changeset resource changesets s =
     (case changesets of
        JArr (c # cs) \<Rightarrow>
          (case field c ''uriTemplate'' of
             JStr u \<Rightarrow> if includes_str ''{'' u then s else s\<lparr>ac_changesets := om_set resource u (ac_changesets s)\<rparr>
           | _ \<Rightarrow> s)
      | _ \<Rightarrow> s)"

definition no_chat_error :: call_outcome where
  "no_chat_error = Inl (Some ''Agent Host did not provide a default Chat channel'')"

text \<open>The task of a request that has been answered with \<open>v\<close>.\<close>

fun resume :: "nat \<Rightarrow> client_task \<Rightarrow> json \<Rightarrow> client \<Rightarrow> client" where
  "resume n InitializeTask v s =
     (if nullish v then settle n (Inl None) s
      else settle n (Inr UnitValue)
        (read_root_state (arr_items (field v ''snapshots'')) (s\<lparr>ac_directory := str_field v ''defaultDirectory''\<rparr>)))"
| "resume n (CreateSessionTask title resource) v s = subscribe_session n (ThenCreated title) resource s"
| "resume n (SubscribeTask next resource) v s =
     (if nullish v then settle n (Inl None) s
      else let state = field (field v ''snapshot'') ''state''; chat = str_field state ''defaultChat''
           in if chat = [] then settle n no_chat_error s
              else send_request ''subscribe'' (channel_params chat) n (ChatTask next resource chat)
                (learn_changeset resource (field state ''changesets'') (s\<lparr>ac_chats := om_set resource chat (ac_chats s)\<rparr>)))"
| "resume n (ChatTask next resource chat) v s =
     (if nullish v then settle n (Inl None) s
      else let snapshot = field v ''snapshot''; state = field snapshot ''state'';
               server = (if nullish (field snapshot ''fromSeq'') then JNum 0 else field snapshot ''fromSeq'')
           in with_chat n next resource chat
                (if truthy state
                 then emit_action (envelope chat (JObj [(''type'', JStr ''chat/snapshot''), (''state'', state)]) server) s
                 else s))"
| "resume n ListSessionsTask v s =
     settle n (if nullish v then Inl None else Inr (ItemsValue (field v ''items''))) s"
| "resume n (CreateTerminalTask resource name) v s =
     (if nullish v then settle n (Inl None) s
      else case set_terminal resource (terminal_from_snapshot (field v ''snapshot'') resource name) s of
          (s1, k) \<Rightarrow> send_request ''subscribe'' (channel_params resource) n (SubscribeTerminalTask resource k) s1)"
| "resume n (SubscribeTerminalTask resource k) v s =
     (if nullish v then settle n (Inl None) s
      else let created = ac_heap s ! k;
               t = terminal_from_snapshot (field v ''snapshot'') resource (tl_title created);
               t' = (if tl_output t = [] then t\<lparr>tl_output := tl_output created\<rparr> else t)
           in case set_terminal resource t' s of (s1, k1) \<Rightarrow> settle n (Inr (TerminalValue k1)) s1)"
| "resume n (AttachTerminalTask resource) v s =
     (if nullish v then settle n (Inl None) s
      else let state = field (field v ''snapshot'') ''state'';
               title = (case field state ''title'' of
                   JStr t \<Rightarrow> t
                 | _ \<Rightarrow> (case om_get (ac_terminals s) resource of None \<Rightarrow> ''Terminal'' | Some k \<Rightarrow> tl_title (ac_heap s ! k)));
               t = \<lparr>tl_resource = resource, tl_title = title, tl_output = terminal_output (field state ''content'')\<rparr>
           in case set_terminal resource t s of
                (s1, k) \<Rightarrow> settle n (Inr (TerminalValue k))
                  (dispatch resource (JObj [(''type'', JStr ''terminal/claimed''), (''claim'', claim s1)]) s1))"
| "resume n PlainTask v s = settle n (Inr UnitValue) s"
| "resume n ResourceListTask v s =
     settle n (if nullish v then Inl None else Inr (EntriesValue (field v ''entries''))) s"
| "resume n ResourceReadTask v s = settle n (if nullish v then Inl None else Inr (DataValue (field v ''data''))) s"
| "resume n (ChangesetTask resource) v s =
     settle n (if nullish v then Inl None else Inr (ChangesetValue (read_changeset resource v))) s"

text \<open>The method calls.\<close>

datatype client_call =
    CreateSession string "string option" string
  | ListSessions
  | AttachSession string
  | CreateTerminal string string
  | AttachTerminal string
  | DisposeTerminal string
  | PromptSession string outgoing_message string string
  | UpdateDraft string "outgoing_message option"
  | CancelTurn string string
  | ListResources "string option"
  | ReadResource string
  | LoadChangeset string
  | InvokeOperation string string string

text \<open>A method that needs the chat of a session has it, or subscribes first.\<close>

definition need_chat :: "nat \<Rightarrow> after_session \<Rightarrow> string \<Rightarrow> client \<Rightarrow> client" where
  "need_chat n next resource s =
     (case om_get (ac_chats s) resource of
        Some chat \<Rightarrow> with_chat n next resource chat s
      | None \<Rightarrow> subscribe_session n next resource s)"

fun perform :: "nat \<Rightarrow> client_call \<Rightarrow> client \<Rightarrow> client" where
  "perform n (CreateSession title provider resource) s =
     send_request ''createSession'' (JObj ([(''channel'', JStr resource)] @ opt_field (given provider) ''provider'' (str_json provider)))
       n (CreateSessionTask title resource) s"
| "perform n ListSessions s = send_request ''listSessions'' (channel_params root_channel) n ListSessionsTask s"
| "perform n (AttachSession resource) s =
     (if om_has (ac_chats s) resource then settle n (Inr UnitValue) s else subscribe_session n ThenAttached resource s)"
| "perform n (CreateTerminal resource name) s =
     send_request ''createTerminal''
       (JObj [(''channel'', JStr resource), (''claim'', claim s), (''name'', JStr name), (''cols'', JNum 100), (''rows'', JNum 24)])
       n (CreateTerminalTask resource name) s"
| "perform n (AttachTerminal resource) s = send_request ''subscribe'' (channel_params resource) n (AttachTerminalTask resource) s"
| "perform n (DisposeTerminal resource) s = send_request ''disposeTerminal'' (channel_params resource) n PlainTask s"
| "perform n (PromptSession resource m turn started) s = need_chat n (ThenPrompt m turn started) resource s"
| "perform n (UpdateDraft resource m) s = need_chat n (ThenDraft m) resource s"
| "perform n (CancelTurn resource turn) s = need_chat n (ThenCancel turn) resource s"
| "perform n (ListResources uri) s =
     send_request ''resourceList'' (JObj [(''channel'', JStr root_channel),
         (''uri'', JStr (case uri of None \<Rightarrow> ac_directory s | Some u \<Rightarrow> u))]) n ResourceListTask s"
| "perform n (ReadResource uri) s =
     send_request ''resourceRead'' (JObj [(''channel'', JStr root_channel), (''uri'', JStr uri), (''encoding'', JStr ''utf-8'')])
       n ResourceReadTask s"
| "perform n (LoadChangeset session) s =
     (if om_has (ac_changesets s) session then load_changeset_rest n session s
      else subscribe_session n ThenChangeset session s)"
| "perform n (InvokeOperation c opid resource) s =
     send_request ''invokeChangesetOperation''
       (JObj [(''channel'', JStr c), (''operationId'', JStr opid),
              (''target'', JObj [(''kind'', JStr ''resource''), (''resource'', JStr resource)])]) n PlainTask s"

definition call_client :: "client_call \<Rightarrow> client \<Rightarrow> client" where
  "call_client c s = perform (ac_calls s) c (s\<lparr>ac_calls := Suc (ac_calls s)\<rparr>)"

text \<open>The client once its socket is open: the handshake is its first call.\<close>

definition new_client :: "string \<Rightarrow> client" where
  "new_client cid =
     send_request ''initialize''
       (JObj [(''channel'', JStr root_channel), (''protocolVersions'', JArr [JStr ''0.6.0'']), (''clientId'', JStr cid),
              (''initialSubscriptions'', JArr [JStr root_channel])]) 0 InitializeTask
       \<lparr>ac_id = cid, ac_next_id = 1, ac_next_seq = 1, ac_socket = SocketOpen, ac_directory = [], ac_pending = [],
        ac_chats = [], ac_changesets = [], ac_terminals = [], ac_heap = [], ac_agents = [], ac_action_listeners = [],
        ac_close_listeners = [], ac_calls = 1, ac_settled = [], ac_sent = [], ac_emitted = [], ac_closed_told = []\<rparr>"

text \<open>The id under which the workbench is known: kept for the browser session, if it can be.\<close>

definition workbench_client_id :: "string \<Rightarrow> browser_storage option \<Rightarrow> string \<Rightarrow> browser_storage option \<times> string" where
  "workbench_client_id ws st created =
     (let key = ''zaw.ahp-client.'' @ ws in
      case stored_item key st of
        Some e \<Rightarrow> if e \<noteq> [] then (st, e) else (store_item key created st, created)
      | None \<Rightarrow> (store_item key created st, created))"

definition client_list_terminals :: "client \<Rightarrow> nat list" where
  "client_list_terminals s = om_values (ac_terminals s)"

definition client_is_closed :: "client \<Rightarrow> bool" where
  "client_is_closed s \<longleftrightarrow> ac_socket s = SocketClosed"

definition client_close :: "client \<Rightarrow> client" where
  "client_close s = (if ac_socket s = SocketOpen then s\<lparr>ac_socket := SocketClosing\<rparr> else s)"

definition terminal_input_action :: "string \<Rightarrow> string \<Rightarrow> client \<Rightarrow> client" where
  "terminal_input_action r data = dispatch r (JObj [(''type'', JStr ''terminal/input''), (''data'', JStr data)])"

definition terminal_resize_action :: "string \<Rightarrow> int \<Rightarrow> int \<Rightarrow> client \<Rightarrow> client" where
  "terminal_resize_action r cols rows =
     dispatch r (JObj [(''type'', JStr ''terminal/resized''), (''cols'', JNum (of_int cols)), (''rows'', JNum (of_int rows))])"

definition confirm_tool_call :: "string \<Rightarrow> string \<Rightarrow> string \<Rightarrow> bool \<Rightarrow> client \<Rightarrow> client" where
  "confirm_tool_call chat turn call approved =
     dispatch chat (JObj [(''type'', JStr ''chat/toolCallConfirmed''), (''turnId'', JStr turn), (''toolCallId'', JStr call),
       (''approved'', JBool approved), (if approved then (''confirmed'', JStr ''user-action'') else (''reason'', JStr ''denied''))])"

definition set_changes_reviewed :: "string \<Rightarrow> string list \<Rightarrow> bool \<Rightarrow> client \<Rightarrow> client" where
  "set_changes_reviewed c files reviewed =
     dispatch c (JObj [(''type'', JStr ''changeset/filesReviewChanged''), (''files'', JArr (map JStr files)), (''reviewed'', JBool reviewed)])"

text \<open>
  \<open>url name base\<close> is the standard library's \<open>new URL(name, base).toString()\<close>, \<open>None\<close> where it
  throws: for a base that is no URL, as the empty directory of a host that gives none.
\<close>

definition resource_uri :: "(string \<Rightarrow> string \<Rightarrow> string option) \<Rightarrow> string \<Rightarrow> string option \<Rightarrow> client \<Rightarrow> string option" where
  "resource_uri url name base s =
     (let b = (case base of None \<Rightarrow> ac_directory s | Some b \<Rightarrow> b)
      in url name ((if ends_with ''/'' b then butlast b else b) @ ''/''))"

definition session_for_chat :: "string \<Rightarrow> client \<Rightarrow> string option" where
  "session_for_chat chat s = map_option fst (find (\<lambda>(session, r). r = chat) (ac_chats s))"

section \<open>Messages and the end of the connection\<close>

definition request_id :: "json \<Rightarrow> nat option" where
  "request_id v = (case v of JNum r \<Rightarrow> if r = of_nat (nat \<lfloor>r\<rfloor>) then Some (nat \<lfloor>r\<rfloor>) else None | _ \<Rightarrow> None)"

definition answer :: "nat \<Rightarrow> json \<Rightarrow> client \<Rightarrow> client" where
  "answer i payload s =
     (case om_get (ac_pending s) i of
        None \<Rightarrow> s
      | Some (n, task) \<Rightarrow>
          let s1 = s\<lparr>ac_pending := om_del i (ac_pending s)\<rparr> in
          if truthy (field payload ''error'') then settle n (Inl (Some (str_field (field payload ''error'') ''message''))) s1
          else resume n task (field payload ''result'') s1)"

definition receive_payload :: "json \<Rightarrow> client \<Rightarrow> client" where
  "receive_payload p s =
     (let meth = field p ''method''; params = field p ''params'' in
      if meth = JStr ''action'' \<and> truthy params
      then (if nullish (field params ''action'') then s else emit_action params (apply_terminal_action params s))
      else if truthy meth \<and> truthy params
      then emit_action
             (envelope (str_or root_channel (field params ''channel''))
               (JObj (fold (\<lambda>(k, v). om_set k v) (spread_fields params) [(''type'', meth)]))
               (case field params ''serverSeq'' of JNum r \<Rightarrow> JNum r | _ \<Rightarrow> JNum 0)) s
      else (case request_id (field p ''id'') of None \<Rightarrow> s | Some i \<Rightarrow> answer i p s))"

text \<open>A message is only received while the socket is open; text that is no JSON throws.\<close>

definition receive :: "string \<Rightarrow> client \<Rightarrow> client" where
  "receive t s =
     (if ac_socket s \<noteq> SocketOpen then s
      else case json_parse t of None \<Rightarrow> s | Some p \<Rightarrow> if nullish p then s else receive_payload p s)"

definition connection_lost :: call_outcome where
  "connection_lost = Inl (Some ''Agent Host connection closed'')"

text \<open>
  A method that awaits \<open>subscribeSession\<close> waits for that function's promise, which settles first: it is
  rejected one turn of the queue of microtasks later than a method that awaits its request itself.
\<close>

fun in_subscription :: "client_task \<Rightarrow> bool" where
  "in_subscription (SubscribeTask next resource) = True"
| "in_subscription (ChatTask next resource chat) = True"
| "in_subscription _ = False"

definition calls_awaiting :: "(client_task \<Rightarrow> bool) \<Rightarrow> client \<Rightarrow> nat list" where
  "calls_awaiting P s = map (\<lambda>(i, n, task). n) (filter (\<lambda>(i, n, task). P task) (ac_pending s))"

text \<open>
  The socket's \<open>close\<close> event, which comes once: the requests are rejected in their order, then the
  calls settle as the rejections reach them.
\<close>

definition socket_closed :: "client \<Rightarrow> client" where
  "socket_closed s =
     (if ac_socket s = SocketClosed then s
      else s\<lparr>ac_socket := SocketClosed, ac_pending := [],
             ac_settled := ac_settled s @
               map (\<lambda>n. (n, connection_lost)) (calls_awaiting (\<lambda>t. \<not> in_subscription t) s @ calls_awaiting in_subscription s),
             ac_closed_told := ac_closed_told s @ ac_close_listeners s\<rparr>)"

datatype client_op =
    ClCall client_call | ClReceive string | ClClose | ClSocketClosed
  | ClInput string string | ClResize string int int | ClConfirm string string string bool | ClReviewed string "string list" bool
  | ClOnAction nat | ClOffAction nat | ClOnClose nat | ClOffClose nat

fun apply_client :: "client_op \<Rightarrow> client \<Rightarrow> client" where
  "apply_client (ClCall c) s = call_client c s"
| "apply_client (ClReceive t) s = receive t s"
| "apply_client ClClose s = client_close s"
| "apply_client ClSocketClosed s = socket_closed s"
| "apply_client (ClInput r d) s = terminal_input_action r d s"
| "apply_client (ClResize r c w) s = terminal_resize_action r c w s"
| "apply_client (ClConfirm c t i b) s = confirm_tool_call c t i b s"
| "apply_client (ClReviewed c fs b) s = set_changes_reviewed c fs b s"
| "apply_client (ClOnAction l) s = s\<lparr>ac_action_listeners := os_add l (ac_action_listeners s)\<rparr>"
| "apply_client (ClOffAction l) s = s\<lparr>ac_action_listeners := os_del l (ac_action_listeners s)\<rparr>"
| "apply_client (ClOnClose l) s = s\<lparr>ac_close_listeners := os_add l (ac_close_listeners s)\<rparr>"
| "apply_client (ClOffClose l) s = s\<lparr>ac_close_listeners := os_del l (ac_close_listeners s)\<rparr>"

section \<open>Every call is settled at most once\<close>

definition open_calls :: "client \<Rightarrow> nat list" where
  "open_calls s = map (\<lambda>(i, n, t). n) (ac_pending s)"

text \<open>The calls that have settled and the calls with a request under way.\<close>

definition call_bag :: "client \<Rightarrow> nat multiset" where
  "call_bag s = mset (map fst (ac_settled s)) + mset (open_calls s)"

definition ids_ok :: "client \<Rightarrow> bool" where
  "ids_ok s \<longleftrightarrow> om_wf (ac_pending s) \<and> (\<forall>i \<in> fst ` set (ac_pending s). i < ac_next_id s)"

text \<open>A step that neither asks nor answers anything.\<close>

definition same_calls :: "client \<Rightarrow> client \<Rightarrow> bool" where
  "same_calls s t \<longleftrightarrow> ac_pending t = ac_pending s \<and> ac_settled t = ac_settled s \<and> ac_next_id t = ac_next_id s \<and>
     ac_calls t = ac_calls s \<and> ac_socket t = ac_socket s"

text \<open>A step that takes one call on: it is settled or has a request under way.\<close>

definition takes_on :: "nat \<Rightarrow> client \<Rightarrow> client \<Rightarrow> bool" where
  "takes_on n s t \<longleftrightarrow> call_bag t = add_mset n (call_bag s) \<and> ids_ok t \<and> ac_calls t = ac_calls s \<and> ac_socket t = ac_socket s"

lemma same_calls_refl [simp]: "same_calls s s"
  by (simp add: same_calls_def)

lemma same_calls_trans: "same_calls s t \<Longrightarrow> same_calls t u \<Longrightarrow> same_calls s u"
  by (simp add: same_calls_def)

lemma same_calls_takes_on: "same_calls s t \<Longrightarrow> takes_on n t u \<Longrightarrow> takes_on n s u"
  by (simp add: same_calls_def takes_on_def call_bag_def open_calls_def)

lemma takes_on_same_calls: "takes_on n s t \<Longrightarrow> same_calls t u \<Longrightarrow> takes_on n s u"
  by (simp add: same_calls_def takes_on_def call_bag_def open_calls_def ids_ok_def)

lemma same_calls_ids: "same_calls s t \<Longrightarrow> ids_ok s \<Longrightarrow> ids_ok t"
  by (simp add: same_calls_def ids_ok_def)

lemma same_calls_steps:
  "same_calls s (send m s)" "same_calls s (dispatch c a s)" "same_calls s (emit_action e s)" "same_calls s (replace_agents v s)"
  "same_calls s (replace_terminals v s)" "same_calls s (learn_changeset r v s)" "same_calls s (apply_terminal_action v s)"
  "same_calls s (s\<lparr>ac_chats := m1\<rparr>)" "same_calls s (s\<lparr>ac_directory := d\<rparr>)"
  by (auto simp: same_calls_def send_def dispatch_def emit_action_def replace_agents_def replace_terminals_def learn_changeset_def
      apply_terminal_action_def Let_def split: prod.split json.split list.split option.split)

lemma same_calls_set_terminal: "set_terminal r t s = (s1, k) \<Longrightarrow> same_calls s s1"
  by (auto simp: set_terminal_def alloc_def same_calls_def)

lemma same_calls_root: "same_calls s (read_root_state vs s)"
proof -
  have "same_calls s (fold (\<lambda>v s. if P v then replace_terminals (f v) (replace_agents (g v) s) else s) vs t)"
    if "same_calls s t" for P f g t
    using that
  proof (induction vs arbitrary: t)
    case (Cons v vs)
    have "same_calls s (if P v then replace_terminals (f v) (replace_agents (g v) t) else t)"
      using Cons.prems same_calls_steps(4,5) same_calls_trans by (metis (full_types))
    then show ?case using Cons.IH by simp
  qed simp
  then show ?thesis unfolding read_root_state_def by simp
qed

lemma settle_takes_on: "ids_ok s \<Longrightarrow> takes_on n s (settle n out s)"
  by (simp add: takes_on_def settle_def call_bag_def open_calls_def ids_ok_def)

lemma request_takes_on:
  assumes "ids_ok s"
  shows "takes_on n s (send_request m p n t s)"
proof -
  let ?i = "ac_next_id s"
  have "om_get (ac_pending s) ?i = None"
    using assms by (force simp: ids_ok_def map_of_eq_None_iff)
  then have p: "ac_pending (send_request m p n t s) = ac_pending s @ [(?i, n, t)]"
    by (simp add: send_request_def Let_def send_def om_set_fresh)
  have r: "ac_settled (send_request m p n t s) = ac_settled s" "ac_next_id (send_request m p n t s) = Suc ?i"
    "ac_calls (send_request m p n t s) = ac_calls s" "ac_socket (send_request m p n t s) = ac_socket s"
    by (simp_all add: send_request_def Let_def send_def)
  have "om_wf (ac_pending s @ [(?i, n, t)])" using assms by (auto simp: ids_ok_def om_wf_def)
  then show ?thesis using assms by (auto simp: takes_on_def call_bag_def open_calls_def ids_ok_def p r less_SucI)
qed

lemma load_changeset_takes_on: "ids_ok s \<Longrightarrow> takes_on n s (load_changeset_rest n r s)"
  by (simp add: load_changeset_rest_def settle_takes_on request_takes_on split: option.split)

lemma with_chat_takes_on:
  assumes ok: "ids_ok s"
  shows "takes_on n s (with_chat n next resource chat s)"
proof (cases "next")
  case (ThenCreated title)
  let ?s1 = "(if title = [] then s else dispatch resource (JObj [(''type'', JStr ''session/titleChanged''), (''title'', JStr title)]) s)
    \<lparr>ac_chats := om_set resource chat (ac_chats s)\<rparr>"
  have "same_calls s ?s1" by (simp add: same_calls_def dispatch_def send_def)
  then have "takes_on n s (settle n (Inr (SessionValue resource)) ?s1)"
    using ok same_calls_takes_on settle_takes_on same_calls_ids by blast
  then show ?thesis unfolding with_chat_def Let_def ThenCreated after_session.case .
next
  case (ThenPrompt m t st)
  show ?thesis unfolding with_chat_def Let_def ThenPrompt after_session.case
    by (rule same_calls_takes_on [OF _ settle_takes_on])
      (use ok in \<open>simp_all add: same_calls_def emit_action_def dispatch_def send_def ids_ok_def\<close>)
next
  case (ThenDraft m)
  show ?thesis unfolding with_chat_def Let_def ThenDraft after_session.case
    by (rule same_calls_takes_on [OF _ settle_takes_on])
      (use ok in \<open>simp_all add: same_calls_def emit_action_def dispatch_def send_def ids_ok_def\<close>)
next
  case (ThenCancel t)
  show ?thesis unfolding with_chat_def Let_def ThenCancel after_session.case
    by (rule same_calls_takes_on [OF _ settle_takes_on])
      (use ok in \<open>simp_all add: same_calls_def emit_action_def dispatch_def send_def ids_ok_def\<close>)
qed (use ok in \<open>simp_all add: with_chat_def Let_def settle_takes_on load_changeset_takes_on\<close>)

lemma set_terminal_takes_on:
  assumes "ids_ok s" and "\<And>s1 k. ids_ok s1 \<Longrightarrow> takes_on n s1 (f s1 k)"
  shows "takes_on n s (case set_terminal r t s of (s1, k) \<Rightarrow> f s1 k)"
proof -
  obtain s1 k where p: "set_terminal r t s = (s1, k)" by fastforce
  have "same_calls s s1" using p by (rule same_calls_set_terminal)
  then show ?thesis using assms p same_calls_ids same_calls_takes_on by simp
qed

lemma resume_takes_on: "ids_ok s \<Longrightarrow> takes_on n s (resume n task v s)"
proof (cases task)
  case InitializeTask
  assume ok: "ids_ok s"
  let ?t = "read_root_state (arr_items (field v ''snapshots'')) (s\<lparr>ac_directory := str_field v ''defaultDirectory''\<rparr>)"
  have "same_calls s ?t" by (rule same_calls_trans [OF same_calls_steps(9) same_calls_root])
  then have "takes_on n s (settle n (Inr UnitValue) ?t)"
    using ok same_calls_ids same_calls_takes_on settle_takes_on by blast
  then show ?thesis using ok by (simp add: InitializeTask settle_takes_on)
next
  case (SubscribeTask nx resource)
  assume ok: "ids_ok s"
  let ?c = "str_field (field (field v ''snapshot'') ''state'') ''defaultChat''"
  let ?t = "learn_changeset resource (field (field (field v ''snapshot'') ''state'') ''changesets'')
    (s\<lparr>ac_chats := om_set resource ?c (ac_chats s)\<rparr>)"
  have "same_calls s ?t" by (rule same_calls_trans [OF same_calls_steps(8) same_calls_steps(6)])
  then have "takes_on n s (send_request m p n t ?t)" for m p t
    using ok same_calls_ids same_calls_takes_on request_takes_on by blast
  then show ?thesis using ok by (simp add: SubscribeTask settle_takes_on Let_def)
next
  case (ChatTask nx resource chat)
  assume ok: "ids_ok s"
  have "takes_on n s (with_chat n nx resource chat (if b then emit_action e s else s))" for b e
    using ok with_chat_takes_on same_calls_steps(3) same_calls_ids same_calls_takes_on by (metis (full_types))
  then show ?thesis using ok by (simp add: ChatTask settle_takes_on Let_def)
next
  case (CreateTerminalTask resource name)
  assume ok: "ids_ok s"
  show ?thesis using ok set_terminal_takes_on [OF ok request_takes_on]
    by (simp add: CreateTerminalTask settle_takes_on)
next
  case (SubscribeTerminalTask resource k)
  assume ok: "ids_ok s"
  show ?thesis using ok set_terminal_takes_on [OF ok settle_takes_on]
    by (simp add: SubscribeTerminalTask settle_takes_on Let_def)
next
  case (AttachTerminalTask resource)
  assume ok: "ids_ok s"
  have "takes_on n s1 (settle n (out k) (dispatch resource (a s1) s1))" if "ids_ok s1" for s1 out k a
    using that same_calls_steps(2) same_calls_ids same_calls_takes_on settle_takes_on by blast
  then have "takes_on n s (case set_terminal resource t s of (s1, k) \<Rightarrow> settle n (Inr (TerminalValue k)) (dispatch resource (a s1) s1))" for t a
    by (rule set_terminal_takes_on [OF ok])
  then show ?thesis using ok unfolding AttachTerminalTask resume.simps Let_def by (simp add: settle_takes_on)
qed (simp_all add: subscribe_session_def settle_takes_on request_takes_on)

lemma perform_takes_on: "ids_ok s \<Longrightarrow> takes_on n s (perform n c s)"
proof -
  assume ok: "ids_ok s"
  have "takes_on n s (need_chat n nx r s)" for nx r
    using ok by (simp add: need_chat_def with_chat_takes_on subscribe_session_def request_takes_on split: option.split)
  then show ?thesis
    using ok by (cases c) (simp_all add: request_takes_on settle_takes_on subscribe_session_def load_changeset_takes_on)
qed

definition accounted :: "client \<Rightarrow> bool" where
  "accounted s \<longleftrightarrow> ids_ok s \<and> call_bag s = mset [0..<ac_calls s]"

lemma same_calls_accounted: "same_calls s t \<Longrightarrow> accounted s \<Longrightarrow> accounted t"
  by (simp add: same_calls_def accounted_def ids_ok_def call_bag_def open_calls_def)

lemma accounted_call: "accounted s \<Longrightarrow> accounted (call_client c s)"
proof -
  assume a: "accounted s"
  let ?s = "s\<lparr>ac_calls := Suc (ac_calls s)\<rparr>"
  have "ids_ok ?s" "call_bag ?s = call_bag s" using a by (simp_all add: accounted_def ids_ok_def call_bag_def open_calls_def)
  then show ?thesis
    using a perform_takes_on [of ?s "ac_calls s" c] by (simp add: call_client_def accounted_def takes_on_def)
qed

lemma mset_om_del:
  "om_wf m \<Longrightarrow> om_get m i = Some v \<Longrightarrow> mset (map f m) = add_mset (f (i, v)) (mset (map f (om_del i m)))"
proof (induction m)
  case (Cons e m)
  obtain j w where e: "e = (j, w)" by fastforce
  show ?case
  proof (cases "j = i")
    case True
    then have "om_get m i = None" using Cons.prems(1) e by (auto simp: om_wf_def map_of_eq_None_iff)
    then show ?thesis using Cons.prems True e by (simp add: om_del_fresh)
  next
    case False
    then show ?thesis using Cons e by (simp add: om_wf_def)
  qed
qed simp

lemma accounted_answer: "accounted s \<Longrightarrow> accounted (answer i p s)"
proof (cases "om_get (ac_pending s) i")
  case None
  then show "accounted s \<Longrightarrow> ?thesis" by (simp add: answer_def)
next
  case (Some nt)
  assume a: "accounted s"
  obtain n task where nt: "nt = (n, task)" by fastforce
  let ?s = "s\<lparr>ac_pending := om_del i (ac_pending s)\<rparr>"
  have ok: "ids_ok ?s" using a by (auto simp: accounted_def ids_ok_def om_del_keys)
  have "mset (open_calls s) = add_mset n (mset (open_calls ?s))"
    unfolding open_calls_def
    using mset_om_del [of "ac_pending s" i nt "\<lambda>(i, n, t). n"] a Some nt by (simp add: accounted_def ids_ok_def)
  then have b: "call_bag s = add_mset n (call_bag ?s)" by (simp add: call_bag_def)
  have "takes_on n ?s (settle n out ?s)" "takes_on n ?s (resume n task v ?s)" for out v
    using ok by (simp_all add: settle_takes_on resume_takes_on)
  then show ?thesis using a Some nt b by (auto simp: answer_def Let_def accounted_def takes_on_def)
qed

lemma closed_again: "ac_socket s = SocketClosed \<Longrightarrow> socket_closed s = s"
  by (simp add: socket_closed_def)

lemma closed_fields:
  assumes "ac_socket s \<noteq> SocketClosed"
  shows "ac_pending (socket_closed s) = []" "ac_calls (socket_closed s) = ac_calls s" "open_calls (socket_closed s) = []"
    "ac_settled (socket_closed s) = ac_settled s @
       map (\<lambda>n. (n, connection_lost)) (calls_awaiting (\<lambda>t. \<not> in_subscription t) s @ calls_awaiting in_subscription s)"
  using assms by (simp_all add: socket_closed_def open_calls_def)

lemma awaiting_open: "mset (calls_awaiting (\<lambda>t. \<not> P t) s) + mset (calls_awaiting P s) = mset (open_calls s)"
proof -
  have "mset (map f (filter (\<lambda>(i, n, t). \<not> P t) m)) + mset (map f (filter (\<lambda>(i, n, t). P t) m)) = mset (map f m)"
    for f :: "nat \<times> nat \<times> client_task \<Rightarrow> nat" and m
    by (induction m) auto
  then show ?thesis by (simp only: calls_awaiting_def open_calls_def)
qed

lemma accounted_closed: "accounted s \<Longrightarrow> accounted (socket_closed s)"
proof (cases "ac_socket s = SocketClosed")
  case False
  assume a: "accounted s"
  have f: "map fst (map (\<lambda>n. (n, connection_lost)) ns) = ns" for ns :: "nat list" by (induction ns) simp_all
  have "call_bag (socket_closed s) = call_bag s"
    unfolding call_bag_def closed_fields [OF False] map_append f mset_append awaiting_open [of in_subscription s, symmetric] by simp
  moreover have "ids_ok (socket_closed s)" by (simp add: ids_ok_def closed_fields [OF False])
  ultimately show ?thesis using a by (simp add: accounted_def closed_fields [OF False])
qed (simp add: closed_again)

lemma accounted_step: "accounted s \<Longrightarrow> accounted (apply_client e s)"
proof (cases e)
  case (ClReceive t)
  assume a: "accounted s"
  have e: "accounted (emit_action x s)" "accounted (emit_action x (apply_terminal_action x s))" for x
    using a same_calls_accounted same_calls_steps(3,7) by blast+
  have "accounted (receive_payload p s)" for p
    unfolding receive_payload_def Let_def by (simp add: a e accounted_answer split: option.split)
  then show ?thesis using a ClReceive by (simp add: receive_def split: option.split)
qed (simp_all add: accounted_call accounted_closed terminal_input_action_def terminal_resize_action_def confirm_tool_call_def
    set_changes_reviewed_def same_calls_accounted [OF same_calls_steps(2)] client_close_def,
    simp_all add: accounted_def ids_ok_def call_bag_def open_calls_def)

lemma accounted_history: "accounted s \<Longrightarrow> accounted (fold apply_client es s)"
  by (induction es arbitrary: s) (simp_all add: accounted_step)

lemma accounted_new: "accounted (new_client cid)"
  by (simp add: accounted_def new_client_def send_request_def send_def ids_ok_def call_bag_def open_calls_def Let_def)
    (simp add: om_wf_def)

text \<open>
  C2: whatever the host sends, answers twice or out of order, and whenever the connection ends, no
  call of a method settles twice, and the calls that have not settled are exactly those with a
  request under way, each with one.
\<close>

theorem calls_settle_at_most_once:
  "let s = fold apply_client es (new_client cid)
   in mset (map fst (ac_settled s) @ open_calls s) = mset [0..<ac_calls s] \<and> distinct (map fst (ac_settled s) @ open_calls s)"
proof -
  have "accounted (fold apply_client es (new_client cid))" by (rule accounted_history [OF accounted_new])
  then have b: "mset (map fst (ac_settled (fold apply_client es (new_client cid))) @ open_calls (fold apply_client es (new_client cid)))
      = mset [0..<ac_calls (fold apply_client es (new_client cid))]"
    by (simp add: accounted_def call_bag_def)
  then show ?thesis using mset_eq_imp_distinct_iff [OF b] unfolding Let_def by simp
qed

section \<open>The end of the connection settles every call\<close>

text \<open>
  C7: when the connection ends, every call that has been made has settled, once; those that had not
  are rejected because of it, first the calls that await a request of their own in the order of
  these, then those that are still subscribing to their session, in the order of theirs.
\<close>

theorem connection_end_settles_every_call:
  "let s = fold apply_client es (new_client cid); t = socket_closed s
   in if ac_socket s = SocketClosed then t = s
      else mset (map fst (ac_settled t)) = mset [0..<ac_calls s] \<and>
           ac_settled t = ac_settled s @ map (\<lambda>n. (n, connection_lost))
             (calls_awaiting (\<lambda>t. \<not> in_subscription t) s @ calls_awaiting in_subscription s)"
proof -
  define s where "s = fold apply_client es (new_client cid)"
  have a: "accounted (socket_closed s)" unfolding s_def by (rule accounted_closed [OF accounted_history [OF accounted_new]])
  have "mset (map fst (ac_settled (socket_closed s))) = mset [0..<ac_calls s]" if "ac_socket s \<noteq> SocketClosed"
    using a unfolding accounted_def call_bag_def closed_fields(2,3) [OF that] by simp
  then show ?thesis unfolding Let_def s_def [symmetric] by (simp add: closed_again closed_fields(4) del: mset_map)
qed

section \<open>A request on a closed connection\<close>

lemma perform_keeps_pending:
  "i < ac_next_id s \<Longrightarrow> om_get (ac_pending (perform n c s)) i = om_get (ac_pending s) i \<and> ac_next_id s \<le> ac_next_id (perform n c s)
    \<and> ac_socket (perform n c s) = ac_socket s"
proof -
  assume i: "i < ac_next_id s"
  have r: "om_get (ac_pending (send_request m p n t s)) i = om_get (ac_pending s) i \<and> ac_next_id s \<le> ac_next_id (send_request m p n t s)
      \<and> ac_socket (send_request m p n t s) = ac_socket s" for m p t
    using i by (simp add: send_request_def send_def Let_def)
  have l: "om_get (ac_pending (load_changeset_rest n session s)) i = om_get (ac_pending s) i
      \<and> ac_next_id s \<le> ac_next_id (load_changeset_rest n session s) \<and> ac_socket (load_changeset_rest n session s) = ac_socket s" for session
    using r by (simp add: load_changeset_rest_def settle_def split: option.split)
  have w: "om_get (ac_pending (with_chat n nx resource chat s)) i = om_get (ac_pending s) i
      \<and> ac_next_id s \<le> ac_next_id (with_chat n nx resource chat s) \<and> ac_socket (with_chat n nx resource chat s) = ac_socket s" for nx resource chat
  proof (cases nx)
    case ThenChangeset
    then show ?thesis using l by (simp add: with_chat_def Let_def)
  qed (simp_all add: with_chat_def Let_def settle_def emit_action_def dispatch_def send_def)
  have "om_get (ac_pending (need_chat n nx resource s)) i = om_get (ac_pending s) i
      \<and> ac_next_id s \<le> ac_next_id (need_chat n nx resource s) \<and> ac_socket (need_chat n nx resource s) = ac_socket s" for nx resource
    using w r by (simp add: need_chat_def subscribe_session_def split: option.split)
  then show ?thesis
    using r l by (cases c) (simp_all add: subscribe_session_def settle_def)
qed

lemma closed_calls: "ac_socket s = st \<Longrightarrow> ac_socket (perform n c s) = st"
proof -
  assume st: "ac_socket s = st"
  have w: "ac_socket (with_chat n nx resource chat s) = st" for nx resource chat
    using st by (cases nx) (simp_all add: with_chat_def Let_def settle_def emit_action_def dispatch_def send_def load_changeset_rest_def
        send_request_def split: option.split)
  show ?thesis using st w
    by (cases c) (simp_all add: send_request_def send_def Let_def subscribe_session_def need_chat_def load_changeset_rest_def settle_def
        split: option.split)
qed

lemma closed_keeps_pending:
  assumes "ac_socket s = SocketClosed" and "i < ac_next_id s"
  shows "om_get (ac_pending (apply_client e s)) i = om_get (ac_pending s) i \<and> i < ac_next_id (apply_client e s)
    \<and> ac_socket (apply_client e s) = SocketClosed"
proof (cases e)
  case (ClCall c)
  then show ?thesis
    using assms perform_keeps_pending [of i "s\<lparr>ac_calls := Suc (ac_calls s)\<rparr>" "ac_calls s" c] by (simp add: call_client_def)
qed (use assms in \<open>simp_all add: receive_def socket_closed_def client_close_def terminal_input_action_def terminal_resize_action_def
    confirm_tool_call_def set_changes_reviewed_def dispatch_def send_def\<close>)

lemma closed_history:
  "ac_socket s = SocketClosed \<Longrightarrow> i < ac_next_id s \<Longrightarrow> om_get (ac_pending (fold apply_client es s)) i = om_get (ac_pending s) i"
proof (induction es arbitrary: s)
  case (Cons e es)
  then show ?case using closed_keeps_pending [of s i e] by simp
qed simp

text \<open>The calls that need no answer: the client knows the chat, or that there are no changes.\<close>

fun answered_locally :: "client_call \<Rightarrow> client \<Rightarrow> bool" where
  "answered_locally (AttachSession resource) s = om_has (ac_chats s) resource"
| "answered_locally (PromptSession resource m turn started) s = om_has (ac_chats s) resource"
| "answered_locally (UpdateDraft resource m) s = om_has (ac_chats s) resource"
| "answered_locally (CancelTurn resource turn) s = om_has (ac_chats s) resource"
| "answered_locally (LoadChangeset session) s = (om_get (ac_changesets s) session = Some [])"
| "answered_locally _ s = False"

lemma asking_call:
  "\<not> answered_locally c s \<Longrightarrow> \<exists>task. om_get (ac_pending (perform n c s)) (ac_next_id s) = Some (n, task) \<and> ac_next_id s < ac_next_id (perform n c s)"
  by (cases c)
    (auto simp: send_request_def send_def Let_def subscribe_session_def need_chat_def load_changeset_rest_def om_has_def split: option.split)

text \<open>
  C39: whatever a client is asked that it cannot answer by itself once its connection has ended, to
  create, list or attach sessions, to prompt one whose chat it does not know, to handle terminals,
  to list or read resources, the promise never settles, whatever happens afterwards: the client
  does not look at whether it is closed, the message is lost and nothing answers or rejects the
  request any more.
\<close>

theorem call_on_closed_client_never_settles:
  assumes "s = fold apply_client before (new_client cid)" and "ac_socket s = SocketClosed" and "\<not> answered_locally c s"
  shows "let t = fold apply_client after (call_client c s)
    in ac_calls s \<in> set (open_calls t) \<and> ac_calls s \<notin> set (map fst (ac_settled t))"
proof -
  let ?s = "call_client c s"
  have a: "accounted (fold apply_client after ?s)" unfolding assms(1)
    by (rule accounted_history [OF accounted_call [OF accounted_history [OF accounted_new]]])
  have "\<not> answered_locally c (s\<lparr>ac_calls := Suc (ac_calls s)\<rparr>)" using assms(3) by (cases c) simp_all
  from asking_call [OF this, of "ac_calls s"] obtain task where
    p: "om_get (ac_pending ?s) (ac_next_id s) = Some (ac_calls s, task)" "ac_next_id s < ac_next_id ?s" by (auto simp: call_client_def)
  have c: "ac_socket ?s = SocketClosed"
    using closed_calls [of "s\<lparr>ac_calls := Suc (ac_calls s)\<rparr>" SocketClosed "ac_calls s" c] assms(2) by (simp add: call_client_def)
  have "om_get (ac_pending (fold apply_client after ?s)) (ac_next_id s) = Some (ac_calls s, task)"
    using closed_history [OF c p(2)] p(1) by simp
  then have o: "ac_calls s \<in> set (open_calls (fold apply_client after ?s))"
    unfolding open_calls_def by (force dest: map_of_SomeD)
  have "mset (map fst (ac_settled (fold apply_client after ?s)) @ open_calls (fold apply_client after ?s)) =
      mset [0..<ac_calls (fold apply_client after ?s)]"
    using a by (simp add: accounted_def call_bag_def)
  then have "distinct (map fst (ac_settled (fold apply_client after ?s)) @ open_calls (fold apply_client after ?s))"
    using mset_eq_imp_distinct_iff by (metis distinct_upt)
  then show ?thesis using o unfolding Let_def distinct_append by blast
qed

theorem call_on_closed_client_never_settles_witness:
  "let s = fold apply_client [ClClose, ClSocketClosed] (new_client ''c''); t = call_client (PromptSession ''s'' \<lparr>am_agent = None, am_mode = None, am_approval = None, am_attachments = [], am_model = None, am_effort = None, am_text = ''hi''\<rparr> ''1'' ''now'') s
   in 1 \<in> set (open_calls t)"
proof -
  let ?s = "fold apply_client [ClClose, ClSocketClosed] (new_client ''c'')"
  have "ac_socket ?s = SocketClosed" "ac_calls ?s = 1" "\<not> answered_locally (PromptSession ''s'' \<lparr>am_agent = None, am_mode = None, am_approval = None, am_attachments = [], am_model = None, am_effort = None, am_text = ''hi''\<rparr> ''1'' ''now'') ?s"
    by (simp_all add: socket_closed_def client_close_def new_client_def send_request_def send_def om_has_def Let_def)
  then show ?thesis
    using call_on_closed_client_never_settles [OF refl, of "[ClClose, ClSocketClosed]" "''c''" _ "[]"] unfolding Let_def by simp
qed

section \<open>The numbers of messages\<close>

definition is_dispatch :: "json \<Rightarrow> bool" where
  "is_dispatch m \<longleftrightarrow> field m ''method'' = JStr ''dispatchAction''"

definition sequence_numbers :: "client \<Rightarrow> json list" where
  "sequence_numbers s = map (\<lambda>m. field (field m ''params'') ''clientSeq'') (filter is_dispatch (ac_sent s))"

definition request_numbers :: "client \<Rightarrow> json list" where
  "request_numbers s = map (\<lambda>m. field m ''id'') (filter (\<lambda>m. \<not> is_dispatch m) (ac_sent s))"

definition counted :: "nat \<Rightarrow> json list" where
  "counted n = map (\<lambda>k. JNum (of_nat k)) [1..<n]"

text \<open>While the socket is open every message is sent, afterwards none.\<close>

definition numbered :: "client \<Rightarrow> bool" where
  "numbered s \<longleftrightarrow>
     sequence_numbers s = counted (Suc (length (sequence_numbers s))) \<and> request_numbers s = counted (Suc (length (request_numbers s))) \<and>
     1 \<le> ac_next_seq s \<and> 1 \<le> ac_next_id s \<and>
     (ac_socket s = SocketOpen \<longrightarrow> sequence_numbers s = counted (ac_next_seq s) \<and> request_numbers s = counted (ac_next_id s))"

lemma counted_Suc: "1 \<le> n \<Longrightarrow> counted (Suc n) = counted n @ [JNum (of_nat n)]"
  by (simp add: counted_def)

lemma length_counted_Suc [simp]: "length (counted (Suc n)) = n"
  by (simp add: counted_def)

lemma length_counted: "1 \<le> n \<Longrightarrow> Suc (length (counted n)) = n"
  by (simp add: counted_def)

lemma numbered_fields [simp]:
  "numbered (s\<lparr>ac_calls := n\<rparr>) = numbered s" "numbered (s\<lparr>ac_pending := p\<rparr>) = numbered s" "numbered (s\<lparr>ac_chats := m1\<rparr>) = numbered s"
  "numbered (s\<lparr>ac_directory := d\<rparr>) = numbered s" "numbered (s\<lparr>ac_changesets := m2\<rparr>) = numbered s"
  "numbered (s\<lparr>ac_terminals := m3\<rparr>) = numbered s" "numbered (s\<lparr>ac_heap := h\<rparr>) = numbered s" "numbered (s\<lparr>ac_agents := ag\<rparr>) = numbered s"
  "numbered (s\<lparr>ac_settled := st\<rparr>) = numbered s" "numbered (s\<lparr>ac_emitted := em\<rparr>) = numbered s"
  "numbered (s\<lparr>ac_action_listeners := ls\<rparr>) = numbered s" "numbered (s\<lparr>ac_close_listeners := ls\<rparr>) = numbered s"
  "numbered (s\<lparr>ac_closed_told := ls\<rparr>) = numbered s"
  by (simp_all add: numbered_def sequence_numbers_def request_numbers_def)

lemma numbered_silent: "numbered s \<Longrightarrow> st \<noteq> SocketOpen \<Longrightarrow> numbered (s\<lparr>ac_socket := st\<rparr>)"
  by (simp add: numbered_def sequence_numbers_def request_numbers_def)

lemma numbered_dispatch: "numbered s \<Longrightarrow> numbered (dispatch c a s)"
proof (cases "ac_socket s = SocketOpen")
  case True
  assume n: "numbered s"
  have "sequence_numbers (dispatch c a s) = sequence_numbers s @ [JNum (of_nat (ac_next_seq s))]"
      "request_numbers (dispatch c a s) = request_numbers s" "ac_next_seq (dispatch c a s) = Suc (ac_next_seq s)"
      "ac_next_id (dispatch c a s) = ac_next_id s"
    using True by (simp_all add: dispatch_def send_def sequence_numbers_def request_numbers_def is_dispatch_def)
  then show ?thesis using n True unfolding numbered_def by (simp add: counted_Suc length_counted)
next
  case False
  assume "numbered s"
  then show ?thesis using False by (simp add: numbered_def dispatch_def send_def sequence_numbers_def request_numbers_def)
qed

lemma numbered_request: "numbered s \<Longrightarrow> meth \<noteq> ''dispatchAction'' \<Longrightarrow> numbered (send_request meth p n t s)"
proof (cases "ac_socket s = SocketOpen")
  case True
  assume n: "numbered s" and m: "meth \<noteq> ''dispatchAction''"
  have "request_numbers (send_request meth p n t s) = request_numbers s @ [JNum (of_nat (ac_next_id s))]"
      "sequence_numbers (send_request meth p n t s) = sequence_numbers s" "ac_next_id (send_request meth p n t s) = Suc (ac_next_id s)"
      "ac_next_seq (send_request meth p n t s) = ac_next_seq s"
    using True m by (simp_all add: send_request_def Let_def send_def sequence_numbers_def request_numbers_def is_dispatch_def)
  then show ?thesis using n True unfolding numbered_def by (simp add: counted_Suc length_counted)
next
  case False
  assume "numbered s"
  then show ?thesis using False by (simp add: numbered_def send_request_def Let_def send_def sequence_numbers_def request_numbers_def)
qed

lemma numbered_simple [simp]:
  "numbered (settle n out s) = numbered s" "numbered (emit_action e s) = numbered s" "numbered (replace_agents v s) = numbered s"
  "numbered (replace_terminals v s) = numbered s" "numbered (apply_terminal_action v s) = numbered s"
  "numbered (learn_changeset r v s) = numbered s"
  by (auto simp: settle_def emit_action_def replace_agents_def replace_terminals_def apply_terminal_action_def learn_changeset_def Let_def
      split: prod.split json.split list.split option.split)

lemma numbered_root [simp]: "numbered (read_root_state vs s) = numbered s"
proof -
  have "numbered (fold (\<lambda>v s. if P v then replace_terminals (f v) (replace_agents (g v) s) else s) vs t) = numbered t" for P f g t
    by (induction vs arbitrary: t) simp_all
  then show ?thesis unfolding read_root_state_def .
qed

lemma numbered_set_terminal: "set_terminal r t s = (s1, k) \<Longrightarrow> numbered s1 = numbered s"
  by (auto simp: set_terminal_def alloc_def)

lemma numbered_load: "numbered s \<Longrightarrow> numbered (load_changeset_rest n r s)"
  by (simp add: load_changeset_rest_def numbered_request split: option.split)

lemma numbered_with_chat: "numbered s \<Longrightarrow> numbered (with_chat n nx resource chat s)"
  by (cases nx) (simp_all add: with_chat_def Let_def numbered_dispatch numbered_load)

lemma numbered_resume: "numbered s \<Longrightarrow> numbered (resume n task v s)"
  by (cases task) (auto simp: Let_def subscribe_session_def numbered_request numbered_with_chat numbered_dispatch numbered_set_terminal
      split: prod.split)

lemma numbered_perform: "numbered s \<Longrightarrow> numbered (perform n c s)"
  by (cases c) (auto simp: numbered_request need_chat_def subscribe_session_def numbered_with_chat numbered_load split: option.split)

lemma numbered_step: "numbered s \<Longrightarrow> numbered (apply_client e s)"
proof (cases e)
  case (ClReceive t)
  assume n: "numbered s"
  have "numbered (answer i p s)" for i p
    using n by (simp add: answer_def Let_def numbered_resume split: option.split prod.split)
  then show ?thesis using n ClReceive by (simp add: receive_def receive_payload_def Let_def split: option.split)
next
  case ClSocketClosed
  assume "numbered s"
  then have "numbered (s\<lparr>ac_socket := SocketClosed\<rparr>)" by (rule numbered_silent) simp
  then have "numbered ((s\<lparr>ac_socket := SocketClosed\<rparr>)\<lparr>ac_pending := [], ac_settled := x, ac_closed_told := y\<rparr>)" for x y by simp
  then show ?thesis using \<open>numbered s\<close> ClSocketClosed by (simp add: socket_closed_def)
qed (simp_all add: call_client_def numbered_perform numbered_dispatch numbered_silent client_close_def terminal_input_action_def
    terminal_resize_action_def confirm_tool_call_def set_changes_reviewed_def)

lemma numbered_new: "numbered (new_client cid)"
  unfolding new_client_def
  by (rule numbered_request) (simp_all add: numbered_def sequence_numbers_def request_numbers_def counted_def)

text \<open>
  C19: the actions a client has dispatched carry the sequence numbers 1, 2, 3 and so on in the order
  in which they were sent, without a gap, and so do its requests their ids.
\<close>

theorem client_messages_are_numbered:
  "let s = fold apply_client es (new_client cid)
   in sequence_numbers s = map (\<lambda>k. JNum (of_nat k)) [1..<Suc (length (sequence_numbers s))] \<and>
      request_numbers s = map (\<lambda>k. JNum (of_nat k)) [1..<Suc (length (request_numbers s))]"
proof -
  have "numbered (fold apply_client es s)" if "numbered s" for s
    using that by (induction es arbitrary: s) (simp_all add: numbered_step)
  then have "numbered (fold apply_client es (new_client cid))" using numbered_new by blast
  then show ?thesis unfolding numbered_def counted_def Let_def by blast
qed

end
