(* ===== verification/Dom.thy ===== *)
theory Dom
  imports Strings
begin

text \<open>
  The part of the document object model that the views build, and \<open>createElement\<close> of
  \<open>src/packages/ui/src/widgets/widget.ts\<close>.  An element has its tag, its class attribute, its other
  attributes in the order in which they were set, whether it is open (a \<open>details\<close> element that
  the user has opened), what a click on it does, and its child nodes.  Setting \<open>textContent\<close> to a
  nonempty text leaves one text node, to the empty text none.
\<close>

datatype click = ConfirmToolCall string string bool

datatype dom =
    TextNode string
  | Element (el_tag: string) (el_class: string) (el_attrs: "(string, string) omap") (el_open: bool)
      (el_click: "click option") (el_kids: "dom list")

fun kids_of :: "dom \<Rightarrow> dom list" where
  "kids_of (TextNode t) = []"
| "kids_of (Element t c a b k ks) = ks"

definition html_space :: "char \<Rightarrow> bool" where
  "html_space c \<longleftrightarrow> of_char c \<in> {9, 10, 12, 13, 32 :: nat}"

definition class_list :: "string \<Rightarrow> string list" where
  "class_list c = filter (\<lambda>w. w \<noteq> []) (split_by html_space c)"

definition has_class :: "string \<Rightarrow> dom \<Rightarrow> bool" where
  "has_class n d \<longleftrightarrow> (case d of TextNode _ \<Rightarrow> False | Element _ c _ _ _ _ \<Rightarrow> n \<in> set (class_list c))"

lemma has_class_simps [simp]:
  "has_class n (TextNode t) = False" "has_class n (Element t c a b k ks) = (n \<in> set (class_list c))"
  by (simp_all add: has_class_def)

definition text_kids :: "string \<Rightarrow> dom list" where
  "text_kids t = (if t = [] then [] else [TextNode t])"

definition opt_attr :: "string \<Rightarrow> string \<Rightarrow> (string, string) omap" where
  "opt_attr n v = (if v = [] then [] else [(n, v)])"

text \<open>An option that is not given is the empty string; an undefined text content is \<open>None\<close>.\<close>

definition create_element :: "string \<Rightarrow> string \<Rightarrow> string \<Rightarrow> string \<Rightarrow> string option \<Rightarrow> dom" where
  "create_element tag cls role label content =
     Element tag cls (opt_attr ''role'' role @ opt_attr ''aria-label'' label) False None
       (case content of None \<Rightarrow> [] | Some t \<Rightarrow> text_kids t)"

text \<open>\<open>append\<close> leaves out the children that are null or undefined.\<close>

fun append_kids :: "dom option list \<Rightarrow> dom \<Rightarrow> dom" where
  "append_kids ds (Element t c a b k ks) = Element t c a b k (ks @ List.map_filter id ds)"
| "append_kids ds (TextNode t) = TextNode t"

fun with_kids :: "dom list \<Rightarrow> dom \<Rightarrow> dom" where
  "with_kids ds (Element t c a b k ks) = Element t c a b k ds"
| "with_kids ds (TextNode t) = TextNode t"

fun with_attr :: "string \<Rightarrow> string \<Rightarrow> dom \<Rightarrow> dom" where
  "with_attr n v (Element t c a b k ks) = Element t c (om_set n v a) b k ks"
| "with_attr n v (TextNode t) = TextNode t"

fun with_class :: "string \<Rightarrow> dom \<Rightarrow> dom" where
  "with_class c (Element t c' a b k ks) = Element t c a b k ks"
| "with_class c (TextNode t) = TextNode t"

fun with_click :: "click \<Rightarrow> dom \<Rightarrow> dom" where
  "with_click q (Element t c a b k ks) = Element t c a b (Some q) ks"
| "with_click q (TextNode t) = TextNode t"

fun get_attr :: "string \<Rightarrow> dom \<Rightarrow> string option" where
  "get_attr n (Element t c a b k ks) = om_get a n"
| "get_attr n (TextNode t) = None"

section \<open>Searching a tree in document order\<close>

fun some_dom :: "(dom \<Rightarrow> bool) \<Rightarrow> dom \<Rightarrow> bool" where
  "some_dom P (TextNode t) \<longleftrightarrow> P (TextNode t)"
| "some_dom P (Element t c a b k ks) \<longleftrightarrow> P (Element t c a b k ks) \<or> list_ex (some_dom P) ks"

text \<open>The first node with the property is replaced by what \<open>f\<close> gives; \<open>remove\<close> gives nothing.\<close>

fun edit_first :: "(dom \<Rightarrow> bool) \<Rightarrow> (dom \<Rightarrow> dom list) \<Rightarrow> dom list \<Rightarrow> dom list" where
  "edit_first P f [] = []"
| "edit_first P f (TextNode t # ds) = (if P (TextNode t) then f (TextNode t) @ ds else TextNode t # edit_first P f ds)"
| "edit_first P f (Element t c a b k ks # ds) =
     (if P (Element t c a b k ks) then f (Element t c a b k ks) @ ds
      else if list_ex (some_dom P) ks then Element t c a b k (edit_first P f ks) # ds
      else Element t c a b k ks # edit_first P f ds)"

lemma edit_first_none: "\<not> list_ex (some_dom P) ds \<Longrightarrow> edit_first P f ds = ds"
  by (induction P f ds rule: edit_first.induct) auto

section \<open>What the user can change\<close>

text \<open>The tree without the open state of its \<open>details\<close>, the part that the program writes.\<close>

fun shut :: "dom \<Rightarrow> dom" where
  "shut (TextNode t) = TextNode t"
| "shut (Element t c a b k ks) = Element t c a False k (map shut ks)"

text \<open>A click on the summary of the \<open>details\<close> element at a position opens or closes it.\<close>

fun toggle_at :: "nat list \<Rightarrow> dom \<Rightarrow> dom" where
  "toggle_at p (TextNode t) = TextNode t"
| "toggle_at [] (Element t c a b k ks) = Element t c a (if t = ''details'' then \<not> b else b) k ks"
| "toggle_at (i # p) (Element t c a b k ks) =
     Element t c a b k (if i < length ks then ks[i := toggle_at p (ks ! i)] else ks)"

lemma shut_idem [simp]: "shut (shut d) = shut d"
  by (induction d) (auto simp: comp_def)

lemma shut_toggle [simp]: "shut (toggle_at p d) = shut d"
proof (induction p d rule: toggle_at.induct)
  case (3 i p t c a b k ks)
  then show ?case by (simp add: map_update) (metis list_update_id nth_map)
qed simp_all

lemma shut_create [simp]: "shut (create_element t c r l x) = create_element t c r l x"
  by (auto simp: create_element_def text_kids_def split: option.split)

lemma shut_with [simp]:
  "shut (with_kids ds d) = with_kids (map shut ds) (shut d)"
  "shut (with_attr n v d) = with_attr n v (shut d)"
  "shut (with_class c d) = with_class c (shut d)"
  "shut (with_click q d) = with_click q (shut d)"
  by (cases d; simp)+

lemma has_class_shut [simp]: "has_class n (shut d) = has_class n d"
  by (cases d) (simp_all add: has_class_def)

lemma has_class_toggle [simp]: "has_class n (toggle_at p d) = has_class n d"
  by (metis has_class_shut shut_toggle)

lemma some_class_shut [simp]: "some_dom (has_class n) (shut d) = some_dom (has_class n) d"
proof (induction d)
  case (Element t c a b k ks)
  then have "list_ex (some_dom (has_class n)) (map shut ks) = list_ex (some_dom (has_class n)) ks"
    by (auto simp: list_ex_iff)
  then show ?case using has_class_shut [of n "Element t c a b k ks"] by simp
qed (simp add: has_class_def)

lemma some_class_cong: "shut d = shut d' \<Longrightarrow> some_dom (has_class n) d = some_dom (has_class n) d'"
  by (metis some_class_shut)

lemma with_simps [simp]:
  "with_kids ds (create_element t c r l x) = Element t c (opt_attr ''role'' r @ opt_attr ''aria-label'' l) False None ds"
  "el_tag (create_element t c r l x) = t"
  "has_class n (create_element t c r l x) = (n \<in> set (class_list c))"
  by (simp_all add: create_element_def has_class_def)

lemma has_class_with [simp]:
  "has_class n (with_kids ds d) = has_class n d" "has_class n (with_attr m v d) = has_class n d" "has_class n (with_click q d) = has_class n d"
  by (cases d; simp add: has_class_def)+

lemma shut_eq_Element:
  "shut d = Element t c a False k ks \<longleftrightarrow> (\<exists>b ks'. d = Element t c a b k ks' \<and> map shut ks' = ks)"
  by (cases d) auto

lemma with_kids_attr [simp]: "with_kids ds (with_attr n v d) = with_attr n v (with_kids ds d)"
  by (cases d) simp_all

end
