(* ===== verification/Lifecycle.thy ===== *)
theory Lifecycle
  imports Interfaces
begin

text \<open>
  The lifecycle of the workbench: \<open>platform/lifecycle/lifecycle.ts\<close> and
  \<open>lifecycle-service.ts\<close>, the contributions it starts
  (\<open>workbench/contributions/workbench-contributions.ts\<close>), and two small platform services,
  \<open>platform/notifications/notifications.ts\<close> and \<open>platform/theme/theme-service.ts\<close>
  (all under \<open>packages/workbench/src/\<close>).

  Creating and disposing a contribution act on a world \<open>'w\<close> and may throw (\<open>None\<close>,
  \<open>True\<close>); they do not call the registry back.  Durations are not modelled.
\<close>

section \<open>Phases\<close>

datatype phase = Starting | Ready | Restored | Eventually

fun phase_num :: "phase \<Rightarrow> nat" where
  "phase_num Starting = 1"
| "phase_num Ready = 2"
| "phase_num Restored = 3"
| "phase_num Eventually = 4"

lemma phase_num_inj [simp]: "phase_num p = phase_num q \<longleftrightarrow> p = q"
  by (cases p; cases q) simp_all

instantiation phase :: linorder
begin

definition less_eq_phase :: "phase \<Rightarrow> phase \<Rightarrow> bool" where
  "less_eq_phase p q \<longleftrightarrow> phase_num p \<le> phase_num q"

definition less_phase :: "phase \<Rightarrow> phase \<Rightarrow> bool" where
  "less_phase p q \<longleftrightarrow> phase_num p < phase_num q"

instance by standard (auto simp: less_eq_phase_def less_phase_def)

end

text \<open>A waiter is a pending \<open>when\<close>: its target, and its promise by number.\<close>

record lifecycle =
  lf_phase :: phase
  lf_waiters :: "(phase \<times> nat) list"
  lf_resolved :: "nat list"
  lf_next :: nat
  lf_fired :: "phase list"
  lf_shutdowns :: nat

definition new_lifecycle :: lifecycle where
  "new_lifecycle = \<lparr>lf_phase = Starting, lf_waiters = [], lf_resolved = [], lf_next = 0,
     lf_fired = [], lf_shutdowns = 0\<rparr>"

definition lf_when :: "phase \<Rightarrow> lifecycle \<Rightarrow> lifecycle \<times> nat" where
  "lf_when target s =
     (let n = lf_next s in
      if target \<le> lf_phase s then (s\<lparr>lf_next := Suc n, lf_resolved := lf_resolved s @ [n]\<rparr>, n)
      else (s\<lparr>lf_next := Suc n, lf_waiters := lf_waiters s @ [(target, n)]\<rparr>, n))"

text \<open>\<open>Inl\<close>: the phases must advance monotonically.\<close>

definition set_phase :: "phase \<Rightarrow> lifecycle \<Rightarrow> (phase \<times> phase) + lifecycle" where
  "set_phase p s =
     (if p \<le> lf_phase s then Inl (lf_phase s, p)
      else Inr (s\<lparr>lf_phase := p, lf_fired := lf_fired s @ [p],
        lf_waiters := filter (\<lambda>w. \<not> fst w \<le> p) (lf_waiters s),
        lf_resolved := lf_resolved s @ map snd (filter (\<lambda>w. fst w \<le> p) (lf_waiters s))\<rparr>))"

definition shutdown :: "lifecycle \<Rightarrow> lifecycle" where
  "shutdown s = s\<lparr>lf_shutdowns := Suc (lf_shutdowns s)\<rparr>"

text \<open>The promises and the targets they wait for, over a run of the service.\<close>

datatype lifecycle_op = LfWhen phase | LfSetPhase phase | LfShutdown

fun apply_lifecycle :: "lifecycle_op \<Rightarrow> lifecycle \<Rightarrow> lifecycle" where
  "apply_lifecycle (LfWhen p) s = fst (lf_when p s)"
| "apply_lifecycle (LfSetPhase p) s = (case set_phase p s of Inl e \<Rightarrow> s | Inr s' \<Rightarrow> s')"
| "apply_lifecycle LfShutdown s = shutdown s"

definition lf_inv :: "lifecycle \<Rightarrow> bool" where
  "lf_inv s \<longleftrightarrow> (\<forall>(target, n) \<in> set (lf_waiters s). lf_phase s < target) \<and>
     set (map snd (lf_waiters s)) \<union> set (lf_resolved s) = {..< lf_next s} \<and>
     distinct (map snd (lf_waiters s) @ lf_resolved s) \<and>
     sorted_wrt (<) (Starting # lf_fired s) \<and> lf_phase s = last (Starting # lf_fired s)"

lemma lf_inv_new: "lf_inv new_lifecycle"
  by (auto simp: lf_inv_def new_lifecycle_def)

lemma sorted_wrt_snoc_last:
  "sorted_wrt (<) xs \<Longrightarrow> xs \<noteq> [] \<Longrightarrow> last xs < y \<Longrightarrow> sorted_wrt (<) (xs @ [y])"
  for y :: "'a :: linorder"
proof (induction xs)
  case (Cons a xs)
  show ?case
  proof (cases "xs = []")
    case False
    then have "last xs \<in> set xs" by simp
    then have "a < y" using Cons.prems False by (auto intro: less_trans)
    then show ?thesis using Cons False by simp
  qed (use Cons.prems in simp)
qed simp

lemma lf_inv_set_phase:
  assumes i: "lf_inv s" and r: "set_phase p s = Inr s'"
  shows "lf_inv s'"
proof -
  have p: "lf_phase s < p" and s': "s' = s\<lparr>lf_phase := p, lf_fired := lf_fired s @ [p],
        lf_waiters := filter (\<lambda>w. \<not> fst w \<le> p) (lf_waiters s),
        lf_resolved := lf_resolved s @ map snd (filter (\<lambda>w. fst w \<le> p) (lf_waiters s))\<rparr>"
    using r by (auto simp: set_phase_def split: if_splits)
  have d: "distinct (map snd (lf_waiters s))" "distinct (lf_resolved s)"
    "set (map snd (lf_waiters s)) \<inter> set (lf_resolved s) = {}"
    using i by (auto simp: lf_inv_def)
  have one: "\<not> snd w = snd v" if "w \<in> set (lf_waiters s)" "v \<in> set (lf_waiters s)" "w \<noteq> v" for w v
    using d(1) that by (auto simp: distinct_map inj_on_def)
  have "distinct (map snd (lf_waiters s') @ lf_resolved s')"
    using d one by (auto simp: s' distinct_map_filter; fastforce)
  moreover have "set (map snd (lf_waiters s')) \<union> set (lf_resolved s') = {..< lf_next s'}"
  proof -
    have "snd ` set (lf_waiters s) = snd ` {w \<in> set (lf_waiters s). \<not> fst w \<le> p} \<union> snd ` {w \<in> set (lf_waiters s). fst w \<le> p}"
      by blast
    then show ?thesis using i by (auto simp: lf_inv_def s' simp del: not_le)
  qed
  moreover have "sorted_wrt (<) (Starting # lf_fired s')"
  proof -
    have "sorted_wrt (<) (Starting # lf_fired s)" "last (Starting # lf_fired s) < p"
      using i p by (auto simp: lf_inv_def)
    then show ?thesis using sorted_wrt_snoc_last [of "Starting # lf_fired s" p] by (simp add: s')
  qed
  ultimately show ?thesis by (auto simp: lf_inv_def s')
qed

lemma lf_inv_when: "lf_inv s \<Longrightarrow> lf_inv (fst (lf_when p s))"
  by (auto simp: lf_inv_def lf_when_def Let_def not_le)

lemma lf_inv_shutdown: "lf_inv (shutdown s) = lf_inv s"
  unfolding lf_inv_def shutdown_def by simp

lemma lf_inv_ops: "lf_inv s \<Longrightarrow> lf_inv (apply_lifecycle op s)"
  by (cases op) (simp_all add: lf_inv_when lf_inv_set_phase lf_inv_shutdown split: sum.split)

lemma lf_inv_run: "lf_inv (fold apply_lifecycle ops new_lifecycle)"
  by (rule fold_keeps [where P = lf_inv]) (simp_all add: lf_inv_ops lf_inv_new)

text \<open>
  Whatever is called on the lifecycle, the phases it announces are strictly increasing and
  end in the present one, and each promise of \<open>when\<close> is settled at most once; the ones
  still pending are exactly those whose target lies ahead.
\<close>

theorem lifecycle_monotone:
  "let s = fold apply_lifecycle ops new_lifecycle in
   sorted_wrt (<) (lf_fired s) \<and> lf_phase s = last (Starting # lf_fired s) \<and> distinct (lf_resolved s) \<and>
   list_all (\<lambda>w. lf_phase s < fst w) (lf_waiters s) \<and>
   set (map snd (lf_waiters s)) = {..< lf_next s} - set (lf_resolved s)"
proof -
  define s where "s = fold apply_lifecycle ops new_lifecycle"
  have "lf_inv s" unfolding s_def by (rule lf_inv_run)
  then show ?thesis unfolding s_def [symmetric] by (auto simp: lf_inv_def list_all_iff)
qed

section \<open>\<open>WorkbenchContributionsRegistry\<close>\<close>

record 'c contribution_descriptor =
  wd_id :: string
  wd_ctor :: 'c
  wd_phase :: phase

datatype contribution_event = Created string | CreateFailed string | Disposed string | DisposeFailed string

record ('c, 'i) contributions =
  wc_descriptors :: "(string, 'c contribution_descriptor) omap"
  wc_instances :: "(string, 'i) omap"
  wc_started :: bool
  wc_phase :: phase
  wc_container :: bool
  wc_log :: "contribution_event list"

definition new_contributions :: "('c, 'i) contributions" where
  "new_contributions = \<lparr>wc_descriptors = [], wc_instances = [], wc_started = False,
     wc_phase = Starting, wc_container = False, wc_log = []\<rparr>"

text \<open>
  The container (or \<open>new\<close>) as \<open>mk use_container ctor\<close>, and an instance's
  \<open>dispose\<close>, which tells whether it threw.
\<close>

type_synonym ('c, 'i, 'w) maker = "bool \<Rightarrow> 'c \<Rightarrow> 'w \<Rightarrow> 'w \<times> 'i option"

type_synonym ('i, 'w) disposer = "'i \<Rightarrow> 'w \<Rightarrow> 'w \<times> bool"

definition instantiate_contribution ::
  "('c, 'i, 'w) maker \<Rightarrow> 'c contribution_descriptor \<Rightarrow> ('c, 'i) contributions \<times> 'w \<Rightarrow>
   ('c, 'i) contributions \<times> 'w" where
  "instantiate_contribution mk d sw =
     (case sw of (s, w) \<Rightarrow>
        (case mk (wc_container s) (wd_ctor d) w of
           (w', Some i) \<Rightarrow>
             (s\<lparr>wc_instances := om_set (wd_id d) i (wc_instances s), wc_log := wc_log s @ [Created (wd_id d)]\<rparr>, w')
         | (w', None) \<Rightarrow> (s\<lparr>wc_log := wc_log s @ [CreateFailed (wd_id d)]\<rparr>, w')))"

definition instantiate_if_due ::
  "('c, 'i, 'w) maker \<Rightarrow> phase \<Rightarrow> 'c contribution_descriptor \<Rightarrow> ('c, 'i) contributions \<times> 'w \<Rightarrow>
   ('c, 'i) contributions \<times> 'w" where
  "instantiate_if_due mk p d sw =
     (if wd_phase d \<noteq> p then sw
      else if om_has (wc_instances (fst sw)) (wd_id d) then sw
      else instantiate_contribution mk d sw)"

definition instantiate_phase ::
  "('c, 'i, 'w) maker \<Rightarrow> phase \<Rightarrow> ('c, 'i) contributions \<times> 'w \<Rightarrow> ('c, 'i) contributions \<times> 'w" where
  "instantiate_phase mk p sw =
     fold (instantiate_if_due mk p) (om_values (wc_descriptors (fst sw))) sw"

definition wc_register ::
  "('c, 'i, 'w) maker \<Rightarrow> 'c contribution_descriptor \<Rightarrow> ('c, 'i) contributions \<times> 'w \<Rightarrow>
   string + ('c, 'i) contributions \<times> 'w" where
  "wc_register mk d sw =
     (case sw of (s, w) \<Rightarrow>
        if om_has (wc_descriptors s) (wd_id d) then Inl (wd_id d)
        else let s1 = s\<lparr>wc_descriptors := om_set (wd_id d) d (wc_descriptors s)\<rparr> in
             if wc_started s \<and> wd_phase d \<le> wc_phase s
             then Inr (instantiate_contribution mk d (s1, w)) else Inr (s1, w))"

definition dispose_instance ::
  "('i, 'w) disposer \<Rightarrow> string \<Rightarrow> 'i \<Rightarrow> ('c, 'i) contributions \<times> 'w \<Rightarrow> ('c, 'i) contributions \<times> 'w" where
  "dispose_instance disp k i sw =
     (case sw of (s, w) \<Rightarrow> (case disp i w of (w', threw) \<Rightarrow>
        (s\<lparr>wc_instances := om_del k (wc_instances s),
           wc_log := wc_log s @ [if threw then DisposeFailed k else Disposed k]\<rparr>, w')))"

definition wc_unregister ::
  "('i, 'w) disposer \<Rightarrow> string \<Rightarrow> ('c, 'i) contributions \<times> 'w \<Rightarrow> ('c, 'i) contributions \<times> 'w" where
  "wc_unregister disp k sw =
     (case sw of (s, w) \<Rightarrow>
        let s1 = s\<lparr>wc_descriptors := om_del k (wc_descriptors s)\<rparr> in
        (case om_get (wc_instances s1) k of
           None \<Rightarrow> (s1, w)
         | Some i \<Rightarrow> dispose_instance disp k i (s1, w)))"

definition wc_on_phase ::
  "('c, 'i, 'w) maker \<Rightarrow> phase \<Rightarrow> ('c, 'i) contributions \<times> 'w \<Rightarrow> ('c, 'i) contributions \<times> 'w" where
  "wc_on_phase mk p sw = (case sw of (s, w) \<Rightarrow> instantiate_phase mk p (s\<lparr>wc_phase := p\<rparr>, w))"

definition wc_on_shutdown ::
  "('i, 'w) disposer \<Rightarrow> ('c, 'i) contributions \<times> 'w \<Rightarrow> ('c, 'i) contributions \<times> 'w" where
  "wc_on_shutdown disp sw =
     fold (\<lambda>(k, i). dispose_instance disp k i) (rev (wc_instances (fst sw))) sw"

definition wc_start ::
  "('c, 'i, 'w) maker \<Rightarrow> phase \<Rightarrow> ('c, 'i) contributions \<times> 'w \<Rightarrow> ('c, 'i) contributions \<times> 'w" where
  "wc_start mk p sw =
     (case sw of (s, w) \<Rightarrow>
        instantiate_phase mk p (s\<lparr>wc_started := True, wc_container := True, wc_phase := p\<rparr>, w))"

subsection \<open>What is attempted, and when\<close>

fun attempts :: "contribution_event list \<Rightarrow> string list" where
  "attempts [] = []"
| "attempts (Created k # es) = k # attempts es"
| "attempts (CreateFailed k # es) = k # attempts es"
| "attempts (_ # es) = attempts es"

fun disposals :: "contribution_event list \<Rightarrow> string list" where
  "disposals [] = []"
| "disposals (Disposed k # es) = k # disposals es"
| "disposals (DisposeFailed k # es) = k # disposals es"
| "disposals (_ # es) = disposals es"

lemma attempts_append [simp]: "attempts (xs @ ys) = attempts xs @ attempts ys"
  by (induction xs rule: attempts.induct) simp_all

lemma disposals_append [simp]: "disposals (xs @ ys) = disposals xs @ disposals ys"
  by (induction xs rule: disposals.induct) simp_all

lemma instantiate_contribution_effect:
  "let sw' = instantiate_contribution mk d sw in
   attempts (wc_log (fst sw')) = attempts (wc_log (fst sw)) @ [wd_id d] \<and>
   wc_descriptors (fst sw') = wc_descriptors (fst sw) \<and>
   fst ` set (wc_instances (fst sw')) \<subseteq> insert (wd_id d) (fst ` set (wc_instances (fst sw))) \<and>
   fst ` set (wc_instances (fst sw)) \<subseteq> fst ` set (wc_instances (fst sw'))"
  by (auto simp: instantiate_contribution_def Let_def om_set_keys split: prod.split option.split)

lemma om_has_keys: "om_has m k \<longleftrightarrow> k \<in> fst ` set m"
  by (simp add: om_has_def map_of_eq_None_iff)

lemma subset_step:
  "X \<subseteq> A1 \<union> B \<Longrightarrow> A1 \<subseteq> insert d A \<Longrightarrow> d \<in> B' \<Longrightarrow> B \<subseteq> B' \<Longrightarrow> X \<subseteq> A \<union> B'"
  "X \<subseteq> A \<union> B \<Longrightarrow> A \<subseteq> C \<Longrightarrow> C \<union> B \<subseteq> D \<Longrightarrow> X \<subseteq> D"
  by blast+

lemma instantiate_phase_effect:
  fixes sw :: "('c, 'i) contributions \<times> 'w"
  assumes "distinct (map wd_id ds)"
  shows "let sw' = fold (instantiate_if_due mk p) ds sw in
   attempts (wc_log (fst sw')) = attempts (wc_log (fst sw)) @
     map wd_id (filter (\<lambda>d. wd_phase d = p \<and> \<not> om_has (wc_instances (fst sw)) (wd_id d)) ds) \<and>
   wc_descriptors (fst sw') = wc_descriptors (fst sw) \<and>
   fst ` set (wc_instances (fst sw')) \<subseteq>
     fst ` set (wc_instances (fst sw)) \<union> wd_id ` {d \<in> set ds. wd_phase d = p}"
  using assms
proof (induction ds arbitrary: sw)
  case (Cons d ds)
  have dist: "distinct (map wd_id ds)" and new: "wd_id d \<notin> wd_id ` set ds" using Cons.prems by auto
  show ?case
  proof (cases "wd_phase d = p \<and> \<not> om_has (wc_instances (fst sw)) (wd_id d)")
    case False
    then have "instantiate_if_due mk p d sw = sw" by (auto simp: instantiate_if_due_def)
    with False show ?thesis using Cons.IH [OF dist, of sw] by (auto simp: Let_def)
  next
    case True
    define sw1 where "sw1 = instantiate_contribution mk d sw"
    note e = instantiate_contribution_effect [of mk d sw, folded sw1_def, unfolded Let_def]
    have "om_has (wc_instances (fst sw1)) (wd_id x) \<longleftrightarrow> om_has (wc_instances (fst sw)) (wd_id x)"
      if "x \<in> set ds" for x
    proof -
      have "wd_id x \<noteq> wd_id d" using that new by (metis image_eqI)
      then show ?thesis using e unfolding om_has_keys by blast
    qed
    then have f: "filter (\<lambda>d. wd_phase d = p \<and> \<not> om_has (wc_instances (fst sw1)) (wd_id d)) ds
        = filter (\<lambda>d. wd_phase d = p \<and> \<not> om_has (wc_instances (fst sw)) (wd_id d)) ds"
      by (intro filter_cong) auto
    define sw2 where "sw2 = fold (instantiate_if_due mk p) ds sw1"
    note ih = Cons.IH [OF dist, of sw1, folded sw2_def, unfolded Let_def f]
    have s: "fold (instantiate_if_due mk p) (d # ds) sw = sw2"
      using True by (simp add: sw2_def sw1_def instantiate_if_due_def)
    have "fst ` set (wc_instances (fst sw2)) \<subseteq> fst ` set (wc_instances (fst sw)) \<union>
        wd_id ` {x \<in> set (d # ds). wd_phase x = p}"
    proof -
      have "fst ` set (wc_instances (fst sw2)) \<subseteq> fst ` set (wc_instances (fst sw1)) \<union> wd_id ` {x \<in> set ds. wd_phase x = p}"
        using ih by simp
      moreover have "fst ` set (wc_instances (fst sw1)) \<subseteq> insert (wd_id d) (fst ` set (wc_instances (fst sw)))"
        using e by simp
      moreover have "wd_id d \<in> wd_id ` {x \<in> set (d # ds). wd_phase x = p}" using True by auto
      moreover have "wd_id ` {x \<in> set ds. wd_phase x = p} \<subseteq> wd_id ` {x \<in> set (d # ds). wd_phase x = p}" by auto
      ultimately show ?thesis by (rule subset_step(1))
    qed
    moreover have "attempts (wc_log (fst sw2)) = attempts (wc_log (fst sw)) @
        map wd_id (filter (\<lambda>d. wd_phase d = p \<and> \<not> om_has (wc_instances (fst sw)) (wd_id d)) (d # ds))"
      using True by (simp add: conjunct1 [OF ih] conjunct1 [OF e])
    moreover have "wc_descriptors (fst sw2) = wc_descriptors (fst sw)"
      using conjunct1 [OF conjunct2 [OF ih]] conjunct1 [OF conjunct2 [OF e]] by simp
    ultimately show ?thesis unfolding s Let_def by blast
  qed
qed simp

text \<open>
  Started with no instances and then taken through any sequence of distinct phases, the
  registry attempts each contribution of those phases exactly once, phase by phase and within
  a phase in the order of registration; contributions of a phase that is skipped are never
  attempted.
\<close>

theorem contributions_start_in_order:
  assumes k: "keyed wd_id (wc_descriptors s)" and empty: "wc_instances s = []" and d: "distinct (p # ps)"
  shows "attempts (wc_log (fst (fold (wc_on_phase mk) ps (wc_start mk p (s, w))))) =
    attempts (wc_log s) @
    concat (map (\<lambda>q. map wd_id (filter (\<lambda>d. wd_phase d = q) (om_values (wc_descriptors s)))) (p # ps))"
proof -
  let ?ds = "om_values (wc_descriptors s)"
  let ?in = "\<lambda>q. map wd_id (filter (\<lambda>d. wd_phase d = q) ?ds)"
  have ids: "map wd_id ?ds = map fst (wc_descriptors s)"
  proof -
    have "wd_id d = k" if "(k, d) \<in> set (wc_descriptors s)" for k d
      using that \<open>keyed wd_id (wc_descriptors s)\<close> by (auto simp: keyed_def om_get_eq_Some_iff)
    then show ?thesis by (auto simp: om_values_def)
  qed
  have dist: "distinct (map wd_id ?ds)" using k unfolding ids by (simp add: keyed_def om_wf_def)
  have step: "attempts (wc_log (fst (instantiate_phase mk q (t, v)))) = attempts (wc_log t) @ ?in q \<and>
      wc_descriptors (fst (instantiate_phase mk q (t, v))) = wc_descriptors s \<and>
      fst ` set (wc_instances (fst (instantiate_phase mk q (t, v)))) \<subseteq> wd_id ` {d \<in> set ?ds. wd_phase d \<in> insert q Q}"
    if t: "wc_descriptors t = wc_descriptors s" "q \<notin> Q"
      "fst ` set (wc_instances t) \<subseteq> wd_id ` {d \<in> set ?ds. wd_phase d \<in> Q}" for q t v Q
  proof -
    have "\<not> om_has (wc_instances t) (wd_id d)" if "d \<in> set ?ds" "wd_phase d = q" for d
    proof
      assume "om_has (wc_instances t) (wd_id d)"
      then obtain d' where "d' \<in> set ?ds" "wd_phase d' \<in> Q" "wd_id d' = wd_id d"
        using t(3) by (auto simp: om_has_keys)
      then show False using dist that t(2) by (auto simp: distinct_map dest: inj_onD)
    qed
    then have "filter (\<lambda>d. wd_phase d = q \<and> \<not> om_has (wc_instances t) (wd_id d)) ?ds
        = filter (\<lambda>d. wd_phase d = q) ?ds" by (intro filter_cong) auto
    note f = this
    have i: "instantiate_phase mk q (t, v) = fold (instantiate_if_due mk q) ?ds (t, v)"
      by (simp add: instantiate_phase_def t(1))
    note e = instantiate_phase_effect [OF dist, where p = q and mk = mk and sw = "(t, v)", folded i, unfolded Let_def fst_conv f]
    have "wd_id ` {d \<in> set ?ds. wd_phase d \<in> Q} \<union> wd_id ` {d \<in> set ?ds. wd_phase d = q}
        \<subseteq> wd_id ` {d \<in> set ?ds. wd_phase d \<in> insert q Q}" by auto
    with conjunct2 [OF conjunct2 [OF e]] t(3)
    have "fst ` set (wc_instances (fst (instantiate_phase mk q (t, v))))
        \<subseteq> wd_id ` {d \<in> set ?ds. wd_phase d \<in> insert q Q}" by (rule subset_step(2))
    then show ?thesis using conjunct1 [OF e] conjunct1 [OF conjunct2 [OF e]] t(1) by simp
  qed
  have run: "attempts (wc_log (fst (fold (wc_on_phase mk) qs (t, v)))) = attempts (wc_log t) @ concat (map ?in qs)"
    if "wc_descriptors t = wc_descriptors s" "distinct qs" "set qs \<inter> Q = {}"
      "fst ` set (wc_instances t) \<subseteq> wd_id ` {d \<in> set ?ds. wd_phase d \<in> Q}" for qs t v Q
    using that
  proof (induction qs arbitrary: t v Q)
    case (Cons q qs)
    obtain t1 v1 where e: "wc_on_phase mk q (t, v) = (t1, v1)" by fastforce
    then have e': "instantiate_phase mk q (t\<lparr>wc_phase := q\<rparr>, v) = (t1, v1)" by (simp add: wc_on_phase_def)
    have "q \<notin> Q" using Cons.prems by auto
    then have "attempts (wc_log t1) = attempts (wc_log t) @ ?in q" "wc_descriptors t1 = wc_descriptors s"
      "fst ` set (wc_instances t1) \<subseteq> wd_id ` {d \<in> set ?ds. wd_phase d \<in> insert q Q}"
      using step [of "t\<lparr>wc_phase := q\<rparr>" q Q v] Cons.prems e' by auto
    then show ?case using Cons.IH [of t1 "insert q Q" v1] Cons.prems e by auto
  qed simp
  obtain t v where e: "wc_start mk p (s, w) = (t, v)" by fastforce
  then have "instantiate_phase mk p (s\<lparr>wc_started := True, wc_container := True, wc_phase := p\<rparr>, w) = (t, v)"
    by (simp add: wc_start_def)
  then have "attempts (wc_log t) = attempts (wc_log s) @ ?in p" "wc_descriptors t = wc_descriptors s"
    "fst ` set (wc_instances t) \<subseteq> wd_id ` {d \<in> set ?ds. wd_phase d \<in> {p}}"
    using step [of "s\<lparr>wc_started := True, wc_container := True, wc_phase := p\<rparr>" p "{}" w] empty by auto
  then show ?thesis using run [of t ps "{p}" v] d e by auto
qed

lemma dispose_all_instances:
  "disposals (wc_log (fst (fold (\<lambda>(k, i). dispose_instance disp k i) xs sw)))
     = disposals (wc_log (fst sw)) @ map fst xs"
  "fst ` set (wc_instances (fst (fold (\<lambda>(k, i). dispose_instance disp k i) xs sw)))
     = fst ` set (wc_instances (fst sw)) - fst ` set xs"
proof (induction xs arbitrary: sw)
  case (Cons e xs)
  {
    case 1
    have "disposals (wc_log (fst ((\<lambda>(k, i). dispose_instance disp k i) e sw)))
        = disposals (wc_log (fst sw)) @ [fst e]"
      by (cases e; cases sw) (simp add: dispose_instance_def split: prod.split)
    then show ?case using Cons(1) by simp
  next
    case 2
    have "fst ` set (wc_instances (fst ((\<lambda>(k, i). dispose_instance disp k i) e sw)))
        = fst ` set (wc_instances (fst sw)) - {fst e}"
      by (cases e; cases sw) (simp add: dispose_instance_def om_del_keys split: prod.split)
    then show ?case using Cons(2) by auto
  }
qed simp_all

text \<open>
  A shutdown disposes every contribution that was created, each once, the last created
  first, whether or not a dispose throws, and forgets them all.
\<close>

theorem shutdown_disposes_in_reverse:
  "disposals (wc_log (fst (wc_on_shutdown disp (s, w)))) = disposals (wc_log s) @ rev (map fst (wc_instances s))
   \<and> wc_instances (fst (wc_on_shutdown disp (s, w))) = []"
proof -
  have "fst ` set (wc_instances (fst (wc_on_shutdown disp (s, w)))) = {}"
    using dispose_all_instances(2) [of disp "rev (wc_instances s)" "(s, w)"]
    by (simp add: wc_on_shutdown_def)
  then show ?thesis
    using dispose_all_instances(1) [of disp "rev (wc_instances s)" "(s, w)"]
    by (simp add: wc_on_shutdown_def rev_map)
qed

theorem contributions_start_in_order_witness:
  "let d = (\<lambda>n p. \<lparr>wd_id = n, wd_ctor = n, wd_phase = p\<rparr>);
       s = (new_contributions :: (string, string) contributions)\<lparr>wc_descriptors :=
            [(''a'', d ''a'' Eventually), (''b'', d ''b'' Ready), (''c'', d ''c'' Restored), (''d'', d ''d'' Ready)]\<rparr>;
       mk = (\<lambda>b c w. (w @ [c], if c = ''d'' then None else Some c))
   in attempts (wc_log (fst (fold (wc_on_phase mk) [Eventually] (wc_start mk Ready (s, [])))))
     = [''b'', ''d'', ''a'']"
proof -
  let ?d = "\<lambda>n p. \<lparr>wd_id = n, wd_ctor = n, wd_phase = p\<rparr>"
  let ?s = "(new_contributions :: (string, string) contributions)\<lparr>wc_descriptors :=
    [(''a'', ?d ''a'' Eventually), (''b'', ?d ''b'' Ready), (''c'', ?d ''c'' Restored), (''d'', ?d ''d'' Ready)]\<rparr>"
  have "keyed wd_id (wc_descriptors ?s)" by (auto simp: keyed_def om_wf_def)
  moreover have "wc_instances ?s = []" by (simp add: new_contributions_def)
  moreover have "distinct [Ready, Eventually]" by simp
  ultimately show ?thesis
    using contributions_start_in_order
      [where s = ?s and p = Ready and ps = "[Eventually]" and w = "[]" and
        mk = "\<lambda>b c w. (w @ [c], if c = ''d'' then None else Some c)"]
    by (simp add: Let_def om_values_def new_contributions_def)
qed

section \<open>\<open>NotificationService\<close>\<close>

datatype severity = SevError | SevInfo | SevWarning

record notification =
  nt_id :: nat
  nt_message :: string
  nt_severity :: severity

record notifications =
  nf_next :: nat
  nf_messages :: "notification list"
  nf_fires :: nat

definition new_notifications :: notifications where
  "new_notifications = \<lparr>nf_next = 0, nf_messages = [], nf_fires = 0\<rparr>"

definition nf_push :: "severity \<Rightarrow> string \<Rightarrow> notifications \<Rightarrow> notifications" where
  "nf_push sev msg s =
     (let n = Suc (nf_next s) in
      s\<lparr>nf_next := n,
        nf_messages := last_n 4 (nf_messages s) @ [\<lparr>nt_id = n, nt_message = msg, nt_severity = sev\<rparr>],
        nf_fires := Suc (nf_fires s)\<rparr>)"

text \<open>An error's message, or \<open>None\<close> for a thrown value that is no \<open>Error\<close>.\<close>

definition nf_error :: "string option \<Rightarrow> notifications \<Rightarrow> notifications" where
  "nf_error e = nf_push SevError (case e of Some m \<Rightarrow> m | None \<Rightarrow> ''An unexpected error occurred'')"

definition nf_info :: "string \<Rightarrow> notifications \<Rightarrow> notifications" where
  "nf_info = nf_push SevInfo"

definition nf_warn :: "string \<Rightarrow> notifications \<Rightarrow> notifications" where
  "nf_warn = nf_push SevWarning"

text \<open>Every message pushed, numbered from 1.\<close>

fun numbered :: "nat \<Rightarrow> (severity \<times> string) list \<Rightarrow> notification list" where
  "numbered n [] = []"
| "numbered n ((sev, msg) # ms) =
     \<lparr>nt_id = Suc n, nt_message = msg, nt_severity = sev\<rparr> # numbered (Suc n) ms"

lemma numbered_snoc:
  "numbered n (ms @ [(sev, msg)]) =
     numbered n ms @ [\<lparr>nt_id = Suc (n + length ms), nt_message = msg, nt_severity = sev\<rparr>]"
  by (induction n ms rule: numbered.induct) simp_all

lemma length_numbered [simp]: "length (numbered n ms) = length ms"
  by (induction n ms rule: numbered.induct) simp_all

lemma last_n_last_n_snoc: "last_n (Suc k) (xs @ [x]) = last_n k (last_n (Suc k) xs) @ [x]"
  by (cases "length xs \<le> k") (auto simp: last_n_def not_le Suc_diff_Suc)

text \<open>
  After any sequence of notifications the service shows exactly the last five of them, in
  order, each under its number in the sequence.
\<close>

theorem notifications_show_last_five:
  "nf_messages (fold (\<lambda>(sev, msg). nf_push sev msg) ms new_notifications) = last_n 5 (numbered 0 ms)"
proof -
  have "nf_messages (fold (\<lambda>(sev, msg). nf_push sev msg) ms new_notifications) = last_n 5 (numbered 0 ms)
      \<and> nf_next (fold (\<lambda>(sev, msg). nf_push sev msg) ms new_notifications) = length ms"
  proof (induction ms rule: rev_induct)
    case Nil
    show ?case by (simp add: new_notifications_def last_n_def)
  next
    case (snoc m ms)
    obtain sev msg where m: "m = (sev, msg)" by fastforce
    have "last_n 5 (xs @ [x]) = last_n 4 (last_n 5 xs) @ [x]" for xs and x :: notification
      using last_n_last_n_snoc [of 4 xs x] by simp
    with snoc show ?case by (simp add: m nf_push_def Let_def numbered_snoc)
  qed
  then show ?thesis by simp
qed

section \<open>\<open>ThemeService\<close>\<close>

text \<open>
  The storage is a map of strings, absent in a workbench without one; the theme of the document
  is written through \<open>dataset\<close>.
\<close>

record theme_service =
  th_current :: string
  th_storage :: "(string, string) omap option"
  th_document :: "string option"
  th_fired :: "string list"

definition is_color_theme :: "string option \<Rightarrow> bool" where
  "is_color_theme v \<longleftrightarrow> v \<in> {Some ''dark'', Some ''light'', Some ''hc'', Some ''system''}"

definition new_theme :: "(string, string) omap option \<Rightarrow> theme_service" where
  "new_theme st = \<lparr>th_current = ''dark'', th_storage = st, th_document = None, th_fired = []\<rparr>"

definition theme_set :: "string \<Rightarrow> theme_service \<Rightarrow> theme_service" where
  "theme_set t s =
     (if \<not> is_color_theme (Some t) then s
      else s\<lparr>th_current := t, th_document := Some t,
             th_storage := map_option (om_set ''zaw.theme'' t) (th_storage s),
             th_fired := (if th_current s \<noteq> t then th_fired s @ [t] else th_fired s)\<rparr>)"

definition theme_initialize :: "theme_service \<Rightarrow> theme_service" where
  "theme_initialize s =
     (let saved = (case th_storage s of None \<Rightarrow> None | Some m \<Rightarrow> om_get m ''zaw.theme'') in
      theme_set (if is_color_theme saved then the saved else ''dark'') s)"

lemma theme_survives_restart:
  "is_color_theme (Some t) \<Longrightarrow> th_storage s \<noteq> None \<Longrightarrow>
   th_current (theme_initialize (new_theme (th_storage (theme_set t s)))) = t"
  by (auto simp: theme_initialize_def theme_set_def new_theme_def Let_def)

end
