(* ===== verification/Markdown.thy ===== *)
theory Markdown
  imports Dom
begin

text \<open>
  \<open>src/packages/workbench/src/contrib/sessions/markdown-renderer.ts\<close>: markdown is parsed and purified
  by the packages marked and DOMPurify, whose result \<open>parse source\<close> is a parameter; what the renderer
  itself does to it is modelled: the second sanitization, the links, and the diagrams that Mermaid
  (another parameter: the outcome of each diagram) draws later.  Tags are written as the parser writes
  them, in lower case.  A block of the rendered tree is named by its path.
\<close>

section \<open>Sanitizing\<close>

definition banned_tags :: "bool \<Rightarrow> string list" where
  "banned_tags styles = [''script'', ''iframe'', ''object'', ''embed'', ''link'', ''meta''] @ (if styles then [] else [''style''])"

text \<open>\<open>/^\s*javascript:/i\<close>.\<close>

definition javascript_url :: "string \<Rightarrow> bool" where
  "javascript_url v \<longleftrightarrow> starts_with ''javascript:'' (to_lower (strip_start white_space v))"

definition bad_attribute :: "string \<times> string \<Rightarrow> bool" where
  "bad_attribute a \<longleftrightarrow>
     starts_with ''on'' (to_lower (fst a)) \<or>
     to_lower (fst a) \<in> {''href'', ''xlink:href''} \<and> javascript_url (snd a)"

text \<open>The nodes below the root after \<open>sanitizeDOM\<close>.\<close>

fun sanitize_dom :: "bool \<Rightarrow> dom list \<Rightarrow> dom list" where
  "sanitize_dom styles [] = []"
| "sanitize_dom styles (TextNode t # ds) = TextNode t # sanitize_dom styles ds"
| "sanitize_dom styles (Element t c a b k ks # ds) =
     (if t \<in> set (banned_tags styles) then sanitize_dom styles ds
      else Element t c (filter (\<lambda>x. \<not> bad_attribute x) a) b k (sanitize_dom styles ks) # sanitize_dom styles ds)"

section \<open>Rendering\<close>

fun blank_text :: "dom \<Rightarrow> bool" where
  "blank_text (TextNode t) \<longleftrightarrow> js_trim t = []"
| "blank_text (Element t c a b k ks) \<longleftrightarrow> False"

fun open_elsewhere :: "dom \<Rightarrow> dom" where
  "open_elsewhere (TextNode t) = TextNode t"
| "open_elsewhere (Element t c a b k ks) =
     Element t c (if t = ''a'' \<and> om_has a ''href'' then om_set ''rel'' ''noopener noreferrer'' (om_set ''target'' ''_blank'' a) else a)
       b k (map open_elsewhere ks)"

definition render_markdown :: "(string \<Rightarrow> dom list) \<Rightarrow> string \<Rightarrow> dom list" where
  "render_markdown parse source =
     map open_elsewhere (filter (\<lambda>d. \<not> blank_text d) (sanitize_dom False (parse source)))"

fun text_content :: "dom \<Rightarrow> string" where
  "text_content (TextNode t) = t"
| "text_content (Element t c a b k ks) = concat (map text_content ks)"

text \<open>The children of \<open>pre\<close> elements that are Mermaid sources: their block's path and their text.\<close>

definition mermaid_codes :: "string \<Rightarrow> dom list \<Rightarrow> string list" where
  "mermaid_codes t ks =
     (if t = ''pre''
      then map text_content (filter (\<lambda>d. has_class ''language-mermaid'' d \<and> el_tag d = ''code'') ks) else [])"

fun mermaid_blocks :: "nat list \<Rightarrow> nat \<Rightarrow> dom list \<Rightarrow> (nat list \<times> string) list" where
  "mermaid_blocks p i [] = []"
| "mermaid_blocks p i (TextNode t # ds) = mermaid_blocks p (Suc i) ds"
| "mermaid_blocks p i (Element t c a b k ks # ds) =
     map (\<lambda>x. (p @ [i], x)) (mermaid_codes t ks) @ mermaid_blocks (p @ [i]) 0 ks @ mermaid_blocks p (Suc i) ds"

text \<open>The renderer adds no class to what the parser gives.\<close>

lemma sanitize_class: "list_ex (some_dom (has_class n)) (sanitize_dom styles ds) \<Longrightarrow> list_ex (some_dom (has_class n)) ds"
  by (induction styles ds rule: sanitize_dom.induct) (auto split: if_splits)

lemma open_elsewhere_class: "some_dom (has_class n) (open_elsewhere d) = some_dom (has_class n) d"
proof (induction d)
  case (Element t c a b k ks)
  then have "list_ex (some_dom (has_class n)) (map open_elsewhere ks) = list_ex (some_dom (has_class n)) ks"
    by (auto simp: list_ex_iff)
  then show ?case by simp
qed simp

lemma render_markdown_class:
  assumes "\<not> list_ex (some_dom (has_class n)) (parse x)"
  shows "\<not> list_ex (some_dom (has_class n)) (render_markdown parse x)"
proof -
  have "\<not> list_ex (some_dom (has_class n)) (sanitize_dom False (parse x))" using assms sanitize_class by blast
  then show ?thesis by (auto simp: render_markdown_def list_ex_iff open_elsewhere_class)
qed

text \<open>
  A root that markdown is rendered into: its version, its nodes, and the diagrams asked for, each
  with the version it was asked in.
\<close>

record markdown_root =
  mr_version :: nat
  mr_nodes :: "dom list"
  mr_diagrams :: "(nat \<times> nat list) list"

definition render_into :: "(string \<Rightarrow> dom list) \<Rightarrow> string \<Rightarrow> markdown_root \<Rightarrow> markdown_root" where
  "render_into parse source s =
     (let v = Suc (mr_version s); ds = render_markdown parse source;
          bs = filter (\<lambda>(p, x). js_trim x \<noteq> []) (mermaid_blocks [] 0 ds)
      in s\<lparr>mr_version := v, mr_nodes := ds, mr_diagrams := mr_diagrams s @ map (\<lambda>(p, x). (v, p)) bs\<rparr>)"

definition markdown_figure :: "dom list \<Rightarrow> dom" where
  "markdown_figure svg =
     Element ''figure'' ''markdown-mermaid'' [(''aria-label'', ''Mermaid diagram'')] False None (sanitize_dom True svg)"

text \<open>\<open>block.replaceWith\<close> and \<open>classList.add\<close>, for a block that is still a \<open>pre\<close> at its path.\<close>

definition draw_block :: "dom list option \<Rightarrow> dom \<Rightarrow> dom" where
  "draw_block outcome d =
     (case d of TextNode t \<Rightarrow> TextNode t
      | Element t c a b k ks \<Rightarrow>
          if t \<noteq> ''pre'' then d
          else (case outcome of Some svg \<Rightarrow> markdown_figure svg
                | None \<Rightarrow> if has_class ''markdown-mermaid-error'' d then d
                          else Element t (if c = [] then ''markdown-mermaid-error'' else c @ '' markdown-mermaid-error'') a b k ks))"

fun edit_at :: "nat list \<Rightarrow> (dom \<Rightarrow> dom) \<Rightarrow> dom list \<Rightarrow> dom list" where
  "edit_at [] f ds = ds"
| "edit_at [i] f ds = (if i < length ds then ds[i := f (ds ! i)] else ds)"
| "edit_at (i # j # p) f ds =
     (if i < length ds
      then (case ds ! i of TextNode t \<Rightarrow> ds
            | Element t c a b k ks \<Rightarrow> ds[i := Element t c a b k (edit_at (j # p) f ks)])
      else ds)"

text \<open>The outcome of one diagram: its drawing, or \<open>None\<close> where Mermaid fails.\<close>

definition diagram_drawn :: "nat \<Rightarrow> nat list \<Rightarrow> dom list option \<Rightarrow> markdown_root \<Rightarrow> markdown_root" where
  "diagram_drawn v p outcome s =
     (if mr_version s \<noteq> v then s else s\<lparr>mr_nodes := edit_at p (draw_block outcome) (mr_nodes s)\<rparr>)"

datatype markdown_op = MdRender string | MdDrawn nat "nat list" "dom list option"

fun apply_markdown :: "(string \<Rightarrow> dom list) \<Rightarrow> markdown_op \<Rightarrow> markdown_root \<Rightarrow> markdown_root" where
  "apply_markdown parse (MdRender x) s = render_into parse x s"
| "apply_markdown parse (MdDrawn v p outcome) s = diagram_drawn v p outcome s"

definition new_markdown_root :: markdown_root where
  "new_markdown_root = \<lparr>mr_version = 0, mr_nodes = [], mr_diagrams = []\<rparr>"

section \<open>What is never shown\<close>

text \<open>
  What HTML runs or loads by itself, in its own terms: the elements of scripts, frames, plug-ins and
  of the page's head, the attributes that hold event handlers, and the links whose text is, after
  white space, a URL with the scheme \<open>javascript\<close>, in letters of any case.
\<close>

definition active_elements :: "string set" where
  "active_elements = {''script'', ''iframe'', ''object'', ''embed'', ''link'', ''meta''}"

definition handler_name :: "string \<Rightarrow> bool" where
  "handler_name n \<longleftrightarrow> to_lower (take 2 n) = ''on''"

definition link_name :: "string \<Rightarrow> bool" where
  "link_name n \<longleftrightarrow> to_lower n = ''href'' \<or> to_lower n = ''xlink:href''"

definition html_blank :: "char \<Rightarrow> bool" where
  "html_blank c \<longleftrightarrow> of_char c \<in> {9, 10, 12, 13, 32 :: nat}"

definition script_url :: "string \<Rightarrow> bool" where
  "script_url v \<longleftrightarrow> to_lower (take 11 (dropWhile html_blank v)) = ''javascript:''"

definition active_attribute :: "string \<times> string \<Rightarrow> bool" where
  "active_attribute a \<longleftrightarrow> handler_name (fst a) \<or> link_name (fst a) \<and> script_url (snd a)"

definition active_content :: "dom \<Rightarrow> bool" where
  "active_content d \<longleftrightarrow>
     (case d of TextNode t \<Rightarrow> False
      | Element t c a b k ks \<Rightarrow> t \<in> active_elements \<or> list_ex active_attribute a)"








lemma active_content_simps [simp]:
  "active_content (TextNode t) = False"
  "active_content (Element t c a b k ks) = (t \<in> active_elements \<or> list_ex active_attribute a)"
  by (simp_all add: active_content_def)


lemma target_harmless [simp]:
  "active_attribute (''target'', v) = False" "active_attribute (''rel'', v) = False"
  by (simp_all add: active_attribute_def handler_name_def link_name_def to_lower_def is_upper_def)








lemma version_mono: "mr_version s \<le> mr_version (fold (apply_markdown parse) es s)"
proof (induction es arbitrary: s)
  case (Cons e es)
  have "mr_version s \<le> mr_version (apply_markdown parse e s)"
    by (cases e) (simp_all add: render_into_def diagram_drawn_def Let_def)
  with Cons [of "apply_markdown parse e s"] show ?case by simp
qed simp

text \<open>
  A diagram that is drawn after its markdown has been rendered anew changes nothing: the
  streamed text that is shown is always that of the newest rendering.
\<close>

theorem late_diagram_never_shows:
  assumes "v \<le> mr_version s" and "t = fold (apply_markdown parse) es (render_into parse x s)"
  shows "diagram_drawn v p outcome t = t"
proof -
  have "mr_version (render_into parse x s) = Suc (mr_version s)" by (simp add: render_into_def Let_def)
  then have "v < mr_version t" using version_mono [of "render_into parse x s" parse es] assms by simp
  then show ?thesis by (simp add: diagram_drawn_def)
qed

theorem late_diagram_never_shows_witness:
  "let parse = (\<lambda>x. [Element ''pre'' [] [] False None [Element ''code'' ''language-mermaid'' [] False None [TextNode x]]]);
       s = render_into parse ''graph'' new_markdown_root; t = render_into parse ''graph TD'' s
   in mr_version t = 2 \<and> diagram_drawn 1 [0] (Some []) t = t"
proof -
  let ?parse = "\<lambda>x. [Element ''pre'' [] [] False None [Element ''code'' ''language-mermaid'' [] False None [TextNode x]]]"
  let ?s = "render_into ?parse ''graph'' new_markdown_root"
  have "1 \<le> mr_version ?s" by (simp add: render_into_def Let_def)
  from late_diagram_never_shows [OF this refl, where es = "[]" and parse = ?parse and x = "''graph TD''" and p = "[0]" and outcome = "Some []"]
  have "diagram_drawn 1 [0] (Some []) (render_into ?parse ''graph TD'' ?s) = render_into ?parse ''graph TD'' ?s" by simp
  moreover have "mr_version (render_into ?parse ''graph TD'' ?s) = 2" by (simp add: render_into_def new_markdown_root_def Let_def)
  ultimately show ?thesis unfolding Let_def by blast
qed

text \<open>
  Browsers leave out tabs and line breaks when they read a URL, and control characters and spaces
  before it.
\<close>

definition read_url :: "string \<Rightarrow> string" where
  "read_url v = filter (\<lambda>c. of_char c \<notin> {9, 10, 13 :: nat}) (dropWhile (\<lambda>c. (of_char c :: nat) \<le> 32) v)"

text \<open>
  A link whose scheme is broken by a line break passes the sanitization, although a browser
  reads it as a javascript URL.  For the text of messages DOMPurify removes such links before; a
  drawing of Mermaid is sanitized by this code alone.
\<close>

theorem broken_scheme_passes:
  "sanitize_dom styles [Element ''a'' c [(''href'', ''java'' @ CHR 0x0A # ''script:'' @ rest)] b k []] =
     [Element ''a'' c [(''href'', ''java'' @ CHR 0x0A # ''script:'' @ rest)] b k []]
   \<and> starts_with ''javascript:'' (read_url (''java'' @ CHR 0x0A # ''script:'' @ rest))"
proof -
  let ?v = "''java'' @ CHR 0x0A # ''script:'' @ rest"
  have "\<not> javascript_url ?v"
    using strip_start_visible [of "CHR ''j''"]
    by (simp add: javascript_url_def visible_char_def to_lower_def is_upper_def)
  then have "\<not> bad_attribute (''href'', ?v)" by (simp add: bad_attribute_def to_lower_def is_upper_def)
  then show ?thesis by (simp add: banned_tags_def read_url_def)
qed

end
