(* ===== verification/Projection.thy ===== *)
theory Projection
  imports ProtocolText Terminal
begin

text \<open>
  \<open>AHPProjectionService\<close> of
  \<open>packages/workbench/src/contrib/sessions/ahp-projection-service.ts\<close>: what an action of the
  agent host does to the chat, the terminals and the changes.

  An action is its channel and its dynamic body.  The attachment is read only; \<open>sf h c\<close> is the
  host's \<open>sessionForChat\<close>.
\<close>

section \<open>State\<close>

record projector =
  pj_turns :: "(string, string) omap"
  pj_segments :: "(string, nat) omap"
  pj_chat :: chat_sessions
  pj_terminals :: terminals
  pj_resources :: resources

definition is_action :: "string \<Rightarrow> json \<Rightarrow> bool" where
  "is_action t body \<longleftrightarrow> field body ''type'' = JStr t"

definition on_chat :: "(chat_sessions \<Rightarrow> chat_sessions) \<Rightarrow> projector \<Rightarrow> projector" where
  "on_chat f s = s\<lparr>pj_chat := f (pj_chat s)\<rparr>"

definition turn_key :: "string \<Rightarrow> string \<Rightarrow> string" where
  "turn_key ws channel = ws @ [CHR 0x00] @ channel"

definition scoped_part_id :: "string \<Rightarrow> string \<Rightarrow> string \<Rightarrow> projector \<Rightarrow> string" where
  "scoped_part_id ws channel part s =
     (case om_get (pj_turns s) (turn_key ws channel) of
        None \<Rightarrow> part
      | Some turn \<Rightarrow>
          if turn = [] then part
          else turn @ '':'' @ part @
            (case om_get (pj_segments s) (turn_key ws channel) of
               None \<Rightarrow> []
             | Some n \<Rightarrow> if n \<noteq> 0 then '':segment-'' @ show_nat n else []))"

definition bump_segment :: "string \<Rightarrow> string \<Rightarrow> projector \<Rightarrow> projector" where
  "bump_segment ws channel s =
     (let key = turn_key ws channel in
      s\<lparr>pj_segments := om_set key ((case om_get (pj_segments s) key of None \<Rightarrow> 0 | Some n \<Rightarrow> n) + 1) (pj_segments s)\<rparr>)"

definition forget_turn :: "string \<Rightarrow> string \<Rightarrow> projector \<Rightarrow> projector" where
  "forget_turn ws channel s =
     (let key = turn_key ws channel in s\<lparr>pj_turns := om_del key (pj_turns s), pj_segments := om_del key (pj_segments s)\<rparr>)"

section \<open>Snapshots\<close>

definition project_snapshot :: "session_identity \<Rightarrow> string \<Rightarrow> json option \<Rightarrow> projector \<Rightarrow> projector" where
  "project_snapshot i channel state s =
     (case state of
        None \<Rightarrow> s
      | Some st \<Rightarrow>
          let past = concat (map (\<lambda>v. case record_value v of None \<Rightarrow> [] | Some t \<Rightarrow> events_for_turn t channel)
                               (arr_items (field st ''turns'')));
              ws = si_workspace i;
              (events, s1) =
                (case record_value (field st ''activeTurn'') of
                   Some turn \<Rightarrow>
                     let tid = str_field turn ''id''
                     in (past @ events_for_turn turn channel,
                         on_chat (cs_set_active_turn i (some_nonempty tid))
                           (if tid \<noteq> [] then s\<lparr>pj_turns := om_set (turn_key ws channel) tid (pj_turns s)\<rparr> else s))
                 | None \<Rightarrow> (past, on_chat (cs_set_active_turn i None) (forget_turn ws channel s)));
              s2 = on_chat (cs_replace_events i events) s1
          in (case record_value (field st ''draft'') of
                None \<Rightarrow> s2
              | Some d \<Rightarrow>
                  on_chat (\<lambda>c. fst (cs_update i
                    (no_changes\<lparr>ch_draft := Some (str_field d ''text''), ch_model := Some (selection_id (field d ''model'')),
                                ch_agent := Some (selection_id (field d ''agent''))\<rparr>) c)) s2))"

section \<open>Tool calls\<close>

definition tool_event_of :: "string \<Rightarrow> chat_event \<Rightarrow> bool" where
  "tool_event_of call e \<longleftrightarrow>
     (case e of ToolEv c _ _ _ _ \<Rightarrow> c = call | ApprovalEv _ c _ _ _ _ \<Rightarrow> c = call | _ \<Rightarrow> False)"

definition upsert_tool_event :: "session_identity \<Rightarrow> string \<Rightarrow> chat_event \<Rightarrow> chat_sessions \<Rightarrow> chat_sessions" where
  "upsert_tool_event i call e c = cs_replace_events i (replace_first (tool_event_of call) e (cs_events i c)) c"

definition previous_title :: "chat_event option \<Rightarrow> string" where
  "previous_title p = (case p of None \<Rightarrow> ''Tool call'' | Some e \<Rightarrow> ev_title e)"

definition previous_summary :: "chat_event option \<Rightarrow> string" where
  "previous_summary p = (case p of None \<Rightarrow> [] | Some e \<Rightarrow> or_else (ev_summary e) [])"

definition previous_detail :: "chat_event option \<Rightarrow> string" where
  "previous_detail p = (case p of None \<Rightarrow> [] | Some e \<Rightarrow> or_else (ev_detail e) [])"

text \<open>The event an action about a tool call makes of the one before; \<open>None\<close> for other actions.\<close>

definition tool_action_event :: "string \<Rightarrow> string \<Rightarrow> chat_event option \<Rightarrow> json \<Rightarrow> chat_event option" where
  "tool_action_event channel call p a =
     (let title = previous_title p; summary = previous_summary p; detail = previous_detail p in
      if is_action ''chat/toolCallStart'' a
      then Some (ToolEv call (or_str (str_field a ''displayName'') (str_field a ''toolName''))
                   (Some (display_text (field a ''intention''))) (Some (display_text (field a ''intention''))) ''streaming'')
      else if is_action ''chat/toolCallDelta'' a
      then Some (ToolEv call title (Some summary) (Some (detail @ str_field a ''content'')) ''streaming'')
      else if is_action ''chat/toolCallReady'' a
      then let d = tool_invocation_detail [str_field a ''toolInput'', display_text (field a ''invocationMessage''), detail];
               m = or_str (tool_call_summary title (str_field a ''toolInput'')) summary
           in if is_str (field a ''confirmed'') then Some (ToolEv call title (Some m) (Some d) ''running'')
              else Some (ApprovalEv channel call (or_str (display_text (field a ''confirmationTitle'')) title)
                           (Some m) (Some d) Pending)
      else if is_action ''chat/toolCallConfirmed'' a
      then Some (ApprovalEv channel call title (Some summary) (Some detail)
                   (if field a ''approved'' = JBool True then Approved else Denied))
      else if is_action ''chat/toolCallComplete'' a
      then let result = record_value (field a ''result'')
           in Some (ToolEv call title (Some summary) (Some (or_str (tool_result_detail result) detail))
                (if (case result of None \<Rightarrow> False | Some r \<Rightarrow> field r ''success'' = JBool False) then ''failed'' else ''completed''))
      else if is_action ''chat/toolCallContentChanged'' a
      then Some (ToolEv call title (Some summary) (stringify_pretty (field a ''content'')) ''running'')
      else None)"

definition project_tool_action :: "session_identity \<Rightarrow> string \<Rightarrow> json \<Rightarrow> projector \<Rightarrow> projector" where
  "project_tool_action i channel a s =
     (let call = str_field a ''toolCallId'' in
      if call = [] then s
      else let p = find (tool_event_of call) (cs_events i (pj_chat s)) in
           case tool_action_event channel call p a of
             None \<Rightarrow> s
           | Some e \<Rightarrow> on_chat (upsert_tool_event i call e) s)"

section \<open>An action\<close>

definition project_delta :: "session_identity \<Rightarrow> string \<Rightarrow> json \<Rightarrow> projector \<Rightarrow> projector" where
  "project_delta i channel a s =
     (let part = str_field a ''partId'' in
      if is_action ''chat/delta'' a \<and> is_str (field a ''content'') \<and> part \<noteq> []
      then on_chat (cs_append_message_delta i (scoped_part_id (si_workspace i) channel part s) (str_field a ''content'')) s
      else s)"

definition project_response_part :: "session_identity \<Rightarrow> string \<Rightarrow> json \<Rightarrow> projector \<Rightarrow> projector" where
  "project_response_part i channel a s =
     (let part = field a ''part''; pid = str_field part ''id'' in
      if is_action ''chat/responsePart'' a \<and> field part ''kind'' = JStr ''markdown'' \<and> pid \<noteq> []
      then on_chat (cs_append_message_delta i (scoped_part_id (si_workspace i) channel pid s) (str_field part ''content'')) s
      else s)"

definition project_turn_started :: "session_identity \<Rightarrow> string \<Rightarrow> json \<Rightarrow> projector \<Rightarrow> projector" where
  "project_turn_started i channel a s =
     (if is_action ''chat/turnStarted'' a \<and> is_str (field a ''turnId'')
      then let turn = str_field a ''turnId''; key = turn_key (si_workspace i) channel;
               message = str_field (field a ''message'') ''text'';
               s1 = s\<lparr>pj_turns := om_set key turn (pj_turns s), pj_segments := om_set key 0 (pj_segments s)\<rparr>
           in on_chat (\<lambda>c. cs_set_active_turn i (Some turn)
                (if message = [] then c
                 else cs_append_event i (MessageEv (Some (turn @ '':user'')) UserRole message) c)) s1
      else s)"

definition project_turn_ended :: "session_identity \<Rightarrow> string \<Rightarrow> json \<Rightarrow> projector \<Rightarrow> projector" where
  "project_turn_ended i channel a s =
     (if is_action ''chat/turnComplete'' a \<or> is_action ''chat/turnCancelled'' a
      then on_chat (cs_set_active_turn i None) (forget_turn (si_workspace i) channel s)
      else s)"

definition project_error :: "session_identity \<Rightarrow> json \<Rightarrow> projector \<Rightarrow> projector" where
  "project_error i a s =
     (if is_action ''chat/error'' a
      then let e = field a ''error''; known = or_str (str_field e ''message'') (string_value e)
           in on_chat (\<lambda>c. cs_set_active_turn i None
                (cs_append_event i (ErrorEv (if known \<noteq> [] then Some known else stringify e)) c)) s
      else s)"

definition project_chat :: "session_identity \<Rightarrow> string \<Rightarrow> json \<Rightarrow> projector \<Rightarrow> projector" where
  "project_chat i channel a s =
     (if is_action ''chat/snapshot'' a then project_snapshot i channel (record_value (field a ''state'')) s
      else
        let s1 = project_delta i channel a s;
            s2 = project_response_part i channel a s1;
            s3 = project_turn_started i channel a s2;
            s4 = project_turn_ended i channel a s3;
            s5 = project_error i a s4;
            s6 = (if is_action ''chat/toolCallStart'' a then bump_segment (si_workspace i) channel s5 else s5)
        in project_tool_action i channel a s6)"

definition project_resources :: "string \<Rightarrow> string \<Rightarrow> json \<Rightarrow> projector \<Rightarrow> projector" where
  "project_resources ws channel a s =
     (let s1 = (if is_action ''terminal/data'' a \<and> is_str (field a ''data'')
                then s\<lparr>pj_terminals := append_output channel (str_field a ''data'') (pj_terminals s)\<rparr> else s)
      in if is_action ''changeset/contentChanged'' a \<and> is_arr (field a ''files'')
         then s1\<lparr>pj_resources :=
                replace_changes ws channel (to_workspace_changes (arr_items (field a ''files''))) (pj_resources s1)\<rparr>
         else s1)"

definition session_of :: "'a attachment \<Rightarrow> (nat \<Rightarrow> string \<Rightarrow> string option) \<Rightarrow> string \<Rightarrow> string \<Rightarrow> session_identity option" where
  "session_of wa sf ws channel =
     (case attached (Some ws) wa of
        None \<Rightarrow> None
      | Some h \<Rightarrow>
          (case sf h channel of
             None \<Rightarrow> None
           | Some r \<Rightarrow> if r = [] then None else Some \<lparr>si_workspace = ws, si_resource = r\<rparr>))"

definition project ::
  "'a attachment \<Rightarrow> (nat \<Rightarrow> string \<Rightarrow> string option) \<Rightarrow> string \<Rightarrow> string \<times> json \<Rightarrow> projector \<Rightarrow> projector" where
  "project wa sf ws act s =
     (case act of (channel, a) \<Rightarrow>
        let s1 = project_resources ws channel a s in
        case session_of wa sf ws channel of
          None \<Rightarrow> s1
        | Some i \<Rightarrow> project_chat i channel a s1)"

lemmas project_chat_defs = project_chat_def project_delta_def project_response_part_def project_turn_started_def
  project_turn_ended_def project_error_def

section \<open>Every action stays within its session\<close>

definition same_session :: "session_identity \<Rightarrow> projector \<Rightarrow> projector \<Rightarrow> bool" where
  "same_session j s t \<longleftrightarrow> cs_events j (pj_chat t) = cs_events j (pj_chat s) \<and>
     cs_active_turn j (pj_chat t) = cs_active_turn j (pj_chat s)"

lemma on_chat_fields [simp]:
  "pj_chat (on_chat f s) = f (pj_chat s)" "pj_turns (on_chat f s) = pj_turns s" "pj_segments (on_chat f s) = pj_segments s"
  "pj_terminals (on_chat f s) = pj_terminals s" "pj_resources (on_chat f s) = pj_resources s"
  by (simp_all add: on_chat_def)

lemma turn_bookkeeping_chat [simp]: "pj_chat (forget_turn ws c s) = pj_chat s" "pj_chat (bump_segment ws c s) = pj_chat s"
  by (simp_all add: forget_turn_def bump_segment_def Let_def)

lemma chat_ops_other:
  assumes "j \<noteq> i"
  shows "cs_events j (cs_set_active_turn i t c) = cs_events j c" "cs_active_turn j (cs_set_active_turn i t c) = cs_active_turn j c"
    "cs_events j (cs_append_message_delta i p x c) = cs_events j c"
    "cs_active_turn j (cs_append_message_delta i p x c) = cs_active_turn j c"
    "cs_events j (cs_append_event i e c) = cs_events j c" "cs_active_turn j (cs_append_event i e c) = cs_active_turn j c"
    "cs_events j (cs_replace_events i es c) = cs_events j c" "cs_active_turn j (cs_replace_events i es c) = cs_active_turn j c"
    "cs_events j (fst (cs_update i ch c)) = cs_events j c" "cs_active_turn j (fst (cs_update i ch c)) = cs_active_turn j c"
proof -
  show "cs_events j (cs_set_active_turn i t c) = cs_events j c"
    by (simp add: cs_set_active_turn_def Let_def cs_events_def)
  show "cs_active_turn j (cs_set_active_turn i t c) = cs_active_turn j c"
    using assms by (simp add: cs_set_active_turn_def Let_def cs_active_turn_def split: option.split)
  show "cs_events j (fst (cs_update i ch c)) = cs_events j c" "cs_active_turn j (fst (cs_update i ch c)) = cs_active_turn j c"
    by (simp_all add: cs_update_def cs_composition_def cs_persist_def Let_def cs_active_turn_def cs_events_def
        split: option.split prod.split)
qed (use assms in \<open>simp_all add: cs_append_message_delta_def cs_append_event_def cs_replace_events_def Let_def\<close>)

lemmas same_session_simps = same_session_def chat_ops_other

lemma same_session_trans: "same_session j s t \<Longrightarrow> same_session j t u \<Longrightarrow> same_session j s u"
  by (simp add: same_session_def)

lemma snapshot_same: "j \<noteq> i \<Longrightarrow> same_session j s (project_snapshot i ch st s)"
  by (auto simp: project_snapshot_def same_session_simps Let_def split: option.split)

lemma tool_action_same: "j \<noteq> i \<Longrightarrow> same_session j s (project_tool_action i ch a s)"
  by (auto simp: project_tool_action_def upsert_tool_event_def same_session_simps Let_def split: option.split)

lemma parts_same:
  assumes "j \<noteq> i"
  shows "same_session j s (project_delta i ch a s)" "same_session j s (project_response_part i ch a s)"
    "same_session j s (project_turn_started i ch a s)" "same_session j s (project_turn_ended i ch a s)"
    "same_session j s (project_error i a s)" "same_session j s (bump_segment ws ch s)"
  using assms
  by (simp_all add: project_delta_def project_response_part_def project_turn_started_def project_turn_ended_def
      project_error_def same_session_simps Let_def)

lemma project_chat_same: "j \<noteq> i \<Longrightarrow> same_session j s (project_chat i ch a s)"
proof -
  assume ne: "j \<noteq> i"
  let ?s1 = "project_delta i ch a s"
  let ?s2 = "project_response_part i ch a ?s1"
  let ?s3 = "project_turn_started i ch a ?s2"
  let ?s4 = "project_turn_ended i ch a ?s3"
  let ?s5 = "project_error i a ?s4"
  let ?s6 = "if is_action ''chat/toolCallStart'' a then bump_segment (si_workspace i) ch ?s5 else ?s5"
  have "same_session j s ?s2" by (rule same_session_trans [OF parts_same(1) [OF ne] parts_same(2) [OF ne]])
  then have "same_session j s ?s3" by (rule same_session_trans [OF _ parts_same(3) [OF ne]])
  then have "same_session j s ?s4" by (rule same_session_trans [OF _ parts_same(4) [OF ne]])
  then have "same_session j s ?s5" by (rule same_session_trans [OF _ parts_same(5) [OF ne]])
  then have "same_session j s ?s6" using parts_same(6) [OF ne, of ?s5] same_session_trans [of j s ?s5] by simp
  then have "same_session j s (project_tool_action i ch a ?s6)" using tool_action_same [OF ne] same_session_trans by blast
  then show ?thesis using snapshot_same [OF ne] by (simp add: project_chat_def Let_def)
qed

lemma project_resources_chat [simp]: "pj_chat (project_resources ws ch a s) = pj_chat s"
  by (simp add: project_resources_def Let_def)

text \<open>
  C13: an action changes the conversation of no session but the one its host names for its
  channel: every other session keeps its events and its turn, and if the workspace is not attached
  or the channel belongs to no session, the chat is not touched at all.
\<close>

theorem projection_touches_one_session:
  assumes "session_of wa sf ws (fst act) \<noteq> Some j"
  shows "cs_events j (pj_chat (project wa sf ws act s)) = cs_events j (pj_chat s)
    \<and> cs_active_turn j (pj_chat (project wa sf ws act s)) = cs_active_turn j (pj_chat s)
    \<and> (case session_of wa sf ws (fst act) of None \<Rightarrow> pj_chat (project wa sf ws act s) = pj_chat s | Some i \<Rightarrow> True)"
proof -
  obtain ch a where act: "act = (ch, a)" by fastforce
  show ?thesis
  proof (cases "session_of wa sf ws ch")
    case None
    then show ?thesis by (simp add: project_def act Let_def)
  next
    case (Some i)
    then have "same_session j (project_resources ws ch a s) (project_chat i ch a (project_resources ws ch a s))"
      using assms act by (intro project_chat_same) auto
    then show ?thesis using Some by (simp add: project_def act Let_def same_session_def)
  qed
qed

theorem projection_touches_one_session_witness:
  "let s = \<lparr>pj_turns = [], pj_segments = [], pj_chat = new_chat_sessions None, pj_terminals = new_terminals (new_layout None), pj_resources = new_resources (new_detail_view None (new_layout None) [])\<rparr>
   in pj_chat (project (new_attachment :: nat attachment) (\<lambda>h c. Some c) ''w'' (''chat'', JObj [(''type'', JStr ''chat/turnComplete'')]) s)
      = new_chat_sessions None"
proof -
  have n: "session_of (new_attachment :: nat attachment) (\<lambda>h c. Some c) ''w'' c = None" for c
    by (simp add: session_of_def attached_def new_attachment_def)
  show ?thesis
    using projection_touches_one_session [of "new_attachment :: nat attachment" "\<lambda>h c. Some c" "''w''"
        "(''chat'', JObj [(''type'', JStr ''chat/turnComplete'')])" "\<lparr>si_workspace = ''x'', si_resource = ''y''\<rparr>"]
    by (simp add: Let_def n)
qed

section \<open>A tool call is a state machine of its own\<close>

lemma replace_first_simps [simp]:
  "replace_first P x [] = [x]"
  "replace_first P x (y # ys) = (if P y then x # ys else y # replace_first P x ys)"
  by (simp_all add: replace_first_def split: option.split)

lemma find_replace_first_same: "P x \<Longrightarrow> find P (replace_first P x xs) = Some x"
  by (induction xs) simp_all

lemma find_replace_first_other:
  "\<not> Q x \<Longrightarrow> (\<And>y. P y \<Longrightarrow> \<not> Q y) \<Longrightarrow> find Q (replace_first P x xs) = find Q xs"
  by (induction xs) auto

lemma find_update_other: "\<not> Q x \<Longrightarrow> k < length xs \<Longrightarrow> \<not> Q (xs ! k) \<Longrightarrow> find Q (xs[k := x]) = find Q xs"
proof (induction xs arbitrary: k)
  case (Cons y ys)
  then show ?case by (cases k) auto
qed simp

lemma find_snoc_other: "\<not> Q x \<Longrightarrow> find Q (xs @ [x]) = find Q xs"
  by (induction xs) auto

lemma tool_event_of_simps [simp]:
  "\<not> tool_event_of c (MessageEv n r t)" "\<not> tool_event_of c (ErrorEv f)" "\<not> tool_event_of c (NoticeEv l t)"
  "tool_event_of c (ToolEv d ti su de st) \<longleftrightarrow> d = c" "tool_event_of c (ApprovalEv ac d ti su de ap) \<longleftrightarrow> d = c"
  by (simp_all add: tool_event_of_def)

text \<open>The event of a call in the conversation of a session.\<close>

definition tool_call_of :: "session_identity \<Rightarrow> projector \<Rightarrow> string \<Rightarrow> chat_event option" where
  "tool_call_of i s c = find (tool_event_of c) (cs_events i (pj_chat s))"

text \<open>The specification: an action is a step of the machine of the call it names, and of no other.\<close>

definition tool_step :: "string \<Rightarrow> string \<Rightarrow> json \<Rightarrow> chat_event option \<Rightarrow> chat_event option" where
  "tool_step ch c a p =
     (if c \<noteq> [] \<and> str_field a ''toolCallId'' = c
      then (case tool_action_event ch c p a of None \<Rightarrow> p | Some e \<Rightarrow> Some e) else p)"

lemma tool_action_event_call: "tool_action_event ch call p a = Some e \<Longrightarrow> tool_event_of c e \<longleftrightarrow> c = call"
  by (auto simp: tool_action_event_def Let_def split: if_splits)

lemma tool_action_refines: "tool_call_of i (project_tool_action i ch a s) c = tool_step ch c a (tool_call_of i s c)"
proof -
  let ?call = "str_field a ''toolCallId''"
  let ?p = "find (tool_event_of ?call) (cs_events i (pj_chat s))"
  show ?thesis
  proof (cases "?call = [] \<or> tool_action_event ch ?call ?p a = None")
    case True
    then show ?thesis by (auto simp: project_tool_action_def tool_step_def tool_call_of_def Let_def)
  next
    case False
    then obtain e where e: "tool_action_event ch ?call ?p a = Some e" and n: "?call \<noteq> []" by auto
    then have p: "cs_events i (pj_chat (project_tool_action i ch a s)) = replace_first (tool_event_of ?call) e (cs_events i (pj_chat s))"
      by (simp add: project_tool_action_def Let_def upsert_tool_event_def cs_replace_events_def)
    show ?thesis
    proof (cases "c = ?call")
      case True
      have "tool_event_of ?call e" using tool_action_event_call [OF e] by simp
      then show ?thesis using e n p True
        by (simp add: tool_call_of_def tool_step_def find_replace_first_same)
    next
      case c: False
      have "find (tool_event_of c) (replace_first (tool_event_of ?call) e (cs_events i (pj_chat s))) =
          find (tool_event_of c) (cs_events i (pj_chat s))"
      proof (rule find_replace_first_other)
        show "\<not> tool_event_of c e" using tool_action_event_call [OF e] c by simp
        show "\<not> tool_event_of c y" if "tool_event_of ?call y" for y
          using that c by (cases y) (simp_all add: tool_event_of_def)
      qed
      then show ?thesis using p c by (simp add: tool_call_of_def tool_step_def)
    qed
  qed
qed

lemma message_ops_keep_tools:
  "find (tool_event_of c) (cs_events i (cs_set_active_turn i t ch)) = find (tool_event_of c) (cs_events i ch)"
  "find (tool_event_of c) (cs_events i (cs_append_message_delta i part x ch)) = find (tool_event_of c) (cs_events i ch)"
  "find (tool_event_of c) (cs_events i (cs_append_event i (MessageEv n r m) ch)) = find (tool_event_of c) (cs_events i ch)"
  "find (tool_event_of c) (cs_events i (cs_append_event i (ErrorEv f) ch)) = find (tool_event_of c) (cs_events i ch)"
proof -
  show "find (tool_event_of c) (cs_events i (cs_set_active_turn i t ch)) = find (tool_event_of c) (cs_events i ch)"
    by (simp add: cs_set_active_turn_def Let_def cs_events_def)
  show "find (tool_event_of c) (cs_events i (cs_append_event i (ErrorEv f) ch)) = find (tool_event_of c) (cs_events i ch)"
    by (simp add: cs_append_event_def find_snoc_other)
  have "\<not> tool_event_of c y" if "message_with_id k y" for y k
    using that by (cases y) (simp_all add: message_with_id_def)
  then show "find (tool_event_of c) (cs_events i (cs_append_event i (MessageEv n r m) ch)) = find (tool_event_of c) (cs_events i ch)"
    by (simp add: cs_append_event_def find_snoc_other find_replace_first_other split: option.split)
  show "find (tool_event_of c) (cs_events i (cs_append_message_delta i part x ch)) = find (tool_event_of c) (cs_events i ch)"
  proof (cases "find_index (agent_message part) (cs_events i ch)")
    case None
    then show ?thesis by (simp add: cs_append_message_delta_def Let_def find_snoc_other)
  next
    case (Some k)
    note k = find_index_Some [OF Some]
    then obtain t where m: "cs_events i ch ! k = MessageEv (Some part) AgentRole t"
      by (auto simp: agent_message_def split: chat_event.splits)
    then show ?thesis using k Some
      by (simp add: cs_append_message_delta_def Let_def find_update_other)
  qed
qed

lemma project_parts_keep_tools:
  "tool_call_of i (project_delta i ch a s) c = tool_call_of i s c"
  "tool_call_of i (project_response_part i ch a s) c = tool_call_of i s c"
  "tool_call_of i (project_turn_started i ch a s) c = tool_call_of i s c"
  "tool_call_of i (project_turn_ended i ch a s) c = tool_call_of i s c"
  "tool_call_of i (project_error i a s) c = tool_call_of i s c"
  "tool_call_of i (bump_segment ws ch s) c = tool_call_of i s c"
  by (simp_all add: tool_call_of_def project_delta_def project_response_part_def project_turn_started_def
      project_turn_ended_def project_error_def message_ops_keep_tools Let_def)

lemma project_chat_refines:
  "\<not> is_action ''chat/snapshot'' a \<Longrightarrow> tool_call_of i (project_chat i ch a s) c = tool_step ch c a (tool_call_of i s c)"
  by (simp add: project_chat_def Let_def tool_action_refines project_parts_keep_tools)

text \<open>
  C5: live actions implement one state machine per tool call: after any sequence of them, the event
  of a call in the conversation is what the steps of that call alone make of the event it was
  before, whatever messages, turns, errors and other calls are interleaved.
\<close>

theorem tool_calls_refine_machines:
  assumes "list_all (\<lambda>a. \<not> is_action ''chat/snapshot'' a) acts"
  shows "tool_call_of i (fold (project_chat i ch) acts s) c =
    fold (tool_step ch c) (filter (\<lambda>a. str_field a ''toolCallId'' = c) acts) (tool_call_of i s c)"
  using assms
proof (induction acts arbitrary: s)
  case (Cons a acts)
  have "tool_step ch c a p = p" if "str_field a ''toolCallId'' \<noteq> c" for p using that by (simp add: tool_step_def)
  with Cons show ?case by (simp add: project_chat_refines)
qed simp

theorem tool_calls_refine_machines_witness:
  "let i = \<lparr>si_workspace = ''w'', si_resource = ''s''\<rparr>;
       s = \<lparr>pj_turns = [], pj_segments = [], pj_chat = new_chat_sessions None, pj_terminals = new_terminals (new_layout None), pj_resources = new_resources (new_detail_view None (new_layout None) [])\<rparr>;
       first = JObj [(''type'', JStr ''chat/toolCallStart''), (''toolCallId'', JStr ''1''), (''toolName'', JStr ''bash'')];
       other = JObj [(''type'', JStr ''chat/toolCallStart''), (''toolCallId'', JStr ''2''), (''toolName'', JStr ''read'')]
   in tool_call_of i (fold (project_chat i ''c'') [first, other] s) ''1'' = Some (ToolEv ''1'' ''bash'' (Some []) (Some []) ''streaming'')"
proof -
  let ?i = "\<lparr>si_workspace = ''w'', si_resource = ''s''\<rparr>"
  let ?s = "\<lparr>pj_turns = [], pj_segments = [], pj_chat = new_chat_sessions None, pj_terminals = new_terminals (new_layout None), pj_resources = new_resources (new_detail_view None (new_layout None) [])\<rparr>"
  let ?first = "JObj [(''type'', JStr ''chat/toolCallStart''), (''toolCallId'', JStr ''1''), (''toolName'', JStr ''bash'')]"
  let ?other = "JObj [(''type'', JStr ''chat/toolCallStart''), (''toolCallId'', JStr ''2''), (''toolName'', JStr ''read'')]"
  have e: "tool_call_of ?i ?s ''1'' = None"
    by (simp add: tool_call_of_def new_chat_sessions_def cs_events_def)
  have "list_all (\<lambda>a. \<not> is_action ''chat/snapshot'' a) [?first, ?other]" by (simp add: is_action_def)
  from tool_calls_refine_machines [OF this, of ?i "''c''" ?s "''1''"] show ?thesis
    unfolding Let_def e
    by (simp add: str_field_def string_value_def tool_step_def tool_action_event_def is_action_def display_text_def)
qed

section \<open>A streamed turn is the turn of the snapshot\<close>

text \<open>The actions of a turn with one message, and the turn as a snapshot holds it.\<close>

definition turn_started_action :: "string \<Rightarrow> string \<Rightarrow> json" where
  "turn_started_action t m =
     JObj [(''type'', JStr ''chat/turnStarted''), (''turnId'', JStr t), (''message'', JObj [(''text'', JStr m)])]"

definition delta_action :: "string \<Rightarrow> string \<Rightarrow> json" where
  "delta_action part x = JObj [(''type'', JStr ''chat/delta''), (''partId'', JStr part), (''content'', JStr x)]"

definition turn_complete_action :: json where
  "turn_complete_action = JObj [(''type'', JStr ''chat/turnComplete'')]"

definition snapshot_turn :: "string \<Rightarrow> string \<Rightarrow> string \<Rightarrow> string \<Rightarrow> json" where
  "snapshot_turn t m part x =
     JObj [(''id'', JStr t), (''message'', JObj [(''text'', JStr m)]),
           (''responseParts'', JArr [JObj [(''kind'', JStr ''markdown''), (''id'', JStr part), (''content'', JStr x)]])]"

lemma started_action:
  assumes "t \<noteq> []"
  shows "cs_events i (pj_chat (project_chat i ch (turn_started_action t m) s)) =
      (if m = [] then cs_events i (pj_chat s)
       else cs_events i (cs_append_event i (MessageEv (Some (t @ '':user'')) UserRole m) (pj_chat s)))"
    and "scoped_part_id (si_workspace i) ch part (project_chat i ch (turn_started_action t m) s) = t @ '':'' @ part"
  using assms
  by (simp_all add: project_chat_def project_delta_def project_response_part_def project_turn_started_def project_turn_ended_def
      project_error_def project_tool_action_def turn_started_action_def is_action_def str_field_def string_value_def
      scoped_part_id_def cs_set_active_turn_def cs_events_def Let_def)

lemma delta_action_step:
  "part \<noteq> [] \<Longrightarrow> project_chat i ch (delta_action part x) s =
     on_chat (cs_append_message_delta i (scoped_part_id (si_workspace i) ch part s) x) s"
  by (simp add: project_chat_def project_delta_def project_response_part_def project_turn_started_def project_turn_ended_def
      project_error_def project_tool_action_def delta_action_def is_action_def str_field_def string_value_def Let_def)

lemma scoped_on_chat [simp]: "scoped_part_id ws ch part (on_chat f s) = scoped_part_id ws ch part s"
  unfolding scoped_part_id_def on_chat_fields ..

lemma delta_actions:
  assumes "part \<noteq> []"
  shows "fold (project_chat i ch) (map (delta_action part) xs) s =
    on_chat (fold (cs_append_message_delta i (scoped_part_id (si_workspace i) ch part s)) xs) s"
proof (induction xs arbitrary: s)
  case Nil
  show ?case by (simp add: on_chat_def)
next
  case (Cons x xs)
  have "on_chat f (on_chat g s) = on_chat (f \<circ> g) s" for f g by (simp add: on_chat_def)
  then show ?case by (simp add: Cons delta_action_step [OF assms] o_def)
qed

lemma complete_action:
  "cs_events i (pj_chat (project_chat i ch turn_complete_action s)) = cs_events i (pj_chat s)"
  by (simp add: project_chat_def project_delta_def project_response_part_def project_turn_started_def project_turn_ended_def
      project_error_def project_tool_action_def turn_complete_action_def is_action_def str_field_def string_value_def
      cs_set_active_turn_def cs_events_def Let_def)

text \<open>
  C3: a turn that was streamed, with its user message and one agent message in any number of
  pieces, leaves in the conversation exactly the events that a snapshot of the finished turn gives,
  ids included: after a reconnection the conversation looks as it did before.
\<close>

theorem streamed_turn_equals_snapshot:
  assumes "t \<noteq> []" and "part \<noteq> []" and "concat pieces \<noteq> []"
    and "list_all (\<lambda>e. \<not> message_with_id (t @ '':user'') e \<and> \<not> agent_message (t @ '':'' @ part) e) (cs_events i (pj_chat s))"
  shows "cs_events i (pj_chat (fold (project_chat i ch)
        ([turn_started_action t m] @ map (delta_action part) pieces @ [turn_complete_action]) s)) =
    cs_events i (pj_chat s) @ events_for_turn (snapshot_turn t m part (concat pieces)) ch"
proof -
  let ?es = "cs_events i (pj_chat s)"
  let ?user = "if m = [] then [] else [MessageEv (Some (t @ '':user'')) UserRole m]"
  let ?s1 = "project_chat i ch (turn_started_action t m) s"
  have "find_index (message_with_id (t @ '':user'')) ?es = None"
    using assms(4) by (auto simp: find_index_None list_all_iff)
  then have e1: "cs_events i (pj_chat ?s1) = ?es @ ?user"
    using assms(1) by (simp add: started_action cs_append_event_def replace_first_def)
  have n: "find_index (agent_message (t @ '':'' @ part)) (?es @ ?user) = None"
    using assms(4) by (auto simp: find_index_None list_all_iff agent_message_def)
  obtain x xs where p: "pieces = x # xs" using assms(3) by (cases pieces) auto
  have "cs_events i (fold (cs_append_message_delta i (t @ '':'' @ part)) pieces (pj_chat ?s1)) =
      cs_events i (cs_append_message_delta i (t @ '':'' @ part) (concat pieces) (pj_chat ?s1))"
    using deltas_concat [of i "t @ '':'' @ part" xs x] by (simp add: p)
  also have "\<dots> = ?es @ ?user @ [MessageEv (Some (t @ '':'' @ part)) AgentRole (concat pieces)]"
    using n e1 by (simp add: cs_append_message_delta_def Let_def)
  finally have live: "cs_events i (pj_chat (fold (project_chat i ch) (map (delta_action part) pieces) ?s1)) =
      ?es @ ?user @ [MessageEv (Some (t @ '':'' @ part)) AgentRole (concat pieces)]"
    using started_action(2) [OF assms(1)] by (simp add: delta_actions [OF assms(2)])
  have "events_for_turn (snapshot_turn t m part (concat pieces)) ch =
      ?user @ [MessageEv (Some (t @ '':'' @ part)) AgentRole (concat pieces)]"
    using assms(1-3)
    by (simp add: events_for_turn_def snapshot_turn_def str_field_def string_value_def read_part_def record_value_def
        flush_markdown_def some_nonempty_def Let_def)
  then show ?thesis using live by (simp add: complete_action)
qed

theorem streamed_turn_equals_snapshot_witness:
  "let i = \<lparr>si_workspace = ''w'', si_resource = ''s''\<rparr>;
       s = \<lparr>pj_turns = [], pj_segments = [], pj_chat = new_chat_sessions None, pj_terminals = new_terminals (new_layout None), pj_resources = new_resources (new_detail_view None (new_layout None) [])\<rparr>
   in cs_events i (pj_chat (fold (project_chat i ''c'')
        ([turn_started_action ''t'' ''hi''] @ map (delta_action ''p'') [''a'', ''b''] @ [turn_complete_action]) s)) =
      events_for_turn (snapshot_turn ''t'' ''hi'' ''p'' ''ab'') ''c''"
proof -
  let ?i = "\<lparr>si_workspace = ''w'', si_resource = ''s''\<rparr>"
  let ?s = "\<lparr>pj_turns = [], pj_segments = [], pj_chat = new_chat_sessions None, pj_terminals = new_terminals (new_layout None), pj_resources = new_resources (new_detail_view None (new_layout None) [])\<rparr>"
  have e: "cs_events ?i (pj_chat ?s) = []" by (simp add: new_chat_sessions_def cs_events_def)
  have "list_all (\<lambda>e. \<not> message_with_id (''t'' @ '':user'') e \<and> \<not> agent_message (''t'' @ '':'' @ ''p'') e) (cs_events ?i (pj_chat ?s))"
    unfolding e by simp
  from streamed_turn_equals_snapshot [OF _ _ _ this, of "[''a'', ''b'']" "''c''" "''hi''"] show ?thesis
    unfolding Let_def e by simp
qed

section \<open>An error leaves the turn behind\<close>

text \<open>
  An error ends the turn in the conversation but not in the projection, which every other end
  of a turn does: the parts of what follows keep the id of the failed turn.
\<close>

theorem error_leaves_projection_turn:
  assumes "is_action ''chat/error'' a" and "str_field a ''toolCallId'' = []"
  shows "cs_active_turn i (pj_chat (project_chat i ch a s)) = None
    \<and> scoped_part_id ws c part (project_chat i ch a s) = scoped_part_id ws c part s
    \<and> (\<exists>e. cs_events i (pj_chat (project_chat i ch a s)) = cs_events i (pj_chat s) @ [ErrorEv e])"
proof -
  let ?e = "field a ''error''"
  let ?t = "or_str (str_field ?e ''message'') (string_value ?e)"
  let ?f = "\<lambda>c. cs_set_active_turn i None (cs_append_event i (ErrorEv (if ?t \<noteq> [] then Some ?t else stringify ?e)) c)"
  have p: "project_chat i ch a s = on_chat ?f s"
    using assms
    by (simp add: project_chat_def project_delta_def project_response_part_def project_turn_started_def
        project_turn_ended_def project_error_def project_tool_action_def is_action_def Let_def)
  have "cs_active_turn i (?f c) = None" "cs_events i (?f c) = cs_events i c @ [ErrorEv (if ?t \<noteq> [] then Some ?t else stringify ?e)]" for c
    by (simp_all add: cs_set_active_turn_def cs_active_turn_def Let_def cs_events_fire)
      (simp_all add: cs_append_event_def set_events_def cs_events_def)
  then show ?thesis unfolding p scoped_on_chat on_chat_fields by blast
qed

theorem error_leaves_projection_turn_witness:
  "let i = \<lparr>si_workspace = ''w'', si_resource = ''s''\<rparr>;
       s = \<lparr>pj_turns = [(turn_key ''w'' ''c'', ''t'')], pj_segments = [], pj_chat = new_chat_sessions None,
            pj_terminals = new_terminals (new_layout None), pj_resources = new_resources (new_detail_view None (new_layout None) [])\<rparr>;
       a = JObj [(''type'', JStr ''chat/error''), (''error'', JStr ''lost'')]
   in cs_active_turn i (pj_chat (project_chat i ''c'' a s)) = None
    \<and> scoped_part_id ''w'' ''c'' ''p'' (project_chat i ''c'' a s) = ''t:p''"
proof -
  let ?a = "JObj [(''type'', JStr ''chat/error''), (''error'', JStr ''lost'')]"
  have "is_action ''chat/error'' ?a" "str_field ?a ''toolCallId'' = []"
    by (simp_all add: is_action_def str_field_def string_value_def)
  from error_leaves_projection_turn [OF this, of "\<lparr>si_workspace = ''w'', si_resource = ''s''\<rparr>" "''c''"
      "\<lparr>pj_turns = [(turn_key ''w'' ''c'', ''t'')], pj_segments = [], pj_chat = new_chat_sessions None,
        pj_terminals = new_terminals (new_layout None), pj_resources = new_resources (new_detail_view None (new_layout None) [])\<rparr>" "''w''" "''c''" "''p''"]
  show ?thesis unfolding Let_def by (simp add: scoped_part_id_def)
qed

end
