(* ===== verification/SharedTerminals.thy ===== *)
theory SharedTerminals
  imports AHPClient
begin

text \<open>
  The terminals that the client of the agent host and the terminal service share.

  \<open>AHPClient.attachTerminal\<close> and \<open>listTerminals\<close> (\<open>providers/ahp/ahp-client.ts\<close>) return the
  objects the client keeps and changes in place; \<open>TerminalService.reattach\<close>
  (\<open>contrib/terminal/terminal-service.ts\<close>) keeps the objects it gets, and
  \<open>appendOutput\<close> replaces an object by a changed copy.  Here the service holds addresses in the
  client's store; \<open>Terminal\<close> is the same service on values.
\<close>

section \<open>The service on addresses\<close>

record shared_terminals =
  sv_client :: client
  sv_terminals :: "nat list"

definition object_at :: "shared_terminals \<Rightarrow> nat \<Rightarrow> agent_terminal" where
  "object_at s k = ac_heap (sv_client s) ! k"

text \<open>What the views read.\<close>

definition sv_values :: "shared_terminals \<Rightarrow> agent_terminal list" where
  "sv_values s = map (object_at s) (sv_terminals s)"

definition sv_reattach :: "nat list \<Rightarrow> shared_terminals \<Rightarrow> shared_terminals" where
  "sv_reattach ks s = s\<lparr>sv_terminals := ks\<rparr>"

text \<open>
  Where the objects of \<open>Terminal.append_output\<close> live: the terminals of the resource are appended to in a
  new object, the others stay the objects they are.
\<close>

fun sv_map :: "string \<Rightarrow> string \<Rightarrow> nat list \<Rightarrow> client \<Rightarrow> client \<times> nat list" where
  "sv_map r data [] c = (c, [])"
| "sv_map r data (k # ks) c =
     (let t = ac_heap c ! k;
          (c1, k1) = (if tl_resource t = r then alloc (appended r data t) c else (c, k));
          (c2, ks2) = sv_map r data ks c1
      in (c2, k1 # ks2))"

definition sv_append :: "string \<Rightarrow> string \<Rightarrow> shared_terminals \<Rightarrow> shared_terminals" where
  "sv_append r data s =
     (if data = [] then s
      else case sv_map r data (sv_terminals s) (sv_client s) of
          (c, ks) \<Rightarrow> s\<lparr>sv_client := c, sv_terminals := ks\<rparr>)"

text \<open>
  A \<open>terminal/data\<close> action of the host: the client changes its object, then its listeners run,
  the last of which is the projection's call of \<open>appendOutput\<close>.
\<close>

definition data_action :: "string \<Rightarrow> string \<Rightarrow> json" where
  "data_action r data = envelope r (JObj [(''type'', JStr ''terminal/data''), (''data'', JStr data)]) (JNum 0)"

definition deliver_data :: "string \<Rightarrow> string \<Rightarrow> shared_terminals \<Rightarrow> shared_terminals" where
  "deliver_data r data s =
     sv_append r data (s\<lparr>sv_client := emit_action (data_action r data) (apply_terminal_action (data_action r data) (sv_client s))\<rparr>)"

section \<open>On values\<close>

definition in_heap :: "shared_terminals \<Rightarrow> bool" where
  "in_heap s \<longleftrightarrow> list_all (\<lambda>k. k < length (ac_heap (sv_client s))) (sv_terminals s)"

lemma sv_map_values:
  "sv_map r data ks c = (c', ks') \<Longrightarrow> list_all (\<lambda>k. k < length (ac_heap c)) ks \<Longrightarrow>
   (\<exists>xs. ac_heap c' = ac_heap c @ xs) \<and> list_all (\<lambda>k. k < length (ac_heap c')) ks' \<and>
   map (\<lambda>k. ac_heap c' ! k) ks' = map (\<lambda>k. appended r data (ac_heap c ! k)) ks"
proof (induction ks arbitrary: c c' ks')
  case (Cons k ks)
  let ?t = "ac_heap c ! k"
  obtain c1 k1 where a: "(if tl_resource ?t = r then alloc (appended r data ?t) c else (c, k)) = (c1, k1)"
    by fastforce
  obtain c2 ks2 where m: "sv_map r data ks c1 = (c2, ks2)" by fastforce
  have r: "c' = c2" "ks' = k1 # ks2" using Cons.prems(1) a m by (auto simp: Let_def)
  have h: "(\<exists>xs. ac_heap c1 = ac_heap c @ xs) \<and> k1 < length (ac_heap c1) \<and> ac_heap c1 ! k1 = appended r data ?t"
    using a Cons.prems(2) by (auto simp: alloc_def appended_def split: if_splits)
  then obtain xs where xs: "ac_heap c1 = ac_heap c @ xs" by blast
  have l: "list_all (\<lambda>k. k < length (ac_heap c1)) ks" using Cons.prems(2) xs by (auto simp: list_all_iff)
  have old: "map (\<lambda>k. appended r data (ac_heap c1 ! k)) ks = map (\<lambda>k. appended r data (ac_heap c ! k)) ks"
    using Cons.prems(2) xs by (auto simp: list_all_iff nth_append)
  from Cons.IH [OF m l] obtain ys where ys: "ac_heap c2 = ac_heap c1 @ ys" "list_all (\<lambda>k. k < length (ac_heap c2)) ks2"
      "map (\<lambda>k. ac_heap c2 ! k) ks2 = map (\<lambda>k. appended r data (ac_heap c1 ! k)) ks"
    by blast
  then show ?case using h r old xs by (auto simp: nth_append)
qed simp

lemma sv_values_heap: "sv_values s = map ((!) (ac_heap (sv_client s))) (sv_terminals s)"
  by (simp add: sv_values_def object_at_def)

lemma sv_append_values: "in_heap s \<Longrightarrow> in_heap (sv_append r data s) \<and>
  sv_values (sv_append r data s) = (if data = [] then sv_values s else map (appended r data) (sv_values s)) \<and>
  (\<exists>xs. ac_heap (sv_client (sv_append r data s)) = ac_heap (sv_client s) @ xs)"
proof -
  assume i: "in_heap s"
  obtain c ks where m: "sv_map r data (sv_terminals s) (sv_client s) = (c, ks)" by fastforce
  from sv_map_values [OF m] i show ?thesis
    by (auto simp: sv_append_def m in_heap_def sv_values_heap o_def)
qed

text \<open>On the objects it holds the service shows what the service on values shows.\<close>

lemma shared_append_refines:
  "in_heap s \<Longrightarrow> tm_terminals v = sv_values s \<Longrightarrow>
   sv_values (sv_append r data s) = tm_terminals (append_output r data v) \<and> in_heap (sv_append r data s)"
  using sv_append_values [of s r data] by (simp add: append_output_def tm_fire_def)

section \<open>The first output after a reattachment appears twice\<close>

lemma data_action_known:
  "om_get (ac_terminals c) r = Some k \<Longrightarrow>
   apply_terminal_action (data_action r data) c =
     c\<lparr>ac_heap := (ac_heap c)[k := (ac_heap c ! k)\<lparr>tl_output := tl_output (ac_heap c ! k) @ data\<rparr>]\<rparr>"
  by (simp add: apply_terminal_action_def data_action_def envelope_def str_field_def string_value_def Let_def)

text \<open>
  C40: the object that attaching to a terminal returns is the one the client goes on changing.
  Once the service holds it, the first output of the terminal is appended by the client and
  appended again by the service, so that it is shown twice; from the second output on the service
  has a copy of its own and appends once.
\<close>

theorem first_output_after_reattach_is_doubled:
  assumes "\<not> nullish v" and "c = resume n (AttachTerminalTask r) v c0"
    and "snd (last (ac_settled c)) = Inr (TerminalValue k)" and "d1 \<noteq> []" and "d2 \<noteq> []"
  shows "let s = sv_reattach [k] \<lparr>sv_client = c, sv_terminals = []\<rparr>; out = tl_output (object_at s k);
             s1 = deliver_data r d1 s; s2 = deliver_data r d2 s1
    in map tl_output (sv_values s1) = [out @ d1 @ d1] \<and> map tl_output (sv_values s2) = [out @ d1 @ d1 @ d2] \<and>
       tl_output (object_at s2 k) = out @ d1 @ d2"
proof -
  let ?state = "field (field v ''snapshot'') ''state''"
  let ?title = "case field ?state ''title'' of JStr t \<Rightarrow> t
    | _ \<Rightarrow> (case om_get (ac_terminals c0) r of None \<Rightarrow> ''Terminal'' | Some k \<Rightarrow> tl_title (ac_heap c0 ! k))"
  let ?t = "\<lparr>tl_resource = r, tl_title = ?title, tl_output = terminal_output (field ?state ''content'')\<rparr>"
  have h: "ac_heap c = ac_heap c0 @ [?t]" "om_get (ac_terminals c) r = Some (length (ac_heap c0))"
      "last (ac_settled c) = (n, Inr (TerminalValue (length (ac_heap c0))))"
    using assms(1,2) by (simp_all add: set_terminal_def alloc_def settle_def dispatch_def send_def Let_def)
  then have k: "k = length (ac_heap c0)" using assms(3) by simp
  let ?s = "\<lparr>sv_client = c, sv_terminals = [k]\<rparr>"
  let ?u = "?t\<lparr>tl_output := tl_output ?t @ d1\<rparr>"
  let ?w = "?t\<lparr>tl_output := tl_output ?t @ d1 @ d1\<rparr>"
  have s1: "ac_heap (sv_client (deliver_data r d1 ?s)) = ac_heap c0 @ [?u, ?w]" "sv_terminals (deliver_data r d1 ?s) = [Suc k]"
      "ac_terminals (sv_client (deliver_data r d1 ?s)) = ac_terminals c"
    using assms(4) h k by (simp_all add: deliver_data_def data_action_known sv_append_def appended_def alloc_def emit_action_def nth_append Let_def)
  let ?s1 = "deliver_data r d1 ?s"
  have s2: "ac_heap (sv_client (deliver_data r d2 ?s1)) =
        ac_heap c0 @ [?u\<lparr>tl_output := tl_output ?u @ d2\<rparr>, ?w, ?w\<lparr>tl_output := tl_output ?w @ d2\<rparr>]"
      "sv_terminals (deliver_data r d2 ?s1) = [Suc (Suc k)]"
    using assms(5) h k s1
    by (simp_all add: deliver_data_def [of r d2] data_action_known sv_append_def appended_def alloc_def emit_action_def nth_append list_update_append Let_def)
  show ?thesis
    using k h s1 s2 by (simp add: sv_reattach_def sv_values_def object_at_def nth_append Let_def)
qed

theorem first_output_after_reattach_is_doubled_witness:
  "let c = resume 1 (AttachTerminalTask ''t'') (JObj []) (new_client ''c'');
       s1 = deliver_data ''t'' ''ab'' (sv_reattach [0] \<lparr>sv_client = c, sv_terminals = []\<rparr>)
   in map tl_output (sv_values s1) = [''abab'']"
proof -
  let ?c = "resume 1 (AttachTerminalTask ''t'') (JObj []) (new_client ''c'')"
  have n: "\<not> nullish (JObj [])" by (simp add: nullish_def)
  have k: "snd (last (ac_settled ?c)) = Inr (TerminalValue 0)" and o: "ac_heap ?c = [\<lparr>tl_resource = ''t'', tl_title = ''Terminal'', tl_output = []\<rparr>]"
    by (simp_all add: n set_terminal_def alloc_def settle_def dispatch_def send_def new_client_def send_request_def Let_def terminal_output_def)
  show ?thesis
    using first_output_after_reattach_is_doubled [OF n refl k, of "''ab''" "''c''"] o
    by (simp add: Let_def object_at_def sv_reattach_def)
qed

end
