(* ===== verification/Transcript.thy ===== *)
theory Transcript
  imports Markdown ChatSession
begin

text \<open>
  The conversation as it is shown: \<open>contrib/sessions/session-event-renderer.ts\<close>,
  \<open>conversation-transcript.ts\<close>, \<open>chat-input-lanes.ts\<close> and \<open>ActiveSessionView.refresh\<close>.
  An event object is a number, and \<open>ev\<close> gives its value, which never changes; so the comparison
  \<open>===\<close> of events is the equality of numbers.  A row is a node with its identity and its tree.
  The markdown parser is the parameter \<open>parse\<close> of \<open>Markdown\<close>.
\<close>

section \<open>Rendering one event\<close>

definition button_widget :: "string \<Rightarrow> string \<Rightarrow> string \<Rightarrow> string \<Rightarrow> string \<Rightarrow> string \<Rightarrow> bool \<Rightarrow> dom" where
  "button_widget variant cls label icon text x disabled =
     (let b = create_element ''button''
            (join_str '' '' (filter (\<lambda>w. w \<noteq> []) [''zaw-button'', if variant = ''primary'' then ''zaw-button-primary'' else [], cls]))
            [] label None;
          b1 = with_attr ''type'' ''button'' b;
          b2 = if disabled then with_attr ''disabled'' [] b1 else b1;
          b3 = if x = [] then b2 else with_attr ''value'' x b2
      in with_kids
           ((if icon = [] then [] else [create_element ''span'' (''codicon codicon-'' @ icon) [] [] None]) @
            (if text = [] then [] else [create_element ''span'' [] [] [] (Some text)])) b3)"

definition dialog_button :: "string \<Rightarrow> string \<Rightarrow> string \<Rightarrow> click \<Rightarrow> dom" where
  "dialog_button variant label text q =
     with_kids [with_click q (button_widget variant [] label [] text [] False)] (create_element ''span'' [] [] [] None)"

fun role_text :: "chat_role \<Rightarrow> string" where
  "role_text UserRole = ''user''"
| "role_text AgentRole = ''agent''"

fun level_text :: "notice_level \<Rightarrow> string" where
  "level_text NoticeError = ''error''"
| "level_text NoticeInfo = ''info''"
| "level_text NoticeWarning = ''warning''"

text \<open>\<open>`${x}`\<close> of an optional text.\<close>

definition shown_text :: "string option \<Rightarrow> string" where
  "shown_text x = (case x of None \<Rightarrow> ''undefined'' | Some t \<Rightarrow> t)"

definition message_label :: "chat_role \<Rightarrow> string \<Rightarrow> string" where
  "message_label r t = (if r = UserRole then ''You'' else ''Agent'') @ '': '' @ t"

definition message_class :: "chat_role \<Rightarrow> string" where
  "message_class r = ''session-event message '' @ role_text r"

definition render_message :: "(string \<Rightarrow> dom list) \<Rightarrow> chat_role \<Rightarrow> string \<Rightarrow> dom" where
  "render_message parse r t =
     with_kids [with_kids (render_markdown parse t) (create_element ''div'' ''markdown-body'' [] [] None)]
       (create_element ''article'' (message_class r) [] (message_label r t) None)"

definition tool_state_icon :: "string \<Rightarrow> string" where
  "tool_state_icon st =
     (if st = ''completed'' \<or> st = ''approved'' then ''check''
      else if st = ''failed'' \<or> st = ''denied'' then ''error''
      else if st = ''running'' \<or> st = ''streaming'' then ''loading'' else ''tools'')"

definition expando :: dom where
  "expando = create_element ''span'' ''codicon codicon-chevron-right tool-expando'' [] [] None"

definition render_tool :: "string \<Rightarrow> string option \<Rightarrow> string option \<Rightarrow> string \<Rightarrow> dom" where
  "render_tool title summary detail st =
     with_kids
       [with_kids
          [create_element ''span'' (''codicon codicon-'' @ tool_state_icon st @ '' tool-icon'') [] [] None,
           create_element ''span'' ''tool-title'' [] [] (Some title),
           with_attr ''title'' (case summary of None \<Rightarrow> [] | Some t \<Rightarrow> t) (create_element ''span'' ''tool-summary'' [] [] summary),
           create_element ''span'' ''tool-state'' [] [] (Some st), expando]
          (create_element ''summary'' [] [] (title @ '', '' @ st) None),
        create_element ''div'' ''tool-detail'' [] [] detail]
       (create_element ''details'' (''session-event tool-event state-'' @ st) [] [] None)"

text \<open>An approval always has a text (\<open>approval_text_is_never_empty\<close>).\<close>

definition approval_line :: "string \<Rightarrow> dom" where
  "approval_line l =
     (if starts_with ''$ '' l
      then with_kids [create_element ''span'' ''codicon codicon-terminal'' [] [] None, create_element ''code'' [] [] [] (Some (drop 2 l))]
             (create_element ''div'' ''approval-command'' [] [] None)
      else create_element ''div'' ''approval-description'' [] [] (Some l))"

fun approval_text :: "approval_state \<Rightarrow> string" where
  "approval_text Pending = ''pending''"
| "approval_text Approved = ''approved''"
| "approval_text Denied = ''denied''"

definition render_approval :: "string \<Rightarrow> string \<Rightarrow> string \<Rightarrow> string option \<Rightarrow> approval_state \<Rightarrow> dom" where
  "render_approval action call title detail st =
     (let lines = filter (\<lambda>l. l \<noteq> []) (split_by (\<lambda>c. c = CHR 0x0A) (case detail of None \<Rightarrow> [] | Some t \<Rightarrow> t));
          header = with_kids [create_element ''span'' ''codicon codicon-shield approval-icon'' [] [] None,
                              create_element ''span'' [] [] [] (Some title)] (create_element ''header'' ''approval-title'' [] [] None);
          buttons = (if st = Pending
                     then [dialog_button ''primary'' (''Allow '' @ title) ''Allow'' (ConfirmToolCall action call True),
                           dialog_button [] (''Deny '' @ title) ''Deny'' (ConfirmToolCall action call False)]
                     else [create_element ''span'' ''approval-state'' [] []
                             (Some (if st = Approved then ''Allowed'' else ''Denied''))])
      in with_kids [header, with_kids (map approval_line lines) (create_element ''div'' ''approval-message'' [] [] None),
                    with_kids buttons (create_element ''footer'' ''approval-buttons'' [] [] None)]
           (with_attr ''tabindex'' ''0''
              (create_element ''div'' (''session-event approval-event state-'' @ approval_text st) ''group''
                (''Chat confirmation dialog '' @ title @ '' '' @ shown_text detail) None)))"

definition notice_class :: "notice_level \<Rightarrow> string" where
  "notice_class l = ''session-event notification state-'' @ level_text l"

definition notice_role :: "notice_level \<Rightarrow> string" where
  "notice_role l = (if l = NoticeError then ''alert'' else ''status'')"

fun render_session_event :: "(string \<Rightarrow> dom list) \<Rightarrow> chat_event \<Rightarrow> dom" where
  "render_session_event parse (MessageEv i r t) = render_message parse r t"
| "render_session_event parse (ToolEv c title summary detail st) = render_tool title summary detail st"
| "render_session_event parse (ApprovalEv a c title summary detail st) = render_approval a c title detail st"
| "render_session_event parse (NoticeEv l t) =
     create_element ''div'' (notice_class l) (notice_role l) (level_text l @ '': '' @ t) (Some t)"
| "render_session_event parse (ErrorEv t) =
     create_element ''div'' ''session-event error'' ''alert'' (''Error: '' @ shown_text t) t"

text \<open>\<open>updateSessionEvent\<close>: the element after the update, \<open>None\<close> where it has to be replaced.\<close>

fun update_session_event :: "(string \<Rightarrow> dom list) \<Rightarrow> dom \<Rightarrow> chat_event \<Rightarrow> dom option" where
  "update_session_event parse d (NoticeEv l t) =
     (if has_class ''session-event'' d \<and> has_class ''notification'' d
      then Some (with_kids (text_kids t) (with_attr ''role'' (notice_role l)
             (with_attr ''aria-label'' (level_text l @ '': '' @ t) (with_class (notice_class l) d))))
      else None)"
| "update_session_event parse d (MessageEv i r t) =
     (let e = with_attr ''aria-label'' (message_label r t) (with_class (message_class r) d)
      in if has_class ''session-event'' d \<and> has_class ''message'' d \<and> list_ex (some_dom (has_class ''markdown-body'')) (kids_of d)
         then Some (with_kids (edit_first (has_class ''markdown-body'') (\<lambda>b. [with_kids (render_markdown parse t) b]) (kids_of d)) e)
         else None)"
| "update_session_event parse d _ = None"

section \<open>Groups of tool calls\<close>

definition tool_state :: "chat_event \<Rightarrow> string" where
  "tool_state e = (case e of ToolEv c title summary detail st \<Rightarrow> st | _ \<Rightarrow> [])"

definition is_tool :: "chat_event \<Rightarrow> bool" where
  "is_tool e \<longleftrightarrow> (case e of ToolEv c title summary detail st \<Rightarrow> True | _ \<Rightarrow> False)"

definition group_running :: "chat_event list \<Rightarrow> bool" where
  "group_running es \<longleftrightarrow> list_ex (\<lambda>e. tool_state e \<in> {''pending'', ''running'', ''streaming''}) es"

definition group_failed :: "chat_event list \<Rightarrow> nat" where
  "group_failed es = length (filter (\<lambda>e. tool_state e = ''failed'') es)"

definition group_label :: "chat_event list \<Rightarrow> string" where
  "group_label es =
     (if group_running es then ''Running '' @ show_nat (length es) @ '' steps''
      else ''Completed '' @ show_nat (length es) @ '' steps'' @
        (if group_failed es \<noteq> 0 then '', '' @ show_nat (group_failed es) @ '' failed'' else []))"

definition group_class :: "chat_event list \<Rightarrow> string" where
  "group_class es = ''session-event tool-event-group'' @ (if group_running es then '' state-running'' else [])"

definition group_kids :: "(string \<Rightarrow> dom list) \<Rightarrow> chat_event list \<Rightarrow> dom list" where
  "group_kids parse es =
     [with_kids
        [create_element ''span'' (''codicon codicon-'' @ (if group_running es then ''loading'' else if group_failed es \<noteq> 0 then ''error'' else ''check'') @ '' tool-icon'') [] [] None,
         create_element ''span'' ''tool-group-title'' [] [] (Some (group_label es)), expando]
        (create_element ''summary'' [] [] [] None),
      with_kids (map (render_session_event parse) es) (create_element ''div'' ''tool-group-items'' [] [] None)]"

definition render_tool_group :: "(string \<Rightarrow> dom list) \<Rightarrow> chat_event list \<Rightarrow> dom" where
  "render_tool_group parse es = with_kids (group_kids parse es) (create_element ''details'' (group_class es) [] (group_label es) None)"

definition update_tool_group :: "(string \<Rightarrow> dom list) \<Rightarrow> dom \<Rightarrow> chat_event list \<Rightarrow> dom option" where
  "update_tool_group parse d es =
     (if has_class ''session-event'' d \<and> has_class ''tool-event-group'' d
      then (let r = render_tool_group parse es
            in Some (with_kids (kids_of r)
                 (with_attr ''aria-label'' (case get_attr ''aria-label'' r of None \<Rightarrow> [] | Some l \<Rightarrow> l) (with_class (el_class r) d))))
      else None)"

text \<open>Two or more tool calls in a row are one item.\<close>

datatype conversation_item = SingleItem nat | ToolGroup "nat list"

lemma dropWhile_shorter [termination_simp]: "length (dropWhile P xs) < Suc (length xs)"
  by (simp add: le_imp_less_Suc length_dropWhile_le)

fun conversation_items :: "(nat \<Rightarrow> chat_event) \<Rightarrow> nat list \<Rightarrow> conversation_item list" where
  "conversation_items ev [] = []"
| "conversation_items ev (e # es) =
     (if \<not> is_tool (ev e) then SingleItem e # conversation_items ev es
      else (let tools = e # takeWhile (\<lambda>x. is_tool (ev x)) es
            in (if 1 < length tools then ToolGroup tools else SingleItem e)
                 # conversation_items ev (dropWhile (\<lambda>x. is_tool (ev x)) es)))"

fun render_item :: "(string \<Rightarrow> dom list) \<Rightarrow> (nat \<Rightarrow> chat_event) \<Rightarrow> conversation_item \<Rightarrow> dom" where
  "render_item parse ev (SingleItem e) = render_session_event parse (ev e)"
| "render_item parse ev (ToolGroup es) = render_tool_group parse (map ev es)"

fun update_item :: "(string \<Rightarrow> dom list) \<Rightarrow> (nat \<Rightarrow> chat_event) \<Rightarrow> dom \<Rightarrow> conversation_item \<Rightarrow> dom option" where
  "update_item parse ev d (SingleItem e) = update_session_event parse d (ev e)"
| "update_item parse ev d (ToolGroup es) = update_tool_group parse d (map ev es)"

text \<open>\<open>===\<close>: every projection makes new groups.\<close>

fun same_item :: "conversation_item \<Rightarrow> conversation_item \<Rightarrow> bool" where
  "same_item (SingleItem a) (SingleItem b) \<longleftrightarrow> a = b"
| "same_item _ _ \<longleftrightarrow> False"

section \<open>The lists of rows\<close>

text \<open>\<open>ComposerPersistentLane\<close> and \<open>InterruptionLane\<close>.\<close>

record lane =
  la_rows :: "dom obj list"
  la_rendered :: "nat list"
  la_hidden :: bool
  la_next :: nat

definition new_lane :: "bool \<Rightarrow> lane" where
  "new_lane hidden = \<lparr>la_rows = [], la_rendered = [], la_hidden = hidden, la_next = 0\<rparr>"

text \<open>
  One row of the loop: \<open>old\<close> is the event that was rendered at this index, \<open>n\<close> the next node.
\<close>

definition lane_row :: "(string \<Rightarrow> dom list) \<Rightarrow> (nat \<Rightarrow> chat_event) \<Rightarrow> nat \<Rightarrow> nat option \<Rightarrow> dom obj option \<Rightarrow> nat \<Rightarrow> dom obj" where
  "lane_row parse ev n old row e =
     (case row of None \<Rightarrow> Obj n (render_session_event parse (ev e))
      | Some r \<Rightarrow>
          if old = Some e then r
          else (case update_session_event parse (val r) (ev e) of
                  Some d \<Rightarrow> Obj (oid r) d
                | None \<Rightarrow> Obj n (render_session_event parse (ev e))))"

definition lane_update :: "(string \<Rightarrow> dom list) \<Rightarrow> (nat \<Rightarrow> chat_event) \<Rightarrow> nat list \<Rightarrow> lane \<Rightarrow> lane" where
  "lane_update parse ev es s =
     s\<lparr>la_rows := map (\<lambda>k. lane_row parse ev (la_next s + k) (at_index (la_rendered s) k) (at_index (la_rows s) k) (es ! k)) [0..<length es],
       la_rendered := es, la_hidden := (es = []), la_next := la_next s + length es\<rparr>"

text \<open>\<open>ConversationTranscript\<close>; the content holds the rows or the text of an empty conversation.\<close>

record transcript =
  tr_content :: "dom obj list"
  tr_rendered :: "conversation_item list"
  tr_auto_scroll :: bool
  tr_button_hidden :: bool
  tr_scroll_top :: int
  tr_frames :: nat
  tr_next :: nat

definition new_transcript :: transcript where
  "new_transcript = \<lparr>tr_content = [], tr_rendered = [], tr_auto_scroll = True, tr_button_hidden = True,
     tr_scroll_top = 0, tr_frames = 0, tr_next = 0\<rparr>"

definition empty_conversation :: dom where
  "empty_conversation = create_element ''p'' ''agent-conversation-empty'' [] [] (Some ''Start a conversation with your agent.'')"

definition append_node :: "dom \<Rightarrow> transcript \<Rightarrow> transcript" where
  "append_node d s = s\<lparr>tr_content := tr_content s @ [Obj (tr_next s) d], tr_next := Suc (tr_next s)\<rparr>"

definition put_node :: "nat \<Rightarrow> dom obj \<Rightarrow> transcript \<Rightarrow> transcript" where
  "put_node i d s = s\<lparr>tr_content := map (\<lambda>x. if oid x = i then d else x) (tr_content s)\<rparr>"

definition remove_node :: "nat \<Rightarrow> transcript \<Rightarrow> transcript" where
  "remove_node i s = s\<lparr>tr_content := filter (\<lambda>x. oid x \<noteq> i) (tr_content s)\<rparr>"

text \<open>The first loop, over the indices that both lists have.\<close>

fun sync_rows :: "(string \<Rightarrow> dom list) \<Rightarrow> (nat \<Rightarrow> chat_event) \<Rightarrow> conversation_item list \<Rightarrow> conversation_item list \<Rightarrow> dom obj list \<Rightarrow> transcript \<Rightarrow> transcript" where
  "sync_rows parse ev (r # rs) (x # xs) es s =
     sync_rows parse ev rs xs (tl es)
       (if same_item r x then s
        else (case es of [] \<Rightarrow> s
              | e # _ \<Rightarrow>
                  (case update_item parse ev (val e) x of
                     Some d \<Rightarrow> put_node (oid e) (Obj (oid e) d) s
                   | None \<Rightarrow> (put_node (oid e) (Obj (tr_next s) (render_item parse ev x)) s)\<lparr>tr_next := Suc (tr_next s)\<rparr>)))"
| "sync_rows parse ev rs xs es s = s"

text \<open>\<open>querySelector(c)?.remove()\<close> on the content.\<close>

fun remove_first_class :: "string \<Rightarrow> dom obj list \<Rightarrow> dom obj list" where
  "remove_first_class c [] = []"
| "remove_first_class c (x # xs) =
     (if has_class c (val x) then xs
      else if list_ex (some_dom (has_class c)) (kids_of (val x))
      then Obj (oid x) (with_kids (edit_first (has_class c) (\<lambda>_. []) (kids_of (val x))) (val x)) # xs
      else x # remove_first_class c xs)"

definition update_scroll_button :: "int \<Rightarrow> int \<Rightarrow> transcript \<Rightarrow> transcript" where
  "update_scroll_button scroll_height client_height s =
     s\<lparr>tr_button_hidden := (tr_auto_scroll s \<or> scroll_height \<le> client_height)\<rparr>"

text \<open>\<open>scrollToBottom\<close>; the browser limits the position.\<close>

definition scroll_to_bottom :: "int \<Rightarrow> int \<Rightarrow> transcript \<Rightarrow> transcript" where
  "scroll_to_bottom scroll_height client_height s =
     update_scroll_button scroll_height client_height
       (s\<lparr>tr_scroll_top := max 0 (scroll_height - client_height), tr_auto_scroll := True\<rparr>)"

text \<open>A scroll event: \<open>updateScrollState\<close>.\<close>

definition transcript_scrolled :: "int \<Rightarrow> int \<Rightarrow> int \<Rightarrow> transcript \<Rightarrow> transcript" where
  "transcript_scrolled scroll_top scroll_height client_height s =
     update_scroll_button scroll_height client_height
       (s\<lparr>tr_scroll_top := scroll_top, tr_auto_scroll := (scroll_height - scroll_top - client_height < 48)\<rparr>)"

definition transcript_update ::
  "(string \<Rightarrow> dom list) \<Rightarrow> (nat \<Rightarrow> chat_event) \<Rightarrow> int \<Rightarrow> int \<Rightarrow> nat list \<Rightarrow> transcript \<Rightarrow> transcript" where
  "transcript_update parse ev scroll_height client_height events s =
     (let items = conversation_items ev events;
          existing = filter (\<lambda>x. has_class ''session-event'' (val x)) (tr_content s);
          common = min (length (tr_rendered s)) (length items);
          s1 = sync_rows parse ev (tr_rendered s) items existing s;
          s2 = fold (\<lambda>x. append_node (render_item parse ev x)) (drop common items) s1;
          s3 = fold (\<lambda>x. remove_node (oid x)) (drop (length items) existing) s2;
          s4 = (if events = [] \<and> tr_content s3 = [] then append_node empty_conversation s3
                else s3\<lparr>tr_content := remove_first_class ''agent-conversation-empty'' (tr_content s3)\<rparr>);
          s5 = s4\<lparr>tr_rendered := items\<rparr>
      in if tr_auto_scroll s5 then s5\<lparr>tr_frames := Suc (tr_frames s5)\<rparr> else update_scroll_button scroll_height client_height s5)"

text \<open>The frame that an update asks for scrolls to the bottom.\<close>

definition transcript_frame :: "int \<Rightarrow> int \<Rightarrow> transcript \<Rightarrow> transcript" where
  "transcript_frame scroll_height client_height s =
     (if tr_frames s = 0 then s else scroll_to_bottom scroll_height client_height (s\<lparr>tr_frames := tr_frames s - 1\<rparr>))"

text \<open>
  \<open>ActiveSessionView.refresh\<close>: approvals and notifications are shown in lanes of their own.
\<close>

record session_view =
  vw_transcript :: transcript
  vw_persistent :: lane
  vw_interruption :: lane

definition is_notice :: "chat_event \<Rightarrow> bool" where
  "is_notice e \<longleftrightarrow> (case e of NoticeEv l t \<Rightarrow> True | _ \<Rightarrow> False)"

definition is_approval :: "chat_event \<Rightarrow> bool" where
  "is_approval e \<longleftrightarrow> (case e of ApprovalEv a c title summary detail st \<Rightarrow> True | _ \<Rightarrow> False)"

definition pending_approval :: "chat_event \<Rightarrow> bool" where
  "pending_approval e \<longleftrightarrow> (case e of ApprovalEv a c title summary detail st \<Rightarrow> st = Pending | _ \<Rightarrow> False)"

definition shown_events :: "(nat \<Rightarrow> chat_event) \<Rightarrow> nat list \<Rightarrow> nat list" where
  "shown_events ev es = filter (\<lambda>e. \<not> is_approval (ev e) \<and> \<not> is_notice (ev e)) es"

definition session_refresh ::
  "(string \<Rightarrow> dom list) \<Rightarrow> (nat \<Rightarrow> chat_event) \<Rightarrow> int \<Rightarrow> int \<Rightarrow> nat list \<Rightarrow> session_view \<Rightarrow> session_view" where
  "session_refresh parse ev scroll_height client_height es s =
     s\<lparr>vw_transcript := transcript_update parse ev scroll_height client_height (shown_events ev es) (vw_transcript s),
       vw_persistent := lane_update parse ev (filter (\<lambda>e. is_notice (ev e)) es) (vw_persistent s),
       vw_interruption := lane_update parse ev (filter (\<lambda>e. pending_approval (ev e)) es) (vw_interruption s)\<rparr>"

definition new_session_view :: session_view where
  "new_session_view = \<lparr>vw_transcript = new_transcript, vw_persistent = new_lane False, vw_interruption = new_lane True\<rparr>"

text \<open>What happens to a view: refreshes, scrolling, frames, and the user opening a row's details.\<close>

datatype view_op =
    Refresh int int "nat list"
  | Scrolled int int int
  | Frame int int
  | ScrollDown int int
  | Toggle nat "nat list"

definition toggle_rows :: "nat \<Rightarrow> nat list \<Rightarrow> dom obj list \<Rightarrow> dom obj list" where
  "toggle_rows i p = map (\<lambda>x. if oid x = i then Obj i (toggle_at p (val x)) else x)"

fun apply_view :: "(string \<Rightarrow> dom list) \<Rightarrow> (nat \<Rightarrow> chat_event) \<Rightarrow> view_op \<Rightarrow> session_view \<Rightarrow> session_view" where
  "apply_view parse ev (Refresh h c es) s = session_refresh parse ev h c es s"
| "apply_view parse ev (Scrolled t h c) s = s\<lparr>vw_transcript := transcript_scrolled t h c (vw_transcript s)\<rparr>"
| "apply_view parse ev (Frame h c) s = s\<lparr>vw_transcript := transcript_frame h c (vw_transcript s)\<rparr>"
| "apply_view parse ev (ScrollDown h c) s = s\<lparr>vw_transcript := scroll_to_bottom h c (vw_transcript s)\<rparr>"
| "apply_view parse ev (Toggle i p) s =
     s\<lparr>vw_transcript := (vw_transcript s)\<lparr>tr_content := toggle_rows i p (tr_content (vw_transcript s))\<rparr>\<rparr>"

section \<open>An updated row is a fresh row\<close>

definition plain_event :: "chat_event \<Rightarrow> bool" where
  "plain_event e \<longleftrightarrow> list_all (\<lambda>c. \<not> html_space c) (tool_state e)"

lemma tool_classes:
  assumes "list_all (\<lambda>c. \<not> html_space c) st"
  shows "class_list (''session-event tool-event state-'' @ st) = [''session-event'', ''tool-event'', ''state-'' @ st]"
proof -
  have "split_by html_space st = [st]" using assms by (simp add: split_by_no_sep list_all_iff)
  then show ?thesis by (simp add: class_list_def html_space_def)
qed

lemma message_classes: "class_list (message_class r) = [''session-event'', ''message'', role_text r]"
  by (cases r) (simp_all add: message_class_def class_list_def html_space_def)

lemma notice_classes: "class_list (notice_class l) = [''session-event'', ''notification'', ''state-'' @ level_text l]"
  by (cases l) (simp_all add: notice_class_def class_list_def html_space_def)

lemma group_classes:
  "class_list (group_class es) = [''session-event'', ''tool-event-group''] @ (if group_running es then [''state-running''] else [])"
  by (simp add: group_class_def class_list_def html_space_def)

lemma approval_classes:
  "class_list (''session-event approval-event state-'' @ approval_text st) = [''session-event'', ''approval-event'', ''state-'' @ approval_text st]"
  by (cases st) (simp_all add: class_list_def html_space_def)

lemma error_classes: "class_list ''session-event error'' = [''session-event'', ''error'']"
  by (simp add: class_list_def html_space_def)

fun root_classes :: "chat_event \<Rightarrow> string list" where
  "root_classes (MessageEv i r t) = [''session-event'', ''message'', role_text r]"
| "root_classes (ToolEv c title summary detail st) = [''session-event'', ''tool-event'', ''state-'' @ st]"
| "root_classes (ApprovalEv a c title summary detail st) = [''session-event'', ''approval-event'', ''state-'' @ approval_text st]"
| "root_classes (NoticeEv l t) = [''session-event'', ''notification'', ''state-'' @ level_text l]"
| "root_classes (ErrorEv t) = [''session-event'', ''error'']"

lemma plain_tool [simp]: "plain_event (ToolEv c title summary detail st) = list_all (\<lambda>c. \<not> html_space c) st"
  by (simp add: plain_event_def tool_state_def)

lemma event_classes: "plain_event e \<Longrightarrow> has_class n (render_session_event parse e) \<longleftrightarrow> n \<in> set (root_classes e)"
  by (cases e)
     (simp_all add: render_message_def render_tool_def render_approval_def Let_def message_classes tool_classes [simplified]
       approval_classes [simplified] notice_classes error_classes has_class_def create_element_def)

lemma update_message_fresh:
  assumes "shut d = shut (render_message parse r' t')"
  shows "map_option shut (update_session_event parse d (MessageEv i r t)) = Some (shut (render_message parse r t))"
proof -
  obtain b ks where d: "d = Element ''article'' (message_class r') (opt_attr ''aria-label'' (message_label r' t')) b None ks"
    and k: "map shut ks = [with_kids (map shut (render_markdown parse t')) (create_element ''div'' ''markdown-body'' [] [] None)]"
    using assms by (auto simp: render_message_def create_element_def opt_attr_def shut_eq_Element)
  from k obtain m b' where ks: "ks = [m]" and m: "m = Element ''div'' ''markdown-body'' [] b' None (el_kids m)"
    by (auto simp: create_element_def opt_attr_def shut_eq_Element)
  have c: "has_class ''markdown-body'' m" by (subst m) (simp add: has_class_def class_list_def html_space_def)
  have "has_class ''session-event'' d" "has_class ''message'' d" unfolding d by (simp_all add: has_class_def message_classes)
  moreover have "some_dom (has_class ''markdown-body'') m" using c by (cases m) simp_all
  moreover have "edit_first (has_class ''markdown-body'') (\<lambda>b. [with_kids (render_markdown parse t) b]) ks = [with_kids (render_markdown parse t) m]"
    unfolding ks using c by (cases m) simp_all
  moreover have "shut (with_kids (render_markdown parse t) m) =
      Element ''div'' ''markdown-body'' [] False None (map shut (render_markdown parse t))"
    by (subst m) simp
  ultimately show ?thesis
    unfolding d by (simp add: Let_def ks render_message_def create_element_def opt_attr_def message_label_def)
qed

lemma update_notice_fresh:
  "update_session_event parse (render_session_event parse (NoticeEv l' t')) (NoticeEv l t) = Some (render_session_event parse (NoticeEv l t))"
proof -
  have "has_class ''session-event'' (render_session_event parse (NoticeEv l' t'))" "has_class ''notification'' (render_session_event parse (NoticeEv l' t'))"
    by (simp_all add: event_classes plain_event_def tool_state_def notice_classes)
  then show ?thesis by (cases l; cases l') (simp_all add: create_element_def opt_attr_def notice_role_def)
qed

lemma update_group_fresh:
  assumes "shut d = shut (render_tool_group parse es')"
    and "update_tool_group parse d es = Some d'"
  shows "shut d' = shut (render_tool_group parse es)"
proof -
  have n: "group_label es \<noteq> []" "group_label es' \<noteq> []" by (simp_all add: group_label_def)
  then have "\<exists>cl b ks. d = Element ''details'' cl [(''aria-label'', group_label es')] b None ks"
    using assms(1) by (auto simp: render_tool_group_def create_element_def opt_attr_def shut_eq_Element)
  with n show ?thesis
    using assms(2) by (auto simp: update_tool_group_def render_tool_group_def create_element_def opt_attr_def Let_def split: if_splits)
qed

text \<open>No event is shown in the conversation that is shown in the lane of the notifications.\<close>

fun item_ok :: "(nat \<Rightarrow> chat_event) \<Rightarrow> conversation_item \<Rightarrow> bool" where
  "item_ok ev (SingleItem e) \<longleftrightarrow> \<not> is_notice (ev e)"
| "item_ok ev (ToolGroup es) \<longleftrightarrow> True"

lemma group_has_class: "has_class n (render_tool_group parse es) \<longleftrightarrow> n \<in> set (class_list (group_class es))"
  by (simp add: render_tool_group_def create_element_def has_class_def)

lemma role_text_range [simp]:
  "role_text u \<noteq> ''tool-event-group''" "''tool-event-group'' \<noteq> role_text u"
  by (cases u; simp)+

lemma update_item_fresh:
  assumes "\<forall>e. plain_event (ev e)" and "item_ok ev x" and "shut d = shut (render_item parse ev r)"
    and "update_item parse ev d x = Some d'"
  shows "shut d' = shut (render_item parse ev x)"
proof -
  have c: "has_class n d = has_class n (render_item parse ev r)" for n using assms(3) by (metis has_class_shut)
  show ?thesis
  proof (cases x)
    case (SingleItem e)
    with assms(2,4) obtain i u t where e: "ev e = MessageEv i u t"
      by (cases "ev e") (auto simp: is_notice_def)
    with assms(4) SingleItem have m: "has_class ''message'' d" by (simp add: Let_def split: if_splits)
    then obtain e' where r: "r = SingleItem e'" using c by (cases r) (auto simp: group_has_class group_classes)
    with m c assms(1) have "''message'' \<in> set (root_classes (ev e'))" by (simp add: event_classes)
    then obtain i' u' t' where "ev e' = MessageEv i' u' t'" by (cases "ev e'") (simp_all split: if_splits)
    with assms(3) r have "shut d = shut (render_message parse u' t')" by simp
    from update_message_fresh [OF this, of i u t] assms(4) SingleItem e show ?thesis by simp
  next
    case (ToolGroup es)
    with assms(4) have m: "has_class ''tool-event-group'' d" by (simp add: update_tool_group_def split: if_splits)
    obtain es' where "r = ToolGroup es'"
    proof (cases r)
      case (SingleItem e')
      with m c assms(1) have "''tool-event-group'' \<in> set (root_classes (ev e'))" by (simp add: event_classes)
      then show ?thesis by (cases "ev e'") (simp_all split: if_splits)
    qed (rule that)
    with assms(3) have "shut d = shut (render_tool_group parse (map ev es'))" by simp
    from update_group_fresh [OF this] assms(4) ToolGroup show ?thesis by simp
  qed
qed

section \<open>The lanes\<close>

text \<open>The events of one lane are of one kind: notifications, or approvals.\<close>

definition lane_ok :: "(string \<Rightarrow> dom list) \<Rightarrow> (nat \<Rightarrow> chat_event) \<Rightarrow> (chat_event \<Rightarrow> bool) \<Rightarrow> lane \<Rightarrow> bool" where
  "lane_ok parse ev P s \<longleftrightarrow> map val (la_rows s) = map (\<lambda>e. render_session_event parse (ev e)) (la_rendered s) \<and>
     list_all (\<lambda>e. P (ev e)) (la_rendered s)"

lemma lane_row_fresh:
  assumes "\<And>r x d. P r \<Longrightarrow> P x \<Longrightarrow> update_session_event parse (render_session_event parse r) x = Some d \<Longrightarrow> d = render_session_event parse x"
    and "P (ev e)" and "case row of None \<Rightarrow> True | Some r \<Rightarrow> \<exists>e'. old = Some e' \<and> P (ev e') \<and> val r = render_session_event parse (ev e')"
  shows "val (lane_row parse ev n old row e) = render_session_event parse (ev e)"
proof (cases row)
  case (Some r)
  with assms(3) obtain e' where o: "old = Some e'" and e': "P (ev e')" and v: "val r = render_session_event parse (ev e')" by auto
  show ?thesis
  proof (cases "update_session_event parse (val r) (ev e)")
    case (Some d)
    with v have "d = render_session_event parse (ev e)" using assms(1) [OF e' assms(2)] by simp
    with Some \<open>row = Some r\<close> o v show ?thesis by (simp add: lane_row_def)
  next
    case None
    with \<open>row = Some r\<close> o v show ?thesis by (simp add: lane_row_def)
  qed
qed (simp add: lane_row_def)

lemma lane_update_ok:
  assumes "\<And>r x d. P r \<Longrightarrow> P x \<Longrightarrow> update_session_event parse (render_session_event parse r) x = Some d \<Longrightarrow> d = render_session_event parse x"
    and "lane_ok parse ev P s" and "list_all (\<lambda>e. P (ev e)) es"
  shows "lane_ok parse ev P (lane_update parse ev es s)"
proof -
  have v: "map val (la_rows s) = map (\<lambda>e. render_session_event parse (ev e)) (la_rendered s)"
    and p: "list_all (\<lambda>e. P (ev e)) (la_rendered s)" using assms(2) by (simp_all add: lane_ok_def)
  from v have l: "length (la_rows s) = length (la_rendered s)" by (rule map_eq_imp_length_eq)
  have old: "val (la_rows s ! k) = render_session_event parse (ev (la_rendered s ! k))" if "k < length (la_rendered s)" for k
    using arg_cong [OF v, of "\<lambda>xs. xs ! k"] that l by simp
  have row: "val (lane_row parse ev n (at_index (la_rendered s) k) (at_index (la_rows s) k) (es ! k)) =
      render_session_event parse (ev (es ! k))" if "k < length es" for k n
  proof (rule lane_row_fresh [where P = P])
    show "P (ev (es ! k))" using assms(3) that by (simp add: list_all_length)
    show "case at_index (la_rows s) k of None \<Rightarrow> True
        | Some r \<Rightarrow> \<exists>e'. at_index (la_rendered s) k = Some e' \<and> P (ev e') \<and> val r = render_session_event parse (ev e')"
      using old l p by (simp add: at_index_def list_all_length)
  qed (rule assms(1))
  have "map val (la_rows (lane_update parse ev es s)) = map (\<lambda>e. render_session_event parse (ev e)) es"
    by (rule nth_equalityI) (simp_all add: lane_update_def row)
  then show ?thesis using assms(3) by (simp add: lane_ok_def lane_update_def)
qed

lemma lane_ok_new: "lane_ok parse ev P (new_lane h)"
  by (simp add: lane_ok_def new_lane_def)

lemma notice_rows:
  assumes "is_notice r" and "is_notice x" and "update_session_event parse (render_session_event parse r) x = Some d"
  shows "d = render_session_event parse x"
proof -
  obtain l' t' l t where "r = NoticeEv l' t'" "x = NoticeEv l t"
    using assms(1,2) by (auto simp: is_notice_def split: chat_event.splits)
  with assms(3) update_notice_fresh [of parse l' t' l t] show ?thesis by (simp only: option.inject)
qed

lemma pending_rows:
  assumes "pending_approval r" and "pending_approval x" and "update_session_event parse (render_session_event parse r) x = Some d"
  shows "d = render_session_event parse x"
proof -
  obtain a c t sm dt where "x = ApprovalEv a c t sm dt Pending"
    using assms(2) by (auto simp: pending_approval_def split: chat_event.splits)
  with assms(3) show ?thesis by simp
qed

section \<open>The conversation\<close>

abbreviation stray :: "dom \<Rightarrow> bool" where
  "stray \<equiv> some_dom (has_class ''agent-conversation-empty'')"

lemma text_kids_stray [simp]: "list_ex (some_dom (has_class n)) (text_kids t) = False"
  by (simp add: text_kids_def has_class_def)

lemma create_stray [simp]: "some_dom (has_class n) (create_element t c r l x) = (n \<in> set (class_list c))"
  by (cases x) (simp_all add: create_element_def has_class_def)

lemma with_stray [simp]:
  "some_dom (has_class n) (with_kids ds (create_element t c r l x)) = (n \<in> set (class_list c) \<or> list_ex (some_dom (has_class n)) ds)"
  "some_dom (has_class n) (with_attr m v d) = some_dom (has_class n) d"
  "some_dom (has_class n) (with_click q d) = some_dom (has_class n) d"
  by (simp_all add: has_class_def) (cases d; simp add: has_class_def)+

lemma approval_line_stray: "\<not> stray (approval_line l)"
  by (simp add: approval_line_def class_list_def html_space_def del: with_simps)

lemma event_not_stray:
  assumes "plain_event e" and "\<forall>x. \<not> list_ex stray (parse x)"
  shows "\<not> stray (render_session_event parse e)"
proof (cases e)
  case (MessageEv i r t)
  have "\<not> list_ex stray (render_markdown parse t)" using assms(2) render_markdown_class by blast
  then show ?thesis
    by (cases r) (simp_all add: MessageEv render_message_def message_class_def class_list_def html_space_def del: with_simps)
next
  case (ToolEv c title summary detail st)
  then show ?thesis using assms(1) tool_classes [of st]
    by (simp add: render_tool_def expando_def tool_state_icon_def class_list_def html_space_def del: with_simps)
next
  case (ApprovalEv a c title summary detail st)
  then show ?thesis
    by (cases st) (simp_all add: render_approval_def Let_def approval_line_stray list_ex_iff dialog_button_def button_widget_def
        class_list_def html_space_def del: with_simps)
next
  case (NoticeEv l t)
  then show ?thesis by (cases l) (simp_all add: notice_classes)
next
  case (ErrorEv t)
  then show ?thesis by (simp add: error_classes)
qed

lemma item_not_stray:
  assumes "\<forall>e. plain_event (ev e)" and "\<forall>x. \<not> list_ex stray (parse x)"
  shows "\<not> stray (render_item parse ev x)"
proof (cases x)
  case (ToolGroup es)
  have "\<not> list_ex stray (map (render_session_event parse) (map ev es))"
    using assms event_not_stray by (auto simp: list_ex_iff)
  then show ?thesis
    by (simp add: ToolGroup render_tool_group_def group_kids_def group_class_def expando_def class_list_def html_space_def del: with_simps)
qed (use assms event_not_stray in simp)

lemma put_unique:
  "distinct (map oid (pre @ e # es)) \<Longrightarrow> map (\<lambda>x. if oid x = oid e then d else x) (pre @ e # es) = pre @ d # es"
  by (auto simp: image_iff intro!: map_idI)

lemma sync_rows_content:
  assumes "\<forall>e. plain_event (ev e)" and "tr_content s = pre @ es" and "distinct (map oid (pre @ es))"
    and "list_all (\<lambda>x. oid x < tr_next s) (pre @ es)"
    and "map (\<lambda>x. shut (val x)) es = map (\<lambda>x. shut (render_item parse ev x)) rs" and "list_all (item_ok ev) xs"
  shows "\<exists>new. tr_content (sync_rows parse ev rs xs es s) = pre @ new @ drop (length xs) es \<and>
    map (\<lambda>x. shut (val x)) new = map (\<lambda>x. shut (render_item parse ev x)) (take (length rs) xs) \<and>
    distinct (map oid (pre @ new @ drop (length xs) es)) \<and>
    list_all (\<lambda>x. oid x < tr_next (sync_rows parse ev rs xs es s)) (pre @ new @ drop (length xs) es) \<and>
    tr_auto_scroll (sync_rows parse ev rs xs es s) = tr_auto_scroll s \<and> tr_frames (sync_rows parse ev rs xs es s) = tr_frames s"
  using assms
proof (induction parse ev rs xs es s arbitrary: pre rule: sync_rows.induct)
  case (1 parse ev r rs x xs es s)
  note pl = \<open>\<forall>e. plain_event (ev e)\<close>
  from 1 obtain e es' where es: "es = e # es'" and v: "shut (val e) = shut (render_item parse ev r)" by (cases es) auto
  let ?s = "if same_item r x then s
        else (case es of [] \<Rightarrow> s
              | e # _ \<Rightarrow>
                  (case update_item parse ev (val e) x of
                     Some d \<Rightarrow> put_node (oid e) (Obj (oid e) d) s
                   | None \<Rightarrow> (put_node (oid e) (Obj (tr_next s) (render_item parse ev x)) s)\<lparr>tr_next := Suc (tr_next s)\<rparr>))"
  have "\<exists>e'. tr_content ?s = (pre @ [e']) @ es' \<and> shut (val e') = shut (render_item parse ev x) \<and>
      distinct (map oid ((pre @ [e']) @ es')) \<and> list_all (\<lambda>x. oid x < tr_next ?s) ((pre @ [e']) @ es') \<and>
      tr_auto_scroll ?s = tr_auto_scroll s \<and> tr_frames ?s = tr_frames s"
  proof (cases "same_item r x")
    case True
    then have "render_item parse ev x = render_item parse ev r" by (cases r; cases x) simp_all
    with True 1(3-5) es v show ?thesis by (intro exI [of _ e]) simp
  next
    case False
    have c: "tr_content s = pre @ e # es'" and d: "distinct (map oid (pre @ e # es'))"
      and l: "list_all (\<lambda>x. oid x < tr_next s) (pre @ e # es')" using 1(3-5) es by simp_all
    have put: "map (\<lambda>y. if oid y = oid e then d' else y) (tr_content s) = pre @ d' # es'" for d'
      unfolding c by (rule put_unique [OF d])
    show ?thesis
    proof (cases "update_item parse ev (val e) x")
      case None
      moreover have "tr_next s \<notin> oid ` set pre" "tr_next s \<notin> oid ` set es'" using l by (auto simp: list_all_iff)
      moreover have "list_all (\<lambda>x. oid x < Suc (tr_next s)) pre" "list_all (\<lambda>x. oid x < Suc (tr_next s)) es'"
        using l by (auto simp: list_all_iff intro: less_SucI)
      ultimately show ?thesis using False es put d
        by (intro exI [of _ "Obj (tr_next s) (render_item parse ev x)"]) (simp add: put_node_def)
    next
      case (Some d0)
      have "shut d0 = shut (render_item parse ev x)"
        using update_item_fresh [OF pl _ v Some] 1(7) by simp
      then show ?thesis
        using False es put d l Some by (intro exI [of _ "Obj (oid e) d0"]) (simp add: put_node_def)
    qed
  qed
  then obtain e' where e': "tr_content ?s = (pre @ [e']) @ tl es" "shut (val e') = shut (render_item parse ev x)"
      "distinct (map oid ((pre @ [e']) @ tl es))" "list_all (\<lambda>x. oid x < tr_next ?s) ((pre @ [e']) @ tl es)"
      and fr: "tr_auto_scroll ?s = tr_auto_scroll s" "tr_frames ?s = tr_frames s"
    unfolding es by auto
  have m: "map (\<lambda>x. shut (val x)) (tl es) = map (\<lambda>x. shut (render_item parse ev x)) rs" "list_all (item_ok ev) xs"
    using 1(6,7) es by simp_all
  have st: "sync_rows parse ev (r # rs) (x # xs) es s = sync_rows parse ev rs xs (tl es) ?s" by simp
  from 1(1) [OF pl e'(1,3,4) m] obtain new where
    n: "tr_content (sync_rows parse ev rs xs (tl es) ?s) = (pre @ [e']) @ new @ drop (length xs) (tl es)"
      "map (\<lambda>x. shut (val x)) new = map (\<lambda>x. shut (render_item parse ev x)) (take (length rs) xs)"
      "distinct (map oid ((pre @ [e']) @ new @ drop (length xs) (tl es)))"
      "list_all (\<lambda>x. oid x < tr_next (sync_rows parse ev rs xs (tl es) ?s)) ((pre @ [e']) @ new @ drop (length xs) (tl es))"
      "tr_auto_scroll (sync_rows parse ev rs xs (tl es) ?s) = tr_auto_scroll ?s" "tr_frames (sync_rows parse ev rs xs (tl es) ?s) = tr_frames ?s"
    by blast
  show ?case unfolding st using n e'(2) fr by (intro exI [of _ "e' # new"]) (simp add: es)
qed auto

lemma append_nodes:
  assumes "distinct (map oid (tr_content s))" and "list_all (\<lambda>x. oid x < tr_next s) (tr_content s)"
  shows "\<exists>new. tr_content (fold (\<lambda>x. append_node (f x)) xs s) = tr_content s @ new \<and> map val new = map f xs \<and>
    distinct (map oid (tr_content s @ new)) \<and> list_all (\<lambda>x. oid x < tr_next (fold (\<lambda>x. append_node (f x)) xs s)) (tr_content s @ new) \<and>
    tr_auto_scroll (fold (\<lambda>x. append_node (f x)) xs s) = tr_auto_scroll s \<and>
    tr_frames (fold (\<lambda>x. append_node (f x)) xs s) = tr_frames s"
  using assms
proof (induction xs arbitrary: s)
  case (Cons x xs)
  have "tr_next s \<notin> oid ` set (tr_content s)" using Cons.prems by (auto simp: list_all_iff)
  then have "distinct (map oid (tr_content (append_node (f x) s)))"
    "list_all (\<lambda>y. oid y < tr_next (append_node (f x) s)) (tr_content (append_node (f x) s))"
    using Cons.prems by (auto simp: append_node_def list_all_iff intro: less_SucI)
  from Cons.IH [OF this] obtain new where n:
    "tr_content (fold (\<lambda>x. append_node (f x)) xs (append_node (f x) s)) = tr_content (append_node (f x) s) @ new"
    "map val new = map f xs" "distinct (map oid (tr_content (append_node (f x) s) @ new))"
    "list_all (\<lambda>y. oid y < tr_next (fold (\<lambda>x. append_node (f x)) xs (append_node (f x) s))) (tr_content (append_node (f x) s) @ new)"
    "tr_auto_scroll (fold (\<lambda>x. append_node (f x)) xs (append_node (f x) s)) = tr_auto_scroll (append_node (f x) s)"
    "tr_frames (fold (\<lambda>x. append_node (f x)) xs (append_node (f x) s)) = tr_frames (append_node (f x) s)" by blast
  moreover have "tr_content (append_node (f x) s) = tr_content s @ [Obj (tr_next s) (f x)]"
    "tr_auto_scroll (append_node (f x) s) = tr_auto_scroll s" "tr_frames (append_node (f x) s) = tr_frames s"
    by (simp_all add: append_node_def)
  ultimately show ?case by (intro exI [of _ "Obj (tr_next s) (f x) # new"]) simp
qed simp

lemma remove_nodes:
  "tr_content (fold (\<lambda>x. remove_node (oid x)) ds s) = filter (\<lambda>x. oid x \<notin> oid ` set ds) (tr_content s)"
  "tr_next (fold (\<lambda>x. remove_node (oid x)) ds s) = tr_next s"
  "tr_auto_scroll (fold (\<lambda>x. remove_node (oid x)) ds s) = tr_auto_scroll s"
  "tr_frames (fold (\<lambda>x. remove_node (oid x)) ds s) = tr_frames s"
  by (induction ds arbitrary: s) (auto simp: remove_node_def intro!: filter_cong)

lemma remove_first_none:
  "list_all (\<lambda>x. \<not> stray (val x)) xs \<Longrightarrow> remove_first_class ''agent-conversation-empty'' xs = xs"
proof (induction xs)
  case (Cons x xs)
  then show ?case by (cases "val x") auto
qed simp

lemma conversation_items_ok: "list_all (\<lambda>e. \<not> is_notice (ev e)) es \<Longrightarrow> list_all (item_ok ev) (conversation_items ev es)"
proof (induction ev es rule: conversation_items.induct)
  case (2 ev e es)
  have "list_all (\<lambda>e. \<not> is_notice (ev e)) (dropWhile (\<lambda>x. is_tool (ev x)) es)"
    using 2(3) by (auto simp: list_all_iff dest: set_dropWhileD)
  with 2 show ?case by (simp add: Let_def)
qed simp

lemma conversation_items_Nil: "conversation_items ev es = [] \<longleftrightarrow> es = []"
  by (cases es) (simp_all add: Let_def)

lemma empty_conversation_facts:
  "shut empty_conversation = empty_conversation" "has_class ''agent-conversation-empty'' empty_conversation"
  "\<not> has_class ''session-event'' empty_conversation"
  by (simp_all add: empty_conversation_def class_list_def html_space_def)

lemma rows_are_rows:
  assumes "\<forall>e. plain_event (ev e)"
  shows "has_class ''session-event'' (render_item parse ev x)"
proof (cases x)
  case (SingleItem e)
  have "''session-event'' \<in> set (root_classes (ev e))" by (cases "ev e") simp_all
  with SingleItem assms show ?thesis by (simp add: event_classes)
qed (simp add: group_has_class group_classes)

lemma filter_disjoint: "oid ` set a \<inter> oid ` set b = {} \<Longrightarrow> filter (\<lambda>x. oid x \<notin> oid ` set b) a = a"
  by (auto intro!: filter_True)

definition transcript_ok :: "(string \<Rightarrow> dom list) \<Rightarrow> (nat \<Rightarrow> chat_event) \<Rightarrow> transcript \<Rightarrow> bool" where
  "transcript_ok parse ev s \<longleftrightarrow>
     distinct (map oid (tr_content s)) \<and> list_all (\<lambda>x. oid x < tr_next s) (tr_content s) \<and> list_all (item_ok ev) (tr_rendered s) \<and>
     (map (\<lambda>x. shut (val x)) (tr_content s) = map (\<lambda>x. shut (render_item parse ev x)) (tr_rendered s) \<or>
      tr_rendered s = [] \<and> map (\<lambda>x. shut (val x)) (tr_content s) = [empty_conversation])"

text \<open>The content before the text of an empty conversation is put in or taken out.\<close>

lemma rows_synced:
  assumes "\<forall>e. plain_event (ev e)" and "transcript_ok parse ev s" and "list_all (item_ok ev) items"
    and "existing = filter (\<lambda>x. has_class ''session-event'' (val x)) (tr_content s)"
    and "s3 = fold (\<lambda>x. remove_node (oid x)) (drop (length items) existing)
           (fold (\<lambda>x. append_node (render_item parse ev x)) (drop (min (length (tr_rendered s)) (length items)) items)
             (sync_rows parse ev (tr_rendered s) items existing s))"
  shows "\<exists>pre rows. tr_content s3 = pre @ rows \<and> (pre = [] \<or> map (\<lambda>x. shut (val x)) pre = [empty_conversation]) \<and>
    map (\<lambda>x. shut (val x)) rows = map (\<lambda>x. shut (render_item parse ev x)) items \<and>
    distinct (map oid (tr_content s3)) \<and> list_all (\<lambda>x. oid x < tr_next s3) (tr_content s3) \<and>
    tr_auto_scroll s3 = tr_auto_scroll s \<and> tr_frames s3 = tr_frames s"
proof -
  let ?rs = "tr_rendered s"
  have d: "distinct (map oid (tr_content s))" and l: "list_all (\<lambda>x. oid x < tr_next s) (tr_content s)"
    using assms(2) by (simp_all add: transcript_ok_def)
  obtain pre where pre: "tr_content s = pre @ existing" "pre = [] \<or> map (\<lambda>x. shut (val x)) pre = [empty_conversation]"
    and ex: "map (\<lambda>x. shut (val x)) existing = map (\<lambda>x. shut (render_item parse ev x)) ?rs"
  proof (cases "map (\<lambda>x. shut (val x)) (tr_content s) = map (\<lambda>x. shut (render_item parse ev x)) ?rs")
    case True
    have "has_class ''session-event'' (val x)" if "x \<in> set (tr_content s)" for x
    proof -
      have "shut (val x) \<in> (\<lambda>x. shut (render_item parse ev x)) ` set ?rs"
        using that arg_cong [OF True, of set] by auto
      then obtain r where "shut (val x) = shut (render_item parse ev r)" by blast
      then have "has_class ''session-event'' (shut (val x)) = has_class ''session-event'' (shut (render_item parse ev r))" by (simp only:)
      then show ?thesis using rows_are_rows [OF assms(1)] by simp
    qed
    then have "existing = tr_content s" unfolding assms(4) by simp
    with True that [of "[]"] show ?thesis by simp
  next
    case False
    then have e: "?rs = []" "map (\<lambda>x. shut (val x)) (tr_content s) = [empty_conversation]"
      using assms(2) by (simp_all add: transcript_ok_def)
    then obtain x where x: "tr_content s = [x]" "shut (val x) = empty_conversation" by auto
    then have "has_class ''session-event'' (shut (val x)) = has_class ''session-event'' empty_conversation" by (simp only:)
    then have "\<not> has_class ''session-event'' (val x)" using empty_conversation_facts(3) by simp
    with x have "existing = []" unfolding assms(4) by simp
    with e that show ?thesis by simp
  qed
  have "\<exists>new. tr_content (sync_rows parse ev ?rs items existing s) = pre @ new @ drop (length items) existing \<and>
    map (\<lambda>x. shut (val x)) new = map (\<lambda>x. shut (render_item parse ev x)) (take (length ?rs) items) \<and>
    distinct (map oid (pre @ new @ drop (length items) existing)) \<and>
    list_all (\<lambda>x. oid x < tr_next (sync_rows parse ev ?rs items existing s)) (pre @ new @ drop (length items) existing) \<and>
    tr_auto_scroll (sync_rows parse ev ?rs items existing s) = tr_auto_scroll s \<and> tr_frames (sync_rows parse ev ?rs items existing s) = tr_frames s"
    by (rule sync_rows_content [OF assms(1) pre(1) _ _ ex assms(3)]) (use d l pre(1) in simp_all)
  then obtain new where
    n: "tr_content (sync_rows parse ev ?rs items existing s) = pre @ new @ drop (length items) existing"
      "map (\<lambda>x. shut (val x)) new = map (\<lambda>x. shut (render_item parse ev x)) (take (length ?rs) items)"
      "distinct (map oid (pre @ new @ drop (length items) existing))"
      "list_all (\<lambda>x. oid x < tr_next (sync_rows parse ev ?rs items existing s)) (pre @ new @ drop (length items) existing)"
      "tr_auto_scroll (sync_rows parse ev ?rs items existing s) = tr_auto_scroll s" "tr_frames (sync_rows parse ev ?rs items existing s) = tr_frames s"
    by blast
  let ?s1 = "sync_rows parse ev ?rs items existing s"
  let ?xs = "drop (min (length ?rs) (length items)) items"
  obtain more where
    m: "tr_content (fold (\<lambda>x. append_node (render_item parse ev x)) ?xs ?s1) = tr_content ?s1 @ more" "map val more = map (render_item parse ev) ?xs"
      "distinct (map oid (tr_content ?s1 @ more))"
      "list_all (\<lambda>x. oid x < tr_next (fold (\<lambda>x. append_node (render_item parse ev x)) ?xs ?s1)) (tr_content ?s1 @ more)"
      "tr_auto_scroll (fold (\<lambda>x. append_node (render_item parse ev x)) ?xs ?s1) = tr_auto_scroll ?s1"
      "tr_frames (fold (\<lambda>x. append_node (render_item parse ev x)) ?xs ?s1) = tr_frames ?s1"
    using append_nodes [of ?s1 "render_item parse ev" ?xs] n(1,3,4) by auto
  have le: "length existing = length ?rs" using ex by (rule map_eq_imp_length_eq)
  have keep: "filter (\<lambda>x. oid x \<notin> oid ` set (drop (length items) existing)) (pre @ new @ drop (length items) existing @ more) = pre @ new @ more"
    using m(3) unfolding n(1) by (auto simp: filter_disjoint Int_Un_distrib Int_commute)
  have c: "tr_content s3 = pre @ new @ more" unfolding assms(5) remove_nodes(1) m(1) n(1) using keep by simp
  have "map (\<lambda>x. shut (val x)) more = map (\<lambda>x. shut (render_item parse ev x)) ?xs"
    using arg_cong [OF m(2), of "map shut"] by (simp add: comp_def)
  then have rows: "map (\<lambda>x. shut (val x)) (new @ more) = map (\<lambda>x. shut (render_item parse ev x)) items"
    using n(2) by (cases "length ?rs \<le> length items") (simp_all add: min_def flip: take_map drop_map)
  have nx: "tr_next s3 = tr_next (fold (\<lambda>x. append_node (render_item parse ev x)) ?xs ?s1)" unfolding assms(5) remove_nodes(2) by simp
  have "distinct (map oid (tr_content s3))" using m(3) unfolding n(1) c by auto
  moreover have "list_all (\<lambda>x. oid x < tr_next s3) (tr_content s3)"
    using m(4) unfolding n(1) c nx by auto
  moreover have "tr_auto_scroll s3 = tr_auto_scroll s" "tr_frames s3 = tr_frames s"
    using m(5,6) n(5,6) unfolding assms(5) remove_nodes(3,4) by simp_all
  ultimately show ?thesis using c rows pre(2) by - (intro exI [of _ pre] exI [of _ "new @ more"] conjI, assumption+)
qed

lemma stray_rows:
  assumes "\<forall>e. plain_event (ev e)" and "\<forall>x. \<not> list_ex stray (parse x)"
    and "map (\<lambda>x. shut (val x)) rows = map (\<lambda>x. shut (render_item parse ev x)) items"
  shows "list_all (\<lambda>x. \<not> stray (val x)) rows"
proof -
  have "list_all (\<lambda>d. \<not> stray d) (map (\<lambda>x. shut (render_item parse ev x)) items)"
    using item_not_stray [OF assms(1,2)] by (simp add: list_all_iff)
  then have "list_all (\<lambda>d. \<not> stray d) (map (\<lambda>x. shut (val x)) rows)" by (simp only: assms(3))
  then show ?thesis by (simp add: list_all_iff)
qed

lemma transcript_update_ok:
  assumes "\<forall>e. plain_event (ev e)" and "\<forall>x. \<not> list_ex stray (parse x)" and "transcript_ok parse ev s"
    and "list_all (\<lambda>e. \<not> is_notice (ev e)) events"
  shows "transcript_ok parse ev (transcript_update parse ev h c events s)"
    and "events \<noteq> [] \<Longrightarrow> map (\<lambda>x. shut (val x)) (tr_content (transcript_update parse ev h c events s)) =
      map (\<lambda>x. shut (render_item parse ev x)) (conversation_items ev events)"
proof -
  let ?items = "conversation_items ev events"
  let ?existing = "filter (\<lambda>x. has_class ''session-event'' (val x)) (tr_content s)"
  define s3 where "s3 = fold (\<lambda>x. remove_node (oid x)) (drop (length ?items) ?existing)
           (fold (\<lambda>x. append_node (render_item parse ev x)) (drop (min (length (tr_rendered s)) (length ?items)) ?items)
             (sync_rows parse ev (tr_rendered s) ?items ?existing s))"
  have items: "list_all (item_ok ev) ?items" by (rule conversation_items_ok [OF assms(4)])
  obtain pre rows where z: "tr_content s3 = pre @ rows \<and> (pre = [] \<or> map (\<lambda>x. shut (val x)) pre = [empty_conversation]) \<and>
      map (\<lambda>x. shut (val x)) rows = map (\<lambda>x. shut (render_item parse ev x)) ?items \<and>
      distinct (map oid (tr_content s3)) \<and> list_all (\<lambda>x. oid x < tr_next s3) (tr_content s3) \<and>
      tr_auto_scroll s3 = tr_auto_scroll s \<and> tr_frames s3 = tr_frames s"
    using rows_synced [OF assms(1,3) items refl s3_def] by (elim exE) (rule that)
  have s3: "tr_content s3 = pre @ rows" "pre = [] \<or> map (\<lambda>x. shut (val x)) pre = [empty_conversation]"
      "map (\<lambda>x. shut (val x)) rows = map (\<lambda>x. shut (render_item parse ev x)) ?items"
      "distinct (map oid (tr_content s3))" "list_all (\<lambda>x. oid x < tr_next s3) (tr_content s3)"
    using z by - (elim conjE, assumption)+
  have clean: "remove_first_class ''agent-conversation-empty'' rows = rows"
    using remove_first_none stray_rows [OF assms(1,2) s3(3)] .
  have removed: "remove_first_class ''agent-conversation-empty'' (tr_content s3) = rows"
  proof (cases "pre = []")
    case False
    then obtain p where p: "pre = [p]" "shut (val p) = empty_conversation" using s3(2) by auto
    then have "has_class ''agent-conversation-empty'' (shut (val p)) = has_class ''agent-conversation-empty'' empty_conversation"
      by (simp only:)
    then have "has_class ''agent-conversation-empty'' (val p)" using empty_conversation_facts(2) by simp
    with p s3(1) show ?thesis by simp
  qed (use s3(1) clean in simp)
  define s4 where "s4 = (if events = [] \<and> tr_content s3 = [] then append_node empty_conversation s3
      else s3\<lparr>tr_content := remove_first_class ''agent-conversation-empty'' (tr_content s3)\<rparr>)"
  let ?t = "transcript_update parse ev h c events s"
  have t: "tr_content ?t = tr_content s4" "tr_rendered ?t = ?items" "tr_next ?t = tr_next s4"
    unfolding transcript_update_def Let_def s3_def [symmetric] s4_def [symmetric] by (simp_all add: update_scroll_button_def)
  have i: "?items = [] \<longleftrightarrow> events = []" by (rule conversation_items_Nil)
  have "transcript_ok parse ev ?t \<and> (events \<noteq> [] \<longrightarrow> map (\<lambda>x. shut (val x)) (tr_content ?t) = map (\<lambda>x. shut (render_item parse ev x)) ?items)"
  proof (cases "events = [] \<and> tr_content s3 = []")
    case True
    then have s4: "s4 = append_node empty_conversation s3" unfolding s4_def by (rule if_P)
    then have "tr_content s4 = [Obj (tr_next s3) empty_conversation]" "tr_next s4 = Suc (tr_next s3)"
      using True by (simp_all add: append_node_def)
    with True i show ?thesis unfolding transcript_ok_def t by (simp add: empty_conversation_facts(1))
  next
    case False
    then have "s4 = s3\<lparr>tr_content := remove_first_class ''agent-conversation-empty'' (tr_content s3)\<rparr>" unfolding s4_def by (rule if_not_P)
    then have s4: "tr_content s4 = rows" "tr_next s4 = tr_next s3" using removed by simp_all
    have "distinct (map oid rows)" "list_all (\<lambda>x. oid x < tr_next s3) rows" using s3(4,5) unfolding s3(1) by simp_all
    then show ?thesis unfolding transcript_ok_def t s4 using items s3(3) by blast
  qed
  then show "transcript_ok parse ev ?t"
    "events \<noteq> [] \<Longrightarrow> map (\<lambda>x. shut (val x)) (tr_content ?t) = map (\<lambda>x. shut (render_item parse ev x)) ?items"
    by blast+
qed

section \<open>What is shown\<close>

definition view_ok :: "(string \<Rightarrow> dom list) \<Rightarrow> (nat \<Rightarrow> chat_event) \<Rightarrow> session_view \<Rightarrow> bool" where
  "view_ok parse ev s \<longleftrightarrow> transcript_ok parse ev (vw_transcript s) \<and> lane_ok parse ev is_notice (vw_persistent s) \<and>
     lane_ok parse ev pending_approval (vw_interruption s)"

lemma transcript_ok_cong:
  assumes "transcript_ok parse ev s" and "map (\<lambda>x. (oid x, shut (val x))) (tr_content t) = map (\<lambda>x. (oid x, shut (val x))) (tr_content s)"
    and "tr_rendered t = tr_rendered s" and "tr_next t = tr_next s"
  shows "transcript_ok parse ev t"
proof -
  have "map oid (tr_content t) = map oid (tr_content s)" "map (\<lambda>x. shut (val x)) (tr_content t) = map (\<lambda>x. shut (val x)) (tr_content s)"
    using arg_cong [OF assms(2), of "map fst"] arg_cong [OF assms(2), of "map snd"] by (simp_all add: comp_def)
  moreover have "list_all (\<lambda>x. oid x < n) xs \<longleftrightarrow> list_all (\<lambda>i. i < n) (map oid xs)" for n and xs :: "dom obj list"
    by (simp add: list_all_iff)
  ultimately show ?thesis using assms(1,3,4) by (simp add: transcript_ok_def)
qed

lemma view_ok_step:
  assumes "\<forall>e. plain_event (ev e)" and "\<forall>x. \<not> list_ex stray (parse x)" and "view_ok parse ev s"
  shows "view_ok parse ev (apply_view parse ev e s)"
proof (cases e)
  case (Refresh h c es)
  have "list_all (\<lambda>e. \<not> is_notice (ev e)) (shown_events ev es)" by (auto simp: shown_events_def list_all_iff)
  then have "transcript_ok parse ev (transcript_update parse ev h c (shown_events ev es) (vw_transcript s))"
    using transcript_update_ok(1) assms by (simp add: view_ok_def)
  moreover have "lane_ok parse ev is_notice (lane_update parse ev (filter (\<lambda>e. is_notice (ev e)) es) (vw_persistent s))"
    by (rule lane_update_ok [OF notice_rows]) (use assms(3) in \<open>auto simp: view_ok_def list_all_iff\<close>)
  moreover have "lane_ok parse ev pending_approval (lane_update parse ev (filter (\<lambda>e. pending_approval (ev e)) es) (vw_interruption s))"
    by (rule lane_update_ok [OF pending_rows]) (use assms(3) in \<open>auto simp: view_ok_def list_all_iff\<close>)
  ultimately show ?thesis by (simp add: Refresh view_ok_def session_refresh_def)
next
  case (Toggle i p)
  have "map (\<lambda>x. (oid x, shut (val x))) (toggle_rows i p xs) = map (\<lambda>x. (oid x, shut (val x))) xs" for xs
    by (simp add: toggle_rows_def comp_def)
  then show ?thesis using assms(3) unfolding Toggle view_ok_def by (auto intro: transcript_ok_cong)
qed (use assms(3) in \<open>auto simp: view_ok_def transcript_scrolled_def transcript_frame_def scroll_to_bottom_def
      update_scroll_button_def intro: transcript_ok_cong\<close>)

lemma view_ok_new: "view_ok parse ev new_session_view"
  by (simp add: view_ok_def new_session_view_def lane_ok_new transcript_ok_def new_transcript_def)

text \<open>
  C4: whatever has been shown before and whatever the user has opened, after a refresh the two lanes
  and, where there is something to show, the conversation show what rendering the current events
  from nothing would show: the rows that are kept and updated in place never keep anything of what
  they showed.  Where the conversation has no events it is empty or holds only the text that says
  so, which every second such refresh takes away (\<open>empty_conversation_text_flickers\<close>).  (The
  states of tool calls are single words, and the markdown parser does not invent the class that
  the renderer gives to the text of an empty conversation.)
\<close>

theorem updated_conversation_equals_fresh:
  assumes "\<forall>e. plain_event (ev e)" and "\<forall>x. \<not> list_ex stray (parse x)"
  shows "let v = apply_view parse ev (Refresh h c es) (fold (apply_view parse ev) ops new_session_view)
    in (if shown_events ev es = []
        then tr_content (vw_transcript v) = [] \<or> map (\<lambda>x. shut (val x)) (tr_content (vw_transcript v)) = [empty_conversation]
        else map (\<lambda>x. shut (val x)) (tr_content (vw_transcript v)) =
          map (\<lambda>x. shut (render_item parse ev x)) (conversation_items ev (shown_events ev es))) \<and>
       map val (la_rows (vw_persistent v)) = map (\<lambda>e. render_session_event parse (ev e)) (filter (\<lambda>e. is_notice (ev e)) es) \<and>
       map val (la_rows (vw_interruption v)) = map (\<lambda>e. render_session_event parse (ev e)) (filter (\<lambda>e. pending_approval (ev e)) es)"
proof -
  let ?s = "fold (apply_view parse ev) ops new_session_view"
  have s: "view_ok parse ev ?s"
    by (rule fold_keeps [where P = "view_ok parse ev"]) (use view_ok_step [OF assms(1,2)] view_ok_new in auto)
  from view_ok_step [OF assms(1,2) s, of "Refresh h c es"]
  have l: "lane_ok parse ev is_notice (lane_update parse ev (filter (\<lambda>e. is_notice (ev e)) es) (vw_persistent ?s))"
    "lane_ok parse ev pending_approval (lane_update parse ev (filter (\<lambda>e. pending_approval (ev e)) es) (vw_interruption ?s))"
    by (simp_all add: view_ok_def session_refresh_def)
  have "list_all (\<lambda>e. \<not> is_notice (ev e)) (shown_events ev es)" by (auto simp: shown_events_def list_all_iff)
  note up = transcript_update_ok [OF assms(1,2) _ this, of "vw_transcript ?s" h c]
  let ?t = "transcript_update parse ev h c (shown_events ev es) (vw_transcript ?s)"
  have ok: "transcript_ok parse ev (vw_transcript ?s)" using s by (simp add: view_ok_def)
  have full: "shown_events ev es \<noteq> [] \<Longrightarrow> map (\<lambda>x. shut (val x)) (tr_content ?t) =
      map (\<lambda>x. shut (render_item parse ev x)) (conversation_items ev (shown_events ev es))" by (rule up(2) [OF ok])
  have "tr_rendered ?t = conversation_items ev (shown_events ev es)"
    by (simp add: transcript_update_def Let_def update_scroll_button_def)
  then have none: "tr_content ?t = [] \<or> map (\<lambda>x. shut (val x)) (tr_content ?t) = [empty_conversation]" if "shown_events ev es = []"
    using up(1) [OF ok] that by (auto simp: transcript_ok_def)
  have "if shown_events ev es = []
      then tr_content ?t = [] \<or> map (\<lambda>x. shut (val x)) (tr_content ?t) = [empty_conversation]
      else map (\<lambda>x. shut (val x)) (tr_content ?t) = map (\<lambda>x. shut (render_item parse ev x)) (conversation_items ev (shown_events ev es))"
    using full none by simp
  moreover have "vw_transcript (apply_view parse ev (Refresh h c es) ?s) = ?t" by (simp add: session_refresh_def)
  moreover have "map val (la_rows (vw_persistent (apply_view parse ev (Refresh h c es) ?s))) =
        map (\<lambda>e. render_session_event parse (ev e)) (filter (\<lambda>e. is_notice (ev e)) es)"
      "map val (la_rows (vw_interruption (apply_view parse ev (Refresh h c es) ?s))) =
        map (\<lambda>e. render_session_event parse (ev e)) (filter (\<lambda>e. pending_approval (ev e)) es)"
    using l by (simp_all add: session_refresh_def lane_ok_def lane_update_def)
  ultimately show ?thesis unfolding Let_def by (simp only: simp_thms)
qed

theorem updated_conversation_equals_fresh_witness:
  "let parse = (\<lambda>t. [TextNode t]);
       ev = (\<lambda>n. if n = 0 then MessageEv None AgentRole ''o'' else if n = 1 then MessageEv None AgentRole ''one''
                else ToolEv ''1'' ''bash'' None None ''running'');
       v = apply_view parse ev (Refresh 0 0 [1, 2, 3]) (fold (apply_view parse ev) [Refresh 0 0 [0]] new_session_view)
   in map (\<lambda>x. shut (val x)) (tr_content (vw_transcript v)) =
      [shut (render_message parse AgentRole ''one''), shut (render_tool_group parse [ev 2, ev 3])]"
proof -
  let ?parse = "\<lambda>t. [TextNode t]"
  let ?ev = "\<lambda>n :: nat. if n = 0 then MessageEv None AgentRole ''o'' else if n = 1 then MessageEv None AgentRole ''one''
                else ToolEv ''1'' ''bash'' None None ''running''"
  have 1: "\<forall>e. plain_event (?ev e)" by (simp add: plain_event_def tool_state_def html_space_def)
  have 2: "\<forall>x. \<not> list_ex stray (?parse x)" by simp
  have 3: "shown_events ?ev [1, 2, 3] \<noteq> []" by (simp add: shown_events_def is_approval_def is_notice_def)
  have "map (\<lambda>x. shut (val x)) (tr_content (vw_transcript (apply_view ?parse ?ev (Refresh 0 0 [1, 2, 3])
      (fold (apply_view ?parse ?ev) [Refresh 0 0 [0]] new_session_view)))) =
      map (\<lambda>x. shut (render_item ?parse ?ev x)) (conversation_items ?ev (shown_events ?ev [1, 2, 3]))"
    by (rule updated_conversation_equals_fresh [OF 1 2, where es = "[1, 2, 3]" and h = 0 and c = 0 and ops = "[Refresh 0 0 [0]]",
          unfolded Let_def if_not_P [OF 3], THEN conjunct1])
  moreover have "conversation_items ?ev (shown_events ?ev [1, 2, 3]) = [SingleItem 1, ToolGroup [2, 3]]"
    by (simp add: shown_events_def is_approval_def is_notice_def is_tool_def Let_def)
  ultimately show ?thesis unfolding Let_def by (simp del: apply_view.simps fold_simps)
qed

text \<open>
  While a conversation has no events, every second refresh takes the text that says so away,
  since the row count that decides it counts that text.
\<close>

theorem empty_conversation_text_flickers:
  "map val (tr_content ((transcript_update parse ev h c [] ^^ n) new_transcript)) = (if odd n then [empty_conversation] else [])"
proof -
  let ?up = "transcript_update parse ev h c []"
  have up: "tr_rendered (?up s) = []"
    "tr_content s = [] \<Longrightarrow> map val (tr_content (?up s)) = [empty_conversation]"
    "map val (tr_content s) = [empty_conversation] \<Longrightarrow> tr_content (?up s) = []"
    if "tr_rendered s = []" for s
  proof -
    have u: "tr_content (?up s) = tr_content (if tr_content s = [] then append_node empty_conversation s
        else s\<lparr>tr_content := remove_first_class ''agent-conversation-empty'' (tr_content s)\<rparr>)"
      if "filter (\<lambda>x. has_class ''session-event'' (val x)) (tr_content s) = []"
      using that \<open>tr_rendered s = []\<close> by (simp add: transcript_update_def Let_def update_scroll_button_def)
    show "tr_rendered (?up s) = []" by (simp add: transcript_update_def Let_def update_scroll_button_def)
    show "map val (tr_content (?up s)) = [empty_conversation]" if "tr_content s = []"
      using u that by (simp add: append_node_def)
    show "tr_content (?up s) = []" if m: "map val (tr_content s) = [empty_conversation]"
    proof -
      obtain x where x: "tr_content s = [x]" "val x = empty_conversation" using m by auto
      with empty_conversation_facts u show ?thesis by simp
    qed
  qed
  have "tr_rendered ((?up ^^ n) new_transcript) = [] \<and>
    map val (tr_content ((?up ^^ n) new_transcript)) = (if odd n then [empty_conversation] else [])"
  proof (induction n)
    case (Suc n)
    let ?s = "(?up ^^ n) new_transcript"
    have r: "tr_rendered ?s = []" using Suc by blast
    show ?case
    proof (cases "odd n")
      case True
      with Suc up(1,3) [OF r] show ?thesis by simp
    next
      case False
      with Suc have "tr_content ?s = []" by simp
      with False up(1,2) [OF r] show ?thesis by simp
    qed
  qed (simp add: new_transcript_def)
  then show ?thesis by blast
qed

end
