(* ===== verification/ViewRegistry.thy ===== *)
theory ViewRegistry
  imports Registries
begin

text \<open>
  \<open>packages/workbench/src/services/workbench-view-registry.ts\<close>: the registry of view
  containers and the registry of views.

  A view container is an object compared by identity; the views of a container are kept under
  the container's id.
\<close>

section \<open>\<open>WorkbenchViewContainersRegistry\<close>\<close>

datatype view_location = AuxiliaryBar | Overlay | Panel | Primary | Sidebar | Titlebar

record view_container =
  vc_id :: string
  vc_location :: view_location
  vc_order :: "int option"
  vc_title :: string

datatype container_event = ContainerRegistered "view_container obj" | ContainerDeregistered "view_container obj"

record containers_registry =
  vcs :: "(string, view_container obj) omap"
  vcs_events :: "container_event list"

definition vcs_cmp :: "(string \<Rightarrow> string \<Rightarrow> int) \<Rightarrow> view_container obj \<Rightarrow> view_container obj \<Rightarrow> int" where
  "vcs_cmp lc = by_order_id lc (vc_order \<circ> val) (vc_id \<circ> val)"

definition vcs_all :: "(string \<Rightarrow> string \<Rightarrow> int) \<Rightarrow> containers_registry \<Rightarrow> view_container obj list" where
  "vcs_all lc s = js_sort (vcs_cmp lc) (om_values (vcs s))"

definition vcs_get :: "containers_registry \<Rightarrow> string \<Rightarrow> view_container obj option" where
  "vcs_get s k = om_get (vcs s) k"

definition get_view_containers ::
  "(string \<Rightarrow> string \<Rightarrow> int) \<Rightarrow> view_location \<Rightarrow> containers_registry \<Rightarrow> view_container obj list" where
  "get_view_containers lc l s = filter (\<lambda>c. vc_location (val c) = l) (vcs_all lc s)"

definition register_view_container ::
  "view_container obj \<Rightarrow> containers_registry \<Rightarrow> registry_error + containers_registry" where
  "register_view_container c s =
     (if om_has (vcs s) (vc_id (val c)) then Inl (AlreadyRegistered (vc_id (val c)))
      else Inr (s\<lparr>vcs := om_set (vc_id (val c)) c (vcs s),
                  vcs_events := vcs_events s @ [ContainerRegistered c]\<rparr>))"

definition dispose_view_container :: "view_container obj \<Rightarrow> containers_registry \<Rightarrow> containers_registry" where
  "dispose_view_container c s =
     (if om_get (vcs s) (vc_id (val c)) \<noteq> Some c then s
      else s\<lparr>vcs := om_del (vc_id (val c)) (vcs s), vcs_events := vcs_events s @ [ContainerDeregistered c]\<rparr>)"

definition vcs_inv :: "containers_registry \<Rightarrow> bool" where
  "vcs_inv s \<longleftrightarrow> keyed (vc_id \<circ> val) (vcs s)"

interpretation containers: ordered_registry vcs_get register_view_container dispose_view_container
  "vc_id \<circ> val" vcs_inv "\<lambda>cmp s. js_sort cmp (om_values (vcs s))"
proof unfold_locales
  show "vcs_inv s \<Longrightarrow> register_view_container d s = Inr s' \<Longrightarrow>
      vcs_get s' = (vcs_get s)((vc_id \<circ> val) d \<mapsto> d) \<and> vcs_inv s'" for s d s'
    using keyed_set [of "vc_id \<circ> val" "vcs s" d]
    by (auto simp: register_view_container_def vcs_get_def vcs_inv_def split: if_splits)
qed (auto simp: register_view_container_def vcs_get_def dispose_view_container_def vcs_inv_def om_has_def
  keyed_values distinct_js_sort keyed_distinct sorted_js_sort split: if_splits)

section \<open>\<open>WorkbenchViewsRegistry\<close>\<close>

text \<open>A descriptor; \<open>ctor\<close> and \<open>staticArguments\<close> are the payload.\<close>

record 'p view_descriptor =
  vd_id :: string
  vd_name :: string
  vd_order :: "int option"
  vd_when :: "context_expr option"
  vd_retain :: bool
  vd_payload :: 'p

datatype 'p views_event =
    ViewsRegistered "view_container obj" "'p view_descriptor list"
  | ViewsDeregistered "view_container obj" "'p view_descriptor list"

record 'p views_registry =
  vr_container :: "(string, view_container obj) omap"
  vr_views :: "(string, 'p view_descriptor list) omap"
  vr_events :: "'p views_event list"

definition views_of :: "'p views_registry \<Rightarrow> string \<Rightarrow> 'p view_descriptor list" where
  "views_of s cid = (case om_get (vr_views s) cid of None \<Rightarrow> [] | Some vs \<Rightarrow> vs)"

definition get_view :: "'p views_registry \<Rightarrow> string \<Rightarrow> 'p view_descriptor option" where
  "get_view s k =
     (case om_get (vr_container s) k of
        None \<Rightarrow> None
      | Some c \<Rightarrow> (case om_get (vr_views s) (vc_id (val c)) of
                     None \<Rightarrow> None
                   | Some vs \<Rightarrow> find (\<lambda>v. vd_id v = k) vs))"

definition get_view_container :: "'p views_registry \<Rightarrow> string \<Rightarrow> view_container obj option" where
  "get_view_container s k = om_get (vr_container s) k"

definition get_views ::
  "(string \<Rightarrow> string \<Rightarrow> int) \<Rightarrow> view_container obj \<Rightarrow> 'p views_registry \<Rightarrow> 'p view_descriptor list" where
  "get_views lc c s = js_sort (by_order_id lc vd_order vd_id) (views_of s (vc_id (val c)))"

text \<open>The first view of a batch whose id an earlier one has.\<close>

fun batch_duplicate :: "string list \<Rightarrow> 'p view_descriptor list \<Rightarrow> 'p view_descriptor option" where
  "batch_duplicate seen [] = None"
| "batch_duplicate seen (v # vs) =
     (if vd_id v \<in> set seen then Some v else batch_duplicate (vd_id v # seen) vs)"

definition register_views ::
  "'p view_descriptor list \<Rightarrow> view_container obj \<Rightarrow> 'p views_registry \<Rightarrow> registry_error + 'p views_registry" where
  "register_views vs c s =
     (case find (\<lambda>v. om_has (vr_container s) (vd_id v)) vs of
        Some v \<Rightarrow> Inl (AlreadyRegistered (vd_id v))
      | None \<Rightarrow>
          (case batch_duplicate [] vs of
             Some v \<Rightarrow> Inl (AlreadyRegistered (vd_id v))
           | None \<Rightarrow>
               Inr (s\<lparr>vr_views := om_set (vc_id (val c)) (views_of s (vc_id (val c)) @ vs) (vr_views s),
                      vr_container := fold (\<lambda>v. om_set (vd_id v) c) vs (vr_container s),
                      vr_events := vr_events s @ [ViewsRegistered c vs]\<rparr>)))"

text \<open>The disposer of a registration of \<open>vs\<close> under \<open>c\<close>.\<close>

definition dispose_views ::
  "'p view_descriptor list \<Rightarrow> view_container obj \<Rightarrow> 'p views_registry \<Rightarrow> 'p views_registry" where
  "dispose_views vs c s =
     (let current = views_of s (vc_id (val c));
          removed = filter (\<lambda>v. om_get (vr_container s) (vd_id v) = Some c) vs;
          remaining = filter (\<lambda>v. vd_id v \<notin> vd_id ` set removed) current
      in if removed = [] then s
         else s\<lparr>vr_views := (if remaining \<noteq> [] then om_set (vc_id (val c)) remaining (vr_views s)
                            else om_del (vc_id (val c)) (vr_views s)),
                vr_container := fold (\<lambda>v. om_del (vd_id v)) removed (vr_container s),
                vr_events := vr_events s @ [ViewsDeregistered c removed]\<rparr>)"

subsection \<open>The two maps agree\<close>

text \<open>
  Every listed view is mapped to a container with the id it is listed under, every mapped id is
  listed, and no list has an id twice.
\<close>

definition views_ok :: "'p views_registry \<Rightarrow> bool" where
  "views_ok s \<longleftrightarrow>
     (\<forall>cid v. v \<in> set (views_of s cid) \<longrightarrow>
        (\<exists>c. om_get (vr_container s) (vd_id v) = Some c \<and> vc_id (val c) = cid)) \<and>
     (\<forall>k c. om_get (vr_container s) k = Some c \<longrightarrow> k \<in> vd_id ` set (views_of s (vc_id (val c)))) \<and>
     (\<forall>cid. distinct (map vd_id (views_of s cid)))"

lemma get_view_views_of:
  "get_view s k = (case om_get (vr_container s) k of None \<Rightarrow> None
     | Some c \<Rightarrow> find (\<lambda>v. vd_id v = k) (views_of s (vc_id (val c))))"
  by (auto simp: get_view_def views_of_def split: option.split)

lemma find_id_distinct:
  "distinct (map vd_id vs) \<Longrightarrow> v \<in> set vs \<Longrightarrow> find (\<lambda>x. vd_id x = vd_id v) vs = Some v"
  by (induction vs) auto

text \<open>In a consistent registry \<open>getView\<close> finds precisely the listed views.\<close>

lemma get_view_iff:
  assumes "views_ok s"
  shows "get_view s k = Some v \<longleftrightarrow> vd_id v = k \<and> (\<exists>cid. v \<in> set (views_of s cid))"
proof
  assume "get_view s k = Some v"
  then show "vd_id v = k \<and> (\<exists>cid. v \<in> set (views_of s cid))"
    by (auto simp: get_view_views_of split: option.splits dest!: find_SomeD)
next
  assume "vd_id v = k \<and> (\<exists>cid. v \<in> set (views_of s cid))"
  then obtain cid where v: "vd_id v = k" "v \<in> set (views_of s cid)" by blast
  then obtain c where "om_get (vr_container s) k = Some c" "vc_id (val c) = cid"
    using assms unfolding views_ok_def by blast
  moreover have "find (\<lambda>x. vd_id x = k) (views_of s cid) = Some v"
    using v assms find_id_distinct [of "views_of s cid" v] by (simp add: views_ok_def)
  ultimately show "get_view s k = Some v" by (simp add: get_view_views_of)
qed

lemma batch_duplicate_None:
  "batch_duplicate seen vs = None \<longleftrightarrow> distinct (map vd_id vs) \<and> vd_id ` set vs \<inter> set seen = {}"
  by (induction vs arbitrary: seen) auto

lemma fold_om_set_get:
  "om_get (fold (\<lambda>v. om_set (vd_id v) c) vs m) k = (if k \<in> vd_id ` set vs then Some c else om_get m k)"
  by (induction vs arbitrary: m) auto

lemma fold_om_del_get:
  "om_get (fold (\<lambda>v. om_del (vd_id v)) vs m) k = (if k \<in> vd_id ` set vs then None else om_get m k)"
  by (induction vs arbitrary: m) auto

lemma register_views_cases:
  assumes "register_views vs c s = Inr s'"
  shows "(\<forall>v \<in> set vs. om_get (vr_container s) (vd_id v) = None) \<and> distinct (map vd_id vs) \<and>
     (\<forall>cid. views_of s' cid = (if cid = vc_id (val c) then views_of s cid @ vs else views_of s cid)) \<and>
     (\<forall>k. om_get (vr_container s') k = (if k \<in> vd_id ` set vs then Some c else om_get (vr_container s) k))"
proof -
  have f: "find (\<lambda>v. om_has (vr_container s) (vd_id v)) vs = None" and b: "batch_duplicate [] vs = None"
    and s': "s' = s\<lparr>vr_views := om_set (vc_id (val c)) (views_of s (vc_id (val c)) @ vs) (vr_views s),
       vr_container := fold (\<lambda>v. om_set (vd_id v) c) vs (vr_container s),
       vr_events := vr_events s @ [ViewsRegistered c vs]\<rparr>"
    using assms by (auto simp: register_views_def split: option.splits)
  have "views_of s' cid = (if cid = vc_id (val c) then views_of s cid @ vs else views_of s cid)" for cid
    by (simp add: s' views_of_def)
  then show ?thesis using f b by (auto simp: s' find_None_iff om_has_def batch_duplicate_None fold_om_set_get)
qed

lemma register_views_ok:
  assumes ok: "views_ok s" and r: "register_views vs c s = Inr s'"
  shows "views_ok s'"
proof -
  have fresh: "\<And>v. v \<in> set vs \<Longrightarrow> om_get (vr_container s) (vd_id v) = None" and d: "distinct (map vd_id vs)"
    and vs': "\<And>cid. views_of s' cid = (if cid = vc_id (val c) then views_of s cid @ vs else views_of s cid)"
    and c': "\<And>k. om_get (vr_container s') k = (if k \<in> vd_id ` set vs then Some c else om_get (vr_container s) k)"
    using register_views_cases [OF r] by auto
  have old: "\<exists>c0. om_get (vr_container s) (vd_id v) = Some c0 \<and> vc_id (val c0) = cid"
    if "v \<in> set (views_of s cid)" for cid v
    using ok that unfolding views_ok_def by blast
  have apart: "vd_id v \<notin> vd_id ` set vs" if "v \<in> set (views_of s cid)" for cid v
    using old [OF that] fresh by fastforce
  have "\<exists>c0. om_get (vr_container s') (vd_id v) = Some c0 \<and> vc_id (val c0) = cid"
    if "v \<in> set (views_of s' cid)" for cid v
    using that old [of v cid] apart [of v cid] by (auto simp: vs' c' split: if_splits)
  moreover have "k \<in> vd_id ` set (views_of s' (vc_id (val c0)))" if "om_get (vr_container s') k = Some c0" for k c0
  proof (cases "k \<in> vd_id ` set vs")
    case True
    then show ?thesis using that by (auto simp: vs' c')
  next
    case False
    then have "om_get (vr_container s) k = Some c0" using that by (simp add: c')
    then have "k \<in> vd_id ` set (views_of s (vc_id (val c0)))" using ok unfolding views_ok_def by blast
    then show ?thesis by (auto simp: vs')
  qed
  moreover have "distinct (map vd_id (views_of s' cid))" for cid
  proof -
    have "distinct (map vd_id (views_of s cid))" using ok by (simp add: views_ok_def)
    then show ?thesis using d apart by (auto simp: vs')
  qed
  ultimately show ?thesis unfolding views_ok_def by blast
qed

lemma dispose_views_views:
  assumes ok: "views_ok s"
  shows "views_of (dispose_views vs c s) cid = filter (\<lambda>v. \<not> (vd_id v \<in> vd_id ` set vs \<and>
     om_get (vr_container s) (vd_id v) = Some c)) (views_of s cid)"
proof (cases "cid = vc_id (val c)")
  case True
  let ?R = "filter (\<lambda>v. om_get (vr_container s) (vd_id v) = Some c) vs"
  have e: "vd_id v \<notin> vd_id ` set ?R \<longleftrightarrow>
      \<not> (vd_id v \<in> vd_id ` set vs \<and> om_get (vr_container s) (vd_id v) = Some c)" for v :: "'a view_descriptor"
    by auto
  have "views_of (dispose_views vs c s) cid = filter (\<lambda>v. vd_id v \<notin> vd_id ` set ?R) (views_of s cid)"
  proof (cases "?R = []")
    case True
    then show ?thesis unfolding True by (simp add: dispose_views_def True)
  next
    case False
    then show ?thesis using True unfolding dispose_views_def Let_def
      by (simp add: views_of_def del: filter_empty_conv filter.simps)
  qed
  then show ?thesis unfolding e .
next
  case False
  have "\<not> (vd_id v \<in> vd_id ` set vs \<and> om_get (vr_container s) (vd_id v) = Some c)"
    if "v \<in> set (views_of s cid)" for v
    using that ok False unfolding views_ok_def by fastforce
  then have "filter (\<lambda>v. \<not> (vd_id v \<in> vd_id ` set vs \<and> om_get (vr_container s) (vd_id v) = Some c)) (views_of s cid)
      = views_of s cid" by (simp add: filter_id_conv)
  moreover have "views_of (dispose_views vs c s) cid = views_of s cid"
    using False by (simp add: dispose_views_def Let_def views_of_def)
  ultimately show ?thesis by simp
qed

lemma dispose_views_container:
  "om_get (vr_container (dispose_views vs c s)) k =
     (if k \<in> vd_id ` set vs \<and> om_get (vr_container s) k = Some c then None else om_get (vr_container s) k)"
  by (auto simp: dispose_views_def Let_def fold_om_del_get filter_empty_conv)

lemma dispose_views_ok:
  assumes ok: "views_ok s"
  shows "views_ok (dispose_views vs c s)"
proof -
  have a: "\<exists>c0. om_get (vr_container s) (vd_id v) = Some c0 \<and> vc_id (val c0) = cid"
    if "v \<in> set (views_of s cid)" for cid v
    using ok that unfolding views_ok_def by blast
  have b: "k \<in> vd_id ` set (views_of s (vc_id (val c0)))" if "om_get (vr_container s) k = Some c0" for k c0
    using ok that unfolding views_ok_def by blast
  have "distinct (map vd_id (views_of s cid))" for cid using ok by (simp add: views_ok_def)
  then have "distinct (map vd_id (views_of (dispose_views vs c s) cid))" for cid
    by (simp add: dispose_views_views [OF ok] distinct_map_filter)
  moreover have "\<exists>c0. om_get (vr_container (dispose_views vs c s)) (vd_id v) = Some c0 \<and> vc_id (val c0) = cid"
    if "v \<in> set (views_of (dispose_views vs c s) cid)" for cid v
    using that a [of v cid] by (auto simp: dispose_views_views [OF ok] dispose_views_container)
  moreover have "k \<in> vd_id ` set (views_of (dispose_views vs c s) (vc_id (val c0)))"
    if "om_get (vr_container (dispose_views vs c s)) k = Some c0" for k c0
    using that b [of k c0] by (auto simp: dispose_views_views [OF ok] dispose_views_container split: if_splits)
  ultimately show ?thesis unfolding views_ok_def by blast
qed

text \<open>
  C26: registering a batch of views makes exactly those views available, each found under its
  id with the container it was registered for, leaves every other view as it was, and disposing
  the registration restores what \<open>getView\<close> and \<open>getViewContainer\<close> returned before.
\<close>

theorem register_then_dispose_views:
  assumes ok: "views_ok s" and r: "register_views vs c s = Inr s'"
  shows "views_ok s' \<and> views_ok (dispose_views vs c s')
    \<and> (\<forall>k. get_view s' k = (case find (\<lambda>v. vd_id v = k) vs of Some v \<Rightarrow> Some v | None \<Rightarrow> get_view s k))
    \<and> (\<forall>k. get_view_container s' k = (if k \<in> vd_id ` set vs then Some c else get_view_container s k))
    \<and> get_view (dispose_views vs c s') = get_view s
    \<and> get_view_container (dispose_views vs c s') = get_view_container s"
proof -
  have ok': "views_ok s'" by (rule register_views_ok [OF ok r])
  have fresh: "\<And>v. v \<in> set vs \<Longrightarrow> om_get (vr_container s) (vd_id v) = None"
    and vs': "\<And>cid. views_of s' cid = (if cid = vc_id (val c) then views_of s cid @ vs else views_of s cid)"
    and c': "\<And>k. om_get (vr_container s') k = (if k \<in> vd_id ` set vs then Some c else om_get (vr_container s) k)"
    using register_views_cases [OF r] by auto
  have apart: "vd_id v \<notin> vd_id ` set vs" if "v \<in> set (views_of s cid)" for cid v
    using ok that fresh unfolding views_ok_def by fastforce
  have found: "find (\<lambda>v. vd_id v = k) (xs @ vs) = find (\<lambda>v. vd_id v = k) vs"
    if "k \<in> vd_id ` set vs" "xs = views_of s cid" for k xs cid
  proof -
    have "find (\<lambda>v. vd_id v = k) xs = None" using apart [of _ cid] that by (auto simp: find_None_iff)
    then show ?thesis by (induction xs) (auto split: if_splits)
  qed
  have notin: "find (\<lambda>v. vd_id v = k) (xs @ vs) = find (\<lambda>v. vd_id v = k) xs" if "k \<notin> vd_id ` set vs" for k xs
  proof (induction xs)
    case Nil
    then show ?case using that by (auto simp: find_None_iff)
  qed simp
  have g: "get_view s' k = (case find (\<lambda>v. vd_id v = k) vs of Some v \<Rightarrow> Some v | None \<Rightarrow> get_view s k)" for k
  proof (cases "k \<in> vd_id ` set vs")
    case True
    then obtain v where "find (\<lambda>v. vd_id v = k) vs = Some v" using find_exists [of vs "\<lambda>v. vd_id v = k"] by auto
    with True show ?thesis using found [OF True] by (simp add: get_view_views_of c' vs')
  next
    case False
    then have "find (\<lambda>v. vd_id v = k) vs = None" by (auto simp: find_None_iff)
    with False show ?thesis
      by (auto simp: get_view_views_of c' vs' notin split: option.split)
  qed
  have dc: "get_view_container (dispose_views vs c s') = get_view_container s"
    using fresh by (fastforce simp: get_view_container_def dispose_views_container c')
  have dv: "views_of (dispose_views vs c s') cid = views_of s cid" for cid
    using apart [of _ cid]
    by (auto simp: dispose_views_views [OF ok'] vs' c' filter_empty_conv filter_id_conv)
  have "om_get (vr_container (dispose_views vs c s')) k = om_get (vr_container s) k" for k
    using fun_cong [OF dc, of k] by (simp add: get_view_container_def)
  then have "get_view (dispose_views vs c s') k = get_view s k" for k
    unfolding get_view_views_of dv by simp
  then show ?thesis
    using ok' dispose_views_ok [OF ok'] g dc c' by (auto simp: get_view_container_def)
qed

abbreviation sample_view :: "string \<Rightarrow> nat view_descriptor" where
  "sample_view n \<equiv> \<lparr>vd_id = n, vd_name = n, vd_order = None, vd_when = None, vd_retain = False, vd_payload = 0\<rparr>"

abbreviation sample_container :: "nat \<Rightarrow> string \<Rightarrow> view_container obj" where
  "sample_container a n \<equiv> Obj a \<lparr>vc_id = n, vc_location = Sidebar, vc_order = None, vc_title = n\<rparr>"

theorem register_then_dispose_views_witness:
  "let s = \<lparr>vr_container = [], vr_views = [], vr_events = []\<rparr>; c = sample_container 0 ''c''
   in \<exists>s'. register_views [sample_view ''a'', sample_view ''b''] c s = Inr s'
     \<and> get_view s' ''b'' = Some (sample_view ''b'')
     \<and> get_view (dispose_views [sample_view ''a'', sample_view ''b''] c s') ''b'' = None"
proof -
  let ?s = "\<lparr>vr_container = [], vr_views = [], vr_events = []\<rparr>"
  let ?vs = "[sample_view ''a'', sample_view ''b'']" and ?c = "sample_container 0 ''c''"
  have ok: "views_ok ?s" by (simp add: views_ok_def views_of_def)
  obtain s' where r: "register_views ?vs ?c ?s = Inr s'"
    by (simp add: register_views_def om_has_def)
  have "get_view s' ''b'' = Some (sample_view ''b'')" "get_view (dispose_views ?vs ?c s') = get_view ?s"
    using register_then_dispose_views [OF ok r] by simp_all
  moreover have "get_view ?s ''b'' = None" by (simp add: get_view_def)
  ultimately show ?thesis using r by (simp add: Let_def)
qed

end
