(* ===== verification/ViewHost.thy ===== *)
theory ViewHost
  imports ViewRegistry
begin

text \<open>
  \<open>packages/workbench/src/services/workbench-view-host.ts\<close>: the host that keeps the registered views
  mounted at the locations of the workbench.

  The elements and the instances of views are numbered in the order they are made.  Whether the
  constructor of a view throws is a parameter; constructors are assumed not to change the
  registries or the context keys, which would run the host's own listeners inside it.
\<close>

section \<open>State\<close>

record mounted_view =
  mt_root :: nat
  mt_hidden :: bool

record view_host =
  vh_mounted :: "(string, mounted_view) omap"
  vh_locations :: "(view_location, nat) omap"
  vh_container :: bool
  vh_active :: "string option"
  vh_next :: nat
  vh_children :: "(nat \<times> nat) list"
  vh_created :: "nat list"
  vh_disposed :: "nat list"
  vh_errors :: "string list"

definition new_view_host :: view_host where
  "new_view_host = \<lparr>vh_mounted = [], vh_locations = [], vh_container = False, vh_active = None, vh_next = 0,
     vh_children = [], vh_created = [], vh_disposed = [], vh_errors = []\<rparr>"

text \<open>The views the registries list, container by container, and whether each is to be visible.\<close>

record 'p view_world =
  vw_containers :: containers_registry
  vw_views :: "'p views_registry"
  vw_context :: ctx_world
  vw_service :: nat

definition listed_views :: "(string \<Rightarrow> string \<Rightarrow> int) \<Rightarrow> 'p view_world \<Rightarrow> (view_location \<times> 'p view_descriptor \<times> bool) list" where
  "listed_views lc w =
     concat (map (\<lambda>c. map (\<lambda>d. (vc_location (val c), d,
               case vd_when d of None \<Rightarrow> True | Some e \<Rightarrow> evaluate (vw_context w) (vw_service w) e))
         (get_views lc c (vw_views w))) (vcs_all lc (vw_containers w)))"

section \<open>Operations\<close>

definition set_view_visible :: "string \<Rightarrow> bool \<Rightarrow> view_host \<Rightarrow> view_host" where
  "set_view_visible k vis h =
     h\<lparr>vh_mounted := map (\<lambda>(i, m). (i, if i = k then m\<lparr>mt_hidden := \<not> vis\<rparr> else m)) (vh_mounted h)\<rparr>"

text \<open>A view's constructor runs; when it throws, its element is dropped and the error reported.\<close>

definition create_view :: "('p view_descriptor \<Rightarrow> bool) \<Rightarrow> nat \<Rightarrow> 'p view_descriptor \<Rightarrow> view_host \<Rightarrow> view_host" where
  "create_view throws loc d h =
     (let n = vh_next h; h1 = h\<lparr>vh_next := Suc n\<rparr>
      in if throws d then h1\<lparr>vh_errors := vh_errors h @ [vd_id d]\<rparr>
         else h1\<lparr>vh_created := vh_created h @ [n], vh_children := vh_children h @ [(loc, n)],
                 vh_mounted := om_set (vd_id d) \<lparr>mt_root = n, mt_hidden = False\<rparr> (vh_mounted h)\<rparr>)"

definition sync_view ::
  "('p view_descriptor \<Rightarrow> bool) \<Rightarrow> view_location \<times> 'p view_descriptor \<times> bool \<Rightarrow> view_host \<times> string list \<Rightarrow> view_host \<times> string list" where
  "sync_view throws x s =
     (case (x, s) of
        ((loc, d, visible), h, wanted) \<Rightarrow>
          (case om_get (vh_locations h) loc of
             None \<Rightarrow> s
           | Some root \<Rightarrow>
               if \<not> visible then
                 (if vd_retain d \<and> om_has (vh_mounted h) (vd_id d) then (set_view_visible (vd_id d) False h, os_add (vd_id d) wanted) else s)
               else
                 (if om_has (vh_mounted h) (vd_id d) then set_view_visible (vd_id d) True h else create_view throws root d h,
                  os_add (vd_id d) wanted)))"

definition unmount :: "string \<Rightarrow> view_host \<Rightarrow> view_host" where
  "unmount k h =
     (case om_get (vh_mounted h) k of
        None \<Rightarrow> h
      | Some m \<Rightarrow>
          h\<lparr>vh_mounted := om_del k (vh_mounted h), vh_disposed := vh_disposed h @ [mt_root m],
            vh_children := filter (\<lambda>(l, n). n \<noteq> mt_root m) (vh_children h),
            vh_active := (if vh_active h = Some k then None else vh_active h)\<rparr>)"

definition sync_views :: "('p view_descriptor \<Rightarrow> bool) \<Rightarrow> (view_location \<times> 'p view_descriptor \<times> bool) list \<Rightarrow> view_host \<Rightarrow> view_host" where
  "sync_views throws xs h =
     (if \<not> vh_container h then h
      else case fold (sync_view throws) xs (h, []) of
             (h1, wanted) \<Rightarrow> fold unmount (filter (\<lambda>k. k \<notin> set wanted) (om_keys (vh_mounted h1))) h1)"

definition set_container :: "view_host \<Rightarrow> view_host" where
  "set_container h = h\<lparr>vh_container := True\<rparr>"

definition mount_location ::
  "('p view_descriptor \<Rightarrow> bool) \<Rightarrow> (view_location \<times> 'p view_descriptor \<times> bool) list \<Rightarrow> view_location \<Rightarrow> nat \<Rightarrow> view_host \<Rightarrow> view_host" where
  "mount_location throws xs loc root h = sync_views throws xs (h\<lparr>vh_locations := om_set loc root (vh_locations h)\<rparr>)"

definition focus_view :: "string \<Rightarrow> view_host \<Rightarrow> view_host \<times> bool" where
  "focus_view k h =
     (case om_get (vh_mounted h) k of
        None \<Rightarrow> (h, False)
      | Some m \<Rightarrow> if mt_hidden m then (h, False) else (h\<lparr>vh_active := Some k\<rparr>, True))"

text \<open>The listener on \<open>focusin\<close> of a mounted view's element.\<close>

definition focus_entered :: "string \<Rightarrow> view_host \<Rightarrow> view_host" where
  "focus_entered k h = (if om_has (vh_mounted h) k then h\<lparr>vh_active := Some k\<rparr> else h)"

definition dispose_host :: "view_host \<Rightarrow> view_host" where
  "dispose_host h =
     h\<lparr>vh_mounted := [], vh_disposed := vh_disposed h @ map mt_root (om_values (vh_mounted h)),
       vh_children := filter (\<lambda>(l, n). n \<notin> mt_root ` set (om_values (vh_mounted h))) (vh_children h), vh_active := None\<rparr>"

datatype 'p host_op =
    HoChanged "(view_location \<times> 'p view_descriptor \<times> bool) list"
  | HoContainer
  | HoMount view_location nat "(view_location \<times> 'p view_descriptor \<times> bool) list"
  | HoFocus string
  | HoFocusIn string
  | HoDispose

fun apply_host :: "('p view_descriptor \<Rightarrow> bool) \<Rightarrow> 'p host_op \<Rightarrow> view_host \<Rightarrow> view_host" where
  "apply_host throws (HoChanged xs) h = sync_views throws xs h"
| "apply_host throws HoContainer h = set_container h"
| "apply_host throws (HoMount loc root xs) h = mount_location throws xs loc root h"
| "apply_host throws (HoFocus k) h = fst (focus_view k h)"
| "apply_host throws (HoFocusIn k) h = focus_entered k h"
| "apply_host throws HoDispose h = dispose_host h"

section \<open>Every view that is made is mounted or has been disposed, once\<close>

definition mounted_roots :: "view_host \<Rightarrow> nat list" where
  "mounted_roots h = map mt_root (om_values (vh_mounted h))"

definition host_ok :: "view_host \<Rightarrow> bool" where
  "host_ok h \<longleftrightarrow> om_wf (vh_mounted h) \<and> mset (vh_created h) = mset (mounted_roots h) + mset (vh_disposed h) \<and>
     distinct (vh_created h) \<and> list_all (\<lambda>n. n < vh_next h) (vh_created h) \<and>
     mset (map snd (vh_children h)) = mset (mounted_roots h) \<and>
     (case vh_active h of None \<Rightarrow> True | Some k \<Rightarrow> om_has (vh_mounted h) k)"

lemma visible_frame [simp]:
  "mounted_roots (set_view_visible k vis h) = mounted_roots h" "om_keys (vh_mounted (set_view_visible k vis h)) = om_keys (vh_mounted h)"
  "vh_locations (set_view_visible k vis h) = vh_locations h" "vh_created (set_view_visible k vis h) = vh_created h"
  "vh_disposed (set_view_visible k vis h) = vh_disposed h" "vh_next (set_view_visible k vis h) = vh_next h"
  "vh_children (set_view_visible k vis h) = vh_children h" "vh_active (set_view_visible k vis h) = vh_active h"
  "vh_container (set_view_visible k vis h) = vh_container h"
  by (simp_all add: set_view_visible_def mounted_roots_def om_values_def om_keys_def comp_def case_prod_unfold if_distrib cong: if_cong)

lemma om_has_mem_keys: "om_has m k \<longleftrightarrow> k \<in> set (om_keys m)"
  by (auto simp: om_has_def om_keys_def map_of_eq_None_iff)

lemma om_wf_keys: "om_wf m \<longleftrightarrow> distinct (om_keys m)"
  by (simp add: om_wf_def om_keys_def)

lemma visible_has [simp]: "om_has (vh_mounted (set_view_visible k vis h)) i = om_has (vh_mounted h) i"
  by (simp add: om_has_mem_keys)

lemma ok_visible: "host_ok h \<Longrightarrow> host_ok (set_view_visible k vis h)"
  by (auto simp: host_ok_def om_wf_keys split: option.splits)

lemma ok_create: "host_ok h \<Longrightarrow> \<not> om_has (vh_mounted h) (vd_id d) \<Longrightarrow> host_ok (create_view throws loc d h)"
proof -
  assume h: "host_ok h" and new: "\<not> om_has (vh_mounted h) (vd_id d)"
  then have f: "om_set (vd_id d) m (vh_mounted h) = vh_mounted h @ [(vd_id d, m)]" for m
    by (intro om_set_fresh) (simp add: om_has_def)
  have "list_all (\<lambda>n. n < vh_next h) (vh_created h)" "vh_next h \<notin> set (vh_created h)"
    using h by (auto simp: host_ok_def list_all_iff)
  moreover have "om_wf (vh_mounted h @ [(vd_id d, m)])" for m
    using om_wf_set [of "vh_mounted h" "vd_id d" m] h by (simp add: host_ok_def f)
  ultimately show ?thesis using h new
    by (auto simp: host_ok_def create_view_def mounted_roots_def om_values_def f Let_def list_all_iff om_has_def less_Suc_eq
        split: option.splits)
qed

lemma om_values_del:
  "om_wf m \<Longrightarrow> om_get m k = Some v \<Longrightarrow> mset (om_values m) = add_mset v (mset (om_values (om_del k m)))"
proof (induction m)
  case (Cons x m)
  obtain i u where x: "x = (i, u)" by fastforce
  show ?case
  proof (cases "i = k")
    case True
    with Cons.prems have "om_get m k = None" by (auto simp: x om_wf_def map_of_eq_None_iff)
    with True Cons.prems show ?thesis by (simp add: x om_values_def om_del_fresh)
  next
    case False
    with Cons show ?thesis by (simp add: x om_wf_def om_values_def)
  qed
qed simp

lemma ok_unmount: "host_ok h \<Longrightarrow> host_ok (unmount k h)"
proof (cases "om_get (vh_mounted h) k")
  case (Some m)
  assume h: "host_ok h"
  then have wf: "om_wf (vh_mounted h)" by (simp add: host_ok_def)
  have v: "mset (mounted_roots h) = add_mset (mt_root m) (mset (map mt_root (om_values (om_del k (vh_mounted h)))))"
    using om_values_del [OF wf Some] by (simp add: mounted_roots_def)
  have d: "distinct (mounted_roots h @ vh_disposed h)"
    using h mset_eq_imp_distinct_iff [of "vh_created h" "mounted_roots h @ vh_disposed h"] by (simp add: host_ok_def)
  then have d': "distinct (mounted_roots h)" by simp
  have "count (mset (mounted_roots h)) (mt_root m) \<le> 1" using d' by (simp add: distinct_count_atmost_1)
  then have n: "mt_root m \<notin># mset (map mt_root (om_values (om_del k (vh_mounted h))))"
    unfolding v not_in_iff by simp
  have "mset (map snd (filter (\<lambda>(l, n). n \<noteq> mt_root m) (vh_children h))) = filter_mset (\<lambda>n. n \<noteq> mt_root m) (mset (map snd (vh_children h)))"
    by (simp add: filter_mset_image_mset case_prod_unfold flip: mset_filter)
  also have "\<dots> = filter_mset (\<lambda>n. n \<noteq> mt_root m) (add_mset (mt_root m) (mset (map mt_root (om_values (om_del k (vh_mounted h))))))"
    using h v by (simp add: host_ok_def)
  also have "\<dots> = mset (map mt_root (om_values (om_del k (vh_mounted h))))"
    using n by (simp add: filter_mset_eq_conv) (metis image_eqI)
  finally have c: "mset (map snd (filter (\<lambda>(l, n). n \<noteq> mt_root m) (vh_children h))) = mset (map mt_root (om_values (om_del k (vh_mounted h))))" .
  show ?thesis using h v c
    by (auto simp: host_ok_def unmount_def Some mounted_roots_def split: option.splits)
qed (simp add: unmount_def)

lemma ok_sync_view: "host_ok (fst s) \<Longrightarrow> host_ok (fst (sync_view throws x s))"
  by (cases x; cases s) (auto simp: sync_view_def ok_visible ok_create split: option.split)

lemma ok_sync: "host_ok h \<Longrightarrow> host_ok (sync_views throws xs h)"
proof -
  assume h: "host_ok h"
  have f: "host_ok (fst (fold (sync_view throws) xs s))" if "host_ok (fst s)" for s
    using that by (induction xs arbitrary: s) (simp_all add: ok_sync_view)
  have u: "host_ok (fold unmount ks g)" if "host_ok g" for ks g
    using that by (induction ks arbitrary: g) (simp_all add: ok_unmount)
  show ?thesis using h f [of "(h, [])"] u by (simp add: sync_views_def case_prod_unfold)
qed

lemma ok_step: "host_ok h \<Longrightarrow> host_ok (apply_host throws e h)"
proof (cases e)
  case (HoChanged xs)
  then show "host_ok h \<Longrightarrow> ?thesis" by (simp add: ok_sync)
next
  case (HoMount loc root xs)
  assume "host_ok h"
  then have "host_ok (h\<lparr>vh_locations := om_set loc root (vh_locations h)\<rparr>)" by (auto simp: host_ok_def mounted_roots_def split: option.splits)
  then show ?thesis by (simp add: HoMount mount_location_def ok_sync)
next
  case HoDispose
  assume h: "host_ok h"
  then have "set (map snd (vh_children h)) = set (mounted_roots h)" by (metis host_ok_def set_mset_mset)
  then have "filter (\<lambda>(l, n). n \<notin> mt_root ` set (om_values (vh_mounted h))) (vh_children h) = []"
    by (force simp: mounted_roots_def filter_empty_conv)
  with h show ?thesis by (simp add: HoDispose dispose_host_def host_ok_def mounted_roots_def om_values_def)
qed (auto simp: set_container_def focus_view_def focus_entered_def host_ok_def mounted_roots_def om_has_def
      split: option.splits)

text \<open>
  C18: every view instance that has ever been made is either mounted, with its element in the
  document once, or has been disposed, once: however views are registered, removed, hidden and
  focused, none leaks and none is disposed twice, and the active view is a mounted one.
\<close>

theorem views_are_mounted_or_disposed_once:
  "let h = fold (apply_host throws) es new_view_host
   in mset (vh_created h) = mset (mounted_roots h) + mset (vh_disposed h) \<and> distinct (mounted_roots h @ vh_disposed h) \<and>
      mset (map snd (vh_children h)) = mset (mounted_roots h) \<and>
      (case vh_active h of None \<Rightarrow> True | Some k \<Rightarrow> om_has (vh_mounted h) k)"
proof -
  let ?h = "fold (apply_host throws) es new_view_host"
  have "host_ok new_view_host" by (simp add: host_ok_def new_view_host_def mounted_roots_def om_values_def)
  then have h: "host_ok ?h" by (intro fold_keeps [where P = host_ok]) (auto intro: ok_step)
  then have "distinct (mounted_roots ?h @ vh_disposed ?h)"
    using mset_eq_imp_distinct_iff [of "vh_created ?h" "mounted_roots ?h @ vh_disposed ?h"] by (simp add: host_ok_def)
  with h show ?thesis by (simp add: host_ok_def Let_def)
qed

section \<open>What a synchronisation shows\<close>

lemma visible_get:
  "om_get (vh_mounted (set_view_visible k vis h)) i =
     (if i = k then map_option (\<lambda>m. m\<lparr>mt_hidden := \<not> vis\<rparr>) (om_get (vh_mounted h) i) else om_get (vh_mounted h) i)"
proof -
  have "om_get (map (\<lambda>(i, m). (i, if i = k then m\<lparr>mt_hidden := \<not> vis\<rparr> else m)) ms) i =
      (if i = k then map_option (\<lambda>m. m\<lparr>mt_hidden := \<not> vis\<rparr>) (om_get ms i) else om_get ms i)" for ms
    by (induction ms) auto
  moreover have "vh_mounted (set_view_visible k vis h) = map (\<lambda>(i, m). (i, if i = k then m\<lparr>mt_hidden := \<not> vis\<rparr> else m)) (vh_mounted h)"
    by (simp add: set_view_visible_def)
  ultimately show ?thesis by (simp only:)
qed

abbreviation entry_id :: "view_location \<times> 'p view_descriptor \<times> bool \<Rightarrow> string" where
  "entry_id x \<equiv> vd_id (fst (snd x))"

lemma sync_other:
  "entry_id x \<noteq> k \<Longrightarrow> om_get (vh_mounted (fst (sync_view throws x s))) k = om_get (vh_mounted (fst s)) k \<and>
     (k \<in> set (snd (sync_view throws x s)) \<longleftrightarrow> k \<in> set (snd s))"
  by (cases x; cases s) (auto simp: sync_view_def create_view_def visible_get Let_def split: option.split)

lemma sync_locations [simp]: "vh_locations (fst (sync_view throws x s)) = vh_locations (fst s)"
  by (cases x; cases s) (simp add: sync_view_def create_view_def Let_def split: option.split)

lemma fold_sync_other:
  "k \<notin> entry_id ` set xs \<Longrightarrow> om_get (vh_mounted (fst (fold (sync_view throws) xs s))) k = om_get (vh_mounted (fst s)) k \<and>
     (k \<in> set (snd (fold (sync_view throws) xs s)) \<longleftrightarrow> k \<in> set (snd s))"
proof (induction xs arbitrary: s)
  case (Cons x xs)
  then have "entry_id x \<noteq> k" by auto
  from sync_other [OF this, of throws s] Cons show ?case by simp
qed simp

lemma fold_sync_locations [simp]: "vh_locations (fst (fold (sync_view throws) xs s)) = vh_locations (fst s)"
  by (induction xs arbitrary: s) simp_all

lemma unmount_get: "om_get (vh_mounted (unmount k h)) i = (if i = k then None else om_get (vh_mounted h) i)"
  by (auto simp: unmount_def split: option.split)

lemma fold_unmount_get: "om_get (vh_mounted (fold unmount ks h)) i = (if i \<in> set ks then None else om_get (vh_mounted h) i)"
  by (induction ks arbitrary: h) (auto simp: unmount_get)

lemma sync_get:
  assumes "vh_container h"
  shows "om_get (vh_mounted (sync_views throws xs h)) k =
    (if k \<in> set (snd (fold (sync_view throws) xs (h, []))) then om_get (vh_mounted (fst (fold (sync_view throws) xs (h, [])))) k else None)"
proof -
  obtain g w where g: "fold (sync_view throws) xs (h, []) = (g, w)" by fastforce
  have "om_get (vh_mounted g) k = None" if "k \<notin> set (om_keys (vh_mounted g))"
    using that by (simp add: om_keys_def map_of_eq_None_iff)
  then show ?thesis using assms by (auto simp: sync_views_def g fold_unmount_get)
qed

definition shown_view :: "string \<Rightarrow> view_host \<Rightarrow> bool" where
  "shown_view k h \<longleftrightarrow> (case om_get (vh_mounted h) k of None \<Rightarrow> False | Some m \<Rightarrow> \<not> mt_hidden m)"

text \<open>
  After a synchronisation a view is shown exactly if it is registered for a mounted location, its
  condition holds, and it was mounted before or its constructor succeeds; and a view that stays
  mounted keeps its instance.
\<close>

theorem sync_shows_the_visible_views:
  assumes "vh_container h" and "distinct (map entry_id xs)"
  shows "shown_view k (sync_views throws xs h) =
      list_ex (\<lambda>(loc, d, visible). vd_id d = k \<and> visible \<and> om_has (vh_locations h) loc \<and> (om_has (vh_mounted h) k \<or> \<not> throws d)) xs \<and>
    (case (om_get (vh_mounted h) k, om_get (vh_mounted (sync_views throws xs h)) k) of
       (Some m, Some m') \<Rightarrow> mt_root m' = mt_root m | _ \<Rightarrow> True)"
proof (cases "k \<in> entry_id ` set xs")
  case False
  from fold_sync_other [OF this, of throws "(h, [])"] have "om_get (vh_mounted (sync_views throws xs h)) k = None"
    by (simp add: sync_get [OF assms(1)])
  with False show ?thesis by (auto simp: shown_view_def list_ex_iff image_iff split: option.split)
next
  case True
  then obtain x where x: "x \<in> set xs" "entry_id x = k" by auto
  then obtain us vs where xs: "xs = us @ x # vs" by (meson split_list)
  have only: "k \<notin> entry_id ` set us" "k \<notin> entry_id ` set vs" using assms(2) x(2) by (auto simp: xs)
  define s where "s = fold (sync_view throws) us (h, [])"
  have s: "om_get (vh_mounted (fst s)) k = om_get (vh_mounted h) k" "k \<notin> set (snd s)" "vh_locations (fst s) = vh_locations h"
    using fold_sync_other [OF only(1), of throws "(h, [])"] by (simp_all add: s_def)
  have e: "om_get (vh_mounted (sync_views throws xs h)) k =
      (if k \<in> set (snd (sync_view throws x s)) then om_get (vh_mounted (fst (sync_view throws x s))) k else None)"
    using fold_sync_other [OF only(2), of throws "sync_view throws x s"] by (simp add: sync_get [OF assms(1)] xs s_def)
  let ?P = "\<lambda>(loc, d, visible). vd_id d = k \<and> visible \<and> om_has (vh_locations h) loc \<and> (om_has (vh_mounted h) k \<or> \<not> throws d)"
  have "\<not> list_ex ?P us" "\<not> list_ex ?P vs" using only by (auto simp: list_ex_iff image_iff)
  then have here: "list_ex ?P xs = ?P x" by (simp add: xs)
  obtain g w where sw: "s = (g, w)" by fastforce
  obtain loc d vis where d: "x = (loc, d, vis)" by (metis prod.exhaust)
  show ?thesis unfolding here e shown_view_def using s x(2)
    by (auto simp: sw d sync_view_def create_view_def visible_get om_has_def Let_def split: option.splits)
qed

theorem sync_shows_the_visible_views_witness:
  "let d = (\<lambda>k b. \<lparr>vd_id = k, vd_name = k, vd_order = None, vd_when = None, vd_retain = b, vd_payload = ()\<rparr>);
       h = new_view_host\<lparr>vh_container := True, vh_locations := [(Panel, 9)]\<rparr>;
       h' = sync_views (\<lambda>x. vd_id x = ''bad'') [(Panel, d ''good'' False, True), (Panel, d ''bad'' False, True)] h
   in shown_view ''good'' h' \<and> \<not> shown_view ''bad'' h'"
proof -
  let ?d = "\<lambda>k b. \<lparr>vd_id = k, vd_name = k, vd_order = None, vd_when = None, vd_retain = b, vd_payload = ()\<rparr>"
  define h where "h = new_view_host\<lparr>vh_container := True, vh_locations := [(Panel, 9)]\<rparr>"
  define xs where "xs = [(Panel, ?d ''good'' False, True), (Panel, ?d ''bad'' False, True)]"
  have "vh_container h" "distinct (map entry_id xs)" by (simp_all add: h_def xs_def)
  note s = sync_shows_the_visible_views [OF this, of _ "\<lambda>x. vd_id x = ''bad''"]
  have "shown_view ''good'' (sync_views (\<lambda>x. vd_id x = ''bad'') xs h)" "\<not> shown_view ''bad'' (sync_views (\<lambda>x. vd_id x = ''bad'') xs h)"
    using s [of "''good''"] s [of "''bad''"] by (simp_all add: xs_def h_def om_has_def new_view_host_def)
  then show ?thesis unfolding Let_def h_def xs_def by blast
qed

end
