(* ===== verification/Spec2Isabelle.thy ===== *)
theory Spec2Isabelle
  imports CatalogView SessionPane TreeView TerminalView ChangesPane Sessions AHPClient Attachment CatalogSections ChatSession Commands ContextKeys DetailView Dom Events Identity Interfaces Json Json_Laws
    Layout Lifecycle LocalState Management Markdown Navigation Prelude Projection ProtocolText Registries Resources SessionCatalog SharedTerminals Strings
    Terminal Transcript ViewHost ViewRegistry VirtualList Widgets
begin

text \<open>
  A model of the zaw workbench, the browser client of the agent hosts, and of the widgets it is
  built of: the TypeScript sources under \<open>src/packages/ui\<close> and \<open>src/packages/workbench\<close>.

  \<^bold>\<open>The program.\<close>  The workbench shows the sessions of several workspaces.  Each workspace is served
  by an agent host, reached through a JSON-RPC connection (\<open>providers/ahp/ahp-client.ts\<close>) that an
  attachment (\<open>services/workspace-attachment.ts\<close>) opens and closes.  The actions a host sends are
  reduced by the projection (\<open>contrib/sessions/ahp-projection-service.ts\<close>) to the events of the
  chat sessions (\<open>services/chat-session.ts\<close>), to the catalog's entries, the terminals and the
  resources of a workspace.  The views draw these events; the layout, the detail view, the
  navigation and the storage decide what is shown and what survives a reload.  Underneath lie
  emitters, disposables, context keys, registries and commands.

  \<^bold>\<open>How the code is modelled.\<close>  An object with state is a record, its methods are functions from the
  record to the record, in the order of the code's statements.  A method that awaits is split at
  each \<open>await\<close>: one step begins it, a later step of the same name continues it with the outcome as
  argument, and a history is a list of such steps in any order.  An exception or a rejection is a
  value: the \<open>Inl\<close> of a sum, \<open>None\<close>, or a constructor of a result type.  Objects whose identity
  matters (registrations, hosts, terminals, rows of a list) carry a number or live in an explicit
  heap.  A \<open>Map\<close> is the association list of its entries in insertion order, a \<open>Set\<close> a distinct
  list; a value of type \<open>unknown\<close> is a value of the type \<open>json\<close>.  Strings are lists of bytes; numbers that only count
  are naturals, lengths in pixels rationals.

  \<^bold>\<open>The theories.\<close>
  \<^item> \<open>Prelude\<close>, \<open>Strings\<close>, \<open>Json\<close>, \<open>Json_Laws\<close>: maps, sets, lookups out of range, \<open>trim\<close>, \<open>split\<close>, \<open>encodeURIComponent\<close>,
    \<open>JSON.stringify\<close> and \<open>JSON.parse\<close>, and the lemmas all components share.
  \<^item> \<open>Interfaces\<close>: the contracts of several components as locales.  \<open>registry\<close> and
    \<open>ordered_registry\<close> are services that hand out a disposer for each registration; \<open>latest_wins\<close> is
    a loader that numbers its loads so that superseded answers are ignored.  They are interpreted
    on every registry (\<open>Registries\<close>, \<open>ViewRegistry\<close>) and every loader (\<open>Attachment\<close>, \<open>Management\<close>,
    \<open>Resources\<close>, \<open>SessionCatalog\<close>, \<open>Terminal\<close>).
  \<^item> \<open>Events\<close> (\<open>ui/widgets/event.ts\<close>): emitters whose listeners subscribe and unsubscribe while they
    are called; stores of disposables.
  \<^item> \<open>ContextKeys\<close>, \<open>Registries\<close>, \<open>Commands\<close>, \<open>ViewRegistry\<close>, \<open>Lifecycle\<close> (\<open>platform\<close>, the registries of
    \<open>services\<close>, \<open>workbench/contributions\<close>): scopes and watched expressions, registrations, guarded
    execution, start and shutdown of contributions, notifications and theme.
  \<^item> \<open>Identity\<close>, \<open>Navigation\<close>, \<open>ChatSession\<close>, \<open>Attachment\<close>, \<open>LocalState\<close>, \<open>SessionCatalog\<close> (\<open>services\<close>, with
    \<open>contrib/sessions/session-catalog-service.ts\<close>): the active session and its history, the events
    and the draft of each session, the connection to a workspace, what the browser stores, the
    catalog; \<open>CatalogSections\<close> groups and sorts the catalog.
  \<^item> \<open>Management\<close>, \<open>Layout\<close>, \<open>DetailView\<close>, \<open>Terminal\<close>, \<open>Resources\<close>: the administration forms, the parts
    of the window and the automatic hiding of the sidebar, the tabs of a session's details, the
    terminals, the changes and files of a workspace.
  \<^item> \<open>AHPClient\<close>, \<open>ProtocolText\<close>, \<open>Projection\<close>, \<open>SharedTerminals\<close>: requests, answers and the end of a
    connection; the texts read from the protocol's values; the reduction of actions; the heap of
    terminals that the client and the terminal service share.
  \<^item> \<open>Dom\<close>, \<open>Transcript\<close>, \<open>Markdown\<close>: the element trees, the conversation with its updates in place,
    the purification of markdown and drawings.
  \<^item> \<open>VirtualList\<close>, \<open>Widgets\<close>, \<open>Menus\<close>, \<open>TreeView\<close> (\<open>src/packages/ui\<close>): the list that renders only what is
    near the viewport; roving focus and tabs; buttons, toolbars, pickers, dropdowns, selects and
    dialogs; trees.
  \<^item> \<open>Sessions\<close> (\<open>contrib/workspace/workspace-service.ts\<close>, \<open>contrib/sessions/session-service.ts\<close>,
    \<open>session.commands.ts\<close>): attaching, creating, sending and cancelling as tasks with continuation
    frames; \<open>SessionEvents\<close>: what these services tell their listeners; \<open>CatalogView\<close>
    (\<open>session-catalog-view.ts\<close>): the rows of the catalog, their selection, hovering, filter and actions;
    \<open>ViewHost\<close> (\<open>services/workbench-view-host.ts\<close>): mounting and hiding registered views.
  \<^item> \<open>Composer\<close> (\<open>agent-composer.ts\<close>): the editor, pickers and attachments over any owner of a
    composition, the locale \<open>composer_owner\<close>; \<open>Drafts\<close> and \<open>NewSession\<close> (\<open>new-session-view.ts\<close>), \<open>SessionPane\<close>
    (\<open>active-session-view.ts\<close>, \<open>session-pane.ts\<close>): the drafts of sessions that do not exist yet, the view that
    creates a session and the pane that shows one view per session, both interpretations of it.
  \<^item> \<open>Explorer\<close>, \<open>ChangesPane\<close> (\<open>contrib/workspace/workspace-explorer-view.ts\<close>), \<open>TerminalView\<close>
    (\<open>contrib/terminal/terminal-view.ts\<close>): the panes of files, changes and terminals over the services that
    hold them.

  \<^bold>\<open>What the lemmas show.\<close>  Each stateful component has an invariant (\<open>..._ok\<close>, \<open>..._wf\<close>, \<open>..._inv\<close>), a lemma
  per operation that keeps it and one for whole histories (\<open>..._history\<close>), from which the numbered
  properties follow.  Ordering of answers: \<open>superseded_attachment_is_stale\<close>,
  \<open>calls_settle_at_most_once\<close>, \<open>loading_exactly_while_pending\<close> and the other loaders.  Equivalence and
  refinement: streaming equals the snapshot, the updated conversation equals a fresh one, the actions
  of a tool call implement one state machine each.  Specifications independent of the code: no
  script in what is shown, the sections of the catalog, the files whose directories are expanded.
  Round trips: storage, identities, registration and disposal, forms.  Some
  properties state behaviour of the code that differs from what its comments or its other parts
  intend; their texts say so.

  \<^bold>\<open>Bounds and fuel.\<close>  \<open>JSON.parse\<close> is a recursion on fuel; \<open>2 * length + 1\<close> is enough, since every second
  call consumes a character (\<open>Json_Laws\<close>).  The listeners of a change of the layout change the layout again: the
  nesting is bounded by two in \<open>Layout\<close>, and a lemma there shows that a third level changes
  nothing.  The rows of the files are a partial function, as a listing may contain itself: \<open>Explorer\<close>
  has the condition under which it returns and an example where it does not.  All other functions
  terminate by structure or by a measure.

  \<^bold>\<open>Parameters and assumptions.\<close>  Not under \<open>src\<close>, and so arguments of the definitions: the results of
  \<open>marked\<close> with \<open>DOMPurify\<close> and of Mermaid, \<open>Date.parse\<close>, the local day, the collation of titles, the
  resolution of a URL against a base, which may throw, the answers of the hosts and of the HTTP
  server, the callbacks of contributions and commands, the heights of rows.  The storage of the
  layout is assumed to accept what is written to it; \<open>layout-service.ts\<close> does not catch a refusal.

  \<^bold>\<open>Not modelled.\<close>  The construction and the styles of elements, except the document trees of the
  conversation; \<open>management-view.ts\<close>, the title bar and the overlays, and the remaining widgets (scroll and
  split views, quick pick, inputs, badges); the emulator of a terminal, of which only the
  calls are kept; the composition root and the contributions, which bind and register; the HTTP providers, which
  only call \<open>fetch\<close>; the control plane and the agents, which are written in Go.
\<close>

end
